(* ===== verification/Prelude.thy ===== *)
theory Prelude
  imports Main "HOL-Library.Word" "HOL-Library.AList" "HOL-Library.Multiset"
begin

text \<open>
  Shared vocabulary of the development: machine integer types, results that are either an
  error or a value, byte strings, the two standard containers the server uses most
  (\<open>std::unordered_map\<close> as an association list in insertion order, \<open>std::map\<close> and
  \<open>std::multimap\<close> as association lists sorted by key), and the lemmas about them that
  several components need.
\<close>

unbundle bit_operations_syntax

section \<open>Integers, bytes, results\<close>

type_synonym u8 = "8 word"
type_synonym u16 = "16 word"
type_synonym u32 = "32 word"
type_synonym u64 = "64 word"
type_synonym bytes = "8 word list"

named_theorems ok_simps \<open>unfolding rules for operations on well-formed states\<close>
named_theorems inv_intros \<open>preservation of component invariants\<close>

text \<open>\<open>std::size_t\<close> addition on the 64-bit build: it wraps.\<close>

definition sz_add :: "nat \<Rightarrow> nat \<Rightarrow> nat" where
  "sz_add a b = (a + b) mod 2 ^ 64"

lemma sz_add_small [simp]: "a + b < 18446744073709551616 \<Longrightarrow> sz_add a b = a + b"
  by (simp add: sz_add_def)

text \<open>The bytes of a string literal.\<close>

definition str :: "string \<Rightarrow> bytes" where
  "str s = map of_char s"

definition res_bind :: "'e + 'a \<Rightarrow> ('a \<Rightarrow> 'e + 'b) \<Rightarrow> 'e + 'b" where
  "res_bind r f = (case r of Inl e \<Rightarrow> Inl e | Inr x \<Rightarrow> f x)"

lemma res_bind_simps [simp]:
  "res_bind (Inl e) f = Inl e"
  "res_bind (Inr x) f = f x"
  by (simp_all add: res_bind_def)

lemma res_bind_Inr_iff: "res_bind r f = Inr y \<longleftrightarrow> (\<exists>x. r = Inr x \<and> f x = Inr y)"
  by (cases r) auto

lemma res_bind_assoc: "res_bind (res_bind r f) g = res_bind r (\<lambda>x. res_bind (f x) g)"
  by (cases r) auto

lemma take_length_eq_iff: "take (length xs) zs = xs \<longleftrightarrow> (\<exists>r. zs = xs @ r)"
  by (metis append_eq_conv_conj)

lemma word_bit_bound:
  fixes x :: "'a :: len word"
  assumes "x < 2 ^ n" "bit x k"
  shows "k < n"
proof -
  have "x AND mask n = x" using assms(1) by (rule less_mask_eq)
  then have "bit (x AND mask n) k" using assms(2) by simp
  then show ?thesis by (simp add: bit_and_iff bit_mask_iff)
qed

section \<open>Little-endian bytes of a number\<close>

primrec le_bytes :: "nat \<Rightarrow> nat \<Rightarrow> bytes" where
  "le_bytes 0 x = []"
| "le_bytes (Suc n) x = word_of_nat (x mod 256) # le_bytes n (x div 256)"

primrec le_nat :: "bytes \<Rightarrow> nat" where
  "le_nat [] = 0"
| "le_nat (b # bs) = unat b + 256 * le_nat bs"

lemma length_le_bytes [simp]: "length (le_bytes n x) = n"
  by (induction n arbitrary: x) auto

lemma unat_of_byte [simp]: "unat (word_of_nat (x mod 256) :: u8) = x mod 256"
  by (simp add: unat_of_nat)

lemma unat_byte_less: "unat (b :: u8) < 256"
proof -
  have "unat b < 2 ^ LENGTH(8)" by (rule unsigned_less)
  then show ?thesis by simp
qed

lemma unat_ucast_up:
  fixes x :: "'a :: len word"
  assumes "LENGTH('a) \<le> LENGTH('b :: len)"
  shows "unat (ucast x :: 'b word) = unat x"
proof -
  have "unat x < 2 ^ LENGTH('a)" by (rule unsigned_less)
  also have "\<dots> \<le> 2 ^ LENGTH('b)" using assms by simp
  finally show ?thesis by (simp add: unsigned_ucast_eq take_bit_nat_eq_self_iff)
qed

lemma le_nat_bytes: "le_nat (le_bytes n x) = x mod 256 ^ n"
proof (induction n arbitrary: x)
  case (Suc n)
  have "x mod 256 + 256 * (x div 256 mod 256 ^ n) = x mod (256 * 256 ^ n)"
    by (simp add: mod_mult2_eq)
  with Suc show ?case by simp
qed simp

lemma le_nat_bound: "le_nat bs < 256 ^ length bs"
proof (induction bs)
  case (Cons b bs)
  have "unat b < 256" by (rule unat_byte_less)
  moreover have "le_nat bs + 1 \<le> 256 ^ length bs" using Cons by simp
  then have "256 * (le_nat bs + 1) \<le> 256 * 256 ^ length bs" by (rule mult_le_mono2)
  ultimately show ?case by simp
qed simp

lemma le_bytes_nat: "le_bytes (length bs) (le_nat bs) = bs"
proof (induction bs)
  case (Cons b bs)
  have "unat b < 256" by (rule unat_byte_less)
  with Cons show ?case by simp
qed simp

lemma le_nat_unat:
  "le_nat (le_bytes 1 (unat (a :: u8))) = unat a"
  "le_nat (le_bytes 2 (unat (b :: u16))) = unat b"
  "le_nat (le_bytes 4 (unat (c :: u32))) = unat c"
  "le_nat (le_bytes 8 (unat (d :: u64))) = unat d"
proof -
  have "unat a < 2 ^ LENGTH(8)" "unat b < 2 ^ LENGTH(16)"
    "unat c < 2 ^ LENGTH(32)" "unat d < 2 ^ LENGTH(64)"
    by (rule unsigned_less)+
  then show
    "le_nat (le_bytes 1 (unat a)) = unat a" "le_nat (le_bytes 2 (unat b)) = unat b"
    "le_nat (le_bytes 4 (unat c)) = unat c" "le_nat (le_bytes 8 (unat d)) = unat d"
    by (simp_all only: le_nat_bytes) simp_all
qed

text \<open>A number in decimal, as a stream prints it.\<close>

fun show_nat :: "nat \<Rightarrow> bytes" where
  "show_nat n =
     (if n < 10 then [48 + word_of_nat n] else show_nat (n div 10) @ [48 + word_of_nat (n mod 10)])"

declare show_nat.simps [simp del]

section \<open>Ordered containers\<close>

text \<open>
  \<open>std::map\<close>: an association list with strictly increasing keys. \<open>om_put\<close> is
  \<open>m[k] = v\<close>. \<open>std::multimap\<close>: keys non-decreasing; an insertion goes behind the entries
  with an equal key, as the standard requires since C++11.
\<close>

fun om_put :: "'k :: linorder \<Rightarrow> 'v \<Rightarrow> ('k \<times> 'v) list \<Rightarrow> ('k \<times> 'v) list" where
  "om_put k v [] = [(k, v)]"
| "om_put k v ((a, b) # xs) =
     (if k < a then (k, v) # (a, b) # xs
      else if k = a then (k, v) # xs
      else (a, b) # om_put k v xs)"

abbreviation om_sorted :: "('k :: linorder \<times> 'v) list \<Rightarrow> bool" where
  "om_sorted xs \<equiv> sorted_wrt (<) (map fst xs)"

lemma set_fst_om_put: "fst ` set (om_put k v xs) = insert k (fst ` set xs)"
  by (induction k v xs rule: om_put.induct) auto

lemma om_put_sorted: "om_sorted xs \<Longrightarrow> om_sorted (om_put k v xs)"
proof (induction k v xs rule: om_put.induct)
  case (2 k v a b xs)
  have "set (map fst (om_put k v xs)) = insert k (fst ` set xs)"
    using set_fst_om_put [of k v xs] by simp
  with 2 show ?case by (auto intro: order.strict_trans)
qed simp

lemma map_of_om_put: "om_sorted xs \<Longrightarrow> map_of (om_put k v xs) = (map_of xs)(k \<mapsto> v)"
  by (induction k v xs rule: om_put.induct) (auto simp: fun_eq_iff)

lemma om_sorted_distinct: "om_sorted xs \<Longrightarrow> distinct (map fst xs)"
  using strict_sorted_iff by blast

lemma om_sorted_filter: "om_sorted xs \<Longrightarrow> om_sorted (filter P xs)"
  by (induction xs) auto

fun mm_insert :: "'k :: linorder \<Rightarrow> 'v \<Rightarrow> ('k \<times> 'v) list \<Rightarrow> ('k \<times> 'v) list" where
  "mm_insert k v [] = [(k, v)]"
| "mm_insert k v ((a, b) # xs) =
     (if k < a then (k, v) # (a, b) # xs else (a, b) # mm_insert k v xs)"

abbreviation mm_sorted :: "('k :: linorder \<times> 'v) list \<Rightarrow> bool" where
  "mm_sorted xs \<equiv> sorted (map fst xs)"

lemma mset_mm_insert [simp]: "mset (mm_insert k v xs) = add_mset (k, v) (mset xs)"
  by (induction k v xs rule: mm_insert.induct) auto

lemma set_mm_insert [simp]: "set (mm_insert k v xs) = insert (k, v) (set xs)"
  by (induction k v xs rule: mm_insert.induct) auto

lemma length_mm_insert [simp]: "length (mm_insert k v xs) = Suc (length xs)"
  by (induction k v xs rule: mm_insert.induct) auto

lemma mm_insert_sorted: "mm_sorted xs \<Longrightarrow> mm_sorted (mm_insert k v xs)"
  by (induction k v xs rule: mm_insert.induct) fastforce+

lemma mm_insert_ne [simp]: "mm_insert k v xs \<noteq> []"
  by (induction k v xs rule: mm_insert.induct) auto

section \<open>Association lists in insertion order\<close>

lemma map_of_AList_delete: "map_of (AList.delete k xs) = (map_of xs)(k := None)"
  by (rule delete_conv')

lemma map_of_AList_update: "map_of (AList.update k v xs) = (map_of xs)(k \<mapsto> v)"
  by (rule update_conv')

lemma keys_AList_update: "set (map fst (AList.update k v xs)) = insert k (set (map fst xs))"
proof -
  have "dom (map_of (AList.update k v xs)) = insert k (dom (map_of xs))"
    by (simp add: map_of_AList_update)
  then show ?thesis by (simp add: dom_map_of_conv_image_fst)
qed

lemma keys_AList_delete: "set (map fst (AList.delete k xs)) = set (map fst xs) - {k}"
proof -
  have "dom (map_of (AList.delete k xs)) = dom (map_of xs) - {k}"
    by (simp add: map_of_AList_delete)
  then show ?thesis by (simp add: dom_map_of_conv_image_fst)
qed

end
