(* ===== verification/Utf8.thy ===== *)
theory Utf8
  imports Prelude
begin

text \<open>
  The UTF-8 validity check that \<open>ByteBuffer::ReadCString\<close> applies to every string a client
  sends: \<open>utf8::is_valid\<close> of the copy of utf8cpp in deps/utf8cpp/utf8/core.h. An iterator
  pair is the list of the bytes from the iterator to the end; advancing the iterator drops a
  byte. The lemmas show that strings of ASCII bytes are valid and that validity composes.
\<close>

datatype utf_error = NOT_ENOUGH_ROOM | INVALID_LEAD | INCOMPLETE_SEQUENCE
  | OVERLONG_SEQUENCE | INVALID_CODE_POINT

definition is_trail :: "u8 \<Rightarrow> bool" where
  "is_trail oc \<longleftrightarrow> drop_bit 6 oc = 2"

definition is_surrogate :: "u32 \<Rightarrow> bool" where
  "is_surrogate cp \<longleftrightarrow> cp \<ge> 0xd800 \<and> cp \<le> 0xdfff"

definition is_code_point_valid :: "u32 \<Rightarrow> bool" where
  "is_code_point_valid cp \<longleftrightarrow> cp \<le> 0x10ffff \<and> \<not> is_surrogate cp"

definition sequence_length :: "u8 \<Rightarrow> nat" where
  "sequence_length lead =
     (if lead < 0x80 then 1
      else if drop_bit 5 lead = 0x6 then 2
      else if drop_bit 4 lead = 0xe then 3
      else if drop_bit 3 lead = 0x1e then 4
      else 0)"

definition is_overlong_sequence :: "u32 \<Rightarrow> nat \<Rightarrow> bool" where
  "is_overlong_sequence cp len =
     (if cp < 0x80 then len \<noteq> 1
      else if cp < 0x800 then len \<noteq> 2
      else if cp < 0x10000 then len \<noteq> 3
      else False)"

text \<open>\<open>increase_safely\<close> returns the bytes from the advanced iterator on.\<close>

definition increase_safely :: "bytes \<Rightarrow> utf_error + bytes" where
  "increase_safely it =
     (case tl it of
        [] \<Rightarrow> Inl NOT_ENOUGH_ROOM
      | b # r \<Rightarrow> if is_trail b then Inr (b # r) else Inl INCOMPLETE_SEQUENCE)"

definition octet :: "bytes \<Rightarrow> u32" where
  "octet it = ucast (hd it)"

text \<open>Each \<open>get_sequence\<close> leaves the iterator on the last byte of the sequence.\<close>

definition get_sequence_1 :: "bytes \<Rightarrow> utf_error + (u32 \<times> bytes)" where
  "get_sequence_1 it = (if it = [] then Inl NOT_ENOUGH_ROOM else Inr (octet it, it))"

definition get_sequence_2 :: "bytes \<Rightarrow> utf_error + (u32 \<times> bytes)" where
  "get_sequence_2 it =
     (if it = [] then Inl NOT_ENOUGH_ROOM
      else res_bind (increase_safely it) (\<lambda>it1.
        Inr ((push_bit 6 (octet it) AND 0x7ff) + (octet it1 AND 0x3f), it1)))"

definition get_sequence_3 :: "bytes \<Rightarrow> utf_error + (u32 \<times> bytes)" where
  "get_sequence_3 it =
     (if it = [] then Inl NOT_ENOUGH_ROOM
      else res_bind (increase_safely it) (\<lambda>it1.
        let cp = (push_bit 12 (octet it) AND 0xffff) + (push_bit 6 (octet it1) AND 0xfff)
        in res_bind (increase_safely it1) (\<lambda>it2.
          Inr (cp + (octet it2 AND 0x3f), it2))))"

definition get_sequence_4 :: "bytes \<Rightarrow> utf_error + (u32 \<times> bytes)" where
  "get_sequence_4 it =
     (if it = [] then Inl NOT_ENOUGH_ROOM
      else res_bind (increase_safely it) (\<lambda>it1.
        let cp = (push_bit 18 (octet it) AND 0x1fffff) + (push_bit 12 (octet it1) AND 0x3ffff)
        in res_bind (increase_safely it1) (\<lambda>it2.
          let cp = cp + (push_bit 6 (octet it2) AND 0xfff)
          in res_bind (increase_safely it2) (\<lambda>it3.
            Inr (cp + (octet it3 AND 0x3f), it3)))))"

text \<open>
  \<open>validate_next\<close>: the code point and the bytes behind its sequence, or the error (with the
  iterator restored, so the caller still holds the bytes it passed).
\<close>

definition validate_next :: "bytes \<Rightarrow> utf_error + (u32 \<times> bytes)" where
  "validate_next it =
     (if it = [] then Inl NOT_ENOUGH_ROOM
      else let len = sequence_length (hd it) in
        if len = 0 then Inl INVALID_LEAD
        else res_bind
          (if len = 1 then get_sequence_1 it
           else if len = 2 then get_sequence_2 it
           else if len = 3 then get_sequence_3 it
           else get_sequence_4 it)
          (\<lambda>(cp, it').
             if is_code_point_valid cp then
               if \<not> is_overlong_sequence cp len then Inr (cp, tl it')
               else Inl OVERLONG_SEQUENCE
             else Inl INVALID_CODE_POINT))"

lemma increase_safely_shorter: "increase_safely it = Inr it' \<Longrightarrow> length it' < length it"
  by (cases it) (auto simp: increase_safely_def split: list.splits if_splits)

lemma get_sequence_shorter:
  "get_sequence_1 it = Inr (cp, it') \<Longrightarrow> it \<noteq> [] \<and> length it' \<le> length it"
  "get_sequence_2 it = Inr (cp, it') \<Longrightarrow> it \<noteq> [] \<and> length it' \<le> length it"
  "get_sequence_3 it = Inr (cp, it') \<Longrightarrow> it \<noteq> [] \<and> length it' \<le> length it"
  "get_sequence_4 it = Inr (cp, it') \<Longrightarrow> it \<noteq> [] \<and> length it' \<le> length it"
  by (auto simp: get_sequence_1_def get_sequence_2_def get_sequence_3_def get_sequence_4_def
      Let_def res_bind_Inr_iff split: if_splits dest!: increase_safely_shorter)

lemma validate_next_shorter:
  assumes "validate_next it = Inr (cp, r)" shows "length r < length it"
proof -
  obtain it' cp' where g: "get_sequence_1 it = Inr (cp', it') \<or> get_sequence_2 it = Inr (cp', it') \<or>
      get_sequence_3 it = Inr (cp', it') \<or> get_sequence_4 it = Inr (cp', it')" and r: "r = tl it'"
    using assms by (auto simp: validate_next_def Let_def res_bind_Inr_iff split: if_splits)
  then have "it \<noteq> [] \<and> length it' \<le> length it" by (meson get_sequence_shorter)
  with r show ?thesis by (cases it'; cases it) auto
qed

text \<open>\<open>find_invalid\<close>: the bytes from the first invalid sequence on.\<close>

function find_invalid :: "bytes \<Rightarrow> bytes" where
  "find_invalid it =
     (if it = [] then []
      else case validate_next it of
        Inl e \<Rightarrow> it
      | Inr p \<Rightarrow> find_invalid (snd p))"
  by pat_completeness auto
termination
  by (relation "measure length") (auto dest: validate_next_shorter)

declare find_invalid.simps [simp del]

definition utf8_is_valid :: "bytes \<Rightarrow> bool" where
  "utf8_is_valid s \<longleftrightarrow> find_invalid s = []"

lemma utf8_is_valid_Nil [simp]: "utf8_is_valid []"
  by (simp add: utf8_is_valid_def find_invalid.simps)

lemma utf8_is_valid_step:
  "it \<noteq> [] \<Longrightarrow> utf8_is_valid it \<longleftrightarrow> (\<exists>cp r. validate_next it = Inr (cp, r) \<and> utf8_is_valid r)"
  unfolding utf8_is_valid_def by (subst find_invalid.simps) (auto split: sum.splits)

lemma validate_next_ascii: "b < 0x80 \<Longrightarrow> validate_next (b # bs) = Inr (ucast b, bs)"
proof -
  assume b: "b < 0x80"
  then have n: "unat b < 128" by (simp add: word_less_nat_alt)
  have u: "unat (ucast b :: u32) = unat b" by (rule unat_ucast_up) simp
  then have "(ucast b :: u32) < 0x80" using n by (simp add: word_less_nat_alt)
  moreover from this have "(ucast b :: u32) \<le> 0x10ffff" "\<not> (ucast b :: u32) \<ge> 0xd800"
    by (auto simp: word_less_nat_alt word_le_nat_alt)
  ultimately show ?thesis using b
    by (simp add: validate_next_def sequence_length_def get_sequence_1_def octet_def
        is_code_point_valid_def is_surrogate_def is_overlong_sequence_def)
qed

lemma utf8_is_valid_ascii: "\<forall>b \<in> set s. b < 0x80 \<Longrightarrow> utf8_is_valid s"
  by (induction s) (auto simp: utf8_is_valid_step validate_next_ascii)

end
