(* ===== verification/ByteBuffer.thy ===== *)
theory ByteBuffer
  imports Utf8
begin

text \<open>
  \<open>ByteBuffer\<close> of src/server/shared/Packets: the growable byte store with a read and a write
  position under every packet the server reads or writes. Exceptions, failed assertions and
  accesses outside the storage are values of \<open>bb_error\<close>; the positions are
  \<open>std::size_t\<close>, so the sums the bounds checks compare wrap at 64 bits. Multi-byte values are
  little-endian (the x86 build, where \<open>EndianConvert\<close> does nothing). The locale
  \<open>wire_codec\<close> states what a stream operator pair promises, for one value and for a
  sequence of them; the operators are shown to meet it.
\<close>

section \<open>State and errors\<close>

record byte_buffer =
  bb_rpos :: nat
  bb_wpos :: nat
  bb_storage :: bytes

text \<open>
  \<open>PositionException add pos size valueSize\<close> keeps the arguments in the constructor's order.
  \<open>AssertionFailure\<close> aborts the process; \<open>OutOfBounds\<close> is undefined behaviour of the code.
\<close>

datatype bb_error =
    PositionException bool nat nat nat
  | InvalidValueException string bytes
  | EmptyBufferException
  | AssertionFailure
  | OutOfBounds

text \<open>The message that \<open>ByteBufferPositionException\<close> builds from its arguments.\<close>

definition position_exception_message :: "bool \<Rightarrow> nat \<Rightarrow> nat \<Rightarrow> nat \<Rightarrow> bytes" where
  "position_exception_message add pos sz valueSize =
     str ''Attempted to '' @ (if add then str ''put'' else str ''get'')
     @ str '' value with size: '' @ show_nat valueSize
     @ str '' in ByteBuffer (pos: '' @ show_nat pos @ str '' size: '' @ show_nat sz @ str '')''"

definition bb_new :: byte_buffer where
  "bb_new = \<lparr>bb_rpos = 0, bb_wpos = 0, bb_storage = []\<rparr>"

definition bb_size :: "byte_buffer \<Rightarrow> nat" where
  "bb_size b = length (bb_storage b)"

definition bb_clear :: "byte_buffer \<Rightarrow> byte_buffer" where
  "bb_clear b = b\<lparr>bb_storage := [], bb_rpos := 0, bb_wpos := 0\<rparr>"

text \<open>The move constructor: the new buffer and what is left of the source.\<close>

definition bb_move :: "byte_buffer \<Rightarrow> byte_buffer \<times> byte_buffer" where
  "bb_move buf =
     (\<lparr>bb_rpos = bb_rpos buf, bb_wpos = bb_wpos buf, bb_storage = bb_storage buf\<rparr>,
      buf\<lparr>bb_storage := [], bb_rpos := 0, bb_wpos := 0\<rparr>)"

definition bb_set_rpos :: "nat \<Rightarrow> byte_buffer \<Rightarrow> byte_buffer" where
  "bb_set_rpos p b = b\<lparr>bb_rpos := p\<rparr>"

definition bb_set_wpos :: "nat \<Rightarrow> byte_buffer \<Rightarrow> byte_buffer" where
  "bb_set_wpos p b = b\<lparr>bb_wpos := p\<rparr>"

definition bb_rfinish :: "byte_buffer \<Rightarrow> byte_buffer" where
  "bb_rfinish b = b\<lparr>bb_rpos := bb_wpos b\<rparr>"

text \<open>\<open>std::vector::resize(n, 0)\<close>, and \<open>ByteBuffer::resize\<close>, which resets the positions.\<close>

definition vec_resize :: "nat \<Rightarrow> bytes \<Rightarrow> bytes" where
  "vec_resize n xs = take n xs @ replicate (n - length xs) 0"

definition bb_resize :: "nat \<Rightarrow> byte_buffer \<Rightarrow> byte_buffer" where
  "bb_resize n b =
     b\<lparr>bb_storage := vec_resize n (bb_storage b), bb_rpos := 0,
       bb_wpos := length (vec_resize n (bb_storage b))\<rparr>"

definition bb_index :: "nat \<Rightarrow> byte_buffer \<Rightarrow> bb_error + u8" where
  "bb_index pos b =
     (if pos \<ge> bb_size b then Inl (PositionException False pos 1 (bb_size b))
      else Inr (bb_storage b ! pos))"

definition bb_contents :: "byte_buffer \<Rightarrow> bb_error + bytes" where
  "bb_contents b = (if bb_storage b = [] then Inl EmptyBufferException else Inr (bb_storage b))"

section \<open>Writing\<close>

text \<open>
  \<open>append(src, cnt)\<close>. The storage grows with zero bytes to the new size when it is too
  short, then the bytes are copied to the write position; capacity is not modelled.
\<close>

definition bb_append :: "bytes \<Rightarrow> byte_buffer \<Rightarrow> bb_error + byte_buffer" where
  "bb_append src b =
     (if src = [] then Inl AssertionFailure
      else if \<not> bb_size b < 10000000 then Inl AssertionFailure
      else
        let newSize = sz_add (bb_wpos b) (length src);
            st = (if bb_size b < newSize then vec_resize newSize (bb_storage b) else bb_storage b)
        in if bb_wpos b + length src \<le> length st
           then Inr (b\<lparr>bb_storage := take (bb_wpos b) st @ src @ drop (bb_wpos b + length src) st,
                       bb_wpos := newSize\<rparr>)
           else Inl OutOfBounds)"

definition bb_append_buffer :: "byte_buffer \<Rightarrow> byte_buffer \<Rightarrow> bb_error + byte_buffer" where
  "bb_append_buffer buffer b =
     (if bb_wpos buffer \<noteq> 0 then
        res_bind (bb_contents buffer) (\<lambda>src.
          if bb_wpos buffer \<le> length src then bb_append (take (bb_wpos buffer) src) b
          else Inl OutOfBounds)
      else Inr b)"

text \<open>\<open>put(pos, src, cnt)\<close> overwrites bytes already written.\<close>

definition bb_put :: "nat \<Rightarrow> bytes \<Rightarrow> byte_buffer \<Rightarrow> bb_error + byte_buffer" where
  "bb_put pos src b =
     (if \<not> sz_add pos (length src) \<le> bb_size b then Inl AssertionFailure
      else if src = [] then Inl AssertionFailure
      else if pos + length src \<le> bb_size b
      then Inr (b\<lparr>bb_storage := take pos (bb_storage b) @ src
                   @ drop (pos + length src) (bb_storage b)\<rparr>)
      else Inl OutOfBounds)"

definition bb_put_u8 :: "u8 \<Rightarrow> byte_buffer \<Rightarrow> bb_error + byte_buffer" where
  "bb_put_u8 v = bb_append (le_bytes 1 (unat v))"

definition bb_put_bool :: "bool \<Rightarrow> byte_buffer \<Rightarrow> bb_error + byte_buffer" where
  "bb_put_bool v = bb_put_u8 (if v then 1 else 0)"

definition bb_put_u16 :: "u16 \<Rightarrow> byte_buffer \<Rightarrow> bb_error + byte_buffer" where
  "bb_put_u16 v = bb_append (le_bytes 2 (unat v))"

definition bb_put_u32 :: "u32 \<Rightarrow> byte_buffer \<Rightarrow> bb_error + byte_buffer" where
  "bb_put_u32 v = bb_append (le_bytes 4 (unat v))"

definition bb_put_u64 :: "u64 \<Rightarrow> byte_buffer \<Rightarrow> bb_error + byte_buffer" where
  "bb_put_u64 v = bb_append (le_bytes 8 (unat v))"

text \<open>\<open>put<uint32>(pos, value)\<close>, used to fill in a count once the entries are written.\<close>

definition bb_put_u32_at :: "nat \<Rightarrow> u32 \<Rightarrow> byte_buffer \<Rightarrow> bb_error + byte_buffer" where
  "bb_put_u32_at pos v = bb_put pos (le_bytes 4 (unat v))"

definition bb_put_string :: "bytes \<Rightarrow> byte_buffer \<Rightarrow> bb_error + byte_buffer" where
  "bb_put_string s b =
     res_bind (if length s \<noteq> 0 then bb_append s b else Inr b) (\<lambda>b. bb_append [0] b)"

text \<open>
  \<open>appendPackGUID\<close>: a mask byte, then the non-zero bytes of the GUID from the lowest on.
  The loop keeps the mask and the bytes of \<open>packGUID\<close> behind it.
\<close>

lemma unat_drop_8_less: "guid \<noteq> 0 \<Longrightarrow> unat (drop_bit 8 guid :: u64) < unat guid"
proof -
  assume "guid \<noteq> 0"
  then have "unat guid > 0" by (simp add: unat_gt_0)
  moreover have "unat (drop_bit 8 guid) = drop_bit 8 (unat guid)"
    by (simp only: unsigned_drop_bit_eq take_bit_nat_eq_self [OF unsigned_less])
  ultimately show ?thesis by (simp only: drop_bit_eq_div) simp
qed

function pack_guid_loop :: "u64 \<Rightarrow> nat \<Rightarrow> u8 \<Rightarrow> bytes \<Rightarrow> u8 \<times> bytes" where
  "pack_guid_loop guid i gm out =
     (if guid \<noteq> 0 then
        if guid AND 0xFF \<noteq> 0
        then pack_guid_loop (drop_bit 8 guid) (i + 1) (gm OR push_bit i 1)
               (out @ [ucast (guid AND 0xFF)])
        else pack_guid_loop (drop_bit 8 guid) (i + 1) gm out
      else (gm, out))"
  by pat_completeness auto
termination
  by (relation "measure (\<lambda>(g, i, m, out). unat g)") (simp_all add: unat_drop_8_less)

declare pack_guid_loop.simps [simp del]

definition pack_guid :: "u64 \<Rightarrow> bytes" where
  "pack_guid guid = (let (gm, out) = pack_guid_loop guid 0 0 [] in gm # out)"

definition bb_append_pack_guid :: "u64 \<Rightarrow> byte_buffer \<Rightarrow> bb_error + byte_buffer" where
  "bb_append_pack_guid guid = bb_append (pack_guid guid)"

section \<open>Reading\<close>

text \<open>\<open>read<T>(pos)\<close> for a type of \<open>n\<close> bytes.\<close>

definition bb_read_at :: "nat \<Rightarrow> nat \<Rightarrow> byte_buffer \<Rightarrow> bb_error + bytes" where
  "bb_read_at n pos b =
     (if sz_add pos n > bb_size b then Inl (PositionException False pos n (bb_size b))
      else if pos + n \<le> bb_size b then Inr (take n (drop pos (bb_storage b)))
      else Inl OutOfBounds)"

definition bb_read :: "nat \<Rightarrow> byte_buffer \<Rightarrow> bb_error + (bytes \<times> byte_buffer)" where
  "bb_read n b =
     res_bind (bb_read_at n (bb_rpos b) b) (\<lambda>bs. Inr (bs, b\<lparr>bb_rpos := sz_add (bb_rpos b) n\<rparr>))"

definition bb_read_skip :: "nat \<Rightarrow> byte_buffer \<Rightarrow> bb_error + byte_buffer" where
  "bb_read_skip skip b =
     (if sz_add (bb_rpos b) skip > bb_size b
      then Inl (PositionException False (bb_rpos b) skip (bb_size b))
      else Inr (b\<lparr>bb_rpos := sz_add (bb_rpos b) skip\<rparr>))"

definition bb_get_u8 :: "byte_buffer \<Rightarrow> bb_error + (u8 \<times> byte_buffer)" where
  "bb_get_u8 b = res_bind (bb_read 1 b) (\<lambda>(bs, b). Inr (word_of_nat (le_nat bs), b))"

text \<open>\<open>read<char>() > 0\<close>: the byte is compared as a signed value.\<close>

definition bb_get_bool :: "byte_buffer \<Rightarrow> bb_error + (bool \<times> byte_buffer)" where
  "bb_get_bool b = res_bind (bb_get_u8 b) (\<lambda>(c, b). Inr (0 < sint c, b))"

definition bb_get_u16 :: "byte_buffer \<Rightarrow> bb_error + (u16 \<times> byte_buffer)" where
  "bb_get_u16 b = res_bind (bb_read 2 b) (\<lambda>(bs, b). Inr (word_of_nat (le_nat bs), b))"

definition bb_get_u32 :: "byte_buffer \<Rightarrow> bb_error + (u32 \<times> byte_buffer)" where
  "bb_get_u32 b = res_bind (bb_read 4 b) (\<lambda>(bs, b). Inr (word_of_nat (le_nat bs), b))"

definition bb_get_u64 :: "byte_buffer \<Rightarrow> bb_error + (u64 \<times> byte_buffer)" where
  "bb_get_u64 b = res_bind (bb_read 8 b) (\<lambda>(bs, b). Inr (word_of_nat (le_nat bs), b))"

text \<open>
  \<open>operator>>\<close> for \<open>float\<close> and \<open>double\<close>, on the bits of the IEEE value: \<open>std::isfinite\<close>
  fails when every exponent bit is set. The position has moved when the exception is thrown,
  but the packet is dropped then, so only the error is kept.
\<close>

definition float_finite :: "u32 \<Rightarrow> bool" where
  "float_finite v \<longleftrightarrow> drop_bit 23 v AND 0xFF \<noteq> 0xFF"

definition double_finite :: "u64 \<Rightarrow> bool" where
  "double_finite v \<longleftrightarrow> drop_bit 52 v AND 0x7FF \<noteq> 0x7FF"

definition bb_get_float :: "byte_buffer \<Rightarrow> bb_error + (u32 \<times> byte_buffer)" where
  "bb_get_float b =
     res_bind (bb_get_u32 b) (\<lambda>(v, b).
       if \<not> float_finite v then Inl (InvalidValueException ''float'' (str ''infinity''))
       else Inr (v, b))"

definition bb_get_double :: "byte_buffer \<Rightarrow> bb_error + (u64 \<times> byte_buffer)" where
  "bb_get_double b =
     res_bind (bb_get_u64 b) (\<lambda>(v, b).
       if \<not> double_finite v then Inl (InvalidValueException ''double'' (str ''infinity''))
       else Inr (v, b))"

text \<open>
  The loop of \<open>ReadCString\<close>: bytes up to a NUL, which is consumed, or up to the end of the
  buffer. Its fuel is the number of bytes left.
\<close>

fun read_cstring_loop :: "nat \<Rightarrow> bytes \<Rightarrow> byte_buffer \<Rightarrow> bb_error + (bytes \<times> byte_buffer)" where
  "read_cstring_loop 0 acc b = Inr (acc, b)"
| "read_cstring_loop (Suc n) acc b =
     (if bb_rpos b < bb_size b then
        res_bind (bb_get_u8 b) (\<lambda>(c, b).
          if c = 0 then Inr (acc, b) else read_cstring_loop n (acc @ [c]) b)
      else Inr (acc, b))"

definition bb_read_cstring :: "bool \<Rightarrow> byte_buffer \<Rightarrow> bb_error + (bytes \<times> byte_buffer)" where
  "bb_read_cstring requireValidUtf8 b =
     res_bind (read_cstring_loop (bb_size b - bb_rpos b) [] b) (\<lambda>(v, b).
       if requireValidUtf8 \<and> \<not> utf8_is_valid v then Inl (InvalidValueException ''string'' v)
       else Inr (v, b))"

definition bb_get_string :: "byte_buffer \<Rightarrow> bb_error + (bytes \<times> byte_buffer)" where
  "bb_get_string = bb_read_cstring True"

text \<open>\<open>readPackGUID\<close>: the loop over the eight bits of the mask.\<close>

fun read_pack_loop :: "nat \<Rightarrow> nat \<Rightarrow> u8 \<Rightarrow> u64 \<Rightarrow> byte_buffer \<Rightarrow> bb_error + (u64 \<times> byte_buffer)" where
  "read_pack_loop 0 i gm guid b = Inr (guid, b)"
| "read_pack_loop (Suc n) i gm guid b =
     (if gm AND push_bit i 1 \<noteq> 0 then
        if sz_add (bb_rpos b) 1 > bb_size b
        then Inl (PositionException False (bb_rpos b) 1 (bb_size b))
        else res_bind (bb_get_u8 b) (\<lambda>(v, b).
          read_pack_loop n (i + 1) gm (guid OR push_bit (i * 8) (ucast v)) b)
      else read_pack_loop n (i + 1) gm guid b)"

definition bb_read_pack_guid :: "byte_buffer \<Rightarrow> bb_error + (u64 \<times> byte_buffer)" where
  "bb_read_pack_guid b =
     (if sz_add (bb_rpos b) 1 > bb_size b
      then Inl (PositionException False (bb_rpos b) 1 (bb_size b))
      else res_bind (bb_get_u8 b) (\<lambda>(gm, b). read_pack_loop 8 0 gm 0 b))"

section \<open>The promise of a stream operator pair\<close>

definition bb_at_end :: "byte_buffer \<Rightarrow> bool" where
  "bb_at_end b \<longleftrightarrow> bb_wpos b = bb_size b"

definition bb_extend :: "bytes \<Rightarrow> byte_buffer \<Rightarrow> byte_buffer" where
  "bb_extend bs b = b\<lparr>bb_storage := bb_storage b @ bs, bb_wpos := bb_wpos b + length bs\<rparr>"

text \<open>The bytes \<open>bs\<close> are the next ones to be read (and the buffer is of a real size).\<close>

definition bb_next :: "bytes \<Rightarrow> byte_buffer \<Rightarrow> bool" where
  "bb_next bs b \<longleftrightarrow> take (length bs) (drop (bb_rpos b) (bb_storage b)) = bs
     \<and> bb_size b < 2 ^ 62"

definition bb_skip :: "nat \<Rightarrow> byte_buffer \<Rightarrow> byte_buffer" where
  "bb_skip n b = b\<lparr>bb_rpos := bb_rpos b + n\<rparr>"

lemma bb_sel_simps [simp]:
  "bb_rpos (bb_extend bs b) = bb_rpos b"
  "bb_wpos (bb_extend bs b) = bb_wpos b + length bs"
  "bb_storage (bb_extend bs b) = bb_storage b @ bs"
  "bb_size (bb_extend bs b) = bb_size b + length bs"
  "bb_rpos (bb_skip n b) = bb_rpos b + n"
  "bb_wpos (bb_skip n b) = bb_wpos b"
  "bb_storage (bb_skip n b) = bb_storage b"
  "bb_size (bb_skip n b) = bb_size b"
  by (simp_all add: bb_extend_def bb_skip_def bb_size_def)

lemma bb_at_end_extend [simp]: "bb_at_end b \<Longrightarrow> bb_at_end (bb_extend bs b)"
  by (simp add: bb_at_end_def)

lemma bb_extend_extend [simp]: "bb_extend cs (bb_extend bs b) = bb_extend (bs @ cs) b"
  by (simp add: bb_extend_def)

lemma bb_extend_Nil [simp]: "bb_extend [] b = b"
  by (simp add: bb_extend_def)

lemma bb_skip_skip [simp]: "bb_skip m (bb_skip n b) = bb_skip (n + m) b"
  by (simp add: bb_skip_def add.assoc)

lemma bb_skip_0 [simp]: "bb_skip 0 b = b"
  by (simp add: bb_skip_def)

lemma bb_nextD:
  assumes "bb_next bs b" "bs \<noteq> []"
  shows "bb_rpos b + length bs \<le> bb_size b"
proof -
  have "length bs \<le> length (drop (bb_rpos b) (bb_storage b))"
    using assms(1) by (metis bb_next_def length_take min.cobounded1)
  with assms(2) show ?thesis by (cases bs) (auto simp: bb_size_def)
qed

lemma bb_next_append:
  "bb_next (bs @ cs) b \<longleftrightarrow> bb_next bs b \<and> bb_next cs (bb_skip (length bs) b)"
proof -
  have "take (length (bs @ cs)) zs = bs @ cs \<longleftrightarrow>
      take (length bs) zs = bs \<and> take (length cs) (drop (length bs) zs) = cs" for zs
  proof
    assume "take (length (bs @ cs)) zs = bs @ cs"
    then obtain r where "zs = (bs @ cs) @ r" by (auto simp only: take_length_eq_iff)
    then show "take (length bs) zs = bs \<and> take (length cs) (drop (length bs) zs) = cs" by simp
  next
    assume r: "take (length bs) zs = bs \<and> take (length cs) (drop (length bs) zs) = cs"
    then obtain q where q: "zs = bs @ q" by (auto simp only: take_length_eq_iff)
    with r show "take (length (bs @ cs)) zs = bs @ cs" by simp
  qed
  from this [of "drop (bb_rpos b) (bb_storage b)"] show ?thesis
    by (auto simp: bb_next_def add.commute)
qed

lemma bb_append_at_end [ok_simps]:
  assumes "bs \<noteq> []" "bb_at_end b" "bb_size b < 10000000" "length bs \<le> 10000000"
  shows "bb_append bs b = Inr (bb_extend bs b)"
proof -
  have "sz_add (bb_wpos b) (length bs) = bb_size b + length bs"
    using assms by (simp add: bb_at_end_def)
  then show ?thesis using assms
    by (simp add: bb_append_def bb_at_end_def bb_size_def vec_resize_def bb_extend_def Let_def)
qed

lemma bb_read_next [ok_simps]:
  assumes "bb_next bs b" "bs \<noteq> []"
  shows "bb_read (length bs) b = Inr (bs, bb_skip (length bs) b)"
  using bb_nextD [OF assms] assms
  by (simp add: bb_read_def bb_read_at_def bb_next_def bb_skip_def)

text \<open>
  What a pair of stream operators promises: writing at the end of the buffer appends the
  encoding of the value, and reading where the encoding comes next gives the value back and
  moves past it. \<open>kind\<close> says which of the reading operators belongs to the value.
\<close>

primrec put_all :: "('a \<Rightarrow> byte_buffer \<Rightarrow> bb_error + byte_buffer) \<Rightarrow> 'a list \<Rightarrow> byte_buffer
    \<Rightarrow> bb_error + byte_buffer" where
  "put_all put [] b = Inr b"
| "put_all put (x # xs) b = res_bind (put x b) (put_all put xs)"

primrec get_all :: "('k \<Rightarrow> byte_buffer \<Rightarrow> bb_error + ('a \<times> byte_buffer)) \<Rightarrow> 'k list \<Rightarrow> byte_buffer
    \<Rightarrow> bb_error + ('a list \<times> byte_buffer)" where
  "get_all get [] b = Inr ([], b)"
| "get_all get (k # ks) b =
     res_bind (get k b) (\<lambda>(x, b). res_bind (get_all get ks b) (\<lambda>(xs, b). Inr (x # xs, b)))"

locale wire_codec =
  fixes put :: "'a \<Rightarrow> byte_buffer \<Rightarrow> bb_error + byte_buffer"
    and get :: "'k \<Rightarrow> byte_buffer \<Rightarrow> bb_error + ('a \<times> byte_buffer)"
    and kind :: "'a \<Rightarrow> 'k"
    and enc :: "'a \<Rightarrow> bytes"
    and ok :: "'a \<Rightarrow> bool"
  assumes enc_ne: "enc x \<noteq> []"
    and put_enc: "ok x \<Longrightarrow> bb_at_end b \<Longrightarrow> bb_size b + length (enc x) \<le> 10000000
      \<Longrightarrow> put x b = Inr (bb_extend (enc x) b)"
    and get_enc: "ok x \<Longrightarrow> bb_next (enc x) b
      \<Longrightarrow> get (kind x) b = Inr (x, bb_skip (length (enc x)) b)"
begin

definition enc_all :: "'a list \<Rightarrow> bytes" where
  "enc_all xs = concat (map enc xs)"

lemma put_all_enc:
  "list_all ok xs \<Longrightarrow> bb_at_end b \<Longrightarrow> bb_size b + length (enc_all xs) \<le> 10000000
   \<Longrightarrow> put_all put xs b = Inr (bb_extend (enc_all xs) b)"
  by (induction xs arbitrary: b) (simp_all add: enc_all_def put_enc)

lemma get_all_enc:
  "list_all ok xs \<Longrightarrow> bb_next (enc_all xs) b
   \<Longrightarrow> get_all get (map kind xs) b = Inr (xs, bb_skip (length (enc_all xs)) b)"
  by (induction xs arbitrary: b) (simp_all add: enc_all_def get_enc bb_next_append)

lemma message_roundtrip:
  assumes "list_all ok xs" "length (enc_all xs) \<le> 10000000"
  shows "\<exists>b b'. put_all put xs bb_new = Inr b \<and> bb_storage b = enc_all xs
    \<and> get_all get (map kind xs) b = Inr (xs, b') \<and> bb_rpos b' = bb_size b"
proof -
  let ?b = "bb_extend (enc_all xs) bb_new"
  have n: "bb_at_end bb_new" "bb_size bb_new = 0" "bb_rpos bb_new = 0" "bb_storage bb_new = []"
    by (simp_all add: bb_at_end_def bb_new_def bb_size_def)
  have "put_all put xs bb_new = Inr ?b" using assms n by (simp add: put_all_enc)
  moreover have "bb_next (enc_all xs) ?b" using assms n by (simp add: bb_next_def)
  then have "get_all get (map kind xs) ?b = Inr (xs, bb_skip (length (enc_all xs)) ?b)"
    using assms by (simp add: get_all_enc)
  ultimately show ?thesis using n
    by (intro exI [of _ ?b] exI [of _ "bb_skip (length (enc_all xs)) ?b"]) simp
qed

lemma enc_prefix_free:
  assumes "ok x" "ok y" "kind x = kind y" "enc x @ r = enc y @ s"
    and "length (enc x @ r) < 2 ^ 62"
  shows "x = y"
proof -
  let ?b = "\<lparr>bb_rpos = 0, bb_wpos = 0, bb_storage = enc x @ r\<rparr>"
  have "bb_next (enc x) ?b" using assms(5) by (simp add: bb_next_def bb_size_def)
  then have "get (kind x) ?b = Inr (x, bb_skip (length (enc x)) ?b)"
    using assms(1) by (rule get_enc [rotated])
  moreover have "bb_next (enc y) ?b"
    using assms(5) unfolding assms(4) by (simp add: bb_next_def bb_size_def)
  then have "get (kind y) ?b = Inr (y, bb_skip (length (enc y)) ?b)"
    using assms(2) by (rule get_enc [rotated])
  ultimately have "(Inr (x, bb_skip (length (enc x)) ?b) :: bb_error + _)
      = Inr (y, bb_skip (length (enc y)) ?b)"
    using assms(3) by (metis (no_types))
  then show ?thesis by blast
qed

end

end
