(* ===== verification/Packets.thy ===== *)
theory Packets
  imports ByteBuffer
begin

text \<open>
  The stream operators of \<open>ByteBuffer\<close> meet the contract \<open>wire_codec\<close>: every field the
  server writes to a packet is read back by the matching operator, so whole packets
  round-trip. Also \<open>WorldPacket\<close>, a byte buffer with an opcode.
\<close>

section \<open>Packed GUIDs\<close>

text \<open>What the writing loop computes, by the number of bytes still looked at.\<close>

primrec pack_mask :: "nat \<Rightarrow> nat \<Rightarrow> u64 \<Rightarrow> u8" where
  "pack_mask 0 i g = 0"
| "pack_mask (Suc n) i g =
     (if g AND 0xFF \<noteq> 0 then push_bit i 1 else 0) OR pack_mask n (Suc i) (drop_bit 8 g)"

primrec pack_rest :: "nat \<Rightarrow> u64 \<Rightarrow> bytes" where
  "pack_rest 0 g = []"
| "pack_rest (Suc n) g =
     (if g AND 0xFF \<noteq> 0 then [ucast (g AND 0xFF)] else []) @ pack_rest n (drop_bit 8 g)"

lemma pack_zero [simp]: "pack_mask n i 0 = 0" "pack_rest n 0 = []"
  by (induction n arbitrary: i) simp_all

lemma length_pack_rest: "length (pack_rest n g) \<le> n"
  by (induction n arbitrary: g) (auto simp: le_SucI)

lemma pack_guid_loop_spec:
  "drop_bit (8 * n) g = 0 \<Longrightarrow>
   pack_guid_loop g i m out = (m OR pack_mask n i g, out @ pack_rest n g)"
proof (induction n arbitrary: g i m out)
  case 0
  then show ?case by (simp add: pack_guid_loop.simps)
next
  case (Suc n)
  show ?case
  proof (cases "g = 0")
    case True
    then show ?thesis by (simp add: pack_guid_loop.simps)
  next
    case False
    have "drop_bit (8 * n) (drop_bit 8 g) = 0"
      using Suc.prems by (simp only: drop_bit_drop_bit) (simp add: add.commute)
    note IH = Suc.IH [OF this]
    have "pack_guid_loop g i m out =
        (if g AND 0xFF \<noteq> 0
         then pack_guid_loop (drop_bit 8 g) (i + 1) (m OR push_bit i 1) (out @ [ucast (g AND 0xFF)])
         else pack_guid_loop (drop_bit 8 g) (i + 1) m out)"
      using False by (subst pack_guid_loop.simps) (simp only: if_True simp_thms)
    then show ?thesis by (simp only: IH) (simp add: or.assoc)
  qed
qed

lemma drop_bit_64 [simp]: "drop_bit 64 (g :: u64) = 0"
proof (rule bit_word_eqI)
  fix n
  have "\<not> bit g (64 + n)" using bit_imp_le_length [of g "64 + n"] by auto
  then show "bit (drop_bit 64 g) n = bit 0 n"
    by (simp only: bit_drop_bit_eq comp_def bit_0_eq bot_apply) simp
qed

lemma pack_guid_eq: "pack_guid g = pack_mask 8 0 g # pack_rest 8 g"
  using pack_guid_loop_spec [of 8 g 0 0 "[]"] by (simp add: pack_guid_def)

lemma byte_nonzero_iff: "(g :: u64) AND 0xFF \<noteq> 0 \<longleftrightarrow> (\<exists>j < 8. bit g j)"
proof -
  have "(0xFF :: u64) = mask 8" by (simp add: mask_eq_exp_minus_1)
  then have "g AND 0xFF = take_bit 8 g" by (simp add: take_bit_eq_mask)
  moreover have "take_bit 8 g \<noteq> 0 \<longleftrightarrow> (\<exists>j < 8. bit g j)"
  proof (cases "\<exists>j < 8. bit g j")
    case True
    then obtain j where "bit (take_bit 8 g) j" by (auto simp: bit_take_bit_iff)
    then have "take_bit 8 g \<noteq> 0" by (cases "take_bit 8 g = 0") simp_all
    with True show ?thesis by simp
  next
    case False
    then have "take_bit 8 g = 0" by (intro bit_word_eqI) (auto simp: bit_take_bit_iff)
    with False show ?thesis by simp
  qed
  ultimately show ?thesis by simp
qed

lemma bit_pack_mask:
  "bit (pack_mask n i g) k \<longleftrightarrow> i \<le> k \<and> k < i + n \<and> k < 8 \<and> drop_bit (8 * (k - i)) g AND 0xFF \<noteq> 0"
proof (induction n arbitrary: i g k)
  case (Suc n)
  note IH = Suc.IH [of "Suc i" "drop_bit 8 g" k]
  have shift: "drop_bit (8 * (k - Suc i)) (drop_bit 8 g) = drop_bit (8 * (k - i)) g" if "Suc i \<le> k"
  proof -
    have "8 * (k - Suc i) + 8 = 8 * (k - i)" using that by simp
    then show ?thesis by (simp only: drop_bit_drop_bit)
  qed
  have bp: "bit (push_bit i (1 :: u8)) k \<longleftrightarrow> k = i \<and> k < 8"
    by (auto simp: bit_exp_iff)
  show ?case
  proof (cases "Suc i \<le> k")
    case True
    then show ?thesis using IH shift bp by (auto simp: bit_or_iff simp del: push_bit_of_1)
  next
    case False
    then show ?thesis using IH bp by (auto simp: bit_or_iff simp del: push_bit_of_1)
  qed
qed simp


text \<open>The next byte of the packed form, and what the reader makes of it.\<close>

definition low_byte :: "u64 \<Rightarrow> u8" where
  "low_byte g = ucast (g AND 0xFF)"

lemma bit_low_byte: "bit (ucast (low_byte g) :: u64) k \<longleftrightarrow> k < 8 \<and> bit g k"
proof -
  have m: "(0xFF :: u64) = mask 8" by (simp add: mask_eq_exp_minus_1)
  show ?thesis unfolding low_byte_def m
    by (auto simp: bit_unsigned_iff bit_and_iff bit_mask_iff possible_bit_def)
qed

lemma pack_step_bits:
  assumes "i < 8"
  shows "(acc OR push_bit (8 * i) (ucast (low_byte g)))
      OR push_bit (8 * Suc i) (take_bit (8 * n) (drop_bit 8 g))
    = acc OR push_bit (8 * i) (take_bit (8 * Suc n) (g :: u64))"
proof (rule bit_word_eqI)
  fix k assume "k < LENGTH(64)"
  then show "bit ((acc OR push_bit (8 * i) (ucast (low_byte g)))
      OR push_bit (8 * Suc i) (take_bit (8 * n) (drop_bit 8 g))) k
    = bit (acc OR push_bit (8 * i) (take_bit (8 * Suc n) g)) k"
    by (cases "8 * Suc i \<le> k")
      (auto simp: bit_or_iff bit_push_bit_iff bit_take_bit_iff bit_drop_bit_eq bit_low_byte)
qed

lemma low_byte_zero:
  assumes "g AND 0xFF = 0"
  shows "low_byte g = 0"
  using assms by (simp add: low_byte_def)

lemma bb_next_tl: "bb_next (x # xs) b \<Longrightarrow> bb_next [x] b \<and> bb_next xs (bb_skip 1 b)"
  using bb_next_append [of "[x]" xs b] by simp

lemma le_bytes_1: "le_bytes 1 (unat (v :: u8)) = [v]"
  using unat_byte_less [of v] by simp

lemma bb_get_u8_next [ok_simps]: "bb_next [v] b \<Longrightarrow> bb_get_u8 b = Inr (v, bb_skip 1 b)"
  using bb_read_next [of "[v]" b] by (simp add: bb_get_u8_def)

lemma bb_next_size: "bb_next [v] b \<Longrightarrow> \<not> sz_add (bb_rpos b) 1 > bb_size b"
  using bb_nextD [of "[v]" b] by (simp add: bb_next_def)

lemma read_pack_loop_spec:
  "(\<forall>j < n. bit gm (i + j) \<longleftrightarrow> drop_bit (8 * j) g AND 0xFF \<noteq> 0) \<Longrightarrow> i + n \<le> 8 \<Longrightarrow>
   bb_next (pack_rest n g) b \<Longrightarrow>
   read_pack_loop n i gm acc b
     = Inr (acc OR push_bit (8 * i) (take_bit (8 * n) g), bb_skip (length (pack_rest n g)) b)"
proof (induction n arbitrary: i g acc b)
  case (Suc n)
  have bits: "\<forall>j < n. bit gm (Suc i + j) \<longleftrightarrow> drop_bit (8 * j) (drop_bit 8 g) AND 0xFF \<noteq> 0"
  proof (intro allI impI)
    fix j assume "j < n"
    moreover have "drop_bit (8 * j) (drop_bit 8 g) = drop_bit (8 * Suc j) g"
      by (simp only: drop_bit_drop_bit) (simp add: add.commute)
    ultimately show "bit gm (Suc i + j) \<longleftrightarrow> drop_bit (8 * j) (drop_bit 8 g) AND 0xFF \<noteq> 0"
      using Suc.prems(1) [rule_format, of "Suc j"] by simp
  qed
  have i: "i < 8" "Suc i + n \<le> 8" using Suc.prems(2) by simp_all
  have test: "gm AND push_bit i 1 \<noteq> 0 \<longleftrightarrow> g AND 0xFF \<noteq> 0"
    using Suc.prems(1) [rule_format, of 0] bit_iff_and_push_bit_not_eq_0 [of gm i] by simp
  show ?case
  proof (cases "g AND 0xFF = 0")
    case True
    then have "bb_next (pack_rest n (drop_bit 8 g)) b" using Suc.prems(3) by simp
    from Suc.IH [OF bits i(2) this, of acc] pack_step_bits [OF i(1), of acc g n] True test
    show ?thesis by (simp add: low_byte_zero)
  next
    case False
    then have nx: "bb_next (low_byte g # pack_rest n (drop_bit 8 g)) b"
      using Suc.prems(3) by (simp add: low_byte_def)
    note n1 = bb_next_tl [OF nx]
    from Suc.IH [OF bits i(2) conjunct2 [OF n1],
        of "acc OR push_bit (8 * i) (ucast (low_byte g))"]
      pack_step_bits [OF i(1), of acc g n] False test
      bb_get_u8_next [OF conjunct1 [OF n1]] bb_next_size [OF conjunct1 [OF n1]]
    show ?thesis by (simp add: mult.commute low_byte_def)
  qed
qed simp

lemma take_bit_all64: "take_bit 64 (g :: u64) = g"
  by (rule bit_word_eqI) (simp add: bit_take_bit_iff)

lemma bb_read_pack_guid_next:
  assumes "bb_next (pack_guid g) b"
  shows "bb_read_pack_guid b = Inr (g, bb_skip (length (pack_guid g)) b)"
proof -
  note n1 = bb_next_tl [OF assms [unfolded pack_guid_eq]]
  have bits: "\<forall>j < 8. bit (pack_mask 8 0 g) (0 + j) \<longleftrightarrow> drop_bit (8 * j) g AND 0xFF \<noteq> 0"
    by (auto simp: bit_pack_mask)
  from read_pack_loop_spec [OF bits _ conjunct2 [OF n1], of 0] take_bit_all64 [of g]
  have "read_pack_loop 8 0 (pack_mask 8 0 g) 0 (bb_skip 1 b)
      = Inr (g, bb_skip (1 + length (pack_rest 8 g)) b)" by simp
  then show ?thesis
    using bb_get_u8_next [OF conjunct1 [OF n1]] bb_next_size [OF conjunct1 [OF n1]]
    by (simp add: bb_read_pack_guid_def pack_guid_eq)
qed

section \<open>Strings\<close>

lemma read_cstring_loop_next:
  "0 \<notin> set s \<Longrightarrow> bb_next (s @ [0]) b \<Longrightarrow> length s < n \<Longrightarrow>
   read_cstring_loop n acc b = Inr (acc @ s, bb_skip (length s + 1) b)"
proof (induction s arbitrary: n acc b)
  case Nil
  then obtain m where "n = Suc m" by (cases n) auto
  moreover have "bb_rpos b < bb_size b" using bb_nextD [of "[0]" b] Nil by simp
  ultimately show ?case using bb_get_u8_next [of 0 b] Nil by simp
next
  case (Cons c s)
  then obtain m where n: "n = Suc m" by (cases n) auto
  have nx: "bb_next [c] b" "bb_next (s @ [0]) (bb_skip 1 b)"
    using bb_next_tl [of c "s @ [0]" b] Cons.prems(2) by simp_all
  moreover have "bb_rpos b < bb_size b" using bb_nextD [OF nx(1)] by simp
  ultimately show ?case
    using Cons.prems bb_get_u8_next [OF nx(1)] Cons.IH [OF _ nx(2), of m "acc @ [c]"]
    by (simp add: n)
qed

lemma bb_get_string_next:
  assumes "0 \<notin> set s" "utf8_is_valid s" "bb_next (s @ [0]) b"
  shows "bb_get_string b = Inr (s, bb_skip (length s + 1) b)"
proof -
  have "length s < bb_size b - bb_rpos b" using bb_nextD [OF assms(3)] by simp
  from read_cstring_loop_next [OF assms(1,3) this, of "[]"] assms(2)
  show ?thesis by (simp add: bb_get_string_def bb_read_cstring_def)
qed

section \<open>Fields\<close>

text \<open>
  One constructor per \<open>operator<<\<close> (\<open>ObjectGuid\<close> is written as \<open>FU64\<close>, \<open>PackedGuid\<close> as
  \<open>FPacked\<close>; floats by their bits), and the operators by constructor.
\<close>

datatype field = FBool bool | FU8 u8 | FU16 u16 | FU32 u32 | FU64 u64
  | FFloat u32 | FDouble u64 | FStr bytes | FPacked u64

datatype field_kind = KBool | KU8 | KU16 | KU32 | KU64 | KFloat | KDouble | KStr | KPacked

primrec kind_of :: "field \<Rightarrow> field_kind" where
  "kind_of (FBool _) = KBool"
| "kind_of (FU8 _) = KU8"
| "kind_of (FU16 _) = KU16"
| "kind_of (FU32 _) = KU32"
| "kind_of (FU64 _) = KU64"
| "kind_of (FFloat _) = KFloat"
| "kind_of (FDouble _) = KDouble"
| "kind_of (FStr _) = KStr"
| "kind_of (FPacked _) = KPacked"

primrec put_field :: "field \<Rightarrow> byte_buffer \<Rightarrow> bb_error + byte_buffer" where
  "put_field (FBool v) = bb_put_bool v"
| "put_field (FU8 v) = bb_put_u8 v"
| "put_field (FU16 v) = bb_put_u16 v"
| "put_field (FU32 v) = bb_put_u32 v"
| "put_field (FU64 v) = bb_put_u64 v"
| "put_field (FFloat v) = bb_put_u32 v"
| "put_field (FDouble v) = bb_put_u64 v"
| "put_field (FStr s) = bb_put_string s"
| "put_field (FPacked g) = bb_append_pack_guid g"

primrec get_field :: "field_kind \<Rightarrow> byte_buffer \<Rightarrow> bb_error + (field \<times> byte_buffer)" where
  "get_field KBool b = res_bind (bb_get_bool b) (\<lambda>(v, b). Inr (FBool v, b))"
| "get_field KU8 b = res_bind (bb_get_u8 b) (\<lambda>(v, b). Inr (FU8 v, b))"
| "get_field KU16 b = res_bind (bb_get_u16 b) (\<lambda>(v, b). Inr (FU16 v, b))"
| "get_field KU32 b = res_bind (bb_get_u32 b) (\<lambda>(v, b). Inr (FU32 v, b))"
| "get_field KU64 b = res_bind (bb_get_u64 b) (\<lambda>(v, b). Inr (FU64 v, b))"
| "get_field KFloat b = res_bind (bb_get_float b) (\<lambda>(v, b). Inr (FFloat v, b))"
| "get_field KDouble b = res_bind (bb_get_double b) (\<lambda>(v, b). Inr (FDouble v, b))"
| "get_field KStr b = res_bind (bb_get_string b) (\<lambda>(v, b). Inr (FStr v, b))"
| "get_field KPacked b = res_bind (bb_read_pack_guid b) (\<lambda>(v, b). Inr (FPacked v, b))"

primrec field_bytes :: "field \<Rightarrow> bytes" where
  "field_bytes (FBool v) = [if v then 1 else 0]"
| "field_bytes (FU8 v) = le_bytes 1 (unat v)"
| "field_bytes (FU16 v) = le_bytes 2 (unat v)"
| "field_bytes (FU32 v) = le_bytes 4 (unat v)"
| "field_bytes (FU64 v) = le_bytes 8 (unat v)"
| "field_bytes (FFloat v) = le_bytes 4 (unat v)"
| "field_bytes (FDouble v) = le_bytes 8 (unat v)"
| "field_bytes (FStr s) = s @ [0]"
| "field_bytes (FPacked g) = pack_guid g"

text \<open>The values a reader accepts back: valid UTF-8 without NUL, finite numbers.\<close>

primrec field_ok :: "field \<Rightarrow> bool" where
  "field_ok (FBool v) = True"
| "field_ok (FU8 v) = True"
| "field_ok (FU16 v) = True"
| "field_ok (FU32 v) = True"
| "field_ok (FU64 v) = True"
| "field_ok (FFloat v) = float_finite v"
| "field_ok (FDouble v) = double_finite v"
| "field_ok (FStr s) = (0 \<notin> set s \<and> utf8_is_valid s)"
| "field_ok (FPacked g) = True"

lemma le_bytes_ne [simp]: "le_bytes n x \<noteq> [] \<longleftrightarrow> n \<noteq> 0"
  by (metis length_0_conv length_le_bytes)

lemma length_pack_guid: "length (pack_guid g) \<le> 9"
  using length_pack_rest [of 8 g] by (simp add: pack_guid_eq)

lemma put_field_enc:
  assumes "bb_at_end b" "bb_size b + length (field_bytes f) \<le> 10000000"
  shows "put_field f b = Inr (bb_extend (field_bytes f) b)"
proof (cases f)
  case (FStr s)
  have e: "bb_append [0] (bb_extend s b) = Inr (bb_extend (s @ [0]) b)"
    using assms by (simp add: bb_append_at_end FStr)
  show ?thesis
  proof (cases "s = []")
    case False
    then have "bb_append s b = Inr (bb_extend s b)"
      using assms by (simp add: bb_append_at_end FStr)
    with e False show ?thesis by (simp add: FStr bb_put_string_def)
  next
    case True
    with e show ?thesis by (simp add: FStr bb_put_string_def)
  qed
next
  case (FPacked g)
  then show ?thesis
    using assms length_pack_guid [of g]
    by (simp add: bb_append_pack_guid_def bb_append_at_end pack_guid_eq)
next
  case (FBool v)
  then show ?thesis using assms
    by (simp add: bb_put_bool_def bb_put_u8_def bb_append_at_end le_bytes_1)
qed (use assms in \<open>simp_all add: bb_put_u8_def bb_put_u16_def bb_put_u32_def bb_put_u64_def
      bb_append_at_end\<close>)

lemma get_scalar_next [ok_simps]:
  "bb_next (le_bytes 2 (unat (v2 :: u16))) b \<Longrightarrow> bb_get_u16 b = Inr (v2, bb_skip 2 b)"
  "bb_next (le_bytes 4 (unat (v4 :: u32))) b \<Longrightarrow> bb_get_u32 b = Inr (v4, bb_skip 4 b)"
  "bb_next (le_bytes 8 (unat (v8 :: u64))) b \<Longrightarrow> bb_get_u64 b = Inr (v8, bb_skip 8 b)"
  using bb_read_next [of "le_bytes 2 (unat v2)" b] bb_read_next [of "le_bytes 4 (unat v4)" b]
    bb_read_next [of "le_bytes 8 (unat v8)" b]
  by (simp_all add: bb_get_u16_def bb_get_u32_def bb_get_u64_def le_nat_unat)

lemma get_field_enc:
  assumes "field_ok f" "bb_next (field_bytes f) b"
  shows "get_field (kind_of f) b = Inr (f, bb_skip (length (field_bytes f)) b)"
proof (cases f)
  case (FBool v)
  then show ?thesis using assms
    by (cases v) (simp_all add: bb_get_bool_def bb_get_u8_next)
next
  case (FU8 v)
  then have "bb_next [v] b" using assms(2) by (simp only: field_bytes.simps le_bytes_1)
  then show ?thesis by (simp add: FU8 bb_get_u8_next)
next
  case (FStr s)
  then show ?thesis using assms bb_get_string_next [of s b] by simp
next
  case (FPacked g)
  then show ?thesis using assms by (simp add: bb_read_pack_guid_next)
qed (use assms in \<open>simp_all add: get_scalar_next bb_get_float_def bb_get_double_def\<close>)

interpretation fld: wire_codec put_field get_field kind_of field_bytes field_ok
proof
  fix x :: field
  show "field_bytes x \<noteq> []" by (cases x) (simp_all add: pack_guid_eq)
qed (simp_all add: put_field_enc get_field_enc)

section \<open>WorldPacket\<close>

text \<open>
  A \<open>WorldPacket\<close> is a byte buffer with an opcode. A handler that builds one writes a
  sequence of fields to a fresh buffer, so the components describe a packet by its opcode
  and fields; \<open>packet_buffer\<close> runs the writes.
\<close>

datatype world_packet = WorldPacket (wp_opcode: u16) (wp_fields: "field list")

definition packet_buffer :: "world_packet \<Rightarrow> bb_error + byte_buffer" where
  "packet_buffer p = put_all put_field (wp_fields p) bb_new"

text \<open>\<open>WorldPacket::Initialize\<close> empties the packet and sets its opcode.\<close>

definition wp_initialize :: "u16 \<Rightarrow> world_packet \<Rightarrow> world_packet" where
  "wp_initialize op p = WorldPacket op []"

definition wp_put :: "field \<Rightarrow> world_packet \<Rightarrow> world_packet" where
  "wp_put f p = WorldPacket (wp_opcode p) (wp_fields p @ [f])"

definition wp_bytes :: "world_packet \<Rightarrow> bytes" where
  "wp_bytes p = concat (map field_bytes (wp_fields p))"

lemma packet_buffer_eq:
  "length (wp_bytes p) \<le> 10000000 \<Longrightarrow>
   map_sum id bb_storage (packet_buffer p) = Inr (wp_bytes p)"
proof -
  assume l: "length (wp_bytes p) \<le> 10000000"
  have n: "bb_at_end bb_new" "bb_size bb_new = 0" "bb_storage bb_new = []"
    by (simp_all add: bb_at_end_def bb_new_def bb_size_def)
  have "put_all put_field xs b = Inr (bb_extend (concat (map field_bytes xs)) b)"
    if "bb_at_end b" "bb_size b + length (concat (map field_bytes xs)) \<le> 10000000" for xs b
    using that by (induction xs arbitrary: b) (simp_all add: put_field_enc)
  from this [OF n(1), of "wp_fields p"] l n show ?thesis
    by (simp add: packet_buffer_def wp_bytes_def)
qed

section \<open>Packed calendar times\<close>

text \<open>
  \<open>AppendPackedTime\<close> and \<open>ReadPackedTime\<close>. The fields of \<open>struct tm\<close> are C integers of 32
  bits, and subtraction, shift and \<open>|\<close> agree on them and on \<open>uint32\<close>. The conversions between
  a time and its fields in local time are the C library's: parameters.
\<close>

record tm_fields =
  tm_sec :: u32
  tm_min :: u32
  tm_hour :: u32
  tm_mday :: u32
  tm_mon :: u32
  tm_year :: u32
  tm_wday :: u32

definition pack_tm :: "tm_fields \<Rightarrow> u32" where
  "pack_tm lt = push_bit 24 (tm_year lt - 100) OR push_bit 20 (tm_mon lt)
     OR push_bit 14 (tm_mday lt - 1) OR push_bit 11 (tm_wday lt)
     OR push_bit 6 (tm_hour lt) OR tm_min lt"

definition unpack_tm :: "u32 \<Rightarrow> tm_fields" where
  "unpack_tm packedDate =
     \<lparr>tm_sec = 0,
      tm_min = packedDate AND 0x3F,
      tm_hour = drop_bit 6 packedDate AND 0x1F,
      tm_mday = (drop_bit 14 packedDate AND 0x3F) + 1,
      tm_mon = drop_bit 20 packedDate AND 0xF,
      tm_year = (drop_bit 24 packedDate AND 0x1F) + 100,
      tm_wday = 0\<rparr>"

definition bb_append_packed_time :: "('time \<Rightarrow> tm_fields) \<Rightarrow> 'time \<Rightarrow> byte_buffer \<Rightarrow> bb_error + byte_buffer" where
  "bb_append_packed_time breakdown t b = bb_append (le_bytes 4 (unat (pack_tm (breakdown t)))) b"

definition bb_read_packed_time :: "(tm_fields \<Rightarrow> u32) \<Rightarrow> byte_buffer \<Rightarrow> bb_error + (u32 \<times> byte_buffer)" where
  "bb_read_packed_time mktime b =
     res_bind (bb_get_u32 b) (\<lambda>(packedDate, b). Inr (mktime (unpack_tm packedDate), b))"

definition tm_in_range :: "tm_fields \<Rightarrow> bool" where
  "tm_in_range t \<longleftrightarrow> tm_min t < 60 \<and> tm_hour t < 24 \<and> 1 \<le> tm_mday t \<and> tm_mday t \<le> 31
     \<and> tm_mon t < 12 \<and> tm_wday t < 7 \<and> 100 \<le> tm_year t \<and> tm_year t < 132"

lemma tm_masks: "(0x3F :: u32) = mask 6" "(0x1F :: u32) = mask 5" "(0xF :: u32) = mask 4"
  by (simp_all add: mask_eq_exp_minus_1)

lemma pack_tm_bits:
  fixes y mo d w h m :: u32
  assumes b: "y < 2 ^ 5" "mo < 2 ^ 4" "d < 2 ^ 6" "w < 2 ^ 3" "h < 2 ^ 5" "m < 2 ^ 6"
  defines "p \<equiv> push_bit 24 y OR push_bit 20 mo OR push_bit 14 d OR push_bit 11 w OR push_bit 6 h OR m"
  shows "p AND mask 6 = m" "drop_bit 6 p AND mask 5 = h" "drop_bit 14 p AND mask 6 = d"
    "drop_bit 20 p AND mask 4 = mo" "drop_bit 24 p AND mask 5 = y"
proof -
  note bb = word_bit_bound [OF b(1)] word_bit_bound [OF b(2)] word_bit_bound [OF b(3)]
    word_bit_bound [OF b(4)] word_bit_bound [OF b(5)] word_bit_bound [OF b(6)]
  note bs = p_def bit_or_iff bit_and_iff bit_drop_bit_eq bit_push_bit_iff bit_mask_iff
    possible_bit_def comp_def
  show "p AND mask 6 = m" by (rule bit_word_eqI) (unfold bs, auto dest: bb)
  show "drop_bit 6 p AND mask 5 = h" by (rule bit_word_eqI) (unfold bs, auto dest: bb)
  show "drop_bit 14 p AND mask 6 = d" by (rule bit_word_eqI) (unfold bs, auto dest: bb)
  show "drop_bit 20 p AND mask 4 = mo" by (rule bit_word_eqI) (unfold bs, auto dest: bb)
  show "drop_bit 24 p AND mask 5 = y" by (rule bit_word_eqI) (unfold bs, auto dest: bb)
qed

lemma unpack_pack_tm:
  assumes "tm_in_range t"
  shows "unpack_tm (pack_tm t) = t\<lparr>tm_sec := 0, tm_wday := 0\<rparr>"
proof -
  have y: "tm_year t - 100 < 2 ^ 5" and d: "tm_mday t - 1 < 2 ^ 6"
    using assms by (auto simp: tm_in_range_def) uint_arith+
  have m: "tm_min t < 2 ^ 6" and h: "tm_hour t < 2 ^ 5" and mo: "tm_mon t < 2 ^ 4"
    and w: "tm_wday t < 2 ^ 3"
    using assms by (auto simp: tm_in_range_def intro: less_trans)
  show ?thesis
    unfolding unpack_tm_def pack_tm_def tm_masks pack_tm_bits [OF y mo d w h m]
    by (cases t) simp
qed

text \<open>
  A calendar time written with \<open>AppendPackedTime\<close> is read back to the minute:
  for times of the years 2000 to 2031, \<open>ReadPackedTime\<close> hands \<open>mktime\<close> exactly the fields
  that were packed (seconds and weekday as 0).
\<close>

theorem packed_time_roundtrip:
  assumes "tm_in_range (breakdown t)" "bb_at_end b" "bb_size b < 1000000" "bb_rpos b = bb_size b"
  shows "\<exists>b' b''. bb_append_packed_time breakdown t b = Inr b' \<and>
    bb_read_packed_time mktime b'
      = Inr (mktime ((breakdown t)\<lparr>tm_sec := 0, tm_wday := 0\<rparr>), b'')"
proof -
  let ?bs = "le_bytes 4 (unat (pack_tm (breakdown t)))"
  have "bb_append_packed_time breakdown t b = Inr (bb_extend ?bs b)"
    using assms by (simp add: bb_append_packed_time_def bb_append_at_end)
  moreover have "bb_next ?bs (bb_extend ?bs b)"
    using assms by (simp add: bb_next_def bb_size_def)
  then have "bb_get_u32 (bb_extend ?bs b) = Inr (pack_tm (breakdown t), bb_skip 4 (bb_extend ?bs b))"
    by (rule get_scalar_next)
  ultimately show ?thesis using assms(1) by (simp add: bb_read_packed_time_def unpack_pack_tm)
qed

theorem packed_time_roundtrip_witness:
  "\<exists>b' b''. bb_append_packed_time id
      \<lparr>tm_sec = 9, tm_min = 30, tm_hour = 20, tm_mday = 31, tm_mon = 11, tm_year = 122, tm_wday = 6\<rparr>
      bb_new = Inr b' \<and>
    bb_read_packed_time tm_year b' = Inr (122, b'')"
  using packed_time_roundtrip [of id "\<lparr>tm_sec = 9, tm_min = 30, tm_hour = 20, tm_mday = 31,
      tm_mon = 11, tm_year = 122, tm_wday = 6\<rparr>" bb_new tm_year]
  by (simp add: tm_in_range_def bb_new_def bb_at_end_def bb_size_def)

section \<open>Properties of the wire format\<close>

text \<open>
  Claim C24: every packet the server can write is read back field by field: writing any list
  of fields to a fresh buffer succeeds as long as they fit the ten million bytes the
  assertion of \<open>append\<close> allows, and the matching readers return exactly these fields and
  consume every byte.
\<close>

theorem packet_roundtrip:
  assumes "list_all field_ok fs" "length (wp_bytes (WorldPacket op fs)) \<le> 10000000"
  shows "\<exists>b b'. packet_buffer (WorldPacket op fs) = Inr b \<and>
    bb_storage b = wp_bytes (WorldPacket op fs) \<and>
    get_all get_field (map kind_of fs) b = Inr (fs, b') \<and> bb_rpos b' = bb_size b"
  using fld.message_roundtrip [of fs] assms
  by (simp add: packet_buffer_def wp_bytes_def fld.enc_all_def)

theorem packet_roundtrip_witness:
  "\<exists>b b'. packet_buffer (WorldPacket 0x99 [FU8 2, FStr (str ''Trade''), FPacked 0xF130000000000007])
      = Inr b \<and>
    get_all get_field [KU8, KStr, KPacked] b
      = Inr ([FU8 2, FStr (str ''Trade''), FPacked 0xF130000000000007], b')"
proof -
  have "0 \<notin> set (str ''Trade'') \<and> (\<forall>b \<in> set (str ''Trade''). b < 0x80)" by code_simp
  then have "list_all field_ok [FU8 2, FStr (str ''Trade''), FPacked 0xF130000000000007]"
    by (simp add: utf8_is_valid_ascii)
  moreover have "length (str ''Trade'') = 5" by (simp add: str_def)
  then have "length (wp_bytes (WorldPacket 0x99
      [FU8 2, FStr (str ''Trade''), FPacked 0xF130000000000007])) \<le> 10000000"
    using length_pack_guid [of "0xF130000000000007"] by (simp add: wp_bytes_def)
  ultimately show ?thesis
    using packet_roundtrip [of "[FU8 2, FStr (str ''Trade''), FPacked 0xF130000000000007]" "0x99"]
    by (simp only: list.map kind_of.simps) blast
qed

text \<open>
  Claim C39: \<open>appendPackGUID\<close> never writes past its nine-byte array and is as short as the
  format allows: the packed form is the mask byte and exactly the non-zero bytes of the GUID,
  and the mask has the bit of each of these bytes.
\<close>

theorem pack_guid_compact:
  "length (pack_guid g) = 1 + card {j. j < 8 \<and> drop_bit (8 * j) g AND 0xFF \<noteq> 0} \<and>
   length (pack_guid g) \<le> 9 \<and>
   (\<forall>j. bit (hd (pack_guid g)) j \<longleftrightarrow> j < 8 \<and> drop_bit (8 * j) g AND 0xFF \<noteq> 0)"
proof -
  have "length (pack_rest n g) = card {j. j < n \<and> drop_bit (8 * j) g AND 0xFF \<noteq> 0}" for n g
  proof (induction n arbitrary: g)
    case (Suc n)
    let ?S = "{j. j < n \<and> drop_bit (8 * j) (drop_bit 8 g) AND 0xFF \<noteq> 0}"
    have shift: "drop_bit (8 * j) (drop_bit 8 g) = drop_bit (8 * Suc j) g" for j
      by (simp only: drop_bit_drop_bit) (simp add: add.commute)
    have "{j. j < Suc n \<and> drop_bit (8 * j) g AND 0xFF \<noteq> 0}
        = (if g AND 0xFF \<noteq> 0 then {0} else {}) \<union> Suc ` ?S" (is "?L = ?R")
    proof (rule set_eqI)
      show "j \<in> ?L \<longleftrightarrow> j \<in> ?R" for j
        by (cases j) (simp_all add: shift image_iff del: drop_bit_drop_bit)
    qed
    moreover have "card (Suc ` ?S) = card ?S" by (simp add: card_image)
    ultimately show ?case using Suc.IH [of "drop_bit 8 g"]
      by (simp add: card_insert_if image_iff del: drop_bit_drop_bit)
  qed simp
  then show ?thesis
    using length_pack_guid [of g] by (auto simp: pack_guid_eq bit_pack_mask)
qed

text \<open>Reading never leaves the storage and never changes it, whatever the bytes are.\<close>

definition bb_readable :: "byte_buffer \<Rightarrow> bool" where
  "bb_readable b \<longleftrightarrow> bb_rpos b \<le> bb_size b \<and> bb_size b < 2 ^ 62"

definition read_safe :: "byte_buffer \<Rightarrow> bb_error + ('a \<times> byte_buffer) \<Rightarrow> bool" where
  "read_safe b r \<longleftrightarrow> (case r of
     Inl e \<Rightarrow> e \<noteq> OutOfBounds \<and> e \<noteq> AssertionFailure
   | Inr (x, b') \<Rightarrow> bb_storage b' = bb_storage b \<and> bb_wpos b' = bb_wpos b
       \<and> bb_rpos b \<le> bb_rpos b' \<and> bb_readable b')"

lemma read_safe_bind:
  assumes "read_safe b r" "\<And>x b'. r = Inr (x, b') \<Longrightarrow> bb_readable b' \<Longrightarrow> read_safe b' (f (x, b'))"
  shows "read_safe b (res_bind r f)"
proof (cases r)
  case (Inr p)
  obtain x b' where p: "p = (x, b')" by (cases p)
  from assms(1) have "bb_storage b' = bb_storage b" "bb_wpos b' = bb_wpos b"
    "bb_rpos b \<le> bb_rpos b'" "bb_readable b'" by (auto simp: read_safe_def Inr p)
  with assms(2) [of x b'] show ?thesis
    by (auto simp: read_safe_def Inr p split: sum.splits)
qed (use assms(1) in \<open>simp add: read_safe_def\<close>)

lemma read_safe_return [simp]: "bb_readable b \<Longrightarrow> read_safe b (Inr (x, b))"
  by (simp add: read_safe_def)

lemma read_safe_throw [simp]: "read_safe b (Inl (PositionException a p n m))"
  "read_safe b (Inl (InvalidValueException t v))"
  by (simp_all add: read_safe_def)

lemma bb_read_safe: "bb_readable b \<Longrightarrow> n \<le> 8 \<Longrightarrow> read_safe b (bb_read n b)"
  by (auto simp: bb_readable_def read_safe_def bb_read_def bb_read_at_def bb_size_def)

lemma scalar_safe:
  assumes "bb_readable b"
  shows "read_safe b (bb_get_u8 b)" "read_safe b (bb_get_u16 b)" "read_safe b (bb_get_u32 b)"
    "read_safe b (bb_get_u64 b)"
  unfolding bb_get_u8_def bb_get_u16_def bb_get_u32_def bb_get_u64_def
  by (rule read_safe_bind, simp add: bb_read_safe assms, simp)+

lemma read_cstring_loop_safe: "bb_readable b \<Longrightarrow> read_safe b (read_cstring_loop n acc b)"
proof (induction n arbitrary: acc b)
  case (Suc n)
  show ?case
    by (auto simp: Suc.prems Suc.IH intro!: read_safe_bind scalar_safe)
qed simp

lemma read_pack_loop_safe: "bb_readable b \<Longrightarrow> read_safe b (read_pack_loop n i gm acc b)"
proof (induction n arbitrary: i acc b)
  case (Suc n)
  show ?case
    by (auto simp: Suc.prems Suc.IH intro!: read_safe_bind scalar_safe)
qed simp

lemma get_field_safe: "bb_readable b \<Longrightarrow> read_safe b (get_field k b)"
  by (cases k) (auto simp: bb_get_bool_def bb_get_float_def bb_get_double_def bb_get_string_def
      bb_read_cstring_def bb_read_pack_guid_def
      intro!: read_safe_bind scalar_safe read_cstring_loop_safe read_pack_loop_safe)

text \<open>
  Claim C25: parsing a packet from a client is memory safe: whatever bytes arrived and
  whichever sequence of reading operators a handler applies, the result is either a value
  with the read position inside the buffer and the storage unchanged, or an exception the
  session catches; no read outside the storage and no failed assertion.
\<close>

theorem parsing_is_safe:
  assumes "bb_readable b"
  shows "read_safe b (get_all get_field ks b)"
  using assms
proof (induction ks arbitrary: b)
  case (Cons k ks)
  show ?case
    by (auto simp: get_field_safe Cons intro!: read_safe_bind)
qed simp

theorem parsing_is_safe_witness:
  "read_safe \<lparr>bb_rpos = 0, bb_wpos = 3, bb_storage = [0xFF, 1, 2]\<rparr>
    (get_all get_field [KPacked, KStr] \<lparr>bb_rpos = 0, bb_wpos = 3, bb_storage = [0xFF, 1, 2]\<rparr>)"
  by (rule parsing_is_safe) (simp add: bb_readable_def bb_size_def)

text \<open>
  Two remarks the code's own text does not agree with. The exception for a short read is
  built with the buffer's size in the place of the value's size, so its message exchanges
  the two; and \<open>read_skip\<close> compares a sum that can wrap, so a skip of nearly \<open>2 ^ 64\<close> bytes
  moves the position backwards instead of throwing.
\<close>

lemma short_read_message:
  "bb_read 4 bb_new = Inl (PositionException False 0 4 0)"
  "position_exception_message False 0 4 0
    = str ''Attempted to get value with size: 0 in ByteBuffer (pos: 0 size: 4)''"
  by (simp add: bb_read_def bb_read_at_def bb_new_def bb_size_def) code_simp

lemma read_skip_wraps:
  "bb_read_skip (2 ^ 64 - 1) \<lparr>bb_rpos = 1, bb_wpos = 1, bb_storage = [7]\<rparr>
    = Inr \<lparr>bb_rpos = 0, bb_wpos = 1, bb_storage = [7]\<rparr>"
  by (simp add: bb_read_skip_def bb_size_def sz_add_def)

end
