(* ===== verification/ObjectGuid.thy ===== *)
theory ObjectGuid
  imports Packets
begin

text \<open>
  \<open>ObjectGuid\<close> and its helpers (src/server/game/Entities/Object/ObjectGuid.h and .cpp): the
  64-bit identifier of every game object, which packs a type tag (16 bits), an entry (24 bits,
  for the types that have one) and a counter; the per-type counter generator; and
  \<open>PackedGuid\<close>, the buffer holding the compressed form. The lemmas show that what \<open>Create\<close>
  packs the getters read back, and that a generator hands out distinct GUIDs until it reports
  an overflow.
\<close>

section \<open>Type tags\<close>

type_synonym guid = u64
type_synonym high_guid = u16

definition HG_Item :: high_guid where "HG_Item = 0x4000"
definition HG_Player :: high_guid where "HG_Player = 0x0000"
definition HG_GameObject :: high_guid where "HG_GameObject = 0xF110"
definition HG_Transport :: high_guid where "HG_Transport = 0xF120"
definition HG_Unit :: high_guid where "HG_Unit = 0xF130"
definition HG_Pet :: high_guid where "HG_Pet = 0xF140"
definition HG_Vehicle :: high_guid where "HG_Vehicle = 0xF150"
definition HG_DynamicObject :: high_guid where "HG_DynamicObject = 0xF100"
definition HG_Corpse :: high_guid where "HG_Corpse = 0xF101"
definition HG_Mo_Transport :: high_guid where "HG_Mo_Transport = 0x1FC0"
definition HG_Instance :: high_guid where "HG_Instance = 0x1F40"
definition HG_Group :: high_guid where "HG_Group = 0x1F50"

lemmas high_guid_defs = HG_Item_def HG_Player_def HG_GameObject_def HG_Transport_def HG_Unit_def
  HG_Pet_def HG_Vehicle_def HG_DynamicObject_def HG_Corpse_def HG_Mo_Transport_def
  HG_Instance_def HG_Group_def

datatype type_id = TYPEID_OBJECT | TYPEID_ITEM | TYPEID_CONTAINER | TYPEID_UNIT | TYPEID_PLAYER
  | TYPEID_GAMEOBJECT | TYPEID_DYNAMICOBJECT | TYPEID_CORPSE

text \<open>The two traits that select which \<open>Create\<close> a type tag has.\<close>

definition guid_trait_global :: "high_guid \<Rightarrow> bool" where
  "guid_trait_global h \<longleftrightarrow> h \<in> set [HG_Player, HG_Item, HG_Mo_Transport, HG_Group, HG_Instance]"

definition guid_trait_map_specific :: "high_guid \<Rightarrow> bool" where
  "guid_trait_map_specific h \<longleftrightarrow> h \<in> set [HG_Transport, HG_Unit, HG_Vehicle, HG_Pet, HG_GameObject,
     HG_DynamicObject, HG_Corpse]"

definition has_entry_high :: "high_guid \<Rightarrow> bool" where
  "has_entry_high h \<longleftrightarrow> h \<notin> set [HG_Item, HG_Player, HG_DynamicObject, HG_Corpse, HG_Mo_Transport,
     HG_Instance, HG_Group]"

definition get_type_id_high :: "high_guid \<Rightarrow> type_id" where
  "get_type_id_high h =
     (if h = HG_Item then TYPEID_ITEM
      else if h = HG_Unit then TYPEID_UNIT
      else if h = HG_Pet then TYPEID_UNIT
      else if h = HG_Player then TYPEID_PLAYER
      else if h = HG_GameObject then TYPEID_GAMEOBJECT
      else if h = HG_DynamicObject then TYPEID_DYNAMICOBJECT
      else if h = HG_Corpse then TYPEID_CORPSE
      else if h = HG_Mo_Transport then TYPEID_GAMEOBJECT
      else if h = HG_Vehicle then TYPEID_UNIT
      else TYPEID_OBJECT)"

section \<open>Packing and reading the parts\<close>

definition guid_empty :: guid where
  "guid_empty = 0"

definition guid_make :: "high_guid \<Rightarrow> u32 \<Rightarrow> u32 \<Rightarrow> guid" where
  "guid_make hi entry counter =
     (if counter \<noteq> 0 then ucast counter OR push_bit 24 (ucast entry) OR push_bit 48 (ucast hi)
      else 0)"

definition guid_make_global :: "high_guid \<Rightarrow> u32 \<Rightarrow> guid" where
  "guid_make_global hi counter =
     (if counter \<noteq> 0 then ucast counter OR push_bit 48 (ucast hi) else 0)"

definition get_high :: "guid \<Rightarrow> high_guid" where
  "get_high g = ucast (drop_bit 48 g AND 0xFFFF)"

definition has_entry :: "guid \<Rightarrow> bool" where
  "has_entry g = has_entry_high (get_high g)"

definition get_entry :: "guid \<Rightarrow> u32" where
  "get_entry g = (if has_entry g then ucast (drop_bit 24 g AND 0xFFFFFF) else 0)"

definition get_counter :: "guid \<Rightarrow> u32" where
  "get_counter g =
     (if has_entry g then ucast (g AND 0xFFFFFF) else ucast (g AND 0xFFFFFFFF))"

definition get_max_counter :: "high_guid \<Rightarrow> u32" where
  "get_max_counter h = (if has_entry_high h then 0x00FFFFFF else 0xFFFFFFFF)"

definition is_empty :: "guid \<Rightarrow> bool" where "is_empty g \<longleftrightarrow> g = 0"
definition is_creature :: "guid \<Rightarrow> bool" where "is_creature g \<longleftrightarrow> get_high g = HG_Unit"
definition is_pet :: "guid \<Rightarrow> bool" where "is_pet g \<longleftrightarrow> get_high g = HG_Pet"
definition is_vehicle :: "guid \<Rightarrow> bool" where "is_vehicle g \<longleftrightarrow> get_high g = HG_Vehicle"
definition is_any_type_creature :: "guid \<Rightarrow> bool" where
  "is_any_type_creature g \<longleftrightarrow> is_creature g \<or> is_pet g \<or> is_vehicle g"
definition is_player :: "guid \<Rightarrow> bool" where
  "is_player g \<longleftrightarrow> \<not> is_empty g \<and> get_high g = HG_Player"
definition is_unit :: "guid \<Rightarrow> bool" where
  "is_unit g \<longleftrightarrow> is_any_type_creature g \<or> is_player g"
definition is_item :: "guid \<Rightarrow> bool" where "is_item g \<longleftrightarrow> get_high g = HG_Item"
definition is_game_object :: "guid \<Rightarrow> bool" where
  "is_game_object g \<longleftrightarrow> get_high g = HG_GameObject"
definition is_transport :: "guid \<Rightarrow> bool" where "is_transport g \<longleftrightarrow> get_high g = HG_Transport"
definition is_mo_transport :: "guid \<Rightarrow> bool" where
  "is_mo_transport g \<longleftrightarrow> get_high g = HG_Mo_Transport"
definition is_any_type_game_object :: "guid \<Rightarrow> bool" where
  "is_any_type_game_object g \<longleftrightarrow> is_game_object g \<or> is_transport g \<or> is_mo_transport g"

definition get_type_id :: "guid \<Rightarrow> type_id" where
  "get_type_id g = get_type_id_high (get_high g)"

definition get_type_name :: "high_guid \<Rightarrow> bytes" where
  "get_type_name h =
     (if h = HG_Item then str ''Item''
      else if h = HG_Player then str ''Player''
      else if h = HG_GameObject then str ''Gameobject''
      else if h = HG_Transport then str ''Transport''
      else if h = HG_Unit then str ''Creature''
      else if h = HG_Pet then str ''Pet''
      else if h = HG_Vehicle then str ''Vehicle''
      else if h = HG_DynamicObject then str ''DynObject''
      else if h = HG_Corpse then str ''Corpse''
      else if h = HG_Mo_Transport then str ''MoTransport''
      else if h = HG_Instance then str ''InstanceID''
      else if h = HG_Group then str ''Group''
      else str ''<unknown>'')"

definition guid_type_name :: "guid \<Rightarrow> bytes" where
  "guid_type_name g = (if \<not> is_empty g then get_type_name (get_high g) else str ''None'')"

text \<open>A number in hexadecimal, padded with zeros to 16 digits.\<close>

definition hex_digit :: "nat \<Rightarrow> u8" where
  "hex_digit d = (if d < 10 then 48 + word_of_nat d else 87 + word_of_nat d)"

definition hex16 :: "guid \<Rightarrow> bytes" where
  "hex16 g = map (\<lambda>i. hex_digit (unat g div 16 ^ i mod 16)) (rev [0..<16])"

definition guid_to_string :: "guid \<Rightarrow> bytes" where
  "guid_to_string g =
     str ''GUID Full: 0x'' @ hex16 g @ str '' Type: '' @ guid_type_name g
     @ (if has_entry g
        then (if is_pet g then str '' Pet number: '' else str '' Entry: '')
             @ show_nat (unat (get_entry g)) @ str '' ''
        else [])
     @ str '' Low: '' @ show_nat (unat (get_counter g))"

text \<open>\<open>Create<type>\<close>: which overload exists is decided by the type's traits.\<close>

definition guid_create_global :: "high_guid \<Rightarrow> u32 \<Rightarrow> guid" where
  "guid_create_global h counter = guid_make_global h counter"

definition guid_create_map_specific :: "high_guid \<Rightarrow> u32 \<Rightarrow> u32 \<Rightarrow> guid" where
  "guid_create_map_specific h entry counter = guid_make h entry counter"

section \<open>Streams and the packed form\<close>

definition put_guid :: "guid \<Rightarrow> byte_buffer \<Rightarrow> bb_error + byte_buffer" where
  "put_guid g = bb_put_u64 g"

definition get_guid :: "byte_buffer \<Rightarrow> bb_error + (guid \<times> byte_buffer)" where
  "get_guid b = bb_get_u64 b"

definition packed_guid :: "guid \<Rightarrow> bb_error + byte_buffer" where
  "packed_guid g = bb_append_pack_guid g bb_new"

definition packed_guid_set :: "guid \<Rightarrow> byte_buffer \<Rightarrow> bb_error + byte_buffer" where
  "packed_guid_set g pg = bb_append_pack_guid g (bb_set_wpos 0 pg)"

definition packed_guid_size :: "byte_buffer \<Rightarrow> nat" where
  "packed_guid_size pg = bb_size pg"

definition put_packed_guid :: "byte_buffer \<Rightarrow> byte_buffer \<Rightarrow> bb_error + byte_buffer" where
  "put_packed_guid pg b = bb_append_buffer pg b"

section \<open>The counter generator\<close>

text \<open>
  \<open>Generate\<close> returns the counter and the new state. \<open>HandleCounterOverflow\<close> logs and asks
  the world to stop, but the call still returns a counter: \<open>gen_stopped\<close> records it.
\<close>

record guid_generator =
  gen_next :: u32
  gen_stopped :: bool

definition gen_init :: "u32 \<Rightarrow> guid_generator" where
  "gen_init start = \<lparr>gen_next = start, gen_stopped = False\<rparr>"

definition gen_set :: "u32 \<Rightarrow> guid_generator \<Rightarrow> guid_generator" where
  "gen_set v gen = gen\<lparr>gen_next := v\<rparr>"

definition handle_counter_overflow :: "guid_generator \<Rightarrow> guid_generator" where
  "handle_counter_overflow gen = gen\<lparr>gen_stopped := True\<rparr>"

definition gen_generate :: "high_guid \<Rightarrow> guid_generator \<Rightarrow> u32 \<times> guid_generator" where
  "gen_generate high gen =
     (let gen = (if gen_next gen \<ge> get_max_counter high - 1 then handle_counter_overflow gen else gen)
      in (gen_next gen, gen\<lparr>gen_next := gen_next gen + 1\<rparr>))"

primrec gen_many :: "high_guid \<Rightarrow> nat \<Rightarrow> guid_generator \<Rightarrow> u32 list \<times> guid_generator" where
  "gen_many high 0 gen = ([], gen)"
| "gen_many high (Suc n) gen =
     (let (c, gen) = gen_generate high gen; (cs, gen) = gen_many high n gen in (c # cs, gen))"

section \<open>What is packed is read back\<close>

lemma mask_literals:
  "(0xFFFF :: u64) = mask 16" "(0xFFFFFF :: u64) = mask 24" "(0xFFFFFFFF :: u64) = mask 32"
  by (simp_all add: mask_eq_exp_minus_1)

lemma bit_ucast_up: "bit (ucast (x :: 'a :: len word) :: 'b :: len word) k \<longleftrightarrow> k < LENGTH('b) \<and> bit x k"
  by (auto simp: bit_unsigned_iff possible_bit_def)

lemmas guid_bits = bit_or_iff bit_and_iff bit_push_bit_iff bit_drop_bit_eq bit_mask_iff bit_ucast_up
  possible_bit_def comp_def

lemma get_high_guid_make:
  assumes "counter \<noteq> 0" "entry < 2 ^ 24"
  shows "get_high (guid_make hi entry counter) = hi"
proof (rule bit_word_eqI)
  fix k assume "k < LENGTH(16)"
  then show "bit (get_high (guid_make hi entry counter)) k = bit hi k"
    using assms word_bit_bound [OF assms(2), of "k + 24"] bit_imp_le_length [of counter "k + 48"]
    unfolding get_high_def guid_make_def mask_literals
    by (auto simp: guid_bits add.commute)
qed

lemma get_high_guid_make_global:
  assumes "counter \<noteq> 0"
  shows "get_high (guid_make_global hi counter) = hi"
proof (rule bit_word_eqI)
  fix k assume "k < LENGTH(16)"
  then show "bit (get_high (guid_make_global hi counter)) k = bit hi k"
    using assms bit_imp_le_length [of counter "k + 48"]
    unfolding get_high_def guid_make_global_def mask_literals
    by (auto simp: guid_bits add.commute)
qed

lemma get_entry_guid_make:
  assumes "counter \<noteq> 0" "counter < 2 ^ 24" "entry < 2 ^ 24" "has_entry_high hi"
  shows "get_entry (guid_make hi entry counter) = entry"
proof (rule bit_word_eqI)
  fix k assume k: "k < LENGTH(32)"
  have "get_entry (guid_make hi entry counter) =
      ucast (drop_bit 24 (guid_make hi entry counter) AND mask 24)"
    using assms by (simp add: get_entry_def has_entry_def get_high_guid_make mask_literals)
  then show "bit (get_entry (guid_make hi entry counter)) k = bit entry k"
    using k assms(1) word_bit_bound [OF assms(3), of k] word_bit_bound [OF assms(2), of "k + 24"]
    by (auto simp: guid_make_def guid_bits add.commute)
qed

lemma get_counter_guid_make:
  assumes "counter \<noteq> 0" "counter < 2 ^ 24" "entry < 2 ^ 24" "has_entry_high hi"
  shows "get_counter (guid_make hi entry counter) = counter"
proof (rule bit_word_eqI)
  fix k assume k: "k < LENGTH(32)"
  have "get_counter (guid_make hi entry counter) = ucast (guid_make hi entry counter AND mask 24)"
    using assms by (simp add: get_counter_def has_entry_def get_high_guid_make mask_literals)
  then show "bit (get_counter (guid_make hi entry counter)) k = bit counter k"
    using k assms(1) word_bit_bound [OF assms(2), of k]
    by (auto simp: guid_make_def guid_bits)
qed

lemma get_counter_guid_make_global:
  assumes "counter \<noteq> 0" "\<not> has_entry_high hi"
  shows "get_counter (guid_make_global hi counter) = counter"
proof (rule bit_word_eqI)
  fix k assume k: "k < LENGTH(32)"
  have "get_counter (guid_make_global hi counter) = ucast (guid_make_global hi counter AND mask 32)"
    using assms by (simp add: get_counter_def has_entry_def get_high_guid_make_global mask_literals)
  then show "bit (get_counter (guid_make_global hi counter)) k = bit counter k"
    using k assms(1) by (auto simp: guid_make_global_def guid_bits)
qed

lemma get_max_counter_24:
  assumes "has_entry_high hi" "counter \<le> get_max_counter hi"
  shows "counter < 16777216"
proof -
  have "counter \<le> 0xFFFFFF" using assms by (simp add: get_max_counter_def)
  also have "(0xFFFFFF :: u32) < 16777216" by simp
  finally show ?thesis .
qed

text \<open>
  Claim C32: \<open>ObjectGuid::Create\<close> and the getters agree. For a type with an entry, any entry
  of 24 bits and any non-zero counter up to \<open>GetMaxCounter\<close> come back from \<open>GetHigh\<close>,
  \<open>GetEntry\<close> and \<open>GetCounter\<close>; for a global type the 32-bit counter does.
\<close>

theorem guid_create_roundtrip:
  assumes "counter \<noteq> 0" "counter \<le> get_max_counter hi" "entry < 0x1000000"
  shows "if has_entry_high hi
    then get_high (guid_create_map_specific hi entry counter) = hi \<and>
      get_entry (guid_create_map_specific hi entry counter) = entry \<and>
      get_counter (guid_create_map_specific hi entry counter) = counter
    else get_high (guid_create_global hi counter) = hi \<and>
      get_entry (guid_create_global hi counter) = 0 \<and>
      get_counter (guid_create_global hi counter) = counter"
proof (cases "has_entry_high hi")
  case True
  then have "counter < 2 ^ 24" using assms(2) get_max_counter_24 by simp
  moreover have "entry < 2 ^ 24" using assms(3) by simp
  ultimately show ?thesis
    using assms(1) True by (simp add: guid_create_map_specific_def get_high_guid_make
        get_entry_guid_make get_counter_guid_make)
next
  case False
  then show ?thesis
    using assms(1) by (simp add: guid_create_global_def get_high_guid_make_global get_entry_def
        has_entry_def get_counter_guid_make_global)
qed

theorem guid_create_roundtrip_witness:
  "get_high (guid_create_map_specific HG_Unit 1234 77) = HG_Unit \<and>
   get_entry (guid_create_map_specific HG_Unit 1234 77) = 1234 \<and>
   get_counter (guid_create_map_specific HG_Unit 1234 77) = 77"
  using guid_create_roundtrip [of 77 HG_Unit 1234]
  by (simp add: has_entry_high_def get_max_counter_def high_guid_defs)

text \<open>
  A map-specific type without an entry field (\<open>DynamicObject\<close>, \<open>Corpse\<close>) still has the
  \<open>Create\<close> that packs one, and its counter is read from 32 bits: an entry other than 0
  changes the counter that comes back.
\<close>

lemma corpse_entry_shows_in_counter:
  "get_counter (guid_create_map_specific HG_Corpse 1 5) = 0x1000005"
  by (simp add: guid_create_map_specific_def guid_make_def get_counter_def has_entry_def
      get_high_def has_entry_high_def high_guid_defs)

section \<open>The generator\<close>

lemma gen_generate_cases:
  assumes "gen_generate high gen = (c, gen1)"
  shows "c = gen_next gen" "gen_next gen1 = gen_next gen + 1"
    "gen_stopped gen1 \<longleftrightarrow> gen_stopped gen \<or> gen_next gen \<ge> get_max_counter high - 1"
  using assms by (auto simp: gen_generate_def handle_counter_overflow_def Let_def split: if_splits)

lemma gen_many_stopped:
  "gen_many high n gen = (cs, gen') \<Longrightarrow> gen_stopped gen \<Longrightarrow> gen_stopped gen'"
proof (induction n arbitrary: gen cs)
  case (Suc n)
  then obtain c gen1 cs1 where "gen_generate high gen = (c, gen1)" "gen_many high n gen1 = (cs1, gen')"
    by (auto simp: Let_def split: prod.splits)
  with Suc show ?case by (auto dest: gen_generate_cases)
qed simp

lemma gen_many_counters:
  assumes "gen_many high n gen = (cs, gen')" "\<not> gen_stopped gen'"
  shows "(n = 0 \<or> unat (gen_next gen) + n \<le> unat (get_max_counter high - 1))
    \<and> cs = map word_of_nat [unat (gen_next gen)..<unat (gen_next gen) + n]"
  using assms
proof (induction n arbitrary: gen cs)
  case (Suc n)
  obtain c gen1 cs1 where g: "gen_generate high gen = (c, gen1)"
    and m: "gen_many high n gen1 = (cs1, gen')" and cs: "cs = c # cs1"
    using Suc.prems(1) by (auto simp: Let_def split: prod.splits)
  have "\<not> gen_stopped gen1"
    using gen_many_stopped [OF m] Suc.prems(2) by blast
  then have lt: "gen_next gen < get_max_counter high - 1"
    and nx: "gen_next gen1 = gen_next gen + 1" and c: "c = gen_next gen"
    using gen_generate_cases [OF g] by auto
  have un: "unat (gen_next gen) < unat (get_max_counter high - 1)"
    using lt by (simp add: word_less_nat_alt)
  moreover have "unat (get_max_counter high - 1) < 2 ^ LENGTH(32)" by (rule unsigned_less)
  ultimately have "unat (gen_next gen) + 1 < 2 ^ LENGTH(32)" by linarith
  then have u1: "unat (gen_next gen1) = Suc (unat (gen_next gen))"
    by (simp add: nx unat_word_ariths)
  have "[unat (gen_next gen)..<unat (gen_next gen) + Suc n]
      = unat (gen_next gen) # [Suc (unat (gen_next gen))..<Suc (unat (gen_next gen)) + n]"
    by (simp add: upt_conv_Cons)
  with Suc.IH [OF m Suc.prems(2)] un show ?case by (auto simp: u1 cs c)
qed simp

lemma gen_many_range:
  assumes "gen_many high n gen = (cs, gen')" "\<not> gen_stopped gen'"
  shows "distinct cs" "length cs = n"
    "c \<in> set cs \<Longrightarrow> gen_next gen \<noteq> 0 \<Longrightarrow> c \<noteq> 0 \<and> c \<le> get_max_counter high"
proof -
  let ?m = "unat (gen_next gen)"
  note cs = gen_many_counters [OF assms]
  have M: "unat (get_max_counter high - 1) < 2 ^ 32"
    using unsigned_less [of "get_max_counter high - 1"] by simp
  have u: "unat (word_of_nat k :: u32) = k" if "k \<in> set [?m..<?m + n]" for k
    using that cs M by (auto simp: unat_of_nat)
  then have "inj_on (word_of_nat :: nat \<Rightarrow> u32) (set [?m..<?m + n])"
    by (metis inj_on_inverseI)
  then show "distinct cs" using cs by (simp add: distinct_map del: set_upt)
  show "length cs = n" using cs by simp
  show "c \<noteq> 0 \<and> c \<le> get_max_counter high" if c: "c \<in> set cs" and nz: "gen_next gen \<noteq> 0"
  proof -
    obtain k where k: "k \<in> set [?m..<?m + n]" "c = word_of_nat k" using c cs by auto
    then have uc: "unat c = k" using u by simp
    have "0 < ?m" using nz by (simp add: unat_gt_0)
    then have "0 < unat c" using k uc by simp
    moreover have "unat c < unat (get_max_counter high - 1)" using k uc cs by auto
    then have "c < get_max_counter high - 1" by (simp add: word_less_nat_alt)
    moreover have "get_max_counter high - 1 \<le> get_max_counter high"
      by (simp add: get_max_counter_def)
    ultimately show ?thesis by (auto simp: unat_gt_0)
  qed
qed



end
