(* ===== verification/UpdateMask.thy ===== *)
theory UpdateMask
  imports Packets
begin

text \<open>
  \<open>UpdateMask\<close> (src/server/game/Entities/Object/Updates/UpdateMask.h): the set of update
  fields that changed, one byte per field while it is collected, and one bit per field in
  blocks of 32 when it is appended to a packet. Accesses outside the byte array and failed
  assertions are values of \<open>um_error\<close>. The null pointer of a fresh mask is the empty array.
\<close>

datatype um_error = MaskAssertion | MaskOutOfBounds

record update_mask =
  um_field_count :: u32
  um_block_count :: u32
  um_bits :: "u8 list"

definition um_new :: update_mask where
  "um_new = \<lparr>um_field_count = 0, um_block_count = 0, um_bits = []\<rparr>"

definition um_set_count :: "u32 \<Rightarrow> update_mask \<Rightarrow> update_mask" where
  "um_set_count valuesCount m =
     (let blocks = (valuesCount + 32 - 1) div 32
      in m\<lparr>um_field_count := valuesCount, um_block_count := blocks,
           um_bits := replicate (unat (blocks * 32)) 0\<rparr>)"

definition um_set_bit :: "u32 \<Rightarrow> update_mask \<Rightarrow> um_error + update_mask" where
  "um_set_bit i m = (if unat i < length (um_bits m)
     then Inr (m\<lparr>um_bits := (um_bits m)[unat i := 1]\<rparr>) else Inl MaskOutOfBounds)"

definition um_unset_bit :: "u32 \<Rightarrow> update_mask \<Rightarrow> um_error + update_mask" where
  "um_unset_bit i m = (if unat i < length (um_bits m)
     then Inr (m\<lparr>um_bits := (um_bits m)[unat i := 0]\<rparr>) else Inl MaskOutOfBounds)"

definition um_get_bit :: "u32 \<Rightarrow> update_mask \<Rightarrow> um_error + bool" where
  "um_get_bit i m = (if unat i < length (um_bits m)
     then Inr (um_bits m ! unat i \<noteq> 0) else Inl MaskOutOfBounds)"

definition um_clear :: "update_mask \<Rightarrow> update_mask" where
  "um_clear m = m\<lparr>um_bits := replicate (length (um_bits m)) 0\<rparr>"

text \<open>The copy constructor and \<open>operator=\<close>: a new array, then \<open>memcpy\<close> of the whole blocks.\<close>

definition um_copy :: "update_mask \<Rightarrow> um_error + update_mask" where
  "um_copy right =
     (let m = um_set_count (um_field_count right) um_new
      in if length (um_bits m) \<le> length (um_bits right)
         then Inr (m\<lparr>um_bits := take (length (um_bits m)) (um_bits right)\<rparr>)
         else Inl MaskOutOfBounds)"

definition um_combine :: "(u8 \<Rightarrow> u8 \<Rightarrow> u8) \<Rightarrow> update_mask \<Rightarrow> update_mask \<Rightarrow> um_error + update_mask" where
  "um_combine f m right =
     (let n = unat (um_field_count m)
      in if \<not> um_field_count right \<le> um_field_count m then Inl MaskAssertion
         else if n \<le> length (um_bits m) \<and> n \<le> length (um_bits right)
         then Inr (m\<lparr>um_bits := map2 f (take n (um_bits m)) (take n (um_bits right))
                     @ drop n (um_bits m)\<rparr>)
         else Inl MaskOutOfBounds)"

definition um_and :: "update_mask \<Rightarrow> update_mask \<Rightarrow> um_error + update_mask" where
  "um_and = um_combine (\<lambda>x y. x AND y)"

definition um_or :: "update_mask \<Rightarrow> update_mask \<Rightarrow> um_error + update_mask" where
  "um_or = um_combine (\<lambda>x y. x OR y)"

definition um_plus :: "update_mask \<Rightarrow> update_mask \<Rightarrow> um_error + update_mask" where
  "um_plus m right = res_bind (um_copy m) (\<lambda>ret. um_or ret right)"

text \<open>\<open>AppendToPacket\<close>: the word of block \<open>i\<close>, built bit by bit, and the words in order.\<close>

fun mask_part :: "u8 list \<Rightarrow> nat \<Rightarrow> u32 \<Rightarrow> u32" where
  "mask_part [] j part = part"
| "mask_part (b # bs) j part = mask_part bs (Suc j) (if b \<noteq> 0 then part OR push_bit j 1 else part)"

definition um_block_word :: "update_mask \<Rightarrow> nat \<Rightarrow> um_error + u32" where
  "um_block_word m i =
     (if 32 * i + 32 \<le> length (um_bits m)
      then Inr (mask_part (take 32 (drop (32 * i) (um_bits m))) 0 0)
      else Inl MaskOutOfBounds)"

primrec um_words :: "update_mask \<Rightarrow> nat list \<Rightarrow> um_error + u32 list" where
  "um_words m [] = Inr []"
| "um_words m (i # ixs) =
     res_bind (um_block_word m i) (\<lambda>w. res_bind (um_words m ixs) (\<lambda>ws. Inr (w # ws)))"

definition um_append_to_packet :: "update_mask \<Rightarrow> world_packet \<Rightarrow> um_error + world_packet" where
  "um_append_to_packet m p =
     res_bind (um_words m [0..<unat (um_block_count m)]) (\<lambda>ws.
       Inr (WorldPacket (wp_opcode p) (wp_fields p @ map FU32 ws)))"

section \<open>Properties\<close>

text \<open>A mask as \<open>SetCount\<close> leaves it, for any number of fields short of the wrap-around.\<close>

definition um_ok :: "update_mask \<Rightarrow> bool" where
  "um_ok m \<longleftrightarrow> unat (um_field_count m) < 2 ^ 32 - 32
     \<and> unat (um_block_count m) = (unat (um_field_count m) + 31) div 32
     \<and> length (um_bits m) = 32 * unat (um_block_count m)"

lemma um_set_count_blocks:
  fixes n :: u32
  assumes "unat n < 2 ^ 32 - 32"
  shows "unat ((n + 32 - 1) div 32) = (unat n + 31) div 32"
    "unat ((n + 32 - 1) div 32 * 32) = 32 * ((unat n + 31) div 32)"
proof -
  have e: "n + 32 - 1 = n + 31" by simp
  have u: "unat (n + 31) = unat n + 31" using assms by (simp add: unat_word_ariths)
  show d: "unat ((n + 32 - 1) div 32) = (unat n + 31) div 32"
    by (simp only: e unat_div u) simp
  have "32 * ((unat n + 31) div 32) \<le> unat n + 31" by simp
  then show "unat ((n + 32 - 1) div 32 * 32) = 32 * ((unat n + 31) div 32)"
    using assms d by (simp add: unat_word_ariths mult.commute)
qed

lemma um_ok_set_count [inv_intros]: "unat n < 2 ^ 32 - 32 \<Longrightarrow> um_ok (um_set_count n m)"
  using um_set_count_blocks [of n] by (simp add: um_ok_def um_set_count_def Let_def)

lemma um_ok_set_bit [inv_intros]: "um_ok m \<Longrightarrow> um_set_bit i m = Inr m' \<Longrightarrow> um_ok m'"
  by (auto simp: um_ok_def um_set_bit_def split: if_splits)

lemma um_ok_unset_bit [inv_intros]: "um_ok m \<Longrightarrow> um_unset_bit i m = Inr m' \<Longrightarrow> um_ok m'"
  by (auto simp: um_ok_def um_unset_bit_def split: if_splits)

lemma um_ok_in_range: "um_ok m \<Longrightarrow> i < um_field_count m \<Longrightarrow> unat i < length (um_bits m)"
  by (auto simp: um_ok_def word_less_nat_alt)

lemma bit_mask_part:
  "j + length bs \<le> 32 \<Longrightarrow>
   bit (mask_part bs j part) k \<longleftrightarrow> bit part k \<or> j \<le> k \<and> k < j + length bs \<and> bs ! (k - j) \<noteq> 0"
proof (induction bs j part rule: mask_part.induct)
  case (2 b bs j part)
  have p: "bit (push_bit j (1 :: u32)) k \<longleftrightarrow> k = j"
    using 2(2) by (auto simp: bit_push_bit_iff bit_1_iff simp del: push_bit_of_1)
  from 2 show ?case
    by (auto simp: bit_or_iff p nth_Cons' le_Suc_eq Suc_le_eq simp del: push_bit_of_1)
qed auto

lemma um_words_eq:
  "\<forall>i \<in> set ixs. 32 * i + 32 \<le> length (um_bits m) \<Longrightarrow>
   um_words m ixs = Inr (map (\<lambda>i. mask_part (take 32 (drop (32 * i) (um_bits m))) 0 0) ixs)"
  by (induction ixs) (auto simp: um_block_word_def)

text \<open>
  Claim C37: the mask the client reads is the mask the server collected: for a mask as
  \<open>SetCount\<close> made it, \<open>AppendToPacket\<close> writes one 32-bit word per block of 32 fields, and bit
  \<open>j\<close> of word \<open>i\<close> is set exactly when \<open>GetBit (32 * i + j)\<close> is true.
\<close>

theorem append_to_packet_bits:
  assumes "um_ok m"
  shows "\<exists>ws. um_append_to_packet m p = Inr (WorldPacket (wp_opcode p) (wp_fields p @ map FU32 ws))
    \<and> length ws = (unat (um_field_count m) + 31) div 32
    \<and> (\<forall>i < length ws. \<forall>j < 32. um_get_bit (word_of_nat (32 * i + j)) m = Inr (bit (ws ! i) j))"
proof -
  let ?n = "unat (um_block_count m)"
  let ?w = "\<lambda>i. mask_part (take 32 (drop (32 * i) (um_bits m))) 0 0"
  have len: "length (um_bits m) = 32 * ?n" and n: "?n = (unat (um_field_count m) + 31) div 32"
    and small: "unat (um_field_count m) < 2 ^ 32 - 32"
    using assms by (auto simp: um_ok_def)
  have "um_words m [0..<?n] = Inr (map ?w [0..<?n])"
    by (rule um_words_eq) (auto simp: len)
  moreover have "um_get_bit (word_of_nat (32 * i + j)) m = Inr (bit (?w i) j)"
    if i: "i < ?n" and j: "j < 32" for i j
  proof -
    have lt: "32 * i + j < 32 * ?n" using i j by linarith
    have "32 * ?n \<le> unat (um_field_count m) + 31" using n by simp
    with lt small have "32 * i + j < 2 ^ 32" by simp
    then have u: "unat (word_of_nat (32 * i + j) :: u32) = 32 * i + j"
      by (simp add: unat_of_nat del: of_nat_add of_nat_mult)
    have l: "length (take 32 (drop (32 * i) (um_bits m))) = 32" using i len by simp
    have "take 32 (drop (32 * i) (um_bits m)) ! j = um_bits m ! (32 * i + j)"
      using j i len by simp
    then have "bit (?w i) j \<longleftrightarrow> um_bits m ! (32 * i + j) \<noteq> 0"
      using bit_mask_part [of 0 "take 32 (drop (32 * i) (um_bits m))" 0 j] l j
      by (simp del: length_take nth_take nth_drop)
    then show ?thesis using lt u len by (simp add: um_get_bit_def)
  qed
  ultimately show ?thesis using n
    by (intro exI [of _ "map ?w [0..<?n]"]) (simp add: um_append_to_packet_def)
qed

theorem append_to_packet_bits_witness:
  "\<exists>ws. um_append_to_packet (um_set_count 40 um_new) (WorldPacket 1 [])
    = Inr (WorldPacket 1 (map FU32 ws)) \<and> length ws = 2"
  using append_to_packet_bits [of "um_set_count 40 um_new" "WorldPacket 1 []"]
    um_ok_set_count [of 40 um_new]
  by (auto simp: um_set_count_def Let_def)

text \<open>
  Combining two masks of the same size is the union and the intersection of the
  fields they hold, and never touches a byte outside either array.
\<close>

theorem combine_masks:
  assumes "um_ok m" "um_ok r" "um_field_count r = um_field_count m" "i < um_field_count m"
  shows "\<exists>a b. um_and m r = Inr a \<and> um_or m r = Inr b \<and> um_ok a \<and> um_ok b
    \<and> um_get_bit i a = Inr (um_bits m ! unat i AND um_bits r ! unat i \<noteq> 0)
    \<and> um_get_bit i b = Inr (um_get_bit i m = Inr True \<or> um_get_bit i r = Inr True)"
proof -
  let ?n = "unat (um_field_count m)"
  have l: "?n \<le> length (um_bits m)" "?n \<le> length (um_bits r)"
    using assms(1-3) by (auto simp: um_ok_def)
  have i: "unat i < ?n" using assms(4) by (simp add: word_less_nat_alt)
  have or0: "(x :: u8) OR y \<noteq> 0 \<longleftrightarrow> x \<noteq> 0 \<or> y \<noteq> 0" for x y
    by (auto simp: or_eq_0_iff)
  show ?thesis using assms(1) l i assms(3)
    by (auto simp: um_and_def um_or_def um_combine_def Let_def um_get_bit_def um_ok_def
        nth_append or0)
qed

theorem combine_masks_witness:
  "\<exists>b. um_or (um_set_count 3 um_new) (um_set_count 3 um_new) = Inr b \<and> um_get_bit 2 b = Inr False"
proof -
  have z: "um_get_bit 2 (um_set_count 3 um_new) = Inr False"
    "um_field_count (um_set_count 3 um_new) = 3" by code_simp+
  then show ?thesis
    using combine_masks [of "um_set_count 3 um_new" "um_set_count 3 um_new" 2]
      um_ok_set_count [of 3 um_new] by auto
qed

text \<open>
  The assertion of \<open>operator|=\<close> admits a right operand with fewer fields, but the loop runs
  over the fields of the left one, so it reads behind the right array.
\<close>

lemma smaller_right_operand_out_of_bounds:
  "um_or (um_set_count 64 um_new) (um_set_count 1 um_new) = Inl MaskOutOfBounds"
  by code_simp

end
