(* ===== verification/MessageBuffer.thy ===== *)
theory MessageBuffer
  imports ByteBuffer
begin

text \<open>
  \<open>MessageBuffer\<close> of src/common/Utilities/MessageBuffer.h: the byte storage with a read and a
  write position the sockets receive into and send from. The locale \<open>byte_queue\<close> is what the
  sockets rely on: writing appends to the active bytes as long as there is room, and
  acknowledging a read drops them from the front. Writing outside the storage is undefined
  behaviour of the code and the value \<open>None\<close>; the sizes are \<open>std::size_t\<close>.
\<close>

section \<open>State and operations\<close>

record message_buffer =
  mb_wpos :: nat
  mb_rpos :: nat
  mb_storage :: bytes

definition sz_sub :: "nat \<Rightarrow> nat \<Rightarrow> nat" where
  "sz_sub a b = (if b \<le> a then a - b else a + 2 ^ 64 - b)"

definition mb_default :: message_buffer where
  "mb_default = \<lparr>mb_wpos = 0, mb_rpos = 0, mb_storage = vec_resize 4096 []\<rparr>"

definition mb_new :: "nat \<Rightarrow> message_buffer" where
  "mb_new initialSize = \<lparr>mb_wpos = 0, mb_rpos = 0, mb_storage = vec_resize initialSize []\<rparr>"

definition mb_reset :: "message_buffer \<Rightarrow> message_buffer" where
  "mb_reset b = b\<lparr>mb_wpos := 0, mb_rpos := 0\<rparr>"

definition mb_resize :: "nat \<Rightarrow> message_buffer \<Rightarrow> message_buffer" where
  "mb_resize n b = b\<lparr>mb_storage := vec_resize n (mb_storage b)\<rparr>"

definition mb_read_completed :: "nat \<Rightarrow> message_buffer \<Rightarrow> message_buffer" where
  "mb_read_completed n b = b\<lparr>mb_rpos := sz_add (mb_rpos b) n\<rparr>"

definition mb_write_completed :: "nat \<Rightarrow> message_buffer \<Rightarrow> message_buffer" where
  "mb_write_completed n b = b\<lparr>mb_wpos := sz_add (mb_wpos b) n\<rparr>"

definition mb_active_size :: "message_buffer \<Rightarrow> nat" where
  "mb_active_size b = sz_sub (mb_wpos b) (mb_rpos b)"

definition mb_remaining_space :: "message_buffer \<Rightarrow> nat" where
  "mb_remaining_space b = sz_sub (length (mb_storage b)) (mb_wpos b)"

definition mb_buffer_size :: "message_buffer \<Rightarrow> nat" where
  "mb_buffer_size b = length (mb_storage b)"

text \<open>The bytes at \<open>GetReadPointer()\<close>.\<close>

definition mb_read_pointer :: "message_buffer \<Rightarrow> bytes" where
  "mb_read_pointer b = drop (mb_rpos b) (mb_storage b)"

definition mb_normalize :: "message_buffer \<Rightarrow> message_buffer" where
  "mb_normalize b =
     (if mb_rpos b \<noteq> 0 then
        (if mb_rpos b \<noteq> mb_wpos b
         then b\<lparr>mb_storage := take (mb_active_size b) (mb_read_pointer b)
                  @ drop (mb_active_size b) (mb_storage b)\<rparr>
         else b)\<lparr>mb_wpos := sz_sub (mb_wpos b) (mb_rpos b), mb_rpos := 0\<rparr>
      else b)"

definition mb_ensure_free_space :: "message_buffer \<Rightarrow> message_buffer" where
  "mb_ensure_free_space b =
     (if mb_remaining_space b = 0
      then b\<lparr>mb_storage := vec_resize (length (mb_storage b) * 3 div 2) (mb_storage b)\<rparr>
      else b)"

text \<open>Copying bytes to the write pointer: what \<open>memcpy\<close> and the kernel's receive do.\<close>

definition mb_copy_in :: "bytes \<Rightarrow> message_buffer \<Rightarrow> message_buffer option" where
  "mb_copy_in xs b =
     (if mb_wpos b + length xs \<le> length (mb_storage b)
      then Some (b\<lparr>mb_storage := take (mb_wpos b) (mb_storage b) @ xs
                    @ drop (mb_wpos b + length xs) (mb_storage b)\<rparr>)
      else None)"

definition mb_write :: "bytes \<Rightarrow> message_buffer \<Rightarrow> message_buffer option" where
  "mb_write xs b =
     (if length xs \<noteq> 0
      then map_option (mb_write_completed (length xs)) (mb_copy_in xs b)
      else Some b)"

text \<open>\<open>Move()\<close>: the storage handed out and what is left behind.\<close>

definition mb_move :: "message_buffer \<Rightarrow> bytes \<times> message_buffer" where
  "mb_move b = (mb_storage b, \<lparr>mb_wpos = 0, mb_rpos = 0, mb_storage = []\<rparr>)"

definition mb_move_construct :: "message_buffer \<Rightarrow> message_buffer \<times> message_buffer" where
  "mb_move_construct right =
     (let (st, right') = mb_move right
      in (\<lparr>mb_wpos = mb_wpos right, mb_rpos = mb_rpos right, mb_storage = st\<rparr>, right'))"

text \<open>\<open>ByteBuffer(MessageBuffer&&)\<close>: the packet takes over the whole storage.\<close>

definition bb_of_message_buffer :: "message_buffer \<Rightarrow> byte_buffer \<times> message_buffer" where
  "bb_of_message_buffer b =
     (let (st, b') = mb_move b in (\<lparr>bb_rpos = 0, bb_wpos = 0, bb_storage = st\<rparr>, b'))"

section \<open>The interface\<close>

definition mb_ok :: "message_buffer \<Rightarrow> bool" where
  "mb_ok b \<longleftrightarrow> mb_rpos b \<le> mb_wpos b \<and> mb_wpos b \<le> length (mb_storage b)
     \<and> length (mb_storage b) < 2 ^ 62"

text \<open>The active bytes.\<close>

definition mb_content :: "message_buffer \<Rightarrow> bytes" where
  "mb_content b = take (mb_wpos b - mb_rpos b) (drop (mb_rpos b) (mb_storage b))"

text \<open>
  A queue of bytes with a limited room. \<open>transfer\<close> is the move of as many bytes as possible
  from one queue to another that both stages of the receive loop make.
\<close>

locale byte_queue =
  fixes content :: "'b \<Rightarrow> bytes"
    and room :: "'b \<Rightarrow> nat"
    and put_bytes :: "bytes \<Rightarrow> 'b \<Rightarrow> 'b option"
    and drop_bytes :: "nat \<Rightarrow> 'b \<Rightarrow> 'b"
    and ok :: "'b \<Rightarrow> bool"
  assumes put_bytes_ok: "ok b \<Longrightarrow> length xs \<le> room b \<Longrightarrow>
      \<exists>b'. put_bytes xs b = Some b' \<and> ok b' \<and> content b' = content b @ xs
        \<and> room b' = room b - length xs"
    and drop_bytes_ok: "ok b \<Longrightarrow> n \<le> length (content b) \<Longrightarrow>
      ok (drop_bytes n b) \<and> content (drop_bytes n b) = drop n (content b)
        \<and> room (drop_bytes n b) = room b"
begin

lemma transfer:
  assumes "ok src" "ok dst" "n = min (length (content src)) (room dst)"
  shows "\<exists>dst'. put_bytes (take n (content src)) dst = Some dst' \<and> ok dst'
    \<and> content dst' = content dst @ take n (content src) \<and> room dst' = room dst - n
    \<and> ok (drop_bytes n src) \<and> content (drop_bytes n src) = drop n (content src)
    \<and> room (drop_bytes n src) = room src"
  using put_bytes_ok [OF assms(2), of "take n (content src)"] drop_bytes_ok [OF assms(1), of n]
    assms(3) by auto

lemma transfer_conserves:
  assumes "ok src" "ok dst" "n = min (length (content src)) (room dst)"
    and "put_bytes (take n (content src)) dst = Some dst'"
  shows "content dst' @ content (drop_bytes n src) = content dst @ content src"
  using transfer [OF assms(1-3)] assms(4) by auto

text \<open>Writing several pieces one after the other is writing their concatenation.\<close>

lemma put_bytes_list:
  assumes "ok b" "length (concat xss) \<le> room b"
  shows "\<exists>b'. fold (\<lambda>xs r. Option.bind r (put_bytes xs)) xss (Some b) = Some b' \<and> ok b'
    \<and> content b' = content b @ concat xss \<and> room b' = room b - length (concat xss)"
  using assms
proof (induction xss arbitrary: b)
  case (Cons xs xss)
  then obtain b1 where b1: "put_bytes xs b = Some b1" "ok b1" "content b1 = content b @ xs"
    "room b1 = room b - length xs"
    using put_bytes_ok [of b xs] by auto
  with Cons.IH [of b1] Cons.prems show ?case by auto
qed simp

end

lemma mb_sz: "mb_ok b \<Longrightarrow> mb_active_size b = mb_wpos b - mb_rpos b
    \<and> mb_remaining_space b = length (mb_storage b) - mb_wpos b"
  by (simp add: mb_ok_def mb_active_size_def mb_remaining_space_def sz_sub_def)

lemma length_mb_content: "mb_ok b \<Longrightarrow> length (mb_content b) = mb_active_size b"
  by (simp add: mb_sz) (auto simp: mb_ok_def mb_content_def min_def)

lemma mb_content_pointer:
  "mb_ok b \<Longrightarrow> n \<le> mb_active_size b \<Longrightarrow> take n (mb_read_pointer b) = take n (mb_content b)"
  by (simp add: mb_sz) (simp add: mb_content_def mb_read_pointer_def min_def)

interpretation mq: byte_queue mb_content mb_remaining_space mb_write mb_read_completed mb_ok
proof unfold_locales
  fix b :: message_buffer and xs :: bytes
  assume b: "mb_ok b" and l: "length xs \<le> mb_remaining_space b"
  let ?b = "b\<lparr>mb_storage := take (mb_wpos b) (mb_storage b) @ xs
      @ drop (mb_wpos b + length xs) (mb_storage b), mb_wpos := mb_wpos b + length xs\<rparr>"
  have o: "mb_ok ?b" using b l by (simp add: mb_sz) (auto simp: mb_ok_def)
  have fit: "mb_wpos b + length xs \<le> length (mb_storage b)" "length (mb_storage b) < 2 ^ 62"
    using b l by (auto simp: mb_sz) (auto simp: mb_ok_def)
  then have "mb_write xs b = Some ?b"
    by (cases "xs = []") (simp_all add: mb_write_def mb_copy_in_def mb_write_completed_def)
  moreover have "mb_content ?b = mb_content b @ xs"
    using b fit by (cases xs) (auto simp: mb_content_def mb_ok_def min_def drop_take)
  ultimately show "\<exists>b'. mb_write xs b = Some b' \<and> mb_ok b' \<and> mb_content b' = mb_content b @ xs
        \<and> mb_remaining_space b' = mb_remaining_space b - length xs"
    using o b l fit by (intro exI [of _ ?b]) (simp add: mb_sz)
next
  fix b n
  assume b: "mb_ok b" and n: "n \<le> length (mb_content b)"
  then show "mb_ok (mb_read_completed n b) \<and>
      mb_content (mb_read_completed n b) = drop n (mb_content b) \<and>
      mb_remaining_space (mb_read_completed n b) = mb_remaining_space b"
    by (simp add: length_mb_content mb_sz)
      (auto simp: mb_ok_def mb_content_def mb_read_completed_def mb_remaining_space_def
        sz_sub_def drop_take add.commute)
qed

section \<open>The remaining operations\<close>

lemma mb_normalize_ok:
  assumes "mb_ok b"
  shows "mb_ok (mb_normalize b) \<and> mb_content (mb_normalize b) = mb_content b
    \<and> mb_rpos (mb_normalize b) = 0
    \<and> mb_remaining_space (mb_normalize b) = length (mb_storage b) - length (mb_content b)
    \<and> length (mb_storage (mb_normalize b)) = length (mb_storage b)"
proof -
  let ?c = "mb_normalize b"
  have len: "length (mb_storage ?c) = length (mb_storage b)"
    using assms by (simp add: mb_normalize_def mb_read_pointer_def mb_sz)
      (auto simp: mb_ok_def min_def)
  have pos: "mb_rpos ?c = 0" "mb_wpos ?c = mb_wpos b - mb_rpos b"
    using assms by (simp_all add: mb_normalize_def sz_sub_def mb_ok_def)
  have ok: "mb_ok ?c" using assms len pos by (auto simp: mb_ok_def)
  moreover have "mb_content ?c = mb_content b"
    using assms pos unfolding mb_content_def
    by (simp add: mb_normalize_def mb_read_pointer_def mb_sz) (simp add: mb_ok_def min_def)
  ultimately show ?thesis using assms len pos by (simp add: mb_sz length_mb_content)
qed

text \<open>
  After \<open>Normalize\<close> and \<open>EnsureFreeSpace\<close> there is room for at least one byte, provided the
  buffer has at least two: a full buffer of 0 or 1 bytes is not enlarged at all, since
  \<open>size * 3 / 2\<close> rounds down.
\<close>

lemma mb_prepare_ok:
  assumes "mb_ok b" "2 \<le> mb_buffer_size b" "mb_buffer_size b < 2 ^ 61"
  shows "mb_ok (mb_ensure_free_space (mb_normalize b))
    \<and> mb_content (mb_ensure_free_space (mb_normalize b)) = mb_content b
    \<and> 0 < mb_remaining_space (mb_ensure_free_space (mb_normalize b))
    \<and> mb_buffer_size b \<le> mb_buffer_size (mb_ensure_free_space (mb_normalize b))"
proof -
  let ?c = "mb_normalize b"
  note n = mb_normalize_ok [OF assms(1)]
  show ?thesis
  proof (cases "mb_remaining_space ?c = 0")
    case True
    let ?m = "length (mb_storage ?c)"
    have "?m < ?m * 3 div 2" using n assms(2) by (simp add: mb_buffer_size_def)
    with True n assms(3) show ?thesis
      by (auto simp: mb_ensure_free_space_def vec_resize_def mb_ok_def mb_content_def
          mb_buffer_size_def mb_remaining_space_def sz_sub_def split: if_splits)
  next
    case False
    with n show ?thesis by (simp add: mb_ensure_free_space_def mb_buffer_size_def)
  qed
qed

lemma ensure_free_space_tiny: "mb_remaining_space (mb_ensure_free_space (mb_new 0)) = 0"
  by code_simp

lemma mb_move_construct_content:
  "mb_content (fst (mb_move_construct b)) = mb_content b
   \<and> mb_content (snd (mb_move_construct b)) = [] \<and> mb_remaining_space (snd (mb_move_construct b)) = 0"
  by (simp add: mb_move_construct_def mb_move_def mb_content_def mb_remaining_space_def sz_sub_def)

end
