(* ===== verification/WorldSocket.thy ===== *)
theory WorldSocket
  imports MessageBuffer
begin

text \<open>
  The receive path of a client connection: \<open>Socket::AsyncRead\<close> and \<open>ReadHandlerInternal\<close>
  (src/server/shared/Network/Socket.h) and \<open>WorldSocket::ReadHandler\<close> and
  \<open>ReadHeaderHandler\<close> (src/server/game/Server/WorldSocket.cpp), which cut the TCP stream into
  packets. What a packet does is a parameter here (\<open>so_handle\<close>, modelled in the theory
  \<open>AuthSession\<close>), and so is the stream cipher. The receive loop is shown to refine a
  parser that consumes one byte at a time, so how the network cuts the stream into chunks
  cannot change what the server does.
\<close>

section \<open>State\<close>

datatype read_result = RDH_Ok | RDH_Error | RDH_WaitingForQuery

text \<open>
  A failed assertion, an access outside a buffer, or a loop that would not end.
\<close>

datatype sock_error = SE_Assert | SE_Memory | SE_Loop

record 's world_socket =
  ws_closed :: bool
  ws_closing :: bool
  ws_reading :: bool
  ws_read_buffer :: message_buffer
  ws_header_buffer :: message_buffer
  ws_packet_buffer :: message_buffer
  ws_app :: 's

text \<open>
  The code the receive path calls: \<open>AuthCrypt::DecryptRecv\<close> (the identity until the cipher is
  initialised), the body of \<open>ReadDataHandler\<close> on opcode and payload, and \<open>OnClose\<close>.
\<close>

record 's socket_ops =
  so_decrypt :: "'s \<Rightarrow> bytes \<Rightarrow> bytes \<times> 's"
  so_handle :: "u32 \<Rightarrow> bytes \<Rightarrow> 's \<Rightarrow> read_result \<times> 's"
  so_on_close :: "'s \<Rightarrow> 's"

definition mem :: "'a option \<Rightarrow> sock_error + 'a" where
  "mem r = (case r of None \<Rightarrow> Inl SE_Memory | Some x \<Rightarrow> Inr x)"

definition is_open :: "'s world_socket \<Rightarrow> bool" where
  "is_open ws \<longleftrightarrow> \<not> ws_closed ws \<and> \<not> ws_closing ws"

text \<open>The constructors of \<open>Socket\<close> and \<open>WorldSocket\<close>: 4096 and 6 bytes of buffer.\<close>

definition READ_BLOCK_SIZE :: nat where "READ_BLOCK_SIZE = 4096"

definition sizeof_ClientPktHeader :: nat where "sizeof_ClientPktHeader = 6"

definition world_socket_new :: "'s \<Rightarrow> 's world_socket" where
  "world_socket_new app =
     \<lparr>ws_closed = False, ws_closing = False, ws_reading = False,
      ws_read_buffer = mb_resize READ_BLOCK_SIZE mb_default,
      ws_header_buffer = mb_resize sizeof_ClientPktHeader mb_default,
      ws_packet_buffer = mb_default, ws_app = app\<rparr>"

section \<open>Receiving\<close>

definition close_socket :: "'s socket_ops \<Rightarrow> 's world_socket \<Rightarrow> 's world_socket" where
  "close_socket ops ws =
     (if ws_closed ws then ws
      else ws\<lparr>ws_closed := True, ws_app := so_on_close ops (ws_app ws)\<rparr>)"

definition delayed_close_socket :: "'s world_socket \<Rightarrow> 's world_socket" where
  "delayed_close_socket ws = ws\<lparr>ws_closing := True\<rparr>"

definition async_read :: "'s world_socket \<Rightarrow> 's world_socket" where
  "async_read ws =
     (if \<not> is_open ws then ws
      else ws\<lparr>ws_read_buffer := mb_ensure_free_space (mb_normalize (ws_read_buffer ws)),
              ws_reading := True\<rparr>)"

text \<open>\<open>ClientPktHeader::IsValidSize\<close> and \<open>IsValidOpcode\<close>.\<close>

definition NUM_OPCODE_HANDLERS :: nat where "NUM_OPCODE_HANDLERS = 0x51F"

definition is_valid_size :: "nat \<Rightarrow> bool" where
  "is_valid_size sz \<longleftrightarrow> sz \<ge> 4 \<and> sz < 10240"

definition is_valid_opcode :: "nat \<Rightarrow> bool" where
  "is_valid_opcode cmd \<longleftrightarrow> cmd < NUM_OPCODE_HANDLERS"

text \<open>The header's fields after the endian conversions: the size is big-endian on the wire.\<close>

definition header_size :: "bytes \<Rightarrow> nat" where
  "header_size h = le_nat (rev (take 2 h))"

definition header_cmd :: "bytes \<Rightarrow> nat" where
  "header_cmd h = le_nat (take 4 (drop 2 h))"

text \<open>Overwriting the bytes at the read pointer, as the in-place cipher and conversions do.\<close>

definition mb_poke :: "bytes \<Rightarrow> message_buffer \<Rightarrow> message_buffer" where
  "mb_poke xs b = b\<lparr>mb_storage := take (mb_rpos b) (mb_storage b) @ xs
     @ drop (mb_rpos b + length xs) (mb_storage b)\<rparr>"

definition read_header_handler ::
    "'s socket_ops \<Rightarrow> 's world_socket \<Rightarrow> sock_error + (bool \<times> 's world_socket)" where
  "read_header_handler ops ws =
     (if mb_active_size (ws_header_buffer ws) \<noteq> sizeof_ClientPktHeader then Inl SE_Assert
      else
        let (h, app) = so_decrypt ops (ws_app ws)
              (take sizeof_ClientPktHeader (mb_read_pointer (ws_header_buffer ws)));
            sz = header_size h;
            cmd = header_cmd h
        in if \<not> is_valid_size sz \<or> \<not> is_valid_opcode cmd
           then Inr (False, ws\<lparr>ws_app := app,
             ws_header_buffer := mb_poke (le_bytes 2 sz @ le_bytes 4 cmd) (ws_header_buffer ws)\<rparr>)
           else Inr (True, ws\<lparr>ws_app := app,
             ws_header_buffer := mb_poke (le_bytes 2 (sz - 4) @ le_bytes 4 cmd) (ws_header_buffer ws),
             ws_packet_buffer := mb_resize (sz - 4) (ws_packet_buffer ws)\<rparr>))"

text \<open>The frame of \<open>ReadDataHandler\<close>: the opcode from the header, the packet moved out.\<close>

definition read_data ::
    "'s socket_ops \<Rightarrow> 's world_socket \<Rightarrow> read_result \<times> 's world_socket" where
  "read_data ops ws =
     (let cmd = word_of_nat (header_cmd (mb_read_pointer (ws_header_buffer ws)));
          (packet, pb) = bb_of_message_buffer (ws_packet_buffer ws);
          (r, app) = so_handle ops cmd (bb_storage packet) (ws_app ws)
      in (r, ws\<lparr>ws_packet_buffer := pb, ws_app := app\<rparr>))"

text \<open>
  Each half of the loop body moves bytes from the receive buffer to a partial buffer. It
  returns whether that buffer is still short, in which case the code asserts that the input
  is used up, and the two buffers.
\<close>

definition fill :: "message_buffer \<Rightarrow> message_buffer
    \<Rightarrow> sock_error + (bool \<times> message_buffer \<times> message_buffer)" where
  "fill dst packet =
     (let n = min (mb_active_size packet) (mb_remaining_space dst)
      in res_bind (mem (mb_write (take n (mb_read_pointer packet)) dst)) (\<lambda>dst.
           let packet = mb_read_completed n packet
           in if mb_remaining_space dst > 0
              then if mb_active_size packet \<noteq> 0 then Inl SE_Assert else Inr (True, dst, packet)
              else Inr (False, dst, packet)))"

definition fill_header :: "'s world_socket \<Rightarrow> sock_error + (bool \<times> 's world_socket)" where
  "fill_header ws =
     res_bind (fill (ws_header_buffer ws) (ws_read_buffer ws)) (\<lambda>(short, hb, rb).
       Inr (short, ws\<lparr>ws_header_buffer := hb, ws_read_buffer := rb\<rparr>))"

definition fill_packet :: "'s world_socket \<Rightarrow> sock_error + (bool \<times> 's world_socket)" where
  "fill_packet ws =
     res_bind (fill (ws_packet_buffer ws) (ws_read_buffer ws)) (\<lambda>(short, pb, rb).
       Inr (short, ws\<lparr>ws_packet_buffer := pb, ws_read_buffer := rb\<rparr>))"

text \<open>How one pass of the loop ends: next pass, \<open>break\<close>, or \<open>return\<close>.\<close>

datatype loop_exit = LContinue | LBreak | LReturn

text \<open>The end of the loop body: the handler, and what its result means for the loop.\<close>

definition packet_received ::
    "'s socket_ops \<Rightarrow> 's world_socket \<Rightarrow> loop_exit \<times> 's world_socket" where
  "packet_received ops ws =
     (let (r, ws) = read_data ops ws;
          ws = ws\<lparr>ws_header_buffer := mb_reset (ws_header_buffer ws)\<rparr>
      in if r \<noteq> RDH_Ok
         then (LReturn, if r \<noteq> RDH_WaitingForQuery then close_socket ops ws else ws)
         else (LContinue, ws))"

text \<open>The second half of the loop body: payload, then the handler.\<close>

definition payload_stage ::
    "'s socket_ops \<Rightarrow> 's world_socket \<Rightarrow> sock_error + (loop_exit \<times> 's world_socket)" where
  "payload_stage ops ws =
     res_bind (if mb_remaining_space (ws_packet_buffer ws) > 0 then fill_packet ws
               else Inr (False, ws)) (\<lambda>(short, ws).
       if short then Inr (LBreak, ws) else Inr (packet_received ops ws))"

definition read_pass ::
    "'s socket_ops \<Rightarrow> 's world_socket \<Rightarrow> sock_error + (loop_exit \<times> 's world_socket)" where
  "read_pass ops ws =
     (if mb_remaining_space (ws_header_buffer ws) > 0 then
        res_bind (fill_header ws) (\<lambda>(short, ws).
          if short then Inr (LBreak, ws)
          else res_bind (read_header_handler ops ws) (\<lambda>(good, ws).
            if \<not> good then Inr (LReturn, close_socket ops ws)
            else payload_stage ops ws))
      else payload_stage ops ws)"

text \<open>
  The \<open>while\<close> loop with the passes left; \<open>read_handler\<close> allows one pass per byte, and the
  proofs below show that each pass takes at least one. The flag tells whether the code after
  the loop is reached.
\<close>

fun read_loop ::
    "nat \<Rightarrow> 's socket_ops \<Rightarrow> 's world_socket \<Rightarrow> sock_error + (bool \<times> 's world_socket)" where
  "read_loop fuel ops ws =
     (if mb_active_size (ws_read_buffer ws) > 0 then
        (case fuel of
           0 \<Rightarrow> Inl SE_Loop
         | Suc fuel' \<Rightarrow> res_bind (read_pass ops ws) (\<lambda>(e, ws).
             case e of LContinue \<Rightarrow> read_loop fuel' ops ws
             | LBreak \<Rightarrow> Inr (True, ws)
             | LReturn \<Rightarrow> Inr (False, ws)))
      else Inr (True, ws))"

declare read_loop.simps [simp del]

definition read_handler ::
    "'s socket_ops \<Rightarrow> 's world_socket \<Rightarrow> sock_error + 's world_socket" where
  "read_handler ops ws =
     (if \<not> is_open ws then Inr ws
      else res_bind (read_loop (mb_active_size (ws_read_buffer ws)) ops ws) (\<lambda>(reached, ws).
        Inr (if reached then async_read ws else ws)))"

text \<open>\<open>ReadHandlerInternal\<close>: an error, or bytes the kernel stored at the write pointer.\<close>

definition read_handler_internal ::
    "'s socket_ops \<Rightarrow> bytes option \<Rightarrow> 's world_socket \<Rightarrow> sock_error + 's world_socket" where
  "read_handler_internal ops transferred ws =
     (let ws = ws\<lparr>ws_reading := False\<rparr> in
      case transferred of
        None \<Rightarrow> Inr (close_socket ops ws)
      | Some chunk \<Rightarrow> res_bind (mem (mb_copy_in chunk (ws_read_buffer ws))) (\<lambda>rb.
          read_handler ops (ws\<lparr>ws_read_buffer := mb_write_completed (length chunk) rb\<rparr>)))"

text \<open>
  A stream that arrives in the given chunks, each delivered when a read is outstanding; what
  is not delivered stays in the kernel.
\<close>

fun receive_all ::
    "'s socket_ops \<Rightarrow> bytes list \<Rightarrow> 's world_socket \<Rightarrow> sock_error + ('s world_socket \<times> bytes list)"
where
  "receive_all ops [] ws = Inr (ws, [])"
| "receive_all ops (c # cs) ws =
     (if ws_reading ws
      then res_bind (read_handler_internal ops (Some c) ws) (receive_all ops cs)
      else Inr (ws, c # cs))"

section \<open>The parser the receive path implements\<close>

text \<open>
  The specification consumes one byte at a time: six header bytes, then the payload, then the
  handler. What comes after the parser has stopped is kept as unread.
\<close>

datatype stream_status = Reading | Waiting | Closed

record 's parser =
  ps_status :: stream_status
  ps_header :: bytes
  ps_body :: "(u32 \<times> nat \<times> bytes) option"
  ps_app :: 's
  ps_unread :: bytes

definition payload_done :: "'s socket_ops \<Rightarrow> u32 \<Rightarrow> bytes \<Rightarrow> 's parser \<Rightarrow> 's parser" where
  "payload_done ops cmd p ps =
     (let (r, app) = so_handle ops cmd p (ps_app ps)
      in ps\<lparr>ps_header := [], ps_body := None,
            ps_app := (if r = RDH_Error then so_on_close ops app else app),
            ps_status := (case r of RDH_Ok \<Rightarrow> Reading | RDH_WaitingForQuery \<Rightarrow> Waiting
                          | RDH_Error \<Rightarrow> Closed)\<rparr>)"

definition header_done :: "'s socket_ops \<Rightarrow> bytes \<Rightarrow> 's parser \<Rightarrow> 's parser" where
  "header_done ops h ps =
     (let (h, app) = so_decrypt ops (ps_app ps) h;
          ps = ps\<lparr>ps_header := [], ps_app := app\<rparr>
      in if \<not> is_valid_size (header_size h) \<or> \<not> is_valid_opcode (header_cmd h)
         then ps\<lparr>ps_app := so_on_close ops app, ps_status := Closed\<rparr>
         else if header_size h = 4 then payload_done ops (word_of_nat (header_cmd h)) [] ps
         else ps\<lparr>ps_body := Some (word_of_nat (header_cmd h), header_size h - 4, [])\<rparr>)"

definition parse_byte :: "'s socket_ops \<Rightarrow> u8 \<Rightarrow> 's parser \<Rightarrow> 's parser" where
  "parse_byte ops b ps =
     (if ps_status ps \<noteq> Reading then ps\<lparr>ps_unread := ps_unread ps @ [b]\<rparr>
      else case ps_body ps of
        None \<Rightarrow>
          if length (ps_header ps) + 1 < sizeof_ClientPktHeader
          then ps\<lparr>ps_header := ps_header ps @ [b]\<rparr>
          else header_done ops (ps_header ps @ [b]) ps
      | Some (cmd, need, p) \<Rightarrow>
          if length p + 1 < need then ps\<lparr>ps_body := Some (cmd, need, p @ [b])\<rparr>
          else payload_done ops cmd (p @ [b]) ps)"

definition parse :: "'s socket_ops \<Rightarrow> bytes \<Rightarrow> 's parser \<Rightarrow> 's parser" where
  "parse ops bs = fold (parse_byte ops) bs"

lemma parse_append: "parse ops (xs @ ys) ps = parse ops ys (parse ops xs ps)"
  by (simp add: parse_def)

lemma parse_Nil [simp]: "parse ops [] ps = ps"
  by (simp add: parse_def)

lemma parse_Cons: "parse ops (b # bs) ps = parse ops bs (parse_byte ops b ps)"
  by (simp add: parse_def)

lemma parse_stopped:
  "ps_status ps \<noteq> Reading \<Longrightarrow> parse ops bs ps = ps\<lparr>ps_unread := ps_unread ps @ bs\<rparr>"
  by (induction bs arbitrary: ps) (simp_all add: parse_Cons parse_byte_def)

lemma payload_done_body [simp]:
  "payload_done ops cmd p (ps\<lparr>ps_body := x\<rparr>) = payload_done ops cmd p ps"
  by (simp add: payload_done_def Let_def split: prod.splits)

lemma header_done_header [simp]:
  "header_done ops h (ps\<lparr>ps_header := x\<rparr>) = header_done ops h ps"
  by (simp add: header_done_def Let_def split: prod.splits)

lemma parse_header:
  assumes "ps_status ps = Reading" "ps_body ps = None" "bs \<noteq> []"
    and "length (ps_header ps) + length bs \<le> sizeof_ClientPktHeader"
  shows "parse ops bs ps =
    (if length (ps_header ps) + length bs < sizeof_ClientPktHeader
     then ps\<lparr>ps_header := ps_header ps @ bs\<rparr>
     else header_done ops (ps_header ps @ bs) ps)"
  using assms
proof (induction bs arbitrary: ps)
  case (Cons b bs)
  show ?case
  proof (cases "bs = []")
    case True
    then show ?thesis using Cons.prems by (simp add: parse_Cons parse_byte_def)
  next
    case False
    then have "length (ps_header ps) + 1 < sizeof_ClientPktHeader"
      using Cons.prems by (cases bs) auto
    then show ?thesis
      using Cons.IH [of "ps\<lparr>ps_header := ps_header ps @ [b]\<rparr>"] Cons.prems False
      by (simp add: parse_Cons parse_byte_def)
  qed
qed simp

lemma parse_payload:
  assumes "ps_status ps = Reading" "ps_body ps = Some (cmd, need, p)" "bs \<noteq> []"
    and "length p + length bs \<le> need"
  shows "parse ops bs ps =
    (if length p + length bs < need then ps\<lparr>ps_body := Some (cmd, need, p @ bs)\<rparr>
     else payload_done ops cmd (p @ bs) ps)"
  using assms
proof (induction bs arbitrary: ps p)
  case (Cons b bs)
  show ?case
  proof (cases "bs = []")
    case True
    then show ?thesis using Cons.prems by (simp add: parse_Cons parse_byte_def)
  next
    case False
    then have "length p + 1 < need"
      using Cons.prems by (cases bs) auto
    then show ?thesis
      using Cons.IH [of "ps\<lparr>ps_body := Some (cmd, need, p @ [b])\<rparr>" "p @ [b]"] Cons.prems False
      by (simp add: parse_Cons parse_byte_def)
  qed
qed simp

section \<open>The receive loop refines the parser\<close>

definition cipher_ok :: "'s socket_ops \<Rightarrow> bool" where
  "cipher_ok ops \<longleftrightarrow> (\<forall>s h. length (fst (so_decrypt ops s h)) = length h)"

text \<open>
  The buffers between two passes of the loop. The header buffer is full exactly while a
  payload is being received.
\<close>

definition ws_inv :: "'s world_socket \<Rightarrow> bool" where
  "ws_inv ws \<longleftrightarrow> is_open ws \<and> mb_ok (ws_read_buffer ws) \<and> mb_ok (ws_header_buffer ws)
     \<and> mb_ok (ws_packet_buffer ws)
     \<and> length (mb_storage (ws_header_buffer ws)) = sizeof_ClientPktHeader
     \<and> mb_rpos (ws_header_buffer ws) = 0 \<and> mb_rpos (ws_packet_buffer ws) = 0
     \<and> (if mb_wpos (ws_header_buffer ws) = sizeof_ClientPktHeader
        then mb_wpos (ws_packet_buffer ws) < length (mb_storage (ws_packet_buffer ws))
        else mb_wpos (ws_packet_buffer ws) = 0)"

text \<open>The parser state of a socket, given its status and what is unread.\<close>

definition ps_of :: "stream_status \<Rightarrow> bytes \<Rightarrow> 's world_socket \<Rightarrow> 's parser" where
  "ps_of st unread ws =
     (let hb = ws_header_buffer ws; pb = ws_packet_buffer ws;
          full = (mb_wpos hb = sizeof_ClientPktHeader)
      in \<lparr>ps_status = st,
          ps_header = (if st = Closed \<or> full then [] else mb_content hb),
          ps_body = (if st \<noteq> Closed \<and> full
                     then Some (word_of_nat (header_cmd (mb_read_pointer hb)),
                            mb_buffer_size pb, mb_content pb)
                     else None),
          ps_app = ws_app ws, ps_unread = unread\<rparr>)"

definition socket_status :: "'s world_socket \<Rightarrow> stream_status" where
  "socket_status ws = (if ws_closed ws then Closed else if ws_reading ws then Reading else Waiting)"

definition parser_of :: "'s world_socket \<Rightarrow> bytes list \<Rightarrow> 's parser" where
  "parser_of ws rest = ps_of (socket_status ws) (mb_content (ws_read_buffer ws) @ concat rest) ws"

text \<open>What a pass over the active bytes \<open>c\<close> does, in terms of the parser.\<close>

definition pass_ok :: "'s socket_ops \<Rightarrow> bytes \<Rightarrow> nat \<Rightarrow> 's parser \<Rightarrow> loop_exit \<times> 's world_socket \<Rightarrow> bool"
where
  "pass_ok ops c n ps ews =
     (case ews of (e, ws) \<Rightarrow>
        n \<le> length c \<and> mb_content (ws_read_buffer ws) = drop n c \<and> mb_ok (ws_read_buffer ws)
        \<and> (e = LContinue \<longrightarrow> ws_inv ws \<and> ps = ps_of Reading [] ws)
        \<and> (e = LBreak \<longrightarrow> ws_inv ws \<and> ps = ps_of Reading [] ws \<and> n = length c)
        \<and> (e = LReturn \<longrightarrow> (ws_inv ws \<and> ps = ps_of Waiting [] ws)
            \<or> (ws_closed ws \<and> ps = ps_of Closed [] ws)))"

lemma header_reset_content [simp]:
  "mb_content (mb_reset b) = []" "mb_wpos (mb_reset b) = 0" "mb_rpos (mb_reset b) = 0"
  "mb_storage (mb_reset b) = mb_storage b"
  by (simp_all add: mb_reset_def mb_content_def)

lemma packet_received_ok:
  assumes "is_open ws" "mb_ok (ws_read_buffer ws)"
    and "length (mb_storage (ws_header_buffer ws)) = sizeof_ClientPktHeader"
    and pb: "mb_rpos (ws_packet_buffer ws) = 0"
      "mb_wpos (ws_packet_buffer ws) = length (mb_storage (ws_packet_buffer ws))"
    and "n \<le> length c" "mb_content (ws_read_buffer ws) = drop n c"
    and ps: "ps_app ps = ws_app ws" "ps_unread ps = []"
  shows "pass_ok ops c n (payload_done ops
      (word_of_nat (header_cmd (mb_read_pointer (ws_header_buffer ws))))
      (mb_content (ws_packet_buffer ws)) ps) (packet_received ops ws)"
proof -
  let ?cmd = "word_of_nat (header_cmd (mb_read_pointer (ws_header_buffer ws)))"
  have payload: "mb_content (ws_packet_buffer ws) = mb_storage (ws_packet_buffer ws)"
    using pb by (simp add: mb_content_def)
  obtain r app where r: "so_handle ops ?cmd (mb_storage (ws_packet_buffer ws)) (ws_app ws) = (r, app)"
    by fastforce
  show ?thesis
    using assms
    by (cases r)
      (simp_all add: packet_received_def read_data_def bb_of_message_buffer_def mb_move_def Let_def r
        payload payload_done_def pass_ok_def ws_inv_def ps_of_def close_socket_def is_open_def
        mb_ok_def sizeof_ClientPktHeader_def)
qed

text \<open>Writing keeps the read position and the size of the storage.\<close>

lemma mb_write_keeps:
  "mb_write xs b = Some b' \<Longrightarrow> mb_rpos b' = mb_rpos b \<and> length (mb_storage b') = length (mb_storage b)"
  by (auto simp: mb_write_def mb_copy_in_def mb_write_completed_def split: if_splits)

lemma fill_ok:
  assumes "mb_ok packet" "mb_ok dst"
    and n: "n = min (length (mb_content packet)) (mb_remaining_space dst)"
    and room: "0 < mb_remaining_space dst"
  shows "\<exists>dst' packet'. fill dst packet = Inr (n < mb_remaining_space dst, dst', packet')
      \<and> mb_ok dst' \<and> mb_content dst' = mb_content dst @ take n (mb_content packet)
      \<and> mb_remaining_space dst' = mb_remaining_space dst - n
      \<and> mb_rpos dst' = mb_rpos dst \<and> length (mb_storage dst') = length (mb_storage dst)
      \<and> mb_ok packet' \<and> mb_content packet' = drop n (mb_content packet)"
proof -
  let ?p = "mb_read_completed n packet"
  note l = length_mb_content [OF assms(1)]
  obtain dst' where d: "mb_write (take n (mb_content packet)) dst = Some dst'" "mb_ok dst'"
    "mb_content dst' = mb_content dst @ take n (mb_content packet)"
    "mb_remaining_space dst' = mb_remaining_space dst - n"
    "mb_ok ?p" "mb_content ?p = drop n (mb_content packet)"
    using mq.transfer [OF assms(1,2) n] by blast
  have t: "take n (mb_read_pointer packet) = take n (mb_content packet)"
    using mb_content_pointer [OF assms(1), of n] n l by simp
  have act: "mb_active_size ?p = mb_active_size packet - n"
    using length_mb_content [OF d(5)] d(6) l by simp
  have n': "n = min (mb_active_size packet) (mb_remaining_space dst)" using n l by simp
  have "n < mb_remaining_space dst \<Longrightarrow> mb_active_size packet \<le> n" using n' by simp
  then have "fill dst packet = Inr (n < mb_remaining_space dst, dst', ?p)"
    using room by (auto simp: fill_def mem_def Let_def t d act simp flip: n')
  with d mb_write_keeps [OF d(1)] show ?thesis
    by (intro exI [of _ dst'] exI [of _ ?p]) simp
qed

lemma pass_ok_drop:
  "pass_ok ops (drop m c) n ps r \<Longrightarrow> m \<le> length c \<Longrightarrow> pass_ok ops c (m + n) ps r"
  by (auto simp: pass_ok_def add.commute split: prod.splits)

lemma payload_stage_ok:
  assumes inv: "ws_inv ws" and full: "mb_wpos (ws_header_buffer ws) = sizeof_ClientPktHeader"
    and c: "c = mb_content (ws_read_buffer ws)"
    and n: "n = min (length c) (mb_remaining_space (ws_packet_buffer ws))"
  shows "\<exists>r. payload_stage ops ws = Inr r
    \<and> pass_ok ops c n (parse ops (take n c) (ps_of Reading [] ws)) r"
proof -
  let ?pb = "ws_packet_buffer ws" and ?ps = "ps_of Reading [] ws"
  let ?cmd = "word_of_nat (header_cmd (mb_read_pointer (ws_header_buffer ws))) :: u32"
  note defs = inv [unfolded ws_inv_def is_open_def]
  have need: "length (mb_content ?pb) + mb_remaining_space ?pb = mb_buffer_size ?pb"
    "0 < mb_remaining_space ?pb"
    using defs full by (simp_all add: length_mb_content mb_sz mb_buffer_size_def)
  obtain pb rb where f: "fill ?pb (ws_read_buffer ws) = Inr (n < mb_remaining_space ?pb, pb, rb)"
    "mb_ok pb" "mb_content pb = mb_content ?pb @ take n c"
    "mb_remaining_space pb = mb_remaining_space ?pb - n"
    "mb_rpos pb = 0" "length (mb_storage pb) = length (mb_storage ?pb)"
    "mb_ok rb" "mb_content rb = drop n c"
    using fill_ok [of "ws_read_buffer ws" ?pb n] defs need n c by auto
  let ?ws = "ws\<lparr>ws_packet_buffer := pb, ws_read_buffer := rb\<rparr>"
  have body: "ps_body ?ps = Some (?cmd, mb_buffer_size ?pb, mb_content ?pb)" "ps_status ?ps = Reading"
    "ps_header ?ps = []" "ps_app ?ps = ws_app ws" "ps_unread ?ps = []"
    using full by (simp_all add: ps_of_def Let_def)
  have stage: "payload_stage ops ws = Inr (if n < mb_remaining_space ?pb then (LBreak, ?ws)
      else packet_received ops ?ws)"
    using need f(1) by (simp add: payload_stage_def fill_packet_def)
  have wpos: "mb_wpos pb = length (mb_content ?pb) + n" "mb_remaining_space ?pb \<ge> n"
    using length_mb_content [OF f(2)] f(2,3,5) n by (auto simp: mb_sz)
  show ?thesis
  proof (cases "n < mb_remaining_space ?pb")
    case True
    then have nc: "n = length c" using n by simp
    have "ws_inv ?ws"
      using defs full f need True wpos by (simp add: ws_inv_def is_open_def mb_buffer_size_def)
    moreover have "parse ops (take n c) ?ps = ps_of Reading [] ?ws"
    proof (cases "c = []")
      case True
      with f(3) nc show ?thesis using full f(6) by (simp add: ps_of_def Let_def mb_buffer_size_def)
    next
      case False
      then have "parse ops (take n c) ?ps
          = ?ps\<lparr>ps_body := Some (?cmd, mb_buffer_size ?pb, mb_content ?pb @ take n c)\<rparr>"
        using parse_payload [OF body(2,1), of "take n c" ops] True need nc by simp
      then show ?thesis using full f(3,6) by (simp add: ps_of_def Let_def mb_buffer_size_def)
    qed
    ultimately show ?thesis using stage True nc f(7,8) by (simp add: pass_ok_def)
  next
    case False
    then have ne: "take n c \<noteq> []" "n \<le> length c" using n need by auto
    have "parse ops (take n c) ?ps = payload_done ops ?cmd (mb_content pb) ?ps"
      using parse_payload [OF body(2,1) ne(1), of ops] False need ne wpos f(3) by simp
    moreover have "pass_ok ops c n (payload_done ops ?cmd (mb_content pb) ?ps)
        (packet_received ops ?ws)"
      using packet_received_ok [of ?ws n c ?ps ops] defs f False need wpos ne body
      by (simp add: is_open_def mb_buffer_size_def)
    ultimately show ?thesis using stage False by simp
  qed
qed

lemma le_nat_less: "le_nat bs < 256 ^ length bs"
proof (induction bs)
  case (Cons b bs)
  have "unat b < 256" using unsigned_less [of b] by simp
  then have "unat b + 256 * le_nat bs < 256 + 256 * le_nat bs" by simp
  also have "\<dots> \<le> 256 * 256 ^ length bs" using Cons by simp
  finally show ?case by simp
qed simp

lemma header_cmd_poke:
  assumes "length h = sizeof_ClientPktHeader"
  shows "header_cmd (le_bytes 2 x @ le_bytes 4 (header_cmd h)) = header_cmd h"
proof -
  have "header_cmd h < 256 ^ 4"
    using le_nat_less [of "take 4 (drop 2 h)"] assms
    by (simp add: header_cmd_def sizeof_ClientPktHeader_def)
  then show ?thesis
    by (subst header_cmd_def) (simp add: le_nat_bytes)
qed

text \<open>A complete header: refused, or the payload stage begins.\<close>

lemma read_header_ok:
  assumes cipher: "cipher_ok ops" and op: "is_open ws" and hb: "mb_ok (ws_header_buffer ws)"
    "mb_rpos (ws_header_buffer ws) = 0" "mb_wpos (ws_header_buffer ws) = sizeof_ClientPktHeader"
    "length (mb_storage (ws_header_buffer ws)) = sizeof_ClientPktHeader"
    and pb: "mb_ok (ws_packet_buffer ws)" "mb_rpos (ws_packet_buffer ws) = 0"
    "mb_wpos (ws_packet_buffer ws) = 0"
    and rb: "mb_ok (ws_read_buffer ws)"
    and ps: "ps_app ps = ws_app ws" "ps_unread ps = []" "ps_status ps = Reading" "ps_body ps = None"
    and H: "header_done ops (mb_content (ws_header_buffer ws)) ps = ps'"
  shows "\<exists>good ws'. read_header_handler ops ws = Inr (good, ws') \<and> is_open ws'
    \<and> ws_read_buffer ws' = ws_read_buffer ws
    \<and> (if \<not> good then ps' = ps_of Closed [] (close_socket ops ws') \<and> ws_closed (close_socket ops ws')
       else mb_wpos (ws_header_buffer ws') = sizeof_ClientPktHeader
         \<and> length (mb_storage (ws_header_buffer ws')) = sizeof_ClientPktHeader
         \<and> (if mb_remaining_space (ws_packet_buffer ws') > 0
            then ws_inv ws' \<and> ps' = ps_of Reading [] ws'
            else mb_rpos (ws_packet_buffer ws') = 0 \<and> mb_wpos (ws_packet_buffer ws') = 0
              \<and> mb_storage (ws_packet_buffer ws') = []
              \<and> ps' = payload_done ops (word_of_nat (header_cmd (mb_read_pointer (ws_header_buffer ws'))))
                  [] (ps\<lparr>ps_app := ws_app ws'\<rparr>)))"
proof -
  let ?h0 = "mb_content (ws_header_buffer ws)"
  obtain h app where d: "so_decrypt ops (ws_app ws) ?h0 = (h, app)" by fastforce
  have l0: "length ?h0 = sizeof_ClientPktHeader" and p0: "take sizeof_ClientPktHeader
      (mb_read_pointer (ws_header_buffer ws)) = ?h0"
    using hb by (simp_all add: mb_content_def mb_read_pointer_def)
  have l: "length h = sizeof_ClientPktHeader"
    using cipher d l0 unfolding cipher_ok_def by (metis fst_conv)
  have act: "mb_active_size (ws_header_buffer ws) = sizeof_ClientPktHeader"
    using hb by (simp add: mb_sz)
  define good where "good \<longleftrightarrow> is_valid_size (header_size h) \<and> is_valid_opcode (header_cmd h)"
  define x where "x = (if good then header_size h - 4 else header_size h)"
  define hb' where "hb' = mb_poke (le_bytes 2 x @ le_bytes 4 (header_cmd h)) (ws_header_buffer ws)"
  define pb' where "pb' = (if good then mb_resize x (ws_packet_buffer ws) else ws_packet_buffer ws)"
  let ?ws = "ws\<lparr>ws_app := app, ws_header_buffer := hb', ws_packet_buffer := pb'\<rparr>"
  have R: "read_header_handler ops ws = Inr (good, ?ws)"
    by (cases good) (simp_all add: read_header_handler_def act p0 d Let_def x_def hb'_def pb'_def,
      auto simp: good_def)
  have s': "mb_storage hb' = le_bytes 2 x @ le_bytes 4 (header_cmd h)" "mb_rpos hb' = 0"
    "mb_wpos hb' = sizeof_ClientPktHeader" "length (mb_storage hb') = sizeof_ClientPktHeader"
    "mb_ok hb'"
    using hb by (simp_all add: hb'_def mb_poke_def sizeof_ClientPktHeader_def mb_ok_def)
  have cmd: "header_cmd (mb_read_pointer hb') = header_cmd h"
    using header_cmd_poke [OF l] s' by (simp add: mb_read_pointer_def)
  show ?thesis
  proof (cases good)
    case False
    then have "ps' = ps\<lparr>ps_header := [], ps_app := so_on_close ops app, ps_status := Closed\<rparr>"
      using H d ps by (auto simp: header_done_def Let_def good_def)
    then have "ps' = ps_of Closed [] (close_socket ops ?ws)" "ws_closed (close_socket ops ?ws)"
      using ps op by (simp_all add: ps_of_def close_socket_def is_open_def)
    with False R op show ?thesis
      by (intro exI [of _ False] exI [of _ ?ws]) (simp add: is_open_def)
  next
    case True
    then have v: "4 \<le> header_size h" "header_size h < 10240" "is_valid_opcode (header_cmd h)"
      by (simp_all add: good_def is_valid_size_def)
    have pb'': "length (mb_storage pb') = header_size h - 4" "mb_wpos pb' = 0" "mb_rpos pb' = 0"
      "mb_ok pb'" "mb_remaining_space pb' = header_size h - 4" "mb_content pb' = []"
      using pb True v by (auto simp: pb'_def mb_resize_def x_def vec_resize_def mb_ok_def
          mb_remaining_space_def sz_sub_def mb_content_def min_def)
    have H': "ps' = (if header_size h = 4
        then payload_done ops (word_of_nat (header_cmd h)) [] (ps\<lparr>ps_header := [], ps_app := app\<rparr>)
        else ps\<lparr>ps_header := [], ps_app := app,
          ps_body := Some (word_of_nat (header_cmd h), header_size h - 4, [])\<rparr>)"
      using H d ps v by (simp add: header_done_def Let_def is_valid_size_def)
    show ?thesis
    proof (cases "header_size h = 4")
      case True
      then show ?thesis using R \<open>good\<close> op s' pb'' cmd H'
        by (intro exI [of _ True] exI [of _ ?ws])
          (simp add: is_open_def payload_done_def Let_def split: prod.splits)
    next
      case False
      then have "ws_inv ?ws" using op rb s' pb'' v by (simp add: ws_inv_def is_open_def)
      moreover have "ps' = ps_of Reading [] ?ws"
        using False H' ps s' pb'' cmd by (simp add: ps_of_def Let_def mb_buffer_size_def)
      ultimately show ?thesis using R \<open>good\<close> op s' pb'' v False
        by (intro exI [of _ True] exI [of _ ?ws]) (simp add: is_open_def)
    qed
  qed
qed

text \<open>Each pass takes at least one byte and does what the parser does with these bytes.\<close>

lemma read_pass_ok:
  assumes cipher: "cipher_ok ops" and inv: "ws_inv ws"
    and c: "c = mb_content (ws_read_buffer ws)" "c \<noteq> []"
  shows "\<exists>r n. read_pass ops ws = Inr r \<and> 0 < n
    \<and> pass_ok ops c n (parse ops (take n c) (ps_of Reading [] ws)) r"
proof -
  let ?hb = "ws_header_buffer ws" and ?ps = "ps_of Reading [] ws"
  note defs = inv [unfolded ws_inv_def is_open_def]
  show ?thesis
  proof (cases "mb_wpos ?hb = sizeof_ClientPktHeader")
    case True
    then have "mb_remaining_space ?hb = 0" "0 < mb_remaining_space (ws_packet_buffer ws)"
      using defs by (simp_all add: mb_sz)
    note room = this
    define n where "n = min (length c) (mb_remaining_space (ws_packet_buffer ws))"
    obtain r where "payload_stage ops ws = Inr r"
      "pass_ok ops c n (parse ops (take n c) (ps_of Reading [] ws)) r"
      using payload_stage_ok [OF inv True c(1) n_def, of ops] by blast
    then show ?thesis
      using room c(2) by (intro exI [of _ r] exI [of _ n]) (simp add: read_pass_def n_def)
  next
    case False
    then have room: "0 < mb_remaining_space ?hb"
      "length (mb_content ?hb) + mb_remaining_space ?hb = sizeof_ClientPktHeader"
      "mb_wpos (ws_packet_buffer ws) = 0"
      using defs by (simp_all add: mb_sz length_mb_content mb_ok_def)
    have ps: "ps_status ?ps = Reading" "ps_body ?ps = None" "ps_header ?ps = mb_content ?hb"
      "ps_app ?ps = ws_app ws" "ps_unread ?ps = []"
      using False by (simp_all add: ps_of_def Let_def)
    define m where "m = min (length c) (mb_remaining_space ?hb)"
    obtain hb rb where f: "fill ?hb (ws_read_buffer ws) = Inr (m < mb_remaining_space ?hb, hb, rb)"
      "mb_ok hb" "mb_content hb = mb_content ?hb @ take m c"
      "mb_remaining_space hb = mb_remaining_space ?hb - m"
      "mb_rpos hb = 0" "length (mb_storage hb) = sizeof_ClientPktHeader"
      "mb_ok rb" "mb_content rb = drop m c"
      using fill_ok [of "ws_read_buffer ws" ?hb m] defs room c by (auto simp: m_def)
    have m: "0 < m" "m \<le> length c" "take m c \<noteq> []" "length (take m c) = m"
      "m \<le> mb_remaining_space ?hb"
      using room c(2) by (auto simp: m_def)
    let ?ws = "ws\<lparr>ws_header_buffer := hb, ws_read_buffer := rb\<rparr>"
    have wpos: "mb_wpos hb = length (mb_content ?hb) + m"
      using length_mb_content [OF f(2)] f(2,3,5) m by (simp add: mb_sz)
    show ?thesis
    proof (cases "m < mb_remaining_space ?hb")
      case True
      then have mc: "m = length c" by (simp add: m_def)
      have "parse ops (take m c) ?ps = ?ps\<lparr>ps_header := mb_content ?hb @ take m c\<rparr>"
        using parse_header [OF ps(1,2) m(3), of ops] True room ps m by simp
      also have "\<dots> = ps_of Reading [] ?ws"
        using False True wpos room f(3) by (simp add: ps_of_def Let_def)
      finally have "parse ops (take m c) ?ps = ps_of Reading [] ?ws" .
      moreover have "ws_inv ?ws"
        using defs f True wpos room by (simp add: ws_inv_def is_open_def)
      moreover have "read_pass ops ws = Inr (LBreak, ?ws)"
        using f(1) room True by (simp add: read_pass_def fill_header_def)
      ultimately show ?thesis
        using mc m(1) f(7,8) by (intro exI [of _ "(LBreak, ?ws)"] exI [of _ m]) (simp add: pass_ok_def)
    next
      case short: False
      then have full: "mb_wpos hb = sizeof_ClientPktHeader" using wpos room m by simp
      let ?ps1 = "header_done ops (mb_content hb) ?ps"
      have P: "parse ops (take m c) ?ps = ?ps1"
        using parse_header [OF ps(1,2) m(3), of ops] short room ps m f(3) by simp
      obtain good ws1 where R: "read_header_handler ops ?ws = Inr (good, ws1)" "is_open ws1"
        "ws_read_buffer ws1 = rb"
        and res: "if \<not> good then ?ps1 = ps_of Closed [] (close_socket ops ws1)
            \<and> ws_closed (close_socket ops ws1)
          else mb_wpos (ws_header_buffer ws1) = sizeof_ClientPktHeader
            \<and> length (mb_storage (ws_header_buffer ws1)) = sizeof_ClientPktHeader
            \<and> (if mb_remaining_space (ws_packet_buffer ws1) > 0
               then ws_inv ws1 \<and> ?ps1 = ps_of Reading [] ws1
               else mb_rpos (ws_packet_buffer ws1) = 0 \<and> mb_wpos (ws_packet_buffer ws1) = 0
                 \<and> mb_storage (ws_packet_buffer ws1) = []
                 \<and> ?ps1 = payload_done ops
                     (word_of_nat (header_cmd (mb_read_pointer (ws_header_buffer ws1))))
                     [] (?ps\<lparr>ps_app := ws_app ws1\<rparr>))"
        using read_header_ok [of ops ?ws ?ps ?ps1] cipher defs f full room ps by (auto simp: is_open_def)
      have pass: "read_pass ops ws = (if \<not> good then Inr (LReturn, close_socket ops ws1)
          else payload_stage ops ws1)"
        using f(1) room short R(1) by (simp add: read_pass_def fill_header_def)
      consider (bad) "\<not> good" | (empty) "good" "mb_remaining_space (ws_packet_buffer ws1) = 0"
        | (more) "good" "mb_remaining_space (ws_packet_buffer ws1) > 0" by auto
      then show ?thesis
      proof cases
        case bad
        then have "pass_ok ops c m ?ps1 (LReturn, close_socket ops ws1)"
          using res R(2,3) f(7,8) m by (simp add: pass_ok_def) (simp add: close_socket_def)
        then show ?thesis using bad pass P m(1) by auto
      next
        case empty
        then have "pass_ok ops c m ?ps1 (packet_received ops ws1)"
          using packet_received_ok [of ws1 m c "?ps\<lparr>ps_app := ws_app ws1\<rparr>" ops] res R(2,3) f(7,8) m ps
          by (simp add: mb_content_def)
        then show ?thesis using empty pass P m(1) by (auto simp: payload_stage_def)
      next
        case more
        define k where "k = min (length (drop m c)) (mb_remaining_space (ws_packet_buffer ws1))"
        from more res have i: "ws_inv ws1" "mb_wpos (ws_header_buffer ws1) = sizeof_ClientPktHeader"
          "?ps1 = ps_of Reading [] ws1" by simp_all
        obtain r where r: "payload_stage ops ws1 = Inr r"
          "pass_ok ops (drop m c) k (parse ops (take k (drop m c)) (ps_of Reading [] ws1)) r"
          using payload_stage_ok [OF i(1,2), of "drop m c" k ops] f(8) R(3) by (auto simp: k_def)
        have "parse ops (take (m + k) c) ?ps = parse ops (take k (drop m c)) (ps_of Reading [] ws1)"
          using P i(3) by (simp add: take_add parse_append)
        then show ?thesis
          using r pass more(1) m pass_ok_drop [OF r(2) m(2)]
          by (intro exI [of _ r] exI [of _ "m + k"]) simp
      qed
    qed
  qed
qed

text \<open>What the receive path leaves alone.\<close>

lemma fill_keeps:
  "fill dst packet = Inr (b, dst', packet') \<Longrightarrow> length (mb_storage packet') = length (mb_storage packet)"
  by (auto simp: fill_def mem_def Let_def mb_read_completed_def res_bind_def split: option.splits if_splits sum.splits)

lemma close_socket_keeps [simp]:
  "ws_reading (close_socket ops ws) = ws_reading ws"
  "ws_read_buffer (close_socket ops ws) = ws_read_buffer ws"
  by (simp_all add: close_socket_def)

lemma packet_received_keeps:
  "packet_received ops ws = (e, ws') \<Longrightarrow>
   ws_reading ws' = ws_reading ws \<and> ws_read_buffer ws' = ws_read_buffer ws"
  by (auto simp: packet_received_def read_data_def bb_of_message_buffer_def Let_def
      split: prod.splits if_splits)

lemma payload_stage_keeps:
  assumes "payload_stage ops ws = Inr (e, ws')"
  shows "ws_reading ws' = ws_reading ws
    \<and> length (mb_storage (ws_read_buffer ws')) = length (mb_storage (ws_read_buffer ws))"
  using assms
  by (auto simp: payload_stage_def fill_packet_def res_bind_Inr_iff split: if_splits prod.splits
      dest!: packet_received_keeps fill_keeps)

lemma read_pass_keeps:
  assumes "read_pass ops ws = Inr (e, ws')"
  shows "ws_reading ws' = ws_reading ws
    \<and> length (mb_storage (ws_read_buffer ws')) = length (mb_storage (ws_read_buffer ws))"
proof -
  have "ws_reading ws2 = ws_reading ws1 \<and> ws_read_buffer ws2 = ws_read_buffer ws1"
    if "read_header_handler ops ws1 = Inr (g, ws2)" for g ws1 ws2
    using that by (auto simp: read_header_handler_def Let_def split: if_splits prod.splits)
  with assms show ?thesis
    by (auto simp: read_pass_def fill_header_def res_bind_Inr_iff split: if_splits prod.splits
      dest!: payload_stage_keeps fill_keeps)
qed

text \<open>The loop: it ends, raises nothing, and leaves the parser's state.\<close>

lemma read_loop_ok:
  assumes "cipher_ok ops" "ws_inv ws" "length (mb_content (ws_read_buffer ws)) \<le> fuel"
  shows "\<exists>reached st ws'. read_loop fuel ops ws = Inr (reached, ws')
    \<and> parse ops (mb_content (ws_read_buffer ws)) (ps_of Reading [] ws)
      = ps_of st (mb_content (ws_read_buffer ws')) ws'
    \<and> mb_ok (ws_read_buffer ws') \<and> ws_reading ws' = ws_reading ws
    \<and> length (mb_storage (ws_read_buffer ws')) = length (mb_storage (ws_read_buffer ws))
    \<and> (if reached then st = Reading \<and> ws_inv ws' \<and> mb_content (ws_read_buffer ws') = []
       else st = Waiting \<and> ws_inv ws' \<or> st = Closed \<and> ws_closed ws')"
  using assms(2,3)
proof (induction fuel arbitrary: ws)
  case 0
  then have "mb_ok (ws_read_buffer ws)" "mb_content (ws_read_buffer ws) = []"
    by (simp_all add: ws_inv_def)
  with 0 show ?case using length_mb_content by (subst read_loop.simps) (fastforce simp: Let_def)
next
  case (Suc fuel)
  define c where "c = mb_content (ws_read_buffer ws)"
  have act: "mb_active_size (ws_read_buffer ws) = length c" "mb_ok (ws_read_buffer ws)"
    using Suc.prems(1) by (simp_all add: c_def ws_inv_def length_mb_content)
  show ?case
  proof (cases "c = []")
    case True
    with Suc.prems act show ?thesis unfolding c_def
      by (subst read_loop.simps) (fastforce simp: Let_def)
  next
    case False
    obtain e ws1 n where r: "read_pass ops ws = Inr (e, ws1)" "0 < n"
      and P: "pass_ok ops c n (parse ops (take n c) (ps_of Reading [] ws)) (e, ws1)"
      using read_pass_ok [OF assms(1) Suc.prems(1) c_def False] by fastforce
    note keep = read_pass_keeps [OF r(1)]
    have split: "parse ops c ps = parse ops (drop n c) (parse ops (take n c) ps)" for ps
      by (simp flip: parse_append)
    have P': "n \<le> length c" "mb_content (ws_read_buffer ws1) = drop n c" "mb_ok (ws_read_buffer ws1)"
      using P by (simp_all add: pass_ok_def)
    show ?thesis
    proof (cases e)
      case LContinue
      with P have i: "ws_inv ws1" "parse ops (take n c) (ps_of Reading [] ws) = ps_of Reading [] ws1"
        by (simp_all add: pass_ok_def)
      have "length (mb_content (ws_read_buffer ws1)) \<le> fuel"
        using P'(2) r(2) Suc.prems(2) by (simp add: c_def)
      from Suc.IH [OF i(1) this] obtain reached st ws' where
        "read_loop fuel ops ws1 = Inr (reached, ws')"
        and "parse ops (mb_content (ws_read_buffer ws1)) (ps_of Reading [] ws1)
          = ps_of st (mb_content (ws_read_buffer ws')) ws'"
        and "mb_ok (ws_read_buffer ws')" "ws_reading ws' = ws_reading ws1"
        "length (mb_storage (ws_read_buffer ws')) = length (mb_storage (ws_read_buffer ws1))"
        and "if reached then st = Reading \<and> ws_inv ws' \<and> mb_content (ws_read_buffer ws') = []
          else st = Waiting \<and> ws_inv ws' \<or> st = Closed \<and> ws_closed ws'"
        by blast
      then show ?thesis
        using act False LContinue r(1) keep P'(2) i(2) split [of "ps_of Reading [] ws"]
        by (subst read_loop.simps, intro exI [of _ reached] exI [of _ st] exI [of _ ws'])
          (simp flip: c_def)
    next
      case LBreak
      with P P' have i: "ws_inv ws1" "mb_content (ws_read_buffer ws1) = []"
        "parse ops c (ps_of Reading [] ws) = ps_of Reading [] ws1"
        by (auto simp: pass_ok_def)
      then show ?thesis
        using act False LBreak r(1) keep P'(3)
        by (subst read_loop.simps, intro exI [of _ True] exI [of _ Reading] exI [of _ ws1])
          (simp flip: c_def)
    next
      case LReturn
      with P obtain st where i: "parse ops (take n c) (ps_of Reading [] ws) = ps_of st [] ws1"
        "st = Waiting \<and> ws_inv ws1 \<or> st = Closed \<and> ws_closed ws1"
        by (auto simp: pass_ok_def)
      then have "ps_status (ps_of st [] ws1) \<noteq> Reading" by (auto simp: ps_of_def Let_def)
      then have "parse ops c (ps_of Reading [] ws) = ps_of st (drop n c) ws1"
        using split [of "ps_of Reading [] ws"] i(1) parse_stopped [of "ps_of st [] ws1" ops "drop n c"]
        by (simp add: ps_of_def Let_def)
      then show ?thesis
        using act False LReturn r(1) keep P' i(2)
        by (subst read_loop.simps, intro exI [of _ False] exI [of _ st] exI [of _ ws1])
          (simp flip: c_def)
    qed
  qed
qed

text \<open>A connection whose receive buffer is empty and which waits for the next chunk.\<close>

definition ws_ready :: "'s world_socket \<Rightarrow> bool" where
  "ws_ready ws \<longleftrightarrow> ws_inv ws \<and> ws_reading ws \<and> mb_content (ws_read_buffer ws) = []
     \<and> mb_rpos (ws_read_buffer ws) = 0 \<and> 2 \<le> mb_buffer_size (ws_read_buffer ws)
     \<and> mb_buffer_size (ws_read_buffer ws) < 2 ^ 61"

lemma parser_of_ready: "ws_ready ws \<Longrightarrow> parser_of ws [] = ps_of Reading [] ws"
  by (simp add: ws_ready_def parser_of_def socket_status_def ws_inv_def is_open_def)

lemma async_read_ready:
  assumes "ws_inv ws" "mb_content (ws_read_buffer ws) = []"
    and "2 \<le> mb_buffer_size (ws_read_buffer ws)" "mb_buffer_size (ws_read_buffer ws) < 2 ^ 61"
  shows "ws_ready (async_read ws)
    \<and> mb_buffer_size (ws_read_buffer (async_read ws)) = mb_buffer_size (ws_read_buffer ws)
    \<and> ps_of st u (async_read ws) = ps_of st u ws"
proof -
  have ok: "mb_ok (ws_read_buffer ws)" "is_open ws" using assms(1) by (simp_all add: ws_inv_def)
  note n = mb_normalize_ok [OF ok(1)]
  have e: "mb_ensure_free_space (mb_normalize (ws_read_buffer ws)) = mb_normalize (ws_read_buffer ws)"
    using n assms(2,3) by (auto simp: mb_ensure_free_space_def mb_buffer_size_def)
  show ?thesis
    using assms ok(2) n by (simp add: async_read_def e ws_ready_def ws_inv_def is_open_def
        mb_buffer_size_def ps_of_def Let_def)
qed

lemma receive_chunk:
  assumes "cipher_ok ops" and ready: "ws_ready ws"
    and fit: "length chunk \<le> mb_buffer_size (ws_read_buffer ws)"
  shows "\<exists>ws'. read_handler_internal ops (Some chunk) ws = Inr ws'
    \<and> (if ws_reading ws' then ws_ready ws' else True)
    \<and> mb_buffer_size (ws_read_buffer ws') = mb_buffer_size (ws_read_buffer ws)
    \<and> parse ops chunk (parser_of ws []) = parser_of ws' []"
proof -
  let ?rb = "ws_read_buffer ws"
  have r: "ws_inv ws" "mb_ok ?rb" "mb_wpos ?rb = 0" "mb_rpos ?rb = 0"
    "mb_buffer_size ?rb = length (mb_storage ?rb)" "is_open ws"
    using ready by (auto simp: ws_ready_def ws_inv_def mb_content_def mb_ok_def mb_buffer_size_def)
  define rb where "rb = ?rb\<lparr>mb_storage := chunk @ drop (length chunk) (mb_storage ?rb),
    mb_wpos := length chunk\<rparr>"
  define ws1 where "ws1 = ws\<lparr>ws_reading := False, ws_read_buffer := rb\<rparr>"
  have cin: "mb_copy_in chunk ?rb = Some (?rb\<lparr>mb_storage := chunk @ drop (length chunk) (mb_storage ?rb)\<rparr>)"
    using fit r by (simp add: mb_copy_in_def)
  have len: "length (mb_storage rb) = mb_buffer_size ?rb" "mb_content rb = chunk" "mb_ok rb"
    using fit r(2-5) by (auto simp: rb_def mb_content_def mb_ok_def)
  then have wc: "mb_write_completed (length chunk)
      (?rb\<lparr>mb_storage := chunk @ drop (length chunk) (mb_storage ?rb)\<rparr>) = rb"
    using r fit by (auto simp: mb_write_completed_def rb_def mb_ok_def)
  have i1: "ws_inv ws1" using r len by (simp add: ws1_def ws_inv_def is_open_def)
  have p1: "ps_of Reading [] ws = ps_of Reading [] ws1" by (simp add: ws1_def ps_of_def)
  have c1: "mb_content (ws_read_buffer ws1) = chunk" using len by (simp add: ws1_def)
  obtain reached st ws2 where L: "read_loop (length chunk) ops ws1 = Inr (reached, ws2)"
    "parse ops chunk (ps_of Reading [] ws1) = ps_of st (mb_content (ws_read_buffer ws2)) ws2"
    "ws_reading ws2 = False"
    "mb_buffer_size (ws_read_buffer ws2) = mb_buffer_size ?rb"
    and E: "if reached then st = Reading \<and> ws_inv ws2 \<and> mb_content (ws_read_buffer ws2) = []
       else st = Waiting \<and> ws_inv ws2 \<or> st = Closed \<and> ws_closed ws2"
    using read_loop_ok [OF assms(1) i1, of "length chunk"] c1 len
    by (auto simp: mb_buffer_size_def ws1_def)
  have R: "read_handler_internal ops (Some chunk) ws = Inr (if reached then async_read ws2 else ws2)"
    using r(6) cin wc len length_mb_content [OF len(3)] L(1)
    by (simp add: read_handler_internal_def mem_def read_handler_def ws1_def is_open_def)
  show ?thesis
  proof (cases reached)
    case True
    then have "ws_ready (async_read ws2)
      \<and> mb_buffer_size (ws_read_buffer (async_read ws2)) = mb_buffer_size (ws_read_buffer ws2)
      \<and> ps_of Reading [] (async_read ws2) = ps_of Reading [] ws2"
      using E ready L(4) by (intro async_read_ready) (simp_all add: ws_ready_def)
    then show ?thesis
      using R True E L parser_of_ready [of "async_read ws2"] parser_of_ready [OF ready] p1 by simp
  next
    case False
    then have "parser_of ws2 [] = ps_of st (mb_content (ws_read_buffer ws2)) ws2"
      using E L(3) by (auto simp: parser_of_def socket_status_def ws_inv_def is_open_def)
    then show ?thesis using R False L parser_of_ready [OF ready] p1 by simp
  qed
qed

lemma receive_all_ok:
  assumes "cipher_ok ops" "ws_ready ws"
    and "list_all (\<lambda>c. length c \<le> mb_buffer_size (ws_read_buffer ws)) cs"
  shows "\<exists>ws' rest. receive_all ops cs ws = Inr (ws', rest)
    \<and> parser_of ws' rest = parse ops (concat cs) (parser_of ws [])"
  using assms(2,3)
proof (induction cs arbitrary: ws)
  case (Cons c cs)
  obtain ws1 where r: "read_handler_internal ops (Some c) ws = Inr ws1"
    "if ws_reading ws1 then ws_ready ws1 else True"
    "mb_buffer_size (ws_read_buffer ws1) = mb_buffer_size (ws_read_buffer ws)"
    "parse ops c (parser_of ws []) = parser_of ws1 []"
    using receive_chunk [OF assms(1) Cons.prems(1), of c] Cons.prems(2) by auto
  have rd: "ws_reading ws" using Cons.prems(1) by (simp add: ws_ready_def)
  show ?case
  proof (cases "ws_reading ws1")
    case True
    then show ?thesis using Cons.IH [of ws1] Cons.prems(2) r rd by (simp add: parse_append)
  next
    case False
    have "receive_all ops cs ws1 = Inr (ws1, cs)" using False by (cases cs) simp_all
    moreover have "ps_status (parser_of ws1 []) \<noteq> Reading"
      using False by (simp add: parser_of_def socket_status_def ps_of_def Let_def)
    then have "parse ops (concat cs) (parser_of ws1 []) = parser_of ws1 cs"
      by (subst parse_stopped) (simp_all add: parser_of_def ps_of_def Let_def)
    ultimately show ?thesis using r rd by (simp add: parse_append)
  qed
qed simp

text \<open>The connection after the constructors and the first \<open>AsyncRead\<close>.\<close>

lemma new_socket_ready:
  "ws_ready (async_read (world_socket_new app))
   \<and> mb_buffer_size (ws_read_buffer (async_read (world_socket_new app))) = READ_BLOCK_SIZE"
proof -
  let ?ws = "world_socket_new app"
  have "ws_inv ?ws \<and> mb_content (ws_read_buffer ?ws) = []
      \<and> mb_buffer_size (ws_read_buffer ?ws) = READ_BLOCK_SIZE"
    by (simp add: world_socket_new_def ws_inv_def is_open_def mb_resize_def mb_default_def vec_resize_def
        READ_BLOCK_SIZE_def sizeof_ClientPktHeader_def mb_ok_def mb_content_def mb_buffer_size_def)
  then show ?thesis using async_read_ready [of ?ws] by (simp add: READ_BLOCK_SIZE_def)
qed

section \<open>The properties of the receive path\<close>

text \<open>A handler that records the packets, for the examples.\<close>

definition log_ops :: "(u32 \<times> bytes) list socket_ops" where
  "log_ops = \<lparr>so_decrypt = (\<lambda>s h. (h, s)), so_handle = (\<lambda>cmd p s. (RDH_Ok, s @ [(cmd, p)])),
     so_on_close = (\<lambda>s. s)\<rparr>"

lemma log_ops_cipher: "cipher_ok log_ops"
  by (simp add: cipher_ok_def log_ops_def)

text \<open>
  Claim C1: the receive path implements the byte-wise parser. Whatever the client sends and
  however the network cuts it into chunks that fit the receive buffer, no assertion fails, no
  buffer is overrun, the loop ends, and status, partial header, partial payload, handler state
  and unread bytes are those of the parser on the whole stream.
\<close>

theorem receive_refines_parser:
  assumes "cipher_ok ops" "ws_ready ws"
    and "list_all (\<lambda>c. length c \<le> mb_buffer_size (ws_read_buffer ws)) cs"
  shows "\<exists>ws' rest. receive_all ops cs ws = Inr (ws', rest)
    \<and> parser_of ws' rest = parse ops (concat cs) (parser_of ws [])"
  using assms by (rule receive_all_ok)

theorem receive_refines_parser_witness:
  "\<exists>ws' rest. receive_all log_ops [[0, 6, 0xDC], [1, 0, 0, 7], [8, 0]] (async_read (world_socket_new []))
      = Inr (ws', rest)
    \<and> parser_of ws' rest = parse log_ops [0, 6, 0xDC, 1, 0, 0, 7, 8, 0]
        (parser_of (async_read (world_socket_new [])) [])"
  using receive_refines_parser [OF log_ops_cipher conjunct1 [OF new_socket_ready],
      of "[]" "[[0, 6, 0xDC], [1, 0, 0, 7], [8, 0]]"]
  by (simp add: conjunct2 [OF new_socket_ready] READ_BLOCK_SIZE_def)

text \<open>
  Claim C5: how the network cuts the stream does not matter. Two deliveries of the same bytes
  lead to the same handler state, the same open or closed status, the same partially received
  packet and the same unread bytes.
\<close>

theorem chunking_irrelevant:
  assumes "cipher_ok ops" "ws_ready ws"
    and "list_all (\<lambda>c. length c \<le> mb_buffer_size (ws_read_buffer ws)) (cs @ ds)"
    and "concat cs = concat ds"
  shows "\<exists>ws1 r1 ws2 r2. receive_all ops cs ws = Inr (ws1, r1) \<and> receive_all ops ds ws = Inr (ws2, r2)
    \<and> ws_app ws1 = ws_app ws2 \<and> socket_status ws1 = socket_status ws2
    \<and> parser_of ws1 r1 = parser_of ws2 r2"
proof -
  obtain ws1 r1 ws2 r2 where "receive_all ops cs ws = Inr (ws1, r1)"
    "receive_all ops ds ws = Inr (ws2, r2)" "parser_of ws1 r1 = parser_of ws2 r2"
    using receive_all_ok [OF assms(1,2), of cs] receive_all_ok [OF assms(1,2), of ds] assms(3,4)
    by auto
  moreover from this(3) have "ws_app ws1 = ws_app ws2 \<and> socket_status ws1 = socket_status ws2"
    by (simp add: parser_of_def ps_of_def Let_def)
  ultimately show ?thesis by blast
qed

theorem chunking_irrelevant_witness:
  "\<exists>ws1 r1 ws2 r2.
     receive_all log_ops [[0, 4], [0xDC, 1, 0, 0]] (async_read (world_socket_new [])) = Inr (ws1, r1)
   \<and> receive_all log_ops [[0, 4, 0xDC, 1, 0], [], [0]] (async_read (world_socket_new [])) = Inr (ws2, r2)
   \<and> ws_app ws1 = ws_app ws2 \<and> socket_status ws1 = socket_status ws2
   \<and> parser_of ws1 r1 = parser_of ws2 r2"
  using chunking_irrelevant [OF log_ops_cipher conjunct1 [OF new_socket_ready],
      of "[]" "[[0, 4], [0xDC, 1, 0, 0]]" "[[0, 4, 0xDC, 1, 0], [], [0]]"]
  by (simp add: conjunct2 [OF new_socket_ready] READ_BLOCK_SIZE_def)

text \<open>
  The client's side of the framing: a six-byte header, encrypted in the state the server's
  cipher has when it gets there, and the payload. \<open>frames_result\<close> is the handler state after
  every packet was handled in order, if none is refused.
\<close>

definition client_header :: "u32 \<Rightarrow> bytes \<Rightarrow> bytes" where
  "client_header cmd p = rev (le_bytes 2 (length p + 4)) @ le_bytes 4 (unat cmd)"

primrec client_stream :: "'s socket_ops \<Rightarrow> ('s \<Rightarrow> bytes \<Rightarrow> bytes) \<Rightarrow> (u32 \<times> bytes) list \<Rightarrow> 's \<Rightarrow> bytes" where
  "client_stream ops enc [] s = []"
| "client_stream ops enc (f # fs) s =
     (let h = enc s (client_header (fst f) (snd f)); s1 = snd (so_decrypt ops s h)
      in h @ snd f @ client_stream ops enc fs (snd (so_handle ops (fst f) (snd f) s1)))"

primrec frames_result :: "'s socket_ops \<Rightarrow> ('s \<Rightarrow> bytes \<Rightarrow> bytes) \<Rightarrow> (u32 \<times> bytes) list \<Rightarrow> 's \<Rightarrow> 's option"
where
  "frames_result ops enc [] s = Some s"
| "frames_result ops enc (f # fs) s =
     (let s1 = snd (so_decrypt ops s (enc s (client_header (fst f) (snd f))));
          (r, s2) = so_handle ops (fst f) (snd f) s1
      in if r = RDH_Ok then frames_result ops enc fs s2 else None)"

definition cipher_inverse :: "'s socket_ops \<Rightarrow> ('s \<Rightarrow> bytes \<Rightarrow> bytes) \<Rightarrow> bool" where
  "cipher_inverse ops enc \<longleftrightarrow>
     (\<forall>s h. length (enc s h) = length h \<and> fst (so_decrypt ops s (enc s h)) = h)"

definition frame_ok :: "u32 \<times> bytes \<Rightarrow> bool" where
  "frame_ok f \<longleftrightarrow> unat (fst f) < NUM_OPCODE_HANDLERS \<and> length (snd f) + 4 < 10240"

lemma client_header_fields:
  assumes "frame_ok f"
  shows "header_size (client_header (fst f) (snd f)) = length (snd f) + 4"
    "header_cmd (client_header (fst f) (snd f)) = unat (fst f)"
    "length (client_header (fst f) (snd f)) = sizeof_ClientPktHeader"
proof -
  have "unat (fst f) < 256 ^ 4" using unsigned_less [of "fst f"] by simp
  then show "header_cmd (client_header (fst f) (snd f)) = unat (fst f)"
    by (simp add: header_cmd_def client_header_def le_nat_bytes)
  show "header_size (client_header (fst f) (snd f)) = length (snd f) + 4"
    using assms by (simp add: header_size_def client_header_def le_nat_bytes frame_ok_def)
  show "length (client_header (fst f) (snd f)) = sizeof_ClientPktHeader"
    by (simp add: client_header_def sizeof_ClientPktHeader_def)
qed

lemma parse_frame:
  assumes f: "frame_ok f" and inv: "cipher_inverse ops enc"
    and ps: "ps_status ps = Reading" "ps_body ps = None" "ps_header ps = []"
    and h: "h = enc (ps_app ps) (client_header (fst f) (snd f))"
    and s1: "s1 = snd (so_decrypt ops (ps_app ps) h)"
  shows "parse ops (h @ snd f) ps = payload_done ops (fst f) (snd f) (ps\<lparr>ps_app := s1\<rparr>)"
proof -
  define ch where "ch = client_header (fst f) (snd f)"
  note cf = client_header_fields [OF f, folded ch_def]
  note h = h [folded ch_def]
  have "length h = length ch"
    using inv unfolding h cipher_inverse_def by blast
  then have l: "length h = sizeof_ClientPktHeader" by (simp add: cf(3))
  have d: "so_decrypt ops (ps_app ps) h = (ch, s1)"
    using inv unfolding h s1 cipher_inverse_def by (metis prod.collapse)
  have "h \<noteq> []" using l by (auto simp: sizeof_ClientPktHeader_def)
  then have "parse ops h ps = header_done ops h ps"
    using parse_header [OF ps(1,2), of h ops] ps(3) l by simp
  also have "\<dots> = (if snd f = [] then payload_done ops (fst f) [] (ps\<lparr>ps_app := s1\<rparr>)
      else ps\<lparr>ps_app := s1, ps_body := Some (fst f, length (snd f), [])\<rparr>)"
    using f ps cf by (auto simp: header_done_def d Let_def is_valid_size_def is_valid_opcode_def
        frame_ok_def payload_done_def split: prod.splits)
  finally have H: "parse ops h ps = \<dots>" .
  show ?thesis
  proof (cases "snd f = []")
    case False
    then have "parse ops (snd f) (ps\<lparr>ps_app := s1, ps_body := Some (fst f, length (snd f), [])\<rparr>)
        = payload_done ops (fst f) (snd f) (ps\<lparr>ps_app := s1\<rparr>)"
      using parse_payload [of "ps\<lparr>ps_app := s1, ps_body := Some (fst f, length (snd f), [])\<rparr>"
          "fst f" "length (snd f)" "[]" "snd f" ops] ps by simp
    with False H show ?thesis by (simp add: parse_append)
  qed (simp add: H)
qed

lemma parse_frames:
  assumes "cipher_inverse ops enc" "list_all frame_ok fs"
    and "ps_status ps = Reading" "ps_body ps = None" "ps_header ps = []"
    and "frames_result ops enc fs (ps_app ps) = Some s'"
  shows "parse ops (client_stream ops enc fs (ps_app ps)) ps = ps\<lparr>ps_app := s'\<rparr>"
  using assms(2-)
proof (induction fs arbitrary: ps)
  case (Cons f fs)
  define h where "h = enc (ps_app ps) (client_header (fst f) (snd f))"
  define s1 where "s1 = snd (so_decrypt ops (ps_app ps) h)"
  obtain r s2 where r: "so_handle ops (fst f) (snd f) s1 = (r, s2)" by fastforce
  with Cons.prems(5) have ok: "r = RDH_Ok" "frames_result ops enc fs s2 = Some s'"
    by (simp_all add: Let_def flip: h_def s1_def split: if_splits)
  have "parse ops (h @ snd f) ps = payload_done ops (fst f) (snd f) (ps\<lparr>ps_app := s1\<rparr>)"
    using parse_frame [OF _ assms(1) Cons.prems(2,3,4) h_def s1_def] Cons.prems(1) by simp
  then have "parse ops (h @ snd f) ps = ps\<lparr>ps_app := s2\<rparr>"
    using r ok Cons.prems(2-4) by (simp add: payload_done_def Let_def)
  moreover have "client_stream ops enc (f # fs) (ps_app ps) = (h @ snd f) @ client_stream ops enc fs s2"
    using r by (simp add: Let_def flip: h_def s1_def)
  ultimately show ?case
    using Cons.IH [of "ps\<lparr>ps_app := s2\<rparr>"] Cons.prems ok(2) by (simp only: parse_append) simp
qed simp

text \<open>
  Claim C6: the packets a client frames reach the handler one by one, in order and intact,
  whatever the payloads contain and however the stream is cut; nothing is left over.
\<close>

theorem frames_delivered_in_order:
  assumes "cipher_ok ops" "cipher_inverse ops enc" "ws_ready ws" "list_all frame_ok fs"
    and "mb_wpos (ws_header_buffer ws) = 0"
    and "frames_result ops enc fs (ws_app ws) = Some s'"
    and "concat cs = client_stream ops enc fs (ws_app ws)"
    and "list_all (\<lambda>c. length c \<le> mb_buffer_size (ws_read_buffer ws)) cs"
  shows "\<exists>ws' rest. receive_all ops cs ws = Inr (ws', rest) \<and> ws_app ws' = s'
    \<and> socket_status ws' = Reading \<and> mb_content (ws_read_buffer ws') @ concat rest = []"
proof -
  let ?ps = "parser_of ws []"
  have ps: "ps_status ?ps = Reading" "ps_body ?ps = None" "ps_header ?ps = []"
    "ps_app ?ps = ws_app ws" "ps_unread ?ps = []"
    using assms(3,5) by (simp_all add: parser_of_ready ps_of_def Let_def sizeof_ClientPktHeader_def
        mb_content_def)
  obtain ws' rest where r: "receive_all ops cs ws = Inr (ws', rest)"
    "parser_of ws' rest = parse ops (concat cs) ?ps"
    using receive_all_ok [OF assms(1,3,8)] by blast
  have "parse ops (concat cs) ?ps = ?ps\<lparr>ps_app := s'\<rparr>"
    using parse_frames [OF assms(2,4) ps(1-3), of s'] assms(6,7) ps(4) by simp
  then have "ps_app (parser_of ws' rest) = s'" "ps_status (parser_of ws' rest) = Reading"
    "ps_unread (parser_of ws' rest) = []"
    using r(2) ps by simp_all
  then show ?thesis using r(1) by (simp add: parser_of_def ps_of_def Let_def)
qed

theorem frames_delivered_in_order_witness:
  "\<exists>ws' rest. receive_all log_ops [[0, 6, 0xDC], [1, 0, 0, 7], [8, 0, 4, 2, 0, 0, 0]]
        (async_read (world_socket_new [])) = Inr (ws', rest)
    \<and> ws_app ws' = [(0x1DC, [7, 8]), (2, [])]
    \<and> socket_status ws' = Reading \<and> mb_content (ws_read_buffer ws') @ concat rest = []"
proof (rule frames_delivered_in_order [where enc = "\<lambda>s h. h" and fs = "[(0x1DC, [7, 8]), (2, [])]"])
  show "cipher_inverse log_ops (\<lambda>s h. h)" by (simp add: cipher_inverse_def log_ops_def)
  show "ws_ready (async_read (world_socket_new []))" by (rule conjunct1 [OF new_socket_ready])
  show "mb_wpos (ws_header_buffer (async_read (world_socket_new []))) = 0"
    by (simp add: async_read_def is_open_def world_socket_new_def mb_resize_def mb_default_def)
  show "list_all frame_ok [(0x1DC, [7, 8]), (2, [])]"
    by (simp add: frame_ok_def NUM_OPCODE_HANDLERS_def)
  have a: "ws_app (async_read (world_socket_new [])) = []"
    by (simp add: async_read_def world_socket_new_def is_open_def)
  show "frames_result log_ops (\<lambda>s h. h) [(0x1DC, [7, 8]), (2, [])] (ws_app (async_read (world_socket_new [])))
      = Some [(0x1DC, [7, 8]), (2, [])]"
    unfolding a by code_simp
  show "concat [[0, 6, 0xDC], [1, 0, 0, 7], [8, 0, 4, 2, 0, 0, 0]]
      = client_stream log_ops (\<lambda>s h. h) [(0x1DC, [7, 8]), (2, [])] (ws_app (async_read (world_socket_new [])))"
    unfolding a by code_simp
  show "list_all (\<lambda>c. length c \<le> mb_buffer_size (ws_read_buffer (async_read (world_socket_new []))))
      [[0, 6, 0xDC], [1, 0, 0, 7], [8, 0, 4, 2, 0, 0, 0]]"
    by (simp add: conjunct2 [OF new_socket_ready] READ_BLOCK_SIZE_def)
qed (rule log_ops_cipher)

end
