(* ===== verification/SendPath.thy ===== *)
theory SendPath
  imports WorldSocket
begin

text \<open>
  The send path of a client connection: \<open>ServerPktHeader\<close>
  (src/server/game/Server/Protocol/ServerPktHeader.h),
  \<open>EncryptableAndCompressiblePacket\<close> and \<open>WorldSocket::Update\<close>, which gather queued packets
  into buffers, and \<open>Socket::Update\<close> and \<open>HandleQueue\<close>, which write the buffers to the kernel.
  The cipher and zlib are parameters; what each \<open>write_some\<close> returns is an input. The lemmas
  show that the kernel is handed exactly the framed packets in the order they were queued.
\<close>

section \<open>Packets and headers\<close>

record out_packet =
  op_opcode :: u16
  op_body :: bytes
  op_encrypt :: bool

definition SMSG_UPDATE_OBJECT :: u16 where "SMSG_UPDATE_OBJECT = 0x0A9"
definition SMSG_COMPRESSED_UPDATE_OBJECT :: u16 where "SMSG_COMPRESSED_UPDATE_OBJECT = 0x1F6"

definition needs_compression :: "out_packet \<Rightarrow> bool" where
  "needs_compression p \<longleftrightarrow> op_opcode p = SMSG_UPDATE_OBJECT \<and> length (op_body p) > 100"

text \<open>
  \<open>CompressIfNeeded\<close>. \<open>deflate\<close> stands for \<open>compressBuff\<close>, that is zlib with the configured level;
  it yields no bytes when zlib reports an error.
\<close>

definition compress_if_needed :: "(bytes \<Rightarrow> bytes) \<Rightarrow> out_packet \<Rightarrow> out_packet" where
  "compress_if_needed deflate p =
     (if \<not> needs_compression p then p
      else
        let pSize = length (op_body p); dest = deflate (op_body p)
        in if length dest = 0 then p
           else p\<lparr>op_body := le_bytes 4 (pSize mod 2 ^ 32) @ dest,
                  op_opcode := SMSG_COMPRESSED_UPDATE_OBJECT\<rparr>)"

definition is_large_packet :: "u32 \<Rightarrow> bool" where
  "is_large_packet sz \<longleftrightarrow> sz > 0x7FFF"

definition server_pkt_header :: "u32 \<Rightarrow> u16 \<Rightarrow> bytes" where
  "server_pkt_header sz cmd =
     (if is_large_packet sz then [ucast (0x80 OR (0xFF AND drop_bit 16 sz))] else [])
     @ [ucast (0xFF AND drop_bit 8 sz), ucast (0xFF AND sz),
        ucast (0xFF AND cmd), ucast (0xFF AND drop_bit 8 cmd)]"

definition get_header_length :: "u32 \<Rightarrow> nat" where
  "get_header_length sz = 2 + (if is_large_packet sz then 3 else 2)"

section \<open>Gathering packets into buffers\<close>

record 'k out_socket =
  os_queue :: "out_packet list"
  os_write_queue :: "message_buffer list"
  os_send_buffer_size :: nat
  os_crypt :: 'k

definition send_packet :: "bool \<Rightarrow> u16 \<Rightarrow> bytes \<Rightarrow> bool \<Rightarrow> 'k out_socket \<Rightarrow> 'k out_socket" where
  "send_packet is_opened opcode body crypt_initialized os =
     (if \<not> is_opened then os
      else os\<lparr>os_queue := os_queue os
        @ [\<lparr>op_opcode = opcode, op_body = body, op_encrypt = crypt_initialized\<rparr>]\<rparr>)"

definition queue_packet :: "message_buffer \<Rightarrow> 'k out_socket \<Rightarrow> 'k out_socket" where
  "queue_packet buffer os = os\<lparr>os_write_queue := os_write_queue os @ [buffer]\<rparr>"

definition write_packet :: "bytes \<Rightarrow> bytes \<Rightarrow> message_buffer \<Rightarrow> sock_error + message_buffer" where
  "write_packet header body buffer =
     res_bind (mem (mb_write header buffer)) (\<lambda>b.
       if body \<noteq> [] then mem (mb_write body b) else Inr b)"

text \<open>One pass of the loop of \<open>WorldSocket::Update\<close> on the packet taken from the queue.\<close>

definition flush_one :: "(bytes \<Rightarrow> bytes) \<Rightarrow> ('k \<Rightarrow> bytes \<Rightarrow> bytes \<times> 'k) \<Rightarrow> out_packet
    \<Rightarrow> message_buffer \<Rightarrow> 'k out_socket \<Rightarrow> sock_error + (message_buffer \<times> 'k out_socket)" where
  "flush_one deflate encrypt queued buffer os =
     (let queued = compress_if_needed deflate queued;
          sz = word_of_nat (length (op_body queued) + 2) :: u32;
          header = server_pkt_header sz (op_opcode queued);
          (header, k) = (if op_encrypt queued then encrypt (os_crypt os) header
                         else (header, os_crypt os));
          os = os\<lparr>os_crypt := k\<rparr>;
          currentPacketSize = length (op_body queued) + get_header_length sz;
          (buffer, os) =
            (if mb_remaining_space buffer < currentPacketSize
             then let (sent, buffer) = mb_move_construct buffer
                  in (mb_resize (os_send_buffer_size os) buffer, queue_packet sent os)
             else (buffer, os))
      in if mb_remaining_space buffer \<ge> currentPacketSize
         then res_bind (write_packet header (op_body queued) buffer) (\<lambda>buffer. Inr (buffer, os))
         else
           let buffer = mb_resize currentPacketSize buffer;
               os = (if currentPacketSize \<le> 65536 then os\<lparr>os_send_buffer_size := currentPacketSize\<rparr>
                     else os)
           in res_bind (write_packet header (op_body queued) buffer) (\<lambda>buffer. Inr (buffer, os)))"

fun flush_loop :: "(bytes \<Rightarrow> bytes) \<Rightarrow> ('k \<Rightarrow> bytes \<Rightarrow> bytes \<times> 'k) \<Rightarrow> out_packet list
    \<Rightarrow> message_buffer \<Rightarrow> 'k out_socket \<Rightarrow> sock_error + (message_buffer \<times> 'k out_socket)" where
  "flush_loop deflate encrypt [] buffer os = Inr (buffer, os)"
| "flush_loop deflate encrypt (p # ps) buffer os =
     res_bind (flush_one deflate encrypt p buffer (os\<lparr>os_queue := ps\<rparr>)) (\<lambda>(buffer, os).
       flush_loop deflate encrypt ps buffer os)"

text \<open>The part of \<open>WorldSocket::Update\<close> before the base class' update.\<close>

definition flush_queue :: "(bytes \<Rightarrow> bytes) \<Rightarrow> ('k \<Rightarrow> bytes \<Rightarrow> bytes \<times> 'k) \<Rightarrow> 'k out_socket
    \<Rightarrow> sock_error + 'k out_socket" where
  "flush_queue deflate encrypt os =
     (if os_queue os = [] then Inr os
      else res_bind (flush_loop deflate encrypt (os_queue os) (mb_new (os_send_buffer_size os)) os)
        (\<lambda>(buffer, os). Inr (if mb_active_size buffer > 0 then queue_packet buffer os else os)))"

section \<open>Writing buffers to the kernel\<close>

text \<open>What \<open>write_some\<close> and the error code said.\<close>

datatype io_result = Sent nat | WouldBlock | IoError

record kernel_socket =
  ks_write_queue :: "message_buffer list"
  ks_sent :: bytes
  ks_closed :: bool
  ks_closing :: bool
  ks_writing_async :: bool

definition ks_close :: "kernel_socket \<Rightarrow> kernel_socket" where
  "ks_close ks = ks\<lparr>ks_closed := True\<rparr>"

definition async_process_queue :: "kernel_socket \<Rightarrow> bool \<times> kernel_socket" where
  "async_process_queue ks = (False, ks\<lparr>ks_writing_async := True\<rparr>)"

definition pop_front :: "kernel_socket \<Rightarrow> kernel_socket" where
  "pop_front ks =
     (let ks = ks\<lparr>ks_write_queue := tl (ks_write_queue ks)\<rparr>
      in if ks_closing ks \<and> ks_write_queue ks = [] then ks_close ks else ks)"

definition handle_queue :: "io_result \<Rightarrow> kernel_socket \<Rightarrow> bool \<times> kernel_socket" where
  "handle_queue io ks =
     (case ks_write_queue ks of
        [] \<Rightarrow> (False, ks)
      | queuedMessage # rest \<Rightarrow>
          let bytesToSend = mb_active_size queuedMessage in
          case io of
            WouldBlock \<Rightarrow> async_process_queue ks
          | IoError \<Rightarrow> (False, pop_front ks)
          | Sent bytesSent \<Rightarrow>
              let ks = ks\<lparr>ks_sent := ks_sent ks @ take bytesSent (mb_read_pointer queuedMessage)\<rparr> in
              if bytesSent = 0 then (False, pop_front ks)
              else if bytesSent < bytesToSend
              then async_process_queue
                     (ks\<lparr>ks_write_queue := mb_read_completed bytesSent queuedMessage # rest\<rparr>)
              else let ks = pop_front ks in (ks_write_queue ks \<noteq> [], ks))"

text \<open>
  \<open>Socket::Update\<close>: the loop runs while \<open>HandleQueue\<close> returns true; the inputs are the
  results of the successive writes, and the loop has as many of them as it needs.
\<close>

fun handle_queue_loop :: "io_result list \<Rightarrow> kernel_socket \<Rightarrow> kernel_socket" where
  "handle_queue_loop [] ks = ks"
| "handle_queue_loop (io # ios) ks =
     (let (again, ks) = handle_queue io ks in if again then handle_queue_loop ios ks else ks)"

definition socket_update :: "io_result list \<Rightarrow> kernel_socket \<Rightarrow> bool \<times> kernel_socket" where
  "socket_update ios ks =
     (if ks_closed ks then (False, ks)
      else if ks_writing_async ks \<or> (ks_write_queue ks = [] \<and> \<not> ks_closing ks) then (True, ks)
      else (True, handle_queue_loop ios ks))"

definition write_handler_wrapper :: "io_result \<Rightarrow> kernel_socket \<Rightarrow> kernel_socket" where
  "write_handler_wrapper io ks = snd (handle_queue io (ks\<lparr>ks_writing_async := False\<rparr>))"

section \<open>The stream the kernel is handed\<close>

text \<open>The bytes of one packet on the wire, and of a list of packets, with the cipher's state.\<close>

definition packet_wire :: "(bytes \<Rightarrow> bytes) \<Rightarrow> ('k \<Rightarrow> bytes \<Rightarrow> bytes \<times> 'k) \<Rightarrow> out_packet \<Rightarrow> 'k \<Rightarrow> bytes \<times> 'k"
where
  "packet_wire deflate encrypt p k =
     (let q = compress_if_needed deflate p;
          header = server_pkt_header (word_of_nat (length (op_body q) + 2)) (op_opcode q);
          (header, k) = (if op_encrypt q then encrypt k header else (header, k))
      in (header @ op_body q, k))"

primrec wire :: "(bytes \<Rightarrow> bytes) \<Rightarrow> ('k \<Rightarrow> bytes \<Rightarrow> bytes \<times> 'k) \<Rightarrow> out_packet list \<Rightarrow> 'k \<Rightarrow> bytes \<times> 'k"
where
  "wire deflate encrypt [] k = ([], k)"
| "wire deflate encrypt (p # ps) k =
     (let (bs, k) = packet_wire deflate encrypt p k; (cs, k) = wire deflate encrypt ps k
      in (bs @ cs, k))"

definition queue_content :: "message_buffer list \<Rightarrow> bytes" where
  "queue_content bs = concat (map mb_content bs)"

definition encrypt_ok :: "('k \<Rightarrow> bytes \<Rightarrow> bytes \<times> 'k) \<Rightarrow> bool" where
  "encrypt_ok encrypt \<longleftrightarrow> (\<forall>k h. length (fst (encrypt k h)) = length h)"

definition sendable :: "(bytes \<Rightarrow> bytes) \<Rightarrow> out_packet \<Rightarrow> bool" where
  "sendable deflate p \<longleftrightarrow> length (op_body (compress_if_needed deflate p)) < 2 ^ 60"

definition out_ok :: "'k out_socket \<Rightarrow> bool" where
  "out_ok os \<longleftrightarrow> os_send_buffer_size os < 2 ^ 62 \<and> list_all mb_ok (os_write_queue os)"

lemma length_server_pkt_header: "length (server_pkt_header sz cmd) = get_header_length sz"
  by (simp add: server_pkt_header_def get_header_length_def)

lemma get_header_length_bounds: "4 \<le> get_header_length sz" "get_header_length sz \<le> 5"
  by (simp_all add: get_header_length_def)

lemma queue_content_append [simp]: "queue_content (xs @ ys) = queue_content xs @ queue_content ys"
  by (simp add: queue_content_def)

lemma queue_content_Cons [simp]: "queue_content (b # bs) = mb_content b @ queue_content bs"
  by (simp add: queue_content_def)

lemma queue_content_Nil [simp]: "queue_content [] = []"
  by (simp add: queue_content_def)

lemma write_packet_ok:
  assumes "mb_ok b" "length header + length body \<le> mb_remaining_space b"
  shows "\<exists>b'. write_packet header body b = Inr b' \<and> mb_ok b' \<and> mb_content b' = mb_content b @ header @ body"
proof -
  obtain b1 where b1: "mb_write header b = Some b1" "mb_ok b1" "mb_content b1 = mb_content b @ header"
    "mb_remaining_space b1 = mb_remaining_space b - length header"
    using mq.put_bytes_ok [of b header] assms by auto
  have "length body \<le> mb_remaining_space b1" using assms(2) b1(4) by linarith
  with b1(2) obtain b2 where "mb_write body b1 = Some b2" "mb_ok b2" "mb_content b2 = mb_content b1 @ body"
    using mq.put_bytes_ok [of b1 body] by auto
  with b1 show ?thesis by (simp add: write_packet_def mem_def)
qed

lemma fresh_buffer:
  assumes "mb_wpos b = 0" "mb_rpos b = 0" "n < 2 ^ 62"
  shows "mb_ok (mb_resize n b)" "mb_content (mb_resize n b) = []" "mb_remaining_space (mb_resize n b) = n"
  using assms by (auto simp: mb_resize_def mb_ok_def mb_content_def mb_remaining_space_def sz_sub_def
      vec_resize_def)

lemma flush_one_ok:
  assumes enc: "encrypt_ok encrypt" and p: "sendable deflate p" and b: "mb_ok buffer" and os: "out_ok os"
  shows "\<exists>buffer' os'. flush_one deflate encrypt p buffer os = Inr (buffer', os')
    \<and> mb_ok buffer' \<and> out_ok os' \<and> os_queue os' = os_queue os
    \<and> os_crypt os' = snd (packet_wire deflate encrypt p (os_crypt os))
    \<and> queue_content (os_write_queue os') @ mb_content buffer'
      = queue_content (os_write_queue os) @ mb_content buffer
        @ fst (packet_wire deflate encrypt p (os_crypt os))"
proof -
  define q where "q = compress_if_needed deflate p"
  define sz where "sz = (word_of_nat (length (op_body q) + 2) :: u32)"
  obtain h k where hk: "(if op_encrypt q then encrypt (os_crypt os) (server_pkt_header sz (op_opcode q))
      else (server_pkt_header sz (op_opcode q), os_crypt os)) = (h, k)" by fastforce
  have lh: "length h = get_header_length sz"
  proof (cases "op_encrypt q")
    case True
    then have "h = fst (encrypt (os_crypt os) (server_pkt_header sz (op_opcode q)))" using hk by simp
    then show ?thesis using enc by (simp add: encrypt_ok_def length_server_pkt_header)
  next
    case False
    then show ?thesis using hk by (auto simp: length_server_pkt_header)
  qed
  define cur where "cur = length (op_body q) + get_header_length sz"
  have lcur: "cur < 2 ^ 62" "length h + length (op_body q) = cur"
    using p get_header_length_bounds [of sz] by (simp_all add: cur_def lh sendable_def flip: q_def)
  have W: "packet_wire deflate encrypt p (os_crypt os) = (h @ op_body q, k)"
    by (simp only: packet_wire_def Let_def hk prod.case flip: q_def sz_def)
  define moved where "moved \<longleftrightarrow> mb_remaining_space buffer < cur"
  define b1 where "b1 = (if moved then mb_resize (os_send_buffer_size os) (snd (mb_move_construct buffer))
    else buffer)"
  define os1 where "os1 = (if moved then queue_packet (fst (mb_move_construct buffer)) (os\<lparr>os_crypt := k\<rparr>)
    else os\<lparr>os_crypt := k\<rparr>)"
  have mv: "mb_wpos (snd (mb_move_construct buffer)) = 0" "mb_rpos (snd (mb_move_construct buffer)) = 0"
    "mb_ok (fst (mb_move_construct buffer))"
    "mb_content (fst (mb_move_construct buffer)) = mb_content buffer"
    using b mb_move_construct_content [of buffer]
    by (auto simp: mb_move_construct_def mb_move_def mb_ok_def)
  have b1: "mb_ok b1" "queue_content (os_write_queue os1) @ mb_content b1
      = queue_content (os_write_queue os) @ mb_content buffer" "out_ok os1" "os_crypt os1 = k"
    "os_queue os1 = os_queue os" "os_send_buffer_size os1 = os_send_buffer_size os"
    using b os mv fresh_buffer [OF mv(1,2), of "os_send_buffer_size os"]
    by (auto simp: b1_def os1_def queue_packet_def out_ok_def)
  define b2 where "b2 = (if cur \<le> mb_remaining_space b1 then b1 else mb_resize cur b1)"
  define os2 where "os2 = (if cur \<le> mb_remaining_space b1 then os1
    else if cur \<le> 65536 then os1\<lparr>os_send_buffer_size := cur\<rparr> else os1)"
  have small: "mb_wpos b1 = 0 \<and> mb_rpos b1 = 0" if "\<not> cur \<le> mb_remaining_space b1"
    using that mv by (auto simp: b1_def moved_def mb_resize_def)
  have b2: "mb_ok b2" "mb_content b2 = mb_content b1" "cur \<le> mb_remaining_space b2"
  proof (atomize (full), cases "cur \<le> mb_remaining_space b1")
    case False
    from small [OF this] have "mb_content b1 = []" by (simp add: mb_content_def)
    then show "mb_ok b2 \<and> mb_content b2 = mb_content b1 \<and> cur \<le> mb_remaining_space b2"
      using False fresh_buffer [of b1 cur] small lcur by (simp add: b2_def)
  qed (use b1 in \<open>simp add: b2_def\<close>)
  have os2: "out_ok os2" "os_crypt os2 = k" "os_queue os2 = os_queue os"
    "os_write_queue os2 = os_write_queue os1"
    using b1 lcur by (auto simp: os2_def out_ok_def)
  obtain b3 where b3: "write_packet h (op_body q) b2 = Inr b3" "mb_ok b3"
    "mb_content b3 = mb_content b2 @ h @ op_body q"
    using write_packet_ok [OF b2(1), of h "op_body q"] b2(3) lcur by auto
  have move: "(if mb_remaining_space buffer < cur
      then case mb_move_construct buffer of (sent, buffer) \<Rightarrow>
        (mb_resize (os_send_buffer_size (os\<lparr>os_crypt := k\<rparr>)) buffer, queue_packet sent (os\<lparr>os_crypt := k\<rparr>))
      else (buffer, os\<lparr>os_crypt := k\<rparr>)) = (b1, os1)"
    by (simp add: b1_def os1_def moved_def split_beta)
  have "flush_one deflate encrypt p buffer os = Inr (b3, os2)"
    using b3(1)
    by (simp only: flush_one_def Let_def hk prod.case move flip: q_def sz_def cur_def)
      (cases "cur \<le> mb_remaining_space b1"; simp add: b2_def os2_def)
  then show ?thesis using b3 os2 b1 b2 W
    by (intro exI [of _ b3] exI [of _ os2]) (simp flip: append_assoc)
qed

lemma flush_loop_ok:
  assumes "encrypt_ok encrypt" "list_all (sendable deflate) ps" "mb_ok buffer" "out_ok os"
  shows "\<exists>buffer' os'. flush_loop deflate encrypt ps buffer os = Inr (buffer', os')
    \<and> mb_ok buffer' \<and> out_ok os' \<and> (ps \<noteq> [] \<longrightarrow> os_queue os' = [])
    \<and> os_crypt os' = snd (wire deflate encrypt ps (os_crypt os))
    \<and> queue_content (os_write_queue os') @ mb_content buffer'
      = queue_content (os_write_queue os) @ mb_content buffer
        @ fst (wire deflate encrypt ps (os_crypt os))"
  using assms(2-)
proof (induction ps arbitrary: buffer os)
  case (Cons p ps)
  obtain b1 os1 where f: "flush_one deflate encrypt p buffer (os\<lparr>os_queue := ps\<rparr>) = Inr (b1, os1)"
    "mb_ok b1" "out_ok os1" "os_queue os1 = ps"
    "os_crypt os1 = snd (packet_wire deflate encrypt p (os_crypt os))"
    "queue_content (os_write_queue os1) @ mb_content b1
      = queue_content (os_write_queue os) @ mb_content buffer
        @ fst (packet_wire deflate encrypt p (os_crypt os))"
    using flush_one_ok [OF assms(1), of deflate p buffer "os\<lparr>os_queue := ps\<rparr>"] Cons.prems
    by (auto simp: out_ok_def)
  from Cons.IH [OF _ f(2,3)] Cons.prems(1) obtain b2 os2 where
    g: "flush_loop deflate encrypt ps b1 os1 = Inr (b2, os2)" "mb_ok b2" "out_ok os2"
    "ps \<noteq> [] \<longrightarrow> os_queue os2 = []" "os_crypt os2 = snd (wire deflate encrypt ps (os_crypt os1))"
    "queue_content (os_write_queue os2) @ mb_content b2
      = queue_content (os_write_queue os1) @ mb_content b1 @ fst (wire deflate encrypt ps (os_crypt os1))"
    by auto
  have "os_queue os2 = []" using g f(4) by (cases ps) auto
  moreover have "queue_content (os_write_queue os2) @ mb_content b2
      = (queue_content (os_write_queue os1) @ mb_content b1) @ fst (wire deflate encrypt ps (os_crypt os1))"
    using g(6) by simp
  ultimately show ?case using f g unfolding f(6)
    by (intro exI [of _ b2] exI [of _ os2]) (simp add: split_beta)
qed simp

lemma flush_queue_ok:
  assumes "encrypt_ok encrypt" "list_all (sendable deflate) (os_queue os)" "out_ok os"
  shows "\<exists>os'. flush_queue deflate encrypt os = Inr os' \<and> out_ok os' \<and> os_queue os' = []
    \<and> os_crypt os' = snd (wire deflate encrypt (os_queue os) (os_crypt os))
    \<and> queue_content (os_write_queue os')
      = queue_content (os_write_queue os) @ fst (wire deflate encrypt (os_queue os) (os_crypt os))"
proof (cases "os_queue os = []")
  case False
  let ?b = "mb_new (os_send_buffer_size os)"
  have b: "mb_ok ?b" "mb_content ?b = []"
    using assms(3) by (simp_all add: mb_new_def mb_ok_def mb_content_def vec_resize_def out_ok_def)
  obtain buffer os1 where f: "flush_loop deflate encrypt (os_queue os) ?b os = Inr (buffer, os1)"
    "mb_ok buffer" "out_ok os1" "os_queue os1 = []"
    "os_crypt os1 = snd (wire deflate encrypt (os_queue os) (os_crypt os))"
    "queue_content (os_write_queue os1) @ mb_content buffer
      = queue_content (os_write_queue os) @ fst (wire deflate encrypt (os_queue os) (os_crypt os))"
    using flush_loop_ok [OF assms(1,2) b(1) assms(3)] b(2) False by auto
  show ?thesis
  proof (cases "mb_active_size buffer > 0")
    case True
    then show ?thesis using f False
      by (simp add: flush_queue_def queue_packet_def out_ok_def)
  next
    case False
    then have "mb_content buffer = []" using length_mb_content [OF f(2)] by simp
    then show ?thesis using f False \<open>os_queue os \<noteq> []\<close> by (simp add: flush_queue_def)
  qed
qed (use assms(3) in \<open>simp add: flush_queue_def\<close>)

section \<open>Writing conserves the stream\<close>

text \<open>
  What the operating system promises of \<open>write_some\<close>: it takes at most the bytes it was given,
  and none only if it was given none.
\<close>

definition io_ok :: "io_result \<Rightarrow> kernel_socket \<Rightarrow> bool" where
  "io_ok io ks = (case ks_write_queue ks of [] \<Rightarrow> True | b # bs \<Rightarrow>
     (case io of Sent n \<Rightarrow> n \<le> mb_active_size b \<and> (n = 0 \<longrightarrow> mb_active_size b = 0)
      | WouldBlock \<Rightarrow> True | IoError \<Rightarrow> False))"

definition stream_of :: "kernel_socket \<Rightarrow> bytes" where
  "stream_of ks = ks_sent ks @ queue_content (ks_write_queue ks)"

lemma pop_front_simps [simp]:
  "ks_write_queue (pop_front ks) = tl (ks_write_queue ks)" "ks_sent (pop_front ks) = ks_sent ks"
  by (simp_all add: pop_front_def ks_close_def Let_def)

lemma handle_queue_conserves:
  assumes "list_all mb_ok (ks_write_queue ks)" "io_ok io ks" "handle_queue io ks = (again, ks')"
  shows "stream_of ks' = stream_of ks \<and> list_all mb_ok (ks_write_queue ks')
    \<and> length (ks_write_queue ks') \<le> length (ks_write_queue ks)
    \<and> (again \<longrightarrow> length (ks_write_queue ks') < length (ks_write_queue ks))"
proof (cases "ks_write_queue ks")
  case Nil
  then show ?thesis using assms(3) by (simp add: handle_queue_def)
next
  case (Cons b bs)
  have b: "mb_ok b" "list_all mb_ok bs" using assms(1) Cons by simp_all
  note len = length_mb_content [OF b(1)]
  show ?thesis
  proof (cases io)
    case (Sent n)
    then have n: "n \<le> length (mb_content b)" "n = 0 \<longrightarrow> mb_content b = []"
      using assms(2) Cons len by (auto simp: io_ok_def)
    have t: "take n (mb_read_pointer b) = take n (mb_content b)"
      using mb_content_pointer [OF b(1)] n(1) len by simp
    note r = mq.drop_bytes_ok [OF b(1) n(1)]
    consider (empty) "n = 0" | (all) "n \<noteq> 0" "n = length (mb_content b)"
      | (part) "n \<noteq> 0" "n < length (mb_content b)" using n by linarith
    then show ?thesis
    proof cases
      case empty
      then show ?thesis using assms(3) Cons Sent n b len
        by (auto simp: handle_queue_def Let_def stream_of_def)
    next
      case all
      then show ?thesis using assms(3) Cons Sent b len t
        by (auto simp: handle_queue_def Let_def stream_of_def)
    next
      case part
      then have "stream_of ks' = ks_sent ks @ take n (mb_content b) @ drop n (mb_content b) @ queue_content bs"
        using assms(3) Cons Sent b len t r
        by (auto simp: handle_queue_def Let_def stream_of_def async_process_queue_def)
      then have "stream_of ks' = stream_of ks" using Cons
        by (simp add: stream_of_def)
      then show ?thesis using assms(3) Cons Sent b len t r part
        by (auto simp: handle_queue_def Let_def async_process_queue_def)
    qed
  next
    case WouldBlock
    then show ?thesis using assms(3) Cons b
      by (auto simp: handle_queue_def Let_def stream_of_def async_process_queue_def)
  qed (use assms(2) Cons in \<open>simp add: io_ok_def\<close>)
qed

text \<open>The results of the writes of one \<open>Socket::Update\<close>, each as the system promises.\<close>

fun ios_ok :: "io_result list \<Rightarrow> kernel_socket \<Rightarrow> bool" where
  "ios_ok [] ks = True"
| "ios_ok (io # ios) ks =
     (io_ok io ks \<and> (let (again, ks) = handle_queue io ks in again \<longrightarrow> ios_ok ios ks))"

lemma handle_queue_loop_conserves:
  "list_all mb_ok (ks_write_queue ks) \<Longrightarrow> ios_ok ios ks \<Longrightarrow> stream_of (handle_queue_loop ios ks) = stream_of ks"
proof (induction ios arbitrary: ks)
  case (Cons io ios)
  obtain again ks' where h: "handle_queue io ks = (again, ks')" by fastforce
  with Cons show ?case using handle_queue_conserves [OF Cons.prems(1) _ h] by auto
qed simp

text \<open>The loop asks for at most one result per queued buffer.\<close>

lemma handle_queue_loop_enough:
  assumes "list_all mb_ok (ks_write_queue ks)" "ios_ok ios ks" "length (ks_write_queue ks) < length ios"
  shows "handle_queue_loop (ios @ extra) ks = handle_queue_loop ios ks"
  using assms
proof (induction ios arbitrary: ks)
  case (Cons io ios)
  obtain again ks' where h: "handle_queue io ks = (again, ks')" by fastforce
  show ?case
  proof (cases again)
    case True
    with Cons h show ?thesis using handle_queue_conserves [OF Cons.prems(1) _ h] by auto
  qed (simp add: h)
qed simp

section \<open>The client's side\<close>

text \<open>The header as the client reads it: a set top bit announces a third size byte.\<close>

definition client_parse_header :: "bytes \<Rightarrow> (nat \<times> nat \<times> bytes) option" where
  "client_parse_header bs =
     (case bs of
        a # b # rest \<Rightarrow>
          if bit a 7
          then (case rest of
                  c # d # e # r \<Rightarrow> Some (unat (a AND 0x7F) * 65536 + unat b * 256 + unat c,
                                      unat d + 256 * unat e, r)
                | _ \<Rightarrow> None)
          else (case rest of
                  d # e # r \<Rightarrow> Some (unat a * 256 + unat b, unat d + 256 * unat e, r)
                | _ \<Rightarrow> None)
      | _ \<Rightarrow> None)"

lemma byte_of_word:
  fixes x :: "'a :: len word"
  assumes "8 \<le> LENGTH('a)"
  shows "unat (ucast (0xFF AND drop_bit n x) :: u8) = unat x div 2 ^ n mod 256"
proof -
  define y where "y = 0xFF AND drop_bit n x"
  have "(0xFF :: 'a word) = mask 8" by (simp add: mask_eq_exp_minus_1)
  then have y: "y = take_bit 8 (drop_bit n x)"
    unfolding y_def by (simp only: take_bit_eq_mask and.commute)
  have d: "unat (drop_bit n x) = drop_bit n (unat x)"
    by (simp only: unsigned_drop_bit_eq take_bit_nat_eq_self [OF unsigned_less])
  have "unat (ucast y :: u8) = take_bit 8 (unat y)" by (simp add: unsigned_ucast_eq)
  also have "\<dots> = take_bit 8 (drop_bit n (unat x))"
    by (simp only: y unsigned_take_bit_eq d) simp
  also have "\<dots> = unat x div 2 ^ n mod 256" by (simp add: take_bit_eq_mod drop_bit_eq_div)
  finally show ?thesis unfolding y_def .
qed

lemma low_byte_of_word:
  fixes x :: "'a :: len word"
  assumes "8 \<le> LENGTH('a)"
  shows "unat (ucast (0xFF AND x) :: u8) = unat x mod 256"
  using byte_of_word [of 0 x] assms by simp

lemma high_size_byte:
  assumes "unat (sz :: u32) < 2 ^ 23"
  shows "bit (ucast (0x80 OR (0xFF AND drop_bit 16 sz)) :: u8) 7"
    "unat ((ucast (0x80 OR (0xFF AND drop_bit 16 sz)) :: u8) AND 0x7F) = unat sz div 65536"
proof -
  let ?y = "ucast (0xFF AND drop_bit 16 sz) :: u8"
  have c: "(ucast (0x80 OR (0xFF AND drop_bit 16 sz)) :: u8) = 0x80 OR ?y"
    by (rule bit_word_eqI) (auto simp: bit_unsigned_iff bit_or_iff bit_and_iff)
  have "unat ?y = unat sz div 2 ^ 16 mod 256" by (rule byte_of_word) simp
  then have y: "unat ?y = unat sz div 65536" "unat ?y < 128" using assms by simp_all
  show "bit (ucast (0x80 OR (0xFF AND drop_bit 16 sz)) :: u8) 7"
    unfolding c by (simp add: bit_or_iff)
  have "(0x80 OR y) AND 0x7F = y" if "unat y < 128" for y :: u8
  proof -
    have lt: "k < 7" if "bit y k" for k
      using word_bit_bound [of y 7 k] that \<open>unat y < 128\<close> by (simp add: word_less_nat_alt)
    have "(push_bit 7 1 OR y) AND mask 7 = y"
      by (rule bit_word_eqI)
        (auto simp: bit_or_iff bit_and_iff bit_push_bit_iff bit_mask_iff bit_1_iff lt simp del: push_bit_of_1)
    then show ?thesis by (simp add: mask_eq_exp_minus_1)
  qed
  note this [OF y(2)]
  then show "unat ((ucast (0x80 OR (0xFF AND drop_bit 16 sz)) :: u8) AND 0x7F) = unat sz div 65536"
    unfolding c using y(1) by simp
qed

section \<open>The properties of the send path\<close>



text \<open>
  From \<open>2 ^ 23\<close> on the top bits of the size are lost, though \<open>ByteBuffer::append\<close> lets a packet
  grow to ten million bytes: the client takes a packet of this size for a short one.
\<close>

lemma server_header_truncates:
  "client_parse_header (server_pkt_header 0x800005 0x1F6) = Some (5, 0x1F6, [])"
  by (simp add: server_pkt_header_def client_parse_header_def is_large_packet_def)

text \<open>
  Claim C2: one update of the connection hands the kernel exactly the queued packets, framed,
  in the order they were queued, behind what was still waiting, whatever the buffer sizes and
  however the kernel cuts the writes: no access outside a buffer, and the bytes written so far
  with the ones still waiting are always the same stream.
\<close>

theorem packets_sent_in_order:
  assumes "encrypt_ok encrypt" "out_ok os" "list_all (sendable deflate) (os_queue os)"
    and "ks_sent ks = already"
  shows "\<exists>os'. flush_queue deflate encrypt os = Inr os' \<and> os_queue os' = []
    \<and> (\<forall>ios. ios_ok ios (ks\<lparr>ks_write_queue := os_write_queue os'\<rparr>) \<longrightarrow>
        stream_of (handle_queue_loop ios (ks\<lparr>ks_write_queue := os_write_queue os'\<rparr>))
        = already @ queue_content (os_write_queue os)
          @ fst (wire deflate encrypt (os_queue os) (os_crypt os)))"
proof -
  obtain os' where f: "flush_queue deflate encrypt os = Inr os'" "out_ok os'" "os_queue os' = []"
    "queue_content (os_write_queue os') = queue_content (os_write_queue os)
      @ fst (wire deflate encrypt (os_queue os) (os_crypt os))"
    using flush_queue_ok [OF assms(1,3,2)] by blast
  let ?ks = "ks\<lparr>ks_write_queue := os_write_queue os'\<rparr>"
  have "stream_of (handle_queue_loop ios ?ks) = stream_of ?ks" if "ios_ok ios ?ks" for ios
    using f(2) that by (intro handle_queue_loop_conserves) (simp_all add: out_ok_def)
  with f assms(4) show ?thesis by (intro exI [of _ os']) (simp add: stream_of_def)
qed

definition example_out :: "unit out_socket" where
  "example_out = \<lparr>os_queue = [\<lparr>op_opcode = 0x1DD, op_body = [1, 2, 3, 4, 5, 6, 7, 8], op_encrypt = False\<rparr>,
       \<lparr>op_opcode = 0x3B, op_body = [], op_encrypt = True\<rparr>],
     os_write_queue = [], os_send_buffer_size = 8, os_crypt = ()\<rparr>"

definition example_kernel :: kernel_socket where
  "example_kernel = \<lparr>ks_write_queue = [], ks_sent = [9], ks_closed = False, ks_closing = False,
     ks_writing_async = False\<rparr>"

theorem packets_sent_in_order_witness:
  "\<exists>os'. flush_queue (\<lambda>b. []) (\<lambda>k h. (h, k)) example_out = Inr os' \<and> os_queue os' = []
    \<and> (\<forall>ios. ios_ok ios (example_kernel\<lparr>ks_write_queue := os_write_queue os'\<rparr>) \<longrightarrow>
        stream_of (handle_queue_loop ios (example_kernel\<lparr>ks_write_queue := os_write_queue os'\<rparr>))
        = [9] @ queue_content (os_write_queue example_out)
          @ fst (wire (\<lambda>b. []) (\<lambda>k h. (h, k)) (os_queue example_out) (os_crypt example_out)))"
  by (rule packets_sent_in_order)
    (simp_all add: encrypt_ok_def example_out_def out_ok_def sendable_def compress_if_needed_def
      example_kernel_def)

text \<open>
  A packet larger than the buffer that comes first in an update leaves an empty buffer in the
  write queue: \<open>HandleQueue\<close> writes no bytes for it, takes that for the end and returns false,
  so the packet waits for the next update.
\<close>

lemma empty_buffer_stops_the_loop:
  assumes "flush_queue (\<lambda>b. []) (\<lambda>k h. (h, k)) example_out = Inr os"
  shows "map mb_active_size (os_write_queue os) = [0, 12, 4]
    \<and> handle_queue (Sent 0) (example_kernel\<lparr>ks_write_queue := os_write_queue os\<rparr>)
      = (False, example_kernel\<lparr>ks_write_queue := tl (os_write_queue os)\<rparr>)"
  using assms
  by (auto simp: flush_queue_def flush_one_def example_out_def Let_def compress_if_needed_def
      needs_compression_def SMSG_UPDATE_OBJECT_def server_pkt_header_def is_large_packet_def
      get_header_length_def write_packet_def mb_write_def mb_copy_in_def mb_write_completed_def
      mb_new_def mb_move_construct_def mb_move_def mb_resize_def vec_resize_def mem_def
      mb_remaining_space_def mb_active_size_def sz_sub_def queue_packet_def handle_queue_def
      pop_front_def example_kernel_def)

text \<open>
  A connection that is to close once its write queue is empty, and whose queue is already
  empty, is never closed: \<open>HandleQueue\<close> returns before it looks at \<open>_closing\<close>.
\<close>

lemma closing_with_empty_queue_never_closes:
  assumes "ks_write_queue ks = []" "\<not> ks_closed ks"
  shows "socket_update ios ks = (True, ks)"
proof -
  have "handle_queue_loop ios ks = ks"
    using assms(1) by (cases ios) (simp_all add: handle_queue_def)
  with assms show ?thesis by (simp add: socket_update_def)
qed

end
