(* ===== verification/AuthSession.thy ===== *)
theory AuthSession
  imports SendPath Packets
begin

text \<open>
  What a connection does with its packets before and after login:
  \<open>WorldSocket::ReadDataHandler\<close>, \<open>HandlePing\<close>, \<open>HandleAuthSession\<close> and the database callback
  \<open>HandleAuthSessionCallback\<close> (src/server/game/Server/WorldSocket.cpp). The digest function, the
  geo-IP lookup, the database and the opcode table are parameters of \<open>auth_env\<close>; statements,
  hooks and packets are recorded in the state. The lemmas show when a session comes into
  being, that no packet reaches a session that was not authenticated, and when a client is
  dropped for pinging too fast.
\<close>

section \<open>State\<close>

definition CMSG_PING :: u32 where "CMSG_PING = 0x1DC"
definition CMSG_AUTH_SESSION :: u32 where "CMSG_AUTH_SESSION = 0x1ED"
definition CMSG_KEEP_ALIVE :: u32 where "CMSG_KEEP_ALIVE = 0x407"
definition CMSG_WARDEN_DATA :: u16 where "CMSG_WARDEN_DATA = 0x2E7"
definition SMSG_PONG :: u16 where "SMSG_PONG = 0x1DD"
definition SMSG_AUTH_RESPONSE :: u16 where "SMSG_AUTH_RESPONSE = 0x1EE"

definition AUTH_FAILED :: u8 where "AUTH_FAILED = 0x0D"
definition AUTH_REJECT :: u8 where "AUTH_REJECT = 0x0E"
definition AUTH_UNAVAILABLE :: u8 where "AUTH_UNAVAILABLE = 0x10"
definition AUTH_UNKNOWN_ACCOUNT :: u8 where "AUTH_UNKNOWN_ACCOUNT = 0x15"
definition AUTH_BANNED :: u8 where "AUTH_BANNED = 0x1C"
definition REALM_LIST_REALM_NOT_FOUND :: u8 where "REALM_LIST_REALM_NOT_FOUND = 0x27"

definition SEC_PLAYER :: u8 where "SEC_PLAYER = 0"
definition TOTAL_LOCALES :: u8 where "TOTAL_LOCALES = 9"

text \<open>The content of \<open>CMSG_AUTH_SESSION\<close>.\<close>

record auth_session =
  as_build :: u32
  as_login_server_id :: u32
  as_account :: bytes
  as_login_server_type :: u32
  as_local_challenge :: bytes
  as_region_id :: u32
  as_battlegroup_id :: u32
  as_realm_id :: u32
  as_dos_response :: u64
  as_digest :: bytes
  as_addon_info :: bytes

text \<open>The row of the account query, field by field, and what \<open>AccountInfo\<close> makes of it.\<close>

record account_info =
  ai_id :: u32
  ai_session_key :: bytes
  ai_last_ip :: bytes
  ai_locked_to_ip :: bool
  ai_lock_country :: bytes
  ai_expansion :: u8
  ai_mute_time :: int
  ai_locale :: u8
  ai_recruiter :: u32
  ai_os :: bytes
  ai_total_time :: u32
  ai_security :: u8
  ai_banned :: bool
  ai_is_recruiter :: bool

record world_session =
  s_account_id :: u32
  s_account_name :: bytes
  s_security :: u8
  s_expansion :: u8
  s_mute_time :: int
  s_locale :: u8
  s_recruiter :: u32
  s_is_recruiter :: bool
  s_skip_queue :: bool
  s_total_time :: u32
  s_has_player :: bool
  s_time_out_time :: int
  s_latency :: u32
  s_recv_queue :: "(u16 \<times> bytes) list"
  s_addon_info :: bytes
  s_warden :: "(bytes \<times> bytes) option"

text \<open>Statements and hooks the callback runs, in order.\<close>

datatype auth_effect =
    DbLastAttemptIp bytes bytes
  | DbMuteTimeLogin int u32
  | DbLastIp bytes bytes
  | DbOnline u32
  | HookFailedAccountLogin u32
  | HookAccountLogin u32
  | HookLastIpUpdate u32 bytes
  | WorldAddSession u32

record auth_env =
  e_now :: nat
  e_max_overspeed_pings :: u32
  e_socket_timeout :: int
  e_socket_timeout_active :: int
  e_world_closed :: bool
  e_realm_id :: u32
  e_warden :: bool
  e_expansion :: u32
  e_security_limit :: u8
  e_log_ips :: bool
  e_remote_ip :: bytes
  e_country_of :: "bytes \<Rightarrow> bytes option"
  e_game_time :: int
  e_sha1 :: "bytes \<Rightarrow> bytes"
  e_has_handler :: "u16 \<Rightarrow> bool"

record connection =
  c_authed :: bool
  c_session :: "world_session option"
  c_last_ping :: nat
  c_overspeed_pings :: u32
  c_crypt_key :: "bytes option"
  c_auth_seed :: bytes
  c_queries :: "auth_session list"
  c_sent :: "world_packet list"
  c_effects :: "auth_effect list"
  c_closing :: bool
  c_read_requested :: bool
  c_ip_country :: bytes

definition connection_new :: "bytes \<Rightarrow> connection" where
  "connection_new seed = \<lparr>c_authed = False, c_session = None, c_last_ping = 0, c_overspeed_pings = 0,
     c_crypt_key = None, c_auth_seed = seed, c_queries = [], c_sent = [], c_effects = [],
     c_closing = False, c_read_requested = False, c_ip_country = []\<rparr>"

section \<open>The handlers\<close>

definition conn_send :: "world_packet \<Rightarrow> connection \<Rightarrow> connection" where
  "conn_send p c = (if c_closing c then c else c\<lparr>c_sent := c_sent c @ [p]\<rparr>)"

definition conn_effect :: "auth_effect \<Rightarrow> connection \<Rightarrow> connection" where
  "conn_effect e c = c\<lparr>c_effects := c_effects c @ [e]\<rparr>"

definition conn_close_delayed :: "connection \<Rightarrow> connection" where
  "conn_close_delayed c = c\<lparr>c_closing := True\<rparr>"

definition conn_async_read :: "connection \<Rightarrow> connection" where
  "conn_async_read c = (if c_closing c then c else c\<lparr>c_read_requested := True\<rparr>)"

definition send_auth_response_error :: "u8 \<Rightarrow> connection \<Rightarrow> connection" where
  "send_auth_response_error code = conn_send (WorldPacket SMSG_AUTH_RESPONSE [FU8 code])"

definition reset_time_out_time :: "auth_env \<Rightarrow> bool \<Rightarrow> world_session \<Rightarrow> world_session" where
  "reset_time_out_time env onlyActive s =
     (if s_has_player s then s\<lparr>s_time_out_time := e_socket_timeout_active env\<rparr>
      else if \<not> onlyActive then s\<lparr>s_time_out_time := e_socket_timeout env\<rparr> else s)"

definition is_player_account :: "u8 \<Rightarrow> bool" where
  "is_player_account gmlevel \<longleftrightarrow> gmlevel = SEC_PLAYER"

text \<open>
  Times are nanoseconds of the steady clock; 0 is \<open>time_point()\<close>. The first \<open>now()\<close> and the
  second are one reading here.
\<close>

definition seconds_27 :: nat where "seconds_27 = 27000000000"

definition ping_allowed :: "auth_env \<Rightarrow> connection \<Rightarrow> bool \<times> connection" where
  "ping_allowed env c =
     (if c_last_ping c = 0 then (True, c\<lparr>c_last_ping := e_now env\<rparr>)
      else
        let diff = int (e_now env) - int (c_last_ping c);
            c = c\<lparr>c_last_ping := e_now env\<rparr>
        in if diff < int seconds_27 then
             let c = c\<lparr>c_overspeed_pings := c_overspeed_pings c + 1\<rparr>;
                 maxAllowed = e_max_overspeed_pings env
             in if maxAllowed \<noteq> 0 \<and> c_overspeed_pings c > maxAllowed
                then (case c_session c of
                        Some s \<Rightarrow> (\<not> is_player_account (s_security s), c)
                      | None \<Rightarrow> (True, c))
                else (True, c)
           else (True, c\<lparr>c_overspeed_pings := 0\<rparr>))"

definition handle_ping :: "auth_env \<Rightarrow> byte_buffer \<Rightarrow> connection \<Rightarrow> bb_error + (bool \<times> connection)" where
  "handle_ping env recvPacket c =
     res_bind (bb_get_u32 recvPacket) (\<lambda>(ping, recvPacket).
     res_bind (bb_get_u32 recvPacket) (\<lambda>(latency, recvPacket).
       let (allowed, c) = ping_allowed env c in
       if \<not> allowed then Inr (False, c)
       else case c_session c of
         None \<Rightarrow> Inr (False, c)
       | Some s \<Rightarrow> Inr (True, conn_send (WorldPacket SMSG_PONG [FU32 ping])
                      (c\<lparr>c_session := Some (s\<lparr>s_latency := latency\<rparr>)\<rparr>))))"

text \<open>\<open>read(uint8*, len)\<close>, and the reading of the whole packet.\<close>

definition bb_read_array :: "nat \<Rightarrow> byte_buffer \<Rightarrow> bb_error + (bytes \<times> byte_buffer)" where
  "bb_read_array len b =
     (if sz_add (bb_rpos b) len > bb_size b
      then Inl (PositionException False (bb_rpos b) len (bb_size b))
      else if bb_rpos b + len \<le> bb_size b
      then Inr (take len (drop (bb_rpos b) (bb_storage b)), b\<lparr>bb_rpos := sz_add (bb_rpos b) len\<rparr>)
      else Inl OutOfBounds)"

definition read_auth_session :: "byte_buffer \<Rightarrow> bb_error + (auth_session \<times> byte_buffer)" where
  "read_auth_session p =
     res_bind (bb_get_u32 p) (\<lambda>(build, p).
     res_bind (bb_get_u32 p) (\<lambda>(loginServerID, p).
     res_bind (bb_get_string p) (\<lambda>(account, p).
     res_bind (bb_get_u32 p) (\<lambda>(loginServerType, p).
     res_bind (bb_read_array 4 p) (\<lambda>(challenge, p).
     res_bind (bb_get_u32 p) (\<lambda>(region, p).
     res_bind (bb_get_u32 p) (\<lambda>(battlegroup, p).
     res_bind (bb_get_u32 p) (\<lambda>(realmId, p).
     res_bind (bb_get_u64 p) (\<lambda>(dos, p).
     res_bind (bb_read_array 20 p) (\<lambda>(digest, p).
     let n = bb_size p - bb_rpos p in
     if n = 0 then Inl EmptyBufferException
     else res_bind (bb_read_array n p) (\<lambda>(addon, p).
       Inr (\<lparr>as_build = build, as_login_server_id = loginServerID, as_account = account,
            as_login_server_type = loginServerType, as_local_challenge = challenge,
            as_region_id = region, as_battlegroup_id = battlegroup, as_realm_id = realmId,
            as_dos_response = dos, as_digest = digest, as_addon_info = addon\<rparr>, p))))))))))))"

definition handle_auth_session :: "byte_buffer \<Rightarrow> connection \<Rightarrow> bb_error + connection" where
  "handle_auth_session recvPacket c =
     res_bind (read_auth_session recvPacket) (\<lambda>(a, _).
       Inr (c\<lparr>c_queries := c_queries c @ [a]\<rparr>))"

text \<open>
  \<open>ReadDataHandler\<close> on the opcode of the header and the packet. The last alternative is the
  dereference of \<open>_worldSession\<close> in the log line for a repeated authentication.
\<close>

datatype data_result = DataResult read_result | NullSession

definition queue_for_session :: "auth_env \<Rightarrow> u16 \<Rightarrow> bytes \<Rightarrow> connection \<Rightarrow> data_result \<times> connection" where
  "queue_for_session env opcode payload c =
     (case c_session c of
        None \<Rightarrow> (DataResult RDH_Error, c)
      | Some s \<Rightarrow>
          if \<not> e_has_handler env opcode then (DataResult RDH_Error, c)
          else
            let s = (if opcode \<noteq> CMSG_WARDEN_DATA then reset_time_out_time env False s else s)
            in (DataResult RDH_Ok,
                c\<lparr>c_session := Some (s\<lparr>s_recv_queue := s_recv_queue s @ [(opcode, payload)]\<rparr>)\<rparr>))"

definition read_data_handler :: "auth_env \<Rightarrow> u32 \<Rightarrow> bytes \<Rightarrow> connection \<Rightarrow> data_result \<times> connection" where
  "read_data_handler env cmd payload c =
     (let packet = \<lparr>bb_rpos = 0, bb_wpos = 0, bb_storage = payload\<rparr> in
      if cmd = CMSG_PING then
        (case handle_ping env packet c of
           Inr (good, c) \<Rightarrow> (DataResult (if good then RDH_Ok else RDH_Error), c)
         | Inl _ \<Rightarrow> (DataResult RDH_Error, c))
      else if cmd = CMSG_AUTH_SESSION then
        if c_authed c then
          (case c_session c of Some _ \<Rightarrow> (DataResult RDH_Error, c) | None \<Rightarrow> (NullSession, c))
        else
          (case handle_auth_session packet c of
             Inr c \<Rightarrow> (DataResult RDH_WaitingForQuery, c)
           | Inl _ \<Rightarrow> (DataResult RDH_Error, c))
      else if cmd = CMSG_KEEP_ALIVE then
        (case c_session c of
           Some s \<Rightarrow> (DataResult RDH_Ok, c\<lparr>c_session := Some (reset_time_out_time env True s)\<rparr>)
         | None \<Rightarrow> (DataResult RDH_Error, c))
      else queue_for_session env (ucast cmd) payload c)"

section \<open>The answer of the account query\<close>

text \<open>\<open>AccountInfo(Field*)\<close> caps the expansion and the locale.\<close>

definition account_info_load :: "auth_env \<Rightarrow> account_info \<Rightarrow> account_info" where
  "account_info_load env row =
     (let a = (if ucast (ai_expansion row) > e_expansion env
               then row\<lparr>ai_expansion := ucast (e_expansion env)\<rparr> else row)
      in if ai_locale a \<ge> TOTAL_LOCALES then a\<lparr>ai_locale := 0\<rparr> else a)"

definition auth_address :: "auth_env \<Rightarrow> bytes" where
  "auth_address env = (if e_log_ips env then e_remote_ip env else str ''0.0.0.0'')"

text \<open>The digest the client must have computed.\<close>

definition expected_digest :: "auth_env \<Rightarrow> auth_session \<Rightarrow> account_info \<Rightarrow> connection \<Rightarrow> bytes" where
  "expected_digest env a account c =
     e_sha1 env (as_account a @ [0, 0, 0, 0] @ as_local_challenge a @ c_auth_seed c
       @ ai_session_key account)"

text \<open>The branches that refuse the login, each with the response code it sends.\<close>

definition refuse :: "u8 \<Rightarrow> connection \<Rightarrow> connection" where
  "refuse code c = conn_close_delayed (send_auth_response_error code c)"

definition refuse_with_hook :: "u8 \<Rightarrow> u32 \<Rightarrow> connection \<Rightarrow> connection" where
  "refuse_with_hook code accountId c =
     conn_close_delayed (conn_effect (HookFailedAccountLogin accountId)
       (send_auth_response_error code c))"

definition locate :: "auth_env \<Rightarrow> connection \<Rightarrow> connection" where
  "locate env c = (case e_country_of env (auth_address env) of
     Some country \<Rightarrow> c\<lparr>c_ip_country := country\<rparr> | None \<Rightarrow> c)"

definition lock_refuses :: "auth_env \<Rightarrow> account_info \<Rightarrow> connection \<Rightarrow> bool" where
  "lock_refuses env account c =
     (if ai_locked_to_ip account then ai_last_ip account \<noteq> auth_address env
      else if ai_lock_country account \<noteq> [] \<and> ai_lock_country account \<noteq> str ''00''
        \<and> c_ip_country c \<noteq> []
      then ai_lock_country account \<noteq> c_ip_country c
      else False)"

definition start_mute :: "auth_env \<Rightarrow> account_info \<Rightarrow> connection \<Rightarrow> account_info \<times> connection" where
  "start_mute env account c =
     (if ai_mute_time account < 0 then
        let t = e_game_time env + \<bar>ai_mute_time account\<bar>
        in (account\<lparr>ai_mute_time := t\<rparr>, conn_effect (DbMuteTimeLogin t (ai_id account)) c)
      else (account, c))"

definition world_session_new :: "auth_env \<Rightarrow> auth_session \<Rightarrow> account_info \<Rightarrow> world_session" where
  "world_session_new env a account = reset_time_out_time env False
     \<lparr>s_account_id = ai_id account, s_account_name = as_account a, s_security = ai_security account,
      s_expansion = ai_expansion account, s_mute_time = ai_mute_time account,
      s_locale = ai_locale account, s_recruiter = ai_recruiter account,
      s_is_recruiter = ai_is_recruiter account, s_skip_queue = (ai_security account \<noteq> 0),
      s_total_time = ai_total_time account, s_has_player = False, s_time_out_time = 0,
      s_latency = 0, s_recv_queue = [], s_addon_info = [], s_warden = None\<rparr>"

definition accept_login :: "auth_env \<Rightarrow> auth_session \<Rightarrow> account_info \<Rightarrow> connection \<Rightarrow> connection" where
  "accept_login env a account c =
     (let c = conn_effect (DbLastIp (auth_address env) (as_account a)) c;
          c = conn_effect (HookAccountLogin (ai_id account)) c;
          c = c\<lparr>c_authed := True\<rparr>;
          c = conn_effect (HookLastIpUpdate (ai_id account) (auth_address env)) c;
          s = world_session_new env a account;
          c = conn_effect (DbOnline (ai_id account)) c;
          s = s\<lparr>s_addon_info := as_addon_info a\<rparr>;
          s = (if e_warden env then s\<lparr>s_warden := Some (ai_session_key account, ai_os account)\<rparr> else s);
          c = conn_effect (WorldAddSession (ai_id account)) (c\<lparr>c_session := Some s\<rparr>)
      in conn_async_read c)"

definition handle_auth_session_callback ::
    "auth_env \<Rightarrow> auth_session \<Rightarrow> account_info option \<Rightarrow> connection \<Rightarrow> connection" where
  "handle_auth_session_callback env a result c =
     (case result of
        None \<Rightarrow> refuse AUTH_UNKNOWN_ACCOUNT c
      | Some row \<Rightarrow>
          let account = account_info_load env row;
              c = conn_effect (DbLastAttemptIp (auth_address env) (as_account a)) c;
              c = c\<lparr>c_crypt_key := Some (ai_session_key account)\<rparr>
          in
          if e_world_closed env then refuse AUTH_REJECT c
          else if as_realm_id a \<noteq> e_realm_id env then refuse REALM_LIST_REALM_NOT_FOUND c
          else if e_warden env \<and> ai_os account \<noteq> str ''Win'' \<and> ai_os account \<noteq> str ''OSX''
          then refuse AUTH_REJECT c
          else if expected_digest env a account c \<noteq> as_digest a then refuse AUTH_FAILED c
          else
            let c = locate env c in
            if lock_refuses env account c then refuse_with_hook AUTH_FAILED (ai_id account) c
            else
              let (account, c) = start_mute env account c in
              if ai_banned account then refuse_with_hook AUTH_BANNED (ai_id account) c
              else if e_security_limit env > SEC_PLAYER \<and> ai_security account < e_security_limit env
              then refuse_with_hook AUTH_UNAVAILABLE (ai_id account) c
              else accept_login env a account c)"

text \<open>\<open>CheckIpCallback\<close>: the first thing a connection does, given the rows of the ban query.\<close>

definition handle_send_auth_session :: "bytes \<Rightarrow> connection \<Rightarrow> connection" where
  "handle_send_auth_session randomBytes c =
     conn_send (WorldPacket 0x1EC (FU32 1 # map FU8 (c_auth_seed c @ randomBytes))) c"

definition check_ip_callback :: "bytes \<Rightarrow> u64 list option \<Rightarrow> connection \<Rightarrow> connection" where
  "check_ip_callback randomBytes result c =
     (if result \<noteq> None \<and> list_ex (\<lambda>v. v \<noteq> 0) (the result)
      then conn_close_delayed (send_auth_response_error AUTH_REJECT c)
      else handle_send_auth_session randomBytes (conn_async_read c))"

text \<open>\<open>OnClose\<close> gives up the session.\<close>

definition conn_on_close :: "connection \<Rightarrow> connection" where
  "conn_on_close c = c\<lparr>c_session := None\<rparr>"

section \<open>When a session comes into being\<close>

text \<open>All that a login must satisfy.\<close>

definition login_ok :: "auth_env \<Rightarrow> auth_session \<Rightarrow> account_info \<Rightarrow> connection \<Rightarrow> bool" where
  "login_ok env a row c \<longleftrightarrow>
     \<not> e_world_closed env \<and> as_realm_id a = e_realm_id env
     \<and> (e_warden env \<longrightarrow> ai_os row = str ''Win'' \<or> ai_os row = str ''OSX'')
     \<and> e_sha1 env (as_account a @ [0, 0, 0, 0] @ as_local_challenge a @ c_auth_seed c
         @ ai_session_key row) = as_digest a
     \<and> \<not> lock_refuses env row (locate env c)
     \<and> \<not> ai_banned row
     \<and> (e_security_limit env = SEC_PLAYER \<or> e_security_limit env \<le> ai_security row)"

lemma conn_simps [simp]:
  "c_authed (conn_effect e c) = c_authed c" "c_session (conn_effect e c) = c_session c"
  "c_authed (conn_send p c) = c_authed c" "c_session (conn_send p c) = c_session c"
  "c_authed (refuse code c) = c_authed c" "c_session (refuse code c) = c_session c"
  "c_authed (refuse_with_hook code i c) = c_authed c" "c_session (refuse_with_hook code i c) = c_session c"
  "c_authed (locate env c) = c_authed c" "c_session (locate env c) = c_session c"
  "c_closing (refuse code c)" "c_closing (refuse_with_hook code i c)"
  "c_closing (conn_effect e c) = c_closing c" "c_closing (locate env c) = c_closing c"
  "c_sent (conn_effect e c) = c_sent c" "c_sent (locate env c) = c_sent c"
  "c_read_requested (refuse code c) = c_read_requested c"
  "c_read_requested (refuse_with_hook code i c) = c_read_requested c"
  "c_read_requested (conn_effect e c) = c_read_requested c"
  "c_read_requested (locate env c) = c_read_requested c"
  "c_crypt_key (conn_effect e c) = c_crypt_key c" "c_crypt_key (locate env c) = c_crypt_key c"
  "c_auth_seed (conn_effect e c) = c_auth_seed c"
  "c_queries (conn_effect e c) = c_queries c" "c_queries (locate env c) = c_queries c"
  "c_queries (refuse code c) = c_queries c" "c_queries (refuse_with_hook code i c) = c_queries c"
  "c_queries (conn_send p c) = c_queries c"
  by (simp_all add: conn_effect_def conn_send_def refuse_def refuse_with_hook_def
      send_auth_response_error_def conn_close_delayed_def locate_def split: option.splits)

lemma account_load_simps [simp]:
  "ai_id (account_info_load env row) = ai_id row"
  "ai_session_key (account_info_load env row) = ai_session_key row"
  "ai_last_ip (account_info_load env row) = ai_last_ip row"
  "ai_locked_to_ip (account_info_load env row) = ai_locked_to_ip row"
  "ai_lock_country (account_info_load env row) = ai_lock_country row"
  "ai_os (account_info_load env row) = ai_os row"
  "ai_security (account_info_load env row) = ai_security row"
  "ai_banned (account_info_load env row) = ai_banned row"
  by (simp_all add: account_info_load_def Let_def)

lemma lock_refuses_load:
  "lock_refuses env (account_info_load env row) c = lock_refuses env row c"
  by (simp add: lock_refuses_def)

lemma locate_country:
  "c_ip_country c = c_ip_country c' \<Longrightarrow> c_ip_country (locate env c) = c_ip_country (locate env c')"
  by (simp add: locate_def split: option.splits)

lemma lock_refuses_country:
  "c_ip_country c = c_ip_country c' \<Longrightarrow> lock_refuses env a c = lock_refuses env a c'"
  by (simp add: lock_refuses_def)

lemma start_mute_simps:
  "start_mute env a c = (a', c') \<Longrightarrow>
   ai_banned a' = ai_banned a \<and> ai_security a' = ai_security a \<and> ai_id a' = ai_id a
   \<and> c_authed c' = c_authed c \<and> c_session c' = c_session c \<and> c_closing c' = c_closing c
   \<and> c_read_requested c' = c_read_requested c \<and> c_queries c' = c_queries c"
  by (auto simp: start_mute_def Let_def split: if_splits)

lemma accept_login_state:
  "c_authed (accept_login env a account c)
   \<and> (\<exists>s. c_session (accept_login env a account c) = Some s \<and> s_account_id s = ai_id account
        \<and> s_security s = ai_security account \<and> s_account_name s = as_account a \<and> s_recv_queue s = [])
   \<and> c_closing (accept_login env a account c) = c_closing c
   \<and> c_queries (accept_login env a account c) = c_queries c"
  by (simp add: accept_login_def Let_def conn_async_read_def world_session_new_def reset_time_out_time_def)

lemma security_limit_iff:
  "\<not> (e_security_limit env > SEC_PLAYER \<and> ai_security row < e_security_limit env) \<longleftrightarrow>
   e_security_limit env = SEC_PLAYER \<or> e_security_limit env \<le> ai_security row"
  by (auto simp: SEC_PLAYER_def word_gt_0 not_less)

lemma callback_cases:
  assumes "result = Some row"
  shows "if login_ok env a row c
    then \<exists>c1 account. handle_auth_session_callback env a result c = accept_login env a account c1
      \<and> ai_id account = ai_id row \<and> ai_security account = ai_security row
      \<and> c_closing c1 = c_closing c \<and> c_queries c1 = c_queries c
    else let c' = handle_auth_session_callback env a result c in
      c_closing c' \<and> c_authed c' = c_authed c \<and> c_session c' = c_session c
      \<and> c_read_requested c' = c_read_requested c \<and> c_queries c' = c_queries c"
proof -
  let ?row = "account_info_load env row"
  define c1 where "c1 = conn_effect (DbLastAttemptIp (auth_address env) (as_account a)) c
    \<lparr>c_crypt_key := Some (ai_session_key ?row)\<rparr>"
  have c1: "c_authed c1 = c_authed c" "c_session c1 = c_session c" "c_closing c1 = c_closing c"
    "c_read_requested c1 = c_read_requested c" "c_queries c1 = c_queries c"
    "c_auth_seed c1 = c_auth_seed c" "c_ip_country c1 = c_ip_country c"
    by (simp_all add: c1_def conn_effect_def)
  have lock: "lock_refuses env ?row (locate env c1) = lock_refuses env row (locate env c)"
    using lock_refuses_country [OF locate_country [OF c1(7), of env]] by (simp add: lock_refuses_load)
  have dig: "expected_digest env a ?row c1 = e_sha1 env (as_account a @ [0, 0, 0, 0]
      @ as_local_challenge a @ c_auth_seed c @ ai_session_key row)"
    by (simp add: expected_digest_def c1)
  obtain acc c2 where m: "start_mute env ?row (locate env c1) = (acc, c2)" by fastforce
  note ms = start_mute_simps [OF m]
  define k1 where "k1 \<longleftrightarrow> e_world_closed env"
  define k2 where "k2 \<longleftrightarrow> as_realm_id a \<noteq> e_realm_id env"
  define k3 where "k3 \<longleftrightarrow> e_warden env \<and> ai_os ?row \<noteq> str ''Win'' \<and> ai_os ?row \<noteq> str ''OSX''"
  define k4 where "k4 \<longleftrightarrow> expected_digest env a ?row c1 \<noteq> as_digest a"
  define k5 where "k5 \<longleftrightarrow> lock_refuses env ?row (locate env c1)"
  define k6 where "k6 \<longleftrightarrow> ai_banned acc"
  define k7 where "k7 \<longleftrightarrow> e_security_limit env > SEC_PLAYER \<and> ai_security acc < e_security_limit env"
  note ks = k1_def k2_def k3_def k4_def k5_def k6_def k7_def
  have run: "handle_auth_session_callback env a result c =
      (if k1 then refuse AUTH_REJECT c1 else if k2 then refuse REALM_LIST_REALM_NOT_FOUND c1
       else if k3 then refuse AUTH_REJECT c1 else if k4 then refuse AUTH_FAILED c1
       else if k5 then refuse_with_hook AUTH_FAILED (ai_id ?row) (locate env c1)
       else if k6 then refuse_with_hook AUTH_BANNED (ai_id acc) c2
       else if k7 then refuse_with_hook AUTH_UNAVAILABLE (ai_id acc) c2
       else accept_login env a acc c2)"
    unfolding handle_auth_session_callback_def assms option.case Let_def c1_def [symmetric]
    unfolding m prod.case ks by (rule refl)
  have "login_ok env a row c \<longleftrightarrow> \<not> k1 \<and> \<not> k2 \<and> \<not> k3 \<and> \<not> k4 \<and> \<not> k5 \<and> \<not> k6 \<and> \<not> k7"
    using security_limit_iff [of env row] ms
    unfolding login_ok_def ks lock dig by (auto simp only: account_load_simps)
  then show ?thesis
    unfolding run Let_def using ms c1
    by (cases k1; cases k2; cases k3; cases k4; cases k5; cases k6; cases k7) auto
qed

lemma bb_get_string_safe: "bb_readable b \<Longrightarrow> read_safe b (bb_get_string b)"
  by (auto simp: bb_get_string_def bb_read_cstring_def intro!: read_safe_bind read_cstring_loop_safe)

lemma bb_read_array_safe: "bb_readable b \<Longrightarrow> n < 2 ^ 62 \<Longrightarrow> read_safe b (bb_read_array n b)"
  by (auto simp: bb_read_array_def read_safe_def bb_readable_def bb_size_def)

text \<open>Reading \<open>CMSG_AUTH_SESSION\<close> raises nothing but what \<open>ReadDataHandler\<close> catches.\<close>

lemma read_auth_session_safe: "bb_readable p \<Longrightarrow> read_safe p (read_auth_session p)"
  unfolding read_auth_session_def
  by (auto intro!: read_safe_bind scalar_safe bb_get_string_safe bb_read_array_safe simp: Let_def)
    (auto simp: read_safe_def bb_readable_def)

section \<open>Reachable connections\<close>

text \<open>
  The life of a connection: a packet is handled only while a read is outstanding, a query is
  answered once, and closing gives up the session. Environments change from step to step.
\<close>

definition conn_closed :: "connection \<Rightarrow> connection" where
  "conn_closed c = conn_on_close (c\<lparr>c_closing := True\<rparr>)"

inductive conn_reachable :: "connection \<Rightarrow> bool" where
  start: "conn_reachable (check_ip_callback random rows (connection_new seed))"
| packet: "conn_reachable c \<Longrightarrow> c_read_requested c \<Longrightarrow> \<not> c_closing c
    \<Longrightarrow> read_data_handler env cmd payload c = (DataResult RDH_Ok, c') \<Longrightarrow> conn_reachable c'"
| refused: "conn_reachable c \<Longrightarrow> c_read_requested c \<Longrightarrow> \<not> c_closing c
    \<Longrightarrow> read_data_handler env cmd payload c = (DataResult RDH_Error, c')
    \<Longrightarrow> conn_reachable (conn_closed c')"
| waiting: "conn_reachable c \<Longrightarrow> c_read_requested c \<Longrightarrow> \<not> c_closing c
    \<Longrightarrow> read_data_handler env cmd payload c = (DataResult RDH_WaitingForQuery, c')
    \<Longrightarrow> conn_reachable (c'\<lparr>c_read_requested := False\<rparr>)"
| answer: "conn_reachable c \<Longrightarrow> c_queries c = a # rest \<Longrightarrow> \<not> c_closing c
    \<Longrightarrow> conn_reachable (handle_auth_session_callback env a result (c\<lparr>c_queries := rest\<rparr>))"
| peer_gone: "conn_reachable c \<Longrightarrow> conn_reachable (conn_closed c)"

definition conn_inv :: "connection \<Rightarrow> bool" where
  "conn_inv c \<longleftrightarrow>
     (c_session c \<noteq> None \<longrightarrow> c_authed c)
     \<and> (\<not> c_closing c \<and> c_authed c \<longrightarrow> c_session c \<noteq> None)
     \<and> (\<not> c_closing c \<and> c_queries c \<noteq> [] \<longrightarrow>
          length (c_queries c) = 1 \<and> \<not> c_authed c \<and> \<not> c_read_requested c)"

lemma ping_allowed_keeps:
  assumes "ping_allowed env c = (b, c')"
  shows "c_authed c' = c_authed c \<and> c_closing c' = c_closing c \<and> c_queries c' = c_queries c
    \<and> c_read_requested c' = c_read_requested c \<and> c_session c' = c_session c"
  using assms by (auto simp: ping_allowed_def Let_def split: if_splits option.splits)

lemma handle_ping_keeps:
  assumes "handle_ping env p c = Inr (b, c')"
  shows "c_authed c' = c_authed c \<and> c_closing c' = c_closing c \<and> c_queries c' = c_queries c
    \<and> c_read_requested c' = c_read_requested c \<and> (c_session c' = None \<longleftrightarrow> c_session c = None)"
proof -
  obtain x p1 y p2 where r: "bb_get_u32 p = Inr (x, p1)" "bb_get_u32 p1 = Inr (y, p2)"
    using assms by (auto simp: handle_ping_def res_bind_Inr_iff)
  obtain a c1 where a: "ping_allowed env c = (a, c1)" by fastforce
  show ?thesis using assms ping_allowed_keeps [OF a]
    by (auto simp: handle_ping_def r a conn_send_def split: if_splits option.splits)
qed

lemma read_data_handler_ok:
  assumes "read_data_handler env cmd payload c = (DataResult r, c')"
  shows "c_authed c' = c_authed c \<and> c_closing c' = c_closing c
    \<and> (r = RDH_WaitingForQuery \<longrightarrow> \<not> c_authed c \<and> c_session c' = c_session c
        \<and> (\<exists>a. c_queries c' = c_queries c @ [a]))
    \<and> (r \<noteq> RDH_WaitingForQuery \<longrightarrow> c_queries c' = c_queries c \<and> c_read_requested c' = c_read_requested c
        \<and> (c_session c' = None \<longleftrightarrow> c_session c = None))"
proof -
  note hp = handle_ping_keeps
  show ?thesis
    using assms
    by (auto simp: read_data_handler_def handle_auth_session_def queue_for_session_def Let_def
        res_bind_Inr_iff split: if_splits sum.splits option.splits prod.splits dest!: hp)
qed

lemma conn_inv_reachable: "conn_reachable c \<Longrightarrow> conn_inv c"
proof (induction rule: conn_reachable.induct)
  case (start random rows seed)
  then show ?case
    by (simp add: conn_inv_def check_ip_callback_def conn_close_delayed_def send_auth_response_error_def
        handle_send_auth_session_def conn_async_read_def connection_new_def)
next
  case (packet c env cmd payload c')
  then show ?case using read_data_handler_ok [of env cmd payload c RDH_Ok c']
    by (auto simp: conn_inv_def)
next
  case (refused c env cmd payload c')
  then show ?case using read_data_handler_ok [of env cmd payload c RDH_Error c']
    by (auto simp: conn_inv_def conn_closed_def conn_on_close_def)
next
  case (waiting c env cmd payload c')
  then show ?case using read_data_handler_ok [of env cmd payload c RDH_WaitingForQuery c']
    by (auto simp: conn_inv_def)
next
  case (answer c a rest env result)
  let ?c = "c\<lparr>c_queries := rest\<rparr>"
  have r: "rest = []" "\<not> c_authed c" "c_session c = None"
    using answer by (auto simp: conn_inv_def)
  show ?case
  proof (cases result)
    case None
    then show ?thesis using r
      by (simp add: conn_inv_def handle_auth_session_callback_def)
  next
    case (Some row)
    show ?thesis
    proof (cases "login_ok env a row ?c")
      case True
      then obtain c1 acc where "handle_auth_session_callback env a result ?c = accept_login env a acc c1"
        "c_queries c1 = []"
        using callback_cases [OF Some, of env a ?c] r(1) by auto
      then show ?thesis using accept_login_state [of env a acc c1] by (auto simp: conn_inv_def)
    next
      case False
      then show ?thesis using callback_cases [OF Some, of env a ?c] r
        by (simp add: conn_inv_def Let_def)
    qed
  qed
next
  case (peer_gone c)
  then show ?case by (auto simp: conn_inv_def conn_closed_def conn_on_close_def)
qed

section \<open>The properties of the login\<close>


definition example_env :: auth_env where
  "example_env = \<lparr>e_now = 1, e_max_overspeed_pings = 2, e_socket_timeout = 900000,
     e_socket_timeout_active = 60000, e_world_closed = False, e_realm_id = 1, e_warden = False,
     e_expansion = 2, e_security_limit = 0, e_log_ips = True, e_remote_ip = [49],
     e_country_of = (\<lambda>_. None), e_game_time = 0, e_sha1 = rev, e_has_handler = (\<lambda>_. True)\<rparr>"

definition example_account :: account_info where
  "example_account = \<lparr>ai_id = 5, ai_session_key = [3], ai_last_ip = [49], ai_locked_to_ip = True,
     ai_lock_country = [], ai_expansion = 2, ai_mute_time = 0, ai_locale = 0, ai_recruiter = 0,
     ai_os = [], ai_total_time = 0, ai_security = 0, ai_banned = False, ai_is_recruiter = False\<rparr>"

definition example_auth :: auth_session where
  "example_auth = \<lparr>as_build = 12340, as_login_server_id = 0, as_account = [65],
     as_login_server_type = 0, as_local_challenge = [1, 2], as_region_id = 0,
     as_battlegroup_id = 0, as_realm_id = 1, as_dos_response = 0,
     as_digest = [3, 9, 2, 1, 0, 0, 0, 0, 65], as_addon_info = [0]\<rparr>"




text \<open>
  Claim C30: before login a client can do nothing but ask for one: every packet other than a
  well-formed \<open>CMSG_AUTH_SESSION\<close> is refused, which closes the connection, and no packet
  whatever creates a session or reaches one.
\<close>

theorem before_login_only_auth:
  assumes "\<not> c_authed c" "c_session c = None"
  shows "fst (read_data_handler env cmd payload c) =
      (if cmd = CMSG_AUTH_SESSION
          \<and> \<not> isl (read_auth_session \<lparr>bb_rpos = 0, bb_wpos = 0, bb_storage = payload\<rparr>)
       then DataResult RDH_WaitingForQuery else DataResult RDH_Error)
    \<and> c_session (snd (read_data_handler env cmd payload c)) = None
    \<and> \<not> c_authed (snd (read_data_handler env cmd payload c))"
proof -
  obtain a c1 where p: "ping_allowed env c = (a, c1)" by fastforce
  note keep = ping_allowed_keeps [OF p]
  have "(\<exists>e. handle_ping env b c = Inl e) \<or> (\<exists>c2. handle_ping env b c = Inr (False, c2)
      \<and> c_session c2 = None \<and> \<not> c_authed c2)" for b
    using assms keep by (auto simp: handle_ping_def p res_bind_def split: sum.splits)
  note ping = this [of "\<lparr>bb_rpos = 0, bb_wpos = 0, bb_storage = payload\<rparr>"]
  show ?thesis
  proof (cases "cmd = CMSG_PING")
    case True
    with ping assms show ?thesis by (auto simp: read_data_handler_def CMSG_PING_def CMSG_AUTH_SESSION_def)
  next
    case False
    then show ?thesis using assms
      by (auto simp: read_data_handler_def queue_for_session_def handle_auth_session_def Let_def
          res_bind_def isl_def split: sum.splits)
  qed
qed

theorem before_login_only_auth_witness:
  "fst (read_data_handler example_env 0x37 [1, 2] (connection_new [9])) = DataResult RDH_Error"
proof -
  have "\<not> c_authed (connection_new [9])" "c_session (connection_new [9]) = None"
    by (simp_all add: connection_new_def)
  from before_login_only_auth [OF this, of example_env "0x37" "[1, 2]"] show ?thesis
    by (simp add: CMSG_AUTH_SESSION_def)
qed

section \<open>Pinging too fast\<close>

text \<open>The number of intervals below 27 seconds since the last longer one, newest time first.\<close>

fun short_run :: "nat list \<Rightarrow> nat" where
  "short_run (t # t' # ts) = (if int t - int t' < int seconds_27 then Suc (short_run (t' # ts)) else 0)"
| "short_run _ = 0"

text \<open>The connection after pings at the given times, newest first.\<close>

primrec pings :: "auth_env \<Rightarrow> nat list \<Rightarrow> connection \<Rightarrow> connection" where
  "pings env [] c = c"
| "pings env (t # ts) c = snd (ping_allowed (env\<lparr>e_now := t\<rparr>) (pings env ts c))"

lemma short_run_less: "ts \<noteq> [] \<Longrightarrow> short_run ts < length ts"
  by (induction ts rule: short_run.induct) auto

lemma ping_allowed_state:
  "c_last_ping (snd (ping_allowed env c)) = e_now env
   \<and> c_overspeed_pings (snd (ping_allowed env c)) =
     (if c_last_ping c = 0 then c_overspeed_pings c
      else if int (e_now env) - int (c_last_ping c) < int seconds_27 then c_overspeed_pings c + 1 else 0)
   \<and> c_session (snd (ping_allowed env c)) = c_session c"
  by (simp add: ping_allowed_def Let_def split: option.splits)

lemma pings_state:
  assumes "list_all (\<lambda>t. t \<noteq> 0) ts" "c_last_ping c = 0" "c_overspeed_pings c = 0"
  shows "c_last_ping (pings env ts c) = (case ts of [] \<Rightarrow> 0 | t # _ \<Rightarrow> t)
    \<and> c_overspeed_pings (pings env ts c) = word_of_nat (short_run ts)
    \<and> c_session (pings env ts c) = c_session c"
  using assms(1)
proof (induction ts)
  case (Cons t ts)
  then show ?case using assms ping_allowed_state [of "env\<lparr>e_now := t\<rparr>" "pings env ts c"]
    by (cases ts) auto
qed (use assms in simp)

text \<open>
  Claim C31: a player's ping is refused, and the connection closed, exactly when the server has
  a limit and the pings up to this one contain more than that many intervals below 27 seconds
  in a row; an interval of 27 seconds or more starts the count anew.
\<close>

theorem overspeed_pings:
  assumes "list_all (\<lambda>t. t \<noteq> 0) (t # ts)" "c_last_ping c = 0" "c_overspeed_pings c = 0"
    and "c_session c = Some s" "is_player_account (s_security s)" "length ts < 2 ^ 32"
  shows "fst (ping_allowed (env\<lparr>e_now := t\<rparr>) (pings env ts c)) \<longleftrightarrow>
    e_max_overspeed_pings env = 0 \<or> short_run (t # ts) \<le> unat (e_max_overspeed_pings env)"
proof -
  have st: "c_last_ping (pings env ts c) = (case ts of [] \<Rightarrow> 0 | t # _ \<Rightarrow> t)"
    "c_overspeed_pings (pings env ts c) = word_of_nat (short_run ts)" "c_session (pings env ts c) = Some s"
    using pings_state [of ts c env] assms by auto
  show ?thesis
  proof (cases ts)
    case Nil
    then show ?thesis using st by (simp add: ping_allowed_def)
  next
    case (Cons t' ts')
    have le: "Suc (short_run ts) < 2 ^ LENGTH(32)"
      using short_run_less [of ts] assms(6) Cons by simp
    then have "unat (word_of_nat (short_run ts) + 1 :: u32) = Suc (short_run ts)"
      using le by (simp only: of_nat_Suc [symmetric] add.commute [of _ 1] unat_of_nat mod_less)
    then show ?thesis using st assms Cons
      by (auto simp: ping_allowed_def Let_def word_less_nat_alt not_less)
  qed
qed

theorem overspeed_pings_witness:
  "\<not> fst (ping_allowed (example_env\<lparr>e_now := 4\<rparr>) (pings example_env [3, 2, 1]
      (accept_login example_env example_auth example_account (connection_new [9]))))"
proof -
  let ?c = "accept_login example_env example_auth example_account (connection_new [9])"
  obtain s where s: "c_session ?c = Some s" "s_security s = 0"
    using accept_login_state [of example_env example_auth example_account "connection_new [9]"]
    by (auto simp: example_account_def)
  have "c_last_ping ?c = 0" "c_overspeed_pings ?c = 0"
    by (simp_all add: accept_login_def conn_effect_def conn_async_read_def connection_new_def Let_def)
  from overspeed_pings [OF _ this s(1), of 4 "[3, 2, 1]" example_env] s(2) show ?thesis
    by (simp add: is_player_account_def SEC_PLAYER_def example_env_def seconds_27_def)
qed

text \<open>
  The address the IP lock is compared with is the one that may be logged: if the server is
  configured not to store addresses, both it and the stored last address are "0.0.0.0", and
  an account locked to its address can log in from anywhere.
\<close>

lemma ip_lock_void_without_logging:
  "\<not> e_log_ips env \<Longrightarrow> ai_locked_to_ip account \<Longrightarrow> ai_last_ip account = str ''0.0.0.0''
   \<Longrightarrow> \<not> lock_refuses env account c"
  by (simp add: lock_refuses_def auth_address_def)

end
