(* ===== verification/EventMap.thy ===== *)
theory EventMap
  imports Prelude
begin

text \<open>
  \<open>EventMap\<close> of src/common/Utilities: the timer wheel of the creature scripts, a multimap from
  due time to event data (\<open>0xPPGGEEEE\<close>: phase mask, group mask, event id) with a stopwatch and
  a mask of active phases. All times are 32-bit and wrap. The multimap is the sorted
  association list of the prelude. The lemmas show that it stays sorted, which event
  \<open>ExecuteEvent\<close> returns and which it drops, what cancelling, delaying and rescheduling change,
  and that the loop of \<open>DelayEventsToMax\<close>, which starts over after every change, ends.
\<close>

section \<open>State\<close>

type_synonym event_store = "(u32 \<times> u32) list"

record event_map =
  em_time :: u32
  em_phase :: u32
  em_last_event :: u32
  em_events :: event_store

definition em_new :: event_map where
  "em_new = \<lparr>em_time = 0, em_phase = 0, em_last_event = 0, em_events = []\<rparr>"

definition em_reset :: "event_map \<Rightarrow> event_map" where
  "em_reset m = m\<lparr>em_events := [], em_time := 0, em_phase := 0\<rparr>"

definition em_update :: "u32 \<Rightarrow> event_map \<Rightarrow> event_map" where
  "em_update t m = m\<lparr>em_time := em_time m + t\<rparr>"

text \<open>The overload on milliseconds, a 64-bit signed count.\<close>

definition em_update_ms :: "int \<Rightarrow> event_map \<Rightarrow> event_map" where
  "em_update_ms t m = m\<lparr>em_time := em_time m + word_of_int t\<rparr>"

definition em_get_timer :: "event_map \<Rightarrow> u32" where
  "em_get_timer m = em_time m"

definition em_set_timer :: "u32 \<Rightarrow> event_map \<Rightarrow> event_map" where
  "em_set_timer t m = m\<lparr>em_time := t\<rparr>"

definition em_get_phase_mask :: "event_map \<Rightarrow> u8" where
  "em_get_phase_mask m = ucast (em_phase m)"

definition em_empty :: "event_map \<Rightarrow> bool" where
  "em_empty m \<longleftrightarrow> em_events m = []"

section \<open>Phases\<close>

definition em_set_phase :: "u8 \<Rightarrow> event_map \<Rightarrow> event_map" where
  "em_set_phase phase m =
     (if phase = 0 then m\<lparr>em_phase := 0\<rparr>
      else if phase \<le> 8 then m\<lparr>em_phase := push_bit (unat phase - 1) 1\<rparr>
      else m)"

definition em_add_phase :: "u8 \<Rightarrow> event_map \<Rightarrow> event_map" where
  "em_add_phase phase m =
     (if phase \<noteq> 0 \<and> phase \<le> 8
      then m\<lparr>em_phase := em_phase m OR push_bit (unat phase - 1) 1\<rparr> else m)"

definition em_remove_phase :: "u8 \<Rightarrow> event_map \<Rightarrow> event_map" where
  "em_remove_phase phase m =
     (if phase \<noteq> 0 \<and> phase \<le> 8
      then m\<lparr>em_phase := em_phase m AND NOT (push_bit (unat phase - 1) 1)\<rparr> else m)"

definition em_is_in_phase :: "u8 \<Rightarrow> event_map \<Rightarrow> bool" where
  "em_is_in_phase phase m \<longleftrightarrow>
     phase \<le> 8 \<and> (phase = 0 \<or> em_phase m AND push_bit (unat phase - 1) 1 \<noteq> 0)"

section \<open>Scheduling\<close>

definition em_emplace :: "u32 \<Rightarrow> u32 \<Rightarrow> event_map \<Rightarrow> event_map" where
  "em_emplace k v m = m\<lparr>em_events := mm_insert k v (em_events m)\<rparr>"

definition em_event_data :: "u32 \<Rightarrow> u32 \<Rightarrow> u32 \<Rightarrow> u32" where
  "em_event_data eventId grp phase =
     (let eventId = (if grp \<noteq> 0 \<and> grp \<le> 8 then eventId OR push_bit (unat grp + 15) 1 else eventId)
      in if phase \<noteq> 0 \<and> phase \<le> 8 then eventId OR push_bit (unat phase + 23) 1 else eventId)"

definition em_schedule :: "u32 \<Rightarrow> u32 \<Rightarrow> u32 \<Rightarrow> u32 \<Rightarrow> event_map \<Rightarrow> event_map" where
  "em_schedule eventId time grp phase m =
     em_emplace (em_time m + time) (em_event_data eventId grp phase) m"

definition em_schedule_ms :: "u32 \<Rightarrow> int \<Rightarrow> u32 \<Rightarrow> u8 \<Rightarrow> event_map \<Rightarrow> event_map" where
  "em_schedule_ms eventId time grp phase m =
     em_schedule eventId (word_of_int time) grp (ucast phase) m"

text \<open>With a random time: \<open>randtime\<close> is an argument, called on the two bounds.\<close>

definition em_schedule_random :: "(int \<Rightarrow> int \<Rightarrow> int) \<Rightarrow> u32 \<Rightarrow> int \<Rightarrow> int \<Rightarrow> u32 \<Rightarrow> u32
    \<Rightarrow> event_map \<Rightarrow> event_map" where
  "em_schedule_random randtime eventId minTime maxTime grp phase m =
     em_schedule eventId (word_of_int (randtime minTime maxTime)) grp phase m"

section \<open>Cancelling\<close>

definition event_id :: "u32 \<Rightarrow> u32" where
  "event_id v = v AND 0x0000FFFF"

text \<open>The loop that erases behind an iterator: what is kept so far, what is to come.\<close>

fun erase_loop :: "(u32 \<times> u32 \<Rightarrow> bool) \<Rightarrow> event_store \<Rightarrow> event_store \<Rightarrow> event_store" where
  "erase_loop P before [] = before"
| "erase_loop P before (e # rest) =
     (if P e then erase_loop P before rest else erase_loop P (before @ [e]) rest)"

text \<open>The loop that starts over after each erasure.\<close>

function erase_restart :: "(u32 \<times> u32 \<Rightarrow> bool) \<Rightarrow> event_store \<Rightarrow> event_store \<Rightarrow> event_store" where
  "erase_restart P before [] = before"
| "erase_restart P before (e # rest) =
     (if P e then erase_restart P [] (before @ rest) else erase_restart P (before @ [e]) rest)"
  by pat_completeness auto
termination
  by (relation "measures [\<lambda>(P, before, rest). length before + length rest, \<lambda>(P, before, rest). length rest]")
    auto

definition em_cancel_event :: "u32 \<Rightarrow> event_map \<Rightarrow> event_map" where
  "em_cancel_event eventId m =
     (if em_empty m then m
      else m\<lparr>em_events := erase_loop (\<lambda>e. eventId = event_id (snd e)) [] (em_events m)\<rparr>)"

definition em_cancel_group :: "u32 \<Rightarrow> event_map \<Rightarrow> event_map" where
  "em_cancel_group grp m =
     (if grp = 0 \<or> grp > 8 \<or> em_empty m then m
      else
        let groupMask = push_bit (unat grp + 15) 1
        in m\<lparr>em_events := erase_restart (\<lambda>e. snd e AND groupMask \<noteq> 0) [] (em_events m)\<rparr>)"

definition em_reschedule :: "u32 \<Rightarrow> u32 \<Rightarrow> u32 \<Rightarrow> u32 \<Rightarrow> event_map \<Rightarrow> event_map" where
  "em_reschedule eventId time grp phase m =
     em_schedule eventId time grp phase (em_cancel_event eventId m)"

definition em_reschedule_ms :: "u32 \<Rightarrow> int \<Rightarrow> u32 \<Rightarrow> u8 \<Rightarrow> event_map \<Rightarrow> event_map" where
  "em_reschedule_ms eventId time grp phase m =
     em_schedule eventId (word_of_int time) grp (ucast phase) (em_cancel_event eventId m)"

definition em_reschedule_random :: "(int \<Rightarrow> int \<Rightarrow> int) \<Rightarrow> u32 \<Rightarrow> int \<Rightarrow> int \<Rightarrow> u32 \<Rightarrow> u32
    \<Rightarrow> event_map \<Rightarrow> event_map" where
  "em_reschedule_random randtime eventId minTime maxTime grp phase m =
     em_schedule eventId (word_of_int (randtime minTime maxTime)) grp phase (em_cancel_event eventId m)"

section \<open>Executing and repeating\<close>

definition em_repeat_event :: "u32 \<Rightarrow> event_map \<Rightarrow> event_map" where
  "em_repeat_event time m = em_emplace (em_time m + time) (em_last_event m) m"

definition em_repeat :: "int \<Rightarrow> event_map \<Rightarrow> event_map" where
  "em_repeat time m = em_repeat_event (word_of_int time) m"

definition em_repeat_random :: "(int \<Rightarrow> int \<Rightarrow> int) \<Rightarrow> int \<Rightarrow> int \<Rightarrow> event_map \<Rightarrow> event_map" where
  "em_repeat_random randtime minTime maxTime m =
     em_repeat_event (word_of_int (randtime minTime maxTime)) m"

text \<open>The event is bound to phases, none of which is active.\<close>

definition out_of_phase :: "u32 \<Rightarrow> u32 \<Rightarrow> bool" where
  "out_of_phase active v \<longleftrightarrow>
     active \<noteq> 0 \<and> v AND 0xFF000000 \<noteq> 0 \<and> drop_bit 24 v AND active = 0"

fun execute_loop :: "event_store \<Rightarrow> event_map \<Rightarrow> u32 \<times> event_map" where
  "execute_loop [] m = (0, m\<lparr>em_events := []\<rparr>)"
| "execute_loop ((k, v) # rest) m =
     (if k > em_time m then (0, m\<lparr>em_events := (k, v) # rest\<rparr>)
      else if out_of_phase (em_phase m) v then execute_loop rest m
      else (event_id v, m\<lparr>em_last_event := v, em_events := rest\<rparr>))"

definition em_execute_event :: "event_map \<Rightarrow> u32 \<times> event_map" where
  "em_execute_event m = execute_loop (em_events m) m"

section \<open>Delaying\<close>

definition em_delay_all :: "u32 \<Rightarrow> event_map \<Rightarrow> event_map" where
  "em_delay_all delay m =
     m\<lparr>em_time := (if delay < em_time m then em_time m - delay else 0)\<rparr>"

definition em_delay_all_ms :: "int \<Rightarrow> event_map \<Rightarrow> event_map" where
  "em_delay_all_ms delay m = em_delay_all (word_of_int delay) m"

definition in_group :: "u32 \<Rightarrow> u32 \<Rightarrow> bool" where
  "in_group grp v \<longleftrightarrow> grp = 0 \<or> v AND push_bit (unat grp + 15) 1 \<noteq> 0"

text \<open>The events of the group leave the map for a second one with later times.\<close>

fun delay_loop :: "u32 \<Rightarrow> u32 \<Rightarrow> event_store \<Rightarrow> event_store \<Rightarrow> event_store \<Rightarrow> event_store \<times> event_store"
where
  "delay_loop delay grp before delayed [] = (before, delayed)"
| "delay_loop delay grp before delayed ((k, v) # rest) =
     (if in_group grp v then delay_loop delay grp before (mm_insert (k + delay) v delayed) rest
      else delay_loop delay grp (before @ [(k, v)]) delayed rest)"

definition em_delay_events :: "u32 \<Rightarrow> u32 \<Rightarrow> event_map \<Rightarrow> event_map" where
  "em_delay_events delay grp m =
     (if grp > 8 \<or> em_empty m then m
      else
        let (kept, delayed) = delay_loop delay grp [] [] (em_events m)
        in m\<lparr>em_events := fold (\<lambda>(k, v). mm_insert k v) delayed kept\<rparr>)"

text \<open>
  The loop of \<open>DelayEventsToMax\<close>: the first event due before the new time is scheduled there
  and erased, and the search starts over. The inserted element goes behind the erased one, so
  the order of the two steps makes no difference. A group above 16 shifts out of the type,
  which is undefined (\<open>None\<close>).
\<close>

definition to_max_hit :: "u32 \<Rightarrow> u32 \<Rightarrow> u32 \<times> u32 \<Rightarrow> bool" where
  "to_max_hit limit grp e \<longleftrightarrow> fst e < limit \<and> in_group grp (snd e)"

lemma filter_mm_insert_miss:
  "\<not> P (k, v) \<Longrightarrow> length (filter P (mm_insert k v xs)) = length (filter P xs)"
  by (induction k v xs rule: mm_insert.induct) auto

function to_max_loop :: "u32 \<Rightarrow> u32 \<Rightarrow> event_store \<Rightarrow> event_store \<Rightarrow> event_store" where
  "to_max_loop limit grp before [] = before"
| "to_max_loop limit grp before (e # rest) =
     (if to_max_hit limit grp e
      then to_max_loop limit grp [] (mm_insert limit (snd e) (before @ rest))
      else to_max_loop limit grp (before @ [e]) rest)"
  by pat_completeness auto
termination
  by (relation "measures [\<lambda>(limit, grp, before, rest).
        length (filter (to_max_hit limit grp) (before @ rest)),
      \<lambda>(limit, grp, before, rest). length rest]")
    (auto simp: filter_mm_insert_miss to_max_hit_def)

definition em_delay_to_max :: "u32 \<Rightarrow> u32 \<Rightarrow> event_map \<Rightarrow> event_map option" where
  "em_delay_to_max delay grp m =
     (if grp > 16 \<and> list_ex (\<lambda>e. fst e < em_time m + delay) (em_events m) then None
      else Some (m\<lparr>em_events := to_max_loop (em_time m + delay) grp [] (em_events m)\<rparr>))"

section \<open>Looking\<close>

definition em_next_time_of :: "u32 \<Rightarrow> event_map \<Rightarrow> u32" where
  "em_next_time_of eventId m =
     (if em_empty m then 0
      else case find (\<lambda>e. eventId = event_id (snd e)) (em_events m) of
        Some e \<Rightarrow> fst e | None \<Rightarrow> 0)"

definition em_next_time :: "event_map \<Rightarrow> u32" where
  "em_next_time m = (if em_empty m then 0 else fst (hd (em_events m)))"

definition milliseconds_max :: int where
  "milliseconds_max = 2 ^ 63 - 1"

definition em_time_until :: "u32 \<Rightarrow> event_map \<Rightarrow> int" where
  "em_time_until eventId m =
     (case find (\<lambda>e. eventId = event_id (snd e)) (em_events m) of
        Some e \<Rightarrow> uint (fst e) - uint (em_time m) | None \<Rightarrow> milliseconds_max)"

section \<open>Lemmas on the loops\<close>

lemma erase_loop_eq: "erase_loop P before xs = before @ filter (\<lambda>e. \<not> P e) xs"
  by (induction P before xs rule: erase_loop.induct) auto

text \<open>Starting over is a waste but no difference, as long as what was passed stays.\<close>

lemma erase_restart_eq:
  "filter P before = [] \<Longrightarrow> erase_restart P before xs = before @ filter (\<lambda>e. \<not> P e) xs"
proof (induction P before xs rule: erase_restart.induct)
  case (2 P before e rest)
  have keep: "filter (\<lambda>e. \<not> P e) before = before"
    using 2(3) by (simp add: filter_empty_conv filter_id_conv)
  show ?case
  proof (cases "P e")
    case True
    then show ?thesis using 2(1) keep by simp
  next
    case False
    then show ?thesis using 2(2,3) by simp
  qed
qed simp

lemma execute_loop_eq:
  "execute_loop xs m =
     (case dropWhile (\<lambda>(k, v). k \<le> em_time m \<and> out_of_phase (em_phase m) v) xs of
        [] \<Rightarrow> (0, m\<lparr>em_events := []\<rparr>)
      | (k, v) # rest \<Rightarrow>
          if k > em_time m then (0, m\<lparr>em_events := (k, v) # rest\<rparr>)
          else (event_id v, m\<lparr>em_last_event := v, em_events := rest\<rparr>))"
  by (induction xs m rule: execute_loop.induct) (auto simp: not_less)

lemma delay_loop_mset:
  "delay_loop d g before delayed xs = (kept, del) \<Longrightarrow>
   mset kept + mset del = mset before + mset delayed
     + image_mset (\<lambda>(k, v). if in_group g v then (k + d, v) else (k, v)) (mset xs)"
  by (induction d g before delayed xs arbitrary: kept del rule: delay_loop.induct) (auto split: if_splits)

lemma delay_loop_sorted:
  "delay_loop d g before delayed xs = (kept, del) \<Longrightarrow> mm_sorted (before @ xs) \<Longrightarrow> mm_sorted delayed
   \<Longrightarrow> mm_sorted kept \<and> mm_sorted del"
proof (induction d g before delayed xs arbitrary: kept del rule: delay_loop.induct)
  case (2 d g before delayed k v rest)
  have "mm_sorted (before @ rest)" using 2(4) by (auto simp: sorted_append)
  then show ?case using 2 mm_insert_sorted [of delayed "k + d" v]
    by (cases "in_group g v") auto
qed auto

lemma fold_mm_insert_mset: "mset (fold (\<lambda>(k, v). mm_insert k v) ys xs) = mset xs + mset ys"
  by (induction ys arbitrary: xs) auto

lemma fold_mm_insert_sorted: "mm_sorted xs \<Longrightarrow> mm_sorted (fold (\<lambda>(k, v). mm_insert k v) ys xs)"
  by (induction ys arbitrary: xs) (auto simp: mm_insert_sorted)

lemma to_max_loop_mset:
  "filter (to_max_hit l g) before = [] \<Longrightarrow>
   mset (to_max_loop l g before xs) = mset before
     + image_mset (\<lambda>e. if to_max_hit l g e then (l, snd e) else e) (mset xs)"
proof (induction l g before xs rule: to_max_loop.induct)
  case (2 l g before e rest)
  show ?case
  proof (cases "to_max_hit l g e")
    case True
    have b: "image_mset (\<lambda>e. if to_max_hit l g e then (l, snd e) else e) (mset before) = mset before"
      using 2(3) by (intro image_mset_cong [where g = id, simplified]) (auto simp: filter_empty_conv)
    have "\<not> to_max_hit l g (l, snd e)" by (simp add: to_max_hit_def)
    then show ?thesis using True 2(1) [OF True] b by simp
  next
    case False
    then show ?thesis using 2(2,3) by simp
  qed
qed simp

lemma to_max_loop_sorted:
  "mm_sorted (before @ xs) \<Longrightarrow> mm_sorted (to_max_loop l g before xs)"
proof (induction l g before xs rule: to_max_loop.induct)
  case (2 l g before e rest)
  have "mm_sorted (before @ rest)" using 2(3) by (auto simp: sorted_append)
  then show ?case using 2 mm_insert_sorted [of "before @ rest" l "snd e"]
    by (cases "to_max_hit l g e") auto
qed auto

section \<open>The store stays sorted\<close>

definition em_ok :: "event_map \<Rightarrow> bool" where
  "em_ok m \<longleftrightarrow> mm_sorted (em_events m)"

lemma em_ok_filter: "mm_sorted xs \<Longrightarrow> mm_sorted (filter P xs)"
  by (induction xs) (auto simp: sorted_wrt_filter)

lemma em_ok_emplace [inv_intros]: "em_ok m \<Longrightarrow> em_ok (em_emplace k v m)"
  by (simp add: em_ok_def em_emplace_def mm_insert_sorted)

lemma em_ok_phase [simp]:
  "em_ok (em_set_phase p m) = em_ok m" "em_ok (em_add_phase p m) = em_ok m"
  "em_ok (em_remove_phase p m) = em_ok m" "em_ok (em_update t m) = em_ok m"
  "em_ok (em_set_timer t m) = em_ok m" "em_ok (em_delay_all t m) = em_ok m"
  by (simp_all add: em_ok_def em_set_phase_def em_add_phase_def em_remove_phase_def em_update_def
      em_set_timer_def em_delay_all_def)

lemma em_ok_cancel [inv_intros]: "em_ok m \<Longrightarrow> em_ok (em_cancel_event i m)"
  by (simp add: em_ok_def em_cancel_event_def erase_loop_eq em_ok_filter)

lemma em_ok_cancel_group [inv_intros]: "em_ok m \<Longrightarrow> em_ok (em_cancel_group g m)"
  by (simp add: em_ok_def em_cancel_group_def erase_restart_eq em_ok_filter Let_def)

lemma mm_sorted_dropWhile: "mm_sorted xs \<Longrightarrow> mm_sorted (dropWhile Q xs)"
  by (induction xs) auto

lemma em_ok_execute [inv_intros]: "em_ok m \<Longrightarrow> em_ok (snd (em_execute_event m))"
  using mm_sorted_dropWhile [of "em_events m"
      "\<lambda>(k, v). k \<le> em_time m \<and> out_of_phase (em_phase m) v"]
  by (auto simp: em_ok_def em_execute_event_def execute_loop_eq split: list.splits) force

lemma em_ok_delay_events [inv_intros]: "em_ok m \<Longrightarrow> em_ok (em_delay_events d g m)"
  using delay_loop_sorted [of d g "[]" "[]" "em_events m"]
  by (auto simp: em_ok_def em_delay_events_def Let_def fold_mm_insert_sorted split: prod.splits)

lemma em_ok_to_max [inv_intros]: "em_ok m \<Longrightarrow> em_delay_to_max d g m = Some m' \<Longrightarrow> em_ok m'"
  by (auto simp: em_ok_def em_delay_to_max_def to_max_loop_sorted split: if_splits)

text \<open>The calls a script can make.\<close>

inductive em_reachable :: "event_map \<Rightarrow> bool" where
  new: "em_reachable em_new"
| reset: "em_reachable m \<Longrightarrow> em_reachable (em_reset m)"
| update: "em_reachable m \<Longrightarrow> em_reachable (em_update t m)"
| timer: "em_reachable m \<Longrightarrow> em_reachable (em_set_timer t m)"
| set_phase: "em_reachable m \<Longrightarrow> em_reachable (em_set_phase p m)"
| add_phase: "em_reachable m \<Longrightarrow> em_reachable (em_add_phase p m)"
| remove_phase: "em_reachable m \<Longrightarrow> em_reachable (em_remove_phase p m)"
| schedule: "em_reachable m \<Longrightarrow> em_reachable (em_schedule i t g p m)"
| reschedule: "em_reachable m \<Longrightarrow> em_reachable (em_reschedule i t g p m)"
| repeat_event: "em_reachable m \<Longrightarrow> em_reachable (em_repeat_event t m)"
| execute: "em_reachable m \<Longrightarrow> em_reachable (snd (em_execute_event m))"
| delay_all: "em_reachable m \<Longrightarrow> em_reachable (em_delay_all t m)"
| delay: "em_reachable m \<Longrightarrow> em_reachable (em_delay_events t g m)"
| to_max: "em_reachable m \<Longrightarrow> em_delay_to_max t g m = Some m' \<Longrightarrow> em_reachable m'"
| cancel: "em_reachable m \<Longrightarrow> em_reachable (em_cancel_event i m)"
| cancel_group: "em_reachable m \<Longrightarrow> em_reachable (em_cancel_group g m)"

lemma em_reachable_ok: "em_reachable m \<Longrightarrow> em_ok m"
proof (induction rule: em_reachable.induct)
  case (schedule m i t g p)
  then show ?case by (simp add: em_schedule_def em_ok_emplace)
next
  case (reschedule m i t g p)
  then show ?case by (simp add: em_reschedule_def em_schedule_def em_ok_emplace em_ok_cancel)
next
  case (repeat_event m t)
  then show ?case by (simp add: em_repeat_event_def em_ok_emplace)
qed (auto intro: inv_intros simp: em_new_def em_reset_def, simp_all add: em_ok_def)

text \<open>The group and phase bits lie above the event's id.\<close>

lemma event_id_high: "16 \<le> n \<Longrightarrow> event_id (v OR push_bit n 1) = event_id v"
proof -
  assume n: "16 \<le> n"
  have m: "(0xFFFF :: u32) = mask 16" by (simp add: mask_eq_exp_minus_1)
  have "(v OR push_bit n 1) AND mask 16 = v AND mask 16"
    using n by (intro bit_word_eqI)
      (auto simp: bit_or_iff bit_and_iff bit_mask_iff bit_push_bit_iff bit_1_iff simp del: push_bit_of_1)
  then show ?thesis by (simp only: event_id_def m)
qed

lemma event_id_small: "i \<le> 0xFFFF \<Longrightarrow> event_id i = i"
proof -
  assume "i \<le> 0xFFFF"
  then have "i < 2 ^ 16" by (simp add: word_le_nat_alt word_less_nat_alt)
  then have "i AND mask 16 = i" by (rule less_mask_eq)
  then show ?thesis by (simp add: event_id_def mask_eq_exp_minus_1)
qed

lemma event_id_data: "i \<le> 0xFFFF \<Longrightarrow> event_id (em_event_data i g p) = i"
proof -
  have "16 \<le> unat x + 15" "16 \<le> unat x + 23" if "x \<noteq> 0" for x :: u32
    using that unat_gt_0 [of x] by simp_all
  then show "i \<le> 0xFFFF \<Longrightarrow> event_id (em_event_data i g p) = i"
    by (simp add: em_event_data_def Let_def event_id_high event_id_small del: push_bit_of_1)
qed

section \<open>The properties of the event map\<close>

definition active_event :: "event_map \<Rightarrow> u32 \<times> u32 \<Rightarrow> bool" where
  "active_event m e \<longleftrightarrow> fst e \<le> em_time m \<and> \<not> out_of_phase (em_phase m) (snd e)"

text \<open>
  Claim C27: \<open>ExecuteEvent\<close> hands out an event that is due and belongs to an active phase, one
  with the smallest time of all of these, and remembers it for \<open>RepeatEvent\<close>; if it hands out
  none, there is none. What leaves the map besides it was due and out of phase.
\<close>

theorem execute_event_due:
  assumes "em_reachable m"
  shows "\<exists>dropped. list_all (\<lambda>e. fst e \<le> em_time m \<and> out_of_phase (em_phase m) (snd e)) dropped
    \<and> (if list_ex (active_event m) (em_events m)
       then \<exists>e. active_event m e
         \<and> list_all (\<lambda>e'. active_event m e' \<longrightarrow> fst e \<le> fst e') (em_events m)
         \<and> fst (em_execute_event m) = event_id (snd e)
         \<and> em_last_event (snd (em_execute_event m)) = snd e
         \<and> em_events m = dropped @ e # em_events (snd (em_execute_event m))
       else fst (em_execute_event m) = 0
         \<and> em_last_event (snd (em_execute_event m)) = em_last_event m
         \<and> em_events m = dropped @ em_events (snd (em_execute_event m)))"
proof -
  let ?Q = "\<lambda>(k, v). k \<le> em_time m \<and> out_of_phase (em_phase m) v"
  let ?d = "takeWhile ?Q (em_events m)" and ?r = "dropWhile ?Q (em_events m)"
  have split: "em_events m = ?d @ ?r" by simp
  have d: "list_all (\<lambda>e. fst e \<le> em_time m \<and> out_of_phase (em_phase m) (snd e)) ?d"
    by (auto simp: list_all_iff dest!: set_takeWhileD)
  have nd: "\<not> list_ex (active_event m) ?d"
    using d by (auto simp: list_all_iff list_ex_iff active_event_def)
  have sorted: "mm_sorted (?d @ ?r)" using em_reachable_ok [OF assms] by (simp add: em_ok_def)
  show ?thesis
  proof (cases "?r")
    case Nil
    then have e: "em_execute_event m = (0, m\<lparr>em_events := []\<rparr>)"
      unfolding em_execute_event_def execute_loop_eq by (simp only: list.case)
    have "em_events m = ?d" using split Nil by simp
    then show ?thesis using d nd e by (intro exI [of _ ?d]) simp
  next
    case (Cons kv rest)
    obtain k v where kv: "kv = (k, v)" by (cases kv)
    have hd: "\<not> ?Q (k, v)" using hd_dropWhile [of ?Q "em_events m"] Cons kv by auto
    have later: "\<forall>e \<in> set rest. k \<le> fst e" using sorted Cons kv by (auto simp: sorted_append)
    show ?thesis
    proof (cases "k > em_time m")
      case True
      then have e: "em_execute_event m = (0, m\<lparr>em_events := (k, v) # rest\<rparr>)"
        using Cons kv by (simp add: em_execute_event_def execute_loop_eq)
      have "\<not> list_ex (active_event m) ((k, v) # rest)"
        using True later by (force simp: list_ex_iff active_event_def)
      then have "\<not> list_ex (active_event m) (em_events m)"
        using nd by (subst split) (simp add: Cons kv)
      then show ?thesis using d e split Cons kv by (intro exI [of _ ?d]) simp
    next
      case False
      then have e: "em_execute_event m = (event_id v, m\<lparr>em_last_event := v, em_events := rest\<rparr>)"
        using Cons kv by (simp add: em_execute_event_def execute_loop_eq)
      have a: "active_event m (k, v)" using False hd by (auto simp: active_event_def)
      have "list_ex (active_event m) (em_events m)"
        using a by (subst split) (simp add: Cons kv)
      moreover have "list_all (\<lambda>e'. active_event m e' \<longrightarrow> k \<le> fst e') (em_events m)"
        using nd later by (subst split) (auto simp: Cons kv list_all_iff list_ex_iff)
      ultimately show ?thesis using d e split Cons kv a
        by (intro exI [of _ ?d]) auto
    qed
  qed
qed

definition example_map :: event_map where
  "example_map = em_update 1000 (em_schedule 7 500 0 2 (em_schedule 8 900 1 0 (em_set_phase 1 em_new)))"

lemma example_map_reachable: "em_reachable example_map"
  unfolding example_map_def by (intro em_reachable.intros)

theorem execute_event_due_witness:
  "fst (em_execute_event example_map) = 8 \<and> list_ex (active_event example_map) (em_events example_map)"
proof -
  have l: "list_ex (active_event example_map) (em_events example_map)" by code_simp
  have "fst e = 900 \<and> snd e = 0x10008" if "active_event example_map e" "e \<in> set (em_events example_map)" for e
  proof -
    have "em_events example_map = [(500, 0x2000007), (900, 0x10008)]" by code_simp
    moreover have "\<not> active_event example_map (500, 0x2000007)" by code_simp
    ultimately show ?thesis using that by auto
  qed
  with execute_event_due [OF example_map_reachable] l show ?thesis
    by (fastforce simp: event_id_def)
qed

text \<open>
  Cancelling an event removes its entries and nothing else, in the order they were:
  afterwards it is not scheduled, every other event keeps its times, and rescheduling leaves
  exactly one entry of the event, at the new time.
\<close>

theorem reschedule_is_unique:
  assumes "i \<le> 0xFFFF"
  shows "em_events (em_cancel_event i m) = filter (\<lambda>e. event_id (snd e) \<noteq> i) (em_events m)
    \<and> em_time_until i (em_cancel_event i m) = milliseconds_max
    \<and> filter (\<lambda>e. event_id (snd e) = i) (em_events (em_reschedule i t g p m))
      = [(em_time m + t, em_event_data i g p)]
    \<and> mset (filter (\<lambda>e. event_id (snd e) \<noteq> i) (em_events (em_reschedule i t g p m)))
      = mset (filter (\<lambda>e. event_id (snd e) \<noteq> i) (em_events m))"
proof -
  have c: "em_events (em_cancel_event i m) = filter (\<lambda>e. event_id (snd e) \<noteq> i) (em_events m)"
    by (auto simp: em_cancel_event_def erase_loop_eq em_empty_def intro: filter_cong)
  have n: "find (\<lambda>e. i = event_id (snd e)) (em_events (em_cancel_event i m)) = None"
    by (auto simp: c find_None_iff)
  have id: "event_id (em_event_data i g p) = i" using assms by (rule event_id_data)
  have one: "filter (\<lambda>e. event_id (snd e) = i) (mm_insert k v xs) = [(k, v)]"
    if "event_id v = i" "filter (\<lambda>e. event_id (snd e) = i) xs = []" for k v and xs :: event_store
    using that by (induction k v xs rule: mm_insert.induct) (auto split: if_splits)
  have rest: "filter (\<lambda>e. event_id (snd e) \<noteq> i) (mm_insert k v xs) = filter (\<lambda>e. event_id (snd e) \<noteq> i) xs"
    if "event_id v = i" for k v and xs :: event_store
    using that by (induction k v xs rule: mm_insert.induct) auto
  have r: "em_events (em_reschedule i t g p m) = mm_insert (em_time m + t) (em_event_data i g p)
      (filter (\<lambda>e. event_id (snd e) \<noteq> i) (em_events m))"
    by (simp add: em_reschedule_def em_schedule_def em_emplace_def c)
      (simp add: em_cancel_event_def)
  show ?thesis unfolding r using c n one [OF id] rest [OF id] by (simp add: em_time_until_def)
qed

theorem reschedule_is_unique_witness:
  "em_time_until 8 (em_cancel_event 8 example_map) = milliseconds_max"
  using reschedule_is_unique [of 8 example_map] by simp

text \<open>
  Claim C39: \<open>DelayEventsToMax\<close> ends and moves exactly the events of the group that were due
  before the new time to that time; every other event stays, no event is lost or doubled, and
  afterwards no event of the group is due before the delay has passed.
\<close>

theorem delay_to_max_moves:
  assumes "grp \<le> 8" "em_reachable m"
  shows "\<exists>m'. em_delay_to_max delay grp m = Some m'
    \<and> mset (em_events m') = image_mset
        (\<lambda>e. if fst e < em_time m + delay \<and> in_group grp (snd e) then (em_time m + delay, snd e) else e)
        (mset (em_events m))
    \<and> em_time m' = em_time m \<and> mm_sorted (em_events m')
    \<and> list_all (\<lambda>e. in_group grp (snd e) \<longrightarrow> em_time m + delay \<le> fst e) (em_events m')"
proof -
  let ?l = "em_time m + delay"
  let ?xs = "to_max_loop ?l grp [] (em_events m)"
  have "\<not> grp > 16" using assms(1) by (simp add: word_le_nat_alt word_less_nat_alt not_less)
  then have r: "em_delay_to_max delay grp m = Some (m\<lparr>em_events := ?xs\<rparr>)"
    by (simp add: em_delay_to_max_def)
  have ms: "mset ?xs = image_mset (\<lambda>e. if to_max_hit ?l grp e then (?l, snd e) else e) (mset (em_events m))"
    using to_max_loop_mset [of ?l grp "[]" "em_events m"] by simp
  have "list_all (\<lambda>e. in_group grp (snd e) \<longrightarrow> ?l \<le> fst e) ?xs"
  proof -
    have "set ?xs = (\<lambda>e. if to_max_hit ?l grp e then (?l, snd e) else e) ` set (em_events m)"
      using arg_cong [OF ms, of set_mset] by simp
    then show ?thesis by (auto simp: list_all_iff to_max_hit_def)
  qed
  moreover have "mm_sorted ?xs"
    using em_reachable_ok [OF assms(2)] by (simp add: to_max_loop_sorted em_ok_def)
  ultimately show ?thesis using r ms by (simp add: to_max_hit_def)
qed

theorem delay_to_max_moves_witness:
  "\<exists>m'. em_delay_to_max 5000 0 example_map = Some m'
    \<and> mset (em_events m') = image_mset
        (\<lambda>e. if fst e < em_time example_map + 5000 \<and> in_group 0 (snd e)
             then (em_time example_map + 5000, snd e) else e)
        (mset (em_events example_map))
    \<and> em_time m' = em_time example_map \<and> mm_sorted (em_events m')
    \<and> list_all (\<lambda>e. in_group 0 (snd e) \<longrightarrow> em_time example_map + 5000 \<le> fst e) (em_events m')"
  by (rule delay_to_max_moves [OF _ example_map_reachable]) simp

text \<open>The other delay keeps all events too, the group's with later times (which may wrap).\<close>

lemma delay_events_mset:
  assumes "grp \<le> 8"
  shows "mset (em_events (em_delay_events d grp m))
    = image_mset (\<lambda>e. if in_group grp (snd e) then (fst e + d, snd e) else e) (mset (em_events m))"
proof -
  obtain kept del where k: "delay_loop d grp [] [] (em_events m) = (kept, del)" by fastforce
  have "(\<lambda>(k, v). if in_group grp v then (k + d, v) else (k, v))
      = (\<lambda>e. if in_group grp (snd e) then (fst e + d, snd e) else e)"
    by (auto simp: fun_eq_iff)
  then show ?thesis using assms delay_loop_mset [OF k] k
    by (auto simp: em_delay_events_def em_empty_def fold_mm_insert_mset not_less)
qed

text \<open>
  The phases of a map, as the set of their numbers. \<open>SetPhase\<close>, \<open>AddPhase\<close> and
  \<open>RemovePhase\<close> are the operations on this set, and numbers above 8 change nothing.
\<close>

definition phases :: "event_map \<Rightarrow> nat set" where
  "phases m = {p. 1 \<le> p \<and> p \<le> 8 \<and> bit (em_phase m) (p - 1)}"

lemma bit_phase: "p \<noteq> 0 \<Longrightarrow> p \<le> (8 :: u8) \<Longrightarrow>
   bit (push_bit (unat p - 1) 1 :: u32) n \<longleftrightarrow> n = unat p - 1"
proof -
  assume p: "p \<noteq> 0" "p \<le> 8"
  then have "unat p \<le> 8" by (simp add: word_le_nat_alt)
  then show ?thesis
    by (auto simp: bit_push_bit_iff bit_1_iff simp del: push_bit_of_1)
qed

lemma and_phase_bit: "p \<noteq> 0 \<Longrightarrow> p \<le> (8 :: u8) \<Longrightarrow>
   (x AND push_bit (unat p - 1) 1 \<noteq> (0 :: u32)) \<longleftrightarrow> bit x (unat p - 1)"
proof -
  assume p: "p \<noteq> 0" "p \<le> 8"
  show ?thesis
  proof
    assume "bit x (unat p - 1)"
    then have "bit (x AND push_bit (unat p - 1) 1) (unat p - 1)"
      using bit_phase [OF p] by (simp add: bit_and_iff del: push_bit_of_1)
    then show "x AND push_bit (unat p - 1) 1 \<noteq> 0" by (metis bit_0_eq bot_apply bot_bool_def)
  next
    assume "x AND push_bit (unat p - 1) 1 \<noteq> 0"
    then obtain n where "bit (x AND push_bit (unat p - 1) 1) n" by (auto simp: bit_eq_iff)
    then show "bit x (unat p - 1)"
      using bit_phase [OF p] by (auto simp: bit_and_iff simp del: push_bit_of_1)
  qed
qed

text \<open>
  Claim C34: the phase mask is the set of the active phases: \<open>SetPhase\<close> makes a phase the only
  one (none for 0), \<open>AddPhase\<close> and \<open>RemovePhase\<close> insert and delete one, arguments above 8
  change nothing, and \<open>IsInPhase\<close> is membership, true for 0 and false above 8.
\<close>

theorem phases_refine_sets:
  "phases (em_set_phase p m) = (if p = 0 then {} else if p \<le> 8 then {unat p} else phases m)
   \<and> phases (em_add_phase p m) = (if p \<noteq> 0 \<and> p \<le> 8 then insert (unat p) (phases m) else phases m)
   \<and> phases (em_remove_phase p m) = phases m - (if p \<le> 8 then {unat p} else {})
   \<and> (em_is_in_phase p m \<longleftrightarrow> p = 0 \<or> unat p \<in> phases m)"
proof (cases "p \<noteq> 0 \<and> p \<le> 8")
  case True
  then have r: "1 \<le> unat p" "unat p \<le> 8" using unat_gt_0 [of p] by (simp_all add: word_le_nat_alt)
  note b = bit_phase [OF conjunct1 [OF True] conjunct2 [OF True]]
  have eq: "x - 1 = unat p - 1 \<longleftrightarrow> x = unat p" if "1 \<le> x" for x using that r by linarith
  show ?thesis using True r b eq and_phase_bit [of p "em_phase m"]
    by (auto simp: phases_def em_set_phase_def em_add_phase_def em_remove_phase_def em_is_in_phase_def
        bit_or_iff bit_and_iff bit_not_iff simp del: push_bit_of_1)
next
  case False
  then show ?thesis
    by (auto simp: phases_def em_set_phase_def em_add_phase_def em_remove_phase_def em_is_in_phase_def
        word_le_nat_alt unat_gt_0)
qed

text \<open>
  The loop the scripts run, \<open>while (uint32 id = events.ExecuteEvent())\<close>: the ids it sees, with
  as many calls as there are events.
\<close>

fun run_events :: "nat \<Rightarrow> event_map \<Rightarrow> u32 list" where
  "run_events 0 m = []"
| "run_events (Suc n) m =
     (let (i, m') = em_execute_event m in if i = 0 then [] else i # run_events n m')"

lemma execute_loop_events [simp]: "execute_loop xs (m\<lparr>em_events := ys\<rparr>) = execute_loop xs m"
  by (induction xs m rule: execute_loop.induct) auto

text \<open>
  Claim C28: run until it returns 0, \<open>ExecuteEvent\<close> hands out all events that are due and in
  phase, each once, in the order of their times, events of the same time in the order they
  were scheduled; an event whose id is 0 would end the loop early.
\<close>

theorem run_events_in_order:
  assumes "em_reachable m" "list_all (\<lambda>e. event_id (snd e) \<noteq> 0) (em_events m)"
  shows "run_events (Suc (length (em_events m))) m
    = map (\<lambda>e. event_id (snd e)) (filter (active_event m) (em_events m))"
proof -
  have "run_events (Suc n) m = map (\<lambda>e. event_id (snd e)) (filter (active_event m) (em_events m))"
    if "mm_sorted (em_events m)" "list_all (\<lambda>e. event_id (snd e) \<noteq> 0) (em_events m)"
      "length (em_events m) \<le> n" for n m
    using that
  proof (induction n arbitrary: m)
    case 0
    then show ?case by (simp add: em_execute_event_def)
  next
    case (Suc n)
    have go: "run_events (Suc (Suc n)) (m\<lparr>em_events := ys\<rparr>)
        = map (\<lambda>e. event_id (snd e)) (filter (active_event m) ys)"
      if "mm_sorted ys" "list_all (\<lambda>e. event_id (snd e) \<noteq> 0) ys" "length ys \<le> Suc n" for ys
      using that
    proof (induction ys)
      case Nil
      then show ?case by (simp add: em_execute_event_def)
    next
      case (Cons e ys)
      obtain k v where e: "e = (k, v)" by (cases e)
      consider (late) "k > em_time m" | (skip) "k \<le> em_time m" "out_of_phase (em_phase m) v"
        | (run) "k \<le> em_time m" "\<not> out_of_phase (em_phase m) v" by fastforce
      then show ?case
      proof cases
        case late
        then have "filter (active_event m) (e # ys) = []"
          using Cons.prems(1) e by (force simp: filter_empty_conv active_event_def)
        then show ?thesis using late e by (simp add: em_execute_event_def)
      next
        case skip
        then have "run_events (Suc (Suc n)) (m\<lparr>em_events := e # ys\<rparr>)
            = run_events (Suc (Suc n)) (m\<lparr>em_events := ys\<rparr>)"
          using e by (simp add: em_execute_event_def leD)
        then show ?thesis using Cons skip e by (auto simp: active_event_def)
      next
        case run
        let ?m = "m\<lparr>em_last_event := v, em_events := ys\<rparr>"
        have "active_event ?m = active_event m" by (simp add: active_event_def fun_eq_iff)
        moreover have "run_events (Suc n) ?m = map (\<lambda>e. event_id (snd e)) (filter (active_event ?m) ys)"
          using Suc.IH [of ?m] Cons.prems by simp
        moreover have "active_event m e" using run e by (simp add: active_event_def)
        ultimately show ?thesis using run e Cons.prems
          by (subst run_events.simps(2))
            (simp add: em_execute_event_def leD del: run_events.simps(2))
      qed
    qed
    show ?case using go [of "em_events m"] Suc.prems by simp
  qed
  then show ?thesis using em_reachable_ok [OF assms(1)] assms(2) by (simp add: em_ok_def)
qed

theorem run_events_in_order_witness:
  "run_events (Suc (length (em_events example_map))) example_map = [8]"
proof -
  have e: "list_all (\<lambda>e. event_id (snd e) \<noteq> 0) (em_events example_map)"
    "map (\<lambda>e. event_id (snd e)) (filter (active_event example_map) (em_events example_map)) = [8]"
    by code_simp+
  show ?thesis using run_events_in_order [OF example_map_reachable e(1)] e(2) by simp
qed

text \<open>Events with the same time stay in the order they were scheduled.\<close>

lemma schedule_fifo:
  assumes "mm_sorted xs" "fst e = k" "e \<in> set xs"
  shows "\<exists>ys zs. mm_insert k v xs = ys @ (k, v) # zs \<and> e \<in> set ys"
  using assms
proof (induction k v xs rule: mm_insert.induct)
  case (2 k v a b xs)
  show ?case
  proof (cases "k < a")
    case True
    then show ?thesis using 2 by force
  next
    case False
    show ?thesis
    proof (cases "e = (a, b)")
      case True
      obtain ys zs where "mm_insert k v xs = ys @ (k, v) # zs"
        using set_mm_insert [of k v xs] by (metis in_set_conv_decomp insertI1)
      then show ?thesis using False True by (intro exI [of _ "(a, b) # ys"] exI [of _ zs]) simp
    next
      case ne: False
      then obtain ys zs where "mm_insert k v xs = ys @ (k, v) # zs" "e \<in> set ys"
        using 2 False by auto
      then show ?thesis using False by (intro exI [of _ "(a, b) # ys"] exI [of _ zs]) simp
    qed
  qed
qed simp

text \<open>
  Three remarks. The stopwatch wraps, so an event scheduled across the wrap is due at once.
  \<open>DelayEvents(delay)\<close> sets the stopwatch to 0 when the delay is larger than it, where the
  comment says that the delay is then 0. \<open>Reset\<close> keeps the last event, so \<open>RepeatEvent\<close> after
  it schedules an event of the previous run.
\<close>

lemma schedule_across_wrap_is_due:
  "fst (em_execute_event (em_schedule 7 10 0 0 (em_set_timer (- 5) em_new))) = 7"
  by code_simp

lemma delay_more_than_timer: "em_time (em_delay_all 500 (em_set_timer 300 em_new)) = 0"
  by code_simp

lemma repeat_after_reset:
  "em_events (em_repeat_event 5 (em_reset (snd (em_execute_event (em_schedule 7 0 0 0 em_new))))) = [(5, 7)]"
  by code_simp

end
