(* ===== verification/Timers.thy ===== *)
theory Timers
  imports Prelude "HOL-Library.Signed_Division"
begin

text \<open>
  The timers of src/common/Utilities/Timer.h: differences of the 32-bit millisecond clock,
  \<open>IntervalTimer\<close>, \<open>TimeTracker\<close>, \<open>TimeTrackerSmall\<close> and \<open>PeriodicTimer\<close>. \<open>time_t\<close> is
  a signed 64-bit integer whose overflow the code does not define: it is \<open>int\<close> here. The
  32-bit fields are words, compared as signed values. The lemmas give the exact error of the
  clock difference across a wrap and show that a polled interval timer does not drift.
\<close>

section \<open>Clock differences\<close>

definition get_ms_time_diff_ms :: "int \<Rightarrow> int \<Rightarrow> int" where
  "get_ms_time_diff_ms oldMSTime newMSTime =
     (if oldMSTime > newMSTime then oldMSTime - newMSTime else newMSTime - oldMSTime)"

definition get_ms_time_diff :: "u32 \<Rightarrow> u32 \<Rightarrow> u32" where
  "get_ms_time_diff oldMSTime newMSTime =
     (if oldMSTime > newMSTime then (0xFFFFFFFF - oldMSTime) + newMSTime else newMSTime - oldMSTime)"

text \<open>The overloads that read a clock: \<open>now\<close> is the milliseconds since the program started.\<close>

definition get_ms_time :: "int \<Rightarrow> u32" where
  "get_ms_time now = word_of_int now"

definition get_ms_time_diff_point :: "u32 \<Rightarrow> int \<Rightarrow> u32" where
  "get_ms_time_diff_point oldMSTime newTime = get_ms_time_diff oldMSTime (word_of_int newTime)"

definition get_ms_time_diff_to_now :: "int \<Rightarrow> u32 \<Rightarrow> u32" where
  "get_ms_time_diff_to_now now oldMSTime = get_ms_time_diff oldMSTime (get_ms_time now)"

section \<open>\<open>IntervalTimer\<close>\<close>

record interval_timer =
  it_interval :: int
  it_current :: int

definition it_new :: interval_timer where
  "it_new = \<lparr>it_interval = 0, it_current = 0\<rparr>"

definition it_update :: "int \<Rightarrow> interval_timer \<Rightarrow> interval_timer" where
  "it_update diff t =
     (let t = t\<lparr>it_current := it_current t + diff\<rparr>
      in if it_current t < 0 then t\<lparr>it_current := 0\<rparr> else t)"

definition it_passed :: "interval_timer \<Rightarrow> bool" where
  "it_passed t \<longleftrightarrow> it_current t \<ge> it_interval t"

text \<open>The remainder by an interval of 0 is a division by zero.\<close>

definition it_reset :: "interval_timer \<Rightarrow> interval_timer option" where
  "it_reset t =
     (if it_current t \<ge> it_interval t then
        if it_interval t = 0 then None else Some (t\<lparr>it_current := it_current t smod it_interval t\<rparr>)
      else Some t)"

definition it_set_current :: "int \<Rightarrow> interval_timer \<Rightarrow> interval_timer" where
  "it_set_current c t = t\<lparr>it_current := c\<rparr>"

definition it_set_interval :: "int \<Rightarrow> interval_timer \<Rightarrow> interval_timer" where
  "it_set_interval i t = t\<lparr>it_interval := i\<rparr>"

section \<open>Trackers\<close>

record time_tracker =
  tt_expiry :: int

definition tt_new :: "int \<Rightarrow> time_tracker" where
  "tt_new expiry = \<lparr>tt_expiry = expiry\<rparr>"

definition tt_update :: "int \<Rightarrow> time_tracker \<Rightarrow> time_tracker" where
  "tt_update diff t = t\<lparr>tt_expiry := tt_expiry t - diff\<rparr>"

definition tt_passed :: "time_tracker \<Rightarrow> bool" where
  "tt_passed t \<longleftrightarrow> tt_expiry t \<le> 0"

definition tt_reset :: "int \<Rightarrow> time_tracker \<Rightarrow> time_tracker" where
  "tt_reset i t = t\<lparr>tt_expiry := i\<rparr>"

record time_tracker_small =
  ts_expiry :: u32

definition ts_new :: "u32 \<Rightarrow> time_tracker_small" where
  "ts_new expiry = \<lparr>ts_expiry = expiry\<rparr>"

definition ts_update :: "u32 \<Rightarrow> time_tracker_small \<Rightarrow> time_tracker_small" where
  "ts_update diff t = t\<lparr>ts_expiry := ts_expiry t - diff\<rparr>"

definition ts_passed :: "time_tracker_small \<Rightarrow> bool" where
  "ts_passed t \<longleftrightarrow> sint (ts_expiry t) \<le> 0"

definition ts_reset :: "u32 \<Rightarrow> time_tracker_small \<Rightarrow> time_tracker_small" where
  "ts_reset i t = t\<lparr>ts_expiry := i\<rparr>"

record periodic_timer =
  pt_period :: u32
  pt_expire :: u32

definition pt_new :: "u32 \<Rightarrow> u32 \<Rightarrow> periodic_timer" where
  "pt_new period start_time = \<lparr>pt_period = period, pt_expire = start_time\<rparr>"

definition pt_update :: "u32 \<Rightarrow> periodic_timer \<Rightarrow> bool \<times> periodic_timer" where
  "pt_update diff t =
     (let t = t\<lparr>pt_expire := pt_expire t - diff\<rparr>
      in if sint (pt_expire t) > 0 then (False, t)
         else (True, t\<lparr>pt_expire := pt_expire t
                + (if sint (pt_period t) > sint diff then pt_period t else diff)\<rparr>))"

definition pt_set_periodic :: "u32 \<Rightarrow> u32 \<Rightarrow> periodic_timer \<Rightarrow> periodic_timer" where
  "pt_set_periodic period start_time t = t\<lparr>pt_expire := start_time, pt_period := period\<rparr>"

definition pt_tupdate :: "u32 \<Rightarrow> periodic_timer \<Rightarrow> periodic_timer" where
  "pt_tupdate diff t = t\<lparr>pt_expire := pt_expire t - diff\<rparr>"

definition pt_tpassed :: "periodic_timer \<Rightarrow> bool" where
  "pt_tpassed t \<longleftrightarrow> sint (pt_expire t) \<le> 0"

definition pt_treset :: "u32 \<Rightarrow> u32 \<Rightarrow> periodic_timer \<Rightarrow> periodic_timer" where
  "pt_treset diff period t =
     t\<lparr>pt_expire := pt_expire t + (if sint period > sint diff then period else diff)\<rparr>"

section \<open>Properties\<close>

text \<open>
  The difference of two readings of the 32-bit clock is the time that passed, less
  than a full turn, except that it is one millisecond short whenever the clock wrapped between
  the readings.
\<close>

theorem ms_time_diff_elapsed:
  assumes "0 \<le> t" "0 \<le> elapsed" "elapsed < 2 ^ 32"
  shows "uint (get_ms_time_diff (get_ms_time t) (get_ms_time (t + elapsed)))
    = (if t mod 2 ^ 32 + elapsed < 2 ^ 32 then elapsed else elapsed - 1)"
proof -
  let ?o = "t mod 2 ^ 32" and ?n = "(t + elapsed) mod 2 ^ 32"
  have u: "uint (get_ms_time t) = ?o" "uint (get_ms_time (t + elapsed)) = ?n"
    by (simp_all only: get_ms_time_def uint_word_of_int) simp_all
  have o: "0 \<le> ?o" "?o < 2 ^ 32" by simp_all
  have n: "?n = (?o + elapsed) mod 2 ^ 32" by (simp add: mod_add_left_eq)
  show ?thesis
  proof (cases "?o + elapsed < 2 ^ 32")
    case True
    then have "?n = ?o + elapsed" using n o assms(2) by simp
    then have "\<not> get_ms_time t > get_ms_time (t + elapsed)"
      using assms(2) by (simp only: word_less_alt u)
    then have "uint (get_ms_time_diff (get_ms_time t) (get_ms_time (t + elapsed))) = (?n - ?o) mod 2 ^ 32"
      by (simp only: get_ms_time_diff_def if_False uint_word_ariths u) simp
    also have "\<dots> = elapsed" using \<open>?n = ?o + elapsed\<close> assms by simp
    finally show ?thesis using True by simp
  next
    case False
    have "?n = (?o + elapsed - 2 ^ 32) mod 2 ^ 32" using n by simp
    also have "\<dots> = ?o + elapsed - 2 ^ 32" using False o assms(3) by (intro mod_pos_pos_trivial) simp_all
    finally have nn: "?n = ?o + elapsed - 2 ^ 32" .
    then have "get_ms_time t > get_ms_time (t + elapsed)"
      using assms(3) by (simp only: word_less_alt u)
    then have "uint (get_ms_time_diff (get_ms_time t) (get_ms_time (t + elapsed)))
        = (((0xFFFFFFFF - ?o) mod 2 ^ 32) + ?n) mod 2 ^ 32"
      by (simp only: get_ms_time_diff_def if_True uint_word_ariths u) simp
    also have "\<dots> = (0xFFFFFFFF - ?o + ?n) mod 2 ^ 32" by (rule mod_add_left_eq)
    also have "\<dots> = (elapsed - 1) mod 2 ^ 32" by (simp only: nn) (simp add: algebra_simps)
    also have "\<dots> = elapsed - 1" using False o assms by (intro mod_pos_pos_trivial) simp_all
    finally show ?thesis using False by simp
  qed
qed

theorem ms_time_diff_elapsed_witness:
  "uint (get_ms_time_diff (get_ms_time 4294967290) (get_ms_time (4294967290 + 10))) = 9"
  using ms_time_diff_elapsed [of 4294967290 10] by simp

text \<open>Polling a timer: update, and if it passed, fire and reset. The count of firings.\<close>

primrec it_poll :: "int list \<Rightarrow> nat \<times> interval_timer \<Rightarrow> (nat \<times> interval_timer) option" where
  "it_poll [] s = Some s"
| "it_poll (d # ds) s =
     (let t = it_update d (snd s) in
      if it_passed t then Option.bind (it_reset t) (\<lambda>t. it_poll ds (Suc (fst s), t))
      else it_poll ds (fst s, t))"

lemma it_poll_eq:
  assumes "0 < i" "list_all (\<lambda>d. 0 \<le> d \<and> d \<le> i) ds" "0 \<le> c" "c < i"
  shows "it_poll ds (n, \<lparr>it_interval = i, it_current = c\<rparr>)
    = Some (n + nat ((c + sum_list ds) div i), \<lparr>it_interval = i, it_current = (c + sum_list ds) mod i\<rparr>)"
  using assms(2-)
proof (induction ds arbitrary: c n)
  case (Cons d ds)
  let ?t = "\<lparr>it_interval = i, it_current = c + d\<rparr>"
  have u: "it_update d \<lparr>it_interval = i, it_current = c\<rparr> = ?t"
    using Cons.prems by (simp add: it_update_def Let_def)
  have s: "0 \<le> sum_list ds" using Cons.prems(1) by (auto simp: list_all_iff intro!: sum_list_nonneg)
  show ?case
  proof (cases "c + d \<ge> i")
    case True
    have "(c + d) smod i = (c + d) mod i" using True assms(1) by (simp add: smod_int_alt_def)
    also have "\<dots> = (c + d - i) mod i" by simp
    also have "\<dots> = c + d - i" using True Cons.prems by (intro mod_pos_pos_trivial) simp_all
    finally have "(c + d) smod i = c + d - i" .
    then have r: "it_reset ?t = Some \<lparr>it_interval = i, it_current = c + d - i\<rparr>"
      using True assms(1) by (simp add: it_reset_def)
    have IH: "it_poll ds (Suc n, \<lparr>it_interval = i, it_current = c + d - i\<rparr>)
        = Some (Suc n + nat ((c + d - i + sum_list ds) div i),
            \<lparr>it_interval = i, it_current = (c + d - i + sum_list ds) mod i\<rparr>)"
      using Cons.IH [of "c + d - i" "Suc n"] Cons.prems True by simp
    have "(c + (d + sum_list ds)) div i = (c + d - i + sum_list ds) div i + 1"
      using div_add_self2 [of i "c + d - i + sum_list ds"] assms(1) by (simp add: algebra_simps)
    moreover have "0 \<le> (c + d - i + sum_list ds) div i"
      using True s assms(1) by (simp add: pos_imp_zdiv_nonneg_iff)
    moreover have "(c + (d + sum_list ds)) mod i = (c + d - i + sum_list ds) mod i"
      using mod_add_self1 [of i "c + d - i + sum_list ds"] by (simp add: algebra_simps)
    ultimately show ?thesis using True IH r by (simp add: u it_passed_def nat_add_distrib)
  next
    case False
    then show ?thesis using Cons by (simp add: u it_passed_def add.assoc)
  qed
qed simp

text \<open>
  A polled interval timer does not drift: if no single update is longer than the
  interval, then after any number of updates it has fired once per full interval of the total
  time, and what is left of it is kept for the next.
\<close>

theorem interval_timer_no_drift:
  assumes "0 < i" "list_all (\<lambda>d. 0 \<le> d \<and> d \<le> i) ds"
  shows "it_poll ds (0, it_set_interval i it_new)
    = Some (nat (sum_list ds div i), \<lparr>it_interval = i, it_current = sum_list ds mod i\<rparr>)"
  using it_poll_eq [OF assms, of 0 0] assms(1) by (simp add: it_set_interval_def it_new_def)

theorem interval_timer_no_drift_witness:
  "it_poll [400, 700, 1000, 150] (0, it_set_interval 1000 it_new)
    = Some (2, \<lparr>it_interval = 1000, it_current = 250\<rparr>)"
  using interval_timer_no_drift [of 1000 "[400, 700, 1000, 150]"] by simp

text \<open>A timer whose interval was never set divides by zero when it is reset.\<close>

lemma reset_without_interval: "it_reset (it_update 5 it_new) = None"
  by (simp add: it_reset_def it_update_def it_new_def)

end
