(* ===== verification/CircularBuffer.thy ===== *)
theory CircularBuffer
  imports Main
begin

text \<open>
  \<open>CircularBuffer\<close> of src/common/Utilities/CircularBuffer.h: a fixed
  array that keeps the newest items put into it. The mutex only serialises the operations.
  A write or a remainder outside the capacity 0 array is undefined (\<open>None\<close>). The lemmas show
  which items are kept, that \<open>peak_back\<close> is the oldest of them, and in which order \<open>content\<close>
  returns them.
\<close>

record 'a circular_buffer =
  cb_buf :: "'a list"
  cb_head :: nat
  cb_tail :: nat
  cb_max_size :: nat
  cb_full :: bool

text \<open>\<open>new T[size]\<close> default-initialises: the value \<open>d\<close> stands for what is there.\<close>

definition cb_new :: "'a \<Rightarrow> nat \<Rightarrow> 'a circular_buffer" where
  "cb_new d sz = \<lparr>cb_buf = replicate sz d, cb_head = 0, cb_tail = 0, cb_max_size = sz, cb_full = False\<rparr>"

definition cb_put :: "'a \<Rightarrow> 'a circular_buffer \<Rightarrow> 'a circular_buffer option" where
  "cb_put item b =
     (if \<not> cb_head b < length (cb_buf b) \<or> cb_max_size b = 0 then None
      else
        let b = b\<lparr>cb_buf := (cb_buf b)[cb_head b := item]\<rparr>;
            b = (if cb_full b then b\<lparr>cb_tail := (cb_tail b + 1) mod cb_max_size b\<rparr> else b);
            b = b\<lparr>cb_head := (cb_head b + 1) mod cb_max_size b\<rparr>
        in Some (b\<lparr>cb_full := (cb_head b = cb_tail b)\<rparr>))"

definition cb_empty :: "'a circular_buffer \<Rightarrow> bool" where
  "cb_empty b \<longleftrightarrow> \<not> cb_full b \<and> cb_head b = cb_tail b"

definition cb_is_full :: "'a circular_buffer \<Rightarrow> bool" where
  "cb_is_full b \<longleftrightarrow> cb_full b"

definition cb_capacity :: "'a circular_buffer \<Rightarrow> nat" where
  "cb_capacity b = cb_max_size b"

definition cb_size :: "'a circular_buffer \<Rightarrow> nat" where
  "cb_size b =
     (if \<not> cb_full b then
        if cb_head b \<ge> cb_tail b then cb_head b - cb_tail b
        else cb_max_size b + cb_head b - cb_tail b
      else cb_max_size b)"

definition cb_content :: "'a circular_buffer \<Rightarrow> 'a list" where
  "cb_content b = take (cb_size b) (cb_buf b)"

definition cb_peak_back :: "'a \<Rightarrow> 'a circular_buffer \<Rightarrow> 'a" where
  "cb_peak_back d b = (if cb_empty b then d else cb_buf b ! cb_tail b)"

fun cb_put_all :: "'a list \<Rightarrow> 'a circular_buffer \<Rightarrow> 'a circular_buffer option" where
  "cb_put_all [] b = Some b"
| "cb_put_all (x # xs) b = Option.bind (cb_put x b) (cb_put_all xs)"

text \<open>
  The state after items \<open>xs\<close>: slot \<open>j mod n\<close> holds item \<open>j\<close> for the newest \<open>n\<close> items; once
  full, the tail is where the oldest is, which is where the head is.
\<close>

definition cb_holds :: "nat \<Rightarrow> 'a list \<Rightarrow> 'a circular_buffer \<Rightarrow> bool" where
  "cb_holds n xs b \<longleftrightarrow> cb_max_size b = n \<and> length (cb_buf b) = n
     \<and> cb_head b = length xs mod n \<and> (cb_full b \<longleftrightarrow> n \<le> length xs)
     \<and> cb_tail b = (if n \<le> length xs then length xs mod n else 0)
     \<and> (\<forall>j < length xs. length xs \<le> j + n \<longrightarrow> cb_buf b ! (j mod n) = xs ! j)"

lemma cb_holds_new: "0 < n \<Longrightarrow> cb_holds n [] (cb_new d n)"
  by (simp add: cb_holds_def cb_new_def)

lemma cb_put_holds:
  assumes "0 < n" "cb_holds n xs b"
  shows "\<exists>b'. cb_put x b = Some b' \<and> cb_holds n (xs @ [x]) b'"
proof -
  let ?k = "length xs"
  note h = assms(2) [unfolded cb_holds_def]
  define b1 where "b1 = b\<lparr>cb_buf := (cb_buf b)[?k mod n := x],
    cb_tail := (if n \<le> ?k then Suc ?k mod n else 0), cb_head := Suc ?k mod n,
    cb_full := (n \<le> Suc ?k)\<rparr>"
  have suc: "Suc (?k mod n) mod n = Suc ?k mod n" by (simp add: mod_Suc_eq)
  have full: "(Suc ?k mod n = (if n \<le> ?k then Suc ?k mod n else 0)) \<longleftrightarrow> n \<le> Suc ?k"
  proof (cases "Suc ?k < n")
    case False
    then have "n \<le> ?k \<or> Suc ?k = n" by linarith
    then show ?thesis by auto
  qed (use assms(1) in auto)
  have "?k mod n < length (cb_buf b)" using h assms(1) by simp
  then have "cb_put x b = Some b1"
    using h assms(1) full by (auto simp: cb_put_def b1_def Let_def suc)
  moreover have "cb_holds n (xs @ [x]) b1"
  proof -
    have "cb_buf b1 ! (j mod n) = (xs @ [x]) ! j" if j: "j < Suc ?k" "Suc ?k \<le> j + n" for j
    proof (cases "j = ?k")
      case True
      then show ?thesis using h assms(1) by (simp add: b1_def)
    next
      case False
      then have "j < ?k" using j(1) by simp
      moreover have "j mod n \<noteq> ?k mod n"
      proof
        assume "j mod n = ?k mod n"
        then have "(?k - j) mod n = 0" using \<open>j < ?k\<close> by (metis less_imp_le mod_eq_dvd_iff_nat dvd_imp_mod_0)
        moreover have "0 < ?k - j" "?k - j < n" using \<open>j < ?k\<close> j(2) by linarith+
        ultimately show False by simp
      qed
      ultimately show ?thesis using h j by (simp add: b1_def nth_append)
    qed
    then show ?thesis using h assms(1) full by (auto simp: cb_holds_def b1_def)
  qed
  ultimately show ?thesis by blast
qed

lemma cb_put_all_holds:
  assumes "0 < n" "cb_holds n xs b"
  shows "\<exists>b'. cb_put_all ys b = Some b' \<and> cb_holds n (xs @ ys) b'"
  using assms(2)
proof (induction ys arbitrary: xs b)
  case (Cons y ys)
  obtain b1 where "cb_put y b = Some b1" "cb_holds n (xs @ [y]) b1"
    using cb_put_holds [OF assms(1) Cons.prems] by blast
  then show ?case using Cons.IH [of "xs @ [y]" b1] by simp
qed simp

text \<open>
  Claim C38: after any sequence of \<open>put\<close> the buffer holds exactly the newest items, as many as
  fit; \<open>peak_back\<close> is the oldest of them (the default value if none was put), and \<open>content\<close>
  returns them rotated by the number of items put, so in their order only until the first
  item is overwritten.
\<close>

theorem circular_buffer_keeps_newest:
  assumes "0 < n"
  shows "\<exists>b. cb_put_all xs (cb_new d n) = Some b
    \<and> cb_size b = min n (length xs)
    \<and> cb_peak_back d b = (if xs = [] then d else xs ! (length xs - cb_size b))
    \<and> rotate (if n \<le> length xs then length xs mod n else 0) (cb_content b)
      = drop (length xs - n) xs"
proof -
  obtain b where b: "cb_put_all xs (cb_new d n) = Some b" "cb_holds n xs b"
    using cb_put_all_holds [OF assms cb_holds_new [OF assms], of xs d] by auto
  note h = b(2) [unfolded cb_holds_def]
  have sz: "cb_size b = min n (length xs)" using h by (auto simp: cb_size_def)
  have pk: "cb_peak_back d b = (if xs = [] then d else xs ! (length xs - cb_size b))"
  proof (cases "n \<le> length xs")
    case True
    have "(length xs - n) mod n = length xs mod n" using True by (simp add: le_mod_geq)
    moreover have "cb_buf b ! ((length xs - n) mod n) = xs ! (length xs - n)"
      using h True assms by simp
    ultimately show ?thesis using h True assms sz by (auto simp: cb_peak_back_def cb_empty_def)
  next
    case False
    have "cb_buf b ! (0 mod n) = xs ! 0" if "xs \<noteq> []" using h that False by auto
    then show ?thesis using h False sz by (auto simp: cb_peak_back_def cb_empty_def)
  qed
  have "rotate (if n \<le> length xs then length xs mod n else 0) (cb_content b) = drop (length xs - n) xs"
  proof (rule nth_equalityI)
    show "length (rotate (if n \<le> length xs then length xs mod n else 0) (cb_content b))
        = length (drop (length xs - n) xs)"
      using h sz by (simp add: cb_content_def)
  next
    fix i assume "i < length (rotate (if n \<le> length xs then length xs mod n else 0) (cb_content b))"
    then have i: "i < min n (length xs)" using h sz by (simp add: cb_content_def)
    show "rotate (if n \<le> length xs then length xs mod n else 0) (cb_content b) ! i
        = drop (length xs - n) xs ! i"
    proof (cases "n \<le> length xs")
      case True
      have len: "length (cb_content b) = n" using h sz True by (simp add: cb_content_def)
      obtain m where m: "length xs = m + n" using True by (metis le_add_diff_inverse2)
      have "cb_buf b ! ((m + i) mod n) = xs ! (m + i)" using h i m by simp
      moreover have "(length xs mod n + i) mod n = (m + i) mod n" by (simp add: m mod_add_left_eq)
      ultimately have "cb_buf b ! ((length xs mod n + i) mod n) = xs ! (m + i)" by simp
      then show ?thesis using True i len sz h m by (simp add: nth_rotate cb_content_def)
    next
      case False
      then have "cb_buf b ! (i mod n) = xs ! i" using h i by simp
      then show ?thesis using False i sz h by (simp add: cb_content_def)
    qed
  qed
  then show ?thesis using b sz pk by blast
qed

theorem circular_buffer_keeps_newest_witness:
  "\<exists>b. cb_put_all [1, 2, 3, 4] (cb_new (0 :: nat) 3) = Some b \<and> cb_size b = 3 \<and> cb_peak_back 0 b = 2"
  using circular_buffer_keeps_newest [of 3 "[1, 2, 3, 4 :: nat]" 0] by fastforce

text \<open>
  The comment on \<open>content\<close> says that the head is never below the tail, as if the result were in
  order; after an overwrite it is not.
\<close>

lemma content_not_in_order:
  "map_option cb_content (cb_put_all [1, 2, 3, 4] (cb_new (0 :: nat) 3)) = Some [4, 2, 3]"
  by code_simp

end
