(* ===== verification/BaseEncoding.thy ===== *)
theory BaseEncoding
  imports Prelude
begin

text \<open>
  \<open>GenericBaseEncoding\<close> of src/common/Encoding/BaseEncoding.h and its two instances in
  Base32.cpp and Base64.cpp. An encoding is a record of the bits per character and the two
  character maps; the loops over bytes and bits are as in the code, with fuel. The locale
  \<open>base_encoding\<close> states what an encoding must satisfy for \<open>Decode\<close> to invert \<open>Encode\<close>, and
  both instances are shown to satisfy it.
\<close>

section \<open>The generic loops\<close>

record base_enc =
  be_bits :: nat
  be_encode :: "u8 \<Rightarrow> u8 option"
  be_decode :: "u8 \<Rightarrow> u8"

definition PADDING :: u8 where "PADDING = 61"
definition DECODE_ERROR :: u8 where "DECODE_ERROR = 0xff"

definition pad_to :: "base_enc \<Rightarrow> nat" where
  "pad_to E = lcm 8 (be_bits E)"

definition pad_bits :: "base_enc \<Rightarrow> nat \<Rightarrow> nat" where
  "pad_bits E sz = (if sz mod pad_to E \<noteq> 0 then sz + (pad_to E - sz mod pad_to E) else sz)"

definition encoded_size :: "base_enc \<Rightarrow> nat \<Rightarrow> nat" where
  "encoded_size E sz = pad_bits E (sz * 8) div be_bits E"

definition decoded_size :: "base_enc \<Rightarrow> nat \<Rightarrow> nat" where
  "decoded_size E sz = pad_bits E (sz * be_bits E) div 8"

text \<open>
  One pass of the encoding loop on the bytes left, the bits left of the first one: the
  character value, and the same two afterwards.
\<close>

definition encode_step :: "nat \<Rightarrow> u8 \<Rightarrow> bytes \<Rightarrow> nat \<Rightarrow> u8 \<times> nat \<times> bytes" where
  "encode_step n b rest bitsLeft =
     (if bitsLeft \<ge> n then
        let bitsLeft = bitsLeft - n;
            thisC = drop_bit bitsLeft b AND mask n
        in if bitsLeft = 0 then (thisC, 8, rest) else (thisC, bitsLeft, b # rest)
      else
        let thisC = push_bit (n - bitsLeft) (b AND mask bitsLeft);
            bitsLeft = bitsLeft + (8 - n)
        in (case rest of [] \<Rightarrow> thisC | b' # _ \<Rightarrow> thisC OR drop_bit bitsLeft b', bitsLeft, rest))"

fun encode_loop :: "nat \<Rightarrow> base_enc \<Rightarrow> bytes \<Rightarrow> nat \<Rightarrow> bytes \<Rightarrow> (bytes \<times> nat) option" where
  "encode_loop fuel E [] bitsLeft s = Some (s, bitsLeft)"
| "encode_loop 0 E (b # rest) bitsLeft s = None"
| "encode_loop (Suc fuel) E (b # rest) bitsLeft s =
     (case encode_step (be_bits E) b rest bitsLeft of
        (thisC, bitsLeft, it) \<Rightarrow>
          (case be_encode E thisC of None \<Rightarrow> None
           | Some ch \<Rightarrow> encode_loop fuel E it bitsLeft (s @ [ch])))"

definition pad_step :: "nat \<Rightarrow> nat \<Rightarrow> nat" where
  "pad_step n bitsLeft = (if bitsLeft > n then bitsLeft - n else bitsLeft + (8 - n))"

fun encode_pad :: "nat \<Rightarrow> nat \<Rightarrow> nat \<Rightarrow> bytes \<Rightarrow> bytes option" where
  "encode_pad fuel n bitsLeft s =
     (if bitsLeft \<noteq> 8 then
        case fuel of 0 \<Rightarrow> None | Suc fuel \<Rightarrow> encode_pad fuel n (pad_step n bitsLeft) (s @ [PADDING])
      else Some s)"

declare encode_pad.simps [simp del]

text \<open>\<open>Encode\<close>: \<open>None\<close> for a failed assertion, or a loop that needs more than its fuel.\<close>

definition encode :: "base_enc \<Rightarrow> bytes \<Rightarrow> bytes option" where
  "encode E data =
     (if data = [] then Some []
      else Option.bind (encode_loop (9 * length data) E data 8 []) (\<lambda>(s, bitsLeft).
             encode_pad 8 (be_bits E) bitsLeft s))"

fun decode_loop :: "base_enc \<Rightarrow> bytes \<Rightarrow> u8 \<Rightarrow> nat \<Rightarrow> bytes \<Rightarrow> (u8 \<times> nat \<times> bytes \<times> bytes) option" where
  "decode_loop E [] currentByte bitsLeft v = Some (currentByte, bitsLeft, v, [])"
| "decode_loop E (c # it) currentByte bitsLeft v =
     (if c = PADDING then Some (currentByte, bitsLeft, v, c # it)
      else
        let cur = be_decode E c; n = be_bits E in
        if cur = DECODE_ERROR then None
        else if bitsLeft > n then
          decode_loop E it (currentByte OR push_bit (bitsLeft - n) cur) (bitsLeft - n) v
        else
          let left = n - bitsLeft;
              full = currentByte OR drop_bit left cur
          in decode_loop E it (push_bit (8 - left) (cur AND mask left)) (8 - left) (v @ [full]))"

fun decode_pad :: "nat \<Rightarrow> bytes \<Rightarrow> nat \<Rightarrow> bytes" where
  "decode_pad n [] bitsLeft = []"
| "decode_pad n (c # it) bitsLeft =
     (if c = PADDING \<and> bitsLeft \<noteq> 8 then decode_pad n it (pad_step n bitsLeft) else c # it)"

definition decode :: "base_enc \<Rightarrow> bytes \<Rightarrow> bytes option" where
  "decode E data =
     (if data = [] then Some []
      else
        case decode_loop E data 0 8 [] of
          None \<Rightarrow> None
        | Some (currentByte, bitsLeft, v, it) \<Rightarrow>
            if currentByte \<noteq> 0 then None
            else if decode_pad (be_bits E) it bitsLeft = [] then Some v else None)"

section \<open>Base 32 and base 64\<close>

definition b32_encode :: "u8 \<Rightarrow> u8 option" where
  "b32_encode v = (if \<not> v < 0x20 then None else if v < 26 then Some (65 + v) else Some (50 + (v - 26)))"

text \<open>The digits 0, 1 and 8 are read as the letters O, l and B.\<close>

definition b32_decode_plain :: "u8 \<Rightarrow> u8" where
  "b32_decode_plain v =
     (if 65 \<le> v \<and> v \<le> 90 then v - 65
      else if 97 \<le> v \<and> v \<le> 122 then v - 97
      else if 50 \<le> v \<and> v \<le> 55 then (v - 50) + 26
      else DECODE_ERROR)"

definition b32_decode :: "u8 \<Rightarrow> u8" where
  "b32_decode v =
     (if v = 48 then b32_decode_plain 79
      else if v = 49 then b32_decode_plain 108
      else if v = 56 then b32_decode_plain 66
      else b32_decode_plain v)"

definition base32 :: base_enc where
  "base32 = \<lparr>be_bits = 5, be_encode = b32_encode, be_decode = b32_decode\<rparr>"

definition b64_encode :: "u8 \<Rightarrow> u8 option" where
  "b64_encode v =
     (if \<not> v < 0x40 then None
      else if v < 26 then Some (65 + v)
      else if v < 52 then Some (97 + (v - 26))
      else if v < 62 then Some (48 + (v - 52))
      else if v = 62 then Some 43 else Some 47)"

definition b64_decode :: "u8 \<Rightarrow> u8" where
  "b64_decode v =
     (if 65 \<le> v \<and> v \<le> 90 then v - 65
      else if 97 \<le> v \<and> v \<le> 122 then (v - 97) + 26
      else if 48 \<le> v \<and> v \<le> 57 then (v - 48) + 52
      else if v = 43 then 62
      else if v = 47 then 63
      else DECODE_ERROR)"

definition base64 :: base_enc where
  "base64 = \<lparr>be_bits = 6, be_encode = b64_encode, be_decode = b64_decode\<rparr>"

section \<open>Bits of a value, most significant first\<close>

definition bits :: "nat \<Rightarrow> u8 \<Rightarrow> bool list" where
  "bits n v = map (\<lambda>i. bit v (n - 1 - i)) [0..<n]"

lemma length_bits [simp]: "length (bits n v) = n"
  by (simp add: bits_def)

lemma bits_none [simp]: "bits 0 v = []"
  by (simp add: bits_def)

lemma nth_bits: "i < n \<Longrightarrow> bits n v ! i = bit v (n - 1 - i)"
  by (simp add: bits_def)

lemma bits_eqI: "length xs = n \<Longrightarrow> (\<And>i. i < n \<Longrightarrow> bit v (n - 1 - i) = xs ! i) \<Longrightarrow> bits n v = xs"
  by (rule nth_equalityI) (simp_all add: nth_bits)

lemma bits_inj: "bits 8 v = bits 8 w \<Longrightarrow> v = w"
proof (rule bit_word_eqI)
  fix k assume "bits 8 v = bits 8 w" "k < LENGTH(8)"
  then show "bit v k = bit w k" using nth_bits [of "7 - k" 8 v] nth_bits [of "7 - k" 8 w] by simp
qed

lemma bits_zero [simp]: "bits n 0 = replicate n False"
  by (simp add: bits_def map_replicate_const)

lemmas bit_rules = bit_and_iff bit_or_iff bit_mask_iff bit_drop_bit_eq bit_push_bit_iff nth_append nth_bits

lemma bits_split_ge:
  assumes "n \<le> bl" "bl \<le> 8"
  shows "bits bl b = bits n (drop_bit (bl - n) b AND mask n) @ bits (bl - n) b"
  using assms
  by (intro bits_eqI) (auto simp: bit_rules split: if_splits intro!: arg_cong [where f = "bit b"])

text \<open>The character that ends one byte and takes its remaining bits from the next.\<close>

lemma bits_split_lt:
  assumes "bl < n" "n < 8" "1 \<le> bl"
  shows "bits n (push_bit (n - bl) (b AND mask bl)) = bits bl b @ replicate (n - bl) False"
    and "bits n (push_bit (n - bl) (b AND mask bl) OR drop_bit (bl + (8 - n)) b')
      @ bits (bl + (8 - n)) b' = bits bl b @ bits 8 b'"
proof -
  show "bits n (push_bit (n - bl) (b AND mask bl)) = bits bl b @ replicate (n - bl) False"
    using assms by (intro bits_eqI) (auto simp: bit_rules intro!: arg_cong [where f = "bit b"])
  have top: "\<not> bit b' k" if "8 \<le> k" for k using bit_imp_le_length [of b' k] that by auto
  show "bits n (push_bit (n - bl) (b AND mask bl) OR drop_bit (bl + (8 - n)) b')
      @ bits (bl + (8 - n)) b' = bits bl b @ bits 8 b'"
    using assms
    by (intro nth_equalityI)
      (auto simp: bit_rules top intro!: arg_cong [where f = "bit b'"] arg_cong [where f = "bit b"])
qed

text \<open>What the decoding loop does to the byte it assembles.\<close>

lemma bits_join_gt:
  assumes "bits 8 c = P @ replicate bl False" "n < bl" "bl \<le> 8" "length P = 8 - bl" "cur < 2 ^ n"
  shows "bits 8 (c OR push_bit (bl - n) cur) = P @ bits n cur @ replicate (bl - n) False"
proof (rule bits_eqI)
  show "length (P @ bits n cur @ replicate (bl - n) False) = 8" using assms by simp
next
  fix i :: nat assume i: "i < 8"
  have "bit c (8 - 1 - i) = (P @ replicate bl False) ! i"
    using nth_bits [OF i, of c] assms(1) by simp
  moreover have "\<not> bit cur k" if "n \<le> k" for k using word_bit_bound [OF assms(5), of k] that by auto
  ultimately show "bit (c OR push_bit (bl - n) cur) (8 - 1 - i)
      = (P @ bits n cur @ replicate (bl - n) False) ! i"
    using assms i by (auto simp: bit_rules intro!: arg_cong [where f = "bit cur"])
qed

lemma bits_join_le:
  assumes "bits 8 c = P @ replicate bl False" "bl \<le> n" "n < 8" "1 \<le> bl" "length P = 8 - bl" "cur < 2 ^ n"
  shows "bits 8 (c OR drop_bit (n - bl) cur) = P @ take bl (bits n cur)"
    and "bits 8 (push_bit (8 - (n - bl)) (cur AND mask (n - bl)))
      = drop bl (bits n cur) @ replicate (8 - (n - bl)) False"
proof -
  have top: "\<not> bit cur k" if "n \<le> k" for k using word_bit_bound [OF assms(6), of k] that by auto
  show "bits 8 (c OR drop_bit (n - bl) cur) = P @ take bl (bits n cur)"
  proof (rule bits_eqI)
    show "length (P @ take bl (bits n cur)) = 8" using assms by simp
  next
    fix i :: nat assume i: "i < 8"
    have "bit c (8 - 1 - i) = (P @ replicate bl False) ! i"
      using nth_bits [OF i, of c] assms(1) by simp
    then show "bit (c OR drop_bit (n - bl) cur) (8 - 1 - i) = (P @ take bl (bits n cur)) ! i"
      using assms i top by (auto simp: bit_rules intro!: arg_cong [where f = "bit cur"])
  qed
  show "bits 8 (push_bit (8 - (n - bl)) (cur AND mask (n - bl)))
      = drop bl (bits n cur) @ replicate (8 - (n - bl)) False"
  proof (rule bits_eqI)
    show "length (drop bl (bits n cur) @ replicate (8 - (n - bl)) False) = 8" using assms by simp
  next
    fix i :: nat assume i: "i < 8"
    show "bit (push_bit (8 - (n - bl)) (cur AND mask (n - bl))) (8 - 1 - i)
        = (drop bl (bits n cur) @ replicate (8 - (n - bl)) False) ! i"
      using assms i by (auto simp: bit_rules add.commute [of bl] intro!: arg_cong [where f = "bit cur"])
  qed
qed

section \<open>The contract of an encoding\<close>

text \<open>The bits not yet encoded.\<close>

definition rest_bits :: "bytes \<Rightarrow> nat \<Rightarrow> bool list" where
  "rest_bits it bl = (case it of [] \<Rightarrow> [] | b # rest \<Rightarrow> bits bl b @ concat (map (bits 8) rest))"

lemma rest_bits_full: "rest_bits it 8 = concat (map (bits 8) it)"
  by (cases it) (simp_all add: rest_bits_def)

lemma concat_bits_inj:
  assumes "length xs = length ys" "concat (map (bits 8) xs) = concat (map (bits 8) ys)"
  shows "xs = ys"
  using assms by (induction xs ys rule: list_induct2) (auto dest: bits_inj)

lemma length_concat_bits [simp]: "length (concat (map (bits n) xs)) = n * length xs"
  by (induction xs) simp_all

text \<open>
  What an instance must provide: 5 or 6 bits, and on the values of that many bits a character
  map the other inverts, whose characters are neither the padding nor undecodable.
\<close>

locale base_encoding =
  fixes E :: base_enc
  assumes bits56: "be_bits E = 5 \<or> be_bits E = 6"
    and char_ok: "v < 2 ^ be_bits E \<Longrightarrow>
      \<exists>ch. be_encode E v = Some ch \<and> be_decode E ch = v \<and> ch \<noteq> PADDING"
begin

abbreviation n where "n \<equiv> be_bits E"

lemma n_bounds: "5 \<le> n" "n \<le> 6"
  using bits56 by auto

lemma value_ok: "v < 2 ^ n \<Longrightarrow> v \<noteq> DECODE_ERROR"
  using bits56 by (auto simp: DECODE_ERROR_def)

lemma and_mask_small: "v AND mask n < (2 ^ n :: u8)"
  using n_bounds by (intro and_mask_less_size) (simp_all add: word_size)

lemma step_value:
  assumes "encode_step n b rest bl = (c, bl', it')" "1 \<le> bl" "bl \<le> 8"
  shows "c < 2 ^ n \<and> 1 \<le> bl' \<and> bl' \<le> 8
    \<and> (\<exists>pad < n. bits n c @ rest_bits it' bl' = rest_bits (b # rest) bl @ replicate pad False
        \<and> (pad \<noteq> 0 \<longrightarrow> it' = [] \<and> bl' = 8 - pad) \<and> (it' = [] \<and> pad = 0 \<longrightarrow> bl' = 8))
    \<and> 9 * length it' + bl' < 9 * length (b # rest) + bl"
proof (cases "n \<le> bl")
  case True
  note sp = bits_split_ge [OF True assms(3), of b]
  have c: "c = drop_bit (bl - n) b AND mask n" "(bl', it') = (if bl = n then (8, rest) else (bl - n, b # rest))"
    using assms(1) True by (auto simp: encode_step_def Let_def split: if_splits)
  have "c < 2 ^ n" by (simp add: c(1) and_mask_small)
  then show ?thesis
  proof (cases "bl = n")
    case True
    then show ?thesis using \<open>c < 2 ^ n\<close> c sp n_bounds
      by (auto simp: rest_bits_full) (auto simp: rest_bits_def intro!: exI [of _ 0])
  next
    case False
    then show ?thesis using \<open>c < 2 ^ n\<close> c sp True n_bounds assms(3)
      by (auto simp: rest_bits_def intro!: exI [of _ 0])
  qed
next
  case False
  have bl: "bl < n" "n < 8" using False n_bounds by simp_all
  have small: "c < 2 ^ n" if "\<And>k. bit c k \<Longrightarrow> k < n"
  proof -
    have "c AND mask n = c" using that by (intro bit_word_eqI) (auto simp: bit_and_iff bit_mask_iff)
    then show ?thesis using and_mask_small [of c] by simp
  qed
  show ?thesis
  proof (cases rest)
    case Nil
    then have c: "c = push_bit (n - bl) (b AND mask bl)" "bl' = bl + (8 - n)" "it' = []"
      using assms(1) False by (auto simp: encode_step_def Let_def)
    have "c < 2 ^ n" by (rule small) (use bl in \<open>auto simp: c(1) bit_rules\<close>)
    then show ?thesis using c bits_split_lt(1) [OF bl assms(2), of b] Nil bl assms(2)
      by (auto simp: rest_bits_def intro!: exI [of _ "n - bl"])
  next
    case (Cons b' rest')
    then have c: "c = push_bit (n - bl) (b AND mask bl) OR drop_bit (bl + (8 - n)) b'"
      "bl' = bl + (8 - n)" "it' = rest"
      using assms(1) False by (auto simp: encode_step_def Let_def)
    have "c < 2 ^ n"
      by (rule small) (use bl in \<open>auto simp: c(1) bit_rules dest!: bit_imp_le_length\<close>)
    then show ?thesis using c bits_split_lt(2) [OF bl assms(2), of b b'] Cons bl assms(2)
      by (auto simp: rest_bits_def intro!: exI [of _ 0])
  qed
qed

text \<open>The characters of an encoding spell the bits of the data, padded with zeros.\<close>

lemma encode_loop_ok:
  assumes "9 * length it + bl \<le> fuel + 8" "1 \<le> bl" "bl \<le> 8" "it \<noteq> []"
  shows "\<exists>cs pad. encode_loop fuel E it bl s = Some (s @ map (the \<circ> be_encode E) cs, 8 - pad)
    \<and> list_all (\<lambda>c. c < 2 ^ n) cs \<and> pad < n
    \<and> concat (map (bits n) cs) = rest_bits it bl @ replicate pad False"
  using assms
proof (induction fuel arbitrary: it bl s)
  case 0
  then show ?case by (cases it) auto
next
  case (Suc fuel)
  obtain b rest where it: "it = b # rest" using Suc.prems(4) by (cases it) auto
  obtain c bl' it' where st: "encode_step n b rest bl = (c, bl', it')" by (cases "encode_step n b rest bl")
  obtain pad where sv: "c < 2 ^ n" "1 \<le> bl'" "bl' \<le> 8" "pad < n"
    "bits n c @ rest_bits it' bl' = rest_bits it bl @ replicate pad False"
    "pad \<noteq> 0 \<longrightarrow> it' = [] \<and> bl' = 8 - pad" "it' = [] \<and> pad = 0 \<longrightarrow> bl' = 8"
    "9 * length it' + bl' < 9 * length it + bl"
    using step_value [OF st Suc.prems(2,3)] it by blast
  obtain ch where ch: "be_encode E c = Some ch" using char_ok [OF sv(1)] by blast
  have run: "encode_loop (Suc fuel) E it bl s = encode_loop fuel E it' bl' (s @ [ch])"
    by (simp add: it st ch)
  show ?case
  proof (cases "it' = []")
    case True
    then have "bl' = 8 - pad" "rest_bits it' bl' = []" using sv(6,7) by (auto simp: rest_bits_def)
    then show ?thesis using run True sv(1,4,5) ch
      by (intro exI [of _ "[c]"] exI [of _ pad]) simp
  next
    case False
    then have p0: "pad = 0" using sv(6) by blast
    have "9 * length it' + bl' \<le> fuel + 8" using sv(8) Suc.prems(1) by simp
    from Suc.IH [OF this sv(2,3) False, of "s @ [ch]"] obtain cs pad' where
      "encode_loop fuel E it' bl' (s @ [ch]) = Some ((s @ [ch]) @ map (the \<circ> be_encode E) cs, 8 - pad')"
      "list_all (\<lambda>c. c < 2 ^ n) cs" "pad' < n"
      "concat (map (bits n) cs) = rest_bits it' bl' @ replicate pad' False"
      by blast
    then show ?thesis using run sv(1,5) ch p0
      by (intro exI [of _ "c # cs"] exI [of _ pad']) simp
  qed
qed

text \<open>The decoding loop collects these bits into bytes.\<close>

lemma decode_loop_ok:
  assumes "list_all (\<lambda>c. c < 2 ^ n) cs" "bits 8 cb = P @ replicate bl False" "length P = 8 - bl"
    and "1 \<le> bl" "bl \<le> 8" "rest = [] \<or> hd rest = PADDING"
  shows "\<exists>cb' bl' v' P'. decode_loop E (map (the \<circ> be_encode E) cs @ rest) cb bl v
      = Some (cb', bl', v', rest)
    \<and> bits 8 cb' = P' @ replicate bl' False \<and> length P' = 8 - bl' \<and> 1 \<le> bl' \<and> bl' \<le> 8
    \<and> concat (map (bits 8) v') @ P' = concat (map (bits 8) v) @ P @ concat (map (bits n) cs)"
  using assms
proof (induction cs arbitrary: cb bl v P)
  case Nil
  then show ?case by (cases rest) auto
next
  case (Cons c cs)
  obtain ch where ch: "be_encode E c = Some ch" "be_decode E ch = c" "ch \<noteq> PADDING"
    using char_ok [of c] Cons.prems(1) by auto
  have c: "c < 2 ^ n" "c \<noteq> DECODE_ERROR" using Cons.prems(1) value_ok by simp_all
  show ?case
  proof (cases "bl > n")
    case True
    let ?cb = "cb OR push_bit (bl - n) c"
    have "bits 8 ?cb = (P @ bits n c) @ replicate (bl - n) False"
      using bits_join_gt [OF Cons.prems(2) True Cons.prems(5,3) c(1)] by simp
    moreover have "length (P @ bits n c) = 8 - (bl - n)" using Cons.prems(3,5) True by simp
    ultimately show ?thesis
      using Cons.IH [of ?cb "P @ bits n c" "bl - n" v] Cons.prems(1,5,6) True ch c by (simp add: Let_def)
  next
    case False
    let ?full = "cb OR drop_bit (n - bl) c" and ?cb = "push_bit (8 - (n - bl)) (c AND mask (n - bl))"
    have le: "bl \<le> n" "n < 8" using False n_bounds by simp_all
    note j = bits_join_le [OF Cons.prems(2) le Cons.prems(4,3) c(1)]
    have l: "length (drop bl (bits n c)) = 8 - (8 - (n - bl))" using le by simp
    have "1 \<le> 8 - (n - bl)" "8 - (n - bl) \<le> 8" using le by simp_all
    have "list_all (\<lambda>c. c < 2 ^ n) cs" using Cons.prems(1) by simp
    from Cons.IH [OF this j(2) l \<open>1 \<le> 8 - (n - bl)\<close> \<open>8 - (n - bl) \<le> 8\<close> Cons.prems(6),
        of "v @ [?full]"]
    obtain cb' bl' v' P' where
      "decode_loop E (map (the \<circ> be_encode E) cs @ rest) ?cb (8 - (n - bl)) (v @ [?full])
        = Some (cb', bl', v', rest)"
      "bits 8 cb' = P' @ replicate bl' False" "length P' = 8 - bl'" "1 \<le> bl'" "bl' \<le> 8"
      "concat (map (bits 8) v') @ P' = concat (map (bits 8) (v @ [?full]))
        @ drop bl (bits n c) @ concat (map (bits n) cs)"
      by blast
    moreover have "concat (map (bits 8) (v @ [?full])) @ drop bl (bits n c)
        = concat (map (bits 8) v) @ P @ bits n c"
      using j(1) by simp
    then have "concat (map (bits 8) (v @ [?full])) @ drop bl (bits n c) @ concat (map (bits n) cs)
        = concat (map (bits 8) v) @ P @ bits n c @ concat (map (bits n) cs)"
      by (simp only: append_assoc [symmetric])
    ultimately show ?thesis using False ch c
      by (intro exI [of _ cb'] exI [of _ bl'] exI [of _ v'] exI [of _ P']) (simp add: Let_def comp_def)
  qed
qed

text \<open>The padding loop ends, and the decoder consumes what it wrote.\<close>

lemma pad_consumed:
  "encode_pad fuel n bl s = Some t \<Longrightarrow>
   \<exists>k. t = s @ replicate k PADDING \<and> decode_pad n (replicate k PADDING) bl = []"
proof (induction fuel arbitrary: bl s)
  case 0
  then show ?case by (auto simp: encode_pad.simps split: if_splits intro!: exI [of _ 0])
next
  case (Suc fuel)
  show ?case
  proof (cases "bl = 8")
    case True
    then show ?thesis using Suc.prems by (auto simp: encode_pad.simps intro!: exI [of _ 0])
  next
    case False
    then have "encode_pad fuel n (pad_step n bl) (s @ [PADDING]) = Some t"
      using Suc.prems by (subst (asm) encode_pad.simps) simp
    from Suc.IH [OF this] obtain k where "t = (s @ [PADDING]) @ replicate k PADDING"
      "decode_pad n (replicate k PADDING) (pad_step n bl) = []" by blast
    then show ?thesis using False by (intro exI [of _ "Suc k"]) simp
  qed
qed

lemma pad_ends:
  assumes "1 \<le> bl" "bl \<le> 8" "n = 6 \<longrightarrow> even bl"
  shows "encode_pad 8 n bl s \<noteq> None"
proof -
  have "bl = 1 \<or> bl = 2 \<or> bl = 3 \<or> bl = 4 \<or> bl = 5 \<or> bl = 6 \<or> bl = 7 \<or> bl = 8"
    using assms(1,2) by arith
  then have "n = 5 \<or> n = 6 \<and> (bl = 2 \<or> bl = 4 \<or> bl = 6 \<or> bl = 8)"
    using bits56 assms(3) by auto
  moreover note \<open>bl = 1 \<or> _\<close>
  ultimately show ?thesis
    by (elim disjE conjE) (simp_all add: encode_pad.simps pad_step_def eval_nat_numeral)
qed

lemma decode_encode: "\<exists>s. encode E data = Some s \<and> decode E s = Some data"
proof (cases "data = []")
  case True
  then show ?thesis by (simp add: encode_def decode_def)
next
  case False
  obtain cs pad where e: "encode_loop (9 * length data) E data 8 []
      = Some (map (the \<circ> be_encode E) cs, 8 - pad)"
    "list_all (\<lambda>c. c < 2 ^ n) cs" "pad < n"
    "concat (map (bits n) cs) = concat (map (bits 8) data) @ replicate pad False"
    using encode_loop_ok [of data 8 "9 * length data" "[]"] False
    by (auto simp: rest_bits_full)
  have len: "n * length cs = 8 * length data + pad" using arg_cong [OF e(4), of length] by simp
  have even: "n = 6 \<longrightarrow> even (8 - pad)"
  proof
    assume n6: "n = 6"
    then have "even (8 * length data + pad)" using len by (metis dvd_mult2 even_numeral)
    then have "even pad" by simp
    then show "even (8 - pad)" using e(3) n6 by simp
  qed
  have bl: "1 \<le> 8 - pad" "8 - pad \<le> 8" using e(3) n_bounds by simp_all
  obtain t where t: "encode_pad 8 n (8 - pad) (map (the \<circ> be_encode E) cs) = Some t"
    using pad_ends [OF bl even] by auto
  obtain k where k: "t = map (the \<circ> be_encode E) cs @ replicate k PADDING"
    "decode_pad n (replicate k PADDING) (8 - pad) = []"
    using pad_consumed [OF t] by blast
  have enc: "encode E data = Some t" using False e(1) t by (simp add: encode_def)
  obtain cb bl' v P where d: "decode_loop E t 0 8 [] = Some (cb, bl', v, replicate k PADDING)"
    "bits 8 cb = P @ replicate bl' False" "length P = 8 - bl'" "1 \<le> bl'" "bl' \<le> 8"
    "concat (map (bits 8) v) @ P = concat (map (bits n) cs)"
    using decode_loop_ok [OF e(2), of 0 "[]" 8 "replicate k PADDING" "[]"] k(1)
    by (cases k) auto
  have eq: "concat (map (bits 8) v) @ P = concat (map (bits 8) data) @ replicate pad False"
    using d(6) e(4) by simp
  then have l: "8 * length v + length P = 8 * length data + pad"
    by (metis length_append length_concat_bits length_replicate)
  have "length P < 8" "pad < 8" using d(3-5) e(3) n_bounds by simp_all
  then have "length v = length data" "length P = pad" using l by presburger+
  then have v: "v = data" "P = replicate pad False"
    using eq concat_bits_inj [of v data] by auto
  then have "bits 8 cb = bits 8 0" using d(2,3,5) \<open>length P = pad\<close> by (simp flip: replicate_add)
  then have "cb = 0" by (rule bits_inj)
  moreover have "bl' = 8 - pad" using d(3-5) \<open>length P = pad\<close> by simp
  moreover have "cs \<noteq> []" using len False by (cases data) auto
  then have "t \<noteq> []" using k(1) by simp
  ultimately have "decode E t = Some data" using d(1) k(2) v(1) by (simp add: decode_def)
  then show ?thesis using enc by blast
qed

end

section \<open>The instances\<close>

lemma word_values: "v < (of_nat m :: u8) \<Longrightarrow> list_all P (map of_nat [0..<m]) \<Longrightarrow> P v"
proof -
  assume v: "v < of_nat m" and l: "list_all P (map of_nat [0..<m])"
  have "unat v < unat (of_nat m :: u8)" using v by (simp add: word_less_nat_alt)
  also have "\<dots> \<le> m" by (simp add: unat_of_nat)
  finally have "v \<in> set (map of_nat [0..<m])" by (auto intro!: image_eqI [of _ _ "unat v"])
  then show "P v" using l by (auto simp: list_all_iff)
qed

definition char_inverse :: "base_enc \<Rightarrow> u8 \<Rightarrow> bool" where
  "char_inverse E v = (case be_encode E v of None \<Rightarrow> False
     | Some ch \<Rightarrow> be_decode E ch = v \<and> ch \<noteq> PADDING)"

interpretation b32: base_encoding base32
proof unfold_locales
  show "be_bits base32 = 5 \<or> be_bits base32 = 6" by (simp add: base32_def)
next
  fix v :: u8 assume "v < 2 ^ be_bits base32"
  then have "v < of_nat 32" by (simp add: base32_def)
  then have "char_inverse base32 v" by (rule word_values) code_simp
  then show "\<exists>ch. be_encode base32 v = Some ch \<and> be_decode base32 ch = v \<and> ch \<noteq> PADDING"
    by (auto simp: char_inverse_def split: option.splits)
qed

interpretation b64: base_encoding base64
proof unfold_locales
  show "be_bits base64 = 5 \<or> be_bits base64 = 6" by (simp add: base64_def)
next
  fix v :: u8 assume "v < 2 ^ be_bits base64"
  then have "v < of_nat 64" by (simp add: base64_def)
  then have "char_inverse base64 v" by (rule word_values) code_simp
  then show "\<exists>ch. be_encode base64 v = Some ch \<and> be_decode base64 ch = v \<and> ch \<noteq> PADDING"
    by (auto simp: char_inverse_def split: option.splits)
qed

text \<open>
  Claim C35: for both encodings \<open>Encode\<close> of any bytes ends without a failed assertion, and
  \<open>Decode\<close> of the result gives the bytes back.
\<close>

theorem base_encoding_roundtrip:
  "(\<exists>s. encode base32 data = Some s \<and> decode base32 s = Some data)
   \<and> (\<exists>s. encode base64 data = Some s \<and> decode base64 s = Some data)"
  using b32.decode_encode b64.decode_encode by blast

text \<open>The padding is not required: a string that lacks some or all of it is decoded.\<close>

lemma missing_padding_accepted:
  "decode base64 [81, 81] = Some [65]" "encode base64 [65] = Some [81, 81, 61, 61]"
  by code_simp+

end
