(* ===== verification/Players.thy ===== *)
theory Players
  imports ObjectGuid
begin

text \<open>
  What the social components read of the rest of the world: the connected players as
  \<open>ObjectAccessor\<close> finds them, with the attributes of \<open>Player\<close> and \<open>WorldSession\<close> these
  components ask for, the character cache, and the configuration. The objects themselves
  (\<open>Unit\<close>, \<open>Player\<close>, \<open>WorldSession\<close>) are not modelled beyond these attributes, which do not
  change during one operation.
\<close>

record player_info =
  pl_guid :: guid
  pl_name :: bytes
  pl_team :: u8
  pl_security :: u8
  pl_account :: u32
  pl_zone :: u32
  pl_level :: u8
  pl_class :: u8
  pl_afk :: bool
  pl_dnd :: bool
  pl_visible :: bool
  pl_in_world :: bool

text \<open>An entry of the character cache: the account and the team of the race.\<close>

record character_entry =
  ce_name :: bytes
  ce_account :: u32
  ce_team :: u8

record world_env =
  we_connected :: "guid \<Rightarrow> player_info option"
  we_characters :: "guid \<Rightarrow> character_entry option"
  we_guid_of_name :: "bytes \<Rightarrow> guid"
  we_account_security :: "u32 \<Rightarrow> u8"
  we_script_hides :: "guid \<Rightarrow> guid \<Rightarrow> bool"
  we_normalize :: "bytes \<Rightarrow> bytes option"
  we_two_side_who :: bool
  we_two_side_add_friend :: bool
  we_two_side_channel :: bool
  we_gm_friend :: bool
  we_gm_level_in_who :: u8
  we_time :: u32

definition find_connected_player :: "world_env \<Rightarrow> guid \<Rightarrow> player_info option" where
  "find_connected_player w g = we_connected w g"

text \<open>\<open>FindPlayer\<close> also wants the player to be in the world.\<close>

definition find_player :: "world_env \<Rightarrow> guid \<Rightarrow> player_info option" where
  "find_player w g = (case we_connected w g of
     Some p \<Rightarrow> if pl_in_world p then Some p else None | None \<Rightarrow> None)"

definition SEC_GAMEMASTER :: u8 where "SEC_GAMEMASTER = 2"

definition is_gm_account :: "player_info \<Rightarrow> bool" where
  "is_gm_account p \<longleftrightarrow> pl_security p \<ge> SEC_GAMEMASTER"

definition is_player_level :: "u8 \<Rightarrow> bool" where
  "is_player_level gmlevel \<longleftrightarrow> gmlevel = 0"

text \<open>
  \<open>p->IsVisibleGloballyFor(u)\<close>; \<open>we_script_hides\<close> is the scripts' answer to
  \<open>NotVisibleGloballyFor\<close>.
\<close>

definition is_visible_globally_for :: "world_env \<Rightarrow> player_info \<Rightarrow> player_info option \<Rightarrow> bool" where
  "is_visible_globally_for w p u =
     (case u of
        None \<Rightarrow> False
      | Some u \<Rightarrow>
          if pl_guid u = pl_guid p then True
          else if pl_visible p then True
          else if \<not> is_player_level (pl_security u) then pl_security p \<le> pl_security u
          else \<not> we_script_hides w (pl_guid p) (pl_guid u))"

text \<open>Registered players answer to their own GUID, which is a player's and not empty.\<close>

definition world_ok :: "world_env \<Rightarrow> bool" where
  "world_ok w \<longleftrightarrow> (\<forall>g p. we_connected w g = Some p \<longrightarrow> pl_guid p = g \<and> g \<noteq> 0)"

end
