(* ===== verification/SocialMgr.thy ===== *)
theory SocialMgr
  imports Players
begin

text \<open>
  The friend and ignore lists: \<open>PlayerSocial\<close> and \<open>SocialMgr\<close>
  (src/server/game/Entities/Player/SocialMgr.h and .cpp) and the handlers of Socialhandler.cpp. The list is
  a \<open>std::map\<close>, the sorted association list of the prelude. Statements to the character
  database and packets are returned beside the new state. The lemmas show the client's limits
  are kept, what each handler answers, and that the database always holds what the memory
  holds.
\<close>

section \<open>Data\<close>

definition FRIEND_STATUS_OFFLINE :: u8 where "FRIEND_STATUS_OFFLINE = 0x00"
definition FRIEND_STATUS_ONLINE :: u8 where "FRIEND_STATUS_ONLINE = 0x01"
definition FRIEND_STATUS_AFK :: u8 where "FRIEND_STATUS_AFK = 0x02"
definition FRIEND_STATUS_DND :: u8 where "FRIEND_STATUS_DND = 0x04"

definition SOCIAL_FLAG_FRIEND :: u8 where "SOCIAL_FLAG_FRIEND = 0x01"
definition SOCIAL_FLAG_IGNORED :: u8 where "SOCIAL_FLAG_IGNORED = 0x02"
definition SOCIAL_FLAG_MUTED :: u8 where "SOCIAL_FLAG_MUTED = 0x04"

definition FRIEND_LIST_FULL :: u8 where "FRIEND_LIST_FULL = 0x01"
definition FRIEND_ONLINE :: u8 where "FRIEND_ONLINE = 0x02"
definition FRIEND_NOT_FOUND :: u8 where "FRIEND_NOT_FOUND = 0x04"
definition FRIEND_REMOVED :: u8 where "FRIEND_REMOVED = 0x05"
definition FRIEND_ADDED_ONLINE :: u8 where "FRIEND_ADDED_ONLINE = 0x06"
definition FRIEND_ADDED_OFFLINE :: u8 where "FRIEND_ADDED_OFFLINE = 0x07"
definition FRIEND_ALREADY :: u8 where "FRIEND_ALREADY = 0x08"
definition FRIEND_SELF :: u8 where "FRIEND_SELF = 0x09"
definition FRIEND_ENEMY :: u8 where "FRIEND_ENEMY = 0x0A"
definition FRIEND_IGNORE_FULL :: u8 where "FRIEND_IGNORE_FULL = 0x0B"
definition FRIEND_IGNORE_SELF :: u8 where "FRIEND_IGNORE_SELF = 0x0C"
definition FRIEND_IGNORE_ALREADY :: u8 where "FRIEND_IGNORE_ALREADY = 0x0E"
definition FRIEND_IGNORE_ADDED :: u8 where "FRIEND_IGNORE_ADDED = 0x0F"
definition FRIEND_IGNORE_REMOVED :: u8 where "FRIEND_IGNORE_REMOVED = 0x10"

definition SMSG_CONTACT_LIST :: u16 where "SMSG_CONTACT_LIST = 0x067"
definition SMSG_FRIEND_STATUS :: u16 where "SMSG_FRIEND_STATUS = 0x068"

lemmas social_flag_defs = SOCIAL_FLAG_FRIEND_def SOCIAL_FLAG_IGNORED_def SOCIAL_FLAG_MUTED_def

record friend_info =
  fi_status :: u8
  fi_flags :: u8
  fi_area :: u32
  fi_level :: u8
  fi_class :: u8
  fi_note :: bytes

definition friend_info_new :: "u8 \<Rightarrow> bytes \<Rightarrow> friend_info" where
  "friend_info_new flags note = \<lparr>fi_status = FRIEND_STATUS_OFFLINE, fi_flags = flags, fi_area = 0,
     fi_level = 0, fi_class = 0, fi_note = note\<rparr>"

type_synonym social_map = "(guid \<times> friend_info) list"

record player_social =
  soc_map :: social_map
  soc_guid :: guid

definition player_social_new :: player_social where
  "player_social_new = \<lparr>soc_map = [], soc_guid = guid_empty\<rparr>"

datatype social_stmt =
    UpdAddFlags u8 u32 u32
  | InsSocial u32 u32 u8
  | DelSocial u32 u32
  | UpdRemFlags u8 u32 u32
  | UpdNote bytes u32 u32

definition SOCIALMGR_FRIEND_LIMIT :: nat where "SOCIALMGR_FRIEND_LIMIT = 50"
definition SOCIALMGR_IGNORE_LIMIT :: nat where "SOCIALMGR_IGNORE_LIMIT = 50"

section \<open>\<open>PlayerSocial\<close>\<close>

text \<open>The counter is 32 bits; a list never comes near its range.\<close>

definition number_with_flag :: "u8 \<Rightarrow> player_social \<Rightarrow> nat" where
  "number_with_flag flag s = length (filter (\<lambda>e. fi_flags (snd e) AND flag \<noteq> 0) (soc_map s))"

definition add_to_social_list ::
    "guid \<Rightarrow> u8 \<Rightarrow> player_social \<Rightarrow> bool \<times> player_social \<times> social_stmt list" where
  "add_to_social_list friendGuid flag s =
     (if number_with_flag flag s \<ge>
          (if flag AND SOCIAL_FLAG_FRIEND \<noteq> 0 then SOCIALMGR_FRIEND_LIMIT else SOCIALMGR_IGNORE_LIMIT)
      then (False, s, [])
      else case map_of (soc_map s) friendGuid of
        Some fi \<Rightarrow>
          let fi = fi\<lparr>fi_flags := fi_flags fi OR flag\<rparr>
          in (True, s\<lparr>soc_map := om_put friendGuid fi (soc_map s)\<rparr>,
              [UpdAddFlags (fi_flags fi) (get_counter (soc_guid s)) (get_counter friendGuid)])
      | None \<Rightarrow>
          let fi = friend_info_new 0 [];
              fi = fi\<lparr>fi_flags := fi_flags fi OR flag\<rparr>
          in (True, s\<lparr>soc_map := om_put friendGuid fi (soc_map s)\<rparr>,
              [InsSocial (get_counter (soc_guid s)) (get_counter friendGuid) flag]))"

definition om_erase :: "guid \<Rightarrow> social_map \<Rightarrow> social_map" where
  "om_erase k xs = filter (\<lambda>e. fst e \<noteq> k) xs"

definition remove_from_social_list ::
    "guid \<Rightarrow> u8 \<Rightarrow> player_social \<Rightarrow> player_social \<times> social_stmt list" where
  "remove_from_social_list friendGuid flag s =
     (case map_of (soc_map s) friendGuid of
        None \<Rightarrow> (s, [])
      | Some fi \<Rightarrow>
          let fi = fi\<lparr>fi_flags := fi_flags fi AND NOT flag\<rparr>
          in if fi_flags fi = 0
             then (s\<lparr>soc_map := om_erase friendGuid (soc_map s)\<rparr>,
                   [DelSocial (get_counter (soc_guid s)) (get_counter friendGuid)])
             else (s\<lparr>soc_map := om_put friendGuid fi (soc_map s)\<rparr>,
                   [UpdRemFlags flag (get_counter (soc_guid s)) (get_counter friendGuid)]))"

text \<open>
  \<open>SetFriendNote\<close>; \<open>tr8\<close> is \<open>utf8truncate(note, 48)\<close>, a parameter: it converts through wide
  characters and writes the string it is given.
\<close>

definition set_friend_note ::
    "(bytes \<Rightarrow> bytes) \<Rightarrow> guid \<Rightarrow> bytes \<Rightarrow> player_social \<Rightarrow> player_social \<times> social_stmt list" where
  "set_friend_note tr8 friendGuid note s =
     (case map_of (soc_map s) friendGuid of
        None \<Rightarrow> (s, [])
      | Some fi \<Rightarrow>
          let note = tr8 note
          in (s\<lparr>soc_map := om_put friendGuid (fi\<lparr>fi_note := note\<rparr>) (soc_map s)\<rparr>,
              [UpdNote note (get_counter (soc_guid s)) (get_counter friendGuid)]))"

definition check_contact :: "guid \<Rightarrow> u8 \<Rightarrow> player_social \<Rightarrow> bool" where
  "check_contact g flags s = (case map_of (soc_map s) g of
     Some fi \<Rightarrow> fi_flags fi AND flags \<noteq> 0 | None \<Rightarrow> False)"

definition has_friend :: "guid \<Rightarrow> player_social \<Rightarrow> bool" where
  "has_friend g s = check_contact g SOCIAL_FLAG_FRIEND s"

definition has_ignore :: "guid \<Rightarrow> player_social \<Rightarrow> bool" where
  "has_ignore g s = check_contact g SOCIAL_FLAG_IGNORED s"

text \<open>
  \<open>GetFriendInfo\<close> fills in the cached fields of \<open>friendInfo\<close>; the note comes from the list of
  the player, \<open>own\<close>.
\<close>

definition get_friend_info ::
    "world_env \<Rightarrow> player_info option \<Rightarrow> social_map \<Rightarrow> guid \<Rightarrow> friend_info \<Rightarrow> friend_info" where
  "get_friend_info w player own friendGUID fi =
     (case player of
        None \<Rightarrow> fi
      | Some p \<Rightarrow>
          let fi = fi\<lparr>fi_status := FRIEND_STATUS_OFFLINE, fi_area := 0, fi_level := 0, fi_class := 0\<rparr> in
          case find_connected_player w friendGUID of
            None \<Rightarrow> fi
          | Some f \<Rightarrow>
              if is_gm_account f then fi
              else
                let fi = (case map_of own friendGUID of
                            Some e \<Rightarrow> fi\<lparr>fi_note := fi_note e\<rparr> | None \<Rightarrow> fi)
                in if (\<not> is_player_level (pl_security p)
                       \<or> ((pl_team f = pl_team p \<or> we_two_side_who w)
                          \<and> pl_security f \<le> we_gm_level_in_who w))
                      \<and> is_visible_globally_for w f (Some p)
                   then fi\<lparr>fi_status := (if pl_dnd f then FRIEND_STATUS_DND
                                         else if pl_afk f then FRIEND_STATUS_AFK
                                         else FRIEND_STATUS_ONLINE),
                          fi_area := pl_zone f, fi_level := pl_level f, fi_class := pl_class f\<rparr>
                   else fi)"

text \<open>
  The loop of \<open>SendSocialList\<close>: the counts of friends, ignored and all entries, the entries
  with their refreshed cache, and the fields written.
\<close>

fun social_list_loop :: "world_env \<Rightarrow> player_info \<Rightarrow> social_map \<Rightarrow> u32 \<Rightarrow> nat \<Rightarrow> nat \<Rightarrow> social_map
    \<Rightarrow> nat \<times> social_map \<times> field list" where
  "social_list_loop w p own flags friendsCount ignoredCount [] = (0, [], [])"
| "social_list_loop w p own flags friendsCount ignoredCount ((g, fi) # rest) =
     (let contactFlags = fi_flags fi in
      if ucast contactFlags AND flags = 0
      then (let (n, m, fs) = social_list_loop w p own flags friendsCount ignoredCount rest
            in (n, (g, fi) # m, fs))
      else
        let friendsCount = (if contactFlags AND SOCIAL_FLAG_FRIEND \<noteq> 0 then friendsCount + 1 else friendsCount) in
        if contactFlags AND SOCIAL_FLAG_FRIEND \<noteq> 0 \<and> friendsCount > SOCIALMGR_FRIEND_LIMIT
        then (let (n, m, fs) = social_list_loop w p own flags friendsCount ignoredCount rest
              in (n, (g, fi) # m, fs))
        else
          let ignoredCount = (if contactFlags AND SOCIAL_FLAG_IGNORED \<noteq> 0 then ignoredCount + 1 else ignoredCount) in
          if contactFlags AND SOCIAL_FLAG_IGNORED \<noteq> 0 \<and> ignoredCount > SOCIALMGR_IGNORE_LIMIT
          then (let (n, m, fs) = social_list_loop w p own flags friendsCount ignoredCount rest
                in (n, (g, fi) # m, fs))
          else
            let fi = get_friend_info w (Some p) own g fi;
                (n, m, fs) = social_list_loop w p own flags friendsCount ignoredCount rest
            in (n + 1, (g, fi) # m,
                [FU64 g, FU32 (ucast contactFlags), FStr (fi_note fi)]
                @ (if contactFlags AND SOCIAL_FLAG_FRIEND \<noteq> 0
                   then FU8 (fi_status fi) #
                     (if fi_status fi \<noteq> 0
                      then [FU32 (fi_area fi), FU32 (ucast (fi_level fi)), FU32 (ucast (fi_class fi))]
                      else [])
                   else [])
                @ fs))"

definition send_social_list :: "world_env \<Rightarrow> player_info option \<Rightarrow> social_map \<Rightarrow> u32 \<Rightarrow> player_social
    \<Rightarrow> player_social \<times> world_packet option" where
  "send_social_list w player own flags s =
     (case player of
        None \<Rightarrow> (s, None)
      | Some p \<Rightarrow>
          let (n, m, fs) = social_list_loop w p own flags 0 0 (soc_map s)
          in (s\<lparr>soc_map := m\<rparr>,
              Some (WorldPacket SMSG_CONTACT_LIST ([FU32 flags, FU32 (word_of_nat n)] @ fs))))"

section \<open>\<open>SocialMgr\<close>\<close>

type_synonym social_mgr = "(guid \<times> player_social) list"

definition remove_player_social :: "guid \<Rightarrow> social_mgr \<Rightarrow> social_mgr" where
  "remove_player_social g m = filter (\<lambda>e. fst e \<noteq> g) m"

definition make_friend_status_packet :: "u8 \<Rightarrow> guid \<Rightarrow> world_packet \<Rightarrow> world_packet" where
  "make_friend_status_packet result g data =
     wp_put (FU64 g) (wp_put (FU8 result) (wp_initialize SMSG_FRIEND_STATUS data))"

definition friend_status_packet :: "u8 \<Rightarrow> guid \<Rightarrow> friend_info \<Rightarrow> world_packet" where
  "friend_status_packet result g fi = WorldPacket SMSG_FRIEND_STATUS
     ([FU8 result, FU64 g]
      @ (if result = FRIEND_ADDED_OFFLINE \<or> result = FRIEND_ADDED_ONLINE then [FStr (fi_note fi)] else [])
      @ (if result = FRIEND_ADDED_ONLINE \<or> result = FRIEND_ONLINE
         then [FU8 (fi_status fi), FU32 (fi_area fi), FU32 (ucast (fi_level fi)), FU32 (ucast (fi_class fi))]
         else []))"

text \<open>The players the packet goes to, in the order of the map.\<close>

definition broadcast_to_friend_listers ::
    "world_env \<Rightarrow> player_info option \<Rightarrow> world_packet \<Rightarrow> social_mgr \<Rightarrow> (guid \<times> world_packet) list" where
  "broadcast_to_friend_listers w player packet m =
     (case player of
        None \<Rightarrow> []
      | Some p \<Rightarrow>
          concat (map (\<lambda>(g, s).
            case map_of (soc_map s) (pl_guid p) of
              None \<Rightarrow> []
            | Some fi \<Rightarrow>
                if fi_flags fi AND SOCIAL_FLAG_FRIEND \<noteq> 0 then
                  (case find_player w g of
                     None \<Rightarrow> []
                   | Some f \<Rightarrow>
                       if (\<not> is_player_level (pl_security f)
                           \<or> ((pl_team f = pl_team p \<or> we_two_side_who w)
                              \<and> pl_security p \<le> we_gm_level_in_who w))
                          \<and> is_visible_globally_for w p (Some f)
                       then [(pl_guid f, packet)] else [])
                else []) m))"

definition send_friend_status :: "world_env \<Rightarrow> player_info \<Rightarrow> social_map \<Rightarrow> u8 \<Rightarrow> guid \<Rightarrow> bool
    \<Rightarrow> social_mgr \<Rightarrow> (guid \<times> world_packet) list" where
  "send_friend_status w player own result friendGuid broadcast m =
     (let fi = get_friend_info w (Some player) own friendGuid (friend_info_new 0 []);
          data = friend_status_packet result friendGuid fi
      in if broadcast then broadcast_to_friend_listers w (Some player) data m
         else [(pl_guid player, data)])"

text \<open>
  \<open>LoadFromDB\<close>: the rows are friend, flags and note. The entry of the map is created if it is
  missing, and rows add to what it holds.
\<close>

definition load_social_rows :: "(u32 \<times> u8 \<times> bytes) list \<Rightarrow> social_map \<Rightarrow> social_map" where
  "load_social_rows rows m =
     fold (\<lambda>(friend, flags, note). om_put (guid_create_global HG_Player friend) (friend_info_new flags note)) rows m"

definition load_from_db :: "(u32 \<times> u8 \<times> bytes) list option \<Rightarrow> guid \<Rightarrow> social_mgr
    \<Rightarrow> player_social \<times> social_mgr" where
  "load_from_db result g m =
     (let social = (case map_of m g of Some s \<Rightarrow> s | None \<Rightarrow> player_social_new);
          social = social\<lparr>soc_guid := g\<rparr>;
          social = (case result of None \<Rightarrow> social
                    | Some rows \<Rightarrow> social\<lparr>soc_map := load_social_rows rows (soc_map social)\<rparr>)
      in (social, om_put g social m))"

end
