(* ===== verification/SocialHandlers.thy ===== *)
theory SocialHandlers
  imports SocialMgr
begin

text \<open>
  The client's requests on its friend and ignore lists
  (src/server/game/Handlers/Socialhandler.cpp), the table \<open>character_social\<close> their statements
  act on (CharacterDatabase.cpp), and what both keep: the limits of the client, the agreement of
  memory and table, and the contact list a client can read back.
\<close>

section \<open>The handlers\<close>

text \<open>What a request leaves behind: the list, the statements issued, the packets sent.\<close>

type_synonym social_outcome = "player_social \<times> social_stmt list \<times> (guid \<times> world_packet) list"

definition CMSG_CONTACT_LIST :: u16 where "CMSG_CONTACT_LIST = 0x066"
definition CMSG_ADD_FRIEND :: u16 where "CMSG_ADD_FRIEND = 0x069"
definition CMSG_DEL_FRIEND :: u16 where "CMSG_DEL_FRIEND = 0x06A"
definition CMSG_SET_CONTACT_NOTES :: u16 where "CMSG_SET_CONTACT_NOTES = 0x06B"
definition CMSG_ADD_IGNORE :: u16 where "CMSG_ADD_IGNORE = 0x06C"
definition CMSG_DEL_IGNORE :: u16 where "CMSG_DEL_IGNORE = 0x06D"

definition handle_contact_list :: "world_env \<Rightarrow> player_info \<Rightarrow> byte_buffer \<Rightarrow> player_social
    \<Rightarrow> bb_error + social_outcome" where
  "handle_contact_list w p recv_data s =
     res_bind (bb_get_u32 recv_data) (\<lambda>(flags, _).
       let (s, data) = send_social_list w (Some p) (soc_map s) flags s
       in Inr (s, [], map (Pair (pl_guid p)) (case data of Some d \<Rightarrow> [d] | None \<Rightarrow> [])))"

text \<open>
  \<open>friend_result\<close> is the chain of tests in \<open>HandleAddFriendOpcode\<close> before the list is changed;
  \<open>None\<close> stands for its last branch, which adds the friend.
\<close>

definition friend_result :: "world_env \<Rightarrow> player_info \<Rightarrow> guid \<Rightarrow> character_entry \<Rightarrow> player_social \<Rightarrow> u8 option" where
  "friend_result w p friendGuid ce s =
     (if friendGuid = pl_guid p then Some FRIEND_SELF
      else if pl_team p \<noteq> ce_team ce \<and> \<not> we_two_side_add_friend w \<and> is_player_level (pl_security p)
      then Some FRIEND_ENEMY
      else if has_friend friendGuid s then Some FRIEND_ALREADY
      else None)"

definition may_befriend :: "world_env \<Rightarrow> player_info \<Rightarrow> character_entry \<Rightarrow> bool" where
  "may_befriend w p ce \<longleftrightarrow> \<not> is_player_level (pl_security p) \<or> we_gm_friend w
     \<or> is_player_level (we_account_security w (ce_account ce))"

definition added_result :: "world_env \<Rightarrow> player_info \<Rightarrow> guid \<Rightarrow> u8" where
  "added_result w p friendGuid =
     (case find_connected_player w friendGuid of
        Some f \<Rightarrow> if is_visible_globally_for w f (Some p) \<and> \<not> is_gm_account f
                  then FRIEND_ADDED_ONLINE else FRIEND_ADDED_OFFLINE
      | None \<Rightarrow> FRIEND_ADDED_OFFLINE)"

text \<open>
  The body once the name is resolved: the result, the list and the statements. The note is set
  once more after the chain, whatever the chain decided.
\<close>

definition add_friend_body :: "world_env \<Rightarrow> player_info \<Rightarrow> (bytes \<Rightarrow> bytes) \<Rightarrow> guid \<Rightarrow> character_entry
    \<Rightarrow> bytes \<Rightarrow> player_social \<Rightarrow> u8 \<times> player_social \<times> social_stmt list" where
  "add_friend_body w p tr8 friendGuid ce note s =
     (if \<not> may_befriend w p ce then (FRIEND_NOT_FOUND, s, [])
      else
        let (res, s, st) =
          (case friend_result w p friendGuid ce s of
             Some r \<Rightarrow> (r, s, [])
           | None \<Rightarrow>
               let (added, s, st) = add_to_social_list friendGuid SOCIAL_FLAG_FRIEND s in
               if added then let (s, st') = set_friend_note tr8 friendGuid note s
                             in (added_result w p friendGuid, s, st @ st')
               else (FRIEND_LIST_FULL, s, st));
            (s, st') = set_friend_note tr8 friendGuid note s
        in (res, s, st @ st'))"

definition handle_add_friend :: "world_env \<Rightarrow> player_info \<Rightarrow> (bytes \<Rightarrow> bytes) \<Rightarrow> byte_buffer
    \<Rightarrow> player_social \<Rightarrow> bb_error + social_outcome" where
  "handle_add_friend w p tr8 recv_data s =
     res_bind (bb_get_string recv_data) (\<lambda>(friendName, recv_data).
     res_bind (bb_get_string recv_data) (\<lambda>(friendNote, _).
       case we_normalize w friendName of
         None \<Rightarrow> Inr (s, [], [])
       | Some friendName \<Rightarrow>
           let friendGuid = we_guid_of_name w friendName in
           if is_empty friendGuid then Inr (s, [], [])
           else case we_characters w friendGuid of
             None \<Rightarrow> Inr (s, [], [])
           | Some ce \<Rightarrow>
               let (res, s, st) = add_friend_body w p tr8 friendGuid ce friendNote s
               in Inr (s, st, send_friend_status w p (soc_map s) res friendGuid False [])))"

definition handle_del_friend :: "world_env \<Rightarrow> player_info \<Rightarrow> byte_buffer \<Rightarrow> player_social
    \<Rightarrow> bb_error + social_outcome" where
  "handle_del_friend w p recv_data s =
     res_bind (bb_get_u64 recv_data) (\<lambda>(friendGUID, _).
       let (s, st) = remove_from_social_list friendGUID SOCIAL_FLAG_FRIEND s
       in Inr (s, st, send_friend_status w p (soc_map s) FRIEND_REMOVED friendGUID False []))"

definition add_ignore_body :: "player_info \<Rightarrow> guid \<Rightarrow> player_social \<Rightarrow> u8 \<times> player_social \<times> social_stmt list" where
  "add_ignore_body p ignoreGuid s =
     (if ignoreGuid = pl_guid p then (FRIEND_IGNORE_SELF, s, [])
      else if has_ignore ignoreGuid s then (FRIEND_IGNORE_ALREADY, s, [])
      else let (added, s, st) = add_to_social_list ignoreGuid SOCIAL_FLAG_IGNORED s
           in (if added then FRIEND_IGNORE_ADDED else FRIEND_IGNORE_FULL, s, st))"

definition handle_add_ignore :: "world_env \<Rightarrow> player_info \<Rightarrow> byte_buffer \<Rightarrow> player_social
    \<Rightarrow> bb_error + social_outcome" where
  "handle_add_ignore w p recv_data s =
     res_bind (bb_get_string recv_data) (\<lambda>(ignoreName, _).
       case we_normalize w ignoreName of
         None \<Rightarrow> Inr (s, [], [])
       | Some ignoreName \<Rightarrow>
           let ignoreGuid = we_guid_of_name w ignoreName in
           if is_empty ignoreGuid then Inr (s, [], [])
           else let (res, s, st) = add_ignore_body p ignoreGuid s
                in Inr (s, st, send_friend_status w p (soc_map s) res ignoreGuid False []))"

definition handle_del_ignore :: "world_env \<Rightarrow> player_info \<Rightarrow> byte_buffer \<Rightarrow> player_social
    \<Rightarrow> bb_error + social_outcome" where
  "handle_del_ignore w p recv_data s =
     res_bind (bb_get_u64 recv_data) (\<lambda>(ignoreGUID, _).
       let (s, st) = remove_from_social_list ignoreGUID SOCIAL_FLAG_IGNORED s
       in Inr (s, st, send_friend_status w p (soc_map s) FRIEND_IGNORE_REMOVED ignoreGUID False []))"

definition handle_set_contact_notes :: "(bytes \<Rightarrow> bytes) \<Rightarrow> byte_buffer \<Rightarrow> player_social
    \<Rightarrow> bb_error + social_outcome" where
  "handle_set_contact_notes tr8 recv_data s =
     res_bind (bb_get_u64 recv_data) (\<lambda>(g, recv_data).
     res_bind (bb_get_string recv_data) (\<lambda>(note, _).
       let (s, st) = set_friend_note tr8 g note s in Inr (s, st, [])))"

text \<open>
  The requests of one session, each in the world of its moment. A packet that is too short
  leaves the handler with an exception, which the session's update catches.
\<close>

definition handle_social :: "player_info \<Rightarrow> (bytes \<Rightarrow> bytes) \<Rightarrow> world_env \<times> u16 \<times> byte_buffer
    \<Rightarrow> player_social \<Rightarrow> bb_error + social_outcome" where
  "handle_social p tr8 req s =
     (case req of (w, opcode, recv_data) \<Rightarrow>
        if opcode = CMSG_CONTACT_LIST then handle_contact_list w p recv_data s
        else if opcode = CMSG_ADD_FRIEND then handle_add_friend w p tr8 recv_data s
        else if opcode = CMSG_DEL_FRIEND then handle_del_friend w p recv_data s
        else if opcode = CMSG_ADD_IGNORE then handle_add_ignore w p recv_data s
        else if opcode = CMSG_DEL_IGNORE then handle_del_ignore w p recv_data s
        else if opcode = CMSG_SET_CONTACT_NOTES then handle_set_contact_notes tr8 recv_data s
        else Inr (s, [], []))"

fun social_session :: "player_info \<Rightarrow> (bytes \<Rightarrow> bytes) \<Rightarrow> (world_env \<times> u16 \<times> byte_buffer) list
    \<Rightarrow> player_social \<Rightarrow> social_outcome" where
  "social_session p tr8 [] s = (s, [], [])"
| "social_session p tr8 (req # reqs) s =
     (case handle_social p tr8 req s of
        Inl _ \<Rightarrow> social_session p tr8 reqs s
      | Inr (s, st, out) \<Rightarrow>
          let (s, st', out') = social_session p tr8 reqs s in (s, st @ st', out @ out'))"

section \<open>The table\<close>

text \<open>
  The rows of \<open>character_social\<close>. Its primary key is (guid, friend, flags), so \<open>REPLACE\<close> only
  replaces a row with the same flags.
\<close>

record social_row =
  row_guid :: u32
  row_friend :: u32
  row_flags :: u8
  row_note :: bytes

type_synonym social_table = "social_row list"

definition row_is :: "u32 \<Rightarrow> u32 \<Rightarrow> social_row \<Rightarrow> bool" where
  "row_is g f r \<longleftrightarrow> row_guid r = g \<and> row_friend r = f"

definition update_rows :: "u32 \<Rightarrow> u32 \<Rightarrow> (social_row \<Rightarrow> social_row) \<Rightarrow> social_table \<Rightarrow> social_table" where
  "update_rows g f upd t = map (\<lambda>r. if row_is g f r then upd r else r) t"

fun exec_social :: "social_stmt \<Rightarrow> social_table \<Rightarrow> social_table" where
  "exec_social (UpdAddFlags fl g f) t = update_rows g f (\<lambda>r. r\<lparr>row_flags := row_flags r OR fl\<rparr>) t"
| "exec_social (UpdRemFlags fl g f) t = update_rows g f (\<lambda>r. r\<lparr>row_flags := row_flags r AND NOT fl\<rparr>) t"
| "exec_social (UpdNote note g f) t = update_rows g f (\<lambda>r. r\<lparr>row_note := note\<rparr>) t"
| "exec_social (DelSocial g f) t = filter (\<lambda>r. \<not> row_is g f r) t"
| "exec_social (InsSocial g f fl) t =
     filter (\<lambda>r. \<not> (row_is g f r \<and> row_flags r = fl)) t
     @ [\<lparr>row_guid = g, row_friend = f, row_flags = fl, row_note = []\<rparr>]"

text \<open>The rows the login query selects for a player: friend, flags, note.\<close>

definition select_social :: "u32 \<Rightarrow> social_table \<Rightarrow> (u32 \<times> u8 \<times> bytes) list" where
  "select_social g t =
     map (\<lambda>r. (row_friend r, row_flags r, row_note r)) (filter (\<lambda>r. row_guid r = g) t)"

section \<open>What a list and its table keep\<close>

definition player_key :: "guid \<Rightarrow> bool" where
  "player_key g \<longleftrightarrow> g = guid_create_global HG_Player (get_counter g)"

lemma get_counter_player [simp]: "get_counter (guid_create_global HG_Player f) = f"
proof (cases "f = 0")
  case True
  then show ?thesis by (simp add: guid_create_global_def guid_make_global_def get_counter_def guid_empty_def)
next
  case False
  have "\<not> has_entry_high HG_Player" by code_simp
  with False show ?thesis by (simp add: guid_create_global_def get_counter_guid_make_global)
qed

lemma player_key_create [simp]: "player_key (guid_create_global HG_Player f)"
  by (simp add: player_key_def)

lemma create_eq_key: "player_key g \<Longrightarrow> guid_create_global HG_Player f = g \<longleftrightarrow> f = get_counter g"
  by (metis get_counter_player player_key_def)

definition soc_ok :: "player_social \<Rightarrow> bool" where
  "soc_ok s \<longleftrightarrow> om_sorted (soc_map s)
     \<and> list_all (\<lambda>(g, fi). player_key g \<and> fi_flags fi \<noteq> 0) (soc_map s)
     \<and> number_with_flag SOCIAL_FLAG_FRIEND s \<le> SOCIALMGR_FRIEND_LIMIT
     \<and> number_with_flag SOCIAL_FLAG_IGNORED s \<le> SOCIALMGR_IGNORE_LIMIT"

definition entry_of :: "friend_info \<Rightarrow> u8 \<times> bytes" where
  "entry_of fi = (fi_flags fi, fi_note fi)"

definition table_matches :: "social_table \<Rightarrow> player_social \<Rightarrow> bool" where
  "table_matches t s \<longleftrightarrow>
     (let rows = select_social (get_counter (soc_guid s)) t
      in distinct (map fst rows) \<and>
         (\<forall>f. map_of rows f = map_option entry_of (map_of (soc_map s) (guid_create_global HG_Player f))))"

text \<open>The rows of every other player.\<close>

definition other_rows :: "u32 \<Rightarrow> social_table \<Rightarrow> social_table" where
  "other_rows g t = filter (\<lambda>r. row_guid r \<noteq> g) t"

text \<open>
  An operation tracks the table when it keeps the owner and the well-formedness of the list,
  and its statements bring the table from the old list to the new one, other players' rows
  untouched.
\<close>

definition tracks :: "player_social \<Rightarrow> social_stmt list \<Rightarrow> player_social \<Rightarrow> bool" where
  "tracks s st s' \<longleftrightarrow> soc_guid s' = soc_guid s \<and> (soc_ok s \<longrightarrow> soc_ok s') \<and>
     (\<forall>t. soc_ok s \<and> table_matches t s \<longrightarrow> table_matches (fold exec_social st t) s'
        \<and> other_rows (get_counter (soc_guid s)) (fold exec_social st t)
          = other_rows (get_counter (soc_guid s)) t)"

lemma tracks_refl: "tracks s [] s"
  by (simp add: tracks_def)

lemma tracks_trans: "tracks s st s' \<Longrightarrow> tracks s' st' s'' \<Longrightarrow> tracks s (st @ st') s''"
  by (simp add: tracks_def)

subsection \<open>Counting flags\<close>

lemma count_om_put:
  assumes "om_sorted xs"
  shows "length (filter P (om_put k v xs))
    + (case map_of xs k of Some v0 \<Rightarrow> if P (k, v0) then 1 else 0 | None \<Rightarrow> 0)
    = length (filter P xs) + (if P (k, v) then 1 else 0)"
  using assms
proof (induction k v xs rule: om_put.induct)
  case (2 k v a b xs)
  have "map_of xs k = None" if "k \<le> a"
    using 2(2) that by (force simp: map_of_eq_None_iff)
  with 2 show ?case by auto
qed simp

lemma count_om_put_le:
  assumes "om_sorted xs" "map_of xs k = Some v0" "P (k, v) \<Longrightarrow> P (k, v0)"
  shows "length (filter P (om_put k v xs)) \<le> length (filter P xs)"
  using count_om_put [OF assms(1), of P k v] assms(2,3) by (auto split: if_splits)

lemma set_om_put_sorted: "om_sorted xs \<Longrightarrow> set (om_put k v xs) = insert (k, v) {e \<in> set xs. fst e \<noteq> k}"
proof (induction k v xs rule: om_put.induct)
  case (2 k v a b xs)
  then show ?case by (auto simp: not_less)
qed simp

lemma flags_or_and:
  "(x OR f) AND f' = (x AND f') OR (f AND f')" for x f f' :: u8
  by (rule bit.conj_disj_distrib2)

lemma and_not_and: "(x AND NOT f) AND f' \<noteq> 0 \<Longrightarrow> x AND f' \<noteq> 0" for x f f' :: u8
  by (metis and.assoc and.commute and_zero_eq)

lemma or_flag_ne_0: "x OR f = 0 \<longleftrightarrow> x = 0 \<and> f = 0" for x f :: u8
  by (rule or_eq_0_iff)

subsection \<open>Statements on the rows of one player\<close>

definition map_at :: "'k \<Rightarrow> ('v \<Rightarrow> 'v) \<Rightarrow> ('k \<times> 'v) list \<Rightarrow> ('k \<times> 'v) list" where
  "map_at f h rows = map (\<lambda>(a, x). (a, if a = f then h x else x)) rows"

lemma fst_map_at [simp]: "map fst (map_at f h rows) = map fst rows"
  by (simp add: map_at_def case_prod_beta comp_def)

lemma map_of_map_at [simp]: "map_of (map_at f h rows) = (map_of rows)(f := map_option h (map_of rows f))"
  by (induction rows) (auto simp: map_at_def)

lemma select_update_rows:
  assumes "\<And>r. row_guid (upd r) = row_guid r \<and> row_friend (upd r) = row_friend r
    \<and> (row_flags (upd r), row_note (upd r)) = h (row_flags r, row_note r)"
  shows "select_social g (update_rows g f upd t) = map_at f h (select_social g t)"
  using assms by (induction t) (auto simp: select_social_def update_rows_def map_at_def row_is_def)

lemma select_delete:
  "select_social g (filter (\<lambda>r. \<not> row_is g f r) t) = filter (\<lambda>e. fst e \<noteq> f) (select_social g t)"
  by (induction t) (auto simp: select_social_def row_is_def)

lemma select_insert:
  assumes "map_of (select_social g t) f = None"
  shows "select_social g (exec_social (InsSocial g f fl) t) = select_social g t @ [(f, fl, [])]"
  using assms by (induction t) (auto simp: select_social_def row_is_def split: if_splits)

lemma other_rows_exec:
  "other_rows g (exec_social (UpdAddFlags fl g f) t) = other_rows g t"
  "other_rows g (exec_social (UpdRemFlags fl g f) t) = other_rows g t"
  "other_rows g (exec_social (UpdNote n g f) t) = other_rows g t"
  "other_rows g (exec_social (DelSocial g f) t) = other_rows g t"
  "other_rows g (exec_social (InsSocial g f fl) t) = other_rows g t"
  by (induction t) (auto simp: other_rows_def update_rows_def row_is_def)

lemma select_exec:
  "select_social g (exec_social (UpdAddFlags fl g f) t) = map_at f (\<lambda>(x, n). (x OR fl, n)) (select_social g t)"
  "select_social g (exec_social (UpdRemFlags fl g f) t) = map_at f (\<lambda>(x, n). (x AND NOT fl, n)) (select_social g t)"
  "select_social g (exec_social (UpdNote n g f) t) = map_at f (\<lambda>(x, _). (x, n)) (select_social g t)"
  by (simp_all add: select_update_rows)

lemma map_of_filter_ne: "map_of (filter (\<lambda>e. fst e \<noteq> k) xs) = (map_of xs)(k := None)"
  by (induction xs) (auto simp: fun_eq_iff)

lemma map_of_snoc: "map_of xs k = None \<Longrightarrow> map_of (xs @ [(k, v)]) = (map_of xs)(k \<mapsto> v)"
  by (auto simp: fun_eq_iff map_add_def split: option.splits)

lemma distinct_snoc: "map_of xs k = None \<Longrightarrow> distinct (map fst (xs @ [(k, v)])) = distinct (map fst xs)"
  by (simp add: map_of_eq_None_iff)

lemma length_filter_filter_le: "length (filter P (filter Q xs)) \<le> length (filter P xs)"
  by (induction xs) auto

lemma distinct_filter_fst: "distinct (map fst xs) \<Longrightarrow> distinct (map fst (filter P xs))"
  by (simp add: distinct_map_filter)

subsection \<open>The operations track the table\<close>

lemma soc_okD:
  assumes "soc_ok s"
  shows "om_sorted (soc_map s)" "\<And>g fi. map_of (soc_map s) g = Some fi \<Longrightarrow> player_key g \<and> fi_flags fi \<noteq> 0"
    "number_with_flag SOCIAL_FLAG_FRIEND s \<le> SOCIALMGR_FRIEND_LIMIT"
    "number_with_flag SOCIAL_FLAG_IGNORED s \<le> SOCIALMGR_IGNORE_LIMIT"
  using assms by (auto simp: soc_ok_def list_all_iff dest!: map_of_SomeD)

lemma soc_ok_put:
  assumes "soc_ok s" "player_key g" "fi_flags fi \<noteq> 0"
    "number_with_flag SOCIAL_FLAG_FRIEND (s\<lparr>soc_map := om_put g fi (soc_map s)\<rparr>) \<le> SOCIALMGR_FRIEND_LIMIT"
    "number_with_flag SOCIAL_FLAG_IGNORED (s\<lparr>soc_map := om_put g fi (soc_map s)\<rparr>) \<le> SOCIALMGR_IGNORE_LIMIT"
  shows "soc_ok (s\<lparr>soc_map := om_put g fi (soc_map s)\<rparr>)"
  using assms by (auto simp: soc_ok_def om_put_sorted set_om_put_sorted list_all_iff)

lemma matches_put:
  assumes "om_sorted (soc_map s)" "player_key g" "table_matches t s"
    "distinct (map fst (select_social (get_counter (soc_guid s)) t'))"
    "map_of (select_social (get_counter (soc_guid s)) t') =
       (map_of (select_social (get_counter (soc_guid s)) t))(get_counter g \<mapsto> entry_of fi)"
  shows "table_matches t' (s\<lparr>soc_map := om_put g fi (soc_map s)\<rparr>)"
  using assms by (auto simp: table_matches_def Let_def map_of_om_put create_eq_key)

text \<open>What a put and the statement on its row have in common.\<close>

lemma tracks_put:
  assumes ok: "soc_ok s \<Longrightarrow> soc_ok (s\<lparr>soc_map := om_put g fi (soc_map s)\<rparr>)"
    and key: "soc_ok s \<Longrightarrow> player_key g"
    and rows: "\<And>t. soc_ok s \<Longrightarrow> table_matches t s \<Longrightarrow>
       distinct (map fst (select_social (get_counter (soc_guid s)) (exec_social st t))) \<and>
       map_of (select_social (get_counter (soc_guid s)) (exec_social st t)) =
         (map_of (select_social (get_counter (soc_guid s)) t))(get_counter g \<mapsto> entry_of fi)"
    and others: "\<And>t. other_rows (get_counter (soc_guid s)) (exec_social st t)
       = other_rows (get_counter (soc_guid s)) t"
  shows "tracks s [st] (s\<lparr>soc_map := om_put g fi (soc_map s)\<rparr>)"
  using ok key rows others by (auto simp: tracks_def soc_okD(1) intro: matches_put)

lemma row_at:
  assumes "soc_ok s" "table_matches t s" "player_key g"
  shows "map_of (select_social (get_counter (soc_guid s)) t) (get_counter g)
    = map_option entry_of (map_of (soc_map s) g)"
  using assms by (simp add: table_matches_def Let_def player_key_def [of g, symmetric])
     (metis player_key_def)

lemma table_distinct: "table_matches t s \<Longrightarrow> distinct (map fst (select_social (get_counter (soc_guid s)) t))"
  by (simp add: table_matches_def Let_def)

lemma tracks_note: "set_friend_note tr8 g note s = (s', st) \<Longrightarrow> tracks s st s'"
proof (cases "map_of (soc_map s) g")
  case None
  then show "set_friend_note tr8 g note s = (s', st) \<Longrightarrow> ?thesis"
    by (simp add: set_friend_note_def tracks_refl)
next
  case (Some fi)
  let ?fi = "fi\<lparr>fi_note := tr8 note\<rparr>"
  let ?st = "UpdNote (tr8 note) (get_counter (soc_guid s)) (get_counter g)"
  have count: "number_with_flag fl (s\<lparr>soc_map := om_put g ?fi (soc_map s)\<rparr>) \<le> number_with_flag fl s"
    if "soc_ok s" for fl
    using count_om_put_le [OF soc_okD(1) [OF that] Some, of "\<lambda>e. fi_flags (snd e) AND fl \<noteq> 0" ?fi]
    by (simp add: number_with_flag_def)
  have "tracks s [?st] (s\<lparr>soc_map := om_put g ?fi (soc_map s)\<rparr>)"
  proof (rule tracks_put)
    assume ok: "soc_ok s"
    show "soc_ok (s\<lparr>soc_map := om_put g ?fi (soc_map s)\<rparr>)"
      using soc_okD [OF ok] Some count [OF ok] ok
      by (intro soc_ok_put) (auto intro: order.trans)
    show "player_key g" using soc_okD(2) [OF ok Some] by simp
    fix t assume t: "table_matches t s"
    have "map_of (select_social (get_counter (soc_guid s)) t) (get_counter g) = Some (entry_of fi)"
      using row_at [OF ok t] soc_okD(2) [OF ok Some] Some by simp
    then show "distinct (map fst (select_social (get_counter (soc_guid s)) (exec_social ?st t))) \<and>
        map_of (select_social (get_counter (soc_guid s)) (exec_social ?st t)) =
        (map_of (select_social (get_counter (soc_guid s)) t))(get_counter g \<mapsto> entry_of ?fi)"
      using table_distinct [OF t] by (simp add: select_exec entry_of_def del: exec_social.simps)
  next
    show "other_rows (get_counter (soc_guid s)) (exec_social ?st t)
        = other_rows (get_counter (soc_guid s)) t" for t
      by (rule other_rows_exec)
  qed
  then show "set_friend_note tr8 g note s = (s', st) \<Longrightarrow> ?thesis"
    using Some by (auto simp: set_friend_note_def Let_def)
qed

lemma tracks_erase:
  assumes "map_of (soc_map s) g = Some fi"
  shows "tracks s [DelSocial (get_counter (soc_guid s)) (get_counter g)] (s\<lparr>soc_map := om_erase g (soc_map s)\<rparr>)"
proof -
  let ?s = "s\<lparr>soc_map := om_erase g (soc_map s)\<rparr>"
  have count: "number_with_flag fl ?s \<le> number_with_flag fl s" for fl
    unfolding number_with_flag_def om_erase_def by (simp add: length_filter_filter_le del: filter_filter)
  have ok: "soc_ok ?s" if "soc_ok s"
    using that count [of SOCIAL_FLAG_FRIEND] count [of SOCIAL_FLAG_IGNORED]
    by (auto simp: soc_ok_def om_erase_def list_all_iff om_sorted_filter intro: order.trans)
  have match: "table_matches (exec_social (DelSocial (get_counter (soc_guid s)) (get_counter g)) t) ?s"
    if "soc_ok s" "table_matches t s" for t
    using that soc_okD(2) [OF that(1) assms]
    by (auto simp: table_matches_def Let_def select_delete distinct_filter_fst map_of_filter_ne
        om_erase_def create_eq_key)
  show ?thesis using ok match by (simp add: tracks_def other_rows_exec del: exec_social.simps)
qed

lemma tracks_remove: "remove_from_social_list g f s = (s', st) \<Longrightarrow> tracks s st s'"
proof (cases "map_of (soc_map s) g")
  case None
  then show "remove_from_social_list g f s = (s', st) \<Longrightarrow> ?thesis"
    by (simp add: remove_from_social_list_def tracks_refl)
next
  case (Some fi)
  let ?fi = "fi\<lparr>fi_flags := fi_flags fi AND NOT f\<rparr>"
  let ?st = "UpdRemFlags f (get_counter (soc_guid s)) (get_counter g)"
  have count: "number_with_flag fl (s\<lparr>soc_map := om_put g ?fi (soc_map s)\<rparr>) \<le> number_with_flag fl s"
    if "soc_ok s" for fl
    using count_om_put_le [OF soc_okD(1) [OF that] Some, of "\<lambda>e. fi_flags (snd e) AND fl \<noteq> 0" ?fi]
    by (auto simp: number_with_flag_def dest: and_not_and)
  have put: "tracks s [?st] (s\<lparr>soc_map := om_put g ?fi (soc_map s)\<rparr>)"
    if ne: "fi_flags fi AND NOT f \<noteq> 0"
  proof (rule tracks_put)
    assume ok: "soc_ok s"
    show "soc_ok (s\<lparr>soc_map := om_put g ?fi (soc_map s)\<rparr>)"
      using soc_okD [OF ok] Some count [OF ok] ok ne
      by (intro soc_ok_put) (auto intro: order.trans)
    show "player_key g" using soc_okD(2) [OF ok Some] by simp
    fix t assume t: "table_matches t s"
    have "map_of (select_social (get_counter (soc_guid s)) t) (get_counter g) = Some (entry_of fi)"
      using row_at [OF ok t] soc_okD(2) [OF ok Some] Some by simp
    then show "distinct (map fst (select_social (get_counter (soc_guid s)) (exec_social ?st t))) \<and>
        map_of (select_social (get_counter (soc_guid s)) (exec_social ?st t)) =
        (map_of (select_social (get_counter (soc_guid s)) t))(get_counter g \<mapsto> entry_of ?fi)"
      using table_distinct [OF t] by (simp add: select_exec entry_of_def del: exec_social.simps)
  next
    show "other_rows (get_counter (soc_guid s)) (exec_social ?st t)
        = other_rows (get_counter (soc_guid s)) t" for t
      by (rule other_rows_exec)
  qed
  show "remove_from_social_list g f s = (s', st) \<Longrightarrow> ?thesis"
    using Some put tracks_erase [OF Some]
    by (auto simp: remove_from_social_list_def Let_def split: if_splits)
qed

lemma number_put_le:
  assumes "om_sorted (soc_map s)"
  shows "number_with_flag fl (s\<lparr>soc_map := om_put g fi (soc_map s)\<rparr>) \<le> Suc (number_with_flag fl s)"
  using count_om_put [OF assms, of "\<lambda>e. fi_flags (snd e) AND fl \<noteq> 0" g fi]
  by (simp add: number_with_flag_def split: if_splits)

lemma number_put_other:
  assumes "om_sorted (soc_map s)" "fi_flags fi AND fl \<noteq> 0 \<Longrightarrow>
    \<exists>fi0. map_of (soc_map s) g = Some fi0 \<and> fi_flags fi0 AND fl \<noteq> 0"
  shows "number_with_flag fl (s\<lparr>soc_map := om_put g fi (soc_map s)\<rparr>) \<le> number_with_flag fl s"
  using count_om_put [OF assms(1), of "\<lambda>e. fi_flags (snd e) AND fl \<noteq> 0" g fi] assms(2)
  by (auto simp: number_with_flag_def split: if_splits option.splits)

lemma flag_disjoint:
  "(x OR SOCIAL_FLAG_FRIEND) AND SOCIAL_FLAG_IGNORED = x AND SOCIAL_FLAG_IGNORED"
  "(x OR SOCIAL_FLAG_IGNORED) AND SOCIAL_FLAG_FRIEND = x AND SOCIAL_FLAG_FRIEND"
  "SOCIAL_FLAG_FRIEND AND SOCIAL_FLAG_IGNORED = 0" "SOCIAL_FLAG_IGNORED AND SOCIAL_FLAG_FRIEND = 0"
  "SOCIAL_FLAG_FRIEND AND SOCIAL_FLAG_FRIEND \<noteq> 0" "SOCIAL_FLAG_FRIEND \<noteq> 0" "SOCIAL_FLAG_IGNORED \<noteq> 0"
  by (simp_all add: social_flag_defs flags_or_and)

text \<open>Setting one of the two flags on an entry, within the limit of that flag.\<close>

lemma soc_ok_set_flag:
  assumes ok: "soc_ok s" and key: "player_key g"
    and f: "f = SOCIAL_FLAG_FRIEND \<and> number_with_flag f s < SOCIALMGR_FRIEND_LIMIT
      \<or> f = SOCIAL_FLAG_IGNORED \<and> number_with_flag f s < SOCIALMGR_IGNORE_LIMIT"
    and fi: "fi_flags fi = x OR f" "x \<noteq> 0 \<Longrightarrow> \<exists>fi0. map_of (soc_map s) g = Some fi0 \<and> fi_flags fi0 = x"
  shows "soc_ok (s\<lparr>soc_map := om_put g fi (soc_map s)\<rparr>)"
proof -
  note sorted = soc_okD(1) [OF ok]
  let ?s = "s\<lparr>soc_map := om_put g fi (soc_map s)\<rparr>"
  have le: "number_with_flag f ?s \<le> Suc (number_with_flag f s)" by (rule number_put_le [OF sorted])
  have other: "number_with_flag fl ?s \<le> number_with_flag fl s" if "(x OR f) AND fl = x AND fl" for fl
  proof (rule number_put_other [OF sorted])
    assume "fi_flags fi AND fl \<noteq> 0"
    then have "x AND fl \<noteq> 0" using that fi(1) by simp
    then show "\<exists>fi0. map_of (soc_map s) g = Some fi0 \<and> fi_flags fi0 AND fl \<noteq> 0"
      using fi(2) by (metis and_zero_eq zero_and_eq)
  qed
  show ?thesis
  proof (rule soc_ok_put [OF ok key])
    show "fi_flags fi \<noteq> 0" using fi(1) f by (auto simp: or_flag_ne_0 flag_disjoint)
    show "number_with_flag SOCIAL_FLAG_FRIEND ?s \<le> SOCIALMGR_FRIEND_LIMIT"
      "number_with_flag SOCIAL_FLAG_IGNORED ?s \<le> SOCIALMGR_IGNORE_LIMIT"
      using f le soc_okD(3,4) [OF ok] other [of SOCIAL_FLAG_IGNORED] other [of SOCIAL_FLAG_FRIEND]
      by (auto simp: flag_disjoint)
  qed
qed

definition list_flag :: "u8 \<Rightarrow> bool" where
  "list_flag f \<longleftrightarrow> f = SOCIAL_FLAG_FRIEND \<or> f = SOCIAL_FLAG_IGNORED"

lemma tracks_add:
  assumes add: "add_to_social_list g f s = (added, s', st)" and key: "player_key g" and f: "list_flag f"
  shows "tracks s st s'"
proof (cases "number_with_flag f s \<ge>
    (if f AND SOCIAL_FLAG_FRIEND \<noteq> 0 then SOCIALMGR_FRIEND_LIMIT else SOCIALMGR_IGNORE_LIMIT)")
  case True
  then show ?thesis using add by (auto simp: add_to_social_list_def tracks_refl)
next
  case False
  then have room: "f = SOCIAL_FLAG_FRIEND \<and> number_with_flag f s < SOCIALMGR_FRIEND_LIMIT
      \<or> f = SOCIAL_FLAG_IGNORED \<and> number_with_flag f s < SOCIALMGR_IGNORE_LIMIT"
    using f by (auto simp: list_flag_def flag_disjoint split: if_splits)
  have "tracks s [UpdAddFlags (fi_flags fi OR f) (get_counter (soc_guid s)) (get_counter g)]
      (s\<lparr>soc_map := om_put g (fi\<lparr>fi_flags := fi_flags fi OR f\<rparr>) (soc_map s)\<rparr>)"
    if Some: "map_of (soc_map s) g = Some fi" for fi
  proof (rule tracks_put)
    assume ok: "soc_ok s"
    show "soc_ok (s\<lparr>soc_map := om_put g (fi\<lparr>fi_flags := fi_flags fi OR f\<rparr>) (soc_map s)\<rparr>)"
      by (rule soc_ok_set_flag [OF ok key room, of _ "fi_flags fi"]) (simp_all add: Some)
    show "player_key g" by (rule key)
    fix t assume t: "table_matches t s"
    show "distinct (map fst (select_social (get_counter (soc_guid s))
         (exec_social (UpdAddFlags (fi_flags fi OR f) (get_counter (soc_guid s)) (get_counter g)) t))) \<and>
       map_of (select_social (get_counter (soc_guid s))
         (exec_social (UpdAddFlags (fi_flags fi OR f) (get_counter (soc_guid s)) (get_counter g)) t)) =
       (map_of (select_social (get_counter (soc_guid s)) t))
         (get_counter g \<mapsto> entry_of (fi\<lparr>fi_flags := fi_flags fi OR f\<rparr>))"
      using table_distinct [OF t] row_at [OF ok t key] Some
      by (simp add: select_exec entry_of_def or.assoc [symmetric] del: exec_social.simps)
  qed (rule other_rows_exec)
  moreover have "tracks s [InsSocial (get_counter (soc_guid s)) (get_counter g) f]
      (s\<lparr>soc_map := om_put g (friend_info_new f []) (soc_map s)\<rparr>)"
    if None: "map_of (soc_map s) g = None"
  proof (rule tracks_put)
    assume ok: "soc_ok s"
    show "soc_ok (s\<lparr>soc_map := om_put g (friend_info_new f []) (soc_map s)\<rparr>)"
      by (rule soc_ok_set_flag [OF ok key room, of _ 0]) (simp_all add: friend_info_new_def)
    show "player_key g" by (rule key)
    fix t assume t: "table_matches t s"
    have no: "map_of (select_social (get_counter (soc_guid s)) t) (get_counter g) = None"
      using row_at [OF ok t key] None by simp
    then show "distinct (map fst (select_social (get_counter (soc_guid s))
         (exec_social (InsSocial (get_counter (soc_guid s)) (get_counter g) f) t))) \<and>
       map_of (select_social (get_counter (soc_guid s))
         (exec_social (InsSocial (get_counter (soc_guid s)) (get_counter g) f) t)) =
       (map_of (select_social (get_counter (soc_guid s)) t))
         (get_counter g \<mapsto> entry_of (friend_info_new f []))"
      using table_distinct [OF t]
      by (simp only: select_insert [OF no] map_of_snoc [OF no] distinct_snoc [OF no])
         (simp add: entry_of_def friend_info_new_def)
  qed (rule other_rows_exec)
  ultimately show ?thesis
    using add False by (auto simp: add_to_social_list_def Let_def friend_info_new_def split: option.splits if_splits)
qed

subsection \<open>The contact list\<close>

text \<open>Flags and notes, without the cache of what the friend is doing.\<close>

definition essence :: "social_map \<Rightarrow> (guid \<times> u8 \<times> bytes) list" where
  "essence m = map (\<lambda>(g, fi). (g, entry_of fi)) m"

lemma essence_simps [simp]: "essence [] = []" "essence ((g, fi) # m) = (g, entry_of fi) # essence m"
  by (simp_all add: essence_def)

lemma map_of_essence: "map_of (essence m) g = map_option entry_of (map_of m g)"
  by (induction m) auto

lemma essence_keys: "essence m = essence m' \<Longrightarrow> map fst m = map fst m'"
proof -
  have "map fst m = map fst (essence m)" for m by (induction m) auto
  then show "essence m = essence m' \<Longrightarrow> map fst m = map fst m'" by metis
qed

lemma essence_flags:
  "essence m = essence m' \<Longrightarrow>
   list_all (\<lambda>(g, fi). P g (fi_flags fi)) m = list_all (\<lambda>(g, fi). P g (fi_flags fi)) m'
   \<and> length (filter (\<lambda>e. Q (fi_flags (snd e))) m) = length (filter (\<lambda>e. Q (fi_flags (snd e))) m')"
proof (induction m arbitrary: m')
  case (Cons e m)
  then obtain e' m'' where "m' = e' # m''" "essence m = essence m''" "fst e = fst e'"
    "entry_of (snd e) = entry_of (snd e')"
    by (cases m'; cases e) (auto split: prod.splits)
  with Cons.IH [of m''] show ?case by (cases e; cases e') (simp add: entry_of_def)
qed (simp add: essence_def)

lemma soc_ok_essence:
  assumes "essence (soc_map s) = essence (soc_map s')"
  shows "soc_ok s = soc_ok s'"
  using essence_keys [OF assms] essence_flags [OF assms, of "\<lambda>g fl. player_key g \<and> fl \<noteq> 0"]
    essence_flags [OF assms, of "\<lambda>g fl. True" "\<lambda>fl. fl AND SOCIAL_FLAG_FRIEND \<noteq> 0"]
    essence_flags [OF assms, of "\<lambda>g fl. True" "\<lambda>fl. fl AND SOCIAL_FLAG_IGNORED \<noteq> 0"]
  by (simp add: soc_ok_def number_with_flag_def)

lemma tracks_essence:
  assumes "essence (soc_map s) = essence (soc_map s')" "soc_guid s' = soc_guid s"
  shows "tracks s [] s'"
proof -
  have "map_option entry_of (map_of (soc_map s) g) = map_option entry_of (map_of (soc_map s') g)" for g
    using assms(1) by (metis map_of_essence)
  then show ?thesis using assms soc_ok_essence [OF assms(1)] by (simp add: tracks_def table_matches_def)
qed

lemma get_friend_info_keeps:
  assumes "\<And>e. map_of own g = Some e \<Longrightarrow> fi_note e = fi_note fi"
  shows "entry_of (get_friend_info w p own g fi) = entry_of fi"
  using assms by (auto simp: get_friend_info_def entry_of_def Let_def split: option.splits)

text \<open>What a client reads out of the packet: number of contacts, then the contacts.\<close>

fun client_contacts :: "nat \<Rightarrow> field list \<Rightarrow> (guid \<times> u32 \<times> bytes) list option" where
  "client_contacts 0 fs = (if fs = [] then Some [] else None)"
| "client_contacts (Suc n) (FU64 g # FU32 fl # FStr note # fs) =
     (if fl AND 1 = 0 then map_option (Cons (g, fl, note)) (client_contacts n fs)
      else case fs of
        FU8 st # fs' \<Rightarrow>
          if st = 0 then map_option (Cons (g, fl, note)) (client_contacts n fs')
          else (case fs' of
            FU32 area # FU32 level # FU32 cls # fs'' \<Rightarrow>
              map_option (Cons (g, fl, note)) (client_contacts n fs'')
          | _ \<Rightarrow> None)
      | _ \<Rightarrow> None)"
| "client_contacts (Suc n) _ = None"

fun client_contact_list :: "field list \<Rightarrow> (u32 \<times> (guid \<times> u32 \<times> bytes) list) option" where
  "client_contact_list (FU32 flags # FU32 n # fs) = map_option (Pair flags) (client_contacts (unat n) fs)"
| "client_contact_list _ = None"

definition contacts_shown :: "u32 \<Rightarrow> social_map \<Rightarrow> (guid \<times> u32 \<times> bytes) list" where
  "contacts_shown flags m =
     map (\<lambda>(g, fi). (g, ucast (fi_flags fi), fi_note fi)) (filter (\<lambda>(g, fi). ucast (fi_flags fi) AND flags \<noteq> 0) m)"

lemma ucast_friend_flag: "(ucast fl :: u32) AND 1 = 0 \<longleftrightarrow> fl AND SOCIAL_FLAG_FRIEND = (0 :: u8)"
proof -
  have eq: "(ucast fl :: u32) AND 1 = ucast (fl AND 1)" by (simp only: unsigned_and_eq unsigned_1)
  have "unat (ucast (fl AND 1) :: u32) = unat (fl AND 1)" by (rule unat_ucast_up) simp
  then show ?thesis unfolding eq SOCIAL_FLAG_FRIEND_def by (metis unat_eq_0)
qed

definition same_notes :: "social_map \<Rightarrow> social_map \<Rightarrow> bool" where
  "same_notes own m \<longleftrightarrow> list_all (\<lambda>(g, fi). \<forall>e. map_of own g = Some e \<longrightarrow> fi_note e = fi_note fi) m"

lemma social_list_loop_spec:
  assumes "social_list_loop w p own flags fc ic m = (n, m', fs)"
    and "same_notes own m"
    and "fc + length (filter (\<lambda>e. fi_flags (snd e) AND SOCIAL_FLAG_FRIEND \<noteq> 0) m) \<le> SOCIALMGR_FRIEND_LIMIT"
    and "ic + length (filter (\<lambda>e. fi_flags (snd e) AND SOCIAL_FLAG_IGNORED \<noteq> 0) m) \<le> SOCIALMGR_IGNORE_LIMIT"
  shows "essence m' = essence m \<and> n = length (contacts_shown flags m)
    \<and> client_contacts n fs = Some (contacts_shown flags m)"
  using assms
proof (induction w p own flags fc ic m arbitrary: n m' fs rule: social_list_loop.induct)
  case (1 w p own flags fc ic)
  then show ?case by (simp add: contacts_shown_def)
next
  case (2 w p own flags fc ic g fi rest)
  note keep = get_friend_info_keeps [of own g fi w "Some p"]
  have notes_rest: "same_notes own rest" using 2(6) by (simp add: same_notes_def)
  show ?case
  proof (cases "ucast (fi_flags fi) AND flags = 0")
    case True
    then show ?thesis
      using 2(5) 2(1) [OF refl True _ notes_rest] 2(7,8)
      by (auto simp: contacts_shown_def Let_def split: prod.splits if_splits)
  next
    case False
    define fc' where "fc' = (if fi_flags fi AND SOCIAL_FLAG_FRIEND \<noteq> 0 then fc + 1 else fc)"
    define ic' where "ic' = (if fi_flags fi AND SOCIAL_FLAG_IGNORED \<noteq> 0 then ic + 1 else ic)"
    obtain n1 m1 fs1 where rec: "social_list_loop w p own flags fc' ic' rest = (n1, m1, fs1)"
      by (metis prod_cases3)
    have lim: "\<not> (fi_flags fi AND SOCIAL_FLAG_FRIEND \<noteq> 0 \<and> SOCIALMGR_FRIEND_LIMIT < fc')"
      "\<not> (fi_flags fi AND SOCIAL_FLAG_IGNORED \<noteq> 0 \<and> SOCIALMGR_IGNORE_LIMIT < ic')"
      using 2(7,8) by (auto simp: fc'_def ic'_def split: if_splits)
    have IH: "essence m1 = essence rest \<and> n1 = length (contacts_shown flags rest)
        \<and> client_contacts n1 fs1 = Some (contacts_shown flags rest)"
    proof (rule 2(4) [OF refl False fc'_def lim(1) ic'_def lim(2) refl rec notes_rest])
      show "fc' + length (filter (\<lambda>e. fi_flags (snd e) AND SOCIAL_FLAG_FRIEND \<noteq> 0) rest) \<le> SOCIALMGR_FRIEND_LIMIT"
        "ic' + length (filter (\<lambda>e. fi_flags (snd e) AND SOCIAL_FLAG_IGNORED \<noteq> 0) rest) \<le> SOCIALMGR_IGNORE_LIMIT"
        using 2(7,8) by (auto simp: fc'_def ic'_def split: if_splits)
    qed
    have note_same: "entry_of (get_friend_info w (Some p) own g fi) = entry_of fi"
      using 2(6) by (intro keep) (simp add: same_notes_def)
    then have note_eq: "fi_note (get_friend_info w (Some p) own g fi) = fi_note fi"
      by (simp add: entry_of_def)
    have "social_list_loop w p own flags fc ic ((g, fi) # rest) =
        (let fi' = get_friend_info w (Some p) own g fi in
         (n1 + 1, (g, fi') # m1,
          [FU64 g, FU32 (ucast (fi_flags fi)), FStr (fi_note fi')]
          @ (if fi_flags fi AND SOCIAL_FLAG_FRIEND \<noteq> 0
             then FU8 (fi_status fi') #
               (if fi_status fi' \<noteq> 0
                then [FU32 (fi_area fi'), FU32 (ucast (fi_level fi')), FU32 (ucast (fi_class fi'))]
                else [])
             else [])
          @ fs1))"
      using False lim rec by (subst social_list_loop.simps)
        (simp only: Let_def fc'_def [symmetric] ic'_def [symmetric] if_False prod.case)
    then show ?thesis
      using 2(5) IH False
      by (auto simp: Let_def contacts_shown_def note_same note_eq ucast_friend_flag)
  qed
qed

lemma same_notes_self: "om_sorted m \<Longrightarrow> same_notes m m"
  by (auto simp: same_notes_def list_all_iff dest: map_of_is_SomeI [OF om_sorted_distinct])

lemma send_social_list_spec:
  assumes ok: "soc_ok s" and "send_social_list w (Some p) (soc_map s) flags s = (s', data)"
  shows "soc_guid s' = soc_guid s \<and> essence (soc_map s') = essence (soc_map s) \<and>
    (\<exists>fs. data = Some (WorldPacket SMSG_CONTACT_LIST
        (FU32 flags # FU32 (word_of_nat (length (contacts_shown flags (soc_map s)))) # fs)) \<and>
      client_contacts (length (contacts_shown flags (soc_map s))) fs
        = Some (contacts_shown flags (soc_map s)))"
proof -
  obtain n m' fs where l: "social_list_loop w p (soc_map s) flags 0 0 (soc_map s) = (n, m', fs)"
    by (metis prod_cases3)
  have "essence m' = essence (soc_map s) \<and> n = length (contacts_shown flags (soc_map s))
      \<and> client_contacts n fs = Some (contacts_shown flags (soc_map s))"
    using soc_okD(3,4) [OF ok]
    by (intro social_list_loop_spec [OF l same_notes_self [OF soc_okD(1) [OF ok]]])
       (simp_all add: number_with_flag_def)
  with assms(2) l show ?thesis by (auto simp: send_social_list_def)
qed

subsection \<open>The handlers track the table\<close>

text \<open>Names resolve to GUIDs of characters, or to none.\<close>

definition names_resolve :: "world_env \<Rightarrow> bool" where
  "names_resolve w \<longleftrightarrow> (\<forall>n. is_empty (we_guid_of_name w n) \<or> player_key (we_guid_of_name w n))"

lemma list_flag_simps [simp]: "list_flag SOCIAL_FLAG_FRIEND" "list_flag SOCIAL_FLAG_IGNORED"
  by (simp_all add: list_flag_def)

lemma tracks_add_friend_body:
  assumes "add_friend_body w p tr8 g ce note s = (res, s', st)" "player_key g"
  shows "tracks s st s'"
proof -
  have one: "tracks s st1 s1" if "add_to_social_list g SOCIAL_FLAG_FRIEND s = (a, s1, st1)" for a s1 st1
    using tracks_add [OF that assms(2)] by simp
  note two = tracks_trans [OF one tracks_note] and three = tracks_trans [OF one tracks_trans [OF tracks_note tracks_note]]
  show ?thesis using assms(1)
    by (auto simp: add_friend_body_def Let_def tracks_refl split: if_splits option.splits prod.splits
        intro: three two one tracks_note)
qed

lemma tracks_add_ignore_body:
  assumes "add_ignore_body p g s = (res, s', st)" "player_key g"
  shows "tracks s st s'"
  using assms by (auto simp: add_ignore_body_def tracks_refl split: if_splits prod.splits intro: tracks_add)

lemma tracks_handler:
  assumes "handle_social p tr8 (w, opcode, pkt) s = Inr (s', st, out)" "names_resolve w"
  shows "soc_ok s \<longrightarrow> tracks s st s'"
proof
  assume ok: "soc_ok s"
  have list: "tracks s [] s1" if "send_social_list w (Some p) (soc_map s) fl s = (s1, d)" for fl s1 d
    using send_social_list_spec [OF ok that] by (intro tracks_essence) auto
  have key: "is_empty (we_guid_of_name w n) \<or> player_key (we_guid_of_name w n)" for n
    using assms(2) by (simp add: names_resolve_def)
  consider "opcode = CMSG_CONTACT_LIST" "handle_contact_list w p pkt s = Inr (s', st, out)"
    | "handle_add_friend w p tr8 pkt s = Inr (s', st, out)" | "handle_del_friend w p pkt s = Inr (s', st, out)"
    | "handle_add_ignore w p pkt s = Inr (s', st, out)" | "handle_del_ignore w p pkt s = Inr (s', st, out)"
    | "handle_set_contact_notes tr8 pkt s = Inr (s', st, out)" | "s' = s" "st = []"
    using assms(1) by (auto simp: handle_social_def split: if_splits)
  then show "tracks s st s'"
  proof cases
    case 1
    then obtain fl b where u: "bb_get_u32 pkt = Inr (fl, b)"
      by (auto simp: handle_contact_list_def res_bind_Inr_iff)
    obtain s1 d where "send_social_list w (Some p) (soc_map s) fl s = (s1, d)" by fastforce
    with 1 u list show ?thesis by (auto simp: handle_contact_list_def)
  next
    case 2
    then obtain n b1 nt b2 where parse: "bb_get_string pkt = Inr (n, b1)" "bb_get_string b1 = Inr (nt, b2)"
      by (auto simp: handle_add_friend_def res_bind_Inr_iff)
    from 2 key show ?thesis
      by (auto simp: handle_add_friend_def parse Let_def tracks_refl
          split: prod.split_asm option.split_asm if_split_asm intro: tracks_add_friend_body)
  next
    case 3
    then obtain g b where parse: "bb_get_u64 pkt = Inr (g, b)"
      by (auto simp: handle_del_friend_def res_bind_Inr_iff)
    from 3 show ?thesis
      by (auto simp: handle_del_friend_def parse Let_def split: prod.split_asm intro: tracks_remove)
  next
    case 4
    then obtain n b where parse: "bb_get_string pkt = Inr (n, b)"
      by (auto simp: handle_add_ignore_def res_bind_Inr_iff)
    from 4 key show ?thesis
      by (auto simp: handle_add_ignore_def parse Let_def tracks_refl
          split: prod.split_asm option.split_asm if_split_asm intro: tracks_add_ignore_body)
  next
    case 5
    then obtain g b where parse: "bb_get_u64 pkt = Inr (g, b)"
      by (auto simp: handle_del_ignore_def res_bind_Inr_iff)
    from 5 show ?thesis
      by (auto simp: handle_del_ignore_def parse Let_def split: prod.split_asm intro: tracks_remove)
  next
    case 6
    then obtain g b1 nt b2 where parse: "bb_get_u64 pkt = Inr (g, b1)" "bb_get_string b1 = Inr (nt, b2)"
      by (auto simp: handle_set_contact_notes_def res_bind_Inr_iff)
    from 6 show ?thesis
      by (auto simp: handle_set_contact_notes_def parse Let_def split: prod.split_asm intro: tracks_note)
  next
    case 7
    then show ?thesis by (simp add: tracks_refl)
  qed
qed

lemma tracks_session:
  assumes "social_session p tr8 reqs s = (s', st, out)" "list_all (\<lambda>(w, _). names_resolve w) reqs" "soc_ok s"
  shows "tracks s st s'"
  using assms
proof (induction reqs arbitrary: s st out)
  case (Cons req reqs)
  obtain w opcode pkt where req: "req = (w, opcode, pkt)" by (cases req)
  show ?case
  proof (cases "handle_social p tr8 req s")
    case (Inr r)
    obtain s1 st1 out1 where r: "r = (s1, st1, out1)" by (cases r)
    have one: "tracks s st1 s1" using tracks_handler [of p tr8 w opcode pkt s s1 st1 out1] Inr r req Cons.prems by simp
    then have "soc_ok s1" using Cons.prems(3) by (simp add: tracks_def)
    obtain st2 out2 where rest: "social_session p tr8 reqs s1 = (s', st2, out2)" "st = st1 @ st2"
      using Cons.prems(1) Inr r by (auto split: prod.splits)
    then have "tracks s1 st2 s'" using Cons \<open>soc_ok s1\<close> by simp
    with one rest(2) show ?thesis by (auto intro: tracks_trans)
  next
    case (Inl e)
    then show ?thesis using Cons by simp
  qed
qed (simp add: tracks_refl)

subsection \<open>Loading a list again\<close>

lemma om_map_of_inject:
  assumes "om_sorted xs" "om_sorted ys" "map_of xs = map_of ys"
  shows "xs = ys"
proof -
  have graph: "zs = map (\<lambda>k. (k, the (map_of zs k))) (map fst zs)" if "om_sorted zs" for zs :: "('a \<times> 'b) list"
    using map_of_is_SomeI [OF om_sorted_distinct [OF that]] by (auto intro!: map_idI [symmetric])
  have "set (map fst xs) = set (map fst ys)" using assms(3) by (metis dom_map_of_conv_image_fst list.set_map)
  then have "map fst xs = map fst ys" using assms(1,2) by (intro strict_sorted_equal) auto
  then show ?thesis using graph [OF assms(1)] graph [OF assms(2)] assms(3) by metis
qed

lemma load_social_rows_map:
  assumes "om_sorted m" "distinct (map fst rows)"
  shows "om_sorted (load_social_rows rows m) \<and>
    map_of (load_social_rows rows m) (guid_create_global HG_Player f)
      = (case map_of rows f of Some (fl, n) \<Rightarrow> Some (friend_info_new fl n)
         | None \<Rightarrow> map_of m (guid_create_global HG_Player f)) \<and>
    (\<not> player_key g \<longrightarrow> map_of (load_social_rows rows m) g = map_of m g)"
  using assms
proof (induction rows arbitrary: m)
  case (Cons r rows)
  obtain a fl n where r: "r = (a, fl, n)" by (cases r)
  let ?m = "om_put (guid_create_global HG_Player a) (friend_info_new fl n) m"
  have "om_sorted ?m" using Cons.prems(1) by (rule om_put_sorted)
  note IH = Cons.IH [OF this]
  have keys: "guid_create_global HG_Player f = guid_create_global HG_Player a \<longleftrightarrow> f = a"
    by (metis get_counter_player)
  have "load_social_rows (r # rows) m = load_social_rows rows ?m"
    by (simp add: load_social_rows_def r)
  moreover have "map_of rows a = None" using Cons.prems(2) r by (simp add: map_of_eq_None_iff)
  ultimately show ?case
    using IH Cons.prems r keys by (auto simp: map_of_om_put split: option.splits)
qed (simp add: load_social_rows_def)

lemma load_social_essence:
  assumes "soc_ok s" "table_matches t s" "mset rows = mset (select_social (get_counter (soc_guid s)) t)"
  shows "essence (load_social_rows rows []) = essence (soc_map s)"
proof -
  let ?sel = "select_social (get_counter (soc_guid s)) t"
  have dist: "distinct (map fst rows)" using table_distinct [OF assms(2)] assms(3)
    by (metis mset_map mset_eq_imp_distinct_iff)
  have rows: "map_of rows = map_of ?sel"
    using assms(3) dist table_distinct [OF assms(2)] by (metis map_of_inject_set mset_eq_setD)
  have load: "om_sorted (load_social_rows rows [])"
    "map_of (load_social_rows rows []) (guid_create_global HG_Player f)
       = (case map_of rows f of Some (fl, n) \<Rightarrow> Some (friend_info_new fl n) | None \<Rightarrow> None)"
    "\<not> player_key g \<Longrightarrow> map_of (load_social_rows rows []) g = None" for f g
    using load_social_rows_map [OF _ dist, of "[]"] by (auto split: option.splits)
  have "map_option entry_of (map_of (load_social_rows rows []) g) = map_option entry_of (map_of (soc_map s) g)" for g
  proof (cases "player_key g")
    case True
    then have g: "guid_create_global HG_Player (get_counter g) = g" by (simp add: player_key_def)
    have "map_of rows (get_counter g) = map_option entry_of (map_of (soc_map s) g)"
      using row_at [OF assms(1,2) True] rows by simp
    then show ?thesis using load(2) [of "get_counter g"]
      by (auto simp: g entry_of_def friend_info_new_def split: option.splits)
  next
    case False
    then show ?thesis using load(3) soc_okD(2) [OF assms(1)] by (cases "map_of (soc_map s) g") auto
  qed
  then have "map_of (essence (load_social_rows rows [])) = map_of (essence (soc_map s))"
    by (simp add: map_of_essence fun_eq_iff)
  moreover have "map fst (essence m) = map fst m" for m by (induction m) auto
  ultimately show ?thesis
    using load(1) soc_okD(1) [OF assms(1)] by (intro om_map_of_inject) simp_all
qed

section \<open>Properties\<close>



definition example_world :: world_env where
  "example_world = \<lparr>we_connected = (\<lambda>g. None),
     we_characters = (\<lambda>g. if g = 21 then Some \<lparr>ce_name = str ''Bob'', ce_account = 5, ce_team = 0\<rparr> else None),
     we_guid_of_name = (\<lambda>n. if n = str ''Bob'' then guid_create_global HG_Player 21 else 0),
     we_account_security = (\<lambda>_. 0), we_script_hides = (\<lambda>_ _. False), we_normalize = Some,
     we_two_side_who = False, we_two_side_add_friend = False, we_two_side_channel = False,
     we_gm_friend = False, we_gm_level_in_who = 0, we_time = 0\<rparr>"

definition example_player :: player_info where
  "example_player = \<lparr>pl_guid = guid_create_global HG_Player 7, pl_name = str ''Ann'', pl_team = 0,
     pl_security = 0, pl_account = 1, pl_zone = 12, pl_level = 80, pl_class = 1, pl_afk = False,
     pl_dnd = False, pl_visible = True, pl_in_world = True\<rparr>"

definition example_social :: player_social where
  "example_social = \<lparr>soc_map = [(guid_create_global HG_Player 9, friend_info_new 1 (str ''x'')),
     (guid_create_global HG_Player 12, friend_info_new 2 [])], soc_guid = guid_create_global HG_Player 7\<rparr>"

definition example_table :: social_table where
  "example_table = [\<lparr>row_guid = 7, row_friend = 12, row_flags = 2, row_note = []\<rparr>,
     \<lparr>row_guid = 8, row_friend = 9, row_flags = 1, row_note = []\<rparr>,
     \<lparr>row_guid = 7, row_friend = 9, row_flags = 1, row_note = str ''x''\<rparr>]"

definition example_requests :: "(world_env \<times> u16 \<times> byte_buffer) list" where
  "example_requests =
     [(example_world, CMSG_ADD_FRIEND, \<lparr>bb_rpos = 0, bb_wpos = 0, bb_storage = str ''Bob'' @ [0] @ str ''hi'' @ [0]\<rparr>),
      (example_world, CMSG_DEL_FRIEND, \<lparr>bb_rpos = 0, bb_wpos = 0, bb_storage = le_bytes 8 9\<rparr>),
      (example_world, CMSG_ADD_IGNORE, \<lparr>bb_rpos = 0, bb_wpos = 0, bb_storage = str ''Bob''\<rparr>)]"

definition session_example :: social_outcome where
  "session_example = social_session example_player id example_requests example_social"

lemma example_social_ok: "soc_ok example_social"
  by code_simp

lemma example_requests_ok: "list_all (\<lambda>(w, _). names_resolve w) example_requests"
  by (simp add: example_requests_def names_resolve_def example_world_def is_empty_def guid_empty_def)

lemma example_session:
  "social_session example_player id example_requests example_social
    = (fst session_example, fst (snd session_example), snd (snd session_example))"
  by (simp add: session_example_def)

lemma example_table_matches: "table_matches example_table example_social"
  by (auto simp: table_matches_def Let_def example_table_def example_social_def select_social_def
      create_eq_key entry_of_def friend_info_new_def)



text \<open>
  Claim C33: The contact list a player asks for is complete and readable: a client that reads
  the number of contacts and then that many contacts finds exactly those of the list with one of
  the flags it asked for, with their flags and notes, and nothing is left over. Nothing but the
  cache of online states changes in the list.
\<close>

theorem contact_list_complete:
  assumes "soc_ok s" "bb_get_u32 pkt = Inr (flags, pkt')" "length (soc_map s) < 2 ^ 32"
  shows "\<exists>s' fs. handle_contact_list w p pkt s
        = Inr (s', [], [(pl_guid p, WorldPacket SMSG_CONTACT_LIST fs)])
      \<and> client_contact_list fs = Some (flags, contacts_shown flags (soc_map s))
      \<and> essence (soc_map s') = essence (soc_map s) \<and> soc_ok s'"
proof -
  obtain s' data where l: "send_social_list w (Some p) (soc_map s) flags s = (s', data)" by fastforce
  obtain fs where fs: "data = Some (WorldPacket SMSG_CONTACT_LIST
        (FU32 flags # FU32 (word_of_nat (length (contacts_shown flags (soc_map s)))) # fs))"
    "client_contacts (length (contacts_shown flags (soc_map s))) fs = Some (contacts_shown flags (soc_map s))"
    "essence (soc_map s') = essence (soc_map s)"
    using send_social_list_spec [OF assms(1) l] by blast
  have "length (contacts_shown flags (soc_map s)) \<le> length (soc_map s)"
    by (simp add: contacts_shown_def)
  then have "unat (word_of_nat (length (contacts_shown flags (soc_map s))) :: u32)
      = length (contacts_shown flags (soc_map s))"
    using assms(3) by (simp add: unat_of_nat)
  moreover have "soc_ok s'" using assms(1) soc_ok_essence [OF fs(3)] by simp
  ultimately show ?thesis using l fs assms(2) by (simp add: handle_contact_list_def)
qed

theorem contact_list_complete_witness:
  "\<exists>s' fs. handle_contact_list example_world example_player
      \<lparr>bb_rpos = 0, bb_wpos = 0, bb_storage = [1, 0, 0, 0]\<rparr> example_social
      = Inr (s', [], [(7, WorldPacket SMSG_CONTACT_LIST fs)])
    \<and> client_contact_list fs = Some (1, [(9, 1, str ''x'')])"
proof -
  have "bb_get_u32 \<lparr>bb_rpos = 0, bb_wpos = 0, bb_storage = [1, 0, 0, 0]\<rparr>
      = Inr (1, \<lparr>bb_rpos = 4, bb_wpos = 0, bb_storage = [1, 0, 0, 0]\<rparr>)"
    by (simp add: bb_get_u32_def bb_read_def bb_read_at_def bb_size_def sz_add_def)
  moreover have "length (soc_map example_social) < 2 ^ 32" by (simp add: example_social_def)
  moreover have "contacts_shown 1 (soc_map example_social) = [(9, 1, str ''x'')]" by code_simp
  moreover have "pl_guid example_player = 7" by code_simp
  ultimately show ?thesis using contact_list_complete [OF example_social_ok] by metis
qed

definition same_others :: "guid \<Rightarrow> player_social \<Rightarrow> player_social \<Rightarrow> bool" where
  "same_others g s s' \<longleftrightarrow> (\<forall>g'. g' \<noteq> g \<longrightarrow> map_of (soc_map s') g' = map_of (soc_map s) g')"

lemma note_keeps_friends:
  assumes "set_friend_note tr8 g nt s = (s', st)" "om_sorted (soc_map s)"
  shows "has_friend g s' = has_friend g s \<and> same_others g s s' \<and> om_sorted (soc_map s')"
  using assms by (auto simp: set_friend_note_def Let_def has_friend_def check_contact_def map_of_om_put
      om_put_sorted same_others_def split: option.splits)

lemma add_makes_friend:
  assumes "add_to_social_list g SOCIAL_FLAG_FRIEND s = (added, s', st)" "om_sorted (soc_map s)"
  shows "added = (number_with_flag SOCIAL_FLAG_FRIEND s < 50) \<and> om_sorted (soc_map s')
    \<and> has_friend g s' = (has_friend g s \<or> added) \<and> same_others g s s'"
  using assms
  by (auto simp: add_to_social_list_def Let_def has_friend_def check_contact_def map_of_om_put om_put_sorted
      flag_disjoint SOCIALMGR_FRIEND_LIMIT_def flags_or_and or_flag_ne_0 friend_info_new_def same_others_def
      split: option.splits if_splits)

definition add_friend_code :: "world_env \<Rightarrow> player_info \<Rightarrow> guid \<Rightarrow> character_entry \<Rightarrow> player_social \<Rightarrow> u8" where
  "add_friend_code w p g ce s =
     (if \<not> may_befriend w p ce then FRIEND_NOT_FOUND
      else if g = pl_guid p then FRIEND_SELF
      else if pl_team p \<noteq> ce_team ce \<and> \<not> we_two_side_add_friend w \<and> pl_security p = 0 then FRIEND_ENEMY
      else if has_friend g s then FRIEND_ALREADY
      else if number_with_flag SOCIAL_FLAG_FRIEND s \<ge> 50 then FRIEND_LIST_FULL
      else added_result w p g)"

lemma friend_codes: "added_result w p g = FRIEND_ADDED_ONLINE \<or> added_result w p g = FRIEND_ADDED_OFFLINE"
  "FRIEND_NOT_FOUND \<notin> {FRIEND_ADDED_ONLINE, FRIEND_ADDED_OFFLINE}"
  "FRIEND_SELF \<notin> {FRIEND_ADDED_ONLINE, FRIEND_ADDED_OFFLINE}"
  "FRIEND_ENEMY \<notin> {FRIEND_ADDED_ONLINE, FRIEND_ADDED_OFFLINE}"
  "FRIEND_ALREADY \<notin> {FRIEND_ADDED_ONLINE, FRIEND_ADDED_OFFLINE}"
  "FRIEND_LIST_FULL \<notin> {FRIEND_ADDED_ONLINE, FRIEND_ADDED_OFFLINE}"
  by (auto simp: added_result_def FRIEND_ADDED_ONLINE_def FRIEND_ADDED_OFFLINE_def FRIEND_NOT_FOUND_def
      FRIEND_SELF_def FRIEND_ENEMY_def FRIEND_ALREADY_def FRIEND_LIST_FULL_def split: option.splits)

lemma add_friend_body_spec:
  assumes "add_friend_body w p tr8 g ce nt s = (res, s', st)" "om_sorted (soc_map s)"
  shows "res = add_friend_code w p g ce s
    \<and> has_friend g s' = (has_friend g s \<or> res \<in> {FRIEND_ADDED_ONLINE, FRIEND_ADDED_OFFLINE})
    \<and> same_others g s s'"
proof (cases "may_befriend w p ce \<and> friend_result w p g ce s = None")
  case True
  obtain added s1 st1 where a: "add_to_social_list g SOCIAL_FLAG_FRIEND s = (added, s1, st1)" by (metis prod_cases3)
  obtain s2 st2 where n2: "set_friend_note tr8 g nt s1 = (s2, st2)" by fastforce
  obtain s3 st3 where n3: "set_friend_note tr8 g nt s2 = (s3, st3)" by fastforce
  note A = add_makes_friend [OF a assms(2)]
  note B = note_keeps_friends [OF n2] and D = note_keeps_friends [OF n3]
  have code: "add_friend_code w p g ce s = (if added then added_result w p g else FRIEND_LIST_FULL)"
    using True A by (auto simp: add_friend_code_def friend_result_def is_player_level_def split: if_splits)
  have "res = (if added then added_result w p g else FRIEND_LIST_FULL) \<and> s' = (if added then s3 else s2)"
    using assms(1) True a n2 n3 by (auto simp: add_friend_body_def Let_def split: if_splits prod.splits)
  then show ?thesis using A B D code friend_codes by (auto simp: same_others_def)
next
  case False
  obtain s2 st2 where n2: "set_friend_note tr8 g nt s = (s2, st2)" by fastforce
  note B = note_keeps_friends [OF n2 assms(2)]
  have "res = add_friend_code w p g ce s \<and> (s' = s \<or> s' = s2)
      \<and> res \<in> {FRIEND_NOT_FOUND, FRIEND_SELF, FRIEND_ENEMY, FRIEND_ALREADY}"
    using assms(1) False n2
    by (auto simp: add_friend_body_def add_friend_code_def friend_result_def is_player_level_def Let_def split: if_splits)
  then show ?thesis using B friend_codes by (auto simp: same_others_def)
qed


definition bob_request :: byte_buffer where
  "bob_request = \<lparr>bb_rpos = 0, bb_wpos = 0, bb_storage = str ''Bob'' @ [0] @ str ''hi'' @ [0]\<rparr>"

lemma bob_request_read:
  "bb_get_string bob_request = Inr (str ''Bob'', bb_skip 4 bob_request)"
  "bb_get_string (bb_skip 4 bob_request) = Inr (str ''hi'', bb_skip 3 (bb_skip 4 bob_request))"
proof -
  have "bb_next (str ''Bob'' @ [0]) bob_request" "bb_next (str ''hi'' @ [0]) (bb_skip 4 bob_request)"
    by (simp_all add: bb_next_def bb_skip_def bob_request_def bb_size_def str_def)
  then show "bb_get_string bob_request = Inr (str ''Bob'', bb_skip 4 bob_request)"
    "bb_get_string (bb_skip 4 bob_request) = Inr (str ''hi'', bb_skip 3 (bb_skip 4 bob_request))"
    using bb_get_string_next [of "str ''Bob''" bob_request] bb_get_string_next [of "str ''hi''" "bb_skip 4 bob_request"]
    by (simp_all add: utf8_is_valid_ascii str_def)
qed


text \<open>
  The note is set once more behind the chain of tests, so a request that is refused still
  changes it: here for an ignored character of the other faction.
\<close>

lemma refused_request_sets_note:
  "let s = \<lparr>soc_map = [(guid_create_global HG_Player 21, friend_info_new 2 (str ''old''))], soc_guid = 7\<rparr>;
       (res, s', st) = add_friend_body example_world example_player id (guid_create_global HG_Player 21)
         \<lparr>ce_name = str ''Bob'', ce_account = 5, ce_team = 1\<rparr> (str ''new'') s
   in res = FRIEND_ENEMY \<and> st = [UpdNote (str ''new'') 7 21]
      \<and> map_option fi_note (map_of (soc_map s') 21) = Some (str ''new'')"
  by code_simp

end
