(* ===== verification/Chat.thy ===== *)
theory Chat
  imports Packets Players
begin

text \<open>
  Chat packets: \<open>ChatHandler::BuildChatPacket\<close> (src/server/game/Chat/Chat.cpp) and
  \<open>Player::GetChatTag\<close>, and the splitting of lines, \<open>Acore::Tokenize\<close>
  (src/common/Utilities/Tokenize.cpp).
\<close>

section \<open>Tokens\<close>

text \<open>
  The loop of \<open>Tokenize\<close>, on the characters from \<open>start\<close> on: \<open>tok\<close> holds those since \<open>start\<close>.
\<close>

fun tokenize_loop :: "u8 \<Rightarrow> bool \<Rightarrow> bytes \<Rightarrow> bytes \<Rightarrow> bytes list" where
  "tokenize_loop sep keepEmpty tok [] = (if keepEmpty \<or> tok \<noteq> [] then [tok] else [])"
| "tokenize_loop sep keepEmpty tok (c # cs) =
     (if c = sep
      then (if keepEmpty \<or> tok \<noteq> [] then [tok] else []) @ tokenize_loop sep keepEmpty [] cs
      else tokenize_loop sep keepEmpty (tok @ [c]) cs)"

definition tokenize :: "bytes \<Rightarrow> u8 \<Rightarrow> bool \<Rightarrow> bytes list" where
  "tokenize s sep keepEmpty = tokenize_loop sep keepEmpty [] s"

fun join_tokens :: "u8 \<Rightarrow> bytes list \<Rightarrow> bytes" where
  "join_tokens sep [] = []"
| "join_tokens sep [t] = t"
| "join_tokens sep (t # ts) = t @ [sep] @ join_tokens sep ts"

lemma tokenize_loop_ne: "keepEmpty \<Longrightarrow> tokenize_loop sep keepEmpty tok cs \<noteq> []"
  by (induction sep keepEmpty tok cs rule: tokenize_loop.induct) auto

lemma join_tokens_Cons: "ts \<noteq> [] \<Longrightarrow> join_tokens sep (t # ts) = t @ [sep] @ join_tokens sep ts"
  by (cases ts) auto

lemma tokenize_loop_join: "join_tokens sep (tokenize_loop sep True tok cs) = tok @ cs"
  by (induction sep True tok cs rule: tokenize_loop.induct) (auto simp: join_tokens_Cons tokenize_loop_ne)

lemma tokenize_loop_sep: "sep \<notin> set tok \<Longrightarrow> \<forall>t \<in> set (tokenize_loop sep k tok cs). sep \<notin> set t"
  by (induction sep k tok cs rule: tokenize_loop.induct) (auto split: if_splits)

lemma tokenize_loop_filter:
  "tokenize_loop sep False tok cs = filter (\<lambda>t. t \<noteq> []) (tokenize_loop sep True tok cs)"
  by (induction sep False tok cs rule: tokenize_loop.induct) auto


section \<open>Chat packets\<close>

definition SMSG_MESSAGECHAT :: u16 where "SMSG_MESSAGECHAT = 0x096"
definition SMSG_GM_MESSAGECHAT :: u16 where "SMSG_GM_MESSAGECHAT = 0x3B3"

definition CHAT_MSG_SYSTEM :: u32 where "CHAT_MSG_SYSTEM = 0x00"
definition CHAT_MSG_WHISPER_FOREIGN :: u32 where "CHAT_MSG_WHISPER_FOREIGN = 0x08"
definition CHAT_MSG_MONSTER_SAY :: u32 where "CHAT_MSG_MONSTER_SAY = 0x0C"
definition CHAT_MSG_MONSTER_PARTY :: u32 where "CHAT_MSG_MONSTER_PARTY = 0x0D"
definition CHAT_MSG_MONSTER_YELL :: u32 where "CHAT_MSG_MONSTER_YELL = 0x0E"
definition CHAT_MSG_MONSTER_WHISPER :: u32 where "CHAT_MSG_MONSTER_WHISPER = 0x0F"
definition CHAT_MSG_MONSTER_EMOTE :: u32 where "CHAT_MSG_MONSTER_EMOTE = 0x10"
definition CHAT_MSG_CHANNEL :: u32 where "CHAT_MSG_CHANNEL = 0x11"
definition CHAT_MSG_BG_SYSTEM_NEUTRAL :: u32 where "CHAT_MSG_BG_SYSTEM_NEUTRAL = 0x24"
definition CHAT_MSG_BG_SYSTEM_ALLIANCE :: u32 where "CHAT_MSG_BG_SYSTEM_ALLIANCE = 0x25"
definition CHAT_MSG_BG_SYSTEM_HORDE :: u32 where "CHAT_MSG_BG_SYSTEM_HORDE = 0x26"
definition CHAT_MSG_RAID_BOSS_EMOTE :: u32 where "CHAT_MSG_RAID_BOSS_EMOTE = 0x29"
definition CHAT_MSG_RAID_BOSS_WHISPER :: u32 where "CHAT_MSG_RAID_BOSS_WHISPER = 0x2A"
definition CHAT_MSG_BATTLENET :: u32 where "CHAT_MSG_BATTLENET = 0x2F"
definition CHAT_MSG_ACHIEVEMENT :: u32 where "CHAT_MSG_ACHIEVEMENT = 0x30"
definition CHAT_MSG_GUILD_ACHIEVEMENT :: u32 where "CHAT_MSG_GUILD_ACHIEVEMENT = 0x31"

definition LANG_UNIVERSAL :: u32 where "LANG_UNIVERSAL = 0"

definition len_field :: "bytes \<Rightarrow> field" where
  "len_field s = FU32 (word_of_nat (length s + 1))"

text \<open>
  The middle part of the packet, which the type of the message decides; \<open>None\<close> is the failed
  assertion on a channel message without a channel.
\<close>

definition chat_middle :: "u32 \<Rightarrow> guid \<Rightarrow> bytes \<Rightarrow> bytes \<Rightarrow> bool \<Rightarrow> bytes \<Rightarrow> field list option" where
  "chat_middle chatType receiverGUID senderName receiverName gmMessage channelName =
     (if chatType \<in> set [CHAT_MSG_MONSTER_SAY, CHAT_MSG_MONSTER_PARTY, CHAT_MSG_MONSTER_YELL,
           CHAT_MSG_MONSTER_WHISPER, CHAT_MSG_MONSTER_EMOTE, CHAT_MSG_RAID_BOSS_EMOTE,
           CHAT_MSG_RAID_BOSS_WHISPER, CHAT_MSG_BATTLENET]
      then Some ([len_field senderName, FStr senderName, FU64 receiverGUID]
        @ (if \<not> is_empty receiverGUID \<and> \<not> is_player receiverGUID \<and> \<not> is_pet receiverGUID
           then [len_field receiverName, FStr receiverName] else []))
      else if chatType = CHAT_MSG_WHISPER_FOREIGN
      then Some [len_field senderName, FStr senderName, FU64 receiverGUID]
      else if chatType \<in> set [CHAT_MSG_BG_SYSTEM_NEUTRAL, CHAT_MSG_BG_SYSTEM_ALLIANCE, CHAT_MSG_BG_SYSTEM_HORDE]
      then Some (FU64 receiverGUID
        # (if \<not> is_empty receiverGUID \<and> \<not> is_player receiverGUID
           then [len_field receiverName, FStr receiverName] else []))
      else if chatType \<in> set [CHAT_MSG_ACHIEVEMENT, CHAT_MSG_GUILD_ACHIEVEMENT]
      then Some [FU64 receiverGUID]
      else if chatType = CHAT_MSG_CHANNEL \<and> channelName = [] then None
      else Some ((if gmMessage then [len_field senderName, FStr senderName] else [])
        @ (if chatType = CHAT_MSG_CHANNEL then [FStr channelName] else [])
        @ [FU64 receiverGUID]))"

definition build_chat_packet :: "u32 \<Rightarrow> u32 \<Rightarrow> guid \<Rightarrow> guid \<Rightarrow> bytes \<Rightarrow> u8 \<Rightarrow> bytes \<Rightarrow> bytes \<Rightarrow> u32 \<Rightarrow> bool
    \<Rightarrow> bytes \<Rightarrow> world_packet option" where
  "build_chat_packet chatType language senderGUID receiverGUID message chatTag senderName receiverName
     achievementId gmMessage channelName =
     map_option (\<lambda>middle. WorldPacket (if \<not> gmMessage then SMSG_MESSAGECHAT else SMSG_GM_MESSAGECHAT)
         ([FU8 (ucast chatType), FU32 language, FU64 senderGUID, FU32 0] @ middle
          @ [len_field message, FStr message, FU8 chatTag]
          @ (if chatType = CHAT_MSG_ACHIEVEMENT \<or> chatType = CHAT_MSG_GUILD_ACHIEVEMENT
             then [FU32 achievementId] else [])))
       (chat_middle chatType receiverGUID senderName receiverName gmMessage channelName)"

text \<open>The flags of a player that show in chat.\<close>

record chat_attrs =
  ca_gm_chat :: bool
  ca_game_master :: bool
  ca_commentator :: bool
  ca_developer :: bool

definition get_chat_tag :: "chat_attrs \<Rightarrow> player_info \<Rightarrow> u8" where
  "get_chat_tag ca p =
     (if ca_gm_chat ca then 0x04 else 0) OR (if pl_dnd p then 0x02 else 0) OR (if pl_afk p then 0x01 else 0)
     OR (if ca_commentator ca then 0x08 else 0) OR (if ca_developer ca then 0x10 else 0)"

text \<open>The overload that takes sender and receiver objects, for a player speaking to himself.\<close>

definition build_player_chat :: "u32 \<Rightarrow> u32 \<Rightarrow> chat_attrs \<Rightarrow> player_info \<Rightarrow> bytes \<Rightarrow> u32 \<Rightarrow> bytes \<Rightarrow> world_packet option" where
  "build_player_chat chatType language ca p message achievementId channelName =
     build_chat_packet chatType language (pl_guid p) (pl_guid p) message (get_chat_tag ca p) (pl_name p) (pl_name p)
       achievementId (ca_game_master ca) channelName"

text \<open>
  \<open>SendSysMessage\<close>: one packet per line. The escaped message is computed, but the lines are
  those of the text as given.
\<close>

fun join_with :: "bytes \<Rightarrow> bytes list \<Rightarrow> bytes" where
  "join_with sep [] = []"
| "join_with sep [t] = t"
| "join_with sep (t # ts) = t @ sep @ join_with sep ts"

definition send_sys_message :: "bool \<Rightarrow> bytes \<Rightarrow> world_packet option list" where
  "send_sys_message escapeCharacters s =
     (let msg = (if escapeCharacters \<and> 124 \<in> set s then join_with [124, 124] (tokenize s 124 True) else s)
      in map (\<lambda>line. build_chat_packet CHAT_MSG_SYSTEM LANG_UNIVERSAL 0 0 line 0 [] [] 0 False [])
           (tokenize s 10 True))"

text \<open>
  A player's channel message never trips the assertion when the channel has a name,
  and carries type, language, sender, channel, the message with its length, and the tag, in this
  order; a game master's carries the sender's name too and goes out under its own opcode.
\<close>

lemma channel_message_packet:
  assumes "channelName \<noteq> []"
  shows "build_player_chat CHAT_MSG_CHANNEL lang ca p msg ach channelName =
    Some (if ca_game_master ca
      then WorldPacket SMSG_GM_MESSAGECHAT
        ([FU8 0x11, FU32 lang, FU64 (pl_guid p), FU32 0, len_field (pl_name p), FStr (pl_name p),
          FStr channelName, FU64 (pl_guid p), len_field msg, FStr msg, FU8 (get_chat_tag ca p)])
      else WorldPacket SMSG_MESSAGECHAT
        ([FU8 0x11, FU32 lang, FU64 (pl_guid p), FU32 0, FStr channelName, FU64 (pl_guid p),
          len_field msg, FStr msg, FU8 (get_chat_tag ca p)]))"
  using assms
  by (simp add: build_player_chat_def build_chat_packet_def chat_middle_def CHAT_MSG_CHANNEL_def
      CHAT_MSG_WHISPER_FOREIGN_def CHAT_MSG_MONSTER_SAY_def CHAT_MSG_MONSTER_PARTY_def
      CHAT_MSG_MONSTER_YELL_def CHAT_MSG_MONSTER_WHISPER_def CHAT_MSG_MONSTER_EMOTE_def
      CHAT_MSG_RAID_BOSS_EMOTE_def CHAT_MSG_RAID_BOSS_WHISPER_def CHAT_MSG_BATTLENET_def
      CHAT_MSG_BG_SYSTEM_NEUTRAL_def CHAT_MSG_BG_SYSTEM_ALLIANCE_def CHAT_MSG_BG_SYSTEM_HORDE_def
      CHAT_MSG_ACHIEVEMENT_def CHAT_MSG_GUILD_ACHIEVEMENT_def)

text \<open>The escaping of \<open>SendSysMessage\<close> has no effect: the lines are split from the text as given.\<close>

lemma sys_message_not_escaped:
  "send_sys_message True (str ''a|b'') =
    [Some (WorldPacket SMSG_MESSAGECHAT [FU8 0, FU32 0, FU64 0, FU32 0, FU64 0, FU32 4, FStr (str ''a|b''), FU8 0])]"
  by code_simp

end
