(* ===== verification/Channel.thy ===== *)
theory Channel
  imports Chat SocialMgr
begin

text \<open>
  Chat channels: the state of \<open>Channel\<close> (src/server/game/Chat/Channels/Channel.h), the packets
  it sends (the \<open>Make...\<close> functions of Channel.cpp) and the ways it sends them. What an
  operation does outside the channel is appended to the log of the channel, in order.
\<close>

section \<open>Constants\<close>

definition CHAT_JOINED_NOTICE :: u8 where "CHAT_JOINED_NOTICE = 0x00"
definition CHAT_LEFT_NOTICE :: u8 where "CHAT_LEFT_NOTICE = 0x01"
definition CHAT_YOU_JOINED_NOTICE :: u8 where "CHAT_YOU_JOINED_NOTICE = 0x02"
definition CHAT_YOU_LEFT_NOTICE :: u8 where "CHAT_YOU_LEFT_NOTICE = 0x03"
definition CHAT_WRONG_PASSWORD_NOTICE :: u8 where "CHAT_WRONG_PASSWORD_NOTICE = 0x04"
definition CHAT_NOT_MEMBER_NOTICE :: u8 where "CHAT_NOT_MEMBER_NOTICE = 0x05"
definition CHAT_NOT_MODERATOR_NOTICE :: u8 where "CHAT_NOT_MODERATOR_NOTICE = 0x06"
definition CHAT_PASSWORD_CHANGED_NOTICE :: u8 where "CHAT_PASSWORD_CHANGED_NOTICE = 0x07"
definition CHAT_OWNER_CHANGED_NOTICE :: u8 where "CHAT_OWNER_CHANGED_NOTICE = 0x08"
definition CHAT_PLAYER_NOT_FOUND_NOTICE :: u8 where "CHAT_PLAYER_NOT_FOUND_NOTICE = 0x09"
definition CHAT_NOT_OWNER_NOTICE :: u8 where "CHAT_NOT_OWNER_NOTICE = 0x0A"
definition CHAT_CHANNEL_OWNER_NOTICE :: u8 where "CHAT_CHANNEL_OWNER_NOTICE = 0x0B"
definition CHAT_MODE_CHANGE_NOTICE :: u8 where "CHAT_MODE_CHANGE_NOTICE = 0x0C"
definition CHAT_ANNOUNCEMENTS_ON_NOTICE :: u8 where "CHAT_ANNOUNCEMENTS_ON_NOTICE = 0x0D"
definition CHAT_ANNOUNCEMENTS_OFF_NOTICE :: u8 where "CHAT_ANNOUNCEMENTS_OFF_NOTICE = 0x0E"
definition CHAT_MODERATION_ON_NOTICE :: u8 where "CHAT_MODERATION_ON_NOTICE = 0x0F"
definition CHAT_MODERATION_OFF_NOTICE :: u8 where "CHAT_MODERATION_OFF_NOTICE = 0x10"
definition CHAT_MUTED_NOTICE :: u8 where "CHAT_MUTED_NOTICE = 0x11"
definition CHAT_PLAYER_KICKED_NOTICE :: u8 where "CHAT_PLAYER_KICKED_NOTICE = 0x12"
definition CHAT_BANNED_NOTICE :: u8 where "CHAT_BANNED_NOTICE = 0x13"
definition CHAT_PLAYER_BANNED_NOTICE :: u8 where "CHAT_PLAYER_BANNED_NOTICE = 0x14"
definition CHAT_PLAYER_UNBANNED_NOTICE :: u8 where "CHAT_PLAYER_UNBANNED_NOTICE = 0x15"
definition CHAT_PLAYER_NOT_BANNED_NOTICE :: u8 where "CHAT_PLAYER_NOT_BANNED_NOTICE = 0x16"
definition CHAT_PLAYER_ALREADY_MEMBER_NOTICE :: u8 where "CHAT_PLAYER_ALREADY_MEMBER_NOTICE = 0x17"
definition CHAT_INVITE_NOTICE :: u8 where "CHAT_INVITE_NOTICE = 0x18"
definition CHAT_INVITE_WRONG_FACTION_NOTICE :: u8 where "CHAT_INVITE_WRONG_FACTION_NOTICE = 0x19"
definition CHAT_WRONG_FACTION_NOTICE :: u8 where "CHAT_WRONG_FACTION_NOTICE = 0x1A"
definition CHAT_INVALID_NAME_NOTICE :: u8 where "CHAT_INVALID_NAME_NOTICE = 0x1B"
definition CHAT_NOT_MODERATED_NOTICE :: u8 where "CHAT_NOT_MODERATED_NOTICE = 0x1C"
definition CHAT_PLAYER_INVITED_NOTICE :: u8 where "CHAT_PLAYER_INVITED_NOTICE = 0x1D"
definition CHAT_PLAYER_INVITE_BANNED_NOTICE :: u8 where "CHAT_PLAYER_INVITE_BANNED_NOTICE = 0x1E"
definition CHAT_THROTTLED_NOTICE :: u8 where "CHAT_THROTTLED_NOTICE = 0x1F"
definition CHAT_NOT_IN_AREA_NOTICE :: u8 where "CHAT_NOT_IN_AREA_NOTICE = 0x20"
definition CHAT_NOT_IN_LFG_NOTICE :: u8 where "CHAT_NOT_IN_LFG_NOTICE = 0x21"
definition CHAT_VOICE_ON_NOTICE :: u8 where "CHAT_VOICE_ON_NOTICE = 0x22"
definition CHAT_VOICE_OFF_NOTICE :: u8 where "CHAT_VOICE_OFF_NOTICE = 0x23"

definition CHANNEL_FLAG_NONE :: u8 where "CHANNEL_FLAG_NONE = 0x00"
definition CHANNEL_FLAG_CUSTOM :: u8 where "CHANNEL_FLAG_CUSTOM = 0x01"
definition CHANNEL_FLAG_TRADE :: u8 where "CHANNEL_FLAG_TRADE = 0x04"
definition CHANNEL_FLAG_NOT_LFG :: u8 where "CHANNEL_FLAG_NOT_LFG = 0x08"
definition CHANNEL_FLAG_GENERAL :: u8 where "CHANNEL_FLAG_GENERAL = 0x10"
definition CHANNEL_FLAG_CITY :: u8 where "CHANNEL_FLAG_CITY = 0x20"
definition CHANNEL_FLAG_LFG :: u8 where "CHANNEL_FLAG_LFG = 0x40"
definition CHANNEL_FLAG_VOICE :: u8 where "CHANNEL_FLAG_VOICE = 0x80"

definition CHANNEL_DBC_FLAG_ZONE_DEP :: u32 where "CHANNEL_DBC_FLAG_ZONE_DEP = 0x00002"
definition CHANNEL_DBC_FLAG_TRADE :: u32 where "CHANNEL_DBC_FLAG_TRADE = 0x00008"
definition CHANNEL_DBC_FLAG_CITY_ONLY :: u32 where "CHANNEL_DBC_FLAG_CITY_ONLY = 0x00010"
definition CHANNEL_DBC_FLAG_CITY_ONLY2 :: u32 where "CHANNEL_DBC_FLAG_CITY_ONLY2 = 0x00020"
definition CHANNEL_DBC_FLAG_GUILD_REQ :: u32 where "CHANNEL_DBC_FLAG_GUILD_REQ = 0x20000"
definition CHANNEL_DBC_FLAG_LFG :: u32 where "CHANNEL_DBC_FLAG_LFG = 0x40000"

definition MEMBER_FLAG_NONE :: u8 where "MEMBER_FLAG_NONE = 0x00"
definition MEMBER_FLAG_OWNER :: u8 where "MEMBER_FLAG_OWNER = 0x01"
definition MEMBER_FLAG_MODERATOR :: u8 where "MEMBER_FLAG_MODERATOR = 0x02"
definition MEMBER_FLAG_MUTED :: u8 where "MEMBER_FLAG_MUTED = 0x08"

definition CHANNEL_RIGHT_FORCE_NO_ANNOUNCEMENTS :: u32 where "CHANNEL_RIGHT_FORCE_NO_ANNOUNCEMENTS = 0x001"
definition CHANNEL_RIGHT_FORCE_ANNOUNCEMENTS :: u32 where "CHANNEL_RIGHT_FORCE_ANNOUNCEMENTS = 0x002"
definition CHANNEL_RIGHT_NO_OWNERSHIP :: u32 where "CHANNEL_RIGHT_NO_OWNERSHIP = 0x004"
definition CHANNEL_RIGHT_CANT_SPEAK :: u32 where "CHANNEL_RIGHT_CANT_SPEAK = 0x008"
definition CHANNEL_RIGHT_CANT_BAN :: u32 where "CHANNEL_RIGHT_CANT_BAN = 0x010"
definition CHANNEL_RIGHT_CANT_KICK :: u32 where "CHANNEL_RIGHT_CANT_KICK = 0x020"
definition CHANNEL_RIGHT_CANT_MUTE :: u32 where "CHANNEL_RIGHT_CANT_MUTE = 0x040"
definition CHANNEL_RIGHT_CANT_CHANGE_PASSWORD :: u32 where "CHANNEL_RIGHT_CANT_CHANGE_PASSWORD = 0x080"
definition CHANNEL_RIGHT_DONT_PRESERVE :: u32 where "CHANNEL_RIGHT_DONT_PRESERVE = 0x100"

lemmas member_flag_defs = MEMBER_FLAG_NONE_def MEMBER_FLAG_OWNER_def MEMBER_FLAG_MODERATOR_def
  MEMBER_FLAG_MUTED_def

definition SMSG_CHANNEL_NOTIFY :: u16 where "SMSG_CHANNEL_NOTIFY = 0x099"
definition SMSG_CHANNEL_LIST :: u16 where "SMSG_CHANNEL_LIST = 0x09B"
definition SMSG_USERLIST_ADD :: u16 where "SMSG_USERLIST_ADD = 0x3F0"
definition SMSG_USERLIST_REMOVE :: u16 where "SMSG_USERLIST_REMOVE = 0x3F1"
definition SMSG_USERLIST_UPDATE :: u16 where "SMSG_USERLIST_UPDATE = 0x3F2"

definition CHANNEL_BAN_DURATION :: int where "CHANNEL_BAN_DURATION = 86400 * 60"

section \<open>State\<close>

record channel_rights =
  cr_flags :: u32
  cr_speak_delay :: u32
  cr_join_message :: bytes
  cr_speak_message :: bytes
  cr_moderators :: "u32 list"

definition channel_rights_default :: channel_rights where
  "channel_rights_default = \<lparr>cr_flags = 0, cr_speak_delay = 0, cr_join_message = [], cr_speak_message = [],
     cr_moderators = []\<rparr>"

text \<open>\<open>PlayerInfo\<close>; the pointer to the player is his GUID, or none for a null pointer.\<close>

record member =
  cm_player :: guid
  cm_flags :: u8
  cm_ptr :: "guid option"
  cm_gm :: bool

definition member_default :: member where
  "member_default = \<lparr>cm_player = 0, cm_flags = 0, cm_ptr = None, cm_gm = False\<rparr>"

definition has_flag :: "member \<Rightarrow> u8 \<Rightarrow> bool" where
  "has_flag m flag \<longleftrightarrow> cm_flags m AND flag \<noteq> 0"

definition set_flag :: "u8 \<Rightarrow> bool \<Rightarrow> member \<Rightarrow> member" where
  "set_flag flag state m =
     m\<lparr>cm_flags := (if state then cm_flags m OR flag else cm_flags m AND NOT flag)\<rparr>"

abbreviation is_owner :: "member \<Rightarrow> bool" where "is_owner m \<equiv> has_flag m MEMBER_FLAG_OWNER"
abbreviation is_moderator :: "member \<Rightarrow> bool" where "is_moderator m \<equiv> has_flag m MEMBER_FLAG_MODERATOR"
abbreviation is_muted :: "member \<Rightarrow> bool" where "is_muted m \<equiv> has_flag m MEMBER_FLAG_MUTED"

datatype chan_stmt =
    InsChannel u32 bytes u8 bool
  | UpdChannel bool bytes u32
  | UpdChannelUsage u32
  | InsChannelBan u32 u32 u32
  | DelChannelBan u32 u32
  | DelOldChannels u32
  | DelOldBans

text \<open>
  Packets and statements, the two calls that update the player's own list of channels, system
  messages, and the dereference of a pointer to a player who is not there.
\<close>

datatype chan_effect =
    SendTo guid world_packet
  | ChanDb chan_stmt
  | JoinedChannel guid
  | LeftChannel guid
  | SysMessage guid bytes
  | BadPointer

type_synonym member_map = "(guid \<times> member) list"

record channel =
  ch_announce :: bool
  ch_moderation :: bool
  ch_ownership :: bool
  ch_is_saved :: bool
  ch_owner_gm :: bool
  ch_flags :: u8
  ch_id :: u32
  ch_db_id :: u32
  ch_team :: u8
  ch_owner :: guid
  ch_name :: bytes
  ch_password :: bytes
  ch_rights :: channel_rights
  ch_players :: member_map
  ch_banned :: "(guid \<times> u32) list"
  ch_watching :: "guid list"
  ch_log :: "chan_effect list"

text \<open>
  What the channels read of the world, beside \<open>world_env\<close>: the players by name, the social
  lists, groups, the configuration, and the order in which the two unordered containers are
  iterated at this moment.
\<close>

record chan_env =
  ce_world :: world_env
  ce_find_by_name :: "bytes \<Rightarrow> player_info option"
  ce_has_ignore :: "guid \<Rightarrow> guid \<Rightarrow> bool"
  ce_in_group :: "guid \<Rightarrow> bool"
  ce_gm_visible :: "guid \<Rightarrow> bool"
  ce_race_team :: "guid \<Rightarrow> u8"
  ce_attrs :: "guid \<Rightarrow> chat_attrs"
  ce_silent_gm :: bool
  ce_restricted_lfg :: bool
  ce_preserve :: bool
  ce_preserve_days :: u32
  ce_gm_moderation :: u32
  ce_dbc_flags :: "u32 \<Rightarrow> u32 option"
  ce_time :: int
  ce_iter :: "member_map \<Rightarrow> member_map"
  ce_iter_watch :: "guid list \<Rightarrow> guid list"

definition chan_log :: "chan_effect \<Rightarrow> channel \<Rightarrow> channel" where
  "chan_log ef c = c\<lparr>ch_log := ch_log c @ [ef]\<rparr>"

text \<open>The player a stored pointer leads to.\<close>

definition deref :: "chan_env \<Rightarrow> guid option \<Rightarrow> player_info option" where
  "deref e ptr = (case ptr of None \<Rightarrow> None | Some g \<Rightarrow> we_connected (ce_world e) g)"

definition is_constant :: "channel \<Rightarrow> bool" where
  "is_constant c \<longleftrightarrow> ch_id c \<noteq> 0"

definition chan_has_flag :: "channel \<Rightarrow> u8 \<Rightarrow> bool" where
  "chan_has_flag c flag \<longleftrightarrow> ch_flags c AND flag \<noteq> 0"

definition has_right :: "channel \<Rightarrow> u32 \<Rightarrow> bool" where
  "has_right c right \<longleftrightarrow> cr_flags (ch_rights c) AND right \<noteq> 0"

definition is_lfg :: "channel \<Rightarrow> bool" where
  "is_lfg c \<longleftrightarrow> chan_has_flag c CHANNEL_FLAG_LFG"

definition set_password :: "bytes \<Rightarrow> channel \<Rightarrow> channel" where
  "set_password npassword c = c\<lparr>ch_password := npassword\<rparr>"

definition num_players :: "channel \<Rightarrow> nat" where
  "num_players c = length (ch_players c)"

definition add_ban :: "guid \<Rightarrow> u32 \<Rightarrow> channel \<Rightarrow> channel" where
  "add_ban g time c = c\<lparr>ch_banned := AList.update g time (ch_banned c)\<rparr>"

definition is_on :: "channel \<Rightarrow> guid \<Rightarrow> bool" where
  "is_on c g \<longleftrightarrow> map_of (ch_players c) g \<noteq> None"

definition is_banned :: "chan_env \<Rightarrow> channel \<Rightarrow> guid \<Rightarrow> bool" where
  "is_banned e c g = (case map_of (ch_banned c) g of Some t \<Rightarrow> uint t > ce_time e | None \<Rightarrow> False)"

definition get_player_flags :: "channel \<Rightarrow> guid \<Rightarrow> u8" where
  "get_player_flags c g = (case map_of (ch_players c) g of Some m \<Rightarrow> cm_flags m | None \<Rightarrow> 0)"

text \<open>\<open>playersStore[guid]\<close>, read and modified; a missing key is created with a default value.\<close>

definition member_at :: "channel \<Rightarrow> guid \<Rightarrow> member" where
  "member_at c g = (case map_of (ch_players c) g of Some m \<Rightarrow> m | None \<Rightarrow> member_default)"

definition update_member :: "guid \<Rightarrow> (member \<Rightarrow> member) \<Rightarrow> channel \<Rightarrow> channel" where
  "update_member g f c = c\<lparr>ch_players := AList.update g (f (member_at c g)) (ch_players c)\<rparr>"

definition erase_member :: "guid \<Rightarrow> channel \<Rightarrow> channel" where
  "erase_member g c = c\<lparr>ch_players := AList.delete g (ch_players c)\<rparr>"

section \<open>Notices\<close>

definition make_notify :: "channel \<Rightarrow> u8 \<Rightarrow> field list \<Rightarrow> world_packet" where
  "make_notify c notify_type fs = WorldPacket SMSG_CHANNEL_NOTIFY ([FU8 notify_type, FStr (ch_name c)] @ fs)"

definition make_joined :: "channel \<Rightarrow> guid \<Rightarrow> world_packet" where
  "make_joined c g = make_notify c CHAT_JOINED_NOTICE [FU64 g]"

definition make_left :: "channel \<Rightarrow> guid \<Rightarrow> world_packet" where
  "make_left c g = make_notify c CHAT_LEFT_NOTICE [FU64 g]"

definition make_you_joined :: "channel \<Rightarrow> world_packet" where
  "make_you_joined c = make_notify c CHAT_YOU_JOINED_NOTICE [FU8 (ch_flags c), FU32 (ch_id c), FU32 0]"

definition make_you_left :: "channel \<Rightarrow> world_packet" where
  "make_you_left c = make_notify c CHAT_YOU_LEFT_NOTICE [FU32 (ch_id c), FU8 (if is_constant c then 1 else 0)]"

definition make_wrong_password :: "channel \<Rightarrow> world_packet" where
  "make_wrong_password c = make_notify c CHAT_WRONG_PASSWORD_NOTICE []"

definition make_not_member :: "channel \<Rightarrow> world_packet" where
  "make_not_member c = make_notify c CHAT_NOT_MEMBER_NOTICE []"

definition make_not_moderator :: "channel \<Rightarrow> world_packet" where
  "make_not_moderator c = make_notify c CHAT_NOT_MODERATOR_NOTICE []"

definition make_password_changed :: "channel \<Rightarrow> guid \<Rightarrow> world_packet" where
  "make_password_changed c g = make_notify c CHAT_PASSWORD_CHANGED_NOTICE [FU64 g]"

definition make_owner_changed :: "channel \<Rightarrow> guid \<Rightarrow> world_packet" where
  "make_owner_changed c g = make_notify c CHAT_OWNER_CHANGED_NOTICE [FU64 g]"

definition make_player_not_found :: "channel \<Rightarrow> bytes \<Rightarrow> world_packet" where
  "make_player_not_found c name = make_notify c CHAT_PLAYER_NOT_FOUND_NOTICE [FStr name]"

definition make_not_owner :: "channel \<Rightarrow> world_packet" where
  "make_not_owner c = make_notify c CHAT_NOT_OWNER_NOTICE []"

definition make_channel_owner :: "chan_env \<Rightarrow> channel \<Rightarrow> world_packet" where
  "make_channel_owner e c =
     (let name = (case we_characters (ce_world e) (ch_owner c) of Some ce \<Rightarrow> ce_name ce | None \<Rightarrow> []);
          name = (if name = [] then str ''PLAYER_NOT_FOUND'' else name)
      in make_notify c CHAT_CHANNEL_OWNER_NOTICE
           [FStr (if is_constant c \<or> is_empty (ch_owner c) then str ''Nobody'' else name)])"

definition make_mode_change :: "channel \<Rightarrow> guid \<Rightarrow> u8 \<Rightarrow> world_packet" where
  "make_mode_change c g oldflags = make_notify c CHAT_MODE_CHANGE_NOTICE [FU64 g, FU8 oldflags, FU8 (get_player_flags c g)]"

definition make_announcements_on :: "channel \<Rightarrow> guid \<Rightarrow> world_packet" where
  "make_announcements_on c g = make_notify c CHAT_ANNOUNCEMENTS_ON_NOTICE [FU64 g]"

definition make_announcements_off :: "channel \<Rightarrow> guid \<Rightarrow> world_packet" where
  "make_announcements_off c g = make_notify c CHAT_ANNOUNCEMENTS_OFF_NOTICE [FU64 g]"

definition make_muted :: "channel \<Rightarrow> world_packet" where
  "make_muted c = make_notify c CHAT_MUTED_NOTICE []"

definition make_player_kicked :: "channel \<Rightarrow> guid \<Rightarrow> guid \<Rightarrow> world_packet" where
  "make_player_kicked c bad good = make_notify c CHAT_PLAYER_KICKED_NOTICE [FU64 bad, FU64 good]"

definition make_banned :: "channel \<Rightarrow> world_packet" where
  "make_banned c = make_notify c CHAT_BANNED_NOTICE []"

definition make_player_banned :: "channel \<Rightarrow> guid \<Rightarrow> guid \<Rightarrow> world_packet" where
  "make_player_banned c bad good = make_notify c CHAT_PLAYER_BANNED_NOTICE [FU64 bad, FU64 good]"

definition make_player_unbanned :: "channel \<Rightarrow> guid \<Rightarrow> guid \<Rightarrow> world_packet" where
  "make_player_unbanned c bad good = make_notify c CHAT_PLAYER_UNBANNED_NOTICE [FU64 bad, FU64 good]"

definition make_player_not_banned :: "channel \<Rightarrow> bytes \<Rightarrow> world_packet" where
  "make_player_not_banned c name = make_notify c CHAT_PLAYER_NOT_BANNED_NOTICE [FStr name]"

definition make_player_already_member :: "channel \<Rightarrow> guid \<Rightarrow> world_packet" where
  "make_player_already_member c g = make_notify c CHAT_PLAYER_ALREADY_MEMBER_NOTICE [FU64 g]"

definition make_invite :: "channel \<Rightarrow> guid \<Rightarrow> world_packet" where
  "make_invite c g = make_notify c CHAT_INVITE_NOTICE [FU64 g]"

definition make_invite_wrong_faction :: "channel \<Rightarrow> world_packet" where
  "make_invite_wrong_faction c = make_notify c CHAT_INVITE_WRONG_FACTION_NOTICE []"

definition make_wrong_faction :: "channel \<Rightarrow> world_packet" where
  "make_wrong_faction c = make_notify c CHAT_WRONG_FACTION_NOTICE []"

definition make_invalid_name :: "channel \<Rightarrow> world_packet" where
  "make_invalid_name c = make_notify c CHAT_INVALID_NAME_NOTICE []"

definition make_not_moderated :: "channel \<Rightarrow> world_packet" where
  "make_not_moderated c = make_notify c CHAT_NOT_MODERATED_NOTICE []"

definition make_player_invited :: "channel \<Rightarrow> bytes \<Rightarrow> world_packet" where
  "make_player_invited c name = make_notify c CHAT_PLAYER_INVITED_NOTICE [FStr name]"

definition make_player_invite_banned :: "channel \<Rightarrow> bytes \<Rightarrow> world_packet" where
  "make_player_invite_banned c name = make_notify c CHAT_PLAYER_INVITE_BANNED_NOTICE [FStr name]"

definition make_throttled :: "channel \<Rightarrow> world_packet" where
  "make_throttled c = make_notify c CHAT_THROTTLED_NOTICE []"

definition make_not_in_area :: "channel \<Rightarrow> world_packet" where
  "make_not_in_area c = make_notify c CHAT_NOT_IN_AREA_NOTICE []"

definition make_not_in_lfg :: "channel \<Rightarrow> world_packet" where
  "make_not_in_lfg c = make_notify c CHAT_NOT_IN_LFG_NOTICE []"

definition make_voice_on :: "channel \<Rightarrow> guid \<Rightarrow> world_packet" where
  "make_voice_on c g = make_notify c CHAT_VOICE_ON_NOTICE [FU64 g]"

definition make_voice_off :: "channel \<Rightarrow> guid \<Rightarrow> world_packet" where
  "make_voice_off c g = make_notify c CHAT_VOICE_OFF_NOTICE [FU64 g]"

definition make_moderation_on :: "channel \<Rightarrow> guid \<Rightarrow> world_packet" where
  "make_moderation_on c g = make_notify c CHAT_MODERATION_ON_NOTICE [FU64 g]"

definition make_moderation_off :: "channel \<Rightarrow> guid \<Rightarrow> world_packet" where
  "make_moderation_off c g = make_notify c CHAT_MODERATION_OFF_NOTICE [FU64 g]"

end
