(* ===== verification/ChannelOps.thy ===== *)
theory ChannelOps
  imports Channel
begin

text \<open>
  The operations of a chat channel (src/server/game/Chat/Channels/Channel.cpp), each the whole
  function with its early returns, in the order of the source. \<open>e\<close> is the world at that moment,
  \<open>p\<close> the player who asks.
\<close>

section \<open>Sending\<close>

definition send_to_all :: "chan_env \<Rightarrow> world_packet \<Rightarrow> guid \<Rightarrow> channel \<Rightarrow> channel" where
  "send_to_all e data g c =
     fold (\<lambda>(k, m) c. case deref e (cm_ptr m) of
             None \<Rightarrow> chan_log BadPointer c
           | Some pl \<Rightarrow> if is_empty g \<or> \<not> ce_has_ignore e (pl_guid pl) g
                        then chan_log (SendTo (pl_guid pl) data) c else c)
       (ce_iter e (ch_players c)) c"

definition send_to_all_but_one :: "chan_env \<Rightarrow> world_packet \<Rightarrow> guid \<Rightarrow> channel \<Rightarrow> channel" where
  "send_to_all_but_one e data who c =
     fold (\<lambda>(k, m) c. if k \<noteq> who
           then (case deref e (cm_ptr m) of
                   None \<Rightarrow> chan_log BadPointer c
                 | Some pl \<Rightarrow> chan_log (SendTo (pl_guid pl) data) c)
           else c)
       (ce_iter e (ch_players c)) c"

definition send_to_one :: "chan_env \<Rightarrow> world_packet \<Rightarrow> guid \<Rightarrow> channel \<Rightarrow> channel" where
  "send_to_one e data who c = (case find_connected_player (ce_world e) who of
     Some pl \<Rightarrow> chan_log (SendTo (pl_guid pl) data) c | None \<Rightarrow> c)"

definition send_to_all_watching :: "chan_env \<Rightarrow> world_packet \<Rightarrow> channel \<Rightarrow> channel" where
  "send_to_all_watching e data c =
     fold (\<lambda>g c. case deref e (Some g) of
             None \<Rightarrow> chan_log BadPointer c
           | Some pl \<Rightarrow> chan_log (SendTo (pl_guid pl) data) c)
       (ce_iter_watch e (ch_watching c)) c"

definition should_announce_player :: "chan_env \<Rightarrow> player_info \<Rightarrow> bool" where
  "should_announce_player e p \<longleftrightarrow> \<not> (is_gm_account p \<and> ce_silent_gm e)"

text \<open>The three notifications to the players who watch the member list.\<close>

definition join_notify :: "chan_env \<Rightarrow> player_info \<Rightarrow> channel \<Rightarrow> channel" where
  "join_notify e p c =
     (if has_right c CHANNEL_RIGHT_CANT_SPEAK then c
      else if \<not> is_player_level (pl_security p) then c
      else send_to_all_watching e (WorldPacket SMSG_USERLIST_ADD
        [FU64 (pl_guid p), FU8 (get_player_flags c (pl_guid p)), FU8 (ch_flags c),
         FU32 (word_of_nat (num_players c)), FStr (ch_name c)]) c)"

definition leave_notify :: "chan_env \<Rightarrow> player_info \<Rightarrow> channel \<Rightarrow> channel" where
  "leave_notify e p c =
     (if has_right c CHANNEL_RIGHT_CANT_SPEAK then c
      else if \<not> is_player_level (pl_security p) then c
      else send_to_all_watching e (WorldPacket SMSG_USERLIST_REMOVE
        [FU64 (pl_guid p), FU8 (ch_flags c), FU32 (word_of_nat (num_players c)), FStr (ch_name c)]) c)"

definition flags_notify :: "chan_env \<Rightarrow> guid option \<Rightarrow> channel \<Rightarrow> channel" where
  "flags_notify e ptr c =
     (if has_right c CHANNEL_RIGHT_CANT_SPEAK then c
      else case deref e ptr of
        None \<Rightarrow> chan_log BadPointer c
      | Some p \<Rightarrow>
          if \<not> is_player_level (pl_security p) then c
          else send_to_all_watching e (WorldPacket SMSG_USERLIST_UPDATE
            [FU64 (pl_guid p), FU8 (get_player_flags c (pl_guid p)), FU8 (ch_flags c),
             FU32 (word_of_nat (num_players c)), FStr (ch_name c)]) c)"

definition add_watching :: "player_info \<Rightarrow> channel \<Rightarrow> channel" where
  "add_watching p c =
     (if \<not> is_on c (pl_guid p) then c
      else c\<lparr>ch_watching := List.insert (pl_guid p) (ch_watching c)\<rparr>)"

definition remove_watching :: "guid \<Rightarrow> channel \<Rightarrow> channel" where
  "remove_watching g c = c\<lparr>ch_watching := removeAll g (ch_watching c)\<rparr>"

section \<open>The database\<close>

definition update_channel_in_db :: "channel \<Rightarrow> channel" where
  "update_channel_in_db c =
     (if ch_is_saved c then chan_log (ChanDb (UpdChannel (ch_announce c) (ch_password c) (ch_db_id c))) c else c)"

definition update_channel_usage_in_db :: "channel \<Rightarrow> channel" where
  "update_channel_usage_in_db c = chan_log (ChanDb (UpdChannelUsage (ch_db_id c))) c"

definition add_channel_ban_to_db :: "guid \<Rightarrow> u32 \<Rightarrow> channel \<Rightarrow> channel" where
  "add_channel_ban_to_db g time c = chan_log (ChanDb (InsChannelBan (ch_db_id c) (get_counter g) time)) c"

definition remove_channel_ban_from_db :: "guid \<Rightarrow> channel \<Rightarrow> channel" where
  "remove_channel_ban_from_db g c = chan_log (ChanDb (DelChannelBan (ch_db_id c) (get_counter g))) c"

definition clean_old_channels_in_db :: "chan_env \<Rightarrow> chan_stmt list" where
  "clean_old_channels_in_db e =
     (if ce_preserve_days e > 0 then [DelOldChannels (ce_preserve_days e * 86400), DelOldBans] else [])"

section \<open>Ownership and modes\<close>

text \<open>The constructor: \<open>nextId\<close> is \<open>ChannelMgr::_channelIdMax\<close>, returned updated. The constructor
  does not initialise \<open>_moderation\<close>; \<open>garbage\<close> is what the memory held.\<close>

definition channel_new :: "chan_env \<Rightarrow> (bytes \<Rightarrow> channel_rights) \<Rightarrow> bool \<Rightarrow> bytes \<Rightarrow> u32 \<Rightarrow> u32 \<Rightarrow> u8 \<Rightarrow> bool \<Rightarrow> bool
    \<Rightarrow> u32 \<Rightarrow> channel \<times> u32" where
  "channel_new e rights_for garbage name channelId channelDBId teamId announce ownership nextId =
     (let c = \<lparr>ch_announce = announce, ch_moderation = garbage, ch_ownership = ownership, ch_is_saved = False,
            ch_owner_gm = False, ch_flags = 0, ch_id = channelId, ch_db_id = channelDBId, ch_team = teamId,
            ch_owner = 0, ch_name = name, ch_password = [], ch_rights = channel_rights_default,
            ch_players = [], ch_banned = [], ch_watching = [], ch_log = []\<rparr>
      in case ce_dbc_flags e channelId of
        Some dbc \<Rightarrow>
          let c = c\<lparr>ch_announce := False, ch_ownership := False, ch_flags := ch_flags c OR CHANNEL_FLAG_GENERAL\<rparr>;
              c = (if dbc AND CHANNEL_DBC_FLAG_TRADE \<noteq> 0 then c\<lparr>ch_flags := ch_flags c OR CHANNEL_FLAG_TRADE\<rparr> else c);
              c = (if dbc AND CHANNEL_DBC_FLAG_CITY_ONLY2 \<noteq> 0 then c\<lparr>ch_flags := ch_flags c OR CHANNEL_FLAG_CITY\<rparr> else c);
              c = (if dbc AND CHANNEL_DBC_FLAG_LFG \<noteq> 0 then c\<lparr>ch_flags := ch_flags c OR CHANNEL_FLAG_LFG\<rparr>
                   else c\<lparr>ch_flags := ch_flags c OR CHANNEL_FLAG_NOT_LFG\<rparr>)
          in (c, nextId)
      | None \<Rightarrow>
          let c = c\<lparr>ch_flags := ch_flags c OR CHANNEL_FLAG_CUSTOM, ch_rights := rights_for name\<rparr>;
              c = (if has_right c CHANNEL_RIGHT_FORCE_NO_ANNOUNCEMENTS then c\<lparr>ch_announce := False\<rparr> else c);
              c = (if has_right c CHANNEL_RIGHT_FORCE_ANNOUNCEMENTS then c\<lparr>ch_announce := True\<rparr> else c);
              c = (if has_right c CHANNEL_RIGHT_NO_OWNERSHIP then c\<lparr>ch_ownership := False\<rparr> else c)
          in if has_right c CHANNEL_RIGHT_DONT_PRESERVE then (c, nextId)
             else
               let c = c\<lparr>ch_is_saved := True\<rparr>
               in if channelDBId > 0 then (c, nextId)
                  else if ce_preserve e
                  then let nextId = nextId + 1; c = c\<lparr>ch_db_id := nextId\<rparr>
                       in (chan_log (ChanDb (InsChannel (ch_db_id c) name teamId (ch_announce c))) c, nextId)
                  else (c, nextId))"

definition unset_old_owner :: "chan_env \<Rightarrow> channel \<Rightarrow> channel" where
  "unset_old_owner e c =
     (if \<not> is_empty (ch_owner c) \<and> is_on c (ch_owner c)
      then let c = update_member (ch_owner c) (set_flag MEMBER_FLAG_OWNER False) c
           in flags_notify e (cm_ptr (member_at c (ch_owner c))) c
      else c)"

definition announce_owner :: "chan_env \<Rightarrow> u8 \<Rightarrow> bool \<Rightarrow> channel \<Rightarrow> channel" where
  "announce_owner e oldFlag exclaim c =
     (case find_player (ce_world e) (ch_owner c) of
        None \<Rightarrow> c
      | Some player \<Rightarrow>
          if should_announce_player e player
          then let c = send_to_all e (make_mode_change c (ch_owner c) oldFlag) 0 c
               in if exclaim then send_to_all e (make_owner_changed c (ch_owner c)) 0 c else c
          else c)"

definition set_owner_guid :: "chan_env \<Rightarrow> guid \<Rightarrow> bool \<Rightarrow> channel \<Rightarrow> channel" where
  "set_owner_guid e g exclaim c =
     (let c = unset_old_owner e c;
          c = c\<lparr>ch_owner := g\<rparr>
      in if is_empty (ch_owner c) then c
         else
           let c = update_member (ch_owner c) (set_flag MEMBER_FLAG_MODERATOR True) c;
               oldFlag = cm_flags (member_at c (ch_owner c));
               c = update_member (ch_owner c) (set_flag MEMBER_FLAG_OWNER True) c;
               c = flags_notify e (cm_ptr (member_at c (ch_owner c))) c
           in announce_owner e oldFlag exclaim c)"

definition set_moderator_guid :: "chan_env \<Rightarrow> guid \<Rightarrow> bool \<Rightarrow> channel \<Rightarrow> channel" where
  "set_moderator_guid e g st c =
     (if is_moderator (member_at c g) \<noteq> st
      then let oldFlag = cm_flags (member_at c g);
               c = update_member g (set_flag MEMBER_FLAG_MODERATOR st) c;
               c = send_to_all e (make_mode_change c g oldFlag) 0 c
           in flags_notify e (cm_ptr (member_at c g)) c
      else update_member g id c)"

definition set_mute_guid :: "chan_env \<Rightarrow> guid \<Rightarrow> bool \<Rightarrow> channel \<Rightarrow> channel" where
  "set_mute_guid e g st c =
     (if is_muted (member_at c g) \<noteq> st
      then let oldFlag = cm_flags (member_at c g);
               c = update_member g (set_flag MEMBER_FLAG_MUTED st) c
           in send_to_all e (make_mode_change c g oldFlag) 0 c
      else update_member g id c)"

section \<open>Joining and leaving\<close>

text \<open>A refusal: one notice to the player who asked.\<close>

definition refuse_to :: "chan_env \<Rightarrow> player_info \<Rightarrow> world_packet \<Rightarrow> channel \<Rightarrow> channel" where
  "refuse_to e p data c = send_to_one e data (pl_guid p) c"

definition is_constant_moderator :: "channel \<Rightarrow> u32 \<Rightarrow> bool" where
  "is_constant_moderator c accId \<longleftrightarrow> accId \<in> set (cr_moderators (ch_rights c))"

text \<open>The handling of custom channels at the end of \<open>JoinChannel\<close>.\<close>

definition join_custom :: "chan_env \<Rightarrow> player_info \<Rightarrow> channel \<Rightarrow> channel" where
  "join_custom e p c =
     (let g = pl_guid p;
          c = (if ch_players c \<noteq> [] then update_channel_usage_in_db c else c);
          c = (if is_constant_moderator c (pl_account p)
               then flags_notify e (Some g) (update_member g (set_flag MEMBER_FLAG_MODERATOR True) c) else c);
          c = (if (is_empty (ch_owner c) \<or> (ch_owner_gm c \<and> ce_silent_gm e)) \<and> ch_ownership c
               then set_owner_guid e g False (c\<lparr>ch_owner_gm := cm_gm (member_at c g)\<rparr>) else c)
      in if has_right c CHANNEL_RIGHT_CANT_SPEAK then update_member g (set_flag MEMBER_FLAG_MUTED True) c
         else c)"

definition join_channel :: "chan_env \<Rightarrow> player_info \<Rightarrow> bytes \<Rightarrow> channel \<Rightarrow> channel" where
  "join_channel e p pass c =
     (let g = pl_guid p in
      if is_on c g
      then (if \<not> is_constant c then refuse_to e p (make_player_already_member c g) c else c)
      else if is_banned e c g then refuse_to e p (make_banned c) c
      else if ch_password c \<noteq> [] \<and> pass \<noteq> ch_password c then refuse_to e p (make_wrong_password c) c
      else if chan_has_flag c CHANNEL_FLAG_LFG \<and> ce_restricted_lfg e \<and> is_player_level (pl_security p)
        \<and> ce_in_group e g then refuse_to e p (make_not_in_lfg c) c
      else
        let c = chan_log (JoinedChannel g) c;
            c = (if ch_announce c \<and> should_announce_player e p then send_to_all e (make_joined c g) 0 c else c);
            c = update_member g (\<lambda>_. \<lparr>cm_player = g, cm_flags = MEMBER_FLAG_NONE, cm_ptr = Some g, cm_gm = False\<rparr>) c;
            c = (if cr_join_message (ch_rights c) \<noteq> []
                 then chan_log (SysMessage g (cr_join_message (ch_rights c))) c else c);
            c = send_to_one e (make_you_joined c) g c;
            c = join_notify e p c;
            c = update_member g (\<lambda>m. m\<lparr>cm_gm := is_gm_account p\<rparr>) c
        in if \<not> is_constant c then join_custom e p c else c)"

text \<open>
  The search for a new owner: the last member the loop looked at, and whether he is a game
  master (\<open>None\<close> when a pointer led nowhere). It stops at the first without security level.
\<close>

fun pick_owner :: "chan_env \<Rightarrow> member_map \<Rightarrow> guid \<times> bool \<Rightarrow> (guid \<times> bool) option" where
  "pick_owner e [] acc = Some acc"
| "pick_owner e ((k, m) # ms) acc =
     (case deref e (cm_ptr m) of
        None \<Rightarrow> None
      | Some pl \<Rightarrow>
          let acc = (cm_player m, is_gm_account pl)
          in if pl_security pl = 0 then Some acc else pick_owner e ms acc)"

definition leave_channel :: "chan_env \<Rightarrow> player_info \<Rightarrow> bool \<Rightarrow> channel \<Rightarrow> channel" where
  "leave_channel e p send c =
     (let g = pl_guid p in
      if \<not> is_on c g then (if send then refuse_to e p (make_not_member c) c else c)
      else
        let c = (if send then chan_log (LeftChannel g) (send_to_one e (make_you_left c) g c) else c);
            changeowner = is_owner (member_at c g);
            c = erase_member g c;
            c = (if ch_announce c \<and> should_announce_player e p then send_to_all e (make_left c g) 0 c else c);
            c = remove_watching g c;
            c = leave_notify e p c
        in if is_constant c then c
           else
             let c = update_channel_usage_in_db c
             in if changeowner \<and> ch_ownership c
                then if ch_players c \<noteq> []
                     then (case pick_owner e (ce_iter e (ch_players c)) (0, ch_owner_gm c) of
                             None \<Rightarrow> chan_log BadPointer c
                           | Some (newowner, gm) \<Rightarrow> set_owner_guid e newowner True (c\<lparr>ch_owner_gm := gm\<rparr>))
                     else set_owner_guid e 0 True c
                else c)"

section \<open>Kicking and banning\<close>

text \<open>
  The player aimed at: his GUID, his account, whether he is on the channel, and the object if he
  is connected; or the packet (or system message) the function returns with.
\<close>

datatype kick_refusal = Notice world_packet | OtherFaction

definition kick_target :: "chan_env \<Rightarrow> player_info \<Rightarrow> bytes \<Rightarrow> bool \<Rightarrow> channel
    \<Rightarrow> kick_refusal + (guid \<times> u32 \<times> bool \<times> player_info option)" where
  "kick_target e p badname ban c =
     (let bad = ce_find_by_name e badname;
          victim = (case bad of Some b \<Rightarrow> pl_guid b | None \<Rightarrow> 0);
          badAccId = (case bad of Some b \<Rightarrow> pl_account b | None \<Rightarrow> 0);
          isOnChannel = (\<not> is_empty victim \<and> is_on c victim)
      in if isOnChannel then Inr (victim, badAccId, True, bad)
         else if ban \<and> (is_gm_account p \<or> is_constant_moderator c (pl_account p))
         then
           let g = we_guid_of_name (ce_world e) badname
           in (case (if is_empty g then None else we_characters (ce_world e) g) of
                 Some gpd \<Rightarrow>
                   if ce_team gpd = ce_race_team e (pl_guid p) then Inr (g, ce_account gpd, False, bad)
                   else Inl OtherFaction
               | None \<Rightarrow> Inl (Notice (make_player_not_found c badname)))
         else Inl (Notice (make_player_not_found c badname)))"

text \<open>
  What a moderator who is neither a game master nor a permanent moderator may not do. The
  object of the player aimed at is only looked at here; \<open>None\<close> in the result is the
  dereference of a null pointer.
\<close>

definition kick_forbidden :: "chan_env \<Rightarrow> player_info \<Rightarrow> guid \<Rightarrow> u32 \<Rightarrow> player_info option \<Rightarrow> bool \<Rightarrow> channel
    \<Rightarrow> world_packet option option" where
  "kick_forbidden e p victim badAccId bad ban c =
     (if ch_owner c = victim \<and> pl_guid p \<noteq> ch_owner c then Some (Some (make_not_owner c))
      else if (ban \<and> has_right c CHANNEL_RIGHT_CANT_BAN) \<or> (\<not> ban \<and> has_right c CHANNEL_RIGHT_CANT_KICK)
      then Some (Some (make_not_moderator c))
      else if is_constant_moderator c badAccId then Some (Some (make_not_moderator c))
      else case bad of
        None \<Rightarrow> None
      | Some b \<Rightarrow> Some (if is_gm_account b then Some (make_not_moderator c) else None))"

definition kick_execute :: "chan_env \<Rightarrow> player_info \<Rightarrow> guid \<Rightarrow> bool \<Rightarrow> player_info option \<Rightarrow> bool \<Rightarrow> channel \<Rightarrow> channel" where
  "kick_execute e p victim isOnChannel bad ban c =
     (let good = pl_guid p;
          changeowner = (ch_owner c = victim);
          c = (if ban
               then if \<not> is_banned e c victim
                    then let time = word_of_int (ce_time e + CHANNEL_BAN_DURATION);
                             c = add_channel_ban_to_db victim time (add_ban victim time c)
                         in if should_announce_player e p
                            then send_to_all e (make_player_banned c victim good) 0 c else c
                    else c
               else if should_announce_player e p
               then send_to_all e (make_player_kicked c victim good) 0 c else c);
          c = (if isOnChannel
               then let c = erase_member victim c
                    in case bad of
                         None \<Rightarrow> chan_log BadPointer c
                       | Some b \<Rightarrow> leave_notify e b (remove_watching (pl_guid b) (chan_log (LeftChannel (pl_guid b)) c))
               else c)
      in if changeowner \<and> ch_ownership c
         then if good \<noteq> victim then set_owner_guid e good True c
              else if ch_players c \<noteq> []
              then (case pick_owner e (ce_iter e (ch_players c)) (0, ch_owner_gm c) of
                      None \<Rightarrow> chan_log BadPointer c
                    | Some (newowner, _) \<Rightarrow> set_owner_guid e newowner True c)
              else set_owner_guid e 0 True c
         else c)"

definition kick_or_ban :: "chan_env \<Rightarrow> player_info \<Rightarrow> bytes \<Rightarrow> bool \<Rightarrow> channel \<Rightarrow> channel" where
  "kick_or_ban e p badname ban c =
     (let good = pl_guid p in
      if \<not> is_on c good then refuse_to e p (make_not_member c) c
      else if \<not> is_moderator (member_at c good) \<and> \<not> is_gm_account p then refuse_to e p (make_not_moderator c) c
      else case kick_target e p badname ban c of
        Inl (Notice data) \<Rightarrow> refuse_to e p data c
      | Inl OtherFaction \<Rightarrow>
          chan_log (SysMessage good (str ''Character '' @ badname @ str '' has other faction!'')) c
      | Inr (victim, badAccId, isOnChannel, bad) \<Rightarrow>
          (case (if \<not> is_gm_account p \<and> \<not> is_constant_moderator c (pl_account p)
                 then kick_forbidden e p victim badAccId bad ban c else Some None) of
             None \<Rightarrow> chan_log BadPointer c
           | Some (Some data) \<Rightarrow> refuse_to e p data c
           | Some None \<Rightarrow> kick_execute e p victim isOnChannel bad ban c))"

definition unban :: "chan_env \<Rightarrow> player_info \<Rightarrow> bytes \<Rightarrow> channel \<Rightarrow> channel" where
  "unban e p badname c =
     (let good = pl_guid p in
      if \<not> is_on c good then refuse_to e p (make_not_member c) c
      else if \<not> is_moderator (member_at c good) \<and> \<not> is_gm_account p then refuse_to e p (make_not_moderator c) c
      else
        let victim = we_guid_of_name (ce_world e) badname
        in if is_empty victim \<or> \<not> is_banned e c victim
           then refuse_to e p (make_player_not_found c badname) c
           else if \<not> is_gm_account p \<and> \<not> is_constant_moderator c (pl_account p) \<and> has_right c CHANNEL_RIGHT_CANT_BAN
           then refuse_to e p (make_not_moderator c) c
           else
             let c = remove_channel_ban_from_db victim (c\<lparr>ch_banned := AList.delete victim (ch_banned c)\<rparr>)
             in send_to_all e (make_player_unbanned c victim good) 0 c)"

definition unban_guid :: "chan_env \<Rightarrow> guid \<Rightarrow> channel \<Rightarrow> channel" where
  "unban_guid e g c =
     (if \<not> is_banned e c g then c
      else remove_channel_ban_from_db g (c\<lparr>ch_banned := AList.delete g (ch_banned c)\<rparr>))"

section \<open>The other requests\<close>

definition password :: "chan_env \<Rightarrow> player_info \<Rightarrow> bytes \<Rightarrow> channel \<Rightarrow> channel" where
  "password e p pass c =
     (let g = pl_guid p in
      if \<not> is_on c g then refuse_to e p (make_not_member c) c
      else if \<not> is_moderator (member_at c g) \<and> \<not> is_gm_account p then refuse_to e p (make_not_moderator c) c
      else if has_right c CHANNEL_RIGHT_CANT_CHANGE_PASSWORD then refuse_to e p (make_not_moderator c) c
      else
        let c = c\<lparr>ch_password := pass\<rparr>;
            c = send_to_all e (make_password_changed c g) 0 c
        in update_channel_in_db c)"

definition set_mode :: "chan_env \<Rightarrow> player_info \<Rightarrow> bytes \<Rightarrow> bool \<Rightarrow> bool \<Rightarrow> channel \<Rightarrow> channel" where
  "set_mode e p p2n md st c =
     (let g = pl_guid p in
      if \<not> is_on c g then refuse_to e p (make_not_member c) c
      else if \<not> is_moderator (member_at c g) \<and> \<not> is_gm_account p then refuse_to e p (make_not_moderator c) c
      else if g = ch_owner c \<and> p2n = pl_name p \<and> md then c
      else case ce_find_by_name e p2n of
        None \<Rightarrow> refuse_to e p (make_player_not_found c p2n) c
      | Some newp \<Rightarrow>
          let victim = pl_guid newp
          in if is_empty victim \<or> \<not> is_on c victim
              \<or> ((\<not> is_gm_account p \<or> \<not> is_gm_account newp) \<and> pl_team p \<noteq> pl_team newp
                 \<and> \<not> we_two_side_channel (ce_world e))
             then refuse_to e p (make_player_not_found c p2n) c
             else if ch_owner c = victim \<and> ch_owner c \<noteq> g then refuse_to e p (make_not_owner c) c
             else if md
             then (if \<not> is_constant_moderator c (pl_account newp) then set_moderator_guid e victim st c else c)
             else if \<not> is_gm_account p \<and> \<not> is_constant_moderator c (pl_account p) \<and> has_right c CHANNEL_RIGHT_CANT_MUTE
             then refuse_to e p (make_not_moderator c) c
             else set_mute_guid e victim st c)"

definition set_owner :: "chan_env \<Rightarrow> player_info \<Rightarrow> bytes \<Rightarrow> channel \<Rightarrow> channel" where
  "set_owner e p newname c =
     (let g = pl_guid p in
      if \<not> is_on c g then refuse_to e p (make_not_member c) c
      else if \<not> is_gm_account p \<and> g \<noteq> ch_owner c \<and> \<not> is_constant_moderator c (pl_account p)
      then refuse_to e p (make_not_owner c) c
      else case ce_find_by_name e newname of
        None \<Rightarrow> refuse_to e p (make_player_not_found c newname) c
      | Some newp \<Rightarrow>
          if is_empty (pl_guid newp) \<or> \<not> is_on c (pl_guid newp)
            \<or> (pl_team newp \<noteq> pl_team p \<and> \<not> we_two_side_channel (ce_world e))
          then refuse_to e p (make_player_not_found c newname) c
          else set_owner_guid e (pl_guid newp) True c)"

definition send_who_owner :: "chan_env \<Rightarrow> guid \<Rightarrow> channel \<Rightarrow> channel" where
  "send_who_owner e g c =
     send_to_one e (if is_on c g then make_channel_owner e c else make_not_member c) g c"

text \<open>The entries of the member list: only players without a security level are shown.\<close>

fun list_members :: "chan_env \<Rightarrow> member_map \<Rightarrow> (guid \<times> u8) list option" where
  "list_members e [] = Some []"
| "list_members e ((k, m) # ms) =
     (case deref e (cm_ptr m) of
        None \<Rightarrow> None
      | Some pl \<Rightarrow>
          map_option (\<lambda>xs. if is_player_level (pl_security pl) then (k, cm_flags m) # xs else xs)
            (list_members e ms))"

definition list_packet :: "channel \<Rightarrow> (guid \<times> u8) list \<Rightarrow> world_packet" where
  "list_packet c xs = WorldPacket SMSG_CHANNEL_LIST
     ([FU8 1, FStr (ch_name c), FU8 (ch_flags c), FU32 (word_of_nat (length xs))]
      @ concat (map (\<lambda>(k, fl). [FU64 k, FU8 fl]) xs))"

definition chan_list :: "chan_env \<Rightarrow> player_info \<Rightarrow> channel \<Rightarrow> channel" where
  "chan_list e p c =
     (if \<not> is_on c (pl_guid p) then refuse_to e p (make_not_member c) c
      else case (if \<not> has_right c CHANNEL_RIGHT_CANT_SPEAK then list_members e (ce_iter e (ch_players c)) else Some []) of
        None \<Rightarrow> chan_log BadPointer c
      | Some xs \<Rightarrow> send_to_one e (list_packet c xs) (pl_guid p) c)"

definition announce :: "chan_env \<Rightarrow> player_info \<Rightarrow> channel \<Rightarrow> channel" where
  "announce e p c =
     (let g = pl_guid p in
      if \<not> is_on c g then refuse_to e p (make_not_member c) c
      else if \<not> is_moderator (member_at c g) \<and> \<not> is_gm_account p then refuse_to e p (make_not_moderator c) c
      else if has_right c (CHANNEL_RIGHT_FORCE_NO_ANNOUNCEMENTS OR CHANNEL_RIGHT_FORCE_ANNOUNCEMENTS)
      then refuse_to e p (make_not_moderator c) c
      else
        let c = c\<lparr>ch_announce := \<not> ch_announce c\<rparr>;
            c = send_to_all e (if ch_announce c then make_announcements_on c g else make_announcements_off c g) 0 c
        in update_channel_in_db c)"

text \<open>\<open>Say\<close>; a channel without a name would trip the assertion of the chat packet.\<close>

definition say :: "chan_env \<Rightarrow> guid \<Rightarrow> bytes \<Rightarrow> u32 \<Rightarrow> channel \<Rightarrow> channel option" where
  "say e g what lang c =
     (if what = [] then Some c
      else
        let lang = (if we_two_side_channel (ce_world e) then LANG_UNIVERSAL else lang) in
        if \<not> is_on c g then Some (send_to_one e (make_not_member c) g c)
        else if is_muted (member_at c g) then Some (send_to_one e (make_muted c) g c)
        else map_option (\<lambda>data. send_to_all e data (if is_moderator (member_at c g) then 0 else g) c)
          (case cm_ptr (member_at c g) of
             None \<Rightarrow> build_chat_packet CHAT_MSG_CHANNEL lang g g what 0 [] [] 0 False (ch_name c)
           | Some _ \<Rightarrow>
               (case deref e (cm_ptr (member_at c g)) of
                  None \<Rightarrow> None
                | Some pl \<Rightarrow> build_player_chat CHAT_MSG_CHANNEL lang (ce_attrs e g) pl what 0 (ch_name c))))"

definition invite :: "chan_env \<Rightarrow> player_info \<Rightarrow> bytes \<Rightarrow> channel \<Rightarrow> channel" where
  "invite e p newname c =
     (let g = pl_guid p in
      if \<not> is_on c g then refuse_to e p (make_not_member c) c
      else case ce_find_by_name e newname of
        None \<Rightarrow> refuse_to e p (make_player_not_found c newname) c
      | Some newp \<Rightarrow>
          if \<not> ce_gm_visible e (pl_guid newp) then refuse_to e p (make_player_not_found c newname) c
          else if is_banned e c (pl_guid newp) then refuse_to e p (make_player_invite_banned c newname) c
          else if pl_team newp \<noteq> pl_team p then refuse_to e p (make_invite_wrong_faction c) c
          else if is_on c (pl_guid newp) then refuse_to e p (make_player_already_member c (pl_guid newp)) c
          else
            let c = (if \<not> ce_has_ignore e (pl_guid newp) g
                     then send_to_one e (make_invite c g) (pl_guid newp) c else c)
            in send_to_one e (make_player_invited c (pl_name newp)) g c)"

definition toggle_moderation :: "chan_env \<Rightarrow> player_info \<Rightarrow> channel \<Rightarrow> channel" where
  "toggle_moderation e p c =
     (let g = pl_guid p in
      if \<not> is_on c g then refuse_to e p (make_not_member c) c
      else
        let level = ce_gm_moderation e; gm = (level \<noteq> 0 \<and> ucast (pl_security p) \<ge> level)
        in if \<not> is_moderator (member_at c g) \<and> \<not> gm then refuse_to e p (make_not_moderator c) c
           else
             let c = c\<lparr>ch_moderation := \<not> ch_moderation c\<rparr>
             in send_to_all e (if ch_moderation c then make_moderation_on c g else make_moderation_off c g) 0 c)"

end
