(* ===== verification/ChannelInv.thy ===== *)
theory ChannelInv
  imports ChannelOps
begin

text \<open>
  What every operation of a channel keeps: pointers lead to connected players, only the owner
  carries the owner flag, watchers are members, banned players are not on the channel, and a
  channel with ownership has an owner exactly while it has members.
\<close>

section \<open>Sending changes nothing but the log\<close>

definition logs :: "chan_effect list \<Rightarrow> channel \<Rightarrow> channel" where
  "logs ls c = c\<lparr>ch_log := ch_log c @ ls\<rparr>"

lemma logs_simps [simp]:
  "ch_announce (logs ls c) = ch_announce c" "ch_moderation (logs ls c) = ch_moderation c"
  "ch_ownership (logs ls c) = ch_ownership c" "ch_is_saved (logs ls c) = ch_is_saved c"
  "ch_owner_gm (logs ls c) = ch_owner_gm c" "ch_flags (logs ls c) = ch_flags c"
  "ch_id (logs ls c) = ch_id c" "ch_db_id (logs ls c) = ch_db_id c" "ch_team (logs ls c) = ch_team c"
  "ch_owner (logs ls c) = ch_owner c" "ch_name (logs ls c) = ch_name c"
  "ch_password (logs ls c) = ch_password c" "ch_rights (logs ls c) = ch_rights c"
  "ch_players (logs ls c) = ch_players c" "ch_banned (logs ls c) = ch_banned c"
  "ch_watching (logs ls c) = ch_watching c" "ch_log (logs ls c) = ch_log c @ ls"
  by (simp_all add: logs_def)

lemma logs_logs [simp]: "logs ms (logs ls c) = logs (ls @ ms) c" "logs [] c = c"
  by (simp_all add: logs_def)

lemma log_is_logs: "chan_log ef c = logs [ef] c"
  by (simp add: chan_log_def logs_def)

text \<open>A call is quiet when it only appends to the log, and no bad pointer.\<close>

definition quiet :: "channel \<Rightarrow> channel \<Rightarrow> bool" where
  "quiet c c' \<longleftrightarrow> (\<exists>ls. c' = logs ls c \<and> BadPointer \<notin> set ls)"

lemma quiet_refl [simp, intro]: "quiet c c"
  unfolding quiet_def by (rule exI [of _ "[]"]) simp

lemma quiet_trans [trans]: "quiet c c' \<Longrightarrow> quiet c' c'' \<Longrightarrow> quiet c c''"
  unfolding quiet_def by (metis UnE logs_logs(1) set_append)

lemma quiet_log: "ef \<noteq> BadPointer \<Longrightarrow> quiet c (chan_log ef c)"
  unfolding quiet_def log_is_logs by (rule exI [of _ "[ef]"]) simp

lemma quiet_fold:
  assumes "\<And>x c. x \<in> set xs \<Longrightarrow> quiet c (f x c)"
  shows "quiet c (fold f xs c)"
  using assms by (induction xs arbitrary: c) (auto intro: quiet_trans)

lemma quiet_same:
  assumes "quiet c c'"
  shows "ch_announce c' = ch_announce c" "ch_moderation c' = ch_moderation c"
    "ch_ownership c' = ch_ownership c" "ch_is_saved c' = ch_is_saved c"
    "ch_owner_gm c' = ch_owner_gm c" "ch_flags c' = ch_flags c" "ch_id c' = ch_id c"
    "ch_db_id c' = ch_db_id c" "ch_team c' = ch_team c" "ch_owner c' = ch_owner c"
    "ch_name c' = ch_name c" "ch_password c' = ch_password c" "ch_rights c' = ch_rights c"
    "ch_players c' = ch_players c" "ch_banned c' = ch_banned c" "ch_watching c' = ch_watching c"
  using assms by (auto simp: quiet_def)

section \<open>The world a channel relies on\<close>

text \<open>
  Connected players answer to their GUID; names lead to connected players, and the name of a
  connected character leads to him; the containers are iterated in some order.
\<close>

definition env_ok :: "chan_env \<Rightarrow> bool" where
  "env_ok e \<longleftrightarrow> world_ok (ce_world e)
     \<and> (\<forall>n pl. ce_find_by_name e n = Some pl \<longrightarrow> we_connected (ce_world e) (pl_guid pl) = Some pl)
     \<and> (\<forall>n pl. we_connected (ce_world e) (we_guid_of_name (ce_world e) n) = Some pl \<longrightarrow> ce_find_by_name e n = Some pl)
     \<and> (\<forall>ms. set (ce_iter e ms) = set ms) \<and> (\<forall>gs. set (ce_iter_watch e gs) = set gs)"

definition connected :: "chan_env \<Rightarrow> guid \<Rightarrow> bool" where
  "connected e g \<longleftrightarrow> we_connected (ce_world e) g \<noteq> None"

text \<open>The pointers of members and watchers lead to players who are there.\<close>

definition pointers_ok :: "chan_env \<Rightarrow> channel \<Rightarrow> bool" where
  "pointers_ok e c \<longleftrightarrow>
     (\<forall>(g, m) \<in> set (ch_players c). deref e (cm_ptr m) \<noteq> None) \<and> (\<forall>g \<in> set (ch_watching c). connected e g)"

lemma env_okD:
  assumes "env_ok e"
  shows "we_connected (ce_world e) g = Some pl \<Longrightarrow> pl_guid pl = g \<and> g \<noteq> 0"
    "ce_find_by_name e n = Some pl \<Longrightarrow> we_connected (ce_world e) (pl_guid pl) = Some pl"
    "we_connected (ce_world e) (we_guid_of_name (ce_world e) n) = Some pl \<Longrightarrow> ce_find_by_name e n = Some pl"
    "set (ce_iter e ms) = set ms" "set (ce_iter_watch e gs) = set gs"
  using assms by (auto simp: env_ok_def world_ok_def)

lemma quiet_send_to_all:
  assumes "env_ok e" "pointers_ok e c"
  shows "quiet c (send_to_all e data g c)"
  unfolding send_to_all_def
proof (rule quiet_fold)
  fix x c' assume "x \<in> set (ce_iter e (ch_players c))"
  then have "deref e (cm_ptr (snd x)) \<noteq> None" using assms by (auto simp: env_okD pointers_ok_def)
  then show "quiet c' ((\<lambda>(k, m) c. case deref e (cm_ptr m) of None \<Rightarrow> chan_log BadPointer c
      | Some pl \<Rightarrow> if is_empty g \<or> \<not> ce_has_ignore e (pl_guid pl) g then chan_log (SendTo (pl_guid pl) data) c else c) x c')"
    by (cases x) (auto intro: quiet_log)
qed

lemma quiet_send_to_one: "quiet c (send_to_one e data g c)"
  by (auto simp: send_to_one_def quiet_log split: option.splits)

lemma quiet_refuse: "quiet c (refuse_to e p data c)"
  by (simp add: refuse_to_def quiet_send_to_one)

lemma quiet_watching:
  assumes "env_ok e" "pointers_ok e c"
  shows "quiet c (send_to_all_watching e data c)"
  unfolding send_to_all_watching_def
proof (rule quiet_fold)
  fix g c' assume "g \<in> set (ce_iter_watch e (ch_watching c))"
  then have "deref e (Some g) \<noteq> None" using assms by (auto simp: env_okD pointers_ok_def connected_def deref_def)
  then show "quiet c' (case deref e (Some g) of None \<Rightarrow> chan_log BadPointer c'
      | Some pl \<Rightarrow> chan_log (SendTo (pl_guid pl) data) c')"
    by (auto intro: quiet_log)
qed

lemma quiet_join_notify: "env_ok e \<Longrightarrow> pointers_ok e c \<Longrightarrow> quiet c (join_notify e p c)"
  by (simp add: join_notify_def quiet_watching)

lemma quiet_leave_notify: "env_ok e \<Longrightarrow> pointers_ok e c \<Longrightarrow> quiet c (leave_notify e p c)"
  by (simp add: leave_notify_def quiet_watching)

lemma quiet_flags_notify:
  "env_ok e \<Longrightarrow> pointers_ok e c \<Longrightarrow> deref e ptr \<noteq> None \<Longrightarrow> quiet c (flags_notify e ptr c)"
  by (auto simp: flags_notify_def quiet_watching split: option.splits)

lemma quiet_db:
  "quiet c (update_channel_in_db c)" "quiet c (update_channel_usage_in_db c)"
  "quiet c (add_channel_ban_to_db g t c)" "quiet c (remove_channel_ban_from_db g c)"
  by (simp_all add: update_channel_in_db_def update_channel_usage_in_db_def add_channel_ban_to_db_def
      remove_channel_ban_from_db_def quiet_log)

section \<open>The invariant\<close>

definition member_ok :: "guid \<Rightarrow> member \<Rightarrow> bool" where
  "member_ok g m \<longleftrightarrow> cm_player m = g \<and> cm_ptr m = Some g \<and> g \<noteq> 0"

text \<open>
  Members are stored under their GUID with a pointer to themselves, watchers are members, only
  the owner has the owner flag, and no bad pointer was followed.
\<close>

definition core_inv :: "channel \<Rightarrow> bool" where
  "core_inv c \<longleftrightarrow> distinct (map fst (ch_players c))
     \<and> (\<forall>g m. map_of (ch_players c) g = Some m \<longrightarrow> member_ok g m \<and> (is_owner m \<longrightarrow> g = ch_owner c))
     \<and> (\<forall>g \<in> set (ch_watching c). is_on c g)
     \<and> BadPointer \<notin> set (ch_log c)"

text \<open>While a custom channel with ownership has members, one of them is the owner.\<close>

definition owned :: "channel \<Rightarrow> bool" where
  "owned c \<longleftrightarrow> (if ch_players c = [] then ch_owner c = 0
     else is_on c (ch_owner c) \<and> is_owner (member_at c (ch_owner c)))"

definition bans_kept :: "chan_env \<Rightarrow> channel \<Rightarrow> bool" where
  "bans_kept e c \<longleftrightarrow> (\<forall>g. is_on c g \<longrightarrow> \<not> is_banned e c g)"

definition chan_inv :: "chan_env \<Rightarrow> channel \<Rightarrow> bool" where
  "chan_inv e c \<longleftrightarrow> core_inv c \<and> (\<not> is_constant c \<and> ch_ownership c \<longrightarrow> owned c) \<and> bans_kept e c"

text \<open>The members are connected: a player leaves his channels before he disconnects.\<close>

definition members_connected :: "chan_env \<Rightarrow> channel \<Rightarrow> bool" where
  "members_connected e c \<longleftrightarrow> (\<forall>g. is_on c g \<longrightarrow> connected e g)"

lemma core_invD:
  assumes "core_inv c"
  shows "distinct (map fst (ch_players c))"
    "map_of (ch_players c) g = Some m \<Longrightarrow> member_ok g m"
    "map_of (ch_players c) g = Some m \<Longrightarrow> is_owner m \<Longrightarrow> g = ch_owner c"
    "(g, m) \<in> set (ch_players c) \<longleftrightarrow> map_of (ch_players c) g = Some m"
    "g \<in> set (ch_watching c) \<Longrightarrow> is_on c g" "BadPointer \<notin> set (ch_log c)"
  using assms by (auto simp: core_inv_def map_of_eq_Some_iff)

lemma pointers_okI:
  assumes "core_inv c" "members_connected e c"
  shows "pointers_ok e c"
proof -
  have "connected e g" if "is_on c g" for g using assms(2) that by (simp add: members_connected_def)
  then show ?thesis
    using core_invD(2,4,5) [OF assms(1)]
    by (fastforce simp: pointers_ok_def member_ok_def deref_def connected_def is_on_def)
qed

lemma quiet_core: "quiet c c' \<Longrightarrow> core_inv c \<Longrightarrow> core_inv c'"
  by (auto simp: quiet_def core_inv_def is_on_def)

lemma quiet_derived:
  assumes "quiet c c'"
  shows "is_on c' g = is_on c g" "member_at c' g = member_at c g" "owned c' = owned c"
    "is_banned e c' g = is_banned e c g" "is_constant c' = is_constant c" "bans_kept e c' = bans_kept e c"
    "members_connected e c' = members_connected e c" "pointers_ok e c' = pointers_ok e c"
    "has_right c' r = has_right c r" "is_constant_moderator c' a = is_constant_moderator c a"
  using quiet_same [OF assms]
  by (simp_all add: is_on_def member_at_def owned_def is_banned_def is_constant_def bans_kept_def
      members_connected_def pointers_ok_def has_right_def is_constant_moderator_def)

lemma quiet_inv: "quiet c c' \<Longrightarrow> chan_inv e c \<Longrightarrow> chan_inv e c'"
  using quiet_core quiet_derived quiet_same(3) by (auto simp: chan_inv_def)

section \<open>Updates of members\<close>

lemma update_member_simps [simp]:
  "ch_announce (update_member g f c) = ch_announce c" "ch_moderation (update_member g f c) = ch_moderation c"
  "ch_ownership (update_member g f c) = ch_ownership c" "ch_is_saved (update_member g f c) = ch_is_saved c"
  "ch_owner_gm (update_member g f c) = ch_owner_gm c" "ch_flags (update_member g f c) = ch_flags c"
  "ch_id (update_member g f c) = ch_id c" "ch_db_id (update_member g f c) = ch_db_id c"
  "ch_team (update_member g f c) = ch_team c" "ch_owner (update_member g f c) = ch_owner c"
  "ch_name (update_member g f c) = ch_name c" "ch_password (update_member g f c) = ch_password c"
  "ch_rights (update_member g f c) = ch_rights c" "ch_banned (update_member g f c) = ch_banned c"
  "ch_watching (update_member g f c) = ch_watching c" "ch_log (update_member g f c) = ch_log c"
  by (simp_all add: update_member_def)

lemma map_of_update_member [simp]:
  "map_of (ch_players (update_member g f c)) = (map_of (ch_players c))(g \<mapsto> f (member_at c g))"
  by (simp add: update_member_def map_of_AList_update)

lemma is_on_update_member [simp]: "is_on (update_member g f c) h \<longleftrightarrow> h = g \<or> is_on c h"
  by (simp add: is_on_def)

lemma member_at_update_member [simp]:
  "member_at (update_member g f c) h = (if h = g then f (member_at c g) else member_at c h)"
  by (simp add: member_at_def)

lemma players_update_ne [simp]: "ch_players (update_member g f c) \<noteq> []"
proof -
  have "map_of (ch_players (update_member g f c)) g \<noteq> None" by simp
  then show ?thesis by (cases "ch_players (update_member g f c)") simp_all
qed

lemma distinct_update_member: "distinct (map fst (ch_players c)) \<Longrightarrow> distinct (map fst (ch_players (update_member g f c)))"
  by (simp add: update_member_def distinct_update)

lemma updates_logs:
  "update_member g f (logs ls c) = logs ls (update_member g f c)"
  "(logs ls c)\<lparr>ch_owner := g\<rparr> = logs ls (c\<lparr>ch_owner := g\<rparr>)"
  "erase_member g (logs ls c) = logs ls (erase_member g c)"
  "remove_watching g (logs ls c) = logs ls (remove_watching g c)"
  by (cases c; simp add: logs_def update_member_def member_at_def erase_member_def remove_watching_def)+

lemma update_quiet:
  "quiet c c' \<Longrightarrow> quiet (update_member g f c) (update_member g f c')"
  "quiet c c' \<Longrightarrow> quiet (c\<lparr>ch_owner := g\<rparr>) (c'\<lparr>ch_owner := g\<rparr>)"
  "quiet c c' \<Longrightarrow> quiet (erase_member g c) (erase_member g c')"
  "quiet c c' \<Longrightarrow> quiet (remove_watching g c) (remove_watching g c')"
  by (auto simp: quiet_def updates_logs)

lemma member_at_on: "is_on c g \<Longrightarrow> map_of (ch_players c) g = Some (member_at c g)"
  by (auto simp: is_on_def member_at_def)

lemma is_onI [intro]: "map_of (ch_players c) g = Some m \<Longrightarrow> is_on c g"
  by (simp add: is_on_def)

lemma set_flag_keeps [simp]:
  "cm_player (set_flag fl st m) = cm_player m" "cm_ptr (set_flag fl st m) = cm_ptr m" "cm_gm (set_flag fl st m) = cm_gm m"
  by (simp_all add: set_flag_def)

lemma has_flag_set_flag:
  "is_owner (set_flag MEMBER_FLAG_OWNER st m) = st" "is_owner (set_flag MEMBER_FLAG_MODERATOR st m) = is_owner m"
  "is_owner (set_flag MEMBER_FLAG_MUTED st m) = is_owner m"
  "is_moderator (set_flag MEMBER_FLAG_MODERATOR st m) = st" "is_moderator (set_flag MEMBER_FLAG_OWNER st m) = is_moderator m"
  "is_moderator (set_flag MEMBER_FLAG_MUTED st m) = is_moderator m"
  "is_muted (set_flag MEMBER_FLAG_MUTED st m) = st" "is_muted (set_flag MEMBER_FLAG_OWNER st m) = is_muted m"
  "is_muted (set_flag MEMBER_FLAG_MODERATOR st m) = is_muted m"
  by (simp_all add: has_flag_def set_flag_def member_flag_defs bit.conj_disj_distrib2 and.assoc)

section \<open>Handing over the ownership\<close>

definition drop_owner :: "channel \<Rightarrow> channel" where
  "drop_owner c = (if \<not> is_empty (ch_owner c) \<and> is_on c (ch_owner c)
     then update_member (ch_owner c) (set_flag MEMBER_FLAG_OWNER False) c else c)"

definition give_owner :: "guid \<Rightarrow> channel \<Rightarrow> channel" where
  "give_owner g c = (let c = c\<lparr>ch_owner := g\<rparr> in if is_empty g then c
     else update_member g (set_flag MEMBER_FLAG_OWNER True) (update_member g (set_flag MEMBER_FLAG_MODERATOR True) c))"

lemma pointers_ok_update:
  assumes "pointers_ok e c" "deref e (cm_ptr (f (member_at c g))) \<noteq> None" "distinct (map fst (ch_players c))"
  shows "pointers_ok e (update_member g f c)"
proof -
  have "deref e (cm_ptr m) \<noteq> None" if m: "(h, m) \<in> set (ch_players (update_member g f c))" for h m
  proof -
    have "map_of (ch_players (update_member g f c)) h = Some m"
      using map_of_is_SomeI [OF distinct_update_member [OF assms(3)] m] .
    then have "m = f (member_at c g) \<or> map_of (ch_players c) h = Some m" by (auto split: if_splits)
    then show ?thesis using assms(1,2) by (auto simp: pointers_ok_def dest!: map_of_SomeD)
  qed
  then show ?thesis using assms(1) by (auto simp: pointers_ok_def)
qed

lemma deref_member:
  assumes "pointers_ok e c" "is_on c g"
  shows "deref e (cm_ptr (member_at c g)) \<noteq> None"
  using assms member_at_on [OF assms(2)] by (auto simp: pointers_ok_def dest!: map_of_SomeD)

lemma pointers_ok_owner [simp]: "pointers_ok e (c\<lparr>ch_owner := g\<rparr>) = pointers_ok e c"
  "is_on (c\<lparr>ch_owner := g\<rparr>) h = is_on c h" "member_at (c\<lparr>ch_owner := g\<rparr>) h = member_at c h"
  by (simp_all add: pointers_ok_def is_on_def member_at_def)

lemma give_owner_quiet: "quiet c c' \<Longrightarrow> quiet (give_owner g c) (give_owner g c')"
  by (simp add: give_owner_def Let_def update_quiet)

lemma update_flag_pointers:
  assumes "pointers_ok e c" "distinct (map fst (ch_players c))" "is_on c g"
  shows "pointers_ok e (update_member g (set_flag fl st) c)"
  using assms deref_member [OF assms(1,3)] by (intro pointers_ok_update) simp_all

lemma unset_old_owner_quiet:
  assumes "env_ok e" "pointers_ok e c" "distinct (map fst (ch_players c))"
  shows "quiet (drop_owner c) (unset_old_owner e c)"
proof (cases "\<not> is_empty (ch_owner c) \<and> is_on c (ch_owner c)")
  case True
  let ?c = "update_member (ch_owner c) (set_flag MEMBER_FLAG_OWNER False) c"
  have "pointers_ok e ?c" using assms True by (intro update_flag_pointers) auto
  then have "quiet ?c (flags_notify e (cm_ptr (member_at ?c (ch_owner ?c))) ?c)"
    using True by (intro quiet_flags_notify assms(1) deref_member) simp_all
  then show ?thesis unfolding drop_owner_def unset_old_owner_def Let_def if_P [OF True] .
next
  case False
  show ?thesis unfolding drop_owner_def unset_old_owner_def if_not_P [OF False] by simp
qed

lemma announce_owner_quiet:
  assumes "env_ok e" "pointers_ok e c"
  shows "quiet c (announce_owner e fl exclaim c)"
proof -
  let ?c = "send_to_all e (make_mode_change c (ch_owner c) fl) 0 c"
  have q: "quiet c ?c" by (rule quiet_send_to_all [OF assms])
  have "quiet ?c (send_to_all e (make_owner_changed ?c (ch_owner ?c)) 0 ?c)"
    using quiet_send_to_all [OF assms(1)] assms(2) quiet_derived(8) [OF q] by simp
  with q show ?thesis by (auto simp: announce_owner_def Let_def split: option.splits intro: quiet_trans)
qed

lemma drop_owner_facts:
  assumes "pointers_ok e c" "distinct (map fst (ch_players c))"
  shows "pointers_ok e (drop_owner c)" "distinct (map fst (ch_players (drop_owner c)))"
    "is_on (drop_owner c) g = is_on c g"
  using assms by (auto simp: drop_owner_def intro: update_flag_pointers distinct_update_member)

lemma set_owner_quiet:
  assumes e: "env_ok e" and ptr: "pointers_ok e c" and dist: "distinct (map fst (ch_players c))"
    and on: "g = 0 \<or> is_on c g"
  shows "quiet (give_owner g (drop_owner c)) (set_owner_guid e g exclaim c)"
proof -
  let ?d = "drop_owner c" and ?u = "unset_old_owner e c"
  have q: "quiet ?d ?u" by (rule unset_old_owner_quiet [OF e ptr dist])
  show ?thesis
  proof (cases "is_empty g")
    case True
    then show ?thesis using update_quiet(2) [OF q] by (simp add: give_owner_def set_owner_guid_def Let_def)
  next
    case False
    then have on: "is_on ?d g" using on drop_owner_facts(3) [OF ptr dist] by (simp add: is_empty_def guid_empty_def)
    define c5 where "c5 = give_owner g ?u"
    have q5: "quiet (give_owner g ?d) c5" unfolding c5_def by (rule give_owner_quiet [OF q])
    have "pointers_ok e (give_owner g ?d)" "is_on (give_owner g ?d) g"
      using drop_owner_facts [OF ptr dist] on False
      by (auto simp: give_owner_def Let_def intro!: update_flag_pointers distinct_update_member)
    then have p5: "pointers_ok e c5" "is_on c5 g" using quiet_derived [OF q5] by simp_all
    have q6: "quiet c5 (flags_notify e (cm_ptr (member_at c5 g)) c5)"
      by (rule quiet_flags_notify [OF e p5(1) deref_member [OF p5]])
    have "set_owner_guid e g exclaim c = announce_owner e
        (cm_flags (member_at (update_member g (set_flag MEMBER_FLAG_MODERATOR True) (?u\<lparr>ch_owner := g\<rparr>)) g)) exclaim
        (flags_notify e (cm_ptr (member_at c5 g)) c5)"
      using False by (simp add: set_owner_guid_def c5_def give_owner_def Let_def)
    then show ?thesis
      using announce_owner_quiet [OF e] p5(1) quiet_derived(8) [OF q6] quiet_trans [OF q5 q6]
      by (metis quiet_trans)
  qed
qed

end
