(* ===== verification/ChannelSteps.thy ===== *)
theory ChannelSteps
  imports ChannelInv
begin

text \<open>
  Every operation of a channel keeps the invariant of \<open>ChannelInv\<close>; the channel as a transition
  system whose steps are the calls of the program, and what holds in every state it can reach.
\<close>

section \<open>Ownership\<close>

lemma member_ok_set_flag [simp]: "member_ok g (set_flag fl st m) = member_ok g m"
  by (simp add: member_ok_def)

lemma core_update:
  assumes "core_inv c" "is_on c g" "member_ok g (f (member_at c g))"
    "is_owner (f (member_at c g)) \<Longrightarrow> g = ch_owner c"
  shows "core_inv (update_member g f c)"
  using assms distinct_update_member unfolding core_inv_def by (auto simp: is_on_def)

lemma core_flag:
  assumes "core_inv c" "is_on c g" "fl \<in> {MEMBER_FLAG_MODERATOR, MEMBER_FLAG_MUTED}"
  shows "core_inv (update_member g (set_flag fl st) c)"
  using assms(3) core_invD(2,3) [OF assms(1) member_at_on [OF assms(2)]]
  by (intro core_update [OF assms(1,2)]) (auto simp: has_flag_set_flag)

text \<open>Nobody has the owner flag once the old owner lost it.\<close>

lemma drop_owner_core:
  assumes "core_inv c"
  shows "distinct (map fst (ch_players (drop_owner c)))"
    "map_of (ch_players (drop_owner c)) g = Some m \<Longrightarrow> member_ok g m \<and> \<not> is_owner m"
    "is_on (drop_owner c) g = is_on c g" "ch_watching (drop_owner c) = ch_watching c"
    "ch_log (drop_owner c) = ch_log c"
proof -
  show "distinct (map fst (ch_players (drop_owner c)))"
    using core_invD(1) [OF assms] distinct_update_member by (simp add: drop_owner_def)
  show "member_ok g m \<and> \<not> is_owner m" if m: "map_of (ch_players (drop_owner c)) g = Some m"
  proof (cases "\<not> is_empty (ch_owner c) \<and> is_on c (ch_owner c)")
    case True
    then show ?thesis using m core_invD(2,3) [OF assms] member_at_on [of c "ch_owner c"]
      by (auto simp: drop_owner_def has_flag_set_flag split: if_splits)
  next
    case False
    then show ?thesis using m core_invD(2,3) [OF assms, of g m] is_onI [of c g m]
      by (auto simp: drop_owner_def member_ok_def is_empty_def guid_empty_def)
  qed
qed (auto simp: drop_owner_def)

lemma give_owner_simps:
  "ch_watching (give_owner g c) = ch_watching c" "ch_log (give_owner g c) = ch_log c"
  "ch_owner (give_owner g c) = g" "ch_players (give_owner 0 c) = ch_players c"
  "g \<noteq> 0 \<Longrightarrow> map_of (ch_players (give_owner g c)) = (map_of (ch_players c))
     (g \<mapsto> set_flag MEMBER_FLAG_OWNER True (set_flag MEMBER_FLAG_MODERATOR True (member_at c g)))"
  by (auto simp: give_owner_def Let_def is_empty_def guid_empty_def)

lemma give_owner_distinct:
  "distinct (map fst (ch_players c)) \<Longrightarrow> distinct (map fst (ch_players (give_owner g c)))"
  by (auto simp: give_owner_def Let_def intro!: distinct_update_member)

lemma hand_over_core:
  assumes c: "core_inv c" and g: "g = 0 \<or> is_on c g"
  shows "core_inv (give_owner g (drop_owner c))"
proof (cases "g = 0")
  case True
  have *: "map_of (ch_players (drop_owner c)) h = Some m \<Longrightarrow> member_ok h m \<and> \<not> is_owner m" for h m
    using drop_owner_core [OF c] by blast
  have on: "is_on (give_owner 0 (drop_owner c)) h = is_on c h" for h
    using drop_owner_core(3) [OF c] by (simp add: is_on_def give_owner_simps)
  show ?thesis using True * on c drop_owner_core [OF c]
    by (auto simp: core_inv_def give_owner_simps)
next
  case False
  let ?d = "drop_owner c"
  have on: "is_on ?d g" using g False drop_owner_core(3) [OF c] by simp
  have old: "member_ok h m \<and> \<not> is_owner m" if "map_of (ch_players ?d) h = Some m" for h m
    using drop_owner_core(2) [OF c that] .
  have on': "is_on (give_owner g ?d) h = is_on c h" for h
    using drop_owner_core(3) [OF c] on False by (auto simp: is_on_def give_owner_simps)
  have "member_ok g (member_at ?d g)" using old [OF member_at_on [OF on]] by simp
  then show ?thesis
    using old on' c drop_owner_core [OF c] give_owner_distinct False
    by (auto simp: core_inv_def give_owner_simps has_flag_set_flag split: if_splits)
qed

lemma hand_over_on:
  assumes "core_inv c" "g = 0 \<or> is_on c g"
  shows "is_on (give_owner g (drop_owner c)) h = is_on c h"
  using drop_owner_core(3) [OF assms(1)] assms(2) by (cases "g = 0") (auto simp: is_on_def give_owner_simps)

lemma players_empty_iff: "ch_players c = [] \<longleftrightarrow> (\<forall>g. \<not> is_on c g)"
  by (cases "ch_players c") (auto simp: is_on_def)

lemma hand_over_owned:
  assumes c: "core_inv c" and g: "if ch_players c = [] then g = 0 else is_on c g"
  shows "owned (give_owner g (drop_owner c))"
proof -
  have on: "is_on (give_owner g (drop_owner c)) h = is_on c h" for h
    using hand_over_on [OF c] g by (auto split: if_splits)
  have "g \<noteq> 0" if "is_on c g" using core_invD(2) [OF c member_at_on [OF that]] by (simp add: member_ok_def)
  then show ?thesis using g on
    by (auto simp: owned_def players_empty_iff give_owner_simps member_at_def has_flag_set_flag split: if_splits)
qed

lemma set_owner_core:
  assumes "env_ok e" "core_inv c" "members_connected e c" "g = 0 \<or> is_on c g"
  shows "core_inv (set_owner_guid e g x c)" "is_on (set_owner_guid e g x c) h = is_on c h"
    "(if ch_players c = [] then g = 0 else is_on c g) \<Longrightarrow> owned (set_owner_guid e g x c)"
    "ch_banned (set_owner_guid e g x c) = ch_banned c" "ch_ownership (set_owner_guid e g x c) = ch_ownership c"
    "ch_id (set_owner_guid e g x c) = ch_id c"
proof -
  have q: "quiet (give_owner g (drop_owner c)) (set_owner_guid e g x c)"
    using set_owner_quiet [OF assms(1) pointers_okI [OF assms(2,3)] core_invD(1) [OF assms(2)] assms(4)] .
  show "core_inv (set_owner_guid e g x c)" by (rule quiet_core [OF q hand_over_core [OF assms(2,4)]])
  show "is_on (set_owner_guid e g x c) h = is_on c h"
    using quiet_derived(1) [OF q] hand_over_on [OF assms(2,4)] by simp
  show "owned (set_owner_guid e g x c)" if "if ch_players c = [] then g = 0 else is_on c g"
    using quiet_derived(3) [OF q] hand_over_owned [OF assms(2) that] by simp
  show "ch_banned (set_owner_guid e g x c) = ch_banned c" "ch_ownership (set_owner_guid e g x c) = ch_ownership c"
    "ch_id (set_owner_guid e g x c) = ch_id c"
    using quiet_same [OF q] by (simp_all add: give_owner_def drop_owner_def Let_def)
qed

section \<open>The invariant through the parts of the operations\<close>

lemma inv_fields [simp]:
  "chan_inv e (c\<lparr>ch_password := w\<rparr>) = chan_inv e c" "chan_inv e (c\<lparr>ch_announce := b\<rparr>) = chan_inv e c"
  "chan_inv e (c\<lparr>ch_moderation := b\<rparr>) = chan_inv e c" "chan_inv e (c\<lparr>ch_owner_gm := b\<rparr>) = chan_inv e c"
  "core_inv (c\<lparr>ch_owner_gm := b\<rparr>) = core_inv c" "is_on (c\<lparr>ch_owner_gm := b\<rparr>) g = is_on c g"
  "members_connected e (c\<lparr>ch_owner_gm := b\<rparr>) = members_connected e c"
  "members_connected e (c\<lparr>ch_password := w\<rparr>) = members_connected e c"
  "members_connected e (c\<lparr>ch_announce := b\<rparr>) = members_connected e c"
  "members_connected e (c\<lparr>ch_moderation := b\<rparr>) = members_connected e c"
  "owned (c\<lparr>ch_owner_gm := b\<rparr>) = owned c" "is_constant (c\<lparr>ch_owner_gm := b\<rparr>) = is_constant c"
  "pointers_ok e (c\<lparr>ch_owner_gm := b\<rparr>) = pointers_ok e c" "bans_kept e (c\<lparr>ch_owner_gm := b\<rparr>) = bans_kept e c"
  by (simp_all add: chan_inv_def core_inv_def owned_def is_on_def member_at_def bans_kept_def is_banned_def
      is_constant_def members_connected_def pointers_ok_def)

lemma inv_core: "chan_inv e c \<Longrightarrow> core_inv c"
  by (simp add: chan_inv_def)

lemma inv_pointers: "chan_inv e c \<Longrightarrow> members_connected e c \<Longrightarrow> pointers_ok e c"
  by (simp add: chan_inv_def pointers_okI)

lemma send_to_all_inv:
  "env_ok e \<Longrightarrow> members_connected e c \<Longrightarrow> chan_inv e c \<Longrightarrow> chan_inv e (send_to_all e data g c)"
  using quiet_inv [OF quiet_send_to_all [OF _ inv_pointers]] by blast

lemma refuse_inv [simp]: "chan_inv e c \<Longrightarrow> chan_inv e (refuse_to e p data c)"
  using quiet_inv [OF quiet_refuse] by blast

lemma set_owner_inv:
  assumes "env_ok e" "core_inv c" "members_connected e c" "bans_kept e c"
    and g: "if ch_players c = [] then g = 0 else is_on c g"
  shows "chan_inv e (set_owner_guid e g x c)"
proof -
  have "g = 0 \<or> is_on c g" using g by (auto split: if_splits)
  note f = set_owner_core [OF assms(1-3) this]
  show ?thesis using f(1,2,4) f(3) [OF g] assms(4)
    by (simp add: chan_inv_def bans_kept_def is_banned_def)
qed

lemma pick_owner_on:
  assumes "\<And>k m. (k, m) \<in> set ms \<Longrightarrow> deref e (cm_ptr m) \<noteq> None"
  shows "\<exists>g gm. pick_owner e ms acc = Some (g, gm) \<and> (ms \<noteq> [] \<longrightarrow> g \<in> (\<lambda>(k, m). cm_player m) ` set ms)"
  using assms
proof (induction ms arbitrary: acc)
  case (Cons x ms)
  obtain k m pl where x: "x = (k, m)" "deref e (cm_ptr m) = Some pl" using Cons.prems by (cases x) fastforce
  obtain g gm where "pick_owner e ms (cm_player m, is_gm_account pl) = Some (g, gm)"
    "ms \<noteq> [] \<longrightarrow> g \<in> (\<lambda>(k, m). cm_player m) ` set ms"
    using Cons.IH [of "(cm_player m, is_gm_account pl)"] Cons.prems by (metis list.set_intros(2))
  then show ?case using x by (cases ms) (auto simp: Let_def)
qed simp

lemma pick_new_owner:
  assumes "env_ok e" "core_inv c" "pointers_ok e c" "ch_players c \<noteq> []"
  obtains g gm where "pick_owner e (ce_iter e (ch_players c)) acc = Some (g, gm)" "is_on c g"
proof -
  have ptr: "deref e (cm_ptr m) \<noteq> None" if "(k, m) \<in> set (ce_iter e (ch_players c))" for k m
    using that assms(1,3) by (auto simp: env_okD pointers_ok_def)
  have ne: "ce_iter e (ch_players c) \<noteq> []" using assms(4) env_okD(4) [OF assms(1), of "ch_players c"] by auto
  have "\<exists>g gm. pick_owner e (ce_iter e (ch_players c)) acc = Some (g, gm) \<and> (ce_iter e (ch_players c) \<noteq> []
      \<longrightarrow> g \<in> (\<lambda>(k, m). cm_player m) ` set (ce_iter e (ch_players c)))"
    by (rule pick_owner_on) (rule ptr)
  then obtain g gm where g: "pick_owner e (ce_iter e (ch_players c)) acc = Some (g, gm)"
    "g \<in> (\<lambda>(k, m). cm_player m) ` set (ch_players c)"
    using ne env_okD(4) [OF assms(1), of "ch_players c"] by metis
  from g(2) obtain k m where km: "(k, m) \<in> set (ch_players c)" "g = cm_player m" by auto
  then have m: "map_of (ch_players c) k = Some m" using core_invD(4) [OF assms(2)] by simp
  have "is_on c g" using is_onI [OF m] core_invD(2) [OF assms(2) m] km(2) by (simp add: member_ok_def)
  with g(1) show thesis by (rule that)
qed

section \<open>Joining\<close>

text \<open>What holds of the channel while \<open>g\<close>, already in the map, joins.\<close>

definition joining :: "chan_env \<Rightarrow> guid \<Rightarrow> channel \<Rightarrow> bool" where
  "joining e g c \<longleftrightarrow> core_inv c \<and> members_connected e c \<and> bans_kept e c \<and> is_on c g
     \<and> (\<not> is_constant c \<and> ch_ownership c \<and> ch_owner c \<noteq> 0 \<longrightarrow> owned c)"

lemma joining_quiet: "quiet c c' \<Longrightarrow> joining e g c \<Longrightarrow> joining e g c'"
  using quiet_core quiet_derived quiet_same by (auto simp: joining_def)

lemma joining_pointers: "joining e g c \<Longrightarrow> pointers_ok e c"
  by (simp add: joining_def pointers_okI)

lemma joining_update:
  assumes j: "joining e g c" and f: "\<And>m. member_ok g m \<Longrightarrow> member_ok g (f m)" "\<And>m. is_owner (f m) = is_owner m"
  shows "joining e g (update_member g f c)"
proof -
  have on: "is_on c g" and c: "core_inv c" using j by (auto simp: joining_def)
  have m: "member_ok g (member_at c g)" using core_invD(2) [OF c member_at_on [OF on]] .
  have "core_inv (update_member g f c)"
    by (rule core_update [where f = f, OF c on f(1) [OF m]])
      (use f(2) core_invD(3) [OF c member_at_on [OF on]] in simp)
  moreover have "is_on (update_member g f c) h = is_on c h" for h using on by auto
  ultimately show ?thesis using j on f(2)
    by (auto simp: joining_def members_connected_def bans_kept_def is_banned_def is_constant_def owned_def
        players_empty_iff split: if_splits)
qed

lemma joining_flag:
  "joining e g c \<Longrightarrow> fl \<in> {MEMBER_FLAG_MODERATOR, MEMBER_FLAG_MUTED} \<Longrightarrow> joining e g (update_member g (set_flag fl st) c)"
  by (rule joining_update) (auto simp: has_flag_set_flag)

lemma joining_done:
  assumes "joining e g c" "ch_ownership c \<longrightarrow> is_constant c \<or> ch_owner c \<noteq> 0"
  shows "chan_inv e c"
  using assms by (auto simp: joining_def chan_inv_def)

lemma joining_owner:
  assumes e: "env_ok e" and j: "joining e g c"
  shows "chan_inv e (set_owner_guid e g x c)" "joining e g (set_owner_guid e g x c)"
    "ch_owner (set_owner_guid e g x c) \<noteq> 0"
proof -
  have c: "core_inv c" "members_connected e c" "bans_kept e c" "is_on c g" using j by (auto simp: joining_def)
  have g: "if ch_players c = [] then g = 0 else is_on c g" "g = 0 \<or> is_on c g"
    using c(4) by (auto simp: players_empty_iff)
  have ne: "g \<noteq> 0" using core_invD(2) [OF c(1) member_at_on [OF c(4)]] by (simp add: member_ok_def)
  note f = set_owner_core [OF e c(1,2) g(2)]
  show inv: "chan_inv e (set_owner_guid e g x c)" by (rule set_owner_inv [OF e c(1-3) g(1)])
  show "joining e g (set_owner_guid e g x c)"
    using inv f(2) c(2,4) by (auto simp: joining_def chan_inv_def members_connected_def)
  show "ch_owner (set_owner_guid e g x c) \<noteq> 0"
    using quiet_same(10) [OF set_owner_quiet [OF e pointers_okI [OF c(1,2)] core_invD(1) [OF c(1)] g(2)]] ne
    by (simp add: give_owner_simps)
qed

lemma join_custom_inv:
  assumes e: "env_ok e" and p: "we_connected (ce_world e) (pl_guid p) = Some p"
    and j: "joining e (pl_guid p) c"
  shows "chan_inv e (join_custom e p c)"
proof -
  let ?g = "pl_guid p"
  define c1 where "c1 = (if ch_players c \<noteq> [] then update_channel_usage_in_db c else c)"
  define c2 where "c2 = (if is_constant_moderator c1 (pl_account p)
    then flags_notify e (Some ?g) (update_member ?g (set_flag MEMBER_FLAG_MODERATOR True) c1) else c1)"
  define c3 where "c3 = (if (is_empty (ch_owner c2) \<or> (ch_owner_gm c2 \<and> ce_silent_gm e)) \<and> ch_ownership c2
    then set_owner_guid e ?g False (c2\<lparr>ch_owner_gm := cm_gm (member_at c2 ?g)\<rparr>) else c2)"
  have j1: "joining e ?g c1" using joining_quiet [OF quiet_db(2) j] j by (simp add: c1_def)
  have "joining e ?g (flags_notify e (Some ?g) (update_member ?g (set_flag MEMBER_FLAG_MODERATOR True) c1))"
    using joining_flag [OF j1, of MEMBER_FLAG_MODERATOR True] p
    by (intro joining_quiet [OF quiet_flags_notify [OF e joining_pointers]]) (auto simp: deref_def)
  then have j2: "joining e ?g c2" using j1 by (simp add: c2_def)
  have j2': "joining e ?g (c2\<lparr>ch_owner_gm := b\<rparr>)" for b
    using j2 by (simp add: joining_def)
  have j3: "joining e ?g c3" "ch_ownership c3 \<longrightarrow> ch_owner c3 \<noteq> 0"
    using j2 joining_owner [OF e j2'] by (auto simp: c3_def is_empty_def guid_empty_def)
  have "chan_inv e c3" "chan_inv e (update_member ?g (set_flag MEMBER_FLAG_MUTED True) c3)"
    using joining_done [OF j3(1)] joining_done [OF joining_flag [OF j3(1), of MEMBER_FLAG_MUTED True]] j3(2) by auto
  moreover have "join_custom e p c = (if has_right c3 CHANNEL_RIGHT_CANT_SPEAK
      then update_member ?g (set_flag MEMBER_FLAG_MUTED True) c3 else c3)"
    unfolding join_custom_def c3_def c2_def c1_def Let_def by (rule refl)
  ultimately show ?thesis by simp
qed

text \<open>The world an operation runs in: the player who asks, and the members, are connected.\<close>

definition step_ok :: "chan_env \<Rightarrow> player_info \<Rightarrow> channel \<Rightarrow> bool" where
  "step_ok e p c \<longleftrightarrow> env_ok e \<and> we_connected (ce_world e) (pl_guid p) = Some p \<and> members_connected e c"

lemma join_channel_inv:
  assumes w: "step_ok e p c" and i: "chan_inv e c"
  shows "chan_inv e (join_channel e p pass c)"
proof -
  let ?g = "pl_guid p"
  have e: "env_ok e" and p: "we_connected (ce_world e) ?g = Some p" and mc: "members_connected e c"
    using w by (auto simp: step_ok_def)
  define c1 where "c1 = chan_log (JoinedChannel ?g) c"
  define c2 where "c2 = (if ch_announce c1 \<and> should_announce_player e p then send_to_all e (make_joined c1 ?g) 0 c1 else c1)"
  define new where "new = (\<lambda>_::member. \<lparr>cm_player = ?g, cm_flags = MEMBER_FLAG_NONE, cm_ptr = Some ?g, cm_gm = False\<rparr>)"
  define c3 where "c3 = update_member ?g new c2"
  define c4 where "c4 = (if cr_join_message (ch_rights c3) \<noteq> []
                 then chan_log (SysMessage ?g (cr_join_message (ch_rights c3))) c3 else c3)"
  define c5 where "c5 = send_to_one e (make_you_joined c4) ?g c4"
  define c6 where "c6 = join_notify e p c5"
  define c7 where "c7 = update_member ?g (\<lambda>m. m\<lparr>cm_gm := is_gm_account p\<rparr>) c6"
  have q1: "quiet c c1" by (simp add: c1_def quiet_log)
  have "pointers_ok e c1" using inv_pointers [OF i mc] quiet_derived(8) [OF q1] by simp
  then have q2: "quiet c c2" using quiet_trans [OF q1 quiet_send_to_all [OF e]] q1 by (simp add: c2_def)
  show ?thesis
  proof (cases "is_on c ?g \<or> is_banned e c ?g \<or> ch_password c \<noteq> [] \<and> pass \<noteq> ch_password c
      \<or> chan_has_flag c CHANNEL_FLAG_LFG \<and> ce_restricted_lfg e \<and> is_player_level (pl_security p) \<and> ce_in_group e ?g")
    case True
    then show ?thesis using i by (auto simp: join_channel_def Let_def)
  next
    case False
    then have f: "\<not> is_on c ?g" "\<not> is_banned e c ?g" "\<not> (ch_password c \<noteq> [] \<and> pass \<noteq> ch_password c)"
      "\<not> (chan_has_flag c CHANNEL_FLAG_LFG \<and> ce_restricted_lfg e \<and> is_player_level (pl_security p) \<and> ce_in_group e ?g)"
      by auto
    have g: "?g \<noteq> 0" using env_okD(1) [OF e p] by simp
    have i2: "chan_inv e c2" by (rule quiet_inv [OF q2 i])
    have off: "\<not> is_on c2 ?g" "\<not> is_banned e c2 ?g" using False quiet_derived [OF q2] by auto
    have "core_inv (update_member ?g new c2)"
      using inv_core [OF i2] off g distinct_update_member
      by (auto simp: core_inv_def new_def member_ok_def has_flag_def MEMBER_FLAG_NONE_def)
    moreover have "members_connected e (update_member ?g new c2)"
      using mc p quiet_derived(7) [OF q2] by (auto simp: members_connected_def connected_def)
    moreover have "bans_kept e (update_member ?g new c2)"
      using i2 off by (auto simp: chan_inv_def bans_kept_def is_banned_def)
    moreover have "owned (update_member ?g new c2)" if "\<not> is_constant c2 \<and> ch_ownership c2 \<and> ch_owner c2 \<noteq> 0"
      using i2 off that by (auto simp: chan_inv_def owned_def split: if_splits)
    ultimately have j3: "joining e ?g c3"
      unfolding joining_def c3_def by (auto simp: is_constant_def)
    have q4: "quiet c3 c4" by (simp add: c4_def quiet_log)
    have q5: "quiet c3 c5" unfolding c5_def by (rule quiet_trans [OF q4 quiet_send_to_one])
    have j5: "joining e ?g c5" by (rule joining_quiet [OF q5 j3])
    have j6: "joining e ?g c6" unfolding c6_def by (rule joining_quiet [OF quiet_join_notify [OF e joining_pointers [OF j5]] j5])
    have j7: "joining e ?g c7" unfolding c7_def
      by (rule joining_update [OF j6]) (simp_all add: member_ok_def has_flag_def)
    have const: "is_constant c7 = is_constant c" "is_constant c7 \<Longrightarrow> chan_inv e c7"
    proof -
      show "is_constant c7 = is_constant c"
        using quiet_derived(5) [OF q2] quiet_derived(5) [OF q5] quiet_derived(5) [OF quiet_join_notify [OF e joining_pointers [OF j5]]]
        by (simp add: c7_def c6_def c3_def is_constant_def)
      show "chan_inv e c7" if "is_constant c7" using j7 that by (auto simp: joining_def chan_inv_def)
    qed
    have "join_channel e p pass c = (if \<not> is_constant c7 then join_custom e p c7 else c7)"
      unfolding join_channel_def c7_def c6_def c5_def c4_def c3_def c2_def c1_def new_def Let_def
        if_not_P [OF f(1)] if_not_P [OF f(2)] if_not_P [OF f(3)] if_not_P [OF f(4)] by (rule refl)
    then show ?thesis using join_custom_inv [OF e p j7] const by simp
  qed
qed

section \<open>Leaving\<close>

lemma erase_simps [simp]:
  "is_on (erase_member g c) h \<longleftrightarrow> h \<noteq> g \<and> is_on c h"
  "member_at (erase_member g c) h = (if h = g then member_default else member_at c h)"
  "is_on (remove_watching g c) h = is_on c h" "member_at (remove_watching g c) h = member_at c h"
  "ch_watching (remove_watching g c) = removeAll g (ch_watching c)" "ch_watching (erase_member g c) = ch_watching c"
  "ch_players (remove_watching g c) = ch_players c" "ch_log (remove_watching g c) = ch_log c" "ch_log (erase_member g c) = ch_log c"
  "ch_owner (remove_watching g c) = ch_owner c" "ch_owner (erase_member g c) = ch_owner c"
  "ch_id (remove_watching g c) = ch_id c" "ch_id (erase_member g c) = ch_id c"
  "ch_ownership (remove_watching g c) = ch_ownership c" "ch_ownership (erase_member g c) = ch_ownership c"
  "ch_banned (remove_watching g c) = ch_banned c" "ch_banned (erase_member g c) = ch_banned c"
  "map_of (ch_players (erase_member g c)) h = (if h = g then None else map_of (ch_players c) h)"
  by (simp_all add: is_on_def member_at_def erase_member_def remove_watching_def map_of_AList_delete)

lemma erase_pointers: "pointers_ok e c \<Longrightarrow> pointers_ok e (erase_member g c)"
  using delete_notin_dom by (auto simp: pointers_ok_def erase_member_def AList.delete_eq)

text \<open>A member and his place among the watchers taken away together.\<close>

lemma remove_member_core:
  assumes "core_inv c"
  shows "core_inv (remove_watching g (erase_member g c))"
proof -
  have "distinct (map fst (ch_players (erase_member g c)))"
    using core_invD(1) [OF assms] by (simp add: erase_member_def distinct_delete)
  then show ?thesis using assms by (auto simp: core_inv_def)
qed

lemma remove_member_owned:
  assumes "owned c" "is_on c g" "g \<noteq> ch_owner c"
  shows "owned (remove_watching g (erase_member g c))"
proof -
  have o: "is_on c (ch_owner c)" "is_owner (member_at c (ch_owner c))"
    using assms(1,2) by (auto simp: owned_def players_empty_iff split: if_splits)
  have "is_on (remove_watching g (erase_member g c)) (ch_owner c)" using o(1) assms(3) by simp
  then show ?thesis using o assms(3) unfolding owned_def players_empty_iff by auto
qed

abbreviation removed :: "guid \<Rightarrow> channel \<Rightarrow> channel" where
  "removed g c \<equiv> remove_watching g (erase_member g c)"

lemma remove_watching_pointers: "pointers_ok e c \<Longrightarrow> pointers_ok e (remove_watching g c)"
  by (auto simp: pointers_ok_def)

lemma removed_inv:
  assumes i: "chan_inv e c" and mc: "members_connected e c"
  shows "core_inv (removed g c)" "members_connected e (removed g c)" "bans_kept e (removed g c)"
  using remove_member_core [OF inv_core [OF i]] mc i
  by (auto simp: chan_inv_def members_connected_def bans_kept_def is_banned_def)

text \<open>What follows the removal of the owner: another member becomes owner, or nobody.\<close>

lemma next_owner_inv:
  assumes e: "env_ok e" and d: "core_inv d" "members_connected e d" "bans_kept e d"
    and gm: "f = (\<lambda>gm d. d) \<or> f = (\<lambda>gm d. d\<lparr>ch_owner_gm := gm\<rparr>)"
  shows "chan_inv e (if ch_players d \<noteq> []
      then (case pick_owner e (ce_iter e (ch_players d)) acc of
              None \<Rightarrow> chan_log BadPointer d
            | Some (n, gm) \<Rightarrow> set_owner_guid e n True (f gm d))
      else set_owner_guid e 0 True d)"
proof (cases "ch_players d = []")
  case True
  then show ?thesis using set_owner_inv [OF e d, of 0 True] by simp
next
  case False
  obtain n g where n: "pick_owner e (ce_iter e (ch_players d)) acc = Some (n, g)" "is_on d n"
    by (rule pick_new_owner [OF e d(1) pointers_okI [OF d(1,2)] False])
  have "chan_inv e (set_owner_guid e n True (f g d))"
    using gm d n(2) False by (intro set_owner_inv [OF e]) auto
  then show ?thesis using n(1) False by simp
qed

lemma leave_channel_inv:
  assumes w: "step_ok e p c" and i: "chan_inv e c"
  shows "chan_inv e (leave_channel e p send c)"
proof (cases "is_on c (pl_guid p)")
  case True
  let ?g = "pl_guid p"
  have e: "env_ok e" and mc: "members_connected e c" using w by (auto simp: step_ok_def)
  define c1 where "c1 = (if send then chan_log (LeftChannel ?g) (send_to_one e (make_you_left c) ?g c) else c)"
  define c2 where "c2 = erase_member ?g c1"
  define c3 where "c3 = (if ch_announce c2 \<and> should_announce_player e p then send_to_all e (make_left c2 ?g) 0 c2 else c2)"
  define c5 where "c5 = leave_notify e p (remove_watching ?g c3)"
  define c6 where "c6 = update_channel_usage_in_db c5"
  have q1: "quiet c c1" unfolding c1_def using quiet_trans [OF quiet_send_to_one quiet_log] by simp
  have p1: "pointers_ok e c1" using inv_pointers [OF i mc] quiet_derived(8) [OF q1] by simp
  have p2: "pointers_ok e c2" unfolding c2_def by (rule erase_pointers [OF p1])
  have q3: "quiet c2 c3" using quiet_send_to_all [OF e p2] by (simp add: c3_def)
  have p3: "pointers_ok e (remove_watching ?g c3)" using remove_watching_pointers p2 quiet_derived(8) [OF q3] by simp
  have "quiet (removed ?g c) (removed ?g c1)" using update_quiet(3,4) q1 by blast
  also have "quiet (removed ?g c1) (remove_watching ?g c3)" using update_quiet(4) [OF q3] by (simp add: c2_def)
  finally have q4: "quiet (removed ?g c) (remove_watching ?g c3)" .
  have q5: "quiet (removed ?g c) c5" unfolding c5_def by (rule quiet_trans [OF q4 quiet_leave_notify [OF e p3]])
  have q6: "quiet (removed ?g c) c6" unfolding c6_def by (rule quiet_trans [OF q5 quiet_db(2)])
  note r = removed_inv [OF i mc, of ?g]
  have c6: "core_inv c6" "members_connected e c6" "bans_kept e c6"
    using r quiet_core [OF q6] quiet_derived [OF q6] by simp_all
  have const: "is_constant c5 = is_constant c" "is_constant c6 = is_constant c" "ch_ownership c6 = ch_ownership c"
    using quiet_derived(5) [OF q5] quiet_derived(5) [OF q6] quiet_same(3) [OF q6] by (simp_all add: is_constant_def)
  have i5: "chan_inv e c5" if "is_constant c"
    using r quiet_core [OF q5] quiet_derived [OF q5] const(1) that by (simp add: chan_inv_def)
  have i6: "chan_inv e c6" if "\<not> is_constant c" "\<not> (is_owner (member_at c ?g) \<and> ch_ownership c)"
  proof -
    have "owned c6" if "ch_ownership c"
    proof -
      have "owned c" using i \<open>\<not> is_constant c\<close> that by (simp add: chan_inv_def)
      moreover from this have "?g \<noteq> ch_owner c"
        using True \<open>\<not> (is_owner (member_at c ?g) \<and> ch_ownership c)\<close> that
        by (auto simp: owned_def players_empty_iff split: if_splits)
      ultimately show ?thesis using remove_member_owned True quiet_derived(3) [OF q6] by simp
    qed
    then show ?thesis using c6 const by (simp add: chan_inv_def)
  qed
  have m1: "member_at c1 ?g = member_at c ?g" by (rule quiet_derived(2) [OF q1])
  have "leave_channel e p send c = (if is_constant c then c5 else if is_owner (member_at c ?g) \<and> ch_ownership c
     then (if ch_players c6 \<noteq> []
                     then (case pick_owner e (ce_iter e (ch_players c6)) (0, ch_owner_gm c6) of
                             None \<Rightarrow> chan_log BadPointer c6
                           | Some (newowner, gm) \<Rightarrow> set_owner_guid e newowner True (c6\<lparr>ch_owner_gm := gm\<rparr>))
                     else set_owner_guid e 0 True c6) else c6)"
    unfolding const [symmetric] m1 [symmetric]
    unfolding leave_channel_def c6_def c5_def c3_def c2_def c1_def Let_def using True by simp
  then show ?thesis using i5 i6 next_owner_inv [OF e c6, of "\<lambda>gm d. d\<lparr>ch_owner_gm := gm\<rparr>" "(0, ch_owner_gm c6)"] by simp
qed (use i in \<open>simp add: leave_channel_def\<close>)

section \<open>Kicking and banning\<close>

lemma add_ban_simps [simp]:
  "is_on (add_ban g t c) h = is_on c h" "core_inv (add_ban g t c) = core_inv c" "owned (add_ban g t c) = owned c"
  "members_connected e (add_ban g t c) = members_connected e c" "pointers_ok e (add_ban g t c) = pointers_ok e c"
  "is_constant (add_ban g t c) = is_constant c" "ch_ownership (add_ban g t c) = ch_ownership c"
  "ch_owner (add_ban g t c) = ch_owner c" "ch_players (add_ban g t c) = ch_players c"
  "h \<noteq> g \<Longrightarrow> is_banned e (add_ban g t c) h = is_banned e c h"
  by (simp_all add: add_ban_def is_on_def core_inv_def owned_def members_connected_def pointers_ok_def
      is_constant_def member_at_def is_banned_def map_of_AList_update)

text \<open>The player aimed at: a member with his object, or someone who is not on the channel.\<close>

lemma kick_targetD:
  assumes w: "step_ok e p c" and t: "kick_target e p badname ban c = Inr (v, acc, isOn, bad)"
  shows "isOn \<Longrightarrow> is_on c v \<and> (\<exists>b. bad = Some b \<and> pl_guid b = v)"
    "\<not> isOn \<Longrightarrow> \<not> is_on c v \<and> ban \<and> (is_gm_account p \<or> is_constant_moderator c (pl_account p))"
proof -
  show "is_on c v \<and> (\<exists>b. bad = Some b \<and> pl_guid b = v)" if isOn
    using t that by (auto simp: kick_target_def Let_def is_empty_def guid_empty_def
        split: if_splits option.splits)
  show "\<not> is_on c v \<and> ban \<and> (is_gm_account p \<or> is_constant_moderator c (pl_account p))" if "\<not> isOn"
  proof -
    have *: "ban \<and> (is_gm_account p \<or> is_constant_moderator c (pl_account p))" "v = we_guid_of_name (ce_world e) badname"
      "\<not> (case ce_find_by_name e badname of Some b \<Rightarrow> \<not> is_empty (pl_guid b) \<and> is_on c (pl_guid b) | None \<Rightarrow> False)"
      using t that by (auto simp: kick_target_def Let_def is_empty_def guid_empty_def
          split: if_splits option.splits)
    have "\<not> is_on c v"
    proof
      assume on: "is_on c v"
      then obtain pl where pl: "we_connected (ce_world e) v = Some pl"
        using w by (auto simp: step_ok_def members_connected_def connected_def)
      have "env_ok e" using w by (simp add: step_ok_def)
      from env_okD(1,3) [OF this] pl *(2) have "ce_find_by_name e badname = Some pl" "pl_guid pl = v" "v \<noteq> 0" by auto
      then show False using *(3) on by (simp add: is_empty_def guid_empty_def)
    qed
    then show ?thesis using *(1) by simp
  qed
qed

lemma kick_execute_inv:
  assumes w: "step_ok e p c" and i: "chan_inv e c" and on: "is_on c (pl_guid p)"
    and target: "isOn \<Longrightarrow> is_on c v \<and> (\<exists>b. bad = Some b \<and> pl_guid b = v)" "\<not> isOn \<Longrightarrow> \<not> is_on c v"
  shows "chan_inv e (kick_execute e p v isOn bad ban c)"
proof -
  have e: "env_ok e" and mc: "members_connected e c" using w by (auto simp: step_ok_def)
  define time :: u32 where "time = word_of_int (ce_time e + CHANNEL_BAN_DURATION)"
  define c1 where "c1 = (if ban \<and> \<not> is_banned e c v then add_ban v time c else c)"
  define c2 where "c2 = (if ban
               then if \<not> is_banned e c v
                    then let c = add_channel_ban_to_db v time (add_ban v time c)
                         in if should_announce_player e p
                            then send_to_all e (make_player_banned c v (pl_guid p)) 0 c else c
                    else c
               else if should_announce_player e p
               then send_to_all e (make_player_kicked c v (pl_guid p)) 0 c else c)"
  define c3 where "c3 = (if isOn
               then let c = erase_member v c2
                    in case bad of
                         None \<Rightarrow> chan_log BadPointer c
                       | Some b \<Rightarrow> leave_notify e b (remove_watching (pl_guid b) (chan_log (LeftChannel (pl_guid b)) c))
               else c2)"
  have p1: "pointers_ok e c1" using inv_pointers [OF i mc] by (simp add: c1_def)
  have send: "quiet c1 (send_to_all e data 0 c1)" for data by (rule quiet_send_to_all [OF e p1])
  have q2: "quiet c1 c2"
  proof (cases "ban \<and> \<not> is_banned e c v")
    case True
    let ?d = "add_channel_ban_to_db v time c1"
    have "pointers_ok e ?d" using p1 quiet_derived(8) [OF quiet_db(3)] by simp
    then have "quiet ?d (send_to_all e (make_player_banned ?d v (pl_guid p)) 0 ?d)" by (rule quiet_send_to_all [OF e])
    with quiet_trans [OF quiet_db(3) this] True show ?thesis by (simp add: c1_def c2_def Let_def quiet_db)
  qed (use send in \<open>auto simp: c1_def c2_def\<close>)
  define d where "d = (if isOn then removed v c1 else c1)"
  have q3: "quiet d c3"
  proof (cases isOn)
    case True
    then obtain b where b: "bad = Some b" "pl_guid b = v" using target(1) by auto
    let ?l = "chan_log (LeftChannel v) (erase_member v c2)"
    have l: "quiet (erase_member v c1) ?l" using quiet_trans [OF update_quiet(3) [OF q2] quiet_log] by simp
    have "pointers_ok e (remove_watching v ?l)"
      using remove_watching_pointers erase_pointers [OF p1] quiet_derived(8) [OF l] by simp
    from quiet_trans [OF update_quiet(4) [OF l] quiet_leave_notify [OF e this]] show ?thesis
      using True b by (simp add: d_def c3_def Let_def)
  qed (use q2 in \<open>simp add: c3_def d_def\<close>)
  have i1: "core_inv c1" "members_connected e c1" "\<not> is_constant c \<and> ch_ownership c \<longrightarrow> owned c1"
    using i mc by (auto simp: c1_def chan_inv_def)
  have d: "core_inv d" "members_connected e d"
    using i1 remove_member_core by (auto simp: d_def members_connected_def)
  have on_d: "is_on d h \<longleftrightarrow> is_on c h \<and> h \<noteq> v" for h using target(2) by (auto simp: d_def c1_def)
  have bans: "bans_kept e d"
    using i on_d by (auto simp: chan_inv_def bans_kept_def d_def c1_def is_banned_def add_ban_def map_of_AList_update)
  have own: "owned d" if "\<not> is_constant c" "ch_ownership c" "ch_owner c \<noteq> v"
    using i1(3) that target(1) remove_member_owned [of c1 v] by (auto simp: d_def c1_def)
  have const: "is_constant d = is_constant c" "ch_ownership d = ch_ownership c"
    by (auto simp: d_def c1_def is_constant_def add_ban_def)
  have c3: "core_inv c3" "members_connected e c3" "bans_kept e c3"
    using d bans quiet_core [OF q3] quiet_derived [OF q3] by simp_all
  have own3: "chan_inv e c3" if "\<not> (ch_owner c = v \<and> ch_ownership c3)"
    using c3 own that quiet_derived(3,5) [OF q3] quiet_same(3) [OF q3] const by (auto simp: chan_inv_def)
  have "chan_inv e (set_owner_guid e (pl_guid p) True c3)" if "pl_guid p \<noteq> v"
    using that on on_d quiet_derived(1) [OF q3] by (intro set_owner_inv [OF e c3]) (auto simp: players_empty_iff)
  moreover have "kick_execute e p v isOn bad ban c = (if ch_owner c = v \<and> ch_ownership c3
         then if pl_guid p \<noteq> v then set_owner_guid e (pl_guid p) True c3
              else if ch_players c3 \<noteq> []
              then (case pick_owner e (ce_iter e (ch_players c3)) (0, ch_owner_gm c3) of
                      None \<Rightarrow> chan_log BadPointer c3
                    | Some (newowner, _) \<Rightarrow> set_owner_guid e newowner True c3)
              else set_owner_guid e 0 True c3
         else c3)"
    unfolding kick_execute_def c3_def c2_def time_def Let_def by (rule refl)
  ultimately show ?thesis using own3 next_owner_inv [OF e c3, of "\<lambda>gm d. d"] by auto
qed

lemma kick_or_ban_inv:
  assumes w: "step_ok e p c" and i: "chan_inv e c"
  shows "chan_inv e (kick_or_ban e p badname ban c)"
proof (cases "is_on c (pl_guid p) \<and> (is_moderator (member_at c (pl_guid p)) \<or> is_gm_account p)")
  case True
  show ?thesis
  proof (cases "kick_target e p badname ban c")
    case (Inl r)
    then show ?thesis using True i quiet_inv [OF quiet_log]
      by (cases r) (auto simp: kick_or_ban_def)
  next
    case (Inr t)
    obtain v acc isOn bad where t: "t = (v, acc, isOn, bad)" by (cases t) auto
    note k = kick_targetD [OF w Inr [unfolded t]]
    have ex: "chan_inv e (kick_execute e p v isOn bad ban c)"
      using True k by (intro kick_execute_inv [OF w i]) auto
    have "kick_forbidden e p v acc bad ban c \<noteq> None" if "\<not> is_gm_account p \<and> \<not> is_constant_moderator c (pl_account p)"
      using k that by (cases isOn) (auto simp: kick_forbidden_def)
    then show ?thesis using True Inr t ex i by (auto simp: kick_or_ban_def split: option.splits)
  qed
qed (use i in \<open>auto simp: kick_or_ban_def Let_def\<close>)

section \<open>The other operations\<close>

lemma refused_inv:
  assumes "chan_inv e c" "members_connected e c" "env_ok e"
  shows "chan_inv e (send_to_one e data g c)" "chan_inv e (update_channel_in_db c)"
    "chan_inv e (chan_log (SysMessage g w) c)"
  using assms quiet_inv [OF quiet_send_to_one] quiet_inv [OF quiet_db(1)] quiet_inv [OF quiet_log] by auto

text \<open>After a change that keeps the invariant, everyone is told and the database follows.\<close>

lemma told_inv:
  assumes e: "env_ok e" and i: "chan_inv e c" and mc: "members_connected e c"
  shows "chan_inv e (send_to_all e data g c)" "chan_inv e (update_channel_in_db (send_to_all e data g c))"
  using send_to_all_inv [OF e mc i] quiet_inv [OF quiet_db(1)] by auto

lemma ban_lifted_inv:
  assumes "chan_inv e c"
  shows "chan_inv e (c\<lparr>ch_banned := AList.delete v (ch_banned c)\<rparr>)"
    "members_connected e (c\<lparr>ch_banned := bs\<rparr>) = members_connected e c"
  using assms by (auto simp: chan_inv_def core_inv_def owned_def is_on_def member_at_def bans_kept_def
      is_banned_def is_constant_def members_connected_def map_of_AList_delete)

lemma unban_inv:
  assumes e: "env_ok e" and i: "chan_inv e c" and mc: "members_connected e c"
  shows "chan_inv e (unban e p n c)" "chan_inv e (unban_guid e g c)"
proof -
  let ?d = "\<lambda>v. remove_channel_ban_from_db v (c\<lparr>ch_banned := AList.delete v (ch_banned c)\<rparr>)"
  have d: "chan_inv e (?d v)" "members_connected e (?d v)" for v
    using quiet_inv [OF quiet_db(4) ban_lifted_inv(1) [OF i]] quiet_derived(7) [OF quiet_db(4)] ban_lifted_inv(2) [OF i] mc
    by auto
  show "chan_inv e (unban e p n c)" using i told_inv(1) [OF e d] by (simp add: unban_def Let_def)
  show "chan_inv e (unban_guid e g c)" using i d by (simp add: unban_guid_def)
qed

lemma password_inv:
  assumes "env_ok e" "chan_inv e c" "members_connected e c"
  shows "chan_inv e (password e p pass c)"
  using told_inv(2) [OF assms(1), of "c\<lparr>ch_password := pass\<rparr>"] assms by (simp add: password_def Let_def)

lemma announce_inv:
  assumes "env_ok e" "chan_inv e c" "members_connected e c"
  shows "chan_inv e (announce e p c)"
  using told_inv(2) [OF assms(1), of "c\<lparr>ch_announce := \<not> ch_announce c\<rparr>"] assms by (simp add: announce_def Let_def)

lemma toggle_moderation_inv:
  assumes "env_ok e" "chan_inv e c" "members_connected e c"
  shows "chan_inv e (toggle_moderation e p c)"
  using told_inv(1) [OF assms(1), of "c\<lparr>ch_moderation := \<not> ch_moderation c\<rparr>"] assms
  by (simp add: toggle_moderation_def Let_def)

lemma invite_inv:
  assumes "chan_inv e c"
  shows "chan_inv e (invite e p n c)"
proof -
  have one: "chan_inv e (send_to_one e data g d)" if "chan_inv e d" for data g d
    by (rule quiet_inv [OF quiet_send_to_one that])
  show ?thesis using assms by (simp add: invite_def Let_def one split: option.splits)
qed

lemma list_members_some:
  "(\<And>k m. (k, m) \<in> set ms \<Longrightarrow> deref e (cm_ptr m) \<noteq> None) \<Longrightarrow> list_members e ms \<noteq> None"
  by (induction e ms rule: list_members.induct) (fastforce split: option.splits)+

lemma chan_list_inv:
  assumes e: "env_ok e" and i: "chan_inv e c" and mc: "members_connected e c"
  shows "chan_inv e (chan_list e p c)" "chan_inv e (send_who_owner e g c)"
proof -
  have "list_members e (ce_iter e (ch_players c)) \<noteq> None"
    using inv_pointers [OF i mc] env_okD(4) [OF e] by (intro list_members_some) (auto simp: pointers_ok_def)
  then show "chan_inv e (chan_list e p c)"
    using i quiet_inv [OF quiet_send_to_one i] by (auto simp: chan_list_def split: option.splits)
  show "chan_inv e (send_who_owner e g c)" unfolding send_who_owner_def by (rule quiet_inv [OF quiet_send_to_one i])
qed

lemma say_inv:
  assumes "env_ok e" "chan_inv e c" "members_connected e c" "say e g what lang c = Some c'"
  shows "chan_inv e c'"
proof -
  have "c' = c \<or> (\<exists>data. c' = send_to_one e data g c) \<or> (\<exists>data h. c' = send_to_all e data h c)"
    using assms(4) by (auto simp: say_def Let_def split: if_splits option.splits)
  then show ?thesis using assms(2) told_inv(1) [OF assms(1-3)] quiet_inv [OF quiet_send_to_one] by blast
qed

lemma watching_inv:
  assumes "chan_inv e c"
  shows "chan_inv e (add_watching p c)" "chan_inv e (remove_watching g c)"
  using assms by (auto simp: add_watching_def remove_watching_def chan_inv_def core_inv_def owned_def is_on_def
      member_at_def bans_kept_def is_banned_def is_constant_def)

lemma flag_update_inv:
  assumes i: "chan_inv e c" and on: "is_on c g" and mc: "members_connected e c"
    and f: "f = id \<or> (\<exists>fl st. f = set_flag fl st \<and> fl \<in> {MEMBER_FLAG_MODERATOR, MEMBER_FLAG_MUTED})"
  shows "chan_inv e (update_member g f c)" "members_connected e (update_member g f c)"
proof -
  have "core_inv (update_member g f c)"
    using f core_flag [OF inv_core [OF i] on] core_update [OF inv_core [OF i] on, of id]
      core_invD(2,3) [OF inv_core [OF i] member_at_on [OF on]] by auto
  moreover have "owned c \<Longrightarrow> owned (update_member g f c)"
    using f on by (auto simp: owned_def players_empty_iff has_flag_set_flag split: if_splits)
  moreover have "is_on (update_member g f c) h = is_on c h" for h using on by auto
  ultimately show "chan_inv e (update_member g f c)" "members_connected e (update_member g f c)"
    using i mc by (auto simp: chan_inv_def bans_kept_def is_banned_def is_constant_def members_connected_def)
qed

lemma set_mute_guid_inv:
  assumes "env_ok e" "chan_inv e c" "members_connected e c" "is_on c g"
  shows "chan_inv e (set_mute_guid e g st c)"
proof -
  let ?c = "update_member g (set_flag MEMBER_FLAG_MUTED st) c"
  have "chan_inv e ?c" "members_connected e ?c" "chan_inv e (update_member g id c)"
    using flag_update_inv [OF assms(2,4,3)] by auto
  then show ?thesis using told_inv(1) [OF assms(1)] by (simp add: set_mute_guid_def Let_def)
qed

lemma set_moderator_guid_inv:
  assumes e: "env_ok e" and i: "chan_inv e c" and mc: "members_connected e c" and on: "is_on c g"
  shows "chan_inv e (set_moderator_guid e g st c)"
proof -
  let ?c = "update_member g (set_flag MEMBER_FLAG_MODERATOR st) c"
  have i1: "chan_inv e ?c" "members_connected e ?c" using flag_update_inv [OF i on mc] by auto
  define c2 where "c2 = send_to_all e (make_mode_change ?c g (cm_flags (member_at c g))) 0 ?c"
  have q: "quiet ?c c2" unfolding c2_def by (rule quiet_send_to_all [OF e inv_pointers [OF i1]])
  have p2: "pointers_ok e c2" "is_on c2 g" using quiet_derived [OF q] inv_pointers [OF i1] by auto
  have "chan_inv e (flags_notify e (cm_ptr (member_at c2 g)) c2)"
    by (rule quiet_inv [OF quiet_flags_notify [OF e p2(1) deref_member [OF p2]] quiet_inv [OF q i1(1)]])
  then show ?thesis using flag_update_inv(1) [OF i on mc, of id] by (simp add: set_moderator_guid_def Let_def c2_def)
qed

lemma set_mode_inv:
  assumes "env_ok e" "chan_inv e c" "members_connected e c"
  shows "chan_inv e (set_mode e p n md st c)"
  using assms set_mute_guid_inv [OF assms] set_moderator_guid_inv [OF assms]
  by (simp add: set_mode_def Let_def split: option.splits)

lemma set_owner_req_inv:
  assumes e: "env_ok e" and i: "chan_inv e c" and mc: "members_connected e c"
  shows "chan_inv e (set_owner e p n c)"
proof -
  have "chan_inv e (set_owner_guid e g True c)" if "is_on c g" for g
    using that i mc by (intro set_owner_inv [OF e]) (auto simp: chan_inv_def players_empty_iff)
  then show ?thesis using i by (simp add: set_owner_def Let_def split: option.splits)
qed

end
