(* ===== verification/ChannelRuns.thy ===== *)
theory ChannelRuns
  imports ChannelSteps
begin

text \<open>
  A chat channel as a transition system: its states, the calls the program makes on it, and what
  holds in every state it can reach from its construction.
\<close>

section \<open>Calls and steps\<close>

datatype chan_cmd =
    JoinChannel player_info bytes
  | LeaveChannel player_info bool
  | KickOrBan player_info bytes bool
  | UnBan player_info bytes
  | UnBanGuid guid
  | Password player_info bytes
  | SetMode player_info bytes bool bool
  | SetOwner player_info bytes
  | SendWhoOwner guid
  | ListChan player_info
  | Announce player_info
  | Say guid bytes u32
  | Invite player_info bytes
  | ToggleModeration player_info
  | AddWatching player_info
  | RemoveWatching guid

text \<open>\<open>None\<close> is the assertion of the chat packet.\<close>

fun chan_exec :: "chan_env \<Rightarrow> chan_cmd \<Rightarrow> channel \<Rightarrow> channel option" where
  "chan_exec e (JoinChannel p pass) c = Some (join_channel e p pass c)"
| "chan_exec e (LeaveChannel p send) c = Some (leave_channel e p send c)"
| "chan_exec e (KickOrBan p n ban) c = Some (kick_or_ban e p n ban c)"
| "chan_exec e (UnBan p n) c = Some (unban e p n c)"
| "chan_exec e (UnBanGuid g) c = Some (unban_guid e g c)"
| "chan_exec e (Password p pass) c = Some (password e p pass c)"
| "chan_exec e (SetMode p n md st) c = Some (set_mode e p n md st c)"
| "chan_exec e (SetOwner p n) c = Some (set_owner e p n c)"
| "chan_exec e (SendWhoOwner g) c = Some (send_who_owner e g c)"
| "chan_exec e (ListChan p) c = Some (chan_list e p c)"
| "chan_exec e (Announce p) c = Some (announce e p c)"
| "chan_exec e (Say g what lang) c = say e g what lang c"
| "chan_exec e (Invite p n) c = Some (invite e p n c)"
| "chan_exec e (ToggleModeration p) c = Some (toggle_moderation e p c)"
| "chan_exec e (AddWatching p) c = Some (add_watching p c)"
| "chan_exec e (RemoveWatching g) c = Some (remove_watching g c)"

fun cmd_player :: "chan_cmd \<Rightarrow> player_info option" where
  "cmd_player (JoinChannel p pass) = Some p"
| "cmd_player (LeaveChannel p send) = Some p"
| "cmd_player (KickOrBan p n ban) = Some p"
| "cmd_player (UnBan p n) = Some p"
| "cmd_player (UnBanGuid g) = None"
| "cmd_player (Password p pass) = Some p"
| "cmd_player (SetMode p n md st) = Some p"
| "cmd_player (SetOwner p n) = Some p"
| "cmd_player (SendWhoOwner g) = None"
| "cmd_player (ListChan p) = Some p"
| "cmd_player (Announce p) = Some p"
| "cmd_player (Say g what lang) = None"
| "cmd_player (Invite p n) = Some p"
| "cmd_player (ToggleModeration p) = Some p"
| "cmd_player (AddWatching p) = Some p"
| "cmd_player (RemoveWatching g) = None"

text \<open>
  The world a call runs in: it is consistent, members and the caller are connected.
\<close>

definition world_fits :: "chan_env \<Rightarrow> chan_cmd \<Rightarrow> channel \<Rightarrow> bool" where
  "world_fits e cmd c \<longleftrightarrow> env_ok e \<and> members_connected e c
     \<and> (case cmd_player cmd of Some p \<Rightarrow> we_connected (ce_world e) (pl_guid p) = Some p | None \<Rightarrow> True)"

text \<open>One call; the world may have changed since the last, and time does not go back.\<close>

inductive chan_step :: "chan_env \<times> channel \<Rightarrow> chan_cmd \<Rightarrow> chan_env \<times> channel \<Rightarrow> bool" where
  call: "ce_time e \<le> ce_time e' \<Longrightarrow> world_fits e' cmd c \<Longrightarrow> chan_exec e' cmd c = Some c'
    \<Longrightarrow> chan_step (e, c) cmd (e', c')"

inductive chan_path :: "chan_env \<times> channel \<Rightarrow> chan_cmd list \<Rightarrow> chan_env \<times> channel \<Rightarrow> bool" where
  no_call: "chan_path s [] s"
| calls: "chan_step s cmd s' \<Longrightarrow> chan_path s' cmds s'' \<Longrightarrow> chan_path s (cmd # cmds) s''"

inductive_simps chan_step_iff: "chan_step (e, c) cmd (e', c')"
inductive_cases chan_stepE: "chan_step s cmd s'"
inductive_cases chan_path_ConsE: "chan_path s (cmd # cmds) s''"

text \<open>A channel starts without members, new or with the password and bans of the database.\<close>

inductive chan_reach :: "chan_env \<Rightarrow> channel \<Rightarrow> bool" where
  created: "chan_reach e (fold (\<lambda>(g, t). add_ban g t) bans
      (set_password pw (fst (channel_new e rights_for garbage name channelId channelDBId teamId ann own nextId))))"
| stepped: "chan_reach e c \<Longrightarrow> chan_step (e, c) cmd (e', c') \<Longrightarrow> chan_reach e' c'"

section \<open>The invariant of every reachable state\<close>

lemma chan_exec_inv:
  assumes w: "world_fits e cmd c" and i: "chan_inv e c" and x: "chan_exec e cmd c = Some c'"
  shows "chan_inv e c'"
proof -
  have e: "env_ok e" and mc: "members_connected e c" using w by (auto simp: world_fits_def)
  have p: "step_ok e p c" if "cmd_player cmd = Some p" for p
    using w that by (auto simp: world_fits_def step_ok_def)
  show ?thesis using x p i
    by (cases cmd)
      (auto intro: join_channel_inv leave_channel_inv kick_or_ban_inv unban_inv [OF e i mc] password_inv [OF e i mc]
        set_mode_inv [OF e i mc] set_owner_req_inv [OF e i mc] chan_list_inv [OF e i mc] announce_inv [OF e i mc]
        say_inv [OF e i mc] invite_inv toggle_moderation_inv [OF e i mc] watching_inv)
qed

lemma inv_later: "chan_inv e c \<Longrightarrow> ce_time e \<le> ce_time e' \<Longrightarrow> chan_inv e' c"
  by (auto simp: chan_inv_def bans_kept_def is_banned_def split: option.splits)

lemma chan_new_empty:
  "ch_players (fst (channel_new e rf gb nm i d t a ow n)) = []" "ch_owner (fst (channel_new e rf gb nm i d t a ow n)) = 0"
  "ch_watching (fst (channel_new e rf gb nm i d t a ow n)) = []"
  "BadPointer \<notin> set (ch_log (fst (channel_new e rf gb nm i d t a ow n)))"
  by (auto simp: channel_new_def Let_def chan_log_def split: option.splits)

lemma loaded_bans:
  "ch_players (fold (\<lambda>(g, t). add_ban g t) bans c) = ch_players c" "ch_owner (fold (\<lambda>(g, t). add_ban g t) bans c) = ch_owner c"
  "ch_watching (fold (\<lambda>(g, t). add_ban g t) bans c) = ch_watching c" "ch_log (fold (\<lambda>(g, t). add_ban g t) bans c) = ch_log c"
  by (induction bans arbitrary: c) (auto simp: add_ban_def)

lemma empty_inv:
  "ch_players c = [] \<Longrightarrow> ch_owner c = 0 \<Longrightarrow> ch_watching c = [] \<Longrightarrow> BadPointer \<notin> set (ch_log c) \<Longrightarrow> chan_inv e c"
  by (simp add: chan_inv_def core_inv_def owned_def bans_kept_def is_on_def)

lemma reach_inv: "chan_reach e c \<Longrightarrow> chan_inv e c"
proof (induction rule: chan_reach.induct)
  case (created e bans pw rights_for garbage name channelId channelDBId teamId ann own nextId)
  show ?case using chan_new_empty by (intro empty_inv) (simp_all add: loaded_bans set_password_def)
next
  case (stepped e c cmd e' c')
  then have "ce_time e \<le> ce_time e'" "world_fits e' cmd c" "chan_exec e' cmd c = Some c'" by (simp_all add: chan_step_iff)
  with chan_exec_inv inv_later [OF stepped.IH] show ?case by blast
qed

section \<open>What an operation can change\<close>

text \<open>Whatever is sent, only the log changes.\<close>

definition only_log :: "channel \<Rightarrow> channel \<Rightarrow> bool" where
  "only_log c c' \<longleftrightarrow> (\<exists>ls. c' = logs ls c)"

lemma only_log_refl [intro]: "only_log c c"
  unfolding only_log_def by (rule exI [of _ "[]"]) simp

lemma only_log_trans: "only_log c c' \<Longrightarrow> only_log c' c'' \<Longrightarrow> only_log c c''"
  unfolding only_log_def by (metis logs_logs(1))

lemma only_log_log: "only_log c (chan_log ef c)"
  unfolding only_log_def log_is_logs by blast

lemma only_log_fold: "(\<And>x c. only_log c (f x c)) \<Longrightarrow> only_log c (fold f xs c)"
  by (induction xs arbitrary: c) (auto intro: only_log_trans)

lemma only_log_sends:
  "only_log c (send_to_all e data g c)" "only_log c (send_to_one e data g c)" "only_log c (refuse_to e p data c)"
  "only_log c (send_to_all_watching e data c)"
  by (auto simp: send_to_all_def send_to_one_def refuse_to_def send_to_all_watching_def
      intro!: only_log_fold only_log_log split: option.splits)

lemma only_log_notify:
  "only_log c (join_notify e p c)" "only_log c (leave_notify e p c)" "only_log c (flags_notify e ptr c)"
  by (auto simp: join_notify_def leave_notify_def flags_notify_def intro!: only_log_sends only_log_log split: option.splits)

lemma only_log_db:
  "only_log c (update_channel_in_db c)" "only_log c (update_channel_usage_in_db c)"
  "only_log c (add_channel_ban_to_db g t c)" "only_log c (remove_channel_ban_from_db g c)"
  by (auto simp: update_channel_in_db_def update_channel_usage_in_db_def add_channel_ban_to_db_def
      remove_channel_ban_from_db_def intro: only_log_log)

text \<open>
  What an operation may touch: the settings stay, members outside \<open>S\<close> stay, the bans of players
  outside \<open>B\<close> stay.
\<close>

definition keeps :: "guid set \<Rightarrow> guid set \<Rightarrow> channel \<Rightarrow> channel \<Rightarrow> bool" where
  "keeps S B c c' \<longleftrightarrow> ch_announce c' = ch_announce c \<and> ch_moderation c' = ch_moderation c \<and> ch_password c' = ch_password c
     \<and> (\<forall>h. h \<notin> S \<longrightarrow> is_on c h \<longrightarrow> is_on c' h) \<and> (\<forall>h. h \<notin> B \<longrightarrow> map_of (ch_banned c') h = map_of (ch_banned c) h)"

lemma keeps_refl: "keeps S B c c"
  by (simp add: keeps_def)

lemma keeps_log: "keeps S B c c' \<Longrightarrow> only_log c' c'' \<Longrightarrow> keeps S B c c''"
  by (auto simp: keeps_def only_log_def is_on_def)

lemma keeps_let: "keeps S B c a \<Longrightarrow> (\<And>x. keeps S B c x \<Longrightarrow> keeps S B c (f x)) \<Longrightarrow> keeps S B c (let x = a :: channel in f x)"
  by (simp add: Let_def)

lemma keeps_let_value:
  "(\<And>x :: guid. keeps S B c (f x)) \<Longrightarrow> keeps S B c (let x = a in f x)"
  "(\<And>x :: bool. keeps S B c (g x)) \<Longrightarrow> keeps S B c (let x = b in g x)"
  "(\<And>x :: u8. keeps S B c (h x)) \<Longrightarrow> keeps S B c (let x = d in h x)"
  "(\<And>x :: u32. keeps S B c (k x)) \<Longrightarrow> keeps S B c (let x = v in k x)"
  by simp_all

lemma keeps_branch:
  "keeps S B c x \<Longrightarrow> keeps S B c y \<Longrightarrow> keeps S B c (if b then x else y)"
  "keeps S B c x \<Longrightarrow> (\<And>v. keeps S B c (f v)) \<Longrightarrow> keeps S B c (case r of None \<Rightarrow> x | Some v \<Rightarrow> f v)"
  "(\<And>u v. keeps S B c (g u v)) \<Longrightarrow> keeps S B c (case w of (u, v) \<Rightarrow> g u v)"
  by (auto split: option.splits prod.splits)

lemma keeps_change:
  "keeps S B c d \<Longrightarrow> keeps S B c (update_member g f d)" "keeps S B c d \<Longrightarrow> keeps S B c (remove_watching g d)"
  "keeps S B c d \<Longrightarrow> g \<in> S \<Longrightarrow> keeps S B c (erase_member g d)" "keeps S B c d \<Longrightarrow> keeps S B c (d\<lparr>ch_owner := g\<rparr>)"
  "keeps S B c d \<Longrightarrow> keeps S B c (d\<lparr>ch_owner_gm := b\<rparr>)" "keeps S B c d \<Longrightarrow> keeps S B c (add_watching p d)"
  "keeps S B c d \<Longrightarrow> g \<in> B \<Longrightarrow> keeps S B c (add_ban g t d)"
  by (auto simp: keeps_def is_on_def update_member_def remove_watching_def erase_member_def add_watching_def add_ban_def
      map_of_AList_update map_of_AList_delete)

lemma only_log_requests:
  "only_log c (send_who_owner e g c)" "only_log c (chan_list e p c)" "only_log c (invite e p n c)"
  "say e g what lang c = Some c' \<Longrightarrow> only_log c c'"
proof -
  show "only_log c (send_who_owner e g c)" by (simp add: send_who_owner_def only_log_sends)
  show "only_log c (chan_list e p c)" by (auto simp: chan_list_def only_log_sends intro: only_log_log split: option.splits)
  show "only_log c (invite e p n c)"
    by (auto simp: invite_def Let_def only_log_sends intro: only_log_trans [OF only_log_sends(2) only_log_sends(2)] split: option.splits)
  show "only_log c c'" if "say e g what lang c = Some c'"
    using that by (auto simp: say_def Let_def only_log_sends split: if_splits option.splits)
qed

lemmas keeps_rules = keeps_let keeps_let_value keeps_branch keeps_change
  only_log_sends [THEN keeps_log [rotated]] only_log_notify [THEN keeps_log [rotated]]
  only_log_db [THEN keeps_log [rotated]] only_log_log [THEN keeps_log [rotated]]

lemma keeps_set_owner: "keeps S B c d \<Longrightarrow> keeps S B c (set_owner_guid e g x d)"
  unfolding set_owner_guid_def unset_old_owner_def announce_owner_def by (intro keeps_rules) assumption+

lemma keeps_join: "keeps {} {} c (join_channel e p pass c)"
  unfolding join_channel_def join_custom_def
  by (intro keeps_rules keeps_set_owner) (assumption | rule keeps_refl)+

lemma keeps_leave: "keeps {pl_guid p} {} c (leave_channel e p send c)"
  unfolding leave_channel_def Let_def [of "pl_guid p"]
  by (intro keeps_rules keeps_set_owner) (assumption | rule keeps_refl | simp)+

lemma keeps_kick_execute: "keeps {v} (if ban then {v} else {}) c (kick_execute e p v isOn bad ban c)"
  unfolding kick_execute_def
  by (cases ban; simp only: if_True if_False; intro keeps_rules keeps_set_owner) (assumption | rule keeps_refl | simp)+

lemma keeps_set_mode: "keeps {} {} c (set_mode e p n md st c)"
  unfolding set_mode_def set_moderator_guid_def set_mute_guid_def
  by (intro keeps_rules) (assumption | rule keeps_refl)+

lemma keeps_set_owner_req: "keeps {} {} c (set_owner e p n c)"
  unfolding set_owner_def by (intro keeps_rules keeps_set_owner) (assumption | rule keeps_refl)+

section \<open>Who may change what\<close>

abbreviation in_charge :: "channel \<Rightarrow> player_info \<Rightarrow> bool" where
  "in_charge c p \<equiv> is_on c (pl_guid p) \<and> (is_moderator (member_at c (pl_guid p)) \<or> is_gm_account p)"

lemma kick_or_ban_cases:
  obtains "only_log c (kick_or_ban e p n ban c)"
  | v acc isOn bad where "in_charge c p" "kick_target e p n ban c = Inr (v, acc, isOn, bad)"
      "is_gm_account p \<or> is_constant_moderator c (pl_account p) \<or> kick_forbidden e p v acc bad ban c = Some None"
      "kick_or_ban e p n ban c = kick_execute e p v isOn bad ban c"
proof (cases "in_charge c p")
  case False
  then show ?thesis by (intro that(1)) (auto simp: kick_or_ban_def Let_def only_log_sends)
next
  case True
  show ?thesis
  proof (cases "kick_target e p n ban c")
    case (Inl r)
    then show ?thesis using True
      by (intro that(1)) (cases r; auto simp: kick_or_ban_def Let_def only_log_sends intro: only_log_log)
  next
    case (Inr t)
    obtain v acc isOn bad where t: "t = (v, acc, isOn, bad)" by (cases t) auto
    show ?thesis
    proof (cases "is_gm_account p \<or> is_constant_moderator c (pl_account p) \<or> kick_forbidden e p v acc bad ban c = Some None")
      case True
      then show ?thesis using \<open>in_charge c p\<close> Inr t by (intro that(2)) (auto simp: kick_or_ban_def Let_def)
    next
      case False
      then show ?thesis using \<open>in_charge c p\<close> Inr t
        by (intro that(1)) (auto simp: kick_or_ban_def Let_def only_log_sends intro: only_log_log split: option.splits)
    qed
  qed
qed

lemma only_log_keeps: "only_log c c' \<Longrightarrow> keeps S B c c'"
  by (rule keeps_log [OF keeps_refl])

lemma keepsD:
  assumes "keeps S B c c'"
  shows "ch_announce c' = ch_announce c" "ch_moderation c' = ch_moderation c" "ch_password c' = ch_password c"
    "h \<notin> S \<Longrightarrow> is_on c h \<Longrightarrow> is_on c' h" "h \<notin> B \<Longrightarrow> map_of (ch_banned c') h = map_of (ch_banned c) h"
  using assms by (auto simp: keeps_def)

text \<open>The requests of moderators change one thing, and only for those in charge.\<close>

lemma setting_requests:
  "only_log c (password e p pass c) \<or> in_charge c p \<and> only_log (c\<lparr>ch_password := pass\<rparr>) (password e p pass c)"
  "only_log c (announce e p c) \<or> in_charge c p \<and> only_log (c\<lparr>ch_announce := \<not> ch_announce c\<rparr>) (announce e p c)"
  "only_log c (toggle_moderation e p c) \<or> is_on c (pl_guid p)
     \<and> (is_moderator (member_at c (pl_guid p)) \<or> ce_gm_moderation e \<noteq> 0 \<and> ucast (pl_security p) \<ge> ce_gm_moderation e)
     \<and> only_log (c\<lparr>ch_moderation := \<not> ch_moderation c\<rparr>) (toggle_moderation e p c)"
  "only_log c (unban e p n c) \<or> in_charge c p
     \<and> only_log (c\<lparr>ch_banned := AList.delete (we_guid_of_name (ce_world e) n) (ch_banned c)\<rparr>) (unban e p n c)"
  "only_log c (unban_guid e g c) \<or> only_log (c\<lparr>ch_banned := AList.delete g (ch_banned c)\<rparr>) (unban_guid e g c)"
  by (auto simp: password_def announce_def toggle_moderation_def unban_def unban_guid_def Let_def only_log_sends
      intro: only_log_trans [OF only_log_sends(1) only_log_db(1)] only_log_trans [OF only_log_db(4) only_log_sends(1)] only_log_db)

lemma setting_requests_keep:
  "only_log (c\<lparr>ch_password := pass\<rparr>) c' \<Longrightarrow> is_on c h \<Longrightarrow> is_on c' h"
  "only_log (c\<lparr>ch_announce := b\<rparr>) c' \<Longrightarrow> is_on c h \<Longrightarrow> is_on c' h"
  "only_log (c\<lparr>ch_moderation := b\<rparr>) c' \<Longrightarrow> is_on c h \<Longrightarrow> is_on c' h"
  "only_log (c\<lparr>ch_banned := bs\<rparr>) c' \<Longrightarrow> is_on c h \<Longrightarrow> is_on c' h"
  by (auto simp: only_log_def is_on_def)

text \<open>Claim C15: a call takes a member off the channel only if it
  is his own leave, or the kick or ban of a member who is moderator or game master; and the owner
  is taken off only by himself, a game master or a permanent moderator of the channel.\<close>

theorem only_moderators_remove_members:
  assumes "chan_exec e cmd c = Some c'" "is_on c g" "\<not> is_on c' g"
  shows "(\<exists>p send. cmd = LeaveChannel p send \<and> pl_guid p = g)
    \<or> (\<exists>p n ban. cmd = KickOrBan p n ban \<and> is_on c (pl_guid p)
        \<and> (is_moderator (member_at c (pl_guid p)) \<or> is_gm_account p)
        \<and> (g = ch_owner c \<longrightarrow> pl_guid p = g \<or> is_gm_account p \<or> is_constant_moderator c (pl_account p)))"
proof -
  note x = assms(1)
  have *: False if "keeps {} B c c'" for B using keepsD(4) [OF that] assms(2,3) by simp
  have L: False if "only_log c c'" using * only_log_keeps [OF that] by blast
  have R: False if "only_log (c\<lparr>ch_password := w\<rparr>) c' \<or> only_log (c\<lparr>ch_announce := b\<rparr>) c'
      \<or> only_log (c\<lparr>ch_moderation := b\<rparr>) c' \<or> only_log (c\<lparr>ch_banned := bs\<rparr>) c'" for w b bs
    using that setting_requests_keep assms(2,3) by blast
  show ?thesis
  proof (cases cmd)
    case (LeaveChannel p send)
    then show ?thesis using x keepsD(4) [OF keeps_leave, of g p c e send] assms(2,3) by auto
  next
    case (KickOrBan p n ban)
    show ?thesis
    proof (rule kick_or_ban_cases [of c e p n ban])
      assume "only_log c (kick_or_ban e p n ban c)"
      then show ?thesis using L x KickOrBan by simp
    next
      fix v acc isOn bad
      assume a: "in_charge c p" "kick_target e p n ban c = Inr (v, acc, isOn, bad)"
        "is_gm_account p \<or> is_constant_moderator c (pl_account p) \<or> kick_forbidden e p v acc bad ban c = Some None"
        "kick_or_ban e p n ban c = kick_execute e p v isOn bad ban c"
      have "c' = kick_execute e p v isOn bad ban c" using x KickOrBan a(4) by simp
      then have "v = g" using keepsD(4) [OF keeps_kick_execute [where v = v and c = c and ban = ban], of g] assms(2,3) by auto
      then show ?thesis using a KickOrBan by (auto simp: kick_forbidden_def)
    qed
  next
    case (JoinChannel p pass)
    then show ?thesis using x * [of "{}"] keeps_join by fastforce
  qed (use x L R setting_requests only_log_requests * [of "{}"] keeps_set_mode keeps_set_owner_req keeps_change(2,6) [OF keeps_refl] in fastforce)+
qed

text \<open>A ban in force stays as it is through every call that lifts no ban.\<close>

definition lifts_ban :: "chan_cmd \<Rightarrow> bool" where
  "lifts_ban cmd \<longleftrightarrow> (case cmd of UnBan p n \<Rightarrow> True | UnBanGuid g \<Rightarrow> True | _ \<Rightarrow> False)"

lemma kick_execute_banned:
  assumes "is_banned e c v"
  shows "map_of (ch_banned (kick_execute e p w isOn bad ban c)) v = map_of (ch_banned c) v"
proof (cases "w = v \<and> ban")
  case False
  then show ?thesis using keepsD(5) [OF keeps_kick_execute] by (cases ban) auto
next
  case True
  have "keeps {v} {} c (kick_execute e p v isOn bad True c)"
    unfolding kick_execute_def if_True if_not_P [OF not_not [THEN iffD2, OF assms]]
    by (intro keeps_rules keeps_set_owner) (assumption | rule keeps_refl | simp)+
  then show ?thesis using True keepsD(5) [of "{v}" "{}" c _ v] by simp
qed

lemma exec_bans:
  assumes x: "chan_exec e cmd c = Some c'" and "\<not> lifts_ban cmd" and b: "is_banned e c v"
  shows "map_of (ch_banned c') v = map_of (ch_banned c) v"
proof -
  have K: ?thesis if "keeps S {} c c'" for S using keepsD(5) [OF that] by simp
  have L: ?thesis if "only_log c c'" using K only_log_keeps [OF that] by blast
  have R: ?thesis if "only_log (c\<lparr>ch_password := w\<rparr>) c' \<or> only_log (c\<lparr>ch_announce := b\<rparr>) c'
      \<or> only_log (c\<lparr>ch_moderation := b\<rparr>) c'" for w b
    using that by (auto simp: only_log_def)
  show ?thesis
  proof (cases cmd)
    case (KickOrBan p n ban)
    then show ?thesis using x L kick_execute_banned [OF b] by (auto elim: kick_or_ban_cases [of c e p n ban])
  next
    case (JoinChannel p pass)
    then show ?thesis using x K keeps_join by fastforce
  next
    case (LeaveChannel p send)
    then show ?thesis using x K keeps_leave by fastforce
  qed (use x L R assms(2) setting_requests only_log_requests K keeps_set_mode keeps_set_owner_req keeps_change(2,6) [OF keeps_refl]
    in \<open>fastforce simp: lifts_ban_def\<close>)+
qed

lemma path_bans:
  assumes "chan_path s cmds s'" "\<forall>cmd \<in> set cmds. \<not> lifts_ban cmd" "map_of (ch_banned (snd s)) v = Some t"
    "ce_time (fst s') < uint t"
  shows "map_of (ch_banned (snd s')) v = Some t \<and> ce_time (fst s) \<le> ce_time (fst s')"
  using assms
proof (induction rule: chan_path.induct)
  case (calls s cmd s' cmds s'')
  obtain e c where s: "s = (e, c)" by (cases s)
  obtain e' c' where s': "s' = (e', c')" by (cases s')
  have step: "ce_time e \<le> ce_time e'" "chan_exec e' cmd c = Some c'"
    using calls.hyps(1) s s' by (simp_all add: chan_step_iff)
  show ?case
  proof (cases "ce_time e' < uint t")
    case True
    then have "is_banned e' c v" using calls.prems(2) s by (simp add: is_banned_def)
    with exec_bans [OF step(2)] calls.prems s have "map_of (ch_banned c') v = Some t" by simp
    then show ?thesis using calls.IH calls.prems s s' step(1) by simp
  next
    case False
    have "ce_time (fst s') \<le> ce_time (fst s'')" using calls.hyps(2)
      by (induction rule: chan_path.induct) (auto elim!: chan_step.cases)
    then show ?thesis using False calls.prems(3) s' by simp
  qed
qed simp

lemma path_reach: "chan_path s cmds s' \<Longrightarrow> chan_reach (fst s) (snd s) \<Longrightarrow> chan_reach (fst s') (snd s')"
proof (induction rule: chan_path.induct)
  case (calls s cmd s' cmds s'')
  then show ?case using chan_reach.stepped by (cases s; cases s') fastforce
qed simp

end
