(* ===== verification/WideText.thy ===== *)
theory WideText
  imports Utf8
begin

unbundle bit_operations_syntax

text \<open>
  Wide strings: the conversions of deps/utf8cpp/utf8/checked.h and src/common/Utilities/Util.cpp
  between UTF-8 and UTF-16, the classes of characters and the case mappings of Util.h. A
  \<open>wchar_t\<close> has 32 bits here, as on Linux; the conversions only store 16-bit units in it. An
  exception of utf8cpp is \<open>None\<close>.
\<close>

type_synonym wide = "u32 list"

section \<open>Code points and units\<close>

definition LEAD_SURROGATE_MIN :: u32 where "LEAD_SURROGATE_MIN = 0xd800"
definition LEAD_SURROGATE_MAX :: u32 where "LEAD_SURROGATE_MAX = 0xdbff"
definition TRAIL_SURROGATE_MIN :: u32 where "TRAIL_SURROGATE_MIN = 0xdc00"
definition TRAIL_SURROGATE_MAX :: u32 where "TRAIL_SURROGATE_MAX = 0xdfff"
definition LEAD_OFFSET :: u32 where "LEAD_OFFSET = 0xd7c0"
definition SURROGATE_OFFSET :: u32 where "SURROGATE_OFFSET = 0xfca02400"

definition mask16 :: "u32 \<Rightarrow> u32" where
  "mask16 oc = 0xffff AND oc"

definition is_lead_surrogate :: "u32 \<Rightarrow> bool" where
  "is_lead_surrogate cp \<longleftrightarrow> cp \<ge> LEAD_SURROGATE_MIN \<and> cp \<le> LEAD_SURROGATE_MAX"

definition is_trail_surrogate :: "u32 \<Rightarrow> bool" where
  "is_trail_surrogate cp \<longleftrightarrow> cp \<ge> TRAIL_SURROGATE_MIN \<and> cp \<le> TRAIL_SURROGATE_MAX"

text \<open>The bytes \<open>append\<close> writes.\<close>

definition append_cp :: "u32 \<Rightarrow> bytes option" where
  "append_cp cp =
     (if \<not> is_code_point_valid cp then None
      else if cp < 0x80 then Some [ucast cp]
      else if cp < 0x800 then Some [ucast (drop_bit 6 cp OR 0xc0), ucast ((cp AND 0x3f) OR 0x80)]
      else if cp < 0x10000
      then Some [ucast (drop_bit 12 cp OR 0xe0), ucast ((drop_bit 6 cp AND 0x3f) OR 0x80), ucast ((cp AND 0x3f) OR 0x80)]
      else Some [ucast (drop_bit 18 cp OR 0xf0), ucast ((drop_bit 12 cp AND 0x3f) OR 0x80),
             ucast ((drop_bit 6 cp AND 0x3f) OR 0x80), ucast ((cp AND 0x3f) OR 0x80)])"

definition next_cp :: "bytes \<Rightarrow> (u32 \<times> bytes) option" where
  "next_cp it = (case validate_next it of Inl _ \<Rightarrow> None | Inr p \<Rightarrow> Some p)"

lemma next_cp_shorter: "next_cp it = Some (cp, r) \<Longrightarrow> length r < length it"
  by (auto simp: next_cp_def split: sum.splits dest: validate_next_shorter)

section \<open>Encoding and decoding in numbers\<close>

lemma or_add:
  fixes x y :: "'a::len word"
  assumes "take_bit k x = x" "take_bit k y = 0"
  shows "x OR y = x + y"
proof -
  have "x AND y = x AND take_bit k y" using assms(1) by (metis and.assoc and.commute take_bit_eq_mask)
  then have "x AND y = 0" using assms(2) by simp
  then show ?thesis by (simp add: disjunctive_add_eq_or)
qed

lemma unat_and_mask: "unat (x AND 0x3f :: u32) = unat x mod 64"
proof -
  have "x AND 0x3f = take_bit 6 x" by (simp add: take_bit_eq_mask mask_eq_exp_minus_1)
  then have "unat (x AND 0x3f) = take_bit 6 (unat x)" by (simp only: unsigned_take_bit_eq)
  then show ?thesis by (simp add: take_bit_eq_mod)
qed

lemma unat_or_lead:
  fixes x :: u32
  shows "unat x < 64 \<Longrightarrow> unat (x OR 0x80) = unat x + 128" "unat x < 64 \<Longrightarrow> unat (x OR 0xc0) = unat x + 192"
    "unat x < 32 \<Longrightarrow> unat (x OR 0xe0) = unat x + 224" "unat x < 16 \<Longrightarrow> unat (x OR 0xf0) = unat x + 240"
proof -
  have t: "take_bit k x = x" if "unat x < 2 ^ k" for k
    using that unfolding word_unat_eq_iff unsigned_take_bit_eq by (simp add: take_bit_eq_mod)
  show "unat (x OR 0x80) = unat x + 128" if "unat x < 64"
    using that or_add [OF t [of 6], of "0x80"] by (simp add: unat_plus_simple word_le_nat_alt unat_word_ariths)
  show "unat (x OR 0xc0) = unat x + 192" if "unat x < 64"
    using that or_add [OF t [of 6], of "0xc0"] by (simp add: unat_word_ariths)
  show "unat (x OR 0xe0) = unat x + 224" if "unat x < 32"
    using that or_add [OF t [of 5], of "0xe0"] by (simp add: unat_word_ariths)
  show "unat (x OR 0xf0) = unat x + 240" if "unat x < 16"
    using that or_add [OF t [of 4], of "0xf0"] by (simp add: unat_word_ariths)
qed

lemma unat_ucast_byte: "unat (x :: u32) < 256 \<Longrightarrow> unat (ucast x :: u8) = unat x"
  unfolding unsigned_ucast_eq by (simp add: take_bit_eq_mod)

lemma unat_drop: "unat (drop_bit k (x :: 'a::len word)) = unat x div 2 ^ k"
  unfolding unsigned_drop_bit_eq by (simp add: drop_bit_eq_div take_bit_nat_eq_self unsigned_less)

text \<open>The encoding of a code point, as numbers.\<close>

definition encode :: "nat \<Rightarrow> nat list" where
  "encode n =
     (if n < 0x80 then [n]
      else if n < 0x800 then [192 + n div 64, 128 + n mod 64]
      else if n < 0x10000 then [224 + n div 4096, 128 + n div 64 mod 64, 128 + n mod 64]
      else [240 + n div 262144, 128 + n div 4096 mod 64, 128 + n div 64 mod 64, 128 + n mod 64])"

lemma append_encode:
  assumes "is_code_point_valid cp"
  shows "map_option (map unat) (append_cp cp) = Some (encode (unat cp))"
proof -
  have v: "unat cp \<le> 0x10ffff" using assms by (simp add: is_code_point_valid_def word_le_nat_alt)
  consider "unat cp < 0x80" | "0x80 \<le> unat cp" "unat cp < 0x800" | "0x800 \<le> unat cp" "unat cp < 0x10000" | "0x10000 \<le> unat cp"
    by linarith
  then show ?thesis
  proof cases
    case 1
    then show ?thesis using assms by (simp add: append_cp_def encode_def word_less_nat_alt unat_ucast_byte)
  next
    case 2
    have "unat (drop_bit 6 cp) < 64" "unat (cp AND 0x3f) < 64" using 2 by (simp_all add: unat_drop unat_and_mask)
    then show ?thesis using 2 assms
      by (simp add: append_cp_def encode_def word_less_nat_alt unat_ucast_byte unat_or_lead unat_drop unat_and_mask)
  next
    case 3
    have "unat (drop_bit 12 cp) < 32" "unat (drop_bit 6 cp AND 0x3f) < 64" "unat (cp AND 0x3f) < 64"
      using 3 by (simp_all add: unat_drop unat_and_mask)
    then show ?thesis using 3 assms
      by (simp add: append_cp_def encode_def word_less_nat_alt unat_ucast_byte unat_or_lead unat_drop unat_and_mask)
  next
    case 4
    have "unat (drop_bit 18 cp) < 16" "unat (drop_bit 12 cp AND 0x3f) < 64" "unat (drop_bit 6 cp AND 0x3f) < 64"
      "unat (cp AND 0x3f) < 64"
      using 4 v by (simp_all add: unat_drop unat_and_mask)
    then show ?thesis using 4 assms
      by (simp add: append_cp_def encode_def word_less_nat_alt unat_ucast_byte unat_or_lead unat_drop unat_and_mask)
  qed
qed

text \<open>The parts of \<open>validate_next\<close>, as numbers.\<close>

lemma is_trail_nat: "is_trail b \<longleftrightarrow> 128 \<le> unat b \<and> unat b < 192"
proof -
  have "is_trail b \<longleftrightarrow> unat b div 64 = 2" by (simp add: is_trail_def word_unat_eq_iff unat_drop)
  then show ?thesis by arith
qed

lemma sequence_length_nat:
  "sequence_length b = (if unat b < 128 then 1 else if 192 \<le> unat b \<and> unat b < 224 then 2
     else if 224 \<le> unat b \<and> unat b < 240 then 3 else if 240 \<le> unat b \<and> unat b < 248 then 4 else 0)"
proof -
  have "drop_bit 5 b = 6 \<longleftrightarrow> unat b div 32 = 6" "drop_bit 4 b = 0xe \<longleftrightarrow> unat b div 16 = 14"
    "drop_bit 3 b = 0x1e \<longleftrightarrow> unat b div 8 = 30" by (simp_all add: word_unat_eq_iff unat_drop)
  moreover have "unat b div 32 = 6 \<longleftrightarrow> 192 \<le> unat b \<and> unat b < 224" "unat b div 16 = 14 \<longleftrightarrow> 224 \<le> unat b \<and> unat b < 240"
    "unat b div 8 = 30 \<longleftrightarrow> 240 \<le> unat b \<and> unat b < 248" by arith+
  ultimately show ?thesis by (simp add: sequence_length_def word_less_nat_alt)
qed

lemma increase_safely_iff:
  "increase_safely it = Inr it' \<longleftrightarrow> (\<exists>a. it = a # it') \<and> (\<exists>b r. it' = b # r \<and> is_trail b)"
  by (cases it) (auto simp: increase_safely_def split: list.splits)

lemma and_masks:
  "unat (x AND 0x7ff :: u32) = unat x mod 2048" "unat (x AND 0xffff :: u32) = unat x mod 65536"
  "unat (x AND 0xfff :: u32) = unat x mod 4096" "unat (x AND 0x1fffff :: u32) = unat x mod 2097152"
  "unat (x AND 0x3ffff :: u32) = unat x mod 262144"
proof -
  have "x AND 0x7ff = take_bit 11 x" "x AND 0xffff = take_bit 16 x" "x AND 0xfff = take_bit 12 x"
    "x AND 0x1fffff = take_bit 21 x" "x AND 0x3ffff = take_bit 18 x"
    by (simp_all add: take_bit_eq_mask mask_eq_exp_minus_1)
  then have "unat (x AND 0x7ff) = take_bit 11 (unat x)" "unat (x AND 0xffff) = take_bit 16 (unat x)"
    "unat (x AND 0xfff) = take_bit 12 (unat x)" "unat (x AND 0x1fffff) = take_bit 21 (unat x)"
    "unat (x AND 0x3ffff) = take_bit 18 (unat x)" by (simp_all only: unsigned_take_bit_eq)
  then show "unat (x AND 0x7ff :: u32) = unat x mod 2048" "unat (x AND 0xffff :: u32) = unat x mod 65536"
    "unat (x AND 0xfff :: u32) = unat x mod 4096" "unat (x AND 0x1fffff :: u32) = unat x mod 2097152"
    "unat (x AND 0x3ffff :: u32) = unat x mod 262144"
    by (simp_all add: take_bit_eq_mod)
qed

lemma unat_octet: "unat (octet (b # r)) = unat b"
  by (simp add: octet_def unat_ucast_up)

lemma unat_push: "unat (push_bit k (x :: u32)) = (unat x * 2 ^ k) mod 2 ^ 32"
  unfolding unsigned_push_bit_eq by (simp add: take_bit_eq_mod push_bit_eq_mult)

lemma add_small: "unat (x :: u32) = m \<Longrightarrow> unat y = n \<Longrightarrow> m + n < 2 ^ 32 \<Longrightarrow> unat (x + y) = m + n"
  by (simp add: unat_word_ariths)

lemma trail_part: "128 \<le> unat b \<Longrightarrow> unat b < 192 \<Longrightarrow> unat (octet (b # r) AND 0x3f) = unat b - 128"
proof -
  assume "128 \<le> unat b" "unat b < 192"
  then obtain k where "unat b = 128 + k" "k < 64" using le_Suc_ex by force
  moreover have "(k + 2 * 64) mod 64 = k" if "k < 64" for k :: nat using that by (simp only: mod_mult_self1) simp
  ultimately show ?thesis unfolding unat_and_mask unat_octet by (simp add: add.commute)
qed

lemma mod_shift: "(m :: nat) < q \<Longrightarrow> (j * q + m) mod q = m"
  by simp

text \<open>The bytes of a sequence at their place in the code point.\<close>

lemma placed:
  shows "192 \<le> unat a \<Longrightarrow> unat a < 224 \<Longrightarrow> unat (push_bit 6 (octet (a # r)) AND 0x7ff) = (unat a - 192) * 64"
    "224 \<le> unat a \<Longrightarrow> unat a < 240 \<Longrightarrow> unat (push_bit 12 (octet (a # r)) AND 0xffff) = (unat a - 224) * 4096"
    "240 \<le> unat a \<Longrightarrow> unat a < 248 \<Longrightarrow> unat (push_bit 18 (octet (a # r)) AND 0x1fffff) = (unat a - 240) * 262144"
    "128 \<le> unat a \<Longrightarrow> unat a < 192 \<Longrightarrow> unat (push_bit 6 (octet (a # r)) AND 0xfff) = (unat a - 128) * 64"
    "128 \<le> unat a \<Longrightarrow> unat a < 192 \<Longrightarrow> unat (push_bit 12 (octet (a # r)) AND 0x3ffff) = (unat a - 128) * 4096"
proof -
  have b: "\<exists>k. unat a = m + k \<and> k < n" if "m \<le> unat a" "unat a < m + n" for m n
    using that le_Suc_ex by force
  show "unat (push_bit 6 (octet (a # r)) AND 0x7ff) = (unat a - 192) * 64" if "192 \<le> unat a" "unat a < 224"
  proof -
    obtain k where "unat a = 192 + k" "k < 32" using b [of 192 32] \<open>192 \<le> unat a\<close> \<open>unat a < 224\<close> by auto
    then show ?thesis using mod_shift [of "k * 64" 2048 6] unfolding and_masks unat_push unat_octet by simp
  qed
  show "unat (push_bit 12 (octet (a # r)) AND 0xffff) = (unat a - 224) * 4096" if "224 \<le> unat a" "unat a < 240"
  proof -
    obtain k where "unat a = 224 + k" "k < 16" using b [of 224 16] \<open>224 \<le> unat a\<close> \<open>unat a < 240\<close> by auto
    then show ?thesis using mod_shift [of "k * 4096" 65536 14] unfolding and_masks unat_push unat_octet by simp
  qed
  show "unat (push_bit 18 (octet (a # r)) AND 0x1fffff) = (unat a - 240) * 262144" if "240 \<le> unat a" "unat a < 248"
  proof -
    obtain k where "unat a = 240 + k" "k < 8" using b [of 240 8] \<open>240 \<le> unat a\<close> \<open>unat a < 248\<close> by auto
    then show ?thesis using mod_shift [of "k * 262144" 2097152 30] unfolding and_masks unat_push unat_octet by simp
  qed
  show "unat (push_bit 6 (octet (a # r)) AND 0xfff) = (unat a - 128) * 64"
    "unat (push_bit 12 (octet (a # r)) AND 0x3ffff) = (unat a - 128) * 4096" if a: "128 \<le> unat a" "unat a < 192"
  proof -
    obtain k where "unat a = 128 + k" "k < 64" using b [of 128 64] a by auto
    then show "unat (push_bit 6 (octet (a # r)) AND 0xfff) = (unat a - 128) * 64"
        "unat (push_bit 12 (octet (a # r)) AND 0x3ffff) = (unat a - 128) * 4096"
      using mod_shift [of "k * 64" 4096 2] mod_shift [of "k * 4096" 262144 2] unfolding and_masks unat_push unat_octet
      by simp_all
  qed
qed

section \<open>Decoding inverts encoding\<close>

lemma valid_nat: "is_code_point_valid cp \<longleftrightarrow> unat cp \<le> 0x10ffff \<and> \<not> (0xd800 \<le> unat cp \<and> unat cp \<le> 0xdfff)"
  by (simp add: is_code_point_valid_def is_surrogate_def word_le_nat_alt)

lemma overlong_nat: "is_overlong_sequence cp len =
  (if unat cp < 0x80 then len \<noteq> 1 else if unat cp < 0x800 then len \<noteq> 2 else if unat cp < 0x10000 then len \<noteq> 3 else False)"
  by (simp add: is_overlong_sequence_def word_less_nat_alt)

lemma get_sequence_values:
  "get_sequence_2 it = Inr (cp, it') \<Longrightarrow> 192 \<le> unat (hd it) \<Longrightarrow> unat (hd it) < 224 \<Longrightarrow>
     \<exists>a b r. it = [a, b] @ r \<and> it' = b # r \<and> is_trail b \<and> unat cp = (unat a - 192) * 64 + (unat b - 128)"
  "get_sequence_3 it = Inr (cp, it') \<Longrightarrow> 224 \<le> unat (hd it) \<Longrightarrow> unat (hd it) < 240 \<Longrightarrow>
     \<exists>a b c r. it = [a, b, c] @ r \<and> it' = c # r \<and> is_trail b \<and> is_trail c
       \<and> unat cp = (unat a - 224) * 4096 + (unat b - 128) * 64 + (unat c - 128)"
  "get_sequence_4 it = Inr (cp, it') \<Longrightarrow> 240 \<le> unat (hd it) \<Longrightarrow> unat (hd it) < 248 \<Longrightarrow>
     \<exists>a b c d r. it = [a, b, c, d] @ r \<and> it' = d # r \<and> is_trail b \<and> is_trail c \<and> is_trail d
       \<and> unat cp = (unat a - 240) * 262144 + (unat b - 128) * 4096 + (unat c - 128) * 64 + (unat d - 128)"
proof -
  show "\<exists>a b r. it = [a, b] @ r \<and> it' = b # r \<and> is_trail b \<and> unat cp = (unat a - 192) * 64 + (unat b - 128)"
    if g: "get_sequence_2 it = Inr (cp, it')" and a: "192 \<le> unat (hd it)" "unat (hd it) < 224"
  proof -
    obtain x b r where it: "it = x # b # r" "it' = b # r" "is_trail b"
      "cp = (push_bit 6 (octet (x # b # r)) AND 0x7ff) + (octet (b # r) AND 0x3f)"
      using g by (auto simp: get_sequence_2_def res_bind_Inr_iff increase_safely_iff split: if_splits)
    have "unat cp = (unat x - 192) * 64 + (unat b - 128)"
      unfolding it(4) using a it(1,3) by (intro add_small placed trail_part) (simp_all add: is_trail_nat, arith+)
    then show ?thesis using it by auto
  qed
  show "\<exists>a b c r. it = [a, b, c] @ r \<and> it' = c # r \<and> is_trail b \<and> is_trail c
       \<and> unat cp = (unat a - 224) * 4096 + (unat b - 128) * 64 + (unat c - 128)"
    if g: "get_sequence_3 it = Inr (cp, it')" and a: "224 \<le> unat (hd it)" "unat (hd it) < 240"
  proof -
    obtain x b c r where it: "it = x # b # c # r" "it' = c # r" "is_trail b" "is_trail c"
      "cp = (push_bit 12 (octet (x # b # c # r)) AND 0xffff) + (push_bit 6 (octet (b # c # r)) AND 0xfff) + (octet (c # r) AND 0x3f)"
      using g by (auto simp: get_sequence_3_def res_bind_Inr_iff increase_safely_iff Let_def split: if_splits)
    have "unat cp = (unat x - 224) * 4096 + (unat b - 128) * 64 + (unat c - 128)"
      unfolding it(5) using a it(1,3,4) by (intro add_small placed trail_part) (simp_all add: is_trail_nat, arith+)
    then show ?thesis using it by auto
  qed
  show "\<exists>a b c d r. it = [a, b, c, d] @ r \<and> it' = d # r \<and> is_trail b \<and> is_trail c \<and> is_trail d
       \<and> unat cp = (unat a - 240) * 262144 + (unat b - 128) * 4096 + (unat c - 128) * 64 + (unat d - 128)"
    if g: "get_sequence_4 it = Inr (cp, it')" and a: "240 \<le> unat (hd it)" "unat (hd it) < 248"
  proof -
    obtain x b c d r where it: "it = x # b # c # d # r" "it' = d # r" "is_trail b" "is_trail c" "is_trail d"
      "cp = (push_bit 18 (octet (x # b # c # d # r)) AND 0x1fffff) + (push_bit 12 (octet (b # c # d # r)) AND 0x3ffff)
        + (push_bit 6 (octet (c # d # r)) AND 0xfff) + (octet (d # r) AND 0x3f)"
      using g by (auto simp: get_sequence_4_def res_bind_Inr_iff increase_safely_iff Let_def split: if_splits)
    have "unat cp = (unat x - 240) * 262144 + (unat b - 128) * 4096 + (unat c - 128) * 64 + (unat d - 128)"
      unfolding it(6) using a it(1,3,4,5) by (intro add_small placed trail_part) (simp_all add: is_trail_nat, arith+)
    then show ?thesis using it by auto
  qed
qed

lemma digits: "(k :: nat) < 64 \<Longrightarrow> (k + m * 64) div 64 = m" "k < 64 \<Longrightarrow> (k + m * 64) mod 64 = k"
  by simp_all

text \<open>What the validation accepts is the encoding of a valid code point, and every such encoding
  is accepted.\<close>

lemma cp_decode_encode:
  assumes "validate_next it = Inr (cp, r)"
  shows "\<exists>bs. it = bs @ r \<and> map unat bs = encode (unat cp) \<and> is_code_point_valid cp"
proof -
  define len where "len = sequence_length (hd it)"
  have v: "is_code_point_valid cp" "\<not> is_overlong_sequence cp len" and ne: "it \<noteq> []" and len0: "len \<noteq> 0"
    using assms by (auto simp: validate_next_def Let_def res_bind_Inr_iff len_def split: if_splits)
  obtain it' where g: "(if len = 1 then get_sequence_1 it else if len = 2 then get_sequence_2 it
      else if len = 3 then get_sequence_3 it else get_sequence_4 it) = Inr (cp, it')" "r = tl it'"
    using assms by (auto simp: validate_next_def Let_def res_bind_Inr_iff len_def split: if_splits)
  have nv: "unat cp \<le> 0x10ffff" using v(1) by (simp add: valid_nat)
  consider "len = 1" "unat (hd it) < 128" | "len = 2" "192 \<le> unat (hd it)" "unat (hd it) < 224"
    | "len = 3" "224 \<le> unat (hd it)" "unat (hd it) < 240" | "len = 4" "240 \<le> unat (hd it)" "unat (hd it) < 248"
    using len0 by (auto simp: len_def sequence_length_nat split: if_splits)
  then show ?thesis
  proof cases
    case 1
    then obtain a where "it = a # r" "cp = ucast a"
      using g ne by (cases it) (auto simp: get_sequence_1_def octet_def)
    then show ?thesis using 1 v(1) by (intro exI [of _ "[a]"]) (simp add: encode_def unat_ucast_up)
  next
    case 2
    then obtain a b where s: "it = [a, b] @ r" "is_trail b" "unat cp = (unat a - 192) * 64 + (unat b - 128)"
      using g get_sequence_values(1) [of it cp it'] by auto
    obtain i j where ij: "unat a = 192 + i" "unat b = 128 + j" "i < 32" "j < 64"
      using 2 s(1,2) by (auto simp: is_trail_nat dest!: le_Suc_ex)
    then have cp: "unat cp = j + i * 64" using s(3) by simp
    have "0x80 \<le> unat cp" using v(2) 2 by (auto simp: overlong_nat split: if_splits)
    moreover have "unat cp < 0x800" using cp ij by simp
    moreover have "unat cp div 64 = i" "unat cp mod 64 = j" unfolding cp using ij by (simp_all only: digits)
    ultimately have "map unat [a, b] = encode (unat cp)" using ij by (simp add: encode_def)
    then show ?thesis using s(1) v(1) by blast
  next
    case 3
    then obtain a b c where s: "it = [a, b, c] @ r" "is_trail b" "is_trail c"
        "unat cp = (unat a - 224) * 4096 + (unat b - 128) * 64 + (unat c - 128)"
      using g get_sequence_values(2) [of it cp it'] by auto
    obtain i j k where ij: "unat a = 224 + i" "unat b = 128 + j" "unat c = 128 + k" "i < 16" "j < 64" "k < 64"
      using 3 s(1-3) by (auto simp: is_trail_nat dest!: le_Suc_ex)
    then have cp: "unat cp = k + (j + i * 64) * 64" using s(4) by simp
    have "0x800 \<le> unat cp" using v(2) 3 by (auto simp: overlong_nat split: if_splits)
    moreover have "unat cp < 0x10000" using cp ij by simp
    moreover have d: "unat cp div 64 = j + i * 64" "unat cp mod 64 = k" unfolding cp using ij by (simp_all only: digits)
    moreover have "unat cp div 4096 = i" "unat cp div 64 mod 64 = j"
    proof -
      have "unat cp div 4096 = unat cp div 64 div 64" by (simp add: div_mult2_eq [symmetric])
      then show "unat cp div 4096 = i" "unat cp div 64 mod 64 = j" unfolding d using ij by (simp_all only: digits)
    qed
    ultimately have "map unat [a, b, c] = encode (unat cp)" using ij by (simp add: encode_def)
    then show ?thesis using s(1) v(1) by blast
  next
    case 4
    then obtain a b c d where s: "it = [a, b, c, d] @ r" "is_trail b" "is_trail c" "is_trail d"
        "unat cp = (unat a - 240) * 262144 + (unat b - 128) * 4096 + (unat c - 128) * 64 + (unat d - 128)"
      using g get_sequence_values(3) [of it cp it'] by auto
    obtain i j k l where ij: "unat a = 240 + i" "unat b = 128 + j" "unat c = 128 + k" "unat d = 128 + l"
      "i < 8" "j < 64" "k < 64" "l < 64"
      using 4 s(1-4) by (auto simp: is_trail_nat dest!: le_Suc_ex)
    then have cp: "unat cp = l + (k + (j + i * 64) * 64) * 64" using s(5) by simp
    have "0x10000 \<le> unat cp" using v(2) 4 by (auto simp: overlong_nat split: if_splits)
    moreover have d1: "unat cp div 64 = k + (j + i * 64) * 64" "unat cp mod 64 = l" unfolding cp using ij by (simp_all only: digits)
    moreover have d2: "unat cp div 4096 = j + i * 64" "unat cp div 64 mod 64 = k"
    proof -
      have "unat cp div 4096 = unat cp div 64 div 64" by (simp add: div_mult2_eq [symmetric])
      then show "unat cp div 4096 = j + i * 64" "unat cp div 64 mod 64 = k" unfolding d1 using ij by (simp_all only: digits)
    qed
    moreover have "unat cp div 262144 = i" "unat cp div 4096 mod 64 = j"
    proof -
      have "unat cp div 262144 = unat cp div 4096 div 64" by (simp add: div_mult2_eq [symmetric])
      then show "unat cp div 262144 = i" "unat cp div 4096 mod 64 = j" unfolding d2 using ij by (simp_all only: digits)
    qed
    ultimately have "map unat [a, b, c, d] = encode (unat cp)" using ij by (simp add: encode_def)
    then show ?thesis using s(1) v(1) by blast
  qed
qed

lemma unat_map_inj: "map unat (xs :: 'a::len word list) = map unat ys \<longleftrightarrow> xs = ys"
  by (rule inj_map_eq_map) (simp add: inj_on_def word_unat_eq_iff)

lemma append_decode: "validate_next it = Inr (cp, r) \<Longrightarrow> \<exists>bs. append_cp cp = Some bs \<and> it = bs @ r"
proof -
  assume "validate_next it = Inr (cp, r)"
  from cp_decode_encode [OF this] obtain bs where bs: "it = bs @ r" "map unat bs = encode (unat cp)" "is_code_point_valid cp"
    by blast
  from append_encode [OF bs(3)] obtain cs where cs: "append_cp cp = Some cs" "map unat cs = encode (unat cp)" by auto
  then have "cs = bs" using bs(2) unat_map_inj [of cs bs] by simp
  with bs(1) cs(1) show ?thesis by blast
qed

lemma append_some: "is_code_point_valid cp \<longleftrightarrow> append_cp cp \<noteq> None"
  by (simp add: append_cp_def)

lemma recompose:
  "n div 4096 * 4096 + n div 64 mod 64 * 64 + n mod 64 = (n :: nat)"
  "n div 262144 * 262144 + n div 4096 mod 64 * 4096 + n div 64 mod 64 * 64 + n mod 64 = n"
proof -
  have d: "n div 64 div 64 = n div 4096" "n div 4096 div 64 = n div 262144" by (simp_all add: div_mult2_eq [symmetric])
  have "n = n div 64 * 64 + n mod 64" "n div 64 = n div 4096 * 64 + n div 64 mod 64"
    "n div 4096 = n div 262144 * 64 + n div 4096 mod 64"
    using div_mult_mod_eq [of n 64] div_mult_mod_eq [of "n div 64" 64] div_mult_mod_eq [of "n div 4096" 64]
    unfolding d by simp_all
  then show "n div 4096 * 4096 + n div 64 mod 64 * 64 + n mod 64 = n"
    "n div 262144 * 262144 + n div 4096 mod 64 * 4096 + n div 64 mod 64 * 64 + n mod 64 = n" by linarith+
qed

lemma encode_decode:
  assumes a: "append_cp cp = Some bs"
  shows "validate_next (bs @ r) = Inr (cp, r)"
proof -
  have v: "is_code_point_valid cp" using a append_some by auto
  have n: "map unat bs = encode (unat cp)" using append_encode [OF v] a by simp
  have nv: "unat cp \<le> 0x10ffff" using v by (simp add: valid_nat)
  have fin: "validate_next (bs @ r) = Inr (cp, r)"
    if "bs \<noteq> []" "sequence_length (hd bs) = len" "len \<noteq> 0" "\<not> is_overlong_sequence cp len"
      "(if len = 1 then get_sequence_1 (bs @ r) else if len = 2 then get_sequence_2 (bs @ r)
        else if len = 3 then get_sequence_3 (bs @ r) else get_sequence_4 (bs @ r)) = Inr (cp, last bs # r)" for len
    using that v by (simp add: validate_next_def Let_def)
  consider "unat cp < 0x80" | "0x80 \<le> unat cp" "unat cp < 0x800" | "0x800 \<le> unat cp" "unat cp < 0x10000" | "0x10000 \<le> unat cp"
    by linarith
  then show ?thesis
  proof cases
    case 1
    then obtain a where b: "bs = [a]" "unat a = unat cp" using n by (auto simp: encode_def)
    then have "octet (a # r) = cp" by (simp add: word_unat_eq_iff unat_octet)
    then show ?thesis using b 1 by (intro fin [of 1]) (simp_all add: sequence_length_nat overlong_nat get_sequence_1_def)
  next
    case 2
    then obtain a b where b: "bs = [a, b]" "unat a = 192 + unat cp div 64" "unat b = 128 + unat cp mod 64"
      using n by (auto simp: encode_def)
    have bd: "192 \<le> unat a" "unat a < 224" "128 \<le> unat b" "unat b < 192" using b 2 by auto
    have "unat ((push_bit 6 (octet (a # b # r)) AND 0x7ff) + (octet (b # r) AND 0x3f)) = (unat a - 192) * 64 + (unat b - 128)"
      using bd by (intro add_small placed trail_part) simp_all
    also have "\<dots> = unat cp" using b by simp
    finally have "get_sequence_2 (bs @ r) = Inr (cp, b # r)"
      using b bd by (simp add: get_sequence_2_def increase_safely_def is_trail_nat word_unat_eq_iff)
    then show ?thesis using b bd 2 by (intro fin [of 2]) (simp_all add: sequence_length_nat overlong_nat)
  next
    case 3
    then obtain a b c where b: "bs = [a, b, c]" "unat a = 224 + unat cp div 4096" "unat b = 128 + unat cp div 64 mod 64"
        "unat c = 128 + unat cp mod 64"
      using n by (auto simp: encode_def)
    have bd: "224 \<le> unat a" "unat a < 240" "128 \<le> unat b" "unat b < 192" "128 \<le> unat c" "unat c < 192" using b 3 by auto
    have "unat ((push_bit 12 (octet (a # b # c # r)) AND 0xffff) + (push_bit 6 (octet (b # c # r)) AND 0xfff)
        + (octet (c # r) AND 0x3f)) = (unat a - 224) * 4096 + (unat b - 128) * 64 + (unat c - 128)"
      using bd by (intro add_small placed trail_part) simp_all
    also have "\<dots> = unat cp" using b recompose(1) [of "unat cp"] by simp
    finally have "get_sequence_3 (bs @ r) = Inr (cp, c # r)"
      using b bd by (simp add: get_sequence_3_def increase_safely_def is_trail_nat word_unat_eq_iff)
    then show ?thesis using b bd 3 by (intro fin [of 3]) (simp_all add: sequence_length_nat overlong_nat)
  next
    case 4
    then obtain a b c d where b: "bs = [a, b, c, d]" "unat a = 240 + unat cp div 262144"
        "unat b = 128 + unat cp div 4096 mod 64" "unat c = 128 + unat cp div 64 mod 64" "unat d = 128 + unat cp mod 64"
      using n by (auto simp: encode_def)
    have bd: "240 \<le> unat a" "unat a < 248" "128 \<le> unat b" "unat b < 192" "128 \<le> unat c" "unat c < 192"
      "128 \<le> unat d" "unat d < 192" using b 4 nv by auto
    have "unat ((push_bit 18 (octet (a # b # c # d # r)) AND 0x1fffff) + (push_bit 12 (octet (b # c # d # r)) AND 0x3ffff)
        + (push_bit 6 (octet (c # d # r)) AND 0xfff) + (octet (d # r) AND 0x3f))
        = (unat a - 240) * 262144 + (unat b - 128) * 4096 + (unat c - 128) * 64 + (unat d - 128)"
      using bd by (intro add_small placed trail_part) simp_all
    also have "\<dots> = unat cp" using b recompose(2) [of "unat cp"] by simp
    finally have "get_sequence_4 (bs @ r) = Inr (cp, d # r)"
      using b bd by (simp add: get_sequence_4_def increase_safely_def is_trail_nat word_unat_eq_iff)
    then show ?thesis using b bd 4 by (intro fin [of 4]) (simp_all add: sequence_length_nat overlong_nat)
  qed
qed

section \<open>UTF-16\<close>

text \<open>The units \<open>utf8to16\<close> stores for a code point.\<close>

definition units_of :: "u32 \<Rightarrow> wide" where
  "units_of cp =
     (if cp > 0xffff
      then [mask16 (drop_bit 10 cp + LEAD_OFFSET), mask16 ((cp AND 0x3ff) + TRAIL_SURROGATE_MIN)]
      else [mask16 cp])"

function utf8to16 :: "bytes \<Rightarrow> wide option" where
  "utf8to16 it =
     (if it = [] then Some []
      else case next_cp it of
        None \<Rightarrow> None
      | Some p \<Rightarrow> map_option ((@) (units_of (fst p))) (utf8to16 (snd p)))"
  by pat_completeness auto
termination
  by (relation "measure length") (auto dest: next_cp_shorter)

declare utf8to16.simps [simp del]

fun utf16to8 :: "wide \<Rightarrow> bytes option" where
  "utf16to8 [] = Some []"
| "utf16to8 (u # us) =
     (let cp = mask16 u in
      if is_lead_surrogate cp
      then (case us of
              [] \<Rightarrow> None
            | t # us' \<Rightarrow>
                let trail_surrogate = mask16 t in
                if is_trail_surrogate trail_surrogate
                then (case append_cp (push_bit 10 cp + trail_surrogate + SURROGATE_OFFSET) of
                        None \<Rightarrow> None
                      | Some bs \<Rightarrow> map_option ((@) bs) (utf16to8 us'))
                else None)
      else if is_trail_surrogate cp then None
      else (case append_cp cp of
              None \<Rightarrow> None
            | Some bs \<Rightarrow> map_option ((@) bs) (utf16to8 us)))"

text \<open>\<open>distance\<close>: the code points of a string.\<close>

function code_points :: "bytes \<Rightarrow> u32 list option" where
  "code_points it =
     (if it = [] then Some []
      else case next_cp it of
        None \<Rightarrow> None
      | Some p \<Rightarrow> map_option ((#) (fst p)) (code_points (snd p)))"
  by pat_completeness auto
termination
  by (relation "measure length") (auto dest: next_cp_shorter)

declare code_points.simps [simp del]

definition utf8_to_wstr :: "bytes \<Rightarrow> wide option" where
  "utf8_to_wstr s = utf8to16 s"

definition wstr_to_utf8 :: "wide \<Rightarrow> bytes option" where
  "wstr_to_utf8 w = utf16to8 w"

text \<open>The length, and the string, cleared when it is no UTF-8.\<close>

definition utf8length :: "bytes \<Rightarrow> nat \<times> bytes" where
  "utf8length s = (case code_points s of Some cps \<Rightarrow> (length cps, s) | None \<Rightarrow> (0, []))"

text \<open>
  \<open>utf8truncate\<close>: \<open>wstr\<close> holds as many units as the string has code points, and the
  conversion writes through a plain pointer: \<open>None\<close> when it writes past the end.
\<close>

definition utf8truncate :: "bytes \<Rightarrow> nat \<Rightarrow> bytes option" where
  "utf8truncate s len =
     (case code_points s of
        None \<Rightarrow> Some []
      | Some cps \<Rightarrow>
          let wlen = length cps in
          if wlen \<le> len then Some s
          else case utf8to16 s of
            None \<Rightarrow> Some []
          | Some u \<Rightarrow>
              if length u > wlen then None
              else case utf16to8 (take len (u @ replicate (wlen - length u) 0)) of
                None \<Rightarrow> Some []
              | Some out \<Rightarrow> if length out > length s then None else Some out)"

section \<open>The two conversions are inverse\<close>

lemma unat_mask16 [simp]: "unat (mask16 x) = unat x mod 65536"
  unfolding mask16_def and.commute [of "0xffff"] and_masks by (rule refl)

lemma lead_nat: "is_lead_surrogate x \<longleftrightarrow> 55296 \<le> unat x \<and> unat x \<le> 56319"
  by (simp add: is_lead_surrogate_def LEAD_SURROGATE_MIN_def LEAD_SURROGATE_MAX_def word_le_nat_alt)

lemma trail_nat: "is_trail_surrogate x \<longleftrightarrow> 56320 \<le> unat x \<and> unat x \<le> 57343"
  by (simp add: is_trail_surrogate_def TRAIL_SURROGATE_MIN_def TRAIL_SURROGATE_MAX_def word_le_nat_alt)

lemma unat_low10: "unat (x AND 0x3ff :: u32) = unat x mod 1024"
proof -
  have "x AND 0x3ff = take_bit 10 x" by (simp add: take_bit_eq_mask mask_eq_exp_minus_1)
  then have "unat (x AND 0x3ff) = take_bit 10 (unat x)" by (simp only: unsigned_take_bit_eq)
  then show ?thesis by (simp add: take_bit_eq_mod)
qed

text \<open>A pair of surrogates and its code point.\<close>

lemma surrogate_pair:
  assumes "0x10000 \<le> unat cp" "unat cp \<le> 0x10ffff"
  defines "l \<equiv> mask16 (drop_bit 10 cp + LEAD_OFFSET)" and "t \<equiv> mask16 ((cp AND 0x3ff) + TRAIL_SURROGATE_MIN)"
  shows "unat l = unat cp div 1024 + 55232" "unat t = unat cp mod 1024 + 56320"
    "push_bit 10 l + t + SURROGATE_OFFSET = cp"
proof -
  have d: "64 \<le> unat cp div 1024" "unat cp div 1024 < 1088" using assms(1,2) by auto
  have "unat (drop_bit 10 cp + LEAD_OFFSET) = unat cp div 1024 + 55232"
    using d by (intro add_small) (simp_all add: unat_drop LEAD_OFFSET_def)
  then show l: "unat l = unat cp div 1024 + 55232" using d unfolding l_def unat_mask16 by simp
  have "unat ((cp AND 0x3ff) + TRAIL_SURROGATE_MIN) = unat cp mod 1024 + 56320"
    by (intro add_small) (simp_all add: unat_low10 TRAIL_SURROGATE_MIN_def)
  then show t: "unat t = unat cp mod 1024 + 56320" unfolding t_def unat_mask16 by simp
  have "unat (push_bit 10 l) = (unat cp div 1024 + 55232) * 1024" unfolding unat_push l using d by simp
  then have "unat (push_bit 10 l + t) = (unat cp div 1024 + 55232) * 1024 + (unat cp mod 1024 + 56320)"
    using d t by (intro add_small) simp_all
  also have "\<dots> = unat cp + 56613888" using div_mult_mod_eq [of "unat cp" 1024] by simp
  finally have "unat (push_bit 10 l + t + SURROGATE_OFFSET) = (unat cp + 56613888 + 4238353408) mod 4294967296"
    by (simp add: unat_word_ariths SURROGATE_OFFSET_def mod_simps)
  also have "\<dots> = unat cp" using assms(2) by simp
  finally show "push_bit 10 l + t + SURROGATE_OFFSET = cp" by (simp add: word_unat_eq_iff)
qed

lemma utf16to8_units:
  assumes "append_cp cp = Some bs"
  shows "utf16to8 (units_of cp @ w) = map_option ((@) bs) (utf16to8 w)"
proof -
  have v: "unat cp \<le> 0x10ffff" "\<not> (0xd800 \<le> unat cp \<and> unat cp \<le> 0xdfff)"
    using assms append_some [of cp] by (auto simp: valid_nat)
  show ?thesis
  proof (cases "cp > 0xffff")
    case True
    then have c: "0x10000 \<le> unat cp" by (simp add: word_less_nat_alt)
    note sp = surrogate_pair [OF c v(1)]
    have idem: "mask16 (mask16 x) = mask16 x" for x by (simp add: word_unat_eq_iff)
    have "64 \<le> unat cp div 1024" "unat cp div 1024 < 1088" "unat cp mod 1024 \<le> 1023" using c v(1) by auto
    then show ?thesis using True sp assms
      by (simp add: units_of_def Let_def idem lead_nat trail_nat del: unat_mask16)
  next
    case False
    then have "unat cp < 65536" by (simp add: word_less_nat_alt)
    then have "mask16 cp = cp" by (simp add: word_unat_eq_iff)
    moreover have "\<not> is_lead_surrogate cp" "\<not> is_trail_surrogate cp" using v(2) by (auto simp: lead_nat trail_nat)
    ultimately show ?thesis using False assms by (simp add: units_of_def Let_def)
  qed
qed

lemma utf8_to_16_to_8: "utf8to16 s = Some w \<Longrightarrow> utf16to8 w = Some s"
proof (induction s arbitrary: w rule: utf8to16.induct)
  case (1 it)
  show ?case
  proof (cases "it = []")
    case True
    then show ?thesis using "1.prems" by (simp add: utf8to16.simps)
  next
    case False
    then obtain cp r w' where n: "next_cp it = Some (cp, r)" "utf8to16 r = Some w'" "w = units_of cp @ w'"
      using "1.prems" by (subst (asm) utf8to16.simps) (auto split: option.splits)
    then obtain bs where "append_cp cp = Some bs" "it = bs @ r"
      using append_decode by (auto simp: next_cp_def split: sum.splits)
    then show ?thesis using utf16to8_units "1.IH" [OF False n(1)] n by simp
  qed
qed

lemma utf8to16_append:
  assumes "append_cp cp = Some bs"
  shows "utf8to16 (bs @ r) = map_option ((@) (units_of cp)) (utf8to16 r)"
proof -
  have "next_cp (bs @ r) = Some (cp, r)" using encode_decode [OF assms] by (simp add: next_cp_def)
  moreover have "bs \<noteq> []" using assms by (auto simp: append_cp_def split: if_splits)
  ultimately show ?thesis by (subst utf8to16.simps) simp
qed

text \<open>A unit of sixteen bits.\<close>

definition unit16 :: "u32 \<Rightarrow> bool" where
  "unit16 u \<longleftrightarrow> unat u < 65536"

lemma mask16_unit: "unit16 u \<Longrightarrow> mask16 u = u"
  by (simp add: unit16_def word_unat_eq_iff)

lemma pair_units:
  assumes "is_lead_surrogate l" "is_trail_surrogate t"
  shows "units_of (push_bit 10 l + t + SURROGATE_OFFSET) = [l, t]"
proof -
  obtain i j where ij: "unat l = 55296 + i" "unat t = 56320 + j" "i < 1024" "j < 1024"
    using assms by (auto simp: lead_nat trail_nat dest!: le_Suc_ex)
  let ?cp = "push_bit 10 l + t + SURROGATE_OFFSET"
  have "unat (push_bit 10 l) = (55296 + i) * 1024" unfolding unat_push using ij by simp
  then have "unat (push_bit 10 l + t) = (55296 + i) * 1024 + (56320 + j)" using ij by (intro add_small) simp_all
  then have "unat ?cp = ((55296 + i) * 1024 + (56320 + j) + 4238353408) mod 4294967296"
    by (simp add: unat_word_ariths SURROGATE_OFFSET_def mod_simps)
  also have "(55296 + i) * 1024 + (56320 + j) + 4238353408 = (65536 + i * 1024 + j) + 4294967296" by simp
  also have "(65536 + i * 1024 + j + 4294967296) mod 4294967296 = 65536 + i * 1024 + j"
    unfolding mod_add_self2 using ij by simp
  finally have cp: "unat ?cp = j + (64 + i) * 1024" by simp
  have d1: "unat ?cp div 1024 = 64 + i" unfolding cp using ij by simp
  have d2: "unat ?cp mod 1024 = j" unfolding cp mod_mult_self1 using ij by simp
  have "0x10000 \<le> unat ?cp" "unat ?cp \<le> 0x10ffff" using cp ij by simp_all
  from surrogate_pair(1,2) [OF this] d1 d2 ij
  have "mask16 (drop_bit 10 ?cp + LEAD_OFFSET) = l" "mask16 ((?cp AND 0x3ff) + TRAIL_SURROGATE_MIN) = t"
    by (simp_all add: word_unat_eq_iff del: unat_mask16)
  then show ?thesis using cp by (simp add: units_of_def word_less_nat_alt)
qed

lemma utf16_to_8_to_16:
  assumes "utf16to8 w = Some s" "\<forall>u \<in> set w. unit16 u"
  shows "utf8to16 s = Some w"
  using assms
proof (induction w arbitrary: s rule: utf16to8.induct)
  case 1
  then show ?case by (simp add: utf8to16.simps)
next
  case (2 u us)
  have u: "mask16 u = u" "unat u < 65536" using "2.prems"(2) mask16_unit by (auto simp: unit16_def)
  show ?case
  proof (cases "is_lead_surrogate u")
    case True
    then obtain t us' where us: "us = t # us'" using "2.prems"(1) u by (cases us) (simp_all add: Let_def)
    have t: "mask16 t = t" using "2.prems"(2) us mask16_unit by auto
    obtain bs s' where bs: "is_trail_surrogate t" "append_cp (push_bit 10 u + t + SURROGATE_OFFSET) = Some bs"
      "utf16to8 us' = Some s'" "s = bs @ s'"
      using "2.prems"(1) True u(1) t us by (auto simp: Let_def split: if_splits option.splits)
    have "utf8to16 s' = Some us'" using "2.IH"(1) True u(1) t us bs "2.prems"(2) by auto
    then show ?thesis using utf8to16_append [OF bs(2)] bs us pair_units [OF True bs(1)] by simp
  next
    case False
    then obtain bs s' where bs: "\<not> is_trail_surrogate u" "append_cp u = Some bs" "utf16to8 us = Some s'" "s = bs @ s'"
      using "2.prems"(1) u(1) by (auto simp: Let_def split: if_splits option.splits)
    have "utf8to16 s' = Some us" using "2.IH"(2) False u(1) bs "2.prems"(2) by auto
    moreover have "units_of u = [u]" using u by (simp add: units_of_def word_less_nat_alt)
    ultimately show ?thesis using utf8to16_append [OF bs(2)] bs by simp
  qed
qed

lemma utf8to16_units16: "utf8to16 s = Some w \<Longrightarrow> \<forall>u \<in> set w. unit16 u"
proof (induction s arbitrary: w rule: utf8to16.induct)
  case (1 it)
  show ?case
  proof (cases "it = []")
    case False
    then obtain cp r w' where n: "next_cp it = Some (cp, r)" "utf8to16 r = Some w'" "w = units_of cp @ w'"
      using "1.prems" by (subst (asm) utf8to16.simps) (auto split: option.splits)
    have "\<forall>u \<in> set (units_of cp). unit16 u" by (auto simp: units_of_def unit16_def)
    then show ?thesis using "1.IH" [OF False n(1)] n by auto
  qed (use "1.prems" in \<open>simp add: utf8to16.simps\<close>)
qed

lemma utf8to16_valid: "utf8to16 s \<noteq> None \<longleftrightarrow> utf8_is_valid s"
proof (induction s rule: utf8to16.induct)
  case (1 it)
  show ?case
  proof (cases "it = []")
    case False
    show ?thesis
    proof (cases "next_cp it")
      case None
      then show ?thesis using False
        by (subst utf8to16.simps) (auto simp: utf8_is_valid_step next_cp_def split: sum.splits)
    next
      case (Some p)
      then show ?thesis using False "1.IH" [OF False Some]
        by (subst utf8to16.simps) (auto simp: utf8_is_valid_step next_cp_def split: sum.splits)
    qed
  qed (simp add: utf8to16.simps)
qed

text \<open>Claim C21: the conversion from UTF-8 to wide strings succeeds exactly on the strings the packet
  reader accepts, and it loses nothing: what it produces converts back to the same bytes; and a
  wide string of sixteen-bit units that converts to UTF-8 is what its bytes convert to.\<close>

theorem wide_roundtrip:
  "(utf8_to_wstr s \<noteq> None \<longleftrightarrow> utf8_is_valid s)
   \<and> (\<forall>w. utf8_to_wstr s = Some w \<longleftrightarrow> wstr_to_utf8 w = Some s \<and> (\<forall>u \<in> set w. u \<le> 0xffff))"
proof -
  have "utf8_to_wstr s = Some w \<longleftrightarrow> wstr_to_utf8 w = Some s \<and> (\<forall>u \<in> set w. unit16 u)" for w
    using utf8_to_16_to_8 [of s w] utf8to16_units16 [of s w] utf16_to_8_to_16 [of w s]
    by (auto simp: utf8_to_wstr_def wstr_to_utf8_def)
  moreover have "unit16 u \<longleftrightarrow> u \<le> 0xffff" for u by (auto simp: unit16_def word_le_nat_alt)
  moreover have "utf8_to_wstr s \<noteq> None \<longleftrightarrow> utf8_is_valid s" by (simp only: utf8_to_wstr_def utf8to16_valid)
  ultimately show ?thesis by (simp only: simp_thms)
qed

theorem wide_roundtrip_witness:
  "\<exists>w. utf8_to_wstr [0xf0, 0x9f, 0x98, 0x80, 0x41] = Some w \<and> wstr_to_utf8 w = Some [0xf0, 0x9f, 0x98, 0x80, 0x41]"
proof -
  have "wstr_to_utf8 [0xd83d, 0xde00, 0x41] = Some [0xf0, 0x9f, 0x98, 0x80, 0x41]" by code_simp
  moreover have "\<forall>u \<in> set [0xd83d, 0xde00, 0x41 :: u32]. u \<le> 0xffff" by simp
  ultimately show ?thesis using wide_roundtrip [of "[0xf0, 0x9f, 0x98, 0x80, 0x41]"] by blast
qed

end
