(* ===== verification/CharCase.thy ===== *)
theory CharCase
  imports WideText
begin

text \<open>
  The classes of characters and the case mappings of src/common/Utilities/Util.h, and the
  functions of Util.cpp on whole strings. The lemmas show that lowering the case is
  idempotent, undone and redone by raising it, and stays within the classes.
\<close>

definition isBasicLatinCharacter :: "u32 \<Rightarrow> bool" where
  "isBasicLatinCharacter wchar =
     (if wchar \<ge> 0x61 \<and> wchar \<le> 0x7a then True
      else if wchar \<ge> 0x41 \<and> wchar \<le> 0x5a then True
      else False)"

definition isExtendedLatinCharacter :: "u32 \<Rightarrow> bool" where
  "isExtendedLatinCharacter wchar =
     (if isBasicLatinCharacter wchar then True
      else if wchar \<ge> 0x00C0 \<and> wchar \<le> 0x00D6 then True
      else if wchar \<ge> 0x00D8 \<and> wchar \<le> 0x00DE then True
      else if wchar = 0x00DF then True
      else if wchar \<ge> 0x00E0 \<and> wchar \<le> 0x00F6 then True
      else if wchar \<ge> 0x00F8 \<and> wchar \<le> 0x00FE then True
      else if wchar \<ge> 0x0100 \<and> wchar \<le> 0x012F then True
      else if wchar = 0x1E9E then True
      else False)"

definition isCyrillicCharacter :: "u32 \<Rightarrow> bool" where
  "isCyrillicCharacter wchar =
     (if wchar \<ge> 0x0410 \<and> wchar \<le> 0x044F then True
      else if wchar = 0x0401 \<or> wchar = 0x0451 then True
      else False)"

definition isEastAsianCharacter :: "u32 \<Rightarrow> bool" where
  "isEastAsianCharacter wchar =
     (if wchar \<ge> 0x1100 \<and> wchar \<le> 0x11F9 then True
      else if wchar \<ge> 0x3041 \<and> wchar \<le> 0x30FF then True
      else if wchar \<ge> 0x3131 \<and> wchar \<le> 0x318E then True
      else if wchar \<ge> 0x31F0 \<and> wchar \<le> 0x31FF then True
      else if wchar \<ge> 0x3400 \<and> wchar \<le> 0x4DB5 then True
      else if wchar \<ge> 0x4E00 \<and> wchar \<le> 0x9FC3 then True
      else if wchar \<ge> 0xAC00 \<and> wchar \<le> 0xD7A3 then True
      else if wchar \<ge> 0xFF01 \<and> wchar \<le> 0xFFEE then True
      else False)"

definition isNumeric :: "u32 \<Rightarrow> bool" where
  "isNumeric wchar \<longleftrightarrow> wchar \<ge> 0x30 \<and> wchar \<le> 0x39"

definition isNumericOrSpace :: "u32 \<Rightarrow> bool" where
  "isNumericOrSpace wchar \<longleftrightarrow> isNumeric wchar \<or> wchar = 0x20"

fun isBasicLatinString :: "wide \<Rightarrow> bool \<Rightarrow> bool" where
  "isBasicLatinString [] numericOrSpace = True"
| "isBasicLatinString (i # w) numericOrSpace =
     (if \<not> isBasicLatinCharacter i \<and> (\<not> numericOrSpace \<or> \<not> isNumericOrSpace i) then False
      else isBasicLatinString w numericOrSpace)"

fun isExtendedLatinString :: "wide \<Rightarrow> bool \<Rightarrow> bool" where
  "isExtendedLatinString [] numericOrSpace = True"
| "isExtendedLatinString (i # w) numericOrSpace =
     (if \<not> isExtendedLatinCharacter i \<and> (\<not> numericOrSpace \<or> \<not> isNumericOrSpace i) then False
      else isExtendedLatinString w numericOrSpace)"

fun isCyrillicString :: "wide \<Rightarrow> bool \<Rightarrow> bool" where
  "isCyrillicString [] numericOrSpace = True"
| "isCyrillicString (i # w) numericOrSpace =
     (if \<not> isCyrillicCharacter i \<and> (\<not> numericOrSpace \<or> \<not> isNumericOrSpace i) then False
      else isCyrillicString w numericOrSpace)"

fun isEastAsianString :: "wide \<Rightarrow> bool \<Rightarrow> bool" where
  "isEastAsianString [] numericOrSpace = True"
| "isEastAsianString (i # w) numericOrSpace =
     (if \<not> isEastAsianCharacter i \<and> (\<not> numericOrSpace \<or> \<not> isNumericOrSpace i) then False
      else isEastAsianString w numericOrSpace)"

text \<open>\<open>uint16(wchar)\<close> is the low half.\<close>

definition wcharToUpper :: "u32 \<Rightarrow> u32" where
  "wcharToUpper wchar =
     (if wchar \<ge> 0x61 \<and> wchar \<le> 0x7a then mask16 wchar - 0x20
      else if wchar = 0x00DF then 0x1E9E
      else if wchar \<ge> 0x00E0 \<and> wchar \<le> 0x00F6 then mask16 wchar - 0x20
      else if wchar \<ge> 0x00F8 \<and> wchar \<le> 0x00FE then mask16 wchar - 0x20
      else if wchar \<ge> 0x0101 \<and> wchar \<le> 0x012F \<and> wchar mod 2 = 1 then mask16 wchar - 1
      else if wchar \<ge> 0x0430 \<and> wchar \<le> 0x044F then mask16 wchar - 0x20
      else if wchar = 0x0451 then 0x0401
      else wchar)"

definition wcharToUpperOnlyLatin :: "u32 \<Rightarrow> u32" where
  "wcharToUpperOnlyLatin wchar = (if isBasicLatinCharacter wchar then wcharToUpper wchar else wchar)"

definition wcharToLower :: "u32 \<Rightarrow> u32" where
  "wcharToLower wchar =
     (if wchar \<ge> 0x41 \<and> wchar \<le> 0x5a then mask16 wchar + 0x20
      else if wchar \<ge> 0x00C0 \<and> wchar \<le> 0x00D6 then mask16 wchar + 0x20
      else if wchar \<ge> 0x00D8 \<and> wchar \<le> 0x00DE then mask16 wchar + 0x20
      else if wchar \<ge> 0x0100 \<and> wchar \<le> 0x012E \<and> wchar mod 2 = 0 then mask16 wchar + 1
      else if wchar = 0x1E9E then 0x00DF
      else if wchar = 0x0401 then 0x0451
      else if wchar \<ge> 0x0410 \<and> wchar \<le> 0x042F then mask16 wchar + 0x20
      else wchar)"

definition wstrToUpper :: "wide \<Rightarrow> wide" where
  "wstrToUpper w = map wcharToUpper w"

definition wstrToLower :: "wide \<Rightarrow> wide" where
  "wstrToLower w = map wcharToLower w"

text \<open>\<open>Utf8FitTo\<close>: does the lowered text contain \<open>search\<close> (\<open>wstring::find\<close>)?\<close>

fun occurs_in :: "wide \<Rightarrow> wide \<Rightarrow> bool" where
  "occurs_in s [] = (s = [])"
| "occurs_in s (x # w) = (take (length s) (x # w) = s \<or> occurs_in s w)"

definition Utf8FitTo :: "bytes \<Rightarrow> wide \<Rightarrow> bool" where
  "Utf8FitTo s search =
     (case utf8_to_wstr s of
        None \<Rightarrow> False
      | Some temp \<Rightarrow> if \<not> occurs_in search (wstrToLower temp) then False else True)"

text \<open>The string is left alone when it is no UTF-8.\<close>

definition Utf8ToUpperOnlyLatin :: "bytes \<Rightarrow> bool \<times> bytes" where
  "Utf8ToUpperOnlyLatin s =
     (case utf8_to_wstr s of
        None \<Rightarrow> (False, s)
      | Some w \<Rightarrow>
          (case wstr_to_utf8 (map wcharToUpperOnlyLatin w) of
             None \<Rightarrow> (False, [])
           | Some s' \<Rightarrow> (True, s')))"

section \<open>Lemmas\<close>

lemma mask16_small: "x \<le> 0xffff \<Longrightarrow> mask16 x = x"
  by (rule mask16_unit) (simp add: unit16_def word_le_nat_alt)

text \<open>The mappings on numbers.\<close>

definition lower_nat :: "nat \<Rightarrow> nat" where
  "lower_nat n =
     (if 65 \<le> n \<and> n \<le> 90 \<or> 192 \<le> n \<and> n \<le> 214 \<or> 216 \<le> n \<and> n \<le> 222 \<or> 1040 \<le> n \<and> n \<le> 1071 then n + 32
      else if 256 \<le> n \<and> n \<le> 302 \<and> n mod 2 = 0 then n + 1
      else if n = 7838 then 223 else if n = 1025 then 1105 else n)"

definition upper_nat :: "nat \<Rightarrow> nat" where
  "upper_nat n =
     (if 97 \<le> n \<and> n \<le> 122 \<or> 224 \<le> n \<and> n \<le> 246 \<or> 248 \<le> n \<and> n \<le> 254 \<or> 1072 \<le> n \<and> n \<le> 1103 then n - 32
      else if 257 \<le> n \<and> n \<le> 303 \<and> n mod 2 = 1 then n - 1
      else if n = 223 then 7838 else if n = 1105 then 1025 else n)"

lemma unat_mod2: "x mod 2 = 0 \<longleftrightarrow> unat x mod 2 = 0" "x mod 2 = 1 \<longleftrightarrow> unat x mod 2 = 1" for x :: u32
  by (simp_all add: word_unat_eq_iff unat_mod_distrib)

lemma lower_nat: "unat (wcharToLower x) = lower_nat (unat x)"
proof -
  have a: "unat (mask16 x + 0x20) = unat x + 32" "unat (mask16 x + 1) = unat x + 1" if "unat x < 60000"
    using that add_small [of "mask16 x" "unat x" "0x20" 32] add_small [of "mask16 x" "unat x" 1 1] by simp_all
  show ?thesis
    by (auto simp: wcharToLower_def lower_nat_def word_le_nat_alt word_unat_eq_iff [of x] unat_mod2 a)
qed

lemma upper_nat: "unat (wcharToUpper x) = upper_nat (unat x)"
proof -
  have a: "unat (mask16 x - 0x20) = unat x - 32" if "32 \<le> unat x" "unat x < 60000"
    using that by (subst unat_sub) (simp_all add: word_le_nat_alt)
  have b: "unat (mask16 x - 1) = unat x - 1" if "1 \<le> unat x" "unat x < 60000"
    using that by (subst unat_sub) (simp_all add: word_le_nat_alt)
  show ?thesis
    by (auto simp: wcharToUpper_def upper_nat_def word_le_nat_alt word_unat_eq_iff [of x] unat_mod2 a b)
qed

lemma lower_nat_idem: "lower_nat (lower_nat n) = lower_nat n"
proof -
  have e: "Suc n mod 2 = 1" if "n mod 2 = 0" for n :: nat using that by presburger
  show ?thesis unfolding lower_nat_def by (auto simp: e)
qed

lemma upper_lower_nat: "lower_nat (upper_nat (lower_nat n)) = lower_nat n"
proof -
  let ?cap = "\<lambda>n. 65 \<le> n \<and> n \<le> 90 \<or> 192 \<le> n \<and> n \<le> 214 \<or> 216 \<le> n \<and> n \<le> 222 \<or> 1040 \<le> n \<and> n \<le> (1071 :: nat)"
  let ?even = "\<lambda>n. 256 \<le> n \<and> n \<le> 302 \<and> n mod 2 = (0 :: nat)"
  have cap: "lower_nat n = n + 32" "upper_nat (n + 32) = n" if "?cap n" for n
    using that by (auto simp: lower_nat_def upper_nat_def)
  have even: "lower_nat n = n + 1" "upper_nat (n + 1) = n" if "?even n" for n
  proof -
    have "Suc n mod 2 = 1" using that by presburger
    then show "lower_nat n = n + 1" "upper_nat (n + 1) = n" using that by (simp_all add: lower_nat_def upper_nat_def)
  qed
  have special: "lower_nat 7838 = 223" "upper_nat 223 = 7838" "lower_nat 1025 = 1105" "upper_nat 1105 = 1025"
    by (simp_all add: lower_nat_def upper_nat_def)
  consider "?cap n" | "?even n" | "n = 7838" | "n = 1025" | "\<not> ?cap n" "\<not> ?even n" "n \<noteq> 7838" "n \<noteq> 1025" by blast
  then show ?thesis
  proof cases
    case 5
    then have l: "lower_nat n = n" by (simp add: lower_nat_def)
    consider "n \<ge> 32" "?cap (n - 32)" | "n \<ge> 1" "?even (n - 1)" | "n = 223" | "n = 1105"
      | "\<not> (n \<ge> 32 \<and> ?cap (n - 32))" "\<not> (n \<ge> 1 \<and> ?even (n - 1))" "n \<noteq> 223" "n \<noteq> 1105" by blast
    then show ?thesis
    proof cases
      case 1
      then show ?thesis using cap [of "n - 32"] l by simp
    next
      case 2
      then show ?thesis using even [of "n - 1"] l by simp
    next
      case 5
      have m1: "\<not> (97 \<le> n \<and> n \<le> 122 \<or> 224 \<le> n \<and> n \<le> 246 \<or> 248 \<le> n \<and> n \<le> 254 \<or> 1072 \<le> n \<and> n \<le> 1103)"
        using 5(1) by linarith
      have m2: "\<not> (257 \<le> n \<and> n \<le> 303 \<and> n mod 2 = 1)" using 5(2) by presburger
      have "upper_nat n = n" unfolding upper_nat_def if_not_P [OF m1] if_not_P [OF m2] using 5(3,4) by simp
      then show ?thesis using l by simp
    qed (use l special in simp_all)
  qed (use cap even special in auto)
qed

lemma lower_idem [simp]: "wcharToLower (wcharToLower x) = wcharToLower x"
  by (simp add: word_unat_eq_iff lower_nat lower_nat_idem)

lemma lower_upper_lower [simp]: "wcharToLower (wcharToUpper (wcharToLower x)) = wcharToLower x"
  by (simp add: word_unat_eq_iff lower_nat upper_nat upper_lower_nat)

lemma lower_string_idem [simp]: "wstrToLower (wstrToLower w) = wstrToLower w"
  by (simp add: wstrToLower_def)

text \<open>The mappings keep units, surrogates and classes.\<close>

lemma case_unit16:
  "unit16 x \<Longrightarrow> unit16 (wcharToLower x)" "unit16 x \<Longrightarrow> unit16 (wcharToUpper x)"
  by (auto simp: unit16_def lower_nat upper_nat lower_nat_def upper_nat_def)

lemma case_high:
  "8000 \<le> n \<Longrightarrow> lower_nat n = n" "8000 \<le> n \<Longrightarrow> upper_nat n = n"
  "n < 8000 \<Longrightarrow> lower_nat n < 8000" "n < 8000 \<Longrightarrow> upper_nat n < 8000"
  by (simp_all add: lower_nat_def upper_nat_def less_imp_diff_less)

lemma case_above:
  assumes "8000 \<le> k"
  shows "k \<le> lower_nat n \<and> lower_nat n \<le> m \<longleftrightarrow> k \<le> n \<and> n \<le> m" "k \<le> upper_nat n \<and> upper_nat n \<le> m \<longleftrightarrow> k \<le> n \<and> n \<le> m"
proof -
  show "k \<le> lower_nat n \<and> lower_nat n \<le> m \<longleftrightarrow> k \<le> n \<and> n \<le> m"
    using assms case_high(1,3) [of n] by (cases "8000 \<le> n") linarith+
  show "k \<le> upper_nat n \<and> upper_nat n \<le> m \<longleftrightarrow> k \<le> n \<and> n \<le> m"
    using assms case_high(2,4) [of n] by (cases "8000 \<le> n") linarith+
qed

lemma case_same: "8000 \<le> unat x \<Longrightarrow> wcharToLower x = x" "8000 \<le> unat x \<Longrightarrow> wcharToUpper x = x"
  by (simp_all only: word_unat_eq_iff lower_nat upper_nat case_high)

lemma case_surrogates:
  "is_lead_surrogate (wcharToLower x) = is_lead_surrogate x" "is_trail_surrogate (wcharToLower x) = is_trail_surrogate x"
  "is_lead_surrogate (wcharToUpper x) = is_lead_surrogate x" "is_trail_surrogate (wcharToUpper x) = is_trail_surrogate x"
  "is_lead_surrogate x \<or> is_trail_surrogate x \<Longrightarrow> wcharToLower x = x \<and> wcharToUpper x = x"
proof -
  show "is_lead_surrogate (wcharToLower x) = is_lead_surrogate x" "is_trail_surrogate (wcharToLower x) = is_trail_surrogate x"
    "is_lead_surrogate (wcharToUpper x) = is_lead_surrogate x" "is_trail_surrogate (wcharToUpper x) = is_trail_surrogate x"
    unfolding lead_nat trail_nat lower_nat upper_nat by (rule case_above; simp)+
  show "wcharToLower x = x \<and> wcharToUpper x = x" if "is_lead_surrogate x \<or> is_trail_surrogate x"
  proof -
    have "8000 \<le> unat x" using that unfolding lead_nat trail_nat by linarith
    then show ?thesis using case_same by blast
  qed
qed

lemma class_nat:
  "isBasicLatinCharacter x \<longleftrightarrow> 97 \<le> unat x \<and> unat x \<le> 122 \<or> 65 \<le> unat x \<and> unat x \<le> 90"
  "isCyrillicCharacter x \<longleftrightarrow> 1040 \<le> unat x \<and> unat x \<le> 1103 \<or> unat x = 1025 \<or> unat x = 1105"
  by (auto simp: isBasicLatinCharacter_def isCyrillicCharacter_def word_le_nat_alt word_unat_eq_iff [of x])

lemma mod2_cases: "n mod 2 = 0 \<or> n mod 2 = (1 :: nat)"
  by presburger

lemma if_true: "(if P then True else Q) = (P \<or> Q)"
  by simp

lemma unat_numeral_consts:
  "unat (0x00C0 :: u32) = 192" "unat (0x00D6 :: u32) = 214" "unat (0x00D8 :: u32) = 216" "unat (0x00DE :: u32) = 222"
  "unat (0x00DF :: u32) = 223" "unat (0x00E0 :: u32) = 224" "unat (0x00F6 :: u32) = 246" "unat (0x00F8 :: u32) = 248"
  "unat (0x00FE :: u32) = 254" "unat (0x0100 :: u32) = 256" "unat (0x012F :: u32) = 303" "unat (0x1E9E :: u32) = 7838"
  by simp_all

lemma extended_nat:
  "isExtendedLatinCharacter x \<longleftrightarrow> 97 \<le> unat x \<and> unat x \<le> 122 \<or> 65 \<le> unat x \<and> unat x \<le> 90
     \<or> 192 \<le> unat x \<and> unat x \<le> 214 \<or> 216 \<le> unat x \<and> unat x \<le> 222 \<or> unat x = 223 \<or> 224 \<le> unat x \<and> unat x \<le> 246
     \<or> 248 \<le> unat x \<and> unat x \<le> 254 \<or> 256 \<le> unat x \<and> unat x \<le> 303 \<or> unat x = 7838"
  unfolding isExtendedLatinCharacter_def if_true class_nat word_le_nat_alt word_unat_eq_iff [of x]
  by (simp only: disj_assoc conj_assoc unat_numeral_consts simp_thms)

lemma east_asian_nat:
  "isEastAsianCharacter x \<longleftrightarrow> 4352 \<le> unat x \<and> unat x \<le> 4601 \<or> 12353 \<le> unat x \<and> unat x \<le> 12543
     \<or> 12593 \<le> unat x \<and> unat x \<le> 12686 \<or> 12784 \<le> unat x \<and> unat x \<le> 12799 \<or> 13312 \<le> unat x \<and> unat x \<le> 19893
     \<or> 19968 \<le> unat x \<and> unat x \<le> 40899 \<or> 44032 \<le> unat x \<and> unat x \<le> 55203 \<or> 65281 \<le> unat x \<and> unat x \<le> 65518"
  by (auto simp: isEastAsianCharacter_def word_le_nat_alt)

lemma case_classes:
  "isBasicLatinCharacter x \<Longrightarrow> isBasicLatinCharacter (wcharToLower x) \<and> isBasicLatinCharacter (wcharToUpper x)"
  "isExtendedLatinCharacter x \<Longrightarrow> isExtendedLatinCharacter (wcharToLower x) \<and> isExtendedLatinCharacter (wcharToUpper x)"
  "isCyrillicCharacter x \<Longrightarrow> isCyrillicCharacter (wcharToLower x) \<and> isCyrillicCharacter (wcharToUpper x)"
  "isEastAsianCharacter x \<Longrightarrow> isEastAsianCharacter (wcharToLower x) \<and> isEastAsianCharacter (wcharToUpper x)"
proof -
  show "isBasicLatinCharacter (wcharToLower x) \<and> isBasicLatinCharacter (wcharToUpper x)" if c: "isBasicLatinCharacter x"
  proof -
    consider "97 \<le> unat x" "unat x \<le> 122" | "65 \<le> unat x" "unat x \<le> 90" using c unfolding class_nat by blast
    then show ?thesis by cases (auto simp: class_nat lower_nat upper_nat lower_nat_def upper_nat_def)
  qed
  show "isExtendedLatinCharacter (wcharToLower x) \<and> isExtendedLatinCharacter (wcharToUpper x)" if c: "isExtendedLatinCharacter x"
  proof -
    let ?C = "\<lambda>n. 97 \<le> n \<and> n \<le> 122 \<or> 65 \<le> n \<and> n \<le> 90
      \<or> 192 \<le> n \<and> n \<le> 214 \<or> 216 \<le> n \<and> n \<le> 222 \<or> n = 223 \<or> 224 \<le> n \<and> n \<le> 246
      \<or> 248 \<le> n \<and> n \<le> 254 \<or> 256 \<le> n \<and> n \<le> 303 \<or> n = (7838 :: nat)"
    define n where "n = unat x"
    have n: "?C n" using c unfolding extended_nat n_def .
    have "?C (lower_nat n) \<and> ?C (upper_nat n)"
    proof (cases "256 \<le> n \<and> n \<le> 303")
      case True
      show ?thesis
      proof (cases "n mod 2 = 0")
        case even: True
        then have "n \<noteq> 303" by auto
        then show ?thesis using True even by (simp add: lower_nat_def upper_nat_def)
      next
        case odd: False
        then have "n \<noteq> 256" by auto
        then have "256 \<le> n - 1 \<and> n - 1 \<le> 303" using True by auto
        then show ?thesis using True odd by (simp add: lower_nat_def upper_nat_def)
      qed
    next
      case False
      have "97 \<le> n \<Longrightarrow> n \<le> 122 \<Longrightarrow> 65 \<le> n - 32 \<and> n - 32 \<le> 90" "224 \<le> n \<Longrightarrow> n \<le> 246 \<Longrightarrow> 192 \<le> n - 32 \<and> n - 32 \<le> 214"
        "248 \<le> n \<Longrightarrow> n \<le> 254 \<Longrightarrow> 216 \<le> n - 32 \<and> n - 32 \<le> 222" by auto
      with False show ?thesis using n by (elim disjE conjE) (simp_all add: lower_nat_def upper_nat_def)
    qed
    then show ?thesis unfolding extended_nat lower_nat upper_nat n_def .
  qed
  show "isCyrillicCharacter (wcharToLower x) \<and> isCyrillicCharacter (wcharToUpper x)" if c: "isCyrillicCharacter x"
  proof -
    consider "1040 \<le> unat x" "unat x \<le> 1071" | "1072 \<le> unat x" "unat x \<le> 1103" | "unat x = 1025" | "unat x = 1105"
      using c unfolding class_nat by linarith
    then show ?thesis by cases (auto simp: class_nat lower_nat upper_nat lower_nat_def upper_nat_def)
  qed
  show "isEastAsianCharacter (wcharToLower x) \<and> isEastAsianCharacter (wcharToUpper x)" if c: "isEastAsianCharacter x"
  proof -
    have n: "4000 < unat x \<and> unat x \<noteq> 7838" using c unfolding east_asian_nat by (elim disjE conjE) simp_all
    then have "lower_nat (unat x) = unat x" "upper_nat (unat x) = unat x" by (simp_all add: lower_nat_def upper_nat_def)
    then have "wcharToLower x = x" "wcharToUpper x = x" by (simp_all only: word_unat_eq_iff lower_nat upper_nat)
    then show ?thesis using c by simp
  qed
qed

end
