(* ===== verification/Names.thy ===== *)
theory Names
  imports CharCase
begin

text \<open>
  The names of characters, guild charters, chat channels and pets: their normal form and the
  tests a name must pass (src/server/game/Globals/ObjectMgr.cpp), with the stores of reserved
  and profane names.
\<close>

section \<open>Constants\<close>

definition CHAR_NAME_SUCCESS :: u8 where "CHAR_NAME_SUCCESS = 0x57"
definition CHAR_NAME_TOO_SHORT :: u8 where "CHAR_NAME_TOO_SHORT = 0x5A"
definition CHAR_NAME_TOO_LONG :: u8 where "CHAR_NAME_TOO_LONG = 0x5B"
definition CHAR_NAME_INVALID_CHARACTER :: u8 where "CHAR_NAME_INVALID_CHARACTER = 0x5C"
definition CHAR_NAME_MIXED_LANGUAGES :: u8 where "CHAR_NAME_MIXED_LANGUAGES = 0x5D"
definition CHAR_NAME_PROFANE :: u8 where "CHAR_NAME_PROFANE = 0x5E"
definition CHAR_NAME_RESERVED :: u8 where "CHAR_NAME_RESERVED = 0x5F"
definition CHAR_NAME_THREE_CONSECUTIVE :: u8 where "CHAR_NAME_THREE_CONSECUTIVE = 0x62"

lemmas char_name_defs = CHAR_NAME_SUCCESS_def CHAR_NAME_TOO_SHORT_def CHAR_NAME_TOO_LONG_def
  CHAR_NAME_INVALID_CHARACTER_def CHAR_NAME_MIXED_LANGUAGES_def CHAR_NAME_PROFANE_def CHAR_NAME_RESERVED_def
  CHAR_NAME_THREE_CONSECUTIVE_def

datatype pet_name_reason = PET_NAME_SUCCESS | PET_NAME_INVALID | PET_NAME_TOO_SHORT | PET_NAME_TOO_LONG
  | PET_NAME_MIXED_LANGUAGES | PET_NAME_PROFANE | PET_NAME_RESERVED

definition MAX_PLAYER_NAME :: nat where "MAX_PLAYER_NAME = 12"
definition MAX_CHARTER_NAME :: nat where "MAX_CHARTER_NAME = 24"
definition MAX_CHANNEL_NAME :: nat where "MAX_CHANNEL_NAME = 50"
definition MAX_PET_NAME :: nat where "MAX_PET_NAME = 12"

definition LT_BASIC_LATIN :: u32 where "LT_BASIC_LATIN = 0x0000"
definition LT_EXTENDEN_LATIN :: u32 where "LT_EXTENDEN_LATIN = 0x0001"
definition LT_CYRILLIC :: u32 where "LT_CYRILLIC = 0x0002"
definition LT_EAST_ASIA :: u32 where "LT_EAST_ASIA = 0x0004"
definition LT_ANY :: u32 where "LT_ANY = 0xFFFF"

text \<open>The configuration and the stores of names (sets of wide strings).\<close>

record name_env =
  ne_realm_zone :: u32
  ne_strict_player :: u32
  ne_strict_charter :: u32
  ne_strict_channel :: u32
  ne_strict_pet :: u32
  ne_min_player :: u32
  ne_min_charter :: u32
  ne_min_pet :: u32
  ne_reserved :: "wide list"
  ne_profanity :: "wide list"

section \<open>Operations\<close>

text \<open>\<open>normalizePlayerName\<close>: the new name, or \<open>None\<close> where it returns false.\<close>

definition normalize_player_name :: "bytes \<Rightarrow> bytes option" where
  "normalize_player_name nm =
     (if nm = [] then None
      else if 0x20 \<in> set nm then None
      else case utf8_to_wstr nm of
        None \<Rightarrow> None
      | Some tmp \<Rightarrow>
          let tmp = wstrToLower tmp;
              tmp = (if tmp \<noteq> [] then tmp[0 := wcharToUpper (tmp ! 0)] else tmp)
          in wstr_to_utf8 tmp)"

definition get_realm_language_type :: "name_env \<Rightarrow> bool \<Rightarrow> u32" where
  "get_realm_language_type ne create =
     (let z = ne_realm_zone ne in
      if z \<in> set [0, 1, 26, 28] then LT_ANY
      else if z \<in> set [2, 3, 4, 8, 9, 10, 11] then LT_EXTENDEN_LATIN
      else if z \<in> set [6, 14, 16] then LT_EAST_ASIA
      else if z = 12 then LT_CYRILLIC
      else if create then LT_BASIC_LATIN else LT_ANY)"

definition is_valid_string :: "name_env \<Rightarrow> wide \<Rightarrow> u32 \<Rightarrow> bool \<Rightarrow> bool \<Rightarrow> bool" where
  "is_valid_string ne wstr strictMask numericOrSpace create =
     (if strictMask = 0
      then isExtendedLatinString wstr numericOrSpace \<or> isCyrillicString wstr numericOrSpace
        \<or> isEastAsianString wstr numericOrSpace
      else if strictMask AND 0x2 \<noteq> 0
        \<and> (let lt = get_realm_language_type ne create in
           (lt AND LT_EXTENDEN_LATIN \<noteq> 0 \<and> isExtendedLatinString wstr numericOrSpace)
           \<or> (lt AND LT_CYRILLIC \<noteq> 0 \<and> isCyrillicString wstr numericOrSpace)
           \<or> (lt AND LT_EAST_ASIA \<noteq> 0 \<and> isEastAsianString wstr numericOrSpace))
      then True
      else if strictMask AND 0x1 \<noteq> 0 \<and> isBasicLatinString wstr numericOrSpace then True
      else False)"

text \<open>The test for names that end in \<open>GM\<close>, in either case.\<close>

definition ends_in_gm :: "bytes \<Rightarrow> bool" where
  "ends_in_gm nm \<longleftrightarrow> length nm \<ge> 2 \<and> nm ! (length nm - 2) \<in> {0x47, 0x67} \<and> nm ! (length nm - 1) \<in> {0x4d, 0x6d}"

definition is_reserved_name :: "name_env \<Rightarrow> bytes \<Rightarrow> bool" where
  "is_reserved_name ne nm =
     (if ends_in_gm nm then True
      else case utf8_to_wstr nm of
        None \<Rightarrow> False
      | Some wstr \<Rightarrow> wstrToLower wstr \<in> set (ne_reserved ne))"

definition is_profanity_name :: "name_env \<Rightarrow> bytes \<Rightarrow> bool" where
  "is_profanity_name ne nm =
     (if ends_in_gm nm then True
      else case utf8_to_wstr nm of
        None \<Rightarrow> False
      | Some wstr \<Rightarrow> wstrToLower wstr \<in> set (ne_profanity ne))"

text \<open>The name goes into the store and the statement with the name as given to the database.\<close>

definition add_reserved_player_name :: "bytes \<Rightarrow> name_env \<Rightarrow> name_env \<times> bytes list" where
  "add_reserved_player_name nm ne =
     (if \<not> is_reserved_name ne nm
      then (case utf8_to_wstr nm of
              None \<Rightarrow> (ne, [])
            | Some wstr \<Rightarrow> (ne\<lparr>ne_reserved := List.insert (wstrToLower wstr) (ne_reserved ne)\<rparr>, [nm]))
      else (ne, []))"

definition add_profanity_player_name :: "bytes \<Rightarrow> name_env \<Rightarrow> name_env \<times> bytes list" where
  "add_profanity_player_name nm ne =
     (if \<not> is_profanity_name ne nm
      then (case utf8_to_wstr nm of
              None \<Rightarrow> (ne, [])
            | Some wstr \<Rightarrow> (ne\<lparr>ne_profanity := List.insert (wstrToLower wstr) (ne_profanity ne)\<rparr>, [nm]))
      else (ne, []))"

text \<open>The loading of the two tables: rows that are no UTF-8 are skipped.\<close>

fun load_names :: "bytes list \<Rightarrow> wide list" where
  "load_names [] = []"
| "load_names (nm # rows) =
     (case utf8_to_wstr nm of
        None \<Rightarrow> load_names rows
      | Some wstr \<Rightarrow> List.insert (wstrToLower wstr) (load_names rows))"

definition load_reserved_names_db :: "bytes list \<Rightarrow> name_env \<Rightarrow> name_env" where
  "load_reserved_names_db rows ne = ne\<lparr>ne_reserved := load_names rows\<rparr>"

definition load_profanity_names_db :: "bytes list \<Rightarrow> name_env \<Rightarrow> name_env" where
  "load_profanity_names_db rows ne = ne\<lparr>ne_profanity := load_names rows\<rparr>"

text \<open>\<open>replace_all\<close> of a pattern by nothing.\<close>

function remove_all :: "wide \<Rightarrow> wide \<Rightarrow> wide" where
  "remove_all pat w =
     (if w = [] \<or> pat = [] then w
      else if take (length pat) w = pat then remove_all pat (drop (length pat) w)
      else hd w # remove_all pat (tl w))"
  by pat_completeness auto
termination
proof (relation "measure (length o snd)")
  show "wf (measure (length o snd))" by simp
next
  fix pat w :: wide assume "\<not> (w = [] \<or> pat = [])"
  then show "((pat, drop (length pat) w), (pat, w)) \<in> measure (length o snd)" by (cases w; cases pat) auto
next
  fix pat w :: wide assume "\<not> (w = [] \<or> pat = [])"
  then show "((pat, tl w), (pat, w)) \<in> measure (length o snd)" by (cases w) auto
qed

declare remove_all.simps [simp del]

text \<open>The entries of the client's tables go in without the junk, but as they are written.\<close>

definition dbc_pattern :: "bytes \<Rightarrow> wide" where
  "dbc_pattern nm =
     (let wstr = (case utf8_to_wstr nm of None \<Rightarrow> [] | Some w \<Rightarrow> w)
      in remove_all [0x5c, 0x3e] (remove_all [0x5c, 0x3c] wstr))"

definition load_reserved_names_dbc :: "bool \<Rightarrow> bytes list \<Rightarrow> name_env \<Rightarrow> name_env" where
  "load_reserved_names_dbc enabled entries ne =
     (if \<not> enabled then ne
      else fold (\<lambda>nm ne. ne\<lparr>ne_reserved := List.insert (dbc_pattern nm) (ne_reserved ne)\<rparr>) entries ne)"

definition load_profanity_names_dbc :: "bool \<Rightarrow> bytes list \<Rightarrow> name_env \<Rightarrow> name_env" where
  "load_profanity_names_dbc enabled entries ne =
     (if \<not> enabled then ne
      else fold (\<lambda>nm ne. ne\<lparr>ne_profanity := List.insert (dbc_pattern nm) (ne_profanity ne)\<rparr>) entries ne)"

text \<open>The loop over the letters.\<close>

fun three_consecutive :: "wide \<Rightarrow> bool" where
  "three_consecutive (a # b # c # w) = (if c = b \<and> c = a then True else three_consecutive (b # c # w))"
| "three_consecutive w = False"

definition check_player_name :: "name_env \<Rightarrow> bytes \<Rightarrow> bool \<Rightarrow> u8" where
  "check_player_name ne nm create =
     (case utf8_to_wstr nm of
        None \<Rightarrow> CHAR_NAME_INVALID_CHARACTER
      | Some wname \<Rightarrow>
          if length wname > MAX_PLAYER_NAME then CHAR_NAME_TOO_LONG
          else if length wname < unat (ne_min_player ne) then CHAR_NAME_TOO_SHORT
          else if \<not> is_valid_string ne wname (ne_strict_player ne) False create then CHAR_NAME_MIXED_LANGUAGES
          else if three_consecutive (wstrToLower wname) then CHAR_NAME_THREE_CONSECUTIVE
          else if is_reserved_name ne nm then CHAR_NAME_RESERVED
          else if is_profanity_name ne nm then CHAR_NAME_PROFANE
          else CHAR_NAME_SUCCESS)"

definition is_valid_charter_name :: "name_env \<Rightarrow> bytes \<Rightarrow> bool" where
  "is_valid_charter_name ne nm =
     (case utf8_to_wstr nm of
        None \<Rightarrow> False
      | Some wname \<Rightarrow>
          if length wname > MAX_CHARTER_NAME then False
          else if length wname < unat (ne_min_charter ne) then False
          else if is_reserved_name ne nm then False
          else if is_profanity_name ne nm then False
          else is_valid_string ne wname (ne_strict_charter ne) True False)"

definition is_valid_channel_name :: "name_env \<Rightarrow> bytes \<Rightarrow> bool" where
  "is_valid_channel_name ne nm =
     (case utf8_to_wstr nm of
        None \<Rightarrow> False
      | Some wname \<Rightarrow>
          if length wname > MAX_CHANNEL_NAME then False
          else is_valid_string ne wname (ne_strict_channel ne) True False)"

definition check_pet_name :: "name_env \<Rightarrow> bytes \<Rightarrow> pet_name_reason" where
  "check_pet_name ne nm =
     (case utf8_to_wstr nm of
        None \<Rightarrow> PET_NAME_INVALID
      | Some wname \<Rightarrow>
          if length wname > MAX_PET_NAME then PET_NAME_TOO_LONG
          else if length wname < unat (ne_min_pet ne) then PET_NAME_TOO_SHORT
          else if \<not> is_valid_string ne wname (ne_strict_pet ne) False False then PET_NAME_MIXED_LANGUAGES
          else if is_reserved_name ne nm then PET_NAME_RESERVED
          else if is_profanity_name ne nm then PET_NAME_PROFANE
          else PET_NAME_SUCCESS)"

section \<open>ASCII characters keep their place\<close>

lemma utf8to16_cases:
  assumes "utf8to16 s = Some w"
  obtains "s = []" "w = []"
  | bs cp r w' where "append_cp cp = Some bs" "s = bs @ r" "bs \<noteq> []" "utf8to16 r = Some w'" "w = units_of cp @ w'"
      "next_cp s = Some (cp, r)" "s \<noteq> []"
proof (cases "s = []")
  case True
  then show ?thesis using assms that(1) by (simp add: utf8to16.simps)
next
  case False
  then obtain cp r w' where n: "next_cp s = Some (cp, r)" "utf8to16 r = Some w'" "w = units_of cp @ w'"
    using assms by (subst (asm) utf8to16.simps) (auto split: option.splits)
  then obtain bs where bs: "append_cp cp = Some bs" "s = bs @ r"
    using append_decode by (auto simp: next_cp_def split: sum.splits)
  moreover have "bs \<noteq> []" using bs(1) by (auto simp: append_cp_def split: if_splits)
  ultimately show ?thesis using that(2) n False by blast
qed

lemma ascii_of_cp:
  assumes "append_cp cp = Some bs"
  shows "unat cp < 128 \<Longrightarrow> bs = [ucast cp] \<and> units_of cp = [cp]"
    "128 \<le> unat cp \<Longrightarrow> \<forall>b \<in> set bs. 128 \<le> unat b" "128 \<le> unat cp \<Longrightarrow> \<forall>u \<in> set (units_of cp). 128 \<le> unat u"
proof -
  have v: "unat cp \<le> 0x10ffff" using assms append_some [of cp] by (auto simp: valid_nat)
  have m: "map unat bs = encode (unat cp)" using append_encode assms append_some [of cp] by fastforce
  show "bs = [ucast cp] \<and> units_of cp = [cp]" if c: "unat cp < 128"
  proof -
    have "map unat bs = map unat [ucast cp :: u8]" using m c by (simp add: encode_def unat_ucast_byte)
    moreover have "mask16 cp = cp" using c by (simp add: word_unat_eq_iff)
    ultimately show ?thesis using c unat_map_inj [of bs "[ucast cp]"] by (simp add: units_of_def word_less_nat_alt)
  qed
  show "\<forall>b \<in> set bs. 128 \<le> unat b" if "128 \<le> unat cp"
  proof -
    have "\<forall>n \<in> set (map unat bs). 128 \<le> n" unfolding m using that by (simp add: encode_def)
    then show ?thesis by simp
  qed
  show "\<forall>u \<in> set (units_of cp). 128 \<le> unat u" if "128 \<le> unat cp"
  proof (cases "0x10000 \<le> unat cp")
    case True
    then show ?thesis using surrogate_pair(1,2) [OF True v]
      by (simp add: units_of_def word_less_nat_alt del: unat_mask16)
  next
    case False
    then show ?thesis using that by (simp add: units_of_def word_less_nat_alt)
  qed
qed

lemma ascii_members:
  assumes "utf8to16 s = Some w" "n < 128"
  shows "n \<in> unat ` set s \<longleftrightarrow> n \<in> unat ` set w"
  using assms(1)
proof (induction s arbitrary: w rule: utf8to16.induct)
  case (1 it)
  from "1.prems" show ?case
  proof (cases rule: utf8to16_cases)
    case (2 bs cp r w')
    have "n \<in> unat ` set bs \<longleftrightarrow> n \<in> unat ` set (units_of cp)"
    proof (cases "unat cp < 128")
      case True
      then show ?thesis using ascii_of_cp(1) [OF 2(1) True] by (simp add: unat_ucast_byte)
    next
      case False
      then show ?thesis using ascii_of_cp(2,3) [OF 2(1)] assms(2) by fastforce
    qed
    then show ?thesis using "1.IH" [OF 2(7,6)] 2 by auto
  qed simp
qed

text \<open>A last ASCII byte is a last unit, and back.\<close>

lemma ascii_last:
  assumes "unat b < 128"
  shows "utf8to16 (s @ [b]) = Some w \<longleftrightarrow> (\<exists>w'. utf8to16 s = Some w' \<and> w = w' @ [ucast b])"
proof (induction s arbitrary: w rule: utf8to16.induct)
  case (1 it)
  have one: "append_cp (ucast b) = Some [b]"
  proof -
    have "unat (ucast b :: u32) = unat b" by (rule unat_ucast_up) simp
    then show ?thesis using assms
      by (simp add: append_cp_def valid_nat word_less_nat_alt word_unat_eq_iff unat_ucast_byte)
  qed
  have u: "unat (ucast b :: u32) = unat b" by (rule unat_ucast_up) simp
  show ?case
  proof (cases "it = []")
    case True
    then show ?thesis using utf8to16_append [OF one, of "[]"] ascii_of_cp(1) [OF one] u assms
      by (auto simp: utf8to16.simps [of "[]"])
  next
    case False
    have step: "utf8to16 (it @ [b]) = Some w \<longleftrightarrow> (\<exists>w'. utf8to16 it = Some w' \<and> w = w' @ [ucast b])"
      if n: "next_cp it = Some (cp, r)" for cp r
    proof -
      obtain bs where bs: "append_cp cp = Some bs" "it = bs @ r"
        using n append_decode by (auto simp: next_cp_def split: sum.splits)
      have "utf8to16 (it @ [b]) = map_option ((@) (units_of cp)) (utf8to16 (r @ [b]))"
        "utf8to16 it = map_option ((@) (units_of cp)) (utf8to16 r)"
        using utf8to16_append [OF bs(1)] bs(2) by simp_all
      then show ?thesis using "1.IH" [OF False n] by auto
    qed
    show ?thesis
    proof
      assume "\<exists>w'. utf8to16 it = Some w' \<and> w = w' @ [ucast b]"
      moreover from this have "next_cp it \<noteq> None" using False by (subst (asm) utf8to16.simps) (auto split: option.splits)
      ultimately show "utf8to16 (it @ [b]) = Some w" using step by fastforce
    next
      assume a: "utf8to16 (it @ [b]) = Some w"
      then show "\<exists>w'. utf8to16 it = Some w' \<and> w = w' @ [ucast b]"
      proof (cases rule: utf8to16_cases)
        case (2 bs cp r w')
        have "r \<noteq> []"
        proof
          assume "r = []"
          then have bs: "bs = it @ [b]" using 2 by simp
          then have "\<not> (\<forall>x \<in> set bs. 128 \<le> unat x)" using assms by auto
          then have "unat cp < 128" using ascii_of_cp(2) [OF 2(1)] by (meson not_le)
          then show False using ascii_of_cp(1) [OF 2(1)] bs False by auto
        qed
        then obtain r' where r': "r = r' @ [b]" "it = bs @ r'" using 2(2) by (metis append_butlast_last_id append_assoc last_appendR last_snoc butlast_append butlast_snoc)
        have "next_cp it = Some (cp, r')" using encode_decode [OF 2(1)] r'(2) by (simp add: next_cp_def)
        then show ?thesis using step a by blast
      qed simp
    qed
  qed
qed

section \<open>Normal forms\<close>

text \<open>Characters that change case are no surrogates, before and after.\<close>

definition recased :: "u32 \<Rightarrow> u32 \<Rightarrow> bool" where
  "recased x y \<longleftrightarrow> x = y \<or> unit16 x \<and> unit16 y \<and> \<not> is_lead_surrogate x \<and> \<not> is_trail_surrogate x
     \<and> \<not> is_lead_surrogate y \<and> \<not> is_trail_surrogate y"

lemma unit_valid: "unit16 u \<Longrightarrow> \<not> is_lead_surrogate u \<Longrightarrow> \<not> is_trail_surrogate u \<Longrightarrow> append_cp u \<noteq> None"
  unfolding append_some [symmetric] valid_nat lead_nat trail_nat unit16_def by linarith

lemma recased_converts:
  assumes "utf16to8 w \<noteq> None" "list_all2 recased w t"
  shows "utf16to8 t \<noteq> None"
  using assms
proof (induction w arbitrary: t rule: utf16to8.induct)
  case 1
  then show ?case by simp
next
  case (2 u us)
  obtain y ys where t: "t = y # ys" "recased u y" "list_all2 recased us ys" using "2.prems"(2) by (cases t) auto
  show ?case
  proof (cases "is_lead_surrogate (mask16 u)")
    case True
    then have "y = u" using t(2) mask16_unit [of u] by (auto simp: recased_def)
    obtain x us' where us: "us = x # us'" "is_trail_surrogate (mask16 x)"
      using "2.prems"(1) True by (cases us) (auto simp: Let_def split: if_splits)
    then obtain x' ys' where ys: "ys = x' # ys'" "recased x x'" "list_all2 recased us' ys'" using t(3) by (cases ys) auto
    have "x' = x" using ys(2) us(2) mask16_unit [of x] by (auto simp: recased_def)
    have "utf16to8 us' \<noteq> None" using "2.prems"(1) True us by (auto simp: Let_def split: option.splits)
    moreover obtain bs where bs: "append_cp (push_bit 10 (mask16 u) + mask16 x + SURROGATE_OFFSET) = Some bs"
      using "2.prems"(1) True us by (auto simp: Let_def split: option.splits)
    ultimately have "utf16to8 ys' \<noteq> None" using "2.IH"(1) [OF refl True us(1) refl us(2) bs] ys(3) by simp
    then show ?thesis using "2.prems"(1) True us t(1) ys(1) \<open>y = u\<close> \<open>x' = x\<close>
      by (auto simp: Let_def split: option.splits)
  next
    case False
    have nt: "\<not> is_trail_surrogate (mask16 u)" and us: "utf16to8 us \<noteq> None"
      using "2.prems"(1) False by (auto simp: Let_def split: if_splits option.splits)
    have ys: "utf16to8 ys \<noteq> None" using "2.IH"(2) [OF refl False nt] us t(3) "2.prems"(1) False nt
      by (auto simp: Let_def split: option.splits)
    show ?thesis
    proof (cases "u = y")
      case True
      then show ?thesis using "2.prems"(1) False nt t(1) ys by (auto simp: Let_def split: option.splits)
    next
      case neq: False
      then have y: "unit16 y" "\<not> is_lead_surrogate y" "\<not> is_trail_surrogate y" using t(2) by (auto simp: recased_def)
      then show ?thesis using unit_valid [OF y] mask16_unit [OF y(1)] t(1) ys by (auto simp: Let_def)
    qed
  qed
qed

lemma recase_char:
  assumes "unit16 x"
  shows "recased x (wcharToLower x)" "recased x (wcharToUpper (wcharToLower x))"
  using case_unit16 [OF assms] case_unit16(2) [of "wcharToLower x"] case_surrogates [of x]
    case_surrogates [of "wcharToLower x"] assms
  by (auto simp: recased_def)

text \<open>The normal form of a wide string.\<close>

definition capital :: "wide \<Rightarrow> wide" where
  "capital w = (let t = wstrToLower w in if t \<noteq> [] then t[0 := wcharToUpper (t ! 0)] else t)"

lemma capital_simps [simp]:
  "capital [] = []" "capital (x # w) = wcharToUpper (wcharToLower x) # wstrToLower w"
  by (simp_all add: capital_def wstrToLower_def)

lemma capital_idem: "wstrToLower (capital w) = wstrToLower w" "capital (capital w) = capital w"
  by (cases w; simp add: wstrToLower_def o_def)+

lemma capital_recased: "\<forall>u \<in> set w. unit16 u \<Longrightarrow> list_all2 recased w (capital w)"
  by (cases w) (auto simp: recase_char wstrToLower_def list.rel_map intro!: list.rel_refl_strong)

lemma capital_unit16: "\<forall>u \<in> set w. unit16 u \<Longrightarrow> \<forall>u \<in> set (capital w). unit16 u"
  by (cases w) (auto simp: wstrToLower_def case_unit16)

lemma capital_space: "32 \<in> unat ` set (capital w) \<longleftrightarrow> 32 \<in> unat ` set w"
proof -
  have l: "lower_nat n = 32 \<longleftrightarrow> n = 32" for n by (auto simp: lower_nat_def)
  have u: "upper_nat n = 32 \<longleftrightarrow> n = 32" for n by (auto simp: upper_nat_def)
  have "32 = unat (wcharToLower x) \<longleftrightarrow> 32 = unat x" "32 = unat (wcharToUpper (wcharToLower x)) \<longleftrightarrow> 32 = unat x" for x
    using l [of "unat x"] u [of "lower_nat (unat x)"] by (auto simp: lower_nat upper_nat)
  then show ?thesis by (cases w) (auto simp: wstrToLower_def image_iff)
qed

lemma normalize_iff:
  "normalize_player_name nm = Some n \<longleftrightarrow> nm \<noteq> [] \<and> 0x20 \<notin> set nm
     \<and> (\<exists>w. utf8_to_wstr nm = Some w \<and> wstr_to_utf8 (capital w) = Some n)"
  by (auto simp: normalize_player_name_def capital_def Let_def split: option.splits)

lemma space_byte: "0x20 \<in> set nm \<longleftrightarrow> 32 \<in> unat ` set nm" for nm :: bytes
proof -
  have "32 = unat b \<longleftrightarrow> b = 0x20" for b :: u8 by (auto simp: word_unat_eq_iff)
  then show ?thesis by (simp add: image_iff)
qed

lemma capital_converts:
  assumes "utf8_to_wstr nm = Some w"
  obtains n where "wstr_to_utf8 (capital w) = Some n" "utf8_to_wstr n = Some (capital w)"
    "0x20 \<in> set n \<longleftrightarrow> 0x20 \<in> set nm" "n = [] \<longleftrightarrow> nm = []"
proof -
  have w: "utf8to16 nm = Some w" "\<forall>u \<in> set w. unit16 u" using assms utf8to16_units16 by (auto simp: utf8_to_wstr_def)
  have "utf16to8 (capital w) \<noteq> None"
    using recased_converts [OF _ capital_recased [OF w(2)]] utf8_to_16_to_8 [OF w(1)] by simp
  then obtain n where n: "utf16to8 (capital w) = Some n" by auto
  have n': "utf8to16 n = Some (capital w)" by (rule utf16_to_8_to_16 [OF n capital_unit16 [OF w(2)]])
  have "0x20 \<in> set n \<longleftrightarrow> 0x20 \<in> set nm"
    unfolding space_byte ascii_members [OF n', of 32, simplified] ascii_members [OF w(1), of 32, simplified] by (rule capital_space)
  moreover have "x = [] \<longleftrightarrow> y = []" if "utf8to16 x = Some y" for x y
    using that utf8_to_16_to_8 [OF that] by (auto simp: utf8to16.simps)
  from this [OF n'] this [OF w(1)] have "n = [] \<longleftrightarrow> nm = []" by (cases w) auto
  ultimately show thesis using that n n' by (simp add: wstr_to_utf8_def utf8_to_wstr_def)
qed

text \<open>Claim C23: the normal form of a player's name is its own normal form, and it does not depend on the
  case of the letters: names that are the same once they are lowered have the same normal form.\<close>

theorem normal_form_canonical:
  assumes "normalize_player_name nm = Some n"
  shows "normalize_player_name n = Some n
    \<and> (\<forall>nm'. nm' \<noteq> [] \<and> 0x20 \<notin> set nm' \<and> map_option wstrToLower (utf8_to_wstr nm') = map_option wstrToLower (utf8_to_wstr nm)
         \<longrightarrow> normalize_player_name nm' = Some n)"
proof -
  obtain w where w: "nm \<noteq> []" "0x20 \<notin> set nm" "utf8_to_wstr nm = Some w" "wstr_to_utf8 (capital w) = Some n"
    using assms by (auto simp: normalize_iff)
  obtain n' where n': "wstr_to_utf8 (capital w) = Some n'" "utf8_to_wstr n' = Some (capital w)"
    "0x20 \<in> set n' \<longleftrightarrow> 0x20 \<in> set nm" "n' = [] \<longleftrightarrow> nm = []" by (rule capital_converts [OF w(3)])
  then have "n' = n" using w(4) by simp
  then have "normalize_player_name n = Some n" using n' w by (simp add: normalize_iff capital_idem)
  moreover have "normalize_player_name nm' = Some n"
    if h: "nm' \<noteq> []" "0x20 \<notin> set nm'" "map_option wstrToLower (utf8_to_wstr nm') = map_option wstrToLower (utf8_to_wstr nm)" for nm'
  proof -
    obtain w' where w': "utf8_to_wstr nm' = Some w'" "wstrToLower w' = wstrToLower w" using h(3) w(3) by auto
    then have "capital w' = capital w" by (simp add: capital_def)
    then show ?thesis using h w' w(4) by (simp add: normalize_iff)
  qed
  ultimately show ?thesis by blast
qed

theorem normal_form_canonical_witness:
  "normalize_player_name (str ''aRTHAS'') = Some (str ''Arthas'') \<and> normalize_player_name (str ''Arthas'') = Some (str ''Arthas'')"
proof -
  have "normalize_player_name (str ''aRTHAS'') = Some (str ''Arthas'')" by code_simp
  then show ?thesis using normal_form_canonical by blast
qed

section \<open>Accepted names\<close>

lemma class_strings:
  "isBasicLatinString w False \<longleftrightarrow> (\<forall>x \<in> set w. isBasicLatinCharacter x)"
  "isExtendedLatinString w False \<longleftrightarrow> (\<forall>x \<in> set w. isExtendedLatinCharacter x)"
  "isCyrillicString w False \<longleftrightarrow> (\<forall>x \<in> set w. isCyrillicCharacter x)"
  "isEastAsianString w False \<longleftrightarrow> (\<forall>x \<in> set w. isEastAsianCharacter x)"
  by (induction w) auto

lemma capital_class:
  assumes "\<And>x. P x \<Longrightarrow> P (wcharToLower x) \<and> P (wcharToUpper x)" "\<forall>x \<in> set w. P x"
  shows "\<forall>x \<in> set (capital w). P x"
  using assms by (cases w) (auto simp: wstrToLower_def)

lemma capital_valid:
  assumes "is_valid_string ne w m False create"
  shows "is_valid_string ne (capital w) m False create"
proof -
  have "isBasicLatinString w False \<Longrightarrow> isBasicLatinString (capital w) False"
    "isExtendedLatinString w False \<Longrightarrow> isExtendedLatinString (capital w) False"
    "isCyrillicString w False \<Longrightarrow> isCyrillicString (capital w) False"
    "isEastAsianString w False \<Longrightarrow> isEastAsianString (capital w) False"
    unfolding class_strings using capital_class case_classes by metis+
  then show ?thesis using assms by (auto simp: is_valid_string_def Let_def split: if_splits)
qed

lemma space_no_class:
  assumes "unat x = 32"
  shows "\<not> isBasicLatinCharacter x" "\<not> isExtendedLatinCharacter x" "\<not> isCyrillicCharacter x" "\<not> isEastAsianCharacter x"
  using assms by (simp_all add: class_nat extended_nat east_asian_nat)

lemma valid_no_space:
  assumes "is_valid_string ne w m False create"
  shows "32 \<notin> unat ` set w"
proof
  assume "32 \<in> unat ` set w"
  then obtain x where "x \<in> set w" "unat x = 32" by auto
  then show False using assms space_no_class [of x]
    by (auto simp: is_valid_string_def Let_def class_strings split: if_splits)
qed

lemma last_ascii:
  assumes "utf8to16 s = Some w" "s \<noteq> []"
  shows "unat (last s) < 128 \<longleftrightarrow> unat (last w) < 128"
  using assms
proof (induction s arbitrary: w rule: utf8to16.induct)
  case (1 it)
  from "1.prems"(1) show ?case
  proof (cases rule: utf8to16_cases)
    case (2 bs cp r w')
    have ne: "units_of cp \<noteq> []" by (simp add: units_of_def)
    show ?thesis
    proof (cases "r = []")
      case True
      then have "w' = []" using 2(4) by (simp add: utf8to16.simps)
      have "unat (last bs) < 128 \<longleftrightarrow> unat (last (units_of cp)) < 128"
      proof (cases "unat cp < 128")
        case True
        then show ?thesis using ascii_of_cp(1) [OF 2(1) True] by (simp add: unat_ucast_byte)
      next
        case False
        then have "128 \<le> unat (last bs)" "128 \<le> unat (last (units_of cp))"
          using ascii_of_cp(2,3) [OF 2(1)] ne 2(3) by auto
        then show ?thesis by linarith
      qed
      then show ?thesis using 2 True \<open>w' = []\<close> by simp
    next
      case False
      moreover have "w' \<noteq> []" using False 2(4) utf8_to_16_to_8 [OF 2(4)] by auto
      ultimately show ?thesis using "1.IH" [OF 2(7,6)] 2 by simp
    qed
  qed (use "1.prems" in simp)
qed

lemma ascii_tail:
  assumes "utf8to16 s = Some (w @ [u])" "unat u < 128"
  obtains s' where "s = s' @ [ucast u]" "utf8to16 s' = Some w"
proof -
  have ne: "s \<noteq> []" using assms(1) by (auto simp: utf8to16.simps)
  then obtain s' b where s: "s = s' @ [b]" by (metis append_butlast_last_id)
  have b: "unat b < 128" using last_ascii [OF assms(1) ne] assms(2) s by simp
  then have "utf8to16 s' = Some w" "u = ucast b" using assms(1) ascii_last [OF b, of s'] s by auto
  moreover have "ucast u = b" using \<open>u = ucast b\<close> b by (simp add: word_unat_eq_iff unat_ucast_byte unat_ucast_up)
  ultimately show thesis using that s by simp
qed

lemma ends_in_gm_iff:
  "ends_in_gm nm \<longleftrightarrow> (\<exists>s a b. nm = s @ [a, b] \<and> a \<in> {0x47, 0x67} \<and> b \<in> {0x4d, 0x6d})"
proof
  assume e: "ends_in_gm nm"
  then have "2 \<le> length nm" by (simp add: ends_in_gm_def)
  then obtain t b where t: "nm = t @ [b]" "t \<noteq> []" by (cases nm rule: rev_cases) force+
  obtain s a where "t = s @ [a]" using t(2) by (cases t rule: rev_cases) auto
  with t(1) have "nm = s @ [a, b]" by simp
  with e show "\<exists>s a b. nm = s @ [a, b] \<and> a \<in> {0x47, 0x67} \<and> b \<in> {0x4d, 0x6d}"
    by (auto simp: ends_in_gm_def nth_append)
qed (auto simp: ends_in_gm_def nth_append)

text \<open>A name whose normal form ends in \<open>GM\<close> ends in it itself.\<close>

lemma gm_lowered:
  "unat (wcharToLower x) = 103 \<Longrightarrow> unat x \<in> {71, 103}" "unat (wcharToLower x) = 109 \<Longrightarrow> unat x \<in> {77, 109}"
  by (auto simp: lower_nat lower_nat_def split: if_splits)

lemma capital_gm:
  assumes nm: "utf8_to_wstr nm = Some w" and n: "utf8_to_wstr n = Some (capital w)" and gm: "ends_in_gm n"
  shows "ends_in_gm nm"
proof -
  obtain s a b where s: "n = (s @ [a]) @ [b]" "a \<in> {0x47, 0x67}" "b \<in> {0x4d, 0x6d}"
    using gm by (auto simp: ends_in_gm_iff)
  have ab: "unat a < 128" "unat b < 128" using s by auto
  obtain v where v: "capital w = v @ [ucast a, ucast b]"
  proof -
    have "utf8to16 ((s @ [a]) @ [b]) = Some (capital w)" using n s(1) by (simp add: utf8_to_wstr_def)
    then obtain v1 where v1: "utf8to16 (s @ [a]) = Some v1" "capital w = v1 @ [ucast b]"
      unfolding ascii_last [OF ab(2)] by blast
    then obtain v where "v1 = v @ [ucast a]" unfolding ascii_last [OF ab(1)] by blast
    then show thesis using v1(2) that by simp
  qed
  have "wstrToLower w = wstrToLower v @ [wcharToLower (ucast a), wcharToLower (ucast b)]"
    unfolding capital_idem(1) [of w, symmetric] v by (simp add: wstrToLower_def)
  then obtain w0 x y where w: "w = (w0 @ [x]) @ [y]" "wcharToLower x = wcharToLower (ucast a)" "wcharToLower y = wcharToLower (ucast b)"
    by (auto simp: wstrToLower_def map_eq_append_conv)
  have "unat (ucast a :: u32) \<in> {71, 103}" "unat (ucast b :: u32) \<in> {77, 109}"
    using s(2,3) by auto
  moreover have "lower_nat 71 = 103" "lower_nat 103 = 103" "lower_nat 77 = 109" "lower_nat 109 = 109"
    by (simp_all add: lower_nat_def)
  ultimately have la: "unat (wcharToLower (ucast a)) = 103" "unat (wcharToLower (ucast b)) = 109"
    unfolding lower_nat by auto
  have xy: "unat x \<in> {71, 103}" "unat y \<in> {77, 109}" using gm_lowered [of x] gm_lowered [of y] w(2,3) la by simp_all
  have nm': "utf8to16 nm = Some ((w0 @ [x]) @ [y])" using nm w(1) by (simp only: utf8_to_wstr_def)
  have small: "unat x < 128" "unat y < 128" using xy by auto
  obtain s1 where s1: "nm = s1 @ [ucast y]" "utf8to16 s1 = Some (w0 @ [x])" by (rule ascii_tail [OF nm' small(2)])
  obtain s2 where s2: "s1 = s2 @ [ucast x]" by (rule ascii_tail [OF s1(2) small(1)])
  have u: "unat (ucast x :: u8) = unat x" "unat (ucast y :: u8) = unat y" using small by (simp_all add: unat_ucast_byte)
  have "ucast x \<in> {0x47, 0x67 :: u8}" "ucast y \<in> {0x4d, 0x6d :: u8}"
    using xy unfolding insert_iff empty_iff word_unat_eq_iff u by simp_all
  then show ?thesis using s1(1) s2 by (auto simp: ends_in_gm_iff)
qed

text \<open>Claim C22: a character name that passes the tests has a normal form, which passes the same tests and
  is normal: what the server stores is a name it would accept.\<close>

theorem accepted_name_normalizes:
  assumes "check_player_name ne nm create = CHAR_NAME_SUCCESS" "0 < ne_min_player ne"
  shows "\<exists>n. normalize_player_name nm = Some n \<and> normalize_player_name n = Some n
    \<and> check_player_name ne n create = CHAR_NAME_SUCCESS"
proof -
  obtain w where w: "utf8_to_wstr nm = Some w" "length w \<le> MAX_PLAYER_NAME" "unat (ne_min_player ne) \<le> length w"
    "is_valid_string ne w (ne_strict_player ne) False create" "\<not> three_consecutive (wstrToLower w)"
    "\<not> is_reserved_name ne nm" "\<not> is_profanity_name ne nm"
    using assms(1) by (auto simp: check_player_name_def char_name_defs split: option.splits if_splits)
  obtain n where n: "wstr_to_utf8 (capital w) = Some n" "utf8_to_wstr n = Some (capital w)"
    "0x20 \<in> set n \<longleftrightarrow> 0x20 \<in> set nm" "n = [] \<longleftrightarrow> nm = []" by (rule capital_converts [OF w(1)])
  have "w \<noteq> []" using w(3) assms(2) by (auto simp: word_gt_0_no word_less_nat_alt)
  then have ne: "nm \<noteq> []" using w(1) by (auto simp: utf8_to_wstr_def utf8to16.simps)
  have sp: "0x20 \<notin> set nm"
    using valid_no_space [OF w(4)] ascii_members [of nm w 32] w(1) space_byte by (simp add: utf8_to_wstr_def)
  have norm: "normalize_player_name nm = Some n" using ne sp w(1) n(1) by (simp add: normalize_iff)
  have len: "length (capital w) = length w" by (cases w) (simp_all add: wstrToLower_def)
  have gm: "\<not> ends_in_gm n" using capital_gm [OF w(1) n(2)] w(6) by (auto simp: is_reserved_name_def)
  have "\<not> is_reserved_name ne n" "\<not> is_profanity_name ne n"
    using w(1,6,7) n(2) gm by (auto simp: is_reserved_name_def is_profanity_name_def capital_idem split: if_splits)
  then have "check_player_name ne n create = CHAR_NAME_SUCCESS"
    using w n(2) len capital_valid [OF w(4)] by (simp add: check_player_name_def capital_idem)
  then show ?thesis using norm normal_form_canonical by blast
qed

definition example_names :: name_env where
  "example_names = \<lparr>ne_realm_zone = 8, ne_strict_player = 2, ne_strict_charter = 0, ne_strict_channel = 0, ne_strict_pet = 0,
     ne_min_player = 2, ne_min_charter = 2, ne_min_pet = 2, ne_reserved = [[0x61, 0x62]], ne_profanity = []\<rparr>"

theorem accepted_name_normalizes_witness:
  "check_player_name example_names (str ''jAINA'') True = CHAR_NAME_SUCCESS
   \<and> check_player_name example_names (str ''Jaina'') True = CHAR_NAME_SUCCESS"
proof -
  have a: "check_player_name example_names (str ''jAINA'') True = CHAR_NAME_SUCCESS" by code_simp
  have "normalize_player_name (str ''jAINA'') = Some (str ''Jaina'')" by code_simp
  moreover have "0 < ne_min_player example_names" by (simp add: example_names_def)
  ultimately show ?thesis using accepted_name_normalizes [OF a] a by auto
qed

section \<open>Two deviations\<close>

text \<open>
  Lookups lower the name, but the entries of the client's tables are stored as written: one with a
  capital letter matches no name.
\<close>

lemma dbc_entry_never_matches:
  "is_reserved_name (load_reserved_names_dbc True [str ''Arthas''] example_names) (str ''Arthas'') = False"
  "is_reserved_name (load_reserved_names_db [str ''Arthas''] example_names) (str ''Arthas'') = True"
  by code_simp+

text \<open>Cutting a string of two characters outside the first plane to one writes past its buffer.\<close>

lemma truncate_overflow:
  "utf8truncate [0xf0, 0x9f, 0x98, 0x80, 0xf0, 0x9f, 0x98, 0x80] 1 = None"
  by code_simp

end
