(* ===== verification/StringConvert.thy ===== *)
theory StringConvert
  imports Utf8
begin

text \<open>
  Numbers in text: \<open>Acore::StringTo\<close> and \<open>Acore::ToString\<close> for unsigned integers
  (src/common/Utilities/StringConvert.h). A signed type is not used by the modelled code.
  \<open>limit\<close> is the number of values of the type.
\<close>

text \<open>The value of a digit, as \<open>std::from_chars\<close> reads it.\<close>

definition digit_value :: "u8 \<Rightarrow> nat option" where
  "digit_value c =
     (if 0x30 \<le> c \<and> c \<le> 0x39 then Some (unat c - 48)
      else if 0x61 \<le> c \<and> c \<le> 0x7a then Some (unat c - 87)
      else if 0x41 \<le> c \<and> c \<le> 0x5a then Some (unat c - 55)
      else None)"

definition is_digit_of :: "nat \<Rightarrow> u8 \<Rightarrow> bool" where
  "is_digit_of base c \<longleftrightarrow> (case digit_value c of Some d \<Rightarrow> d < base | None \<Rightarrow> False)"

fun digits_value :: "nat \<Rightarrow> bytes \<Rightarrow> nat \<Rightarrow> nat" where
  "digits_value base [] acc = acc"
| "digits_value base (c # s) acc = digits_value base s (acc * base + the (digit_value c))"

text \<open>\<open>std::from_chars\<close>: the longest run of digits, its value unless it is out of range, and the rest.\<close>

definition from_chars :: "nat \<Rightarrow> nat \<Rightarrow> bytes \<Rightarrow> (nat \<times> bytes) option" where
  "from_chars limit base s =
     (let ds = takeWhile (is_digit_of base) s in
      if ds = [] then None
      else if digits_value base ds 0 \<ge> limit then None
      else Some (digits_value base ds 0, dropWhile (is_digit_of base) s))"

definition char_lower :: "u8 \<Rightarrow> u8" where
  "char_lower c = (if 0x41 \<le> c \<and> c \<le> 0x5a then c + 0x20 else c)"

definition string_equal_i :: "bytes \<Rightarrow> bytes \<Rightarrow> bool" where
  "string_equal_i a b \<longleftrightarrow> map char_lower a = map char_lower b"

definition from_string :: "nat \<Rightarrow> nat \<Rightarrow> bytes \<Rightarrow> nat option" where
  "from_string limit base s =
     (let (base', s') = (if base = 0
            then if string_equal_i (take 2 s) (str ''0x'') then (16, drop 2 s)
              else if string_equal_i (take 2 s) (str ''0b'') then (2, drop 2 s)
              else (10, s)
            else (base, s))
      in if base = 0 \<and> s' = [] then None
         else case from_chars limit base' s' of
           None \<Rightarrow> None
         | Some (val, rest) \<Rightarrow> if rest = [] then Some val else None)"

text \<open>\<open>std::to_chars\<close> in base ten.\<close>

function to_string :: "nat \<Rightarrow> bytes" where
  "to_string n = (if n < 10 then [word_of_nat (48 + n)] else to_string (n div 10) @ [word_of_nat (48 + n mod 10)])"
  by pat_completeness auto
termination
  by (relation "measure id") auto

declare to_string.simps [simp del]

lemma digit_of_nat: "n < 10 \<Longrightarrow> digit_value (word_of_nat (48 + n)) = Some n"
proof -
  assume n: "n < 10"
  then have u: "unat (word_of_nat (48 + n) :: u8) = 48 + n" unfolding unat_of_nat by simp
  then show ?thesis using n unfolding digit_value_def word_le_nat_alt u by simp
qed

lemma digits_value_append: "digits_value b (s @ t) acc = digits_value b t (digits_value b s acc)"
  by (induction s arbitrary: acc) simp_all

lemma to_string_digits:
  "to_string n \<noteq> []" "\<forall>c \<in> set (to_string n). is_digit_of 10 c" "digits_value 10 (to_string n) 0 = n"
proof (induction n rule: to_string.induct)
  case (1 n)
  have d: "is_digit_of 10 (word_of_nat (48 + m))" if "m < 10" for m using digit_of_nat [OF that] that by (simp add: is_digit_of_def)
  { case 1
    then show ?case by (subst to_string.simps) simp
  next
    case 2
    show ?case
    proof (cases "n < 10")
      case True
      then show ?thesis using d [OF True] by (subst to_string.simps) simp
    next
      case False
      then show ?thesis using "1.IH"(2) [OF False] d [of "n mod 10"] by (subst to_string.simps) simp
    qed
  next
    case 3
    show ?case
    proof (cases "n < 10")
      case True
      then show ?thesis using digit_of_nat [OF True] by (subst to_string.simps) simp
    next
      case False
      then show ?thesis using "1.IH"(3) [OF False] digit_of_nat [of "n mod 10"]
        by (subst to_string.simps) (simp add: digits_value_append)
    qed }
qed

text \<open>A number that fits is read back from its text.\<close>

lemma from_to_string: "n < limit \<Longrightarrow> from_string limit 10 (to_string n) = Some n"
proof -
  assume n: "n < limit"
  have tw: "takeWhile (is_digit_of 10) (to_string n) = to_string n" "dropWhile (is_digit_of 10) (to_string n) = []"
    using to_string_digits(2) by (simp_all add: takeWhile_eq_all_conv)
  show ?thesis using n to_string_digits(1,3) by (simp add: from_string_def from_chars_def Let_def tw del: takeWhile_eq_all_conv)
qed

end
