(* ===== verification/ChannelMgr.thy ===== *)
theory ChannelMgr
  imports ChannelRuns Names StringConvert
begin

text \<open>
  The channels of both factions (src/server/game/Chat/Channels/ChannelMgr.cpp), the list of
  channels each player keeps (\<open>Player::m_channels\<close>, Player.cpp), and the packets of clients about
  channels (src/server/game/Handlers/ChannelHandler.cpp).
\<close>

section \<open>State\<close>

text \<open>
  \<open>Channel*\<close> is modelled by the place of the channel: the manager (by its team) and the key of its
  map \<open>channels\<close>. A channel is never deleted while the server runs, so the place stays.
\<close>

type_synonym chan_key = "u8 \<times> wide"

datatype chat_effect =
    ChanEffect chan_key chan_effect
  | SendPacket guid world_packet
  | DelChannelStmt bytes u32
  | KickSession guid
  | Notification guid

text \<open>
  The state of the static members of \<open>ChannelMgr\<close> and of its two instances, and of the lists
  \<open>m_channels\<close> of the players. The log of a channel is emptied into \<open>cs_log\<close> after each call.
\<close>

record chat_state =
  cs_channels :: "(chan_key \<times> channel) list"
  cs_rights :: "(bytes \<times> channel_rights) list"
  cs_id_max :: u32
  cs_joined :: "guid \<Rightarrow> chan_key list"
  cs_log :: "chat_effect list"

definition chat_empty :: chat_state where
  "chat_empty = \<lparr>cs_channels = [], cs_rights = [], cs_id_max = 0, cs_joined = (\<lambda>_. []), cs_log = []\<rparr>"

definition TEAM_ALLIANCE :: u8 where "TEAM_ALLIANCE = 0"
definition TEAM_HORDE :: u8 where "TEAM_HORDE = 1"
definition MAX_CHANNEL_PASS_STR :: nat where "MAX_CHANNEL_PASS_STR = 31"

definition AREA_FLAG_SLAVE_CAPITAL :: u32 where "AREA_FLAG_SLAVE_CAPITAL = 0x00000008"
definition AREA_FLAG_ARENA_INSTANCE :: u32 where "AREA_FLAG_ARENA_INSTANCE = 0x00010000"
definition CHANNEL_DBC_FLAG_GLOBAL :: u32 where "CHANNEL_DBC_FLAG_GLOBAL = 0x00004"
definition SMSG_CHANNEL_MEMBER_COUNT :: u16 where "SMSG_CHANNEL_MEMBER_COUNT = 0x3D5"

definition chat_log :: "chat_effect \<Rightarrow> chat_state \<Rightarrow> chat_state" where
  "chat_log ef st = st\<lparr>cs_log := cs_log st @ [ef]\<rparr>"

section \<open>The lists of the players\<close>

definition joined_channel :: "guid \<Rightarrow> chan_key \<Rightarrow> chat_state \<Rightarrow> chat_state" where
  "joined_channel g k st = st\<lparr>cs_joined := (cs_joined st)(g := cs_joined st g @ [k])\<rparr>"

definition left_channel :: "guid \<Rightarrow> chan_key \<Rightarrow> chat_state \<Rightarrow> chat_state" where
  "left_channel g k st = st\<lparr>cs_joined := (cs_joined st)(g := removeAll k (cs_joined st g))\<rparr>"

text \<open>
  A call of a channel: what it did to its surroundings is read off its log afterwards, the two
  calls back to the player included; no operation of a channel reads the lists of players.
\<close>

fun note_effect :: "chan_key \<Rightarrow> chan_effect \<Rightarrow> chat_state \<Rightarrow> chat_state" where
  "note_effect k (JoinedChannel g) st = chat_log (ChanEffect k (JoinedChannel g)) (joined_channel g k st)"
| "note_effect k (LeftChannel g) st = chat_log (ChanEffect k (LeftChannel g)) (left_channel g k st)"
| "note_effect k ef st = chat_log (ChanEffect k ef) st"

definition on_channel :: "chan_key \<Rightarrow> (channel \<Rightarrow> channel) \<Rightarrow> chat_state \<Rightarrow> chat_state" where
  "on_channel k f st = (case map_of (cs_channels st) k of
     None \<Rightarrow> st
   | Some c \<Rightarrow>
       let c' = f (c\<lparr>ch_log := []\<rparr>)
       in fold (note_effect k) (ch_log c') (st\<lparr>cs_channels := AList.update k (c'\<lparr>ch_log := []\<rparr>) (cs_channels st)\<rparr>))"

section \<open>The managers\<close>

definition for_team :: "bool \<Rightarrow> u8 \<Rightarrow> u8 option" where
  "for_team two_side teamId =
     (if two_side then Some TEAM_ALLIANCE
      else if teamId = TEAM_ALLIANCE then Some TEAM_ALLIANCE
      else if teamId = TEAM_HORDE then Some TEAM_HORDE
      else None)"

text \<open>The key of a name: empty when it is no UTF-8, since the result of the conversion is ignored.\<close>

definition wide_key :: "bytes \<Rightarrow> wide" where
  "wide_key name = wstrToLower (case utf8_to_wstr name of Some w \<Rightarrow> w | None \<Rightarrow> [])"

definition get_channel_rights_for :: "chat_state \<Rightarrow> bytes \<Rightarrow> channel_rights" where
  "get_channel_rights_for st name = (case map_of (cs_rights st) (map char_lower name) of
     Some r \<Rightarrow> r | None \<Rightarrow> channel_rights_default)"

definition set_channel_rights_for :: "bytes \<Rightarrow> channel_rights \<Rightarrow> chat_state \<Rightarrow> chat_state" where
  "set_channel_rights_for name r st = st\<lparr>cs_rights := AList.update (map char_lower name) r (cs_rights st)\<rparr>"

text \<open>A new channel, its statement moved to the log of the managers.\<close>

definition new_channel :: "chan_env \<Rightarrow> bool \<Rightarrow> chan_key \<Rightarrow> bytes \<Rightarrow> u32 \<Rightarrow> u32 \<Rightarrow> u8 \<Rightarrow> bool \<Rightarrow> bool
    \<Rightarrow> chat_state \<Rightarrow> channel \<times> chat_state" where
  "new_channel e garbage k name channelId channelDBId teamId ann own st =
     (let (c, idmax) = channel_new e (get_channel_rights_for st) garbage name channelId channelDBId teamId ann own
            (cs_id_max st)
      in (c\<lparr>ch_log := []\<rparr>,
          st\<lparr>cs_id_max := idmax, cs_log := cs_log st @ map (ChanEffect k) (ch_log c)\<rparr>))"

definition get_join_channel :: "chan_env \<Rightarrow> bool \<Rightarrow> u8 \<Rightarrow> bytes \<Rightarrow> u32 \<Rightarrow> chat_state \<Rightarrow> chan_key \<times> chat_state" where
  "get_join_channel e garbage mgr name channelId st =
     (let k = (mgr, wide_key name) in
      case map_of (cs_channels st) k of
        None \<Rightarrow>
          let (nchan, st) = new_channel e garbage k name channelId 0 mgr True True st
          in (k, st\<lparr>cs_channels := AList.update k nchan (cs_channels st)\<rparr>)
      | Some _ \<Rightarrow> (k, st))"

definition make_not_on_packet :: "bytes \<Rightarrow> world_packet" where
  "make_not_on_packet name = WorldPacket SMSG_CHANNEL_NOTIFY [FU8 5, FStr name]"

definition get_channel :: "u8 \<Rightarrow> bytes \<Rightarrow> guid \<Rightarrow> bool \<Rightarrow> chat_state \<Rightarrow> chan_key option \<times> chat_state" where
  "get_channel mgr name player pkt st =
     (let k = (mgr, wide_key name) in
      case map_of (cs_channels st) k of
        None \<Rightarrow> (None, if pkt then chat_log (SendPacket player (make_not_on_packet name)) st else st)
      | Some _ \<Rightarrow> (Some k, st))"

subsection \<open>Loading\<close>

text \<open>A row of \<open>channels\<close>: the identifier, name, team, announcements, ownership and password.\<close>

type_synonym channel_row = "u32 \<times> bytes \<times> u32 \<times> u8 \<times> u8 \<times> bytes"

text \<open>\<open>bans\<close> answers the query for the bans of a channel: low GUIDs and the end of the ban.\<close>

fun load_channel_rows :: "chan_env \<Rightarrow> bool \<Rightarrow> (u32 \<Rightarrow> (u32 \<times> u32) list) \<Rightarrow> channel_row list
    \<Rightarrow> chat_state \<times> (bytes \<times> u32) list \<Rightarrow> chat_state \<times> (bytes \<times> u32) list" where
  "load_channel_rows e garbage bans [] acc = acc"
| "load_channel_rows e garbage bans ((dbId, name, team32, ann, own, pw) # rows) (st, toDelete) =
     (let team = ucast team32 :: u8 in
      case utf8_to_wstr name of
        None \<Rightarrow> load_channel_rows e garbage bans rows (st, toDelete @ [(name, ucast team)])
      | Some wname \<Rightarrow>
          (case for_team (we_two_side_channel (ce_world e)) team of
             None \<Rightarrow> load_channel_rows e garbage bans rows (st, toDelete @ [(name, ucast team)])
           | Some mgr \<Rightarrow>
               let (nchan, st) = new_channel e garbage (mgr, wname) name 0 dbId team (ann \<noteq> 0) (own \<noteq> 0) st;
                   nchan = fold (\<lambda>(low, time). add_ban (guid_create_global HG_Player low) time) (bans dbId) (set_password pw nchan);
                   st = st\<lparr>cs_channels := AList.update (mgr, wname) nchan (cs_channels st)\<rparr>;
                   st = (if dbId > cs_id_max st then st\<lparr>cs_id_max := dbId\<rparr> else st)
               in load_channel_rows e garbage bans rows (st, toDelete)))"

definition load_channels :: "chan_env \<Rightarrow> bool \<Rightarrow> (u32 \<Rightarrow> (u32 \<times> u32) list) \<Rightarrow> channel_row list \<Rightarrow> chat_state \<Rightarrow> chat_state" where
  "load_channels e garbage bans rows st =
     (let (st, toDelete) = load_channel_rows e garbage bans rows (st, [])
      in fold (\<lambda>(name, team). chat_log (DelChannelStmt name team)) toDelete st)"

text \<open>The set of permanent moderators: accounts that fit in 32 bits and are not zero.\<close>

definition moderator_set :: "bytes \<Rightarrow> u32 list" where
  "moderator_set lst =
     (if lst = [] then []
      else fold (\<lambda>itr ms.
             let acc = (case from_string (2 ^ 64) 10 itr of Some v \<Rightarrow> v | None \<Rightarrow> 0)
             in if acc \<noteq> 0 \<and> acc < 2 ^ 32 then List.insert (word_of_nat acc) ms else ms)
           (tokenize lst 0x20 False) [])"

type_synonym rights_row = "bytes \<times> u32 \<times> u32 \<times> bytes \<times> bytes \<times> bytes"

definition load_channel_rights :: "rights_row list \<Rightarrow> chat_state \<Rightarrow> chat_state" where
  "load_channel_rights rows st =
     fold (\<lambda>(name, flags, delay, joinmsg, delaymsg, moderators).
             set_channel_rights_for name \<lparr>cr_flags = flags, cr_speak_delay = delay, cr_join_message = joinmsg,
               cr_speak_message = delaymsg, cr_moderators = moderator_set moderators\<rparr>)
       rows (st\<lparr>cs_rights := []\<rparr>)"

end
