(* ===== verification/ChannelHandlers.thy ===== *)
theory ChannelHandlers
  imports ChannelMgr
begin

text \<open>
  The packets of clients about channels (src/server/game/Handlers/ChannelHandler.cpp), the
  channels a player joins and leaves as he moves (\<open>Player::UpdateLocalChannels\<close>,
  PlayerUpdates.cpp) and leaves for good (\<open>Player::CleanupChannels\<close>, Player.cpp), and what is
  said on them (\<open>HandleMessagechatOpcode\<close>, ChatHandler.cpp). Each handler is the whole function;
  an exception of the packet's reads leaves it before it changes anything.
\<close>

section \<open>What the handlers read\<close>

text \<open>
  Beside \<open>chan_env\<close>: the areas, the rows and name patterns of the channels of the client
  (DBC stores), the locale of a player's session, his guild and whether he is loading, the
  configuration, and the scripts' answers.
\<close>

record chat_world =
  cw_env :: chan_env
  cw_area_flags :: "u32 \<Rightarrow> u32 option"
  cw_area_name :: "u32 \<Rightarrow> nat \<Rightarrow> bytes"
  cw_rows :: nat
  cw_pattern :: "u32 \<Rightarrow> nat \<Rightarrow> bytes"
  cw_city_name :: bytes
  cw_locale :: "guid \<Rightarrow> nat"
  cw_guild :: "guid \<Rightarrow> u32"
  cw_loading :: "guid \<Rightarrow> bool"
  cw_teleported_far :: "guid \<Rightarrow> bool"
  cw_lfg_everywhere :: bool
  cw_kick_links :: bool
  cw_channel_level :: u32
  cw_may_chat :: "guid \<Rightarrow> bytes \<Rightarrow> bool"
  cw_on_chat :: "bytes \<Rightarrow> bytes"

definition manager_of :: "chat_world \<Rightarrow> player_info \<Rightarrow> u8 option" where
  "manager_of w p = for_team (we_two_side_channel (ce_world (cw_env w))) (pl_team p)"

definition can_join_constant_channel_in_zone :: "chat_world \<Rightarrow> player_info \<Rightarrow> u32 \<Rightarrow> u32 \<Rightarrow> bool" where
  "can_join_constant_channel_in_zone w p channel_flags zone_flags =
     (if channel_flags AND CHANNEL_DBC_FLAG_LFG \<noteq> 0 \<and> cw_lfg_everywhere w then True
      else if channel_flags AND CHANNEL_DBC_FLAG_ZONE_DEP \<noteq> 0 \<and> zone_flags AND AREA_FLAG_ARENA_INSTANCE \<noteq> 0 then False
      else if channel_flags AND CHANNEL_DBC_FLAG_CITY_ONLY \<noteq> 0 \<and> zone_flags AND AREA_FLAG_SLAVE_CAPITAL = 0 then False
      else if channel_flags AND CHANNEL_DBC_FLAG_GUILD_REQ \<noteq> 0 \<and> cw_guild w (pl_guid p) \<noteq> 0 then False
      else True)"

definition disallow_hyperlinks_and_maybe_kick :: "chat_world \<Rightarrow> player_info \<Rightarrow> bytes \<Rightarrow> chat_state \<Rightarrow> bool \<times> chat_state" where
  "disallow_hyperlinks_and_maybe_kick w p s st =
     (if 0x7c \<notin> set s then (True, st)
      else (False, if cw_kick_links w then chat_log (KickSession (pl_guid p)) st else st))"

definition is_digit :: "u8 \<Rightarrow> bool" where
  "is_digit c \<longleftrightarrow> 0x30 \<le> c \<and> c \<le> 0x39"

section \<open>Joining and the other requests\<close>

definition handle_join_channel :: "chat_world \<Rightarrow> bool \<Rightarrow> player_info \<Rightarrow> byte_buffer \<Rightarrow> chat_state
    \<Rightarrow> bb_error + chat_state" where
  "handle_join_channel w garbage p packet st =
     res_bind (bb_get_u32 packet) (\<lambda>(channelId, packet).
     res_bind (bb_get_u8 packet) (\<lambda>(_, packet).
     res_bind (bb_get_u8 packet) (\<lambda>(_, packet).
     res_bind (bb_get_string packet) (\<lambda>(channelName, packet).
     res_bind (bb_get_string packet) (\<lambda>(pass, _).
       if channelId \<noteq> 0 \<and> (case ce_dbc_flags (cw_env w) channelId of
             None \<Rightarrow> True
           | Some flags \<Rightarrow> (case cw_area_flags w (pl_zone p) of
               None \<Rightarrow> True
             | Some zone \<Rightarrow> \<not> can_join_constant_channel_in_zone w p flags zone)) then Inr st
       else if channelName = [] then Inr st
       else if is_digit (hd channelName) then Inr st
       else if length channelName \<ge> 100 then Inr st
       else let (allowed, st) = disallow_hyperlinks_and_maybe_kick w p channelName st in
         if \<not> allowed then Inr st
         else case manager_of w p of
           None \<Rightarrow> Inr st
         | Some mgr \<Rightarrow>
             let (k, st) = get_join_channel (cw_env w) garbage mgr channelName channelId st
             in Inr (on_channel k (join_channel (cw_env w) p pass) st))))))"

text \<open>The two lines most handlers end with: find the channel, and call it.\<close>

definition with_channel :: "chat_world \<Rightarrow> player_info \<Rightarrow> bytes \<Rightarrow> guid option \<Rightarrow> (chan_key \<Rightarrow> chat_state \<Rightarrow> chat_state)
    \<Rightarrow> chat_state \<Rightarrow> chat_state" where
  "with_channel w p name notify f st = (case manager_of w p of
     None \<Rightarrow> st
   | Some mgr \<Rightarrow>
       (case get_channel mgr name (case notify of Some g \<Rightarrow> g | None \<Rightarrow> 0) (notify \<noteq> None) st of
          (None, st) \<Rightarrow> st
        | (Some k, st) \<Rightarrow> f k st))"

definition handle_leave_channel :: "chat_world \<Rightarrow> player_info \<Rightarrow> byte_buffer \<Rightarrow> chat_state \<Rightarrow> bb_error + chat_state" where
  "handle_leave_channel w p packet st =
     res_bind (bb_get_u32 packet) (\<lambda>(_, packet).
     res_bind (bb_get_string packet) (\<lambda>(channelName, _).
       if channelName = [] then Inr st
       else Inr (with_channel w p channelName (Some (pl_guid p))
         (\<lambda>k. on_channel k (leave_channel (cw_env w) p True)) st)))"

text \<open>The requests with only the name of a channel.\<close>

definition handle_plain :: "chat_world \<Rightarrow> player_info \<Rightarrow> (channel \<Rightarrow> channel) \<Rightarrow> byte_buffer \<Rightarrow> chat_state
    \<Rightarrow> bb_error + chat_state" where
  "handle_plain w p op packet st =
     res_bind (bb_get_string packet) (\<lambda>(channelName, _).
       Inr (with_channel w p channelName (Some (pl_guid p)) (\<lambda>k. on_channel k op) st))"

definition handle_channel_list :: "chat_world \<Rightarrow> player_info \<Rightarrow> byte_buffer \<Rightarrow> chat_state \<Rightarrow> bb_error + chat_state" where
  "handle_channel_list w p = handle_plain w p (chan_list (cw_env w) p)"

definition handle_channel_owner :: "chat_world \<Rightarrow> player_info \<Rightarrow> byte_buffer \<Rightarrow> chat_state \<Rightarrow> bb_error + chat_state" where
  "handle_channel_owner w p = handle_plain w p (send_who_owner (cw_env w) (pl_guid p))"

definition handle_channel_announcements :: "chat_world \<Rightarrow> player_info \<Rightarrow> byte_buffer \<Rightarrow> chat_state
    \<Rightarrow> bb_error + chat_state" where
  "handle_channel_announcements w p = handle_plain w p (announce (cw_env w) p)"

definition handle_channel_moderate :: "chat_world \<Rightarrow> player_info \<Rightarrow> byte_buffer \<Rightarrow> chat_state \<Rightarrow> bb_error + chat_state" where
  "handle_channel_moderate w p = handle_plain w p (toggle_moderation (cw_env w) p)"

definition handle_channel_password :: "chat_world \<Rightarrow> player_info \<Rightarrow> byte_buffer \<Rightarrow> chat_state \<Rightarrow> bb_error + chat_state" where
  "handle_channel_password w p packet st =
     res_bind (bb_get_string packet) (\<lambda>(channelName, packet).
     res_bind (bb_get_string packet) (\<lambda>(pass, _).
       if length pass > MAX_CHANNEL_PASS_STR then Inr st
       else Inr (with_channel w p channelName (Some (pl_guid p)) (\<lambda>k. on_channel k (password (cw_env w) p pass)) st)))"

text \<open>The requests that name a player, whose name is normalized first.\<close>

definition handle_named :: "chat_world \<Rightarrow> player_info \<Rightarrow> (bytes \<Rightarrow> channel \<Rightarrow> channel) \<Rightarrow> byte_buffer \<Rightarrow> chat_state
    \<Rightarrow> bb_error + chat_state" where
  "handle_named w p op packet st =
     res_bind (bb_get_string packet) (\<lambda>(channelName, packet).
     res_bind (bb_get_string packet) (\<lambda>(targetName, _).
       case normalize_player_name targetName of
         None \<Rightarrow> Inr st
       | Some target \<Rightarrow> Inr (with_channel w p channelName (Some (pl_guid p)) (\<lambda>k. on_channel k (op target)) st)))"

definition handle_channel_set_owner :: "chat_world \<Rightarrow> player_info \<Rightarrow> byte_buffer \<Rightarrow> chat_state \<Rightarrow> bb_error + chat_state" where
  "handle_channel_set_owner w p = handle_named w p (set_owner (cw_env w) p)"

definition handle_channel_moderator :: "chat_world \<Rightarrow> player_info \<Rightarrow> byte_buffer \<Rightarrow> chat_state \<Rightarrow> bb_error + chat_state" where
  "handle_channel_moderator w p = handle_named w p (\<lambda>t. set_mode (cw_env w) p t True True)"

definition handle_channel_unmoderator :: "chat_world \<Rightarrow> player_info \<Rightarrow> byte_buffer \<Rightarrow> chat_state \<Rightarrow> bb_error + chat_state" where
  "handle_channel_unmoderator w p = handle_named w p (\<lambda>t. set_mode (cw_env w) p t True False)"

definition handle_channel_mute :: "chat_world \<Rightarrow> player_info \<Rightarrow> byte_buffer \<Rightarrow> chat_state \<Rightarrow> bb_error + chat_state" where
  "handle_channel_mute w p = handle_named w p (\<lambda>t. set_mode (cw_env w) p t False True)"

definition handle_channel_unmute :: "chat_world \<Rightarrow> player_info \<Rightarrow> byte_buffer \<Rightarrow> chat_state \<Rightarrow> bb_error + chat_state" where
  "handle_channel_unmute w p = handle_named w p (\<lambda>t. set_mode (cw_env w) p t False False)"

definition handle_channel_invite :: "chat_world \<Rightarrow> player_info \<Rightarrow> byte_buffer \<Rightarrow> chat_state \<Rightarrow> bb_error + chat_state" where
  "handle_channel_invite w p = handle_named w p (invite (cw_env w) p)"

definition handle_channel_kick :: "chat_world \<Rightarrow> player_info \<Rightarrow> byte_buffer \<Rightarrow> chat_state \<Rightarrow> bb_error + chat_state" where
  "handle_channel_kick w p = handle_named w p (\<lambda>t. kick_or_ban (cw_env w) p t False)"

definition handle_channel_ban :: "chat_world \<Rightarrow> player_info \<Rightarrow> byte_buffer \<Rightarrow> chat_state \<Rightarrow> bb_error + chat_state" where
  "handle_channel_ban w p = handle_named w p (\<lambda>t. kick_or_ban (cw_env w) p t True)"

definition handle_channel_unban :: "chat_world \<Rightarrow> player_info \<Rightarrow> byte_buffer \<Rightarrow> chat_state \<Rightarrow> bb_error + chat_state" where
  "handle_channel_unban w p = handle_named w p (unban (cw_env w) p)"

definition member_count_packet :: "channel \<Rightarrow> world_packet" where
  "member_count_packet c = WorldPacket SMSG_CHANNEL_MEMBER_COUNT
     [FStr (ch_name c), FU8 (ch_flags c), FU32 (word_of_nat (num_players c))]"

definition handle_get_channel_member_count :: "chat_world \<Rightarrow> player_info \<Rightarrow> byte_buffer \<Rightarrow> chat_state
    \<Rightarrow> bb_error + chat_state" where
  "handle_get_channel_member_count w p packet st =
     res_bind (bb_get_string packet) (\<lambda>(channelName, _).
       Inr (with_channel w p channelName (Some (pl_guid p))
         (\<lambda>k st. case map_of (cs_channels st) k of
            None \<Rightarrow> st | Some c \<Rightarrow> chat_log (SendPacket (pl_guid p) (member_count_packet c)) st) st))"

definition clear_channel_watch :: "guid \<Rightarrow> chat_state \<Rightarrow> chat_state" where
  "clear_channel_watch g st = fold (\<lambda>k. on_channel k (remove_watching g)) (cs_joined st g) st"

definition handle_set_channel_watch :: "chat_world \<Rightarrow> player_info \<Rightarrow> byte_buffer \<Rightarrow> chat_state \<Rightarrow> bb_error + chat_state" where
  "handle_set_channel_watch w p packet st =
     res_bind (bb_get_string packet) (\<lambda>(channelName, _).
       let st = clear_channel_watch (pl_guid p) st in
       if channelName = [] then Inr st
       else Inr (with_channel w p channelName None (\<lambda>k. on_channel k (add_watching p)) st))"

definition handle_clear_channel_watch :: "chat_world \<Rightarrow> player_info \<Rightarrow> byte_buffer \<Rightarrow> chat_state \<Rightarrow> bb_error + chat_state" where
  "handle_clear_channel_watch w p packet st =
     res_bind (bb_get_string packet) (\<lambda>(channelName, _).
       if channelName = [] then Inr st
       else Inr (with_channel w p channelName None (\<lambda>k. on_channel k (remove_watching (pl_guid p))) st))"

section \<open>Speaking\<close>

text \<open>The last part of \<open>HandleMessagechatOpcode\<close> for a channel; \<open>None\<close> is the assertion of the chat packet.\<close>

definition handle_channel_message :: "chat_world \<Rightarrow> player_info \<Rightarrow> bytes \<Rightarrow> bytes \<Rightarrow> u32 \<Rightarrow> chat_state \<Rightarrow> chat_state option" where
  "handle_channel_message w p channel msg lang st =
     (if is_player_level (pl_security p) \<and> ucast (pl_level p) < cw_channel_level w
      then Some (chat_log (Notification (pl_guid p)) st)
      else case manager_of w p of
        None \<Rightarrow> Some st
      | Some mgr \<Rightarrow>
          (case get_channel mgr channel (pl_guid p) True st of
             (None, st) \<Rightarrow> Some st
           | (Some k, st) \<Rightarrow>
               if \<not> cw_may_chat w (pl_guid p) msg then Some st
               else
                 let said = say (cw_env w) (pl_guid p) (takeWhile (\<lambda>b. b \<noteq> 0) (cw_on_chat w msg)) lang in
                 (case map_of (cs_channels st) k of
                    None \<Rightarrow> Some st
                  | Some c \<Rightarrow>
                      (case said (c\<lparr>ch_log := []\<rparr>) of
                         None \<Rightarrow> None
                       | Some c' \<Rightarrow> Some (on_channel k (\<lambda>_. c') st)))))"

section \<open>Moving and leaving\<close>

text \<open>\<open>snprintf\<close> with one string argument; \<open>None\<close> where the format asks for anything else.\<close>

fun format_name :: "bytes \<Rightarrow> bytes \<Rightarrow> bool \<Rightarrow> bytes option" where
  "format_name [] ext unused = Some []"
| "format_name (c # fmt) ext unused =
     (if c \<noteq> 0x25 then map_option (Cons c) (format_name fmt ext unused)
      else case fmt of
        [] \<Rightarrow> None
      | d # fmt' \<Rightarrow>
          if d = 0x25 then map_option (Cons 0x25) (format_name fmt' ext unused)
          else if d = 0x73 \<and> unused then map_option (append ext) (format_name fmt' ext False)
          else None)"

definition channel_id_of :: "chat_state \<Rightarrow> chan_key \<Rightarrow> u32" where
  "channel_id_of st k = (case map_of (cs_channels st) k of Some c \<Rightarrow> ch_id c | None \<Rightarrow> 0)"

text \<open>
  One round of the loop of \<open>UpdateLocalChannels\<close>: the channel to join, the one to leave, and
  whether the client is told of the leave.
\<close>

definition local_channel_choice :: "chat_world \<Rightarrow> bool \<Rightarrow> player_info \<Rightarrow> u8 \<Rightarrow> u32 \<Rightarrow> bytes \<Rightarrow> u32 \<Rightarrow> u32 \<Rightarrow> chat_state
    \<Rightarrow> (chan_key option \<times> chan_key option \<times> bool \<times> chat_state) option" where
  "local_channel_choice w garbage p mgr zone_flags zone_name i flags st =
     (let used = find (\<lambda>k. channel_id_of st k = i) (cs_joined st (pl_guid p));
          pattern = cw_pattern w i (cw_locale w (pl_guid p)) in
      if can_join_constant_channel_in_zone w p flags zone_flags then
        if flags AND CHANNEL_DBC_FLAG_GLOBAL = 0 then
          if flags AND CHANNEL_DBC_FLAG_CITY_ONLY \<noteq> 0 \<and> used \<noteq> None then Some (None, None, True, st)
          else
            let ext = (if flags AND CHANNEL_DBC_FLAG_CITY_ONLY \<noteq> 0 then cw_city_name w else zone_name) in
            (case format_name pattern ext True of
               None \<Rightarrow> None
             | Some name \<Rightarrow>
                 let (k, st) = get_join_channel (cw_env w) garbage mgr (take 99 name) i st in
                 (case used of
                    None \<Rightarrow> Some (Some k, None, True, st)
                  | Some u \<Rightarrow> if k \<noteq> u then Some (Some k, Some u, False, st) else Some (None, None, True, st)))
        else
          let (k, st) = get_join_channel (cw_env w) garbage mgr pattern i st
          in Some (Some k, None, True, st)
      else Some (None, used, True, st))"

definition local_channel :: "chat_world \<Rightarrow> bool \<Rightarrow> player_info \<Rightarrow> u8 \<Rightarrow> u32 \<Rightarrow> bytes \<Rightarrow> u32 \<Rightarrow> chat_state \<Rightarrow> chat_state option" where
  "local_channel w garbage p mgr zone_flags zone_name i st =
     (case ce_dbc_flags (cw_env w) i of
        None \<Rightarrow> Some st
      | Some flags \<Rightarrow>
          map_option (\<lambda>(joining, leaving, tell, st).
            let st = (case joining of Some k \<Rightarrow> on_channel k (join_channel (cw_env w) p []) st | None \<Rightarrow> st)
            in case leaving of
                 Some k \<Rightarrow> left_channel (pl_guid p) k (on_channel k (leave_channel (cw_env w) p tell) st)
               | None \<Rightarrow> st)
            (local_channel_choice w garbage p mgr zone_flags zone_name i flags st))"

fun local_channels_loop :: "chat_world \<Rightarrow> bool \<Rightarrow> player_info \<Rightarrow> u8 \<Rightarrow> u32 \<Rightarrow> bytes \<Rightarrow> nat list \<Rightarrow> chat_state \<Rightarrow> chat_state option" where
  "local_channels_loop w garbage p mgr zone_flags zone_name [] st = Some st"
| "local_channels_loop w garbage p mgr zone_flags zone_name (i # rows) st =
     (case local_channel w garbage p mgr zone_flags zone_name (word_of_nat i) st of
        None \<Rightarrow> None
      | Some st \<Rightarrow> local_channels_loop w garbage p mgr zone_flags zone_name rows st)"

definition update_local_channels :: "chat_world \<Rightarrow> bool \<Rightarrow> player_info \<Rightarrow> u32 \<Rightarrow> chat_state \<Rightarrow> chat_state option" where
  "update_local_channels w garbage p newZone st =
     (if cw_loading w (pl_guid p) \<and> \<not> cw_teleported_far w (pl_guid p) then Some st
      else case cw_area_flags w newZone of
        None \<Rightarrow> Some st
      | Some zone_flags \<Rightarrow>
          (case manager_of w p of
             None \<Rightarrow> Some st
           | Some mgr \<Rightarrow> local_channels_loop w garbage p mgr zone_flags
               (cw_area_name w newZone (cw_locale w (pl_guid p))) [0..<cw_rows w] st))"

text \<open>
  \<open>CleanupChannels\<close>: takes the first channel off the list and leaves it, until the list is
  empty. A silent leave does not touch the list, so the loop runs over the list it finds.
\<close>

fun cleanup_loop :: "chan_env \<Rightarrow> player_info \<Rightarrow> chan_key list \<Rightarrow> chat_state \<Rightarrow> chat_state" where
  "cleanup_loop e p [] st = st"
| "cleanup_loop e p (k # ks) st =
     cleanup_loop e p ks (on_channel k (leave_channel e p False) (st\<lparr>cs_joined := (cs_joined st)(pl_guid p := ks)\<rparr>))"

definition cleanup_channels :: "chan_env \<Rightarrow> player_info \<Rightarrow> chat_state \<Rightarrow> chat_state" where
  "cleanup_channels e p st = cleanup_loop e p (cs_joined st (pl_guid p)) st"

end
