(* ===== verification/ChannelMoves.thy ===== *)
theory ChannelMoves
  imports ChannelHandlers
begin

text \<open>
  Who is on a channel after a call, and what the call reports to the players: the two calls
  \<open>JoinedChannel\<close> and \<open>LeftChannel\<close> back to \<open>Player\<close> match the change of the members exactly.
\<close>

section \<open>The reports in a log\<close>

fun is_move :: "chan_effect \<Rightarrow> bool" where
  "is_move (JoinedChannel g) = True"
| "is_move (LeftChannel g) = True"
| "is_move ef = False"

definition moves :: "chan_effect list \<Rightarrow> chan_effect list" where
  "moves ls = filter is_move ls"

text \<open>A member whose pointer is set; with the invariant of channels, every member.\<close>

definition present :: "channel \<Rightarrow> guid \<Rightarrow> bool" where
  "present c g \<longleftrightarrow> (case map_of (ch_players c) g of Some m \<Rightarrow> cm_ptr m \<noteq> None | None \<Rightarrow> False)"

lemma present_is_on: "chan_inv e c \<Longrightarrow> present c g \<longleftrightarrow> is_on c g"
  using core_invD(2) [OF inv_core] by (auto simp: present_def is_on_def member_ok_def split: option.splits)

text \<open>The reports so far and the members.\<close>

definition mem :: "chan_effect list \<Rightarrow> guid set \<Rightarrow> channel \<Rightarrow> bool" where
  "mem M S c \<longleftrightarrow> moves (ch_log c) = M \<and> {g. present c g} = S"

lemma mem_log: "\<not> is_move ef \<Longrightarrow> mem M S c \<Longrightarrow> mem M S (chan_log ef c)"
  by (auto simp: mem_def chan_log_def moves_def present_def)

lemma mem_move: "is_move ef \<Longrightarrow> mem M S c \<Longrightarrow> mem (M @ [ef]) S (chan_log ef c)"
  by (auto simp: mem_def chan_log_def moves_def present_def)

lemma mem_fold: "(\<And>x c. mem M S c \<Longrightarrow> mem M S (f x c)) \<Longrightarrow> mem M S c \<Longrightarrow> mem M S (fold f xs c)"
  by (induction xs arbitrary: c) auto

lemma mem_sends:
  "mem M S c \<Longrightarrow> mem M S (send_to_all e data g c)" "mem M S c \<Longrightarrow> mem M S (send_to_one e data g c)"
  "mem M S c \<Longrightarrow> mem M S (refuse_to e p data c)" "mem M S c \<Longrightarrow> mem M S (send_to_all_watching e data c)"
  by (auto simp: send_to_all_def send_to_one_def refuse_to_def send_to_all_watching_def
      intro!: mem_fold mem_log split: option.splits)

lemma mem_notify:
  "mem M S c \<Longrightarrow> mem M S (join_notify e p c)" "mem M S c \<Longrightarrow> mem M S (leave_notify e p c)"
  "mem M S c \<Longrightarrow> mem M S (flags_notify e ptr c)"
  by (auto simp: join_notify_def leave_notify_def flags_notify_def intro!: mem_sends mem_log split: option.splits)

lemma mem_db:
  "mem M S c \<Longrightarrow> mem M S (update_channel_in_db c)" "mem M S c \<Longrightarrow> mem M S (update_channel_usage_in_db c)"
  "mem M S c \<Longrightarrow> mem M S (add_channel_ban_to_db g t c)" "mem M S c \<Longrightarrow> mem M S (remove_channel_ban_from_db g c)"
  by (auto simp: update_channel_in_db_def update_channel_usage_in_db_def add_channel_ban_to_db_def
      remove_channel_ban_from_db_def intro: mem_log)

lemma mem_let: "mem M S a \<Longrightarrow> (\<And>x. mem M S x \<Longrightarrow> mem M' S' (f x)) \<Longrightarrow> mem M' S' (let x = a :: channel in f x)"
  by (simp add: Let_def)

lemma mem_let_value:
  "(\<And>x :: guid. mem M S (f x)) \<Longrightarrow> mem M S (let x = a in f x)"
  "(\<And>x :: bool. mem M S (g x)) \<Longrightarrow> mem M S (let x = b in g x)"
  "(\<And>x :: u8. mem M S (h x)) \<Longrightarrow> mem M S (let x = d in h x)"
  "(\<And>x :: u32. mem M S (k x)) \<Longrightarrow> mem M S (let x = v in k x)"
  by simp_all

lemma mem_branch:
  "mem M S x \<Longrightarrow> mem M S y \<Longrightarrow> mem M S (if b then x else y)"
  "mem M S x \<Longrightarrow> (\<And>v. mem M S (f v)) \<Longrightarrow> mem M S (case r of None \<Rightarrow> x | Some v \<Rightarrow> f v)"
  "(\<And>u v. mem M S (g u v)) \<Longrightarrow> mem M S (case w of (u, v) \<Rightarrow> g u v)"
  by (auto split: option.splits prod.splits)

lemma mem_change:
  "mem M S c \<Longrightarrow> mem M S (update_member g (set_flag fl st) c)"
  "mem M S c \<Longrightarrow> mem M S (update_member g id c)"
  "mem M S c \<Longrightarrow> mem M S (update_member g (\<lambda>m. m\<lparr>cm_gm := b\<rparr>) c)"
  "mem M S c \<Longrightarrow> mem M S (remove_watching g c)" "mem M S c \<Longrightarrow> mem M S (add_watching p c)"
  "mem M S c \<Longrightarrow> mem M S (add_ban g t c)" "mem M S c \<Longrightarrow> mem M S (c\<lparr>ch_owner := g\<rparr>)"
  "mem M S c \<Longrightarrow> mem M S (c\<lparr>ch_owner_gm := b\<rparr>)" "mem M S c \<Longrightarrow> mem M S (c\<lparr>ch_password := pw\<rparr>)"
  "mem M S c \<Longrightarrow> mem M S (c\<lparr>ch_announce := b\<rparr>)" "mem M S c \<Longrightarrow> mem M S (c\<lparr>ch_moderation := b\<rparr>)"
  "mem M S c \<Longrightarrow> mem M S (c\<lparr>ch_banned := bs\<rparr>)"
  by (auto simp: mem_def present_def update_member_def member_at_def map_of_AList_update set_flag_def
      member_default_def remove_watching_def add_watching_def add_ban_def split: option.splits)

lemma mem_erase: "mem M S c \<Longrightarrow> mem M (S - {g}) (erase_member g c)"
  by (auto simp: mem_def present_def erase_member_def map_of_AList_delete split: option.splits if_splits)

lemma mem_new_member: "mem M S c \<Longrightarrow> cm_ptr m \<noteq> None \<Longrightarrow> mem M (insert g S) (update_member g (\<lambda>_. m) c)"
  by (auto simp: mem_def present_def update_member_def map_of_AList_update split: option.splits)

lemmas mem_rules = mem_let mem_let_value mem_branch mem_change mem_sends mem_notify mem_db

lemma mem_set_owner: "mem M S c \<Longrightarrow> mem M S (set_owner_guid e g x c)"
  unfolding set_owner_guid_def unset_old_owner_def announce_owner_def by (intro mem_rules) assumption+

lemma mem_bad: "mem M S c \<Longrightarrow> mem M S (chan_log BadPointer c)"
  by (simp add: mem_log)

section \<open>What each call reports\<close>

lemma mem_join_custom: "mem M S c \<Longrightarrow> mem M S (join_custom e p c)"
  unfolding join_custom_def by (intro mem_rules mem_set_owner) assumption+

text \<open>The message of the day of the channel and the other logs of a join.\<close>

lemma mem_sys_message: "mem M S c \<Longrightarrow> mem M S (chan_log (SysMessage g s) c)"
  by (simp add: mem_log)

lemma join_moves:
  assumes "mem [] S c"
  shows "mem [] S (join_channel e p pass c)
    \<or> \<not> is_on c (pl_guid p) \<and> mem [JoinedChannel (pl_guid p)] (insert (pl_guid p) S) (join_channel e p pass c)"
proof (cases "is_on c (pl_guid p) \<or> is_banned e c (pl_guid p) \<or> ch_password c \<noteq> [] \<and> pass \<noteq> ch_password c
    \<or> chan_has_flag c CHANNEL_FLAG_LFG \<and> ce_restricted_lfg e \<and> is_player_level (pl_security p) \<and> ce_in_group e (pl_guid p)")
  case True
  then have "mem [] S (join_channel e p pass c)"
    using assms mem_sends(3) [OF assms] by (auto simp: join_channel_def Let_def [of "pl_guid p"])
  then show ?thesis ..
next
  case False
  let ?g = "pl_guid p"
  have j: "mem [JoinedChannel ?g] S (chan_log (JoinedChannel ?g) c)" using mem_move [OF _ assms] by simp
  have "mem [JoinedChannel ?g] (insert ?g S) (join_channel e p pass c)"
    unfolding join_channel_def Let_def [of "pl_guid p"] using False
    apply (simp only: if_False de_Morgan_disj)
    apply (rule mem_let [OF j])
    apply (rule mem_let)
     apply (rule mem_branch; (intro mem_sends)?; assumption)
    apply (rule mem_let)
     apply (erule mem_new_member)
     apply simp
    by (intro mem_rules mem_join_custom mem_sys_message) assumption+
  then show ?thesis using False by blast
qed

text \<open>A leave reports itself when the player is told.\<close>

lemma mem_next_owner:
  "mem M S c \<Longrightarrow> mem M S (case r of None \<Rightarrow> chan_log BadPointer c
     | Some (n, gm) \<Rightarrow> set_owner_guid e n x (c\<lparr>ch_owner_gm := gm\<rparr>))"
  by (auto intro!: mem_set_owner mem_change mem_bad split: option.splits)

lemma leave_moves:
  assumes "mem [] S c" "pl_guid p \<in> S" "is_on c (pl_guid p)"
  shows "mem (if send then [LeftChannel (pl_guid p)] else []) (S - {pl_guid p}) (leave_channel e p send c)"
proof -
  let ?g = "pl_guid p"
  let ?M = "if send then [LeftChannel ?g] else []"
  have l: "mem ?M S (if send then chan_log (LeftChannel ?g) (send_to_one e (make_you_left c) ?g c) else c)"
    using mem_move [OF _ mem_sends(2) [OF assms(1)], of "LeftChannel ?g"] assms(1) by simp
  show ?thesis unfolding leave_channel_def Let_def [of "pl_guid p"] using assms(3)
    apply (simp only: not_True_eq_False if_False)
    apply (rule mem_let [OF l])
    apply (rule mem_let_value)
    apply (rule mem_let)
     apply (erule mem_erase)
    by (intro mem_rules mem_next_owner mem_set_owner) assumption+
qed

lemma leave_not_on: "mem [] S c \<Longrightarrow> \<not> is_on c (pl_guid p) \<Longrightarrow> mem [] S (leave_channel e p send c)"
  by (simp add: leave_channel_def mem_sends)

lemma kick_moves:
  assumes "mem [] S c" "isOn \<Longrightarrow> \<exists>b. bad = Some b \<and> pl_guid b = v"
  shows "mem (if isOn then [LeftChannel v] else []) (if isOn then S - {v} else S) (kick_execute e p v isOn bad ban c)"
proof -
  let ?M = "if isOn then [LeftChannel v] else []" and ?S = "if isOn then S - {v} else S"
  have l: "mem ?M ?S (if isOn then let c = erase_member v d in (case bad of
        None \<Rightarrow> chan_log BadPointer c
      | Some b \<Rightarrow> leave_notify e b (remove_watching (pl_guid b) (chan_log (LeftChannel (pl_guid b)) c))) else d)"
    if "mem [] S d" for d
    using assms(2) mem_move [OF _ mem_erase [OF that, of v], of "LeftChannel v"] that
    by (auto intro!: mem_notify mem_change)
  show ?thesis unfolding kick_execute_def Let_def [of "pl_guid p"]
    apply (rule mem_let_value)
    apply (rule mem_let [of "[]" S])
     apply (auto simp: Let_def intro!: mem_sends mem_db mem_change assms(1)) [1]
    apply (rule mem_let)
     apply (erule l)
    apply (intro mem_rules mem_set_owner mem_bad)
    by assumption+
qed

lemma kick_or_ban_moves:
  assumes "step_ok e p c" "mem [] S c"
  shows "mem [] S (kick_or_ban e p n ban c)
    \<or> (\<exists>v. is_on c v \<and> mem [LeftChannel v] (S - {v}) (kick_or_ban e p n ban c))"
proof -
  have "mem [] S (kick_or_ban e p n ban c) \<or> (\<exists>v acc isOn bad. kick_target e p n ban c = Inr (v, acc, isOn, bad)
      \<and> kick_or_ban e p n ban c = kick_execute e p v isOn bad ban c)"
    using assms(2)
    by (auto simp: kick_or_ban_def Let_def mem_sends mem_log split: sum.splits prod.splits option.splits kick_refusal.splits)
  then show ?thesis
  proof (elim disjE exE conjE)
    fix v acc isOn bad
    assume t: "kick_target e p n ban c = Inr (v, acc, isOn, bad)"
      and k: "kick_or_ban e p n ban c = kick_execute e p v isOn bad ban c"
    show ?thesis using kick_moves [OF assms(2), of isOn bad v e p ban] kick_targetD(1) [OF assms(1) t] k
      by (cases isOn) auto
  qed simp
qed

text \<open>All other calls report nothing and leave the members as they are.\<close>

lemma mem_requests:
  assumes "mem [] S c"
  shows "mem [] S (unban e p n c)" "mem [] S (unban_guid e g c)" "mem [] S (password e p pass c)"
    "mem [] S (set_mode e p n md st c)" "mem [] S (set_owner e p n c)" "mem [] S (send_who_owner e g c)"
    "mem [] S (chan_list e p c)" "mem [] S (announce e p c)" "say e g what lang c = Some c' \<Longrightarrow> mem [] S c'"
    "mem [] S (invite e p n c)" "mem [] S (toggle_moderation e p c)"
proof -
  show "mem [] S (unban e p n c)" by (auto simp: unban_def Let_def intro!: mem_sends mem_db mem_change assms)
  show "mem [] S (unban_guid e g c)" by (auto simp: unban_guid_def intro!: mem_db mem_change assms)
  show "mem [] S (password e p pass c)" by (auto simp: password_def Let_def intro!: mem_sends mem_db mem_change assms)
  show "mem [] S (set_mode e p n md st c)"
    unfolding set_mode_def set_moderator_guid_def set_mute_guid_def
    by (intro mem_let_value mem_branch mem_let [OF mem_change(1) [OF assms]] mem_let [OF mem_sends(1)] mem_let [OF mem_change(1)]
        mem_sends mem_notify mem_change assms) assumption+
  show "mem [] S (set_owner e p n c)" unfolding set_owner_def by (intro mem_rules mem_set_owner assms)
  show "mem [] S (send_who_owner e g c)" unfolding send_who_owner_def by (intro mem_rules assms)
  show "mem [] S (chan_list e p c)" unfolding chan_list_def by (intro mem_rules mem_bad assms)
  show "mem [] S (announce e p c)" by (auto simp: announce_def Let_def intro!: mem_sends mem_db mem_change assms)
  show "mem [] S (toggle_moderation e p c)" unfolding toggle_moderation_def
    by (auto simp: Let_def intro!: mem_sends mem_change assms)
  show "mem [] S (invite e p n c)" unfolding invite_def
    by (auto simp: Let_def intro!: mem_sends assms split: option.splits)
  show "mem [] S c'" if "say e g what lang c = Some c'"
    using that assms by (auto simp: say_def Let_def intro!: mem_sends split: if_splits option.splits)
qed

end
