(* ===== verification/ChatSystem.thy ===== *)
theory ChatSystem
  imports ChannelMoves
begin

text \<open>
  All channels and players together: the server loads the channels, players send packets, move
  between zones and log out, and the world changes in between. In every state the lists of the
  players and the members of the channels agree, and every member is connected.
\<close>

section \<open>The system\<close>

definition CMSG_JOIN_CHANNEL :: u16 where "CMSG_JOIN_CHANNEL = 0x097"
definition CMSG_LEAVE_CHANNEL :: u16 where "CMSG_LEAVE_CHANNEL = 0x098"
definition CMSG_CHANNEL_LIST :: u16 where "CMSG_CHANNEL_LIST = 0x09A"
definition CMSG_CHANNEL_PASSWORD :: u16 where "CMSG_CHANNEL_PASSWORD = 0x09C"
definition CMSG_CHANNEL_SET_OWNER :: u16 where "CMSG_CHANNEL_SET_OWNER = 0x09D"
definition CMSG_CHANNEL_OWNER :: u16 where "CMSG_CHANNEL_OWNER = 0x09E"
definition CMSG_CHANNEL_MODERATOR :: u16 where "CMSG_CHANNEL_MODERATOR = 0x09F"
definition CMSG_CHANNEL_UNMODERATOR :: u16 where "CMSG_CHANNEL_UNMODERATOR = 0x0A0"
definition CMSG_CHANNEL_MUTE :: u16 where "CMSG_CHANNEL_MUTE = 0x0A1"
definition CMSG_CHANNEL_UNMUTE :: u16 where "CMSG_CHANNEL_UNMUTE = 0x0A2"
definition CMSG_CHANNEL_INVITE :: u16 where "CMSG_CHANNEL_INVITE = 0x0A3"
definition CMSG_CHANNEL_KICK :: u16 where "CMSG_CHANNEL_KICK = 0x0A4"
definition CMSG_CHANNEL_BAN :: u16 where "CMSG_CHANNEL_BAN = 0x0A5"
definition CMSG_CHANNEL_UNBAN :: u16 where "CMSG_CHANNEL_UNBAN = 0x0A6"
definition CMSG_CHANNEL_ANNOUNCEMENTS :: u16 where "CMSG_CHANNEL_ANNOUNCEMENTS = 0x0A7"
definition CMSG_CHANNEL_MODERATE :: u16 where "CMSG_CHANNEL_MODERATE = 0x0A8"
definition CMSG_CHANNEL_DISPLAY_LIST :: u16 where "CMSG_CHANNEL_DISPLAY_LIST = 0x3D2"
definition CMSG_GET_CHANNEL_MEMBER_COUNT :: u16 where "CMSG_GET_CHANNEL_MEMBER_COUNT = 0x3D4"
definition CMSG_SET_CHANNEL_WATCH :: u16 where "CMSG_SET_CHANNEL_WATCH = 0x3EF"
definition CMSG_CLEAR_CHANNEL_WATCH :: u16 where "CMSG_CLEAR_CHANNEL_WATCH = 0x3F3"

text \<open>The table of handlers (Opcodes.cpp), for the packets about channels.\<close>

definition handle_chat :: "chat_world \<Rightarrow> bool \<Rightarrow> player_info \<Rightarrow> u16 \<Rightarrow> byte_buffer \<Rightarrow> chat_state
    \<Rightarrow> bb_error + chat_state" where
  "handle_chat w garbage p opcode =
     (if opcode = CMSG_JOIN_CHANNEL then handle_join_channel w garbage p
      else if opcode = CMSG_LEAVE_CHANNEL then handle_leave_channel w p
      else if opcode = CMSG_CHANNEL_LIST \<or> opcode = CMSG_CHANNEL_DISPLAY_LIST then handle_channel_list w p
      else if opcode = CMSG_CHANNEL_PASSWORD then handle_channel_password w p
      else if opcode = CMSG_CHANNEL_SET_OWNER then handle_channel_set_owner w p
      else if opcode = CMSG_CHANNEL_OWNER then handle_channel_owner w p
      else if opcode = CMSG_CHANNEL_MODERATOR then handle_channel_moderator w p
      else if opcode = CMSG_CHANNEL_UNMODERATOR then handle_channel_unmoderator w p
      else if opcode = CMSG_CHANNEL_MUTE then handle_channel_mute w p
      else if opcode = CMSG_CHANNEL_UNMUTE then handle_channel_unmute w p
      else if opcode = CMSG_CHANNEL_INVITE then handle_channel_invite w p
      else if opcode = CMSG_CHANNEL_KICK then handle_channel_kick w p
      else if opcode = CMSG_CHANNEL_BAN then handle_channel_ban w p
      else if opcode = CMSG_CHANNEL_UNBAN then handle_channel_unban w p
      else if opcode = CMSG_CHANNEL_ANNOUNCEMENTS then handle_channel_announcements w p
      else if opcode = CMSG_CHANNEL_MODERATE then handle_channel_moderate w p
      else if opcode = CMSG_GET_CHANNEL_MEMBER_COUNT then handle_get_channel_member_count w p
      else if opcode = CMSG_SET_CHANNEL_WATCH then handle_set_channel_watch w p
      else if opcode = CMSG_CLEAR_CHANNEL_WATCH then handle_clear_channel_watch w p
      else (\<lambda>packet. Inr))"

text \<open>
  The steps. \<open>world\<close>: anything may change but the clock going back and a connected player
  vanishing; players log in by it. \<open>logout\<close>: the player leaves his channels, then is gone.
\<close>

abbreviation is_connected :: "chat_world \<Rightarrow> player_info \<Rightarrow> bool" where
  "is_connected w p \<equiv> we_connected (ce_world (cw_env w)) (pl_guid p) = Some p"

inductive chat_reach :: "chat_world \<Rightarrow> chat_state \<Rightarrow> bool" where
  load: "env_ok (cw_env w) \<Longrightarrow>
     chat_reach w (load_channels (cw_env w) garbage bans rows (load_channel_rights rights chat_empty))"
| request: "chat_reach w st \<Longrightarrow> is_connected w p \<Longrightarrow> handle_chat w garbage p opcode packet st = Inr st'
     \<Longrightarrow> chat_reach w st'"
| message: "chat_reach w st \<Longrightarrow> is_connected w p \<Longrightarrow> handle_channel_message w p channel msg lang st = Some st'
     \<Longrightarrow> chat_reach w st'"
| zone: "chat_reach w st \<Longrightarrow> is_connected w p \<Longrightarrow> update_local_channels w garbage p newZone st = Some st'
     \<Longrightarrow> chat_reach w st'"
| logout: "chat_reach w st \<Longrightarrow> is_connected w p \<Longrightarrow> env_ok (cw_env w') \<Longrightarrow> ce_time (cw_env w) \<le> ce_time (cw_env w')
     \<Longrightarrow> (\<And>g. g \<noteq> pl_guid p \<Longrightarrow> connected (cw_env w) g \<Longrightarrow> connected (cw_env w') g)
     \<Longrightarrow> chat_reach w' (cleanup_channels (cw_env w) p st)"
| world: "chat_reach w st \<Longrightarrow> env_ok (cw_env w') \<Longrightarrow> ce_time (cw_env w) \<le> ce_time (cw_env w')
     \<Longrightarrow> (\<And>g. connected (cw_env w) g \<Longrightarrow> connected (cw_env w') g) \<Longrightarrow> chat_reach w' st"

section \<open>What holds\<close>

definition chans_ok :: "chan_env \<Rightarrow> chat_state \<Rightarrow> bool" where
  "chans_ok e st \<longleftrightarrow> (\<forall>k c. map_of (cs_channels st) k = Some c \<longrightarrow> chan_inv e c \<and> members_connected e c \<and> ch_log c = [])"

definition on_key :: "chat_state \<Rightarrow> chan_key \<Rightarrow> guid \<Rightarrow> bool" where
  "on_key st k g \<longleftrightarrow> (case map_of (cs_channels st) k of Some c \<Rightarrow> is_on c g | None \<Rightarrow> False)"

definition lists_agree :: "chat_state \<Rightarrow> bool" where
  "lists_agree st \<longleftrightarrow> (\<forall>g. distinct (cs_joined st g) \<and> (\<forall>k. k \<in> set (cs_joined st g) \<longleftrightarrow> on_key st k g))"

definition no_bad_pointer :: "chat_state \<Rightarrow> bool" where
  "no_bad_pointer st \<longleftrightarrow> (\<forall>k. ChanEffect k BadPointer \<notin> set (cs_log st))"

definition chat_inv :: "chan_env \<Rightarrow> chat_state \<Rightarrow> bool" where
  "chat_inv e st \<longleftrightarrow> env_ok e \<and> chans_ok e st \<and> lists_agree st \<and> no_bad_pointer st"

lemma chat_invD:
  assumes "chat_inv e st"
  shows "env_ok e" "chans_ok e st" "lists_agree st" "no_bad_pointer st"
    "map_of (cs_channels st) k = Some c \<Longrightarrow> chan_inv e c \<and> members_connected e c \<and> ch_log c = []"
    "distinct (cs_joined st g)" "k \<in> set (cs_joined st g) \<longleftrightarrow> on_key st k g"
  using assms unfolding chat_inv_def chans_ok_def lists_agree_def by blast+

section \<open>A call of one channel\<close>

definition apply_moves :: "chan_key \<Rightarrow> chan_effect list \<Rightarrow> (guid \<Rightarrow> chan_key list) \<Rightarrow> guid \<Rightarrow> chan_key list" where
  "apply_moves k = fold (\<lambda>ef J. case ef of JoinedChannel g \<Rightarrow> J(g := J g @ [k])
     | LeftChannel g \<Rightarrow> J(g := removeAll k (J g)) | _ \<Rightarrow> J)"

lemma note_effects:
  "cs_channels (fold (note_effect k) ls st) = cs_channels st"
  "cs_log (fold (note_effect k) ls st) = cs_log st @ map (ChanEffect k) ls"
  "cs_rights (fold (note_effect k) ls st) = cs_rights st"
  "cs_id_max (fold (note_effect k) ls st) = cs_id_max st"
  "cs_joined (fold (note_effect k) ls st) = apply_moves k (moves ls) (cs_joined st)"
proof -
  have one: "cs_channels (note_effect k ef st) = cs_channels st" "cs_log (note_effect k ef st) = cs_log st @ [ChanEffect k ef]"
    "cs_rights (note_effect k ef st) = cs_rights st" "cs_id_max (note_effect k ef st) = cs_id_max st"
    "cs_joined (note_effect k ef st) = apply_moves k (moves [ef]) (cs_joined st)" for ef st
    by (cases ef; simp add: chat_log_def joined_channel_def left_channel_def apply_moves_def moves_def)+
  have app: "apply_moves k (moves (ef # ls)) J = apply_moves k (moves ls) (apply_moves k (moves [ef]) J)" for ef ls J
    by (simp add: moves_def apply_moves_def)
  show "cs_channels (fold (note_effect k) ls st) = cs_channels st"
    "cs_log (fold (note_effect k) ls st) = cs_log st @ map (ChanEffect k) ls"
    "cs_rights (fold (note_effect k) ls st) = cs_rights st"
    "cs_id_max (fold (note_effect k) ls st) = cs_id_max st"
    by (induction ls arbitrary: st) (simp_all add: one)
  show "cs_joined (fold (note_effect k) ls st) = apply_moves k (moves ls) (cs_joined st)"
  proof (induction ls arbitrary: st)
    case (Cons ef ls)
    show ?case unfolding fold_Cons o_apply Cons.IH one app [of ef ls] by (rule refl)
  qed (simp add: moves_def apply_moves_def)
qed

lemma on_channel_fields:
  assumes "map_of (cs_channels st) k = Some c" and f: "f (c\<lparr>ch_log := []\<rparr>) = c'"
  shows "map_of (cs_channels (on_channel k f st)) = (map_of (cs_channels st))(k \<mapsto> c'\<lparr>ch_log := []\<rparr>)"
    "cs_log (on_channel k f st) = cs_log st @ map (ChanEffect k) (ch_log c')"
    "cs_joined (on_channel k f st) = apply_moves k (moves (ch_log c')) (cs_joined st)"
  using assms by (simp_all add: on_channel_def Let_def note_effects update_conv')

text \<open>How the members of one channel and the reports of a call may change together.\<close>

definition moved :: "chan_env \<Rightarrow> channel \<Rightarrow> channel \<Rightarrow> bool" where
  "moved e c c' \<longleftrightarrow> (\<exists>S. S = {g. is_on c g} \<and>
     (mem [] S c' \<or> (\<exists>g. g \<notin> S \<and> connected e g \<and> mem [JoinedChannel g] (insert g S) c') \<or> (\<exists>g. mem [LeftChannel g] (S - {g}) c')))"

lemma fresh_log:
  assumes "chan_inv e c" "ch_log c = []"
  shows "c\<lparr>ch_log := []\<rparr> = c" "mem [] {g. is_on c g} c"
  using assms present_is_on [OF assms(1)] by (auto simp: mem_def moves_def)

lemma chan_exec_moved:
  assumes i: "chan_inv e c" "ch_log c = []" and w: "world_fits e cmd c" and x: "chan_exec e cmd c = Some c'"
    and told: "\<And>p. cmd \<noteq> LeaveChannel p False"
  shows "moved e c c'"
proof -
  note m = fresh_log(2) [OF i]
  have step: "step_ok e p c" if "cmd_player cmd = Some p" for p
    using w that by (auto simp: world_fits_def step_ok_def)
  have conn: "connected e (pl_guid p)" if "cmd_player cmd = Some p" for p
    using w that by (auto simp: world_fits_def connected_def)
  show ?thesis
  proof (cases cmd)
    case (JoinChannel p pass)
    then show ?thesis using x conn join_moves [OF m, of e p pass] by (auto simp: moved_def)
  next
    case (LeaveChannel p send)
    with told have send by (cases send) auto
    show ?thesis
    proof (cases "is_on c (pl_guid p)")
      case True
      then show ?thesis using leave_moves [OF m, of p True e] x LeaveChannel \<open>send\<close> by (auto simp: moved_def)
    next
      case False
      then show ?thesis using leave_not_on [OF m] x LeaveChannel by (auto simp: moved_def)
    qed
  next
    case (KickOrBan p n ban)
    with step have "step_ok e p c" by simp
    from kick_or_ban_moves [OF this m, of n ban] show ?thesis using x KickOrBan by (auto simp: moved_def)
  next
    case (AddWatching p)
    then show ?thesis using x mem_change(5) [OF m] by (auto simp: moved_def)
  next
    case (RemoveWatching g)
    then show ?thesis using x mem_change(4) [OF m] by (auto simp: moved_def)
  qed (use x mem_requests [OF m] in \<open>auto simp: moved_def\<close>)
qed

lemma lists_agree_update:
  assumes "lists_agree st" and "map_of (cs_channels st') = (map_of (cs_channels st))(k \<mapsto> c)"
    and "\<And>g. distinct (cs_joined st' g)" "\<And>g. k \<in> set (cs_joined st' g) \<longleftrightarrow> is_on c g"
    and "\<And>g k'. k' \<noteq> k \<Longrightarrow> k' \<in> set (cs_joined st' g) \<longleftrightarrow> k' \<in> set (cs_joined st g)"
  shows "lists_agree st'"
  unfolding lists_agree_def
proof (intro allI conjI)
  fix g k' show "k' \<in> set (cs_joined st' g) \<longleftrightarrow> on_key st' k' g"
  proof (cases "k' = k")
    case True
    then show ?thesis using assms(2,4) by (simp add: on_key_def)
  next
    case False
    have "k' \<in> set (cs_joined st g) \<longleftrightarrow> on_key st k' g" using assms(1) unfolding lists_agree_def by blast
    then show ?thesis using assms(2) assms(5) [OF False] False by (simp add: on_key_def)
  qed
qed (rule assms(3))

lemma apply_moves_simps:
  "apply_moves k [] J = J" "apply_moves k [JoinedChannel g] J = J(g := J g @ [k])"
  "apply_moves k [LeftChannel g] J = J(g := removeAll k (J g))"
  by (simp_all add: apply_moves_def)

lemma memD: "mem M S c \<Longrightarrow> present c g \<longleftrightarrow> g \<in> S"
  by (auto simp: mem_def)

lemma movedE:
  assumes "moved e c c'"
  obtains "moves (ch_log c') = []" "\<And>h. present c' h \<longleftrightarrow> is_on c h"
  | g where "\<not> is_on c g" "connected e g" "moves (ch_log c') = [JoinedChannel g]"
      "\<And>h. present c' h \<longleftrightarrow> h = g \<or> is_on c h"
  | g where "moves (ch_log c') = [LeftChannel g]" "\<And>h. present c' h \<longleftrightarrow> is_on c h \<and> h \<noteq> g"
proof -
  have m: "moves (ch_log c') = M" if "mem M S c'" for M S using that by (simp add: mem_def)
  show thesis using assms unfolding moved_def
    by (elim exE conjE disjE) (use m memD [of _ _ c'] that in auto)
qed

lemma moved_members:
  assumes "moved e c c'" "chan_inv e c'" "members_connected e c"
  shows "members_connected e c'"
  using assms memD [of _ _ c'] present_is_on [OF assms(2)] by (auto simp: moved_def members_connected_def)

lemma is_on_no_log [simp]: "is_on (c\<lparr>ch_log := []\<rparr>) g = is_on c g"
  by (simp add: is_on_def)

lemma chan_inv_no_log: "chan_inv e c \<Longrightarrow> chan_inv e (c\<lparr>ch_log := []\<rparr>)"
proof -
  have "owned (c\<lparr>ch_log := []\<rparr>) = owned c" "bans_kept e (c\<lparr>ch_log := []\<rparr>) = bans_kept e c"
    "is_constant (c\<lparr>ch_log := []\<rparr>) = is_constant c" "core_inv c \<Longrightarrow> core_inv (c\<lparr>ch_log := []\<rparr>)"
    by (simp_all add: owned_def bans_kept_def is_constant_def member_at_def is_banned_def core_inv_def)
  then show "chan_inv e c \<Longrightarrow> chan_inv e (c\<lparr>ch_log := []\<rparr>)" by (simp add: chan_inv_def)
qed

lemma members_connected_no_log [simp]: "members_connected e (c\<lparr>ch_log := []\<rparr>) = members_connected e c"
  by (simp add: members_connected_def)

lemma chans_ok_update:
  assumes "chans_ok e st" "map_of (cs_channels st') = (map_of (cs_channels st))(k \<mapsto> c'\<lparr>ch_log := []\<rparr>)"
    and "chan_inv e c'" "members_connected e c'"
  shows "chans_ok e st'"
  using assms chan_inv_no_log [OF assms(3)] unfolding chans_ok_def by (simp split: if_splits)

lemma no_bad_update:
  assumes "no_bad_pointer st" "cs_log st' = cs_log st @ map (ChanEffect k) ls" "BadPointer \<notin> set ls"
  shows "no_bad_pointer st'"
  using assms by (auto simp: no_bad_pointer_def)

lemma on_channel_ok:
  assumes i: "chat_inv e st" and k: "map_of (cs_channels st) k = Some c" and f: "f c = c'"
    and c': "chan_inv e c'" "moved e c c'"
  shows "chat_inv e (on_channel k f st)"
proof -
  let ?st = "on_channel k f st"
  have c: "chan_inv e c" "members_connected e c" "ch_log c = []" using chat_invD(5) [OF i k] by auto
  note o = on_channel_fields [OF k, unfolded fresh_log(1) [OF c(1,3)], where f = f, OF f]
  have J: "\<And>g. distinct (cs_joined st g)" "\<And>g. k \<in> set (cs_joined st g) \<longleftrightarrow> is_on c g"
    using chat_invD(6,7) [OF i] k by (auto simp: on_key_def)
  have on: "is_on c' g = present c' g" for g using present_is_on [OF c'(1)] by simp
  have "lists_agree ?st"
  proof (rule lists_agree_update [OF chat_invD(3) [OF i] o(1)])
    fix g k'
    from c'(2) show "distinct (cs_joined ?st g)"
      by (cases rule: movedE) (use J in \<open>auto simp: o(3) apply_moves_simps distinct_removeAll\<close>)
    from c'(2) show "k \<in> set (cs_joined ?st g) \<longleftrightarrow> is_on (c'\<lparr>ch_log := []\<rparr>) g"
      by (cases rule: movedE) (use J in \<open>auto simp: o(3) apply_moves_simps on\<close>)
    from c'(2) show "k' \<in> set (cs_joined ?st g) \<longleftrightarrow> k' \<in> set (cs_joined st g)" if "k' \<noteq> k"
      by (cases rule: movedE) (use that in \<open>auto simp: o(3) apply_moves_simps\<close>)
  qed
  moreover have "chans_ok e ?st"
    by (rule chans_ok_update [OF chat_invD(2) [OF i] o(1) c'(1) moved_members [OF c'(2,1) c(2)]])
  moreover have "no_bad_pointer ?st"
    by (rule no_bad_update [OF chat_invD(4) [OF i] o(2) core_invD(6) [OF inv_core [OF c'(1)]]])
  ultimately show ?thesis using chat_invD(1) [OF i] by (simp add: chat_inv_def)
qed

text \<open>A call of the program on a channel that is there.\<close>

lemma on_channel_exec:
  assumes i: "chat_inv e st" and f: "\<And>c. chan_exec e cmd c = Some (f c)" and told: "\<And>p. cmd \<noteq> LeaveChannel p False"
    and p: "\<And>p. cmd_player cmd = Some p \<Longrightarrow> we_connected (ce_world e) (pl_guid p) = Some p"
  shows "chat_inv e (on_channel k f st)"
proof (cases "map_of (cs_channels st) k")
  case None
  then show ?thesis using i by (simp add: on_channel_def)
next
  case (Some c)
  have c: "chan_inv e c" "members_connected e c" "ch_log c = []" using chat_invD(5) [OF i Some] by auto
  have w: "world_fits e cmd c" using p c(2) chat_invD(1) [OF i] by (auto simp: world_fits_def split: option.splits)
  show ?thesis
    by (rule on_channel_ok [OF i Some _ chan_exec_inv [OF w c(1) f] chan_exec_moved [OF c(1,3) w f told]]) simp
qed

text \<open>A silent leave, with the player's list already or afterwards cleared of the channel.\<close>

lemma silent_leave:
  assumes i: "chat_inv e st" and p: "we_connected (ce_world e) (pl_guid p) = Some p"
    and k: "map_of (cs_channels st) k = Some c" and J: "\<And>g. distinct (J g)"
    "\<And>g. set (J g) = (if g = pl_guid p then set (cs_joined st g) - {k} else set (cs_joined st g))"
    and st': "cs_channels st' = cs_channels st" "cs_log st' = cs_log st"
    "cs_joined (on_channel k (leave_channel e p False) st') = J"
  shows "chat_inv e (on_channel k (leave_channel e p False) st')"
proof -
  let ?st = "on_channel k (leave_channel e p False) st'" and ?c = "leave_channel e p False c"
  have c: "chan_inv e c" "members_connected e c" "ch_log c = []" using chat_invD(5) [OF i k] by auto
  have k': "map_of (cs_channels st') k = Some c" using k st' by simp
  note o = on_channel_fields [OF k', unfolded fresh_log(1) [OF c(1,3)], where f = "leave_channel e p False", OF refl]
  have s: "step_ok e p c" using p c(2) chat_invD(1) [OF i] by (simp add: step_ok_def)
  have inv: "chan_inv e ?c" by (rule leave_channel_inv [OF s c(1)])
  have m: "mem [] ({g. is_on c g} - {pl_guid p}) ?c"
    using leave_moves [OF fresh_log(2) [OF c(1,3)], of p False e] leave_not_on [OF fresh_log(2) [OF c(1,3)], of p e False]
    by (cases "is_on c (pl_guid p)") auto
  have on: "is_on ?c g \<longleftrightarrow> is_on c g \<and> g \<noteq> pl_guid p" for g
    using m present_is_on [OF inv] by (auto simp: mem_def)
  have "lists_agree ?st"
  proof (rule lists_agree_update [OF chat_invD(3) [OF i] o(1) [unfolded st']])
    fix g k'
    show "distinct (cs_joined ?st g)" using J(1) st'(3) by simp
    show "k \<in> set (cs_joined ?st g) \<longleftrightarrow> is_on (?c\<lparr>ch_log := []\<rparr>) g"
      using J(2) st'(3) chat_invD(7) [OF i, of k g] k on by (auto simp: on_key_def)
    show "k' \<in> set (cs_joined ?st g) \<longleftrightarrow> k' \<in> set (cs_joined st g)" if "k' \<noteq> k"
      using J(2) st'(3) that by auto
  qed
  moreover have "members_connected e ?c" using c(2) on by (simp add: members_connected_def)
  then have "chans_ok e ?st" by (rule chans_ok_update [OF chat_invD(2) [OF i] o(1) [unfolded st'] inv])
  moreover have "no_bad_pointer ?st"
    by (rule no_bad_update [OF chat_invD(4) [OF i] o(2) [unfolded st'] core_invD(6) [OF inv_core [OF inv]]])
  moreover have "moves (ch_log ?c) = []" using m by (simp add: mem_def)
  ultimately show ?thesis using chat_invD(1) [OF i] by (simp add: chat_inv_def)
qed

end
