(* ===== verification/ChannelClaims.thy ===== *)
theory ChannelClaims
  imports ChannelRuns
begin

text \<open>A fresh ban runs for \<open>CHANNEL_BAN_DURATION\<close> seconds from now.\<close>

lemma kick_execute_fresh_ban:
  assumes "\<not> is_banned e c v"
  shows "map_of (ch_banned (kick_execute e p v isOn bad True c)) v = Some (word_of_int (ce_time e + CHANNEL_BAN_DURATION))"
proof -
  let ?t = "word_of_int (ce_time e + CHANNEL_BAN_DURATION) :: u32"
  have "keeps {v} {} (add_ban v ?t c) (kick_execute e p v isOn bad True c)"
    unfolding kick_execute_def if_True if_P [OF assms] Let_def [of ?t]
    by (intro keeps_let keeps_let_value keeps_branch keeps_change(1-6) keeps_set_owner
        only_log_sends [THEN keeps_log [rotated]] only_log_notify [THEN keeps_log [rotated]]
        only_log_db [THEN keeps_log [rotated]] only_log_log [THEN keeps_log [rotated]])
      (assumption | rule keeps_refl | simp)+
  from keepsD(5) [OF this, of v] show ?thesis by (simp add: add_ban_def map_of_AList_update)
qed

lemma fresh_ban:
  assumes "\<not> is_banned e c v" "is_banned e (kick_or_ban e p n True c) v"
  shows "map_of (ch_banned (kick_or_ban e p n True c)) v = Some (word_of_int (ce_time e + CHANNEL_BAN_DURATION))"
proof (rule kick_or_ban_cases [of c e p n True])
  assume "only_log c (kick_or_ban e p n True c)"
  then show ?thesis using assms by (auto simp: only_log_def is_banned_def)
next
  fix w acc isOn bad
  assume k: "kick_or_ban e p n True c = kick_execute e p w isOn bad True c"
  show ?thesis
  proof (cases "w = v")
    case True
    then show ?thesis using k kick_execute_fresh_ban [OF assms(1)] by simp
  next
    case False
    then have "map_of (ch_banned (kick_or_ban e p n True c)) v = map_of (ch_banned c) v"
      using k keepsD(5) [OF keeps_kick_execute [where v = w and ban = True and c = c], of v] by simp
    then show ?thesis using assms by (simp add: is_banned_def)
  qed
qed

section \<open>An example channel\<close>

definition ann :: player_info where
  "ann = \<lparr>pl_guid = 7, pl_name = str ''Ann'', pl_team = 0, pl_security = 0, pl_account = 1, pl_zone = 12, pl_level = 80,
     pl_class = 1, pl_afk = False, pl_dnd = False, pl_visible = True, pl_in_world = True\<rparr>"

definition bob :: player_info where
  "bob = ann\<lparr>pl_guid := 9, pl_name := str ''Bob'', pl_account := 2\<rparr>"

definition two_players :: "int \<Rightarrow> chan_env" where
  "two_players t = \<lparr>
     ce_world = \<lparr>we_connected = (\<lambda>g. if g = 7 then Some ann else if g = 9 then Some bob else None),
       we_characters = (\<lambda>_. None),
       we_guid_of_name = (\<lambda>n. if n = str ''Ann'' then 7 else if n = str ''Bob'' then 9 else 0),
       we_account_security = (\<lambda>_. 0), we_script_hides = (\<lambda>_ _. False), we_normalize = Some,
       we_two_side_who = False, we_two_side_add_friend = False, we_two_side_channel = False, we_gm_friend = False,
       we_gm_level_in_who = 0, we_time = word_of_int t\<rparr>,
     ce_find_by_name = (\<lambda>n. if n = str ''Ann'' then Some ann else if n = str ''Bob'' then Some bob else None),
     ce_has_ignore = (\<lambda>_ _. False), ce_in_group = (\<lambda>_. False), ce_gm_visible = (\<lambda>_. True), ce_race_team = (\<lambda>_. 0),
     ce_attrs = (\<lambda>_. \<lparr>ca_gm_chat = False, ca_game_master = False, ca_commentator = False, ca_developer = False\<rparr>),
     ce_silent_gm = False, ce_restricted_lfg = False, ce_preserve = True, ce_preserve_days = 14, ce_gm_moderation = 0,
     ce_dbc_flags = (\<lambda>_. None), ce_time = t, ce_iter = id, ce_iter_watch = id\<rparr>"

definition empty_channel :: channel where
  "empty_channel = fst (channel_new (two_players 100) (\<lambda>_. channel_rights_default) False (str ''den'') 0 0 0 True True 5)"

definition joined_once :: channel where
  "joined_once = join_channel (two_players 100) ann [] empty_channel"

definition joined_twice :: channel where
  "joined_twice = join_channel (two_players 100) bob [] joined_once"

definition bob_banned :: channel where
  "bob_banned = kick_or_ban (two_players 100) ann (str ''Bob'') True joined_twice"

lemma two_players_ok: "env_ok (two_players t)"
  by (auto simp: env_ok_def two_players_def world_ok_def ann_def bob_def str_def split: if_splits)

lemma two_players_fit:
  assumes "fst ` set (ch_players c) \<subseteq> {7, 9}" "cmd_player cmd = Some ann \<or> cmd_player cmd = Some bob \<or> cmd_player cmd = None"
  shows "world_fits (two_players t) cmd c"
proof -
  have "connected (two_players t) g" if "is_on c g" for g
  proof -
    have "g \<in> fst ` set (ch_players c)" using that by (force simp: is_on_def dest: map_of_SomeD)
    then show ?thesis using assms(1) by (auto simp: connected_def two_players_def)
  qed
  then show ?thesis using assms(2) two_players_ok
    by (auto simp: world_fits_def members_connected_def two_players_def ann_def bob_def)
qed

lemma example_members:
  "map fst (ch_players empty_channel) = []" "map fst (ch_players joined_once) = [7]"
  "map fst (ch_players joined_twice) = [7, 9]" "map fst (ch_players bob_banned) = [7]"
  "\<not> is_banned (two_players 100) joined_twice 9" "is_banned (two_players 100) bob_banned 9"
  by code_simp+

lemma example_players:
  "fst ` set (ch_players empty_channel) = {}" "fst ` set (ch_players joined_once) = {7}"
  "fst ` set (ch_players joined_twice) = {7, 9}" "fst ` set (ch_players bob_banned) = {7}"
  using example_members(1-4) [THEN arg_cong [where f = set]] by auto

lemma empty_channel_reached: "chan_reach (two_players 100) empty_channel"
proof -
  have "empty_channel = fold (\<lambda>(g, t). add_ban g t) []
      (set_password [] (fst (channel_new (two_players 100) (\<lambda>_. channel_rights_default) False (str ''den'') 0 0 0 True True 5)))"
    by code_simp
  then show ?thesis using chan_reach.created [of "two_players 100" "[]" "[]"] by metis
qed

lemma joined_reached: "chan_reach (two_players 100) joined_twice"
proof -
  have "chan_step (two_players 100, empty_channel) (JoinChannel ann []) (two_players 100, joined_once)"
    "chan_step (two_players 100, joined_once) (JoinChannel bob []) (two_players 100, joined_twice)"
    using example_players by (auto simp: chan_step_iff joined_once_def joined_twice_def intro!: two_players_fit)
  then show ?thesis using empty_channel_reached by (blast intro: chan_reach.stepped)
qed

lemma ban_step:
  "chan_step (two_players 100, joined_twice) (KickOrBan ann (str ''Bob'') True) (two_players 100, bob_banned)"
  using example_players by (auto simp: chan_step_iff bob_banned_def intro!: two_players_fit)

lemma later_join_path:
  "chan_path (two_players 100, bob_banned) [JoinChannel bob []]
     (two_players 5000, join_channel (two_players 5000) bob [] bob_banned)"
proof -
  have "ce_time (two_players 100) \<le> ce_time (two_players 5000)" by (simp add: two_players_def)
  moreover have "world_fits (two_players 5000) (JoinChannel bob []) bob_banned"
    using example_players by (intro two_players_fit) simp_all
  ultimately show ?thesis by (intro chan_path.calls [OF _ chan_path.no_call]) (simp add: chan_step_iff)
qed

section \<open>Claims\<close>


text \<open>Claim C20: the password, the announcements, the moderation and the bans of a channel change only
  on the request of a member who is a moderator or a game master, or by the server's own unban.\<close>

theorem only_moderators_change_settings:
  assumes "chan_exec e cmd c = Some c'"
    "ch_password c' \<noteq> ch_password c \<or> ch_announce c' \<noteq> ch_announce c \<or> ch_moderation c' \<noteq> ch_moderation c
     \<or> map_of (ch_banned c') \<noteq> map_of (ch_banned c)"
  shows "(\<exists>g. cmd = UnBanGuid g) \<or> (\<exists>p. cmd_player cmd = Some p \<and> is_on c (pl_guid p)
    \<and> (is_moderator (member_at c (pl_guid p)) \<or> is_gm_account p
       \<or> ce_gm_moderation e \<noteq> 0 \<and> ucast (pl_security p) \<ge> ce_gm_moderation e))"
proof -
  note x = assms(1)
  have K: False if "keeps S {} c c'" for S
    using keepsD(1-3) [OF that] keepsD(5) [OF that] assms(2) by auto
  have L: "\<not> only_log c c'" using K only_log_keeps by blast
  show ?thesis
  proof (cases cmd)
    case (KickOrBan p n ban)
    have "in_charge c p" by (rule kick_or_ban_cases [of c e p n ban]) (use x L KickOrBan in auto)
    then show ?thesis using KickOrBan by auto
  next
    case (Password p pass)
    then show ?thesis using x L setting_requests(1) [of c e p pass] by auto
  next
    case (Announce p)
    then show ?thesis using x L setting_requests(2) [of c e p] by auto
  next
    case (ToggleModeration p)
    then show ?thesis using x L setting_requests(3) [of c e p] by auto
  next
    case (UnBan p n)
    then show ?thesis using x L setting_requests(4) [of c e p n] by auto
  next
    case (JoinChannel p pass)
    then show ?thesis using x K keeps_join by fastforce
  next
    case (LeaveChannel p send)
    then show ?thesis using x K keeps_leave by fastforce
  qed (use x K L only_log_requests keeps_set_mode keeps_set_owner_req keeps_change(2,6) [OF keeps_refl] in fastforce)+
qed

text \<open>Claim C19: a player who is banned from a channel stays off it for sixty days: through any calls in
  that time that lift no ban he is not a member, and when he asks to join he is told that he is
  banned and nothing else happens.\<close>

theorem banned_stays_out:
  assumes "chan_reach e c" "chan_step (e, c) (KickOrBan p n True) (e1, c1)"
    "\<not> is_banned e1 c v" "is_banned e1 c1 v"
    "chan_path (e1, c1) cmds (e2, c2)" "\<forall>cmd \<in> set cmds. \<not> lifts_ban cmd"
    "ce_time e2 < ce_time e1 + 60 * 24 * 60 * 60" "0 \<le> ce_time e1" "ce_time e1 + 60 * 24 * 60 * 60 < 2 ^ 32"
  shows "\<not> is_on c2 v \<and> (pl_guid pv = v \<longrightarrow> join_channel e2 pv pass c2 = refuse_to e2 pv (make_banned c2) c2)"
proof -
  have c1: "c1 = kick_or_ban e1 p n True c" using assms(2) by (simp add: chan_step_iff)
  have t: "map_of (ch_banned c1) v = Some (word_of_int (ce_time e1 + CHANNEL_BAN_DURATION))"
    using fresh_ban [of e1 c v p n] assms(3,4) c1 by simp
  have u: "uint (word_of_int (ce_time e1 + CHANNEL_BAN_DURATION) :: u32) = ce_time e1 + CHANNEL_BAN_DURATION"
    using assms(8,9) unfolding uint_word_of_int by (simp add: CHANNEL_BAN_DURATION_def)
  have "map_of (ch_banned c2) v = Some (word_of_int (ce_time e1 + CHANNEL_BAN_DURATION))"
    using path_bans [OF assms(5,6)] t u assms(7) by (simp add: CHANNEL_BAN_DURATION_def)
  then have b: "is_banned e2 c2 v" using u assms(7) by (simp add: is_banned_def CHANNEL_BAN_DURATION_def)
  have "chan_reach e2 c2"
    using path_reach [OF assms(5)] chan_reach.stepped [OF assms(1,2)] by simp
  from reach_inv [OF this] b have "\<not> is_on c2 v" by (auto simp: chan_inv_def bans_kept_def)
  then show ?thesis using b by (auto simp: join_channel_def Let_def)
qed


theorem only_moderators_remove_members_witness:
  "chan_exec (two_players 100) (KickOrBan ann (str ''Bob'') True) joined_twice = Some bob_banned
    \<and> is_moderator (member_at joined_twice 7)"
proof -
  have c: "chan_exec (two_players 100) (KickOrBan ann (str ''Bob'') True) joined_twice = Some bob_banned"
    by (simp only: chan_exec.simps bob_banned_def)
  have "is_on joined_twice 9" "\<not> is_on bob_banned 9" "\<not> is_gm_account ann" "pl_guid ann = 7" by code_simp+
  then show ?thesis using only_moderators_remove_members [OF c, of 9] c by auto
qed

theorem only_moderators_change_settings_witness:
  "ch_password (password (two_players 100) ann (str ''xyz'') joined_twice) = str ''xyz'' \<and> is_moderator (member_at joined_twice 7)"
proof -
  have p: "ch_password (password (two_players 100) ann (str ''xyz'') joined_twice) = str ''xyz''"
    "ch_password joined_twice = []" "\<not> is_gm_account ann" "pl_guid ann = 7" "str ''xyz'' \<noteq> []"
    "ce_gm_moderation (two_players 100) = 0" by code_simp+
  then show ?thesis
    using only_moderators_change_settings [of "two_players 100" "Password ann (str ''xyz'')" joined_twice]
    by auto
qed

theorem banned_stays_out_witness:
  "\<not> is_on (join_channel (two_players 5000) bob [] bob_banned) 9"
proof -
  have "\<forall>cmd \<in> set [JoinChannel bob []]. \<not> lifts_ban cmd" by (simp add: lifts_ban_def)
  moreover have "0 \<le> ce_time (two_players 100)" "ce_time (two_players 5000) < ce_time (two_players 100) + 60 * 24 * 60 * 60"
    "ce_time (two_players 100) + 60 * 24 * 60 * 60 < 2 ^ 32"
    by (simp_all add: two_players_def)
  ultimately show ?thesis
    using banned_stays_out [OF joined_reached ban_step example_members(5,6) later_join_path] by blast
qed

end
