(* ===== verification/ChatClaims.thy ===== *)
theory ChatClaims
  imports ChatSystem ChannelClaims
begin

text \<open>
  Every step of the chat system keeps its invariant; the claims about all channels and players
  together, and an example run.
\<close>

section \<open>The managers\<close>

lemma chat_inv_log:
  "chat_inv e st \<Longrightarrow> (\<And>k. ef \<noteq> ChanEffect k BadPointer) \<Longrightarrow> chat_inv e (chat_log ef st)"
  by (auto simp: chat_inv_def chans_ok_def lists_agree_def no_bad_pointer_def chat_log_def on_key_def)

lemma add_channel:
  assumes i: "chat_inv e st" and k: "\<And>g. \<not> on_key st k g" and c: "chan_inv e c" "ch_log c = []" "ch_players c = []"
    and st': "cs_channels st' = AList.update k c (cs_channels st)" "cs_joined st' = cs_joined st" "no_bad_pointer st'"
  shows "chat_inv e st'"
proof -
  have m: "map_of (cs_channels st') = (map_of (cs_channels st))(k \<mapsto> c)" by (simp add: st' update_conv')
  have none: "\<not> is_on c g" for g using c(3) by (simp add: is_on_def)
  have "lists_agree st'"
    using chat_invD(6,7) [OF i] k none
    by (intro lists_agree_update [OF chat_invD(3) [OF i] m]) (auto simp: st')
  moreover have "chans_ok e st'"
    using chat_invD(2) [OF i] c none m unfolding chans_ok_def by (simp add: members_connected_def split: if_splits)
  ultimately show ?thesis using chat_invD(1) [OF i] st'(3) by (simp add: chat_inv_def)
qed

text \<open>A new channel has no members; its log says nothing but the statement.\<close>

lemma new_channel_facts:
  assumes "new_channel e garbage k name channelId dbId team an own st = (c, st')"
  shows "ch_players c = []" "ch_owner c = 0" "ch_watching c = []" "ch_log c = []"
    "cs_channels st' = cs_channels st" "cs_joined st' = cs_joined st" "no_bad_pointer st \<Longrightarrow> no_bad_pointer st'"
proof -
  obtain d n where d: "channel_new e (get_channel_rights_for st) garbage name channelId dbId team an own (cs_id_max st) = (d, n)"
    by (cases "channel_new e (get_channel_rights_for st) garbage name channelId dbId team an own (cs_id_max st)")
  note e = chan_new_empty [of e "get_channel_rights_for st" garbage name channelId dbId team an own "cs_id_max st", unfolded d fst_conv]
  show "ch_players c = []" "ch_owner c = 0" "ch_watching c = []" "ch_log c = []"
    "cs_channels st' = cs_channels st" "cs_joined st' = cs_joined st" "no_bad_pointer st \<Longrightarrow> no_bad_pointer st'"
    using assms e by (auto simp: new_channel_def d no_bad_pointer_def)
qed

lemma get_join_channel_inv:
  assumes i: "chat_inv e st" and g: "get_join_channel e garbage mgr name channelId st = (k, st')"
  shows "chat_inv e st'"
proof (cases "map_of (cs_channels st) (mgr, wide_key name)")
  case None
  obtain c st1 where n: "new_channel e garbage (mgr, wide_key name) name channelId 0 mgr True True st = (c, st1)"
    by (cases "new_channel e garbage (mgr, wide_key name) name channelId 0 mgr True True st")
  note f = new_channel_facts [OF n]
  have st': "st' = st1\<lparr>cs_channels := AList.update k c (cs_channels st1)\<rparr>" "k = (mgr, wide_key name)"
    using g None n by (auto simp: get_join_channel_def Let_def)
  show ?thesis
    by (rule add_channel [OF i _ empty_inv f(4,1)])
      (use None f chat_invD(4) [OF i] st' in \<open>auto simp: on_key_def no_bad_pointer_def\<close>)
qed (use assms in \<open>auto simp: get_join_channel_def Let_def\<close>)

lemma get_channel_inv:
  "chat_inv e st \<Longrightarrow> get_channel mgr name g pkt st = (k, st') \<Longrightarrow> chat_inv e st'"
  by (auto simp: get_channel_def Let_def chat_inv_log split: option.splits if_splits)

lemma with_channel_inv:
  assumes "chat_inv e st" "\<And>k st. chat_inv e st \<Longrightarrow> chat_inv e (f k st)"
  shows "chat_inv e (with_channel w p name notify f st)"
  using assms get_channel_inv [OF assms(1)] by (auto simp: with_channel_def split: option.splits prod.splits)

section \<open>The handlers\<close>

lemma on_channel_cmds:
  assumes i: "chat_inv e st" and p: "we_connected (ce_world e) (pl_guid p) = Some p"
  shows "chat_inv e (on_channel k (join_channel e p pass) st)" "chat_inv e (on_channel k (leave_channel e p True) st)"
    "chat_inv e (on_channel k (kick_or_ban e p n ban) st)" "chat_inv e (on_channel k (unban e p n) st)"
    "chat_inv e (on_channel k (password e p pass) st)" "chat_inv e (on_channel k (set_mode e p n md s) st)"
    "chat_inv e (on_channel k (set_owner e p n) st)" "chat_inv e (on_channel k (send_who_owner e g) st)"
    "chat_inv e (on_channel k (chan_list e p) st)" "chat_inv e (on_channel k (announce e p) st)"
    "chat_inv e (on_channel k (invite e p n) st)" "chat_inv e (on_channel k (toggle_moderation e p) st)"
    "chat_inv e (on_channel k (add_watching p) st)" "chat_inv e (on_channel k (remove_watching g) st)"
proof -
  note x = on_channel_exec [OF i]
  show "chat_inv e (on_channel k (join_channel e p pass) st)" by (rule x [of "JoinChannel p pass"]) (use p in auto)
  show "chat_inv e (on_channel k (leave_channel e p True) st)" by (rule x [of "LeaveChannel p True"]) (use p in auto)
  show "chat_inv e (on_channel k (kick_or_ban e p n ban) st)" by (rule x [of "KickOrBan p n ban"]) (use p in auto)
  show "chat_inv e (on_channel k (unban e p n) st)" by (rule x [of "UnBan p n"]) (use p in auto)
  show "chat_inv e (on_channel k (password e p pass) st)" by (rule x [of "Password p pass"]) (use p in auto)
  show "chat_inv e (on_channel k (set_mode e p n md s) st)" by (rule x [of "SetMode p n md s"]) (use p in auto)
  show "chat_inv e (on_channel k (set_owner e p n) st)" by (rule x [of "SetOwner p n"]) (use p in auto)
  show "chat_inv e (on_channel k (send_who_owner e g) st)" by (rule x [of "SendWhoOwner g"]) auto
  show "chat_inv e (on_channel k (chan_list e p) st)" by (rule x [of "ListChan p"]) (use p in auto)
  show "chat_inv e (on_channel k (announce e p) st)" by (rule x [of "Announce p"]) (use p in auto)
  show "chat_inv e (on_channel k (invite e p n) st)" by (rule x [of "Invite p n"]) (use p in auto)
  show "chat_inv e (on_channel k (toggle_moderation e p) st)" by (rule x [of "ToggleModeration p"]) (use p in auto)
  show "chat_inv e (on_channel k (add_watching p) st)" by (rule x [of "AddWatching p"]) (use p in auto)
  show "chat_inv e (on_channel k (remove_watching g) st)" by (rule x [of "RemoveWatching g"]) auto
qed

lemma clear_watch_inv: "chat_inv e st \<Longrightarrow> chat_inv e (clear_channel_watch g st)"
proof -
  have "chat_inv e st \<Longrightarrow> chat_inv e (fold (\<lambda>k. on_channel k (remove_watching g)) ks st)" for ks
  proof (induction ks arbitrary: st)
    case (Cons k ks)
    have "chat_inv e (on_channel k (remove_watching g) st)"
      by (rule on_channel_exec [OF Cons.prems, of "RemoveWatching g"]) auto
    from Cons.IH [OF this] show ?case by simp
  qed simp
  then show "chat_inv e st \<Longrightarrow> chat_inv e (clear_channel_watch g st)" by (simp add: clear_channel_watch_def)
qed

lemma named_inv:
  assumes "chat_inv e st" "handle_named w p op packet st = Inr st'"
    and "\<And>k t st. chat_inv e st \<Longrightarrow> chat_inv e (on_channel k (op t) st)"
  shows "chat_inv e st'"
  using assms(1,2)
  by (auto simp: handle_named_def res_bind_Inr_iff split: prod.splits option.splits
      intro!: with_channel_inv [OF assms(1)] assms(1,3))

lemma plain_inv:
  assumes "chat_inv e st" "handle_plain w p op packet st = Inr st'"
    and "\<And>k st. chat_inv e st \<Longrightarrow> chat_inv e (on_channel k op st)"
  shows "chat_inv e st'"
  using assms(2)
  by (auto simp: handle_plain_def res_bind_Inr_iff split: prod.splits intro!: with_channel_inv [OF assms(1)] assms(3))

lemma join_handler_inv:
  assumes i: "chat_inv (cw_env w) st" and p: "is_connected w p" and h: "handle_join_channel w garbage p packet st = Inr st'"
  shows "chat_inv (cw_env w) st'"
proof -
  have d: "chat_inv (cw_env w) st1" if "disallow_hyperlinks_and_maybe_kick w p s st = (b, st1)" for s b st1
    using that chat_inv_log [OF i] i by (auto simp: disallow_hyperlinks_and_maybe_kick_def split: if_splits)
  have j: "chat_inv (cw_env w) (on_channel k (join_channel (cw_env w) p pass) st2)"
    if "chat_inv (cw_env w) st1" "get_join_channel (cw_env w) garbage mgr name cid st1 = (k, st2)" for st1 st2 mgr name cid k pass
    by (rule on_channel_cmds(1) [OF get_join_channel_inv [OF that] p])
  have body: "chat_inv (cw_env w) st'" if "(if X then Inr st else if Y then Inr st else if Z then Inr st else if U then Inr st
       else let (allowed, st) = disallow_hyperlinks_and_maybe_kick w p name st in
         if \<not> allowed then Inr st
         else case manager_of w p of
           None \<Rightarrow> Inr st
         | Some mgr \<Rightarrow>
             let (k, st) = get_join_channel (cw_env w) garbage mgr name cid st
             in Inr (on_channel k (join_channel (cw_env w) p pass) st)) = Inr st'" for X Y Z U name cid pass
    using that i by (auto split: prod.splits option.splits if_splits intro: d j)
  from h show ?thesis unfolding handle_join_channel_def res_bind_Inr_iff split_paired_Ex case_prod_conv
    by (elim exE conjE) (erule body)
qed

lemma handle_chat_inv:
  assumes i: "chat_inv (cw_env w) st" and p: "is_connected w p" and h: "handle_chat w garbage p opcode packet st = Inr st'"
  shows "chat_inv (cw_env w) st'"
proof -
  note c = on_channel_cmds [OF _ p]
  note n = named_inv [OF i] and q = plain_inv [OF i]
  have leave: "chat_inv (cw_env w) st'" if "handle_leave_channel w p packet st = Inr st'"
    using that i by (auto simp: handle_leave_channel_def res_bind_Inr_iff split: prod.splits if_splits
        intro!: with_channel_inv [OF i] c)
  have pass: "chat_inv (cw_env w) st'" if "handle_channel_password w p packet st = Inr st'"
    using that i by (auto simp: handle_channel_password_def res_bind_Inr_iff split: prod.splits if_splits
        intro!: with_channel_inv [OF i] c)
  have count: "chat_inv (cw_env w) st'" if "handle_get_channel_member_count w p packet st = Inr st'"
    using that by (auto simp: handle_get_channel_member_count_def res_bind_Inr_iff split: prod.splits option.splits
        intro!: with_channel_inv [OF i] chat_inv_log)
  have watch: "chat_inv (cw_env w) st'" if "handle_set_channel_watch w p packet st = Inr st'"
    using that by (auto simp: handle_set_channel_watch_def res_bind_Inr_iff Let_def split: prod.splits if_splits
        intro!: with_channel_inv [OF clear_watch_inv [OF i]] clear_watch_inv [OF i] c)
  have clear: "chat_inv (cw_env w) st'" if "handle_clear_channel_watch w p packet st = Inr st'"
    using that i by (auto simp: handle_clear_channel_watch_def res_bind_Inr_iff split: prod.splits if_splits
        intro!: with_channel_inv [OF i] c)
  show ?thesis using h i unfolding handle_chat_def
    by (simp only: split: if_splits)
      (auto intro: join_handler_inv [OF i p] leave pass count watch clear n q c
        simp: handle_channel_list_def handle_channel_owner_def handle_channel_announcements_def handle_channel_moderate_def
          handle_channel_set_owner_def handle_channel_moderator_def handle_channel_unmoderator_def handle_channel_mute_def
          handle_channel_unmute_def handle_channel_invite_def handle_channel_kick_def handle_channel_ban_def handle_channel_unban_def)
qed

lemma message_inv:
  assumes i: "chat_inv (cw_env w) st" and p: "is_connected w p"
    and h: "handle_channel_message w p channel msg lang st = Some st'"
  shows "chat_inv (cw_env w) st'"
proof -
  let ?e = "cw_env w"
  have said: "chat_inv ?e (on_channel k (\<lambda>_. c') st1)"
    if s: "chat_inv ?e st1" "map_of (cs_channels st1) k = Some c" "say ?e (pl_guid p) t lang (c\<lparr>ch_log := []\<rparr>) = Some c'" for st1 k c c' t
  proof -
    have c: "chan_inv ?e c" "members_connected ?e c" "ch_log c = []" using chat_invD(5) [OF s(1,2)] by auto
    have w: "world_fits ?e (Say (pl_guid p) t lang) c" using c(2) chat_invD(1) [OF i] by (simp add: world_fits_def)
    have x: "chan_exec ?e (Say (pl_guid p) t lang) c = Some c'" using s(3) fresh_log(1) [OF c(1,3)] by simp
    show ?thesis
      by (rule on_channel_ok [OF s(1,2) refl chan_exec_inv [OF w c(1) x] chan_exec_moved [OF c(1,3) w x]]) simp
  qed
  show ?thesis using h i
    by (auto simp: handle_channel_message_def Let_def chat_inv_log split: if_splits option.splits prod.splits
        intro: said get_channel_inv [OF i])
qed

section \<open>Moving and leaving\<close>

lemma left_commutes:
  assumes "chat_inv e st" "map_of (cs_channels st) k = Some c" "cs_channels st' = cs_channels st"
  shows "cs_joined (on_channel k (leave_channel e p False) st') = cs_joined st'"
proof -
  have c: "chan_inv e c" "ch_log c = []" using chat_invD(5) [OF assms(1,2)] by auto
  have k: "map_of (cs_channels st') k = Some c" using assms(2,3) by simp
  note o = on_channel_fields [OF k, unfolded fresh_log(1) [OF c], where f = "leave_channel e p False", OF refl]
  have "moves (ch_log (leave_channel e p False c)) = []"
    using leave_moves [OF fresh_log(2) [OF c], of p False e] leave_not_on [OF fresh_log(2) [OF c], of p e False]
    by (cases "is_on c (pl_guid p)") (auto simp: mem_def)
  then show ?thesis using o(3) by (simp add: apply_moves_simps)
qed

lemma cleanup_inv:
  assumes i: "chat_inv e st" and p: "we_connected (ce_world e) (pl_guid p) = Some p"
  shows "chat_inv e (cleanup_channels e p st) \<and> cs_joined (cleanup_channels e p st) (pl_guid p) = []"
proof -
  have "chat_inv e (cleanup_loop e p ks st) \<and> cs_joined (cleanup_loop e p ks st) (pl_guid p) = []"
    if "chat_inv e st" "cs_joined st (pl_guid p) = ks" for ks st
    using that
  proof (induction ks arbitrary: st)
    case (Cons k ks)
    let ?g = "pl_guid p" and ?st = "st\<lparr>cs_joined := (cs_joined st)(pl_guid p := ks)\<rparr>"
    have d: "distinct (k # ks)" using chat_invD(6) [OF Cons.prems(1), of ?g] Cons.prems(2) by simp
    obtain c where c: "map_of (cs_channels st) k = Some c"
      using chat_invD(7) [OF Cons.prems(1), of k ?g] Cons.prems(2) by (auto simp: on_key_def split: option.splits)
    have J: "cs_joined (on_channel k (leave_channel e p False) ?st) = (cs_joined st)(?g := ks)"
      using left_commutes [OF Cons.prems(1) c, of ?st] by simp
    have "chat_inv e (on_channel k (leave_channel e p False) ?st)"
      by (rule silent_leave [OF Cons.prems(1) p c _ _ _ _ J])
        (use d Cons.prems(2) chat_invD(6) [OF Cons.prems(1)] in auto)
    from Cons.IH [OF this] J show ?case by simp
  qed simp
  from this [OF i refl] show ?thesis by (simp add: cleanup_channels_def)
qed

lemma chat_inv_cong:
  assumes "map_of (cs_channels st) = map_of (cs_channels st')" "cs_joined st = cs_joined st'" "cs_log st = cs_log st'"
  shows "chat_inv e st = chat_inv e st'"
  using assms by (simp add: chat_inv_def chans_ok_def lists_agree_def no_bad_pointer_def on_key_def)

lemma left_channel_fields [simp]:
  "cs_channels (left_channel g k st) = cs_channels st" "cs_log (left_channel g k st) = cs_log st"
  "cs_joined (left_channel g k st) = (cs_joined st)(g := removeAll k (cs_joined st g))"
  by (simp_all add: left_channel_def)

lemma leave_and_forget:
  assumes i: "chat_inv e st" and p: "we_connected (ce_world e) (pl_guid p) = Some p"
  shows "chat_inv e (left_channel (pl_guid p) k (on_channel k (leave_channel e p tell) st))"
proof (cases "map_of (cs_channels st) k")
  case None
  then have "k \<notin> set (cs_joined st (pl_guid p))" using chat_invD(7) [OF i] by (simp add: on_key_def)
  then show ?thesis using i None chat_inv_cong [of "left_channel (pl_guid p) k st" st e] by (simp add: on_channel_def)
next
  case (Some c)
  let ?g = "pl_guid p"
  have c: "chan_inv e c" "members_connected e c" "ch_log c = []" using chat_invD(5) [OF i Some] by auto
  show ?thesis
  proof (cases tell)
    case True
    have i': "chat_inv e (on_channel k (leave_channel e p True) st)" by (rule on_channel_cmds(2) [OF i p])
    note o = on_channel_fields [OF Some, unfolded fresh_log(1) [OF c(1,3)], where f = "leave_channel e p True", OF refl]
    have s: "step_ok e p c" using p c(2) chat_invD(1) [OF i] by (simp add: step_ok_def)
    have "\<not> is_on (leave_channel e p True c) ?g"
      using leave_moves [OF fresh_log(2) [OF c(1,3)], of p True e] leave_not_on [OF fresh_log(2) [OF c(1,3)], of p e True]
        memD [of _ _ "leave_channel e p True c" ?g] present_is_on [OF leave_channel_inv [OF s c(1)], of True ?g]
      by (cases "is_on c ?g") auto
    then have "k \<notin> set (cs_joined (on_channel k (leave_channel e p True) st) ?g)"
      using chat_invD(7) [OF i'] o(1) by (simp add: on_key_def)
    then show ?thesis using True i' chat_inv_cong [of "left_channel ?g k (on_channel k (leave_channel e p True) st)"] by simp
  next
    case False
    let ?st = "left_channel ?g k st"
    have "chat_inv e (on_channel k (leave_channel e p False) ?st)"
      by (rule silent_leave [OF i p Some, where J = "cs_joined ?st"])
        (use chat_invD(6) [OF i] left_commutes [OF i Some, of ?st] in \<open>auto simp: distinct_removeAll\<close>)
    moreover have "map_of (cs_channels ?st) k = Some c" using Some by simp
    note o = on_channel_fields [OF this, unfolded fresh_log(1) [OF c(1,3)], where f = "leave_channel e p False", OF refl]
      and o' = on_channel_fields [OF Some, unfolded fresh_log(1) [OF c(1,3)], where f = "leave_channel e p False", OF refl]
    have "chat_inv e (on_channel k (leave_channel e p False) ?st)
        = chat_inv e (left_channel ?g k (on_channel k (leave_channel e p False) st))"
      by (rule chat_inv_cong) (simp_all add: o(1,2) o'(1,2) left_commutes [OF i Some, of ?st] left_commutes [OF i Some, of st])
    ultimately show ?thesis using False by simp
  qed
qed

lemma local_channel_inv:
  assumes i: "chat_inv (cw_env w) st" and p: "is_connected w p"
    and h: "local_channel w garbage p mgr zf zn j st = Some st'"
  shows "chat_inv (cw_env w) st'"
proof -
  let ?e = "cw_env w"
  have choice: "chat_inv ?e st1"
    if "local_channel_choice w garbage p mgr zf zn j flags st = Some (joining, leaving, tell, st1)" for flags joining leaving tell st1
    using that i by (auto simp: local_channel_choice_def Let_def split: if_splits option.splits prod.splits
        intro: get_join_channel_inv [OF i])
  show ?thesis using h i unfolding local_channel_def
    by (auto split: option.splits dest!: choice intro!: on_channel_cmds(1) [OF _ p] leave_and_forget [OF _ p])
qed

lemma update_local_inv:
  assumes i: "chat_inv (cw_env w) st" and p: "is_connected w p"
    and h: "update_local_channels w garbage p newZone st = Some st'"
  shows "chat_inv (cw_env w) st'"
proof -
  have "chat_inv (cw_env w) st'" if "local_channels_loop w garbage p mgr zf zn js st = Some st'" "chat_inv (cw_env w) st" for mgr zf zn js st
    using that by (induction js arbitrary: st) (auto split: option.splits intro: local_channel_inv [OF _ p])
  then show ?thesis using h i by (auto simp: update_local_channels_def split: if_splits option.splits)
qed

section \<open>The start and every later state\<close>

lemma load_rows_inv:
  assumes "load_channel_rows e garbage bans rows (st, del) = (st', del')"
    "chat_inv e st" "\<And>g. cs_joined st g = []"
  shows "chat_inv e st' \<and> (\<forall>g. cs_joined st' g = [])"
  using assms
proof (induction rows arbitrary: st del)
  case (Cons row rows)
  obtain dbId name team32 an own pw where row: "row = (dbId, name, team32, an, own, pw)" by (cases row)
  show ?case
  proof (cases "utf8_to_wstr name")
    case None
    then show ?thesis using Cons row by (auto simp: Let_def)
  next
    case (Some wname)
    show ?thesis
    proof (cases "for_team (we_two_side_channel (ce_world e)) (ucast team32)")
      case None
      then show ?thesis using Cons row Some by (auto simp: Let_def)
    next
      case mgr: (Some mgr)
      obtain c st1 where n: "new_channel e garbage (mgr, wname) name 0 dbId (ucast team32) (an \<noteq> 0) (own \<noteq> 0) st = (c, st1)"
        by (cases "new_channel e garbage (mgr, wname) name 0 dbId (ucast team32) (an \<noteq> 0) (own \<noteq> 0) st")
      note f = new_channel_facts [OF n]
      define d where "d = fold (\<lambda>(low, time). add_ban (guid_create_global HG_Player low) time) (bans dbId) (set_password pw c)"
      define st2 where "st2 = st1\<lparr>cs_channels := AList.update (mgr, wname) d (cs_channels st1)\<rparr>"
      define st3 where "st3 = (if dbId > cs_id_max st2 then st2\<lparr>cs_id_max := dbId\<rparr> else st2)"
      have *: "ch_players (fold (\<lambda>(low, time). add_ban (guid_create_global HG_Player low) time) bs x) = ch_players x
        \<and> ch_owner (fold (\<lambda>(low, time). add_ban (guid_create_global HG_Player low) time) bs x) = ch_owner x
        \<and> ch_watching (fold (\<lambda>(low, time). add_ban (guid_create_global HG_Player low) time) bs x) = ch_watching x
        \<and> ch_log (fold (\<lambda>(low, time). add_ban (guid_create_global HG_Player low) time) bs x) = ch_log x" for bs x
        by (induction bs arbitrary: x) (auto simp: add_ban_def)
      have d: "ch_players d = []" "ch_owner d = 0" "ch_watching d = []" "ch_log d = []"
        using f * by (simp_all add: d_def set_password_def)
      have none: "\<not> on_key st k g" for k g using chat_invD(7) [OF Cons.prems(2), of k g] Cons.prems(3) by simp
      have "chat_inv e st3"
        by (rule add_channel [OF Cons.prems(2) none empty_inv [OF d(1-3)] d(4,1)])
          (use d f chat_invD(4) [OF Cons.prems(2)] in \<open>auto simp: st2_def st3_def no_bad_pointer_def\<close>)
      moreover have "cs_joined st3 g = []" for g using f Cons.prems(3) by (simp add: st2_def st3_def)
      moreover have "load_channel_rows e garbage bans rows (st3, del) = (st', del')"
        using Cons.prems(1) row Some mgr n
        by (cases "dbId > cs_id_max st1") (simp_all add: Let_def d_def st2_def st3_def)
      ultimately show ?thesis using Cons.IH by blast
    qed
  qed
qed simp

lemma load_inv:
  assumes "env_ok e"
  shows "chat_inv e (load_channels e garbage bans rows (load_channel_rights rights chat_empty))"
proof -
  have "cs_channels (load_channel_rights rights st) = [] \<and> cs_joined (load_channel_rights rights st) = (\<lambda>_. [])
      \<and> cs_log (load_channel_rights rights st) = []"
    if "cs_channels st = []" "cs_joined st = (\<lambda>_. [])" "cs_log st = []" for st :: chat_state
  proof -
    have "cs_channels (fold f rs st) = cs_channels st \<and> cs_joined (fold f rs st) = cs_joined st \<and> cs_log (fold f rs st) = cs_log st"
      if "\<And>r st. cs_channels (f r st) = cs_channels st \<and> cs_joined (f r st) = cs_joined st \<and> cs_log (f r st) = cs_log st"
      for f and rs :: "rights_row list" and st :: chat_state
      using that by (induction rs arbitrary: st) auto
    from this [of "\<lambda>(name, flags, delay, joinmsg, delaymsg, moderators).
             set_channel_rights_for name \<lparr>cr_flags = flags, cr_speak_delay = delay, cr_join_message = joinmsg,
               cr_speak_message = delaymsg, cr_moderators = moderator_set moderators\<rparr>" rights "st\<lparr>cs_rights := []\<rparr>"]
    show ?thesis using that by (auto simp: load_channel_rights_def set_channel_rights_for_def)
  qed
  then have r: "cs_channels (load_channel_rights rights chat_empty) = []" "cs_joined (load_channel_rights rights chat_empty) = (\<lambda>_. [])"
    "cs_log (load_channel_rights rights chat_empty) = []" by (simp_all add: chat_empty_def)
  obtain st del where l: "load_channel_rows e garbage bans rows (load_channel_rights rights chat_empty, []) = (st, del)"
    by (cases "load_channel_rows e garbage bans rows (load_channel_rights rights chat_empty, [])")
  have "chat_inv e (load_channel_rights rights chat_empty)"
    using assms r by (simp add: chat_inv_def chans_ok_def lists_agree_def no_bad_pointer_def on_key_def)
  from load_rows_inv [OF l this] r have st: "chat_inv e st" by simp
  have "chat_inv e (fold (\<lambda>(name, team). chat_log (DelChannelStmt name team)) ds st)" for ds
    using st by (induction ds arbitrary: st) (auto intro: chat_inv_log)
  then show ?thesis by (simp add: load_channels_def l)
qed

lemma world_inv:
  assumes "chat_inv e st" "env_ok e'" "ce_time e \<le> ce_time e'"
    and "\<And>g k. on_key st k g \<Longrightarrow> connected e' g"
  shows "chat_inv e' st"
proof -
  have "chan_inv e' c \<and> members_connected e' c \<and> ch_log c = []" if "map_of (cs_channels st) k = Some c" for k c
    using chat_invD(5) [OF assms(1) that] inv_later [OF _ assms(3)] assms(4) [of k] that
    by (simp add: members_connected_def on_key_def)
  then show ?thesis using assms(1,2) unfolding chat_inv_def chans_ok_def by blast
qed

lemma member_is_connected: "chat_inv e st \<Longrightarrow> on_key st k g \<Longrightarrow> connected e g"
  using chat_invD(5) by (fastforce simp: on_key_def members_connected_def split: option.splits)

lemma chat_reach_inv: "chat_reach w st \<Longrightarrow> chat_inv (cw_env w) st"
proof (induction rule: chat_reach.induct)
  case (logout w st p w')
  note c = cleanup_inv [OF logout.IH logout.hyps(2)]
  show ?case
  proof (rule world_inv [OF _ logout.hyps(3,4)])
    fix g k assume on: "on_key (cleanup_channels (cw_env w) p st) k g"
    then have "g \<noteq> pl_guid p" using c chat_invD(7) [OF conjunct1 [OF c], of k g] by auto
    with on c show "connected (cw_env w') g" using logout.hyps(5) member_is_connected by blast
  qed (use c in blast)
next
  case (world w st w')
  then show ?case using world_inv member_is_connected by blast
qed (auto intro: load_inv handle_chat_inv message_inv update_local_inv)

section \<open>An example\<close>

definition example_chat :: chat_world where
  "example_chat = \<lparr>cw_env = two_players 100, cw_area_flags = (\<lambda>_. None), cw_area_name = (\<lambda>_ _. []), cw_rows = 0,
     cw_pattern = (\<lambda>_ _. []), cw_city_name = [], cw_locale = (\<lambda>_. 0), cw_guild = (\<lambda>_. 0), cw_loading = (\<lambda>_. False),
     cw_teleported_far = (\<lambda>_. False), cw_lfg_everywhere = False, cw_kick_links = True, cw_channel_level = 1,
     cw_may_chat = (\<lambda>_ _. True), cw_on_chat = id\<rparr>"

definition start_state :: chat_state where
  "start_state = load_channels (cw_env example_chat) False (\<lambda>_. [(9, 5000)]) [(4, str ''Pit'', 0, 1, 1, str ''x'')]
     (load_channel_rights [(str ''World'', 8, 0, [], [], [])] chat_empty)"

definition join_request :: byte_buffer where
  "join_request = \<lparr>bb_rpos = 0, bb_wpos = 0, bb_storage = [0, 0, 0, 0, 0, 0] @ str ''Den'' @ [0] @ [0]\<rparr>"

definition joined_state :: chat_state where
  "joined_state = (case handle_chat example_chat False ann CMSG_JOIN_CHANNEL join_request start_state of
     Inr st \<Rightarrow> st | Inl _ \<Rightarrow> start_state)"

abbreviation den_key :: chan_key where
  "den_key \<equiv> (0, [0x64, 0x65, 0x6e])"

lemma join_request_read:
  "bb_get_u32 join_request = Inr (0, bb_skip 4 join_request)"
  "bb_get_u8 (bb_skip 4 join_request) = Inr (0, bb_skip 5 join_request)"
  "bb_get_u8 (bb_skip 5 join_request) = Inr (0, bb_skip 6 join_request)"
  "bb_get_string (bb_skip 6 join_request) = Inr (str ''Den'', bb_skip 10 join_request)"
  "bb_get_string (bb_skip 10 join_request) = Inr ([], bb_skip 11 join_request)"
proof -
  have z: "le_bytes 4 (unat (0 :: u32)) = [0, 0, 0, 0]" by code_simp
  have "bb_next (le_bytes 4 (unat (0 :: u32))) join_request" "bb_next [0] (bb_skip 4 join_request)"
    "bb_next [0] (bb_skip 5 join_request)" "bb_next (str ''Den'' @ [0]) (bb_skip 6 join_request)"
    "bb_next ([] @ [0]) (bb_skip 10 join_request)"
    unfolding z by (simp_all add: bb_next_def bb_skip_def join_request_def bb_size_def str_def)
  note n = this
  show "bb_get_u32 join_request = Inr (0, bb_skip 4 join_request)" by (rule get_scalar_next(2) [OF n(1)])
  show "bb_get_u8 (bb_skip 4 join_request) = Inr (0, bb_skip 5 join_request)"
    "bb_get_u8 (bb_skip 5 join_request) = Inr (0, bb_skip 6 join_request)"
    using bb_get_u8_next [OF n(2)] bb_get_u8_next [OF n(3)] by simp_all
  show "bb_get_string (bb_skip 6 join_request) = Inr (str ''Den'', bb_skip 10 join_request)"
    "bb_get_string (bb_skip 10 join_request) = Inr ([], bb_skip 11 join_request)"
    using bb_get_string_next [OF _ _ n(4)] bb_get_string_next [OF _ _ n(5)]
    by (simp_all add: utf8_is_valid_ascii str_def)
qed

lemma joined_by_request:
  "handle_chat example_chat False ann CMSG_JOIN_CHANNEL join_request start_state = Inr joined_state"
  "cs_joined joined_state 7 = [den_key]"
proof -
  let ?j = "get_join_channel (cw_env example_chat) False 0 (str ''Den'') 0 start_state"
  let ?st = "on_channel den_key (join_channel (cw_env example_chat) ann []) (snd ?j)"
  have d: "disallow_hyperlinks_and_maybe_kick example_chat ann (str ''Den'') start_state = (True, start_state)"
    "manager_of example_chat ann = Some 0" "str ''Den'' \<noteq> []" "\<not> is_digit (hd (str ''Den''))" "length (str ''Den'') < 100"
    by (simp_all add: disallow_hyperlinks_and_maybe_kick_def str_def manager_of_def for_team_def example_chat_def
        two_players_def ann_def TEAM_ALLIANCE_def is_digit_def)
  have "fst ?j = den_key" by code_simp
  then obtain s where "?j = (den_key, s)" by (cases ?j) auto
  with d have h: "handle_chat example_chat False ann CMSG_JOIN_CHANNEL join_request start_state = Inr ?st"
    by (simp add: handle_chat_def handle_join_channel_def join_request_read)
  then show "handle_chat example_chat False ann CMSG_JOIN_CHANNEL join_request start_state = Inr joined_state"
    by (simp add: joined_state_def)
  have "cs_joined ?st 7 = [den_key]" by code_simp
  then show "cs_joined joined_state 7 = [den_key]" by (simp add: joined_state_def h)
qed

section \<open>Claims\<close>

text \<open>Claim C13: in every state the chat system reaches - channels loaded, packets handled, players
  moving, logging in and out - the list of channels each player keeps names exactly the channels
  he is a member of, each once; every member and every watcher of a channel is a connected player
  and no member is under a ban in force; and no pointer to a player who is gone was ever
  followed.\<close>

theorem chat_lists_agree:
  assumes "chat_reach w st"
  shows "distinct (cs_joined st g) \<and> (k \<in> set (cs_joined st g) \<longleftrightarrow> on_key st k g)
    \<and> (\<forall>c. map_of (cs_channels st) k = Some c \<longrightarrow>
        (is_on c g \<longrightarrow> connected (cw_env w) g \<and> \<not> is_banned (cw_env w) c g)
        \<and> set (ch_watching c) \<subseteq> {h. is_on c h})
    \<and> ChanEffect k BadPointer \<notin> set (cs_log st)"
proof -
  note i = chat_reach_inv [OF assms]
  have "chan_inv (cw_env w) c \<and> members_connected (cw_env w) c" if "map_of (cs_channels st) k = Some c" for c
    using chat_invD(5) [OF i that] by simp
  then show ?thesis
    using chat_invD(4) [OF i] chat_invD(6) [OF i, of g] chat_invD(7) [OF i, of k g]
    unfolding no_bad_pointer_def chan_inv_def core_inv_def bans_kept_def members_connected_def by blast
qed

theorem chat_lists_agree_witness:
  "on_key joined_state den_key 7 \<and> connected (two_players 100) 7 \<and> ChanEffect den_key BadPointer \<notin> set (cs_log joined_state)"
proof -
  have "env_ok (cw_env example_chat)" using two_players_ok by (simp add: example_chat_def)
  then have "chat_reach example_chat start_state" unfolding start_state_def by (rule chat_reach.load)
  moreover have "is_connected example_chat ann" by (simp add: example_chat_def two_players_def ann_def)
  ultimately have r: "chat_reach example_chat joined_state" using joined_by_request(1) by (rule chat_reach.request)
  note c = chat_lists_agree [OF r, of 7 den_key]
  then have "on_key joined_state den_key 7" using joined_by_request(2) by simp
  then show ?thesis using c by (auto simp: on_key_def example_chat_def split: option.splits)
qed

section \<open>A saved channel with a capital letter\<close>

text \<open>
  A channel of the database is stored under its name as written, but looked up by its lowered
  name: after a restart a channel with a capital letter is not found any more, and joining it
  creates a second one without its password and bans.
\<close>

lemma loaded_channel_not_found:
  "map fst (cs_channels start_state) = [(0, [0x50, 0x69, 0x74])]"
  "fst (get_channel 0 (str ''Pit'') 7 True start_state) = None"
  "fst (get_channel 0 (str ''pit'') 7 True start_state) = None"
  "ch_password (the (map_of (cs_channels start_state) (0, [0x50, 0x69, 0x74]))) = str ''x''"
  "map (ch_password \<circ> snd) (cs_channels (snd (get_join_channel (two_players 100) False 0 (str ''Pit'') 0 start_state)))
     = [str ''x'', []]"
  by code_simp+

end
