(* ===== verification/CharacterCache.thy ===== *)
theory CharacterCache
  imports Players
begin

text \<open>
  The cache of characters (src/server/game/Cache/CharacterCache.cpp): what the services know of
  players who are not connected. Two maps, by GUID and by name; the second holds pointers into
  the nodes of the first.
\<close>

section \<open>State\<close>

record cache_entry =
  cce_guid :: guid
  cce_name :: bytes
  cce_account :: u32
  cce_class :: u8
  cce_race :: u8
  cce_sex :: u8
  cce_level :: u8
  cce_mail :: u8
  cce_guild :: u32
  cce_arena :: "u32 list"
  cce_group :: guid

definition MAX_ARENA_SLOT :: nat where "MAX_ARENA_SLOT = 4"

definition cache_entry_zero :: cache_entry where
  "cache_entry_zero = \<lparr>cce_guid = 0, cce_name = [], cce_account = 0, cce_class = 0, cce_race = 0, cce_sex = 0, cce_level = 0,
     cce_mail = 0, cce_guild = 0, cce_arena = replicate MAX_ARENA_SLOT 0, cce_group = 0\<rparr>"

text \<open>
  A node of the map has an address, which stays while the node is there and is not used again;
  a pointer is the address.
\<close>

record char_cache =
  cc_store :: "(guid \<times> nat \<times> cache_entry) list"
  cc_by_name :: "(bytes \<times> nat) list"
  cc_next :: nat

definition cache_new :: char_cache where
  "cache_new = \<lparr>cc_store = [], cc_by_name = [], cc_next = 0\<rparr>"

text \<open>The node a pointer leads to; \<open>None\<close> when it was erased.\<close>

definition node_at :: "char_cache \<Rightarrow> nat \<Rightarrow> cache_entry option" where
  "node_at cc a = map_of (map snd (cc_store cc)) a"

section \<open>Modifying functions\<close>

definition add_character_cache_entry :: "guid \<Rightarrow> u32 \<Rightarrow> bytes \<Rightarrow> u8 \<Rightarrow> u8 \<Rightarrow> u8 \<Rightarrow> u8 \<Rightarrow> char_cache \<Rightarrow> char_cache" where
  "add_character_cache_entry g accountId name gender race playerClass level cc =
     (let (a, data, nxt) = (case map_of (cc_store cc) g of
            Some (a, data) \<Rightarrow> (a, data, cc_next cc)
          | None \<Rightarrow> (cc_next cc, cache_entry_zero, cc_next cc + 1));
          data = data\<lparr>cce_guid := g, cce_name := name, cce_account := accountId, cce_race := race, cce_sex := gender,
            cce_class := playerClass, cce_level := level, cce_guild := 0, cce_arena := replicate MAX_ARENA_SLOT 0\<rparr>
      in cc\<lparr>cc_store := AList.update g (a, data) (cc_store cc), cc_by_name := AList.update name a (cc_by_name cc),
            cc_next := nxt\<rparr>)"

definition delete_character_cache_entry :: "guid \<Rightarrow> bytes \<Rightarrow> char_cache \<Rightarrow> char_cache" where
  "delete_character_cache_entry g name cc =
     cc\<lparr>cc_store := AList.delete g (cc_store cc), cc_by_name := AList.delete name (cc_by_name cc)\<rparr>"

text \<open>The functions that change one field: nothing when the character is not there.\<close>

definition modify_entry :: "guid \<Rightarrow> (cache_entry \<Rightarrow> cache_entry) \<Rightarrow> char_cache \<Rightarrow> char_cache" where
  "modify_entry g f cc = (case map_of (cc_store cc) g of
     None \<Rightarrow> cc | Some (a, data) \<Rightarrow> cc\<lparr>cc_store := AList.update g (a, f data) (cc_store cc)\<rparr>)"

definition update_character_data :: "guid \<Rightarrow> bytes \<Rightarrow> u8 option \<Rightarrow> u8 option \<Rightarrow> char_cache \<Rightarrow> char_cache" where
  "update_character_data g name gender race cc = (case map_of (cc_store cc) g of
     None \<Rightarrow> cc
   | Some (a, data) \<Rightarrow>
       let oldName = cce_name data;
           data = data\<lparr>cce_name := name\<rparr>;
           data = (case gender of Some s \<Rightarrow> data\<lparr>cce_sex := s\<rparr> | None \<Rightarrow> data);
           data = (case race of Some r \<Rightarrow> data\<lparr>cce_race := r\<rparr> | None \<Rightarrow> data)
       in cc\<lparr>cc_store := AList.update g (a, data) (cc_store cc),
             cc_by_name := AList.update name a (AList.delete oldName (cc_by_name cc))\<rparr>)"

definition update_character_level :: "guid \<Rightarrow> u8 \<Rightarrow> char_cache \<Rightarrow> char_cache" where
  "update_character_level g level = modify_entry g (\<lambda>d. d\<lparr>cce_level := level\<rparr>)"

definition update_character_account_id :: "guid \<Rightarrow> u32 \<Rightarrow> char_cache \<Rightarrow> char_cache" where
  "update_character_account_id g accountId = modify_entry g (\<lambda>d. d\<lparr>cce_account := accountId\<rparr>)"

definition update_character_guild_id :: "guid \<Rightarrow> u32 \<Rightarrow> char_cache \<Rightarrow> char_cache" where
  "update_character_guild_id g guildId = modify_entry g (\<lambda>d. d\<lparr>cce_guild := guildId\<rparr>)"

text \<open>\<open>None\<close>: the slot is outside of the array.\<close>

definition update_character_arena_team_id :: "guid \<Rightarrow> u8 \<Rightarrow> u32 \<Rightarrow> char_cache \<Rightarrow> char_cache option" where
  "update_character_arena_team_id g slot arenaTeamId cc = (case map_of (cc_store cc) g of
     None \<Rightarrow> Some cc
   | Some (a, data) \<Rightarrow>
       if unat slot < length (cce_arena data)
       then Some (modify_entry g (\<lambda>d. d\<lparr>cce_arena := (cce_arena d)[unat slot := arenaTeamId]\<rparr>) cc)
       else None)"

text \<open>\<open>n\<close> is an \<open>int8\<close>, added to the unsigned count.\<close>

definition update_character_mail_count :: "guid \<Rightarrow> 8 word \<Rightarrow> bool \<Rightarrow> char_cache \<Rightarrow> char_cache" where
  "update_character_mail_count g n upd = modify_entry g (\<lambda>d.
     if upd then d\<lparr>cce_mail := n\<rparr>
     else if cce_mail d = 0 \<and> sint n < 0 then d
     else d\<lparr>cce_mail := cce_mail d + n\<rparr>)"

definition update_character_group :: "guid \<Rightarrow> guid \<Rightarrow> char_cache \<Rightarrow> char_cache" where
  "update_character_group g groupGUID = modify_entry g (\<lambda>d. d\<lparr>cce_group := groupGUID\<rparr>)"

text \<open>A row of \<open>characters\<close>: low GUID, name, account, race, gender, class, level.\<close>

type_synonym character_row = "u32 \<times> bytes \<times> u32 \<times> u8 \<times> u8 \<times> u8 \<times> u8"

fun add_row :: "character_row \<Rightarrow> char_cache \<Rightarrow> char_cache" where
  "add_row (low, name, account, race, gender, cls, level) =
     add_character_cache_entry (guid_create_global HG_Player low) account name gender race cls level"

definition add_mail_count :: "u32 \<times> u64 \<Rightarrow> char_cache \<Rightarrow> char_cache" where
  "add_mail_count r = update_character_mail_count (guid_create_global HG_Player (fst r)) (ucast (snd r)) True"

text \<open>The store is emptied, the map of names is not.\<close>

definition load_character_cache_storage :: "character_row list \<Rightarrow> (u32 \<times> u64) list \<Rightarrow> char_cache \<Rightarrow> char_cache" where
  "load_character_cache_storage rows mails cc =
     (let cc = cc\<lparr>cc_store := []\<rparr>
      in if rows = [] then cc else fold add_mail_count mails (fold add_row rows cc))"

definition refresh_cache_entry :: "u32 \<Rightarrow> character_row list \<Rightarrow> (u32 \<times> u64) list \<Rightarrow> char_cache \<Rightarrow> char_cache" where
  "refresh_cache_entry lowGuid rows mails cc =
     (if rows = [] then cc
      else fold add_mail_count mails
        (fold (\<lambda>row cc. add_row row (delete_character_cache_entry (guid_create_global HG_Player lowGuid) (fst (snd row)) cc)) rows cc))"

section \<open>Getters\<close>

definition get_character_cache_by_guid :: "char_cache \<Rightarrow> guid \<Rightarrow> cache_entry option" where
  "get_character_cache_by_guid cc g = map_option snd (map_of (cc_store cc) g)"

definition has_character_cache_entry :: "char_cache \<Rightarrow> guid \<Rightarrow> bool" where
  "has_character_cache_entry cc g \<longleftrightarrow> map_of (cc_store cc) g \<noteq> None"

text \<open>\<open>None\<close>: a pointer to an erased node is followed.\<close>

definition by_name :: "char_cache \<Rightarrow> bytes \<Rightarrow> 'a \<Rightarrow> (cache_entry \<Rightarrow> 'a) \<Rightarrow> 'a option" where
  "by_name cc name dflt f = (case map_of (cc_by_name cc) name of
     None \<Rightarrow> Some dflt | Some a \<Rightarrow> map_option f (node_at cc a))"

definition get_character_cache_by_name :: "char_cache \<Rightarrow> bytes \<Rightarrow> cache_entry option option" where
  "get_character_cache_by_name cc name = by_name cc name None Some"

definition get_character_guid_by_name :: "char_cache \<Rightarrow> bytes \<Rightarrow> guid option" where
  "get_character_guid_by_name cc name = by_name cc name 0 cce_guid"

definition get_character_account_id_by_name :: "char_cache \<Rightarrow> bytes \<Rightarrow> u32 option" where
  "get_character_account_id_by_name cc name = by_name cc name 0 cce_account"

definition by_guid :: "char_cache \<Rightarrow> guid \<Rightarrow> 'a \<Rightarrow> (cache_entry \<Rightarrow> 'a) \<Rightarrow> 'a" where
  "by_guid cc g dflt f = (case get_character_cache_by_guid cc g of None \<Rightarrow> dflt | Some d \<Rightarrow> f d)"

definition get_character_name_by_guid :: "char_cache \<Rightarrow> guid \<Rightarrow> bytes option" where
  "get_character_name_by_guid cc g = by_guid cc g None (\<lambda>d. Some (cce_name d))"

text \<open>\<open>team_of\<close> is \<open>Player::TeamIdForRace\<close>, a table of the client.\<close>

definition get_character_team_by_guid :: "(u8 \<Rightarrow> u8) \<Rightarrow> char_cache \<Rightarrow> guid \<Rightarrow> u32" where
  "get_character_team_by_guid team_of cc g = by_guid cc g 0 (\<lambda>d. ucast (team_of (cce_race d)))"

definition get_character_account_id_by_guid :: "char_cache \<Rightarrow> guid \<Rightarrow> u32" where
  "get_character_account_id_by_guid cc g = by_guid cc g 0 cce_account"

definition get_character_level_by_guid :: "char_cache \<Rightarrow> guid \<Rightarrow> u8" where
  "get_character_level_by_guid cc g = by_guid cc g 0 cce_level"

definition get_character_guild_id_by_guid :: "char_cache \<Rightarrow> guid \<Rightarrow> u32" where
  "get_character_guild_id_by_guid cc g = by_guid cc g 0 cce_guild"

definition get_character_arena_team_id_by_guid :: "char_cache \<Rightarrow> guid \<Rightarrow> u8 \<Rightarrow> u32 option" where
  "get_character_arena_team_id_by_guid cc g ty = by_guid cc g (Some 0)
     (\<lambda>d. if unat ty < length (cce_arena d) then Some (cce_arena d ! unat ty) else None)"

definition get_character_group_guid_by_guid :: "char_cache \<Rightarrow> guid \<Rightarrow> guid" where
  "get_character_group_guid_by_guid cc g = by_guid cc g 0 cce_group"

section \<open>The invariant\<close>

text \<open>Every name leads to the node of the character who has it, and every character is found by his name.\<close>

definition cache_ok :: "char_cache \<Rightarrow> bool" where
  "cache_ok cc \<longleftrightarrow>
     (\<forall>g a d. map_of (cc_store cc) g = Some (a, d) \<longrightarrow> g \<noteq> 0 \<and> cce_guid d = g \<and> a < cc_next cc
        \<and> length (cce_arena d) = MAX_ARENA_SLOT \<and> map_of (cc_by_name cc) (cce_name d) = Some a)
     \<and> (\<forall>n a. map_of (cc_by_name cc) n = Some a \<longrightarrow> (\<exists>g d. map_of (cc_store cc) g = Some (a, d) \<and> cce_name d = n))
     \<and> (\<forall>g h a d d'. map_of (cc_store cc) g = Some (a, d) \<longrightarrow> map_of (cc_store cc) h = Some (a, d') \<longrightarrow> g = h)
     \<and> distinct (map fst (cc_store cc))"

lemma cache_okD:
  assumes "cache_ok cc"
  shows "map_of (cc_store cc) g = Some (a, d) \<Longrightarrow> g \<noteq> 0 \<and> cce_guid d = g \<and> a < cc_next cc
      \<and> length (cce_arena d) = MAX_ARENA_SLOT \<and> map_of (cc_by_name cc) (cce_name d) = Some a"
    "map_of (cc_by_name cc) n = Some a \<Longrightarrow> \<exists>g d. map_of (cc_store cc) g = Some (a, d) \<and> cce_name d = n"
    "map_of (cc_store cc) g = Some (a, d) \<Longrightarrow> map_of (cc_store cc) h = Some (a, d') \<Longrightarrow> g = h"
    "distinct (map fst (cc_store cc))"
  using assms unfolding cache_ok_def by blast+

lemma node_at_store:
  assumes "cache_ok cc" "map_of (cc_store cc) g = Some (a, d)"
  shows "node_at cc a = Some d"
proof -
  have first: "map_of (map snd xs) a = Some d" if "(g, a, d) \<in> set xs" "\<And>h d'. (h, a, d') \<in> set xs \<Longrightarrow> d' = d" for xs
    using that
  proof (induction xs)
    case (Cons x xs)
    obtain h b e where x: "x = (h, b, e)" by (cases x)
    show ?case
    proof (cases "b = a")
      case True
      then have "e = d" using Cons.prems(2) [of h e] x by simp
      then show ?thesis using x True by simp
    next
      case False
      then have "map_of (map snd xs) a = Some d" using Cons.prems(1) x by (intro Cons.IH Cons.prems(2)) auto
      then show ?thesis using x False by simp
    qed
  qed simp
  show ?thesis unfolding node_at_def
  proof (rule first)
    show "(g, a, d) \<in> set (cc_store cc)" by (rule map_of_SomeD [OF assms(2)])
    fix h d' assume "(h, a, d') \<in> set (cc_store cc)"
    then have h: "map_of (cc_store cc) h = Some (a, d')" using cache_okD(4) [OF assms(1)] by (simp add: map_of_eq_Some_iff)
    then have "h = g" using cache_okD(3) [OF assms(1) _ assms(2)] by blast
    then show "d' = d" using h assms(2) by simp
  qed
qed

lemma by_name_found:
  assumes "cache_ok cc"
  shows "by_name cc n dflt f = Some (case map_of (cc_by_name cc) n of None \<Rightarrow> dflt | Some a \<Rightarrow> f (the (node_at cc a)))"
  using cache_okD(2) [OF assms] node_at_store [OF assms]
  by (fastforce simp: by_name_def split: option.splits)

section \<open>Every function keeps it\<close>

definition free_or_own :: "char_cache \<Rightarrow> guid \<Rightarrow> bytes \<Rightarrow> bool" where
  "free_or_own cc g name \<longleftrightarrow> map_of (cc_by_name cc) name = None \<or> get_character_name_by_guid cc g = Some name"

lemma name_by_guid_iff: "get_character_name_by_guid cc g = Some n \<longleftrightarrow> (\<exists>a d. map_of (cc_store cc) g = Some (a, d) \<and> cce_name d = n)"
  by (auto simp: get_character_name_by_guid_def by_guid_def get_character_cache_by_guid_def split: option.splits)

lemma modify_ok:
  assumes "cache_ok cc" "\<And>d. cce_guid (f d) = cce_guid d \<and> cce_name (f d) = cce_name d \<and> length (cce_arena (f d)) = length (cce_arena d)"
  shows "cache_ok (modify_entry g f cc)"
proof (cases "map_of (cc_store cc) g")
  case (Some x)
  obtain a d where x: "x = (a, d)" by (cases x)
  let ?cc = "cc\<lparr>cc_store := AList.update g (a, f d) (cc_store cc)\<rparr>"
  have m: "map_of (cc_store ?cc) h = (if h = g then Some (a, f d) else map_of (cc_store cc) h)" for h
    by (simp add: map_of_AList_update)
  note o = cache_okD [OF assms(1)]
  have "cache_ok ?cc"
    unfolding cache_ok_def
  proof (intro conjI allI impI)
    fix h b e assume "map_of (cc_store ?cc) h = Some (b, e)"
    then show "h \<noteq> 0" "cce_guid e = h" "b < cc_next ?cc" "length (cce_arena e) = MAX_ARENA_SLOT"
      "map_of (cc_by_name ?cc) (cce_name e) = Some b"
      using o(1) [of g a d] o(1) [of h b e] assms(2) Some x unfolding m by (auto split: if_splits)
  next
    fix n b assume "map_of (cc_by_name ?cc) n = Some b"
    then obtain h e where "map_of (cc_store cc) h = Some (b, e)" "cce_name e = n" using o(2) [of n b] by auto
    then show "\<exists>h e. map_of (cc_store ?cc) h = Some (b, e) \<and> cce_name e = n"
      using assms(2) Some x unfolding m by (intro exI [of _ h] exI [of _ "if h = g then f d else e"]) auto
  next
    fix h i b e e' assume "map_of (cc_store ?cc) h = Some (b, e)" "map_of (cc_store ?cc) i = Some (b, e')"
    then show "h = i" using o(3) [of h b _ i] Some x unfolding m by (auto split: if_splits intro: o(3))
  qed (use o(4) in \<open>simp add: distinct_update\<close>)
  then show ?thesis using Some x by (simp add: modify_entry_def)
qed (use assms(1) in \<open>simp add: modify_entry_def\<close>)

text \<open>A node gets a new name, which nobody else has.\<close>

lemma named_ok:
  assumes ok: "cache_ok cc" and free: "free_or_own cc g name" and g: "g \<noteq> 0" "cce_guid e = g" "cce_name e = name"
    "length (cce_arena e) = MAX_ARENA_SLOT"
    and a: "case map_of (cc_store cc) g of Some (b, d) \<Rightarrow> a = b \<and> nxt = cc_next cc \<and> (cce_name d = name \<or> old = cce_name d)
      | None \<Rightarrow> a = cc_next cc \<and> nxt = cc_next cc + 1 \<and> map_of (cc_by_name cc) old = None"
    and old: "case map_of (cc_store cc) g of Some (b, d) \<Rightarrow> old \<noteq> cce_name d \<longrightarrow> map_of (cc_by_name cc) old = None | None \<Rightarrow> True"
    and cc': "cc_store cc' = AList.update g (a, e) (cc_store cc)" "cc_next cc' = nxt"
      "map_of (cc_by_name cc') = (map_of (cc_by_name cc))(old := None, name \<mapsto> a)"
  shows "cache_ok cc'"
proof -
  note o = cache_okD [OF ok]
  have m: "map_of (cc_store cc') h = (if h = g then Some (a, e) else map_of (cc_store cc) h)" for h
    by (simp add: cc' map_of_AList_update)
  have other: "cce_name d \<noteq> name \<and> b \<noteq> a \<and> cce_name d \<noteq> old \<and> b < nxt" if d: "map_of (cc_store cc) h = Some (b, d)" "h \<noteq> g" for h b d
  proof -
    have b: "map_of (cc_by_name cc) (cce_name d) = Some b" "b < cc_next cc" using o(1) [OF d(1)] by auto
    show ?thesis
    proof (cases "map_of (cc_store cc) g")
      case None
      then have "map_of (cc_by_name cc) name = None" using free by (simp add: free_or_own_def name_by_guid_iff)
      then show ?thesis using None a b by auto
    next
      case (Some x)
      obtain c d' where x: "x = (c, d')" by (cases x)
      have ne: "b \<noteq> c" using o(3) [OF d(1)] d(2) Some x by auto
      have c: "map_of (cc_by_name cc) (cce_name d') = Some c" using o(1) Some x by auto
      have "cce_name d \<noteq> cce_name d'" using b(1) c ne by auto
      moreover have "cce_name d \<noteq> name"
        using free b(1) Some x calculation by (auto simp: free_or_own_def name_by_guid_iff)
      ultimately show ?thesis using a old b Some x ne by (cases "old = cce_name d'") auto
    qed
  qed
  have bound: "a < nxt" using a o(1) by (auto split: option.splits)
  show ?thesis
    unfolding cache_ok_def
  proof (intro conjI allI impI)
    fix h b d assume h: "map_of (cc_store cc') h = Some (b, d)"
    have "h \<noteq> 0 \<and> cce_guid d = h \<and> b < nxt \<and> length (cce_arena d) = MAX_ARENA_SLOT
      \<and> map_of (cc_by_name cc') (cce_name d) = Some b"
    proof (cases "h = g")
      case True
      then show ?thesis using h g bound unfolding m cc'(3) by auto
    next
      case False
      then have "map_of (cc_store cc) h = Some (b, d)" using h unfolding m by simp
      then show ?thesis using o(1) [of h b d] other [of h b d] False unfolding cc'(3) by auto
    qed
    then show "h \<noteq> 0" "cce_guid d = h" "b < cc_next cc'" "length (cce_arena d) = MAX_ARENA_SLOT"
      "map_of (cc_by_name cc') (cce_name d) = Some b" by (simp_all add: cc'(2))
  next
    fix n b assume n: "map_of (cc_by_name cc') n = Some b"
    show "\<exists>h d. map_of (cc_store cc') h = Some (b, d) \<and> cce_name d = n"
    proof (cases "n = name")
      case True
      then show ?thesis using n g unfolding cc'(3) m by auto
    next
      case False
      then have n': "map_of (cc_by_name cc) n = Some b" "n \<noteq> old" using n unfolding cc'(3) by (auto split: if_splits)
      then obtain h d where h: "map_of (cc_store cc) h = Some (b, d)" "cce_name d = n" using o(2) by blast
      have "h \<noteq> g" using h n'(2) False a by auto
      then show ?thesis using h unfolding m by auto
    qed
  next
    fix h i b d d' assume "map_of (cc_store cc') h = Some (b, d)" "map_of (cc_store cc') i = Some (b, d')"
    then show "h = i" using other [of h b d] other [of i b d'] o(3) [of h b d i d'] unfolding m by (auto split: if_splits)
  qed (use o(4) in \<open>simp add: cc' distinct_update\<close>)
qed

lemma by_name_update: "map_of (AList.update n a (AList.delete m xs)) = (map_of xs)(m := None, n \<mapsto> a)"
  by (simp add: map_of_AList_update map_of_AList_delete fun_eq_iff)

lemma add_ok:
  assumes ok: "cache_ok cc" and g: "g \<noteq> 0" and new: "map_of (cc_by_name cc) name = None \<and> map_of (cc_store cc) g = None
      \<or> get_character_name_by_guid cc g = Some name"
  shows "cache_ok (add_character_cache_entry g acc name gender race cls lvl cc)"
proof -
  let ?cc = "add_character_cache_entry g acc name gender race cls lvl cc"
  define new where "new d = d\<lparr>cce_guid := g, cce_name := name, cce_account := acc, cce_race := race, cce_sex := gender,
            cce_class := cls, cce_level := lvl, cce_guild := 0, cce_arena := replicate MAX_ARENA_SLOT 0\<rparr>" for d :: cache_entry
  have n: "cce_guid (new d) = g" "cce_name (new d) = name" "length (cce_arena (new d)) = MAX_ARENA_SLOT" for d
    by (simp_all add: new_def)
  show ?thesis
  proof (cases "map_of (cc_store cc) g")
    case None
    then have free: "map_of (cc_by_name cc) name = None" using assms(3) by (auto simp: name_by_guid_iff)
    show ?thesis
      by (rule named_ok [OF ok _ g, where e = "new cache_entry_zero" and a = "cc_next cc" and name = name and old = name and nxt = "cc_next cc + 1"])
        (use None free n in \<open>simp_all add: free_or_own_def add_character_cache_entry_def new_def map_of_AList_update fun_eq_iff\<close>)
  next
    case (Some x)
    obtain a d where x: "x = (a, d)" by (cases x)
    then have nm: "cce_name d = name" using assms(3) Some by (auto simp: name_by_guid_iff)
    show ?thesis
      by (rule named_ok [OF ok _ g, where e = "new d" and a = a and name = name and old = name and nxt = "cc_next cc"])
        (use Some x nm n in \<open>simp_all add: free_or_own_def name_by_guid_iff add_character_cache_entry_def new_def map_of_AList_update fun_eq_iff\<close>)
  qed
qed

lemma update_data_ok:
  assumes ok: "cache_ok cc" and free: "free_or_own cc g name"
  shows "cache_ok (update_character_data g name gender race cc)"
proof (cases "map_of (cc_store cc) g")
  case (Some x)
  obtain a d where x: "x = (a, d)" by (cases x)
  have g: "g \<noteq> 0" "cce_guid d = g" "length (cce_arena d) = MAX_ARENA_SLOT" using cache_okD(1) [OF ok] Some x by auto
  define e where "e = (let data = d\<lparr>cce_name := name\<rparr>;
           data = (case gender of Some s \<Rightarrow> data\<lparr>cce_sex := s\<rparr> | None \<Rightarrow> data)
       in case race of Some r \<Rightarrow> data\<lparr>cce_race := r\<rparr> | None \<Rightarrow> data)"
  have e: "cce_guid e = g" "cce_name e = name" "length (cce_arena e) = MAX_ARENA_SLOT"
    using g by (auto simp: e_def Let_def split: option.splits)
  show ?thesis
    by (rule named_ok [OF ok free g(1) e, where a = a and old = "cce_name d" and nxt = "cc_next cc"])
      (use Some x in \<open>simp_all add: update_character_data_def Let_def e_def by_name_update\<close>)
qed (use ok in \<open>simp add: update_character_data_def\<close>)

lemma delete_ok:
  assumes ok: "cache_ok cc" and n: "get_character_name_by_guid cc g = Some name"
  shows "cache_ok (delete_character_cache_entry g name cc)"
proof -
  obtain a d where g: "map_of (cc_store cc) g = Some (a, d)" "cce_name d = name" using n by (auto simp: name_by_guid_iff)
  note o = cache_okD [OF ok]
  let ?cc = "delete_character_cache_entry g name cc"
  have m: "map_of (cc_store ?cc) h = (if h = g then None else map_of (cc_store cc) h)"
    "map_of (cc_by_name ?cc) i = (if i = name then None else map_of (cc_by_name cc) i)" "cc_next ?cc = cc_next cc" for h i
    by (simp_all add: delete_character_cache_entry_def map_of_AList_delete)
  have other: "cce_name e \<noteq> name" if "map_of (cc_store cc) h = Some (b, e)" "h \<noteq> g" for h b e
    using o(1) [OF that(1)] o(1) [OF g(1)] o(3) [OF that(1), of g d] g that by auto
  show ?thesis
    unfolding cache_ok_def
  proof (intro conjI allI impI)
    fix h b e assume "map_of (cc_store ?cc) h = Some (b, e)"
    then show "h \<noteq> 0" "cce_guid e = h" "b < cc_next ?cc" "length (cce_arena e) = MAX_ARENA_SLOT"
      "map_of (cc_by_name ?cc) (cce_name e) = Some b"
      using o(1) [of h b e] other [of h b e] unfolding m by (auto split: if_splits)
  next
    fix i b assume "map_of (cc_by_name ?cc) i = Some b"
    then have i: "map_of (cc_by_name cc) i = Some b" "i \<noteq> name" unfolding m by (auto split: if_splits)
    then obtain h e where h: "map_of (cc_store cc) h = Some (b, e)" "cce_name e = i" using o(2) by blast
    then have "h \<noteq> g" using g i(2) by auto
    then show "\<exists>h e. map_of (cc_store ?cc) h = Some (b, e) \<and> cce_name e = i" using h unfolding m by auto
  next
    fix h i b e e' assume "map_of (cc_store ?cc) h = Some (b, e)" "map_of (cc_store ?cc) i = Some (b, e')"
    then show "h = i" using o(3) [of h b e i e'] unfolding m by (auto split: if_splits)
  qed (use o(4) in \<open>simp add: delete_character_cache_entry_def distinct_delete\<close>)
qed

section \<open>The cache while the server runs\<close>

text \<open>
  What the callers see to: a new character has a new GUID and a name nobody has; a character is
  deleted with the name it has, renamed to a free name, and refreshed from a row with its name;
  the rows loaded have different GUIDs and names.
\<close>

inductive cache_reach :: "char_cache \<Rightarrow> bool" where
  load: "distinct (map (\<lambda>r. guid_create_global HG_Player (fst r)) rows) \<Longrightarrow> distinct (map (fst \<circ> snd) rows)
     \<Longrightarrow> 0 \<notin> guid_create_global HG_Player ` fst ` set rows \<Longrightarrow> cache_reach (load_character_cache_storage rows mails cache_new)"
| create: "cache_reach cc \<Longrightarrow> g \<noteq> 0 \<Longrightarrow> \<not> has_character_cache_entry cc g \<Longrightarrow> get_character_guid_by_name cc name = Some 0
     \<Longrightarrow> cache_reach (add_character_cache_entry g acc name gender race cls lvl cc)"
| delete: "cache_reach cc \<Longrightarrow> get_character_name_by_guid cc g = Some name \<Longrightarrow> cache_reach (delete_character_cache_entry g name cc)"
| rename: "cache_reach cc \<Longrightarrow> get_character_guid_by_name cc name \<in> {Some 0, Some g}
     \<Longrightarrow> cache_reach (update_character_data g name gender race cc)"
| refresh: "cache_reach cc \<Longrightarrow> get_character_name_by_guid cc (guid_create_global HG_Player low) = Some name
     \<Longrightarrow> cache_reach (refresh_cache_entry low [(low, name, acc, race, gender, cls, lvl)] mails cc)"
| level: "cache_reach cc \<Longrightarrow> cache_reach (update_character_level g lvl cc)"
| account: "cache_reach cc \<Longrightarrow> cache_reach (update_character_account_id g acc cc)"
| guild: "cache_reach cc \<Longrightarrow> cache_reach (update_character_guild_id g gid cc)"
| arena: "cache_reach cc \<Longrightarrow> update_character_arena_team_id g slot tid cc = Some cc' \<Longrightarrow> cache_reach cc'"
| mail: "cache_reach cc \<Longrightarrow> cache_reach (update_character_mail_count g n upd cc)"
| party: "cache_reach cc \<Longrightarrow> cache_reach (update_character_group g gg cc)"

lemma mail_ok: "cache_ok cc \<Longrightarrow> cache_ok (update_character_mail_count g n upd cc)"
  unfolding update_character_mail_count_def by (rule modify_ok) auto

lemma mails_ok: "cache_ok cc \<Longrightarrow> cache_ok (fold add_mail_count mails cc)"
  by (induction mails arbitrary: cc) (auto simp: add_mail_count_def intro: mail_ok)

lemma add_fields:
  "get_character_name_by_guid (add_character_cache_entry g acc name gender race cls lvl cc) h
     = (if h = g then Some name else get_character_name_by_guid cc h)"
  "map_of (cc_by_name (add_character_cache_entry g acc name gender race cls lvl cc)) n = None
     \<longleftrightarrow> n \<noteq> name \<and> map_of (cc_by_name cc) n = None"
  "map_of (cc_store (add_character_cache_entry g acc name gender race cls lvl cc)) h = None
     \<longleftrightarrow> h \<noteq> g \<and> map_of (cc_store cc) h = None"
  by (auto simp: add_character_cache_entry_def get_character_name_by_guid_def by_guid_def get_character_cache_by_guid_def
      map_of_AList_update split: option.splits)

lemma add_rows_ok:
  assumes "cache_ok cc" "distinct (map (\<lambda>r. guid_create_global HG_Player (fst r)) rows)" "distinct (map (fst \<circ> snd) rows)"
    "0 \<notin> guid_create_global HG_Player ` fst ` set rows"
    "\<forall>r \<in> set rows. map_of (cc_store cc) (guid_create_global HG_Player (fst r)) = None \<and> map_of (cc_by_name cc) (fst (snd r)) = None"
  shows "cache_ok (fold add_row rows cc)"
  using assms
proof (induction rows arbitrary: cc)
  case (Cons r rows)
  obtain low name acc race gender cls lvl where r: "r = (low, name, acc, race, gender, cls, lvl)" by (cases r)
  let ?cc = "add_row r cc"
  have "cache_ok ?cc" using Cons.prems r by (auto intro!: add_ok)
  moreover have "\<forall>r' \<in> set rows. map_of (cc_store ?cc) (guid_create_global HG_Player (fst r')) = None
      \<and> map_of (cc_by_name ?cc) (fst (snd r')) = None"
    using Cons.prems r by (auto simp: add_fields(2,3) image_iff)
  ultimately show ?case using Cons.IH [of ?cc] Cons.prems by simp
qed simp

lemma guid_by_name_zero:
  assumes "cache_ok cc" shows "get_character_guid_by_name cc n = Some 0 \<longleftrightarrow> map_of (cc_by_name cc) n = None"
proof (cases "map_of (cc_by_name cc) n")
  case (Some a)
  then obtain g d where g: "map_of (cc_store cc) g = Some (a, d)" using cache_okD(2) [OF assms] by blast
  then show ?thesis using cache_okD(1) [OF assms g] node_at_store [OF assms g] Some
    by (simp add: get_character_guid_by_name_def by_name_def)
qed (simp add: get_character_guid_by_name_def by_name_def)

lemma guid_by_name_some:
  assumes "cache_ok cc" "g \<noteq> 0"
  shows "get_character_guid_by_name cc n = Some g \<longleftrightarrow> get_character_name_by_guid cc g = Some n"
proof
  assume "get_character_guid_by_name cc n = Some g"
  then obtain a where a: "map_of (cc_by_name cc) n = Some a" "map_option cce_guid (node_at cc a) = Some g"
    using assms(2) by (auto simp: get_character_guid_by_name_def by_name_def split: option.splits)
  obtain h d where h: "map_of (cc_store cc) h = Some (a, d)" "cce_name d = n" using cache_okD(2) [OF assms(1) a(1)] by blast
  then show "get_character_name_by_guid cc g = Some n"
    using node_at_store [OF assms(1) h(1)] cache_okD(1) [OF assms(1) h(1)] a(2) by (auto simp: name_by_guid_iff)
next
  assume "get_character_name_by_guid cc g = Some n"
  then obtain a d where g: "map_of (cc_store cc) g = Some (a, d)" "cce_name d = n" by (auto simp: name_by_guid_iff)
  then show "get_character_guid_by_name cc n = Some g"
    using cache_okD(1) [OF assms(1) g(1)] node_at_store [OF assms(1) g(1)] by (simp add: get_character_guid_by_name_def by_name_def)
qed

lemma cache_reach_ok: "cache_reach cc \<Longrightarrow> cache_ok cc"
proof (induction rule: cache_reach.induct)
  case (load rows mails)
  have "cache_ok cache_new" by (simp add: cache_ok_def cache_new_def)
  then show ?case using load
    by (auto simp: load_character_cache_storage_def cache_new_def Let_def intro!: mails_ok add_rows_ok)
next
  case (create cc g name acc gender race cls lvl)
  then have "map_of (cc_store cc) g = None" "map_of (cc_by_name cc) name = None"
    by (simp_all add: guid_by_name_zero has_character_cache_entry_def del: not_None_eq not_Some_eq)
  then show ?case by (intro add_ok create.IH create.hyps(2)) simp
next
  case (rename cc name g gender race)
  have "free_or_own cc g name"
  proof (cases "get_character_guid_by_name cc name = Some 0")
    case False
    then have "get_character_guid_by_name cc name = Some g" "g \<noteq> 0" using rename.hyps(2) by auto
    then show ?thesis using guid_by_name_some [OF rename.IH] by (simp add: free_or_own_def)
  qed (use guid_by_name_zero [OF rename.IH] in \<open>simp add: free_or_own_def\<close>)
  then show ?case by (rule update_data_ok [OF rename.IH])
next
  case (refresh cc low name acc race gender cls lvl mails)
  let ?g = "guid_create_global HG_Player low"
  obtain a d where "map_of (cc_store cc) ?g = Some (a, d)" using refresh.hyps(2) by (auto simp: name_by_guid_iff)
  then have "?g \<noteq> 0" using cache_okD(1) [OF refresh.IH] by blast
  moreover have "map_of (cc_store (delete_character_cache_entry ?g name cc)) ?g = None"
    "map_of (cc_by_name (delete_character_cache_entry ?g name cc)) name = None"
    by (simp_all add: delete_character_cache_entry_def map_of_AList_delete)
  ultimately have "cache_ok (add_row (low, name, acc, race, gender, cls, lvl) (delete_character_cache_entry ?g name cc))"
    using delete_ok [OF refresh.IH refresh.hyps(2)] by (auto intro!: add_ok)
  then show ?case by (simp add: refresh_cache_entry_def mails_ok)
next
  case (arena cc g slot tid cc')
  have "cache_ok (modify_entry g (\<lambda>d. d\<lparr>cce_arena := (cce_arena d)[unat slot := tid]\<rparr>) cc)"
    by (rule modify_ok [OF arena.IH]) simp
  then show ?case using arena by (auto simp: update_character_arena_team_id_def split: option.splits if_splits)
qed (auto simp: update_character_level_def update_character_account_id_def update_character_guild_id_def
    update_character_group_def intro: delete_ok mail_ok modify_ok)


definition example_cache :: char_cache where
  "example_cache = update_character_data (guid_create_global HG_Player 7) (str ''Eva'') None None
     (load_character_cache_storage [(7, str ''Ann'', 1, 1, 0, 1, 80), (9, str ''Bob'', 2, 1, 0, 1, 70)] [(7, 3)] cache_new)"


section \<open>A name changed behind the cache\<close>

text \<open>
  \<open>RefreshCacheEntry\<close> deletes the name of the row, not the name of the cached entry: when the name
  was changed in the database, the old name is left pointing to the entry just erased.
\<close>

lemma refresh_leaves_dangling_name:
  "get_character_guid_by_name (refresh_cache_entry 9 [(9, str ''Rob'', 2, 1, 0, 1, 70)] [] example_cache) (str ''Bob'') = None"
  by code_simp

text \<open>The count of mails is eight bits wide: with 255 mails, one more makes it zero.\<close>

lemma mail_count_wraps:
  "map_option cce_mail (get_character_cache_by_guid
     (update_character_mail_count 7 1 False (update_character_mail_count 7 255 True example_cache)) 7) = Some 0"
  by code_simp

end
