(* ===== verification/Group.thy ===== *)
theory Group
  imports CharacterCache SocialMgr
begin

text \<open>
  Parties and raids: the members of \<open>Group\<close> and \<open>Roll\<close> (src/server/game/Groups/Group.h) and the
  functions of Group.cpp that look at or change one group alone: the member slots, the counters
  of the subgroups of a raid, the flags of the members. Group.cpp writes the counters without
  looking at the bounds of the array; here a write outside of it is the result \<open>None\<close>.
\<close>

section \<open>Constants\<close>

definition MAXGROUPSIZE :: nat where "MAXGROUPSIZE = 5"
definition MAXRAIDSIZE :: nat where "MAXRAIDSIZE = 40"
definition MAX_RAID_SUBGROUPS :: nat where "MAX_RAID_SUBGROUPS = MAXRAIDSIZE div MAXGROUPSIZE"
definition TARGETICONCOUNT :: nat where "TARGETICONCOUNT = 8"

definition GROUPTYPE_NORMAL :: u8 where "GROUPTYPE_NORMAL = 0x00"
definition GROUPTYPE_BG :: u8 where "GROUPTYPE_BG = 0x01"
definition GROUPTYPE_RAID :: u8 where "GROUPTYPE_RAID = 0x02"
definition GROUPTYPE_BGRAID :: u8 where "GROUPTYPE_BGRAID = GROUPTYPE_BG OR GROUPTYPE_RAID"
definition GROUPTYPE_LFG_RESTRICTED :: u8 where "GROUPTYPE_LFG_RESTRICTED = 0x04"
definition GROUPTYPE_LFG :: u8 where "GROUPTYPE_LFG = 0x08"

definition MEMBER_FLAG_ASSISTANT :: u8 where "MEMBER_FLAG_ASSISTANT = 0x01"
definition MEMBER_FLAG_MAINTANK :: u8 where "MEMBER_FLAG_MAINTANK = 0x02"
definition MEMBER_FLAG_MAINASSIST :: u8 where "MEMBER_FLAG_MAINASSIST = 0x04"

definition MEMBER_STATUS_OFFLINE :: u8 where "MEMBER_STATUS_OFFLINE = 0"
definition MEMBER_STATUS_ONLINE :: u8 where "MEMBER_STATUS_ONLINE = 1"
definition MEMBER_STATUS_PVP :: u8 where "MEMBER_STATUS_PVP = 2"

definition FREE_FOR_ALL :: u8 where "FREE_FOR_ALL = 0"
definition MASTER_LOOT :: u8 where "MASTER_LOOT = 2"
definition GROUP_LOOT :: u8 where "GROUP_LOOT = 3"
definition NEED_BEFORE_GREED :: u8 where "NEED_BEFORE_GREED = 4"

definition ITEM_QUALITY_UNCOMMON :: u8 where "ITEM_QUALITY_UNCOMMON = 2"
definition ITEM_QUALITY_ARTIFACT :: u8 where "ITEM_QUALITY_ARTIFACT = 6"

definition DUNGEON_DIFFICULTY_NORMAL :: u8 where "DUNGEON_DIFFICULTY_NORMAL = 0"
definition RAID_DIFFICULTY_10MAN_NORMAL :: u8 where "RAID_DIFFICULTY_10MAN_NORMAL = 0"
definition RAID_DIFFICULTY_10MAN_HEROIC :: u8 where "RAID_DIFFICULTY_10MAN_HEROIC = 2"
definition MAX_DUNGEON_DIFFICULTY :: u8 where "MAX_DUNGEON_DIFFICULTY = 3"
definition MAX_RAID_DIFFICULTY :: u8 where "MAX_RAID_DIFFICULTY = 4"

definition ROLL_ALL_TYPE_NO_DISENCHANT :: u8 where "ROLL_ALL_TYPE_NO_DISENCHANT = 0x07"
definition ROLL_FLAG_TYPE_NEED :: u8 where "ROLL_FLAG_TYPE_NEED = 0x02"
definition ROLL_FLAG_TYPE_DISENCHANT :: u8 where "ROLL_FLAG_TYPE_DISENCHANT = 0x08"

definition GROUP_LFG_FLAG_APPLY_RANDOM_BUFF :: u8 where "GROUP_LFG_FLAG_APPLY_RANDOM_BUFF = 0x001"
definition GROUP_LFG_FLAG_IS_RANDOM_INSTANCE :: u8 where "GROUP_LFG_FLAG_IS_RANDOM_INSTANCE = 0x002"
definition GROUP_LFG_FLAG_IS_HEROIC :: u8 where "GROUP_LFG_FLAG_IS_HEROIC = 0x004"

lemmas group_size_defs = MAXGROUPSIZE_def MAXRAIDSIZE_def MAX_RAID_SUBGROUPS_def
lemmas group_type_defs = GROUPTYPE_NORMAL_def GROUPTYPE_BG_def GROUPTYPE_RAID_def GROUPTYPE_BGRAID_def
  GROUPTYPE_LFG_RESTRICTED_def GROUPTYPE_LFG_def
lemmas group_flag_defs = MEMBER_FLAG_ASSISTANT_def MEMBER_FLAG_MAINTANK_def MEMBER_FLAG_MAINASSIST_def

section \<open>State\<close>

datatype roll_vote = PASS | NEED | GREED | DISENCHANT | NOT_EMITED_YET | NOT_VALID

record member_slot =
  ms_guid :: guid
  ms_name :: bytes
  ms_group :: u8
  ms_flags :: u8
  ms_roles :: u8

text \<open>A roll; \<open>rl_loot\<close> is the loot the item lies in, \<open>None\<close> once that loot was deleted.\<close>

record roll =
  rl_item_guid :: guid
  rl_item :: u32
  rl_random_prop :: u32
  rl_random_suffix :: u32
  rl_count :: u8
  rl_loot :: "nat option"
  rl_votes :: "(guid \<times> roll_vote) list"
  rl_total :: u8
  rl_need :: u8
  rl_greed :: u8
  rl_pass :: u8
  rl_slot :: u8
  rl_mask :: u8

text \<open>
  A group. \<open>g_refs\<close> is \<open>m_memberMgr\<close>, the list of the references that lead to the group, first
  to last: whose it is, and if it is his \<open>m_originalGroup\<close>. The invited players are pointers,
  which are the players' GUIDs; \<open>g_bg\<close> and \<open>g_bf\<close> are the pointers to a battleground or
  battlefield being set.
\<close>

record group_data =
  g_slots :: "member_slot list"
  g_refs :: "(guid \<times> bool) list"
  g_invitees :: "guid list"
  g_leader :: guid
  g_leader_name :: bytes
  g_type :: u8
  g_dungeon :: u8
  g_raid :: u8
  g_bf :: bool
  g_bg :: bool
  g_icons :: "guid list"
  g_loot_method :: u8
  g_threshold :: u8
  g_looter :: guid
  g_master :: guid
  g_rolls :: "roll list"
  g_counts :: "u8 list option"
  g_guid :: guid
  g_counter :: u32
  g_max_enchanting :: u32
  g_lfg_flags :: u8
  g_diff_time :: u32
  g_diff_type :: u8

text \<open>The constructor; it leaves \<open>m_lfgGroupFlags\<close> as the memory is.\<close>

definition group_new :: "u8 \<Rightarrow> group_data" where
  "group_new garbage = \<lparr>g_slots = [], g_refs = [], g_invitees = [], g_leader = 0, g_leader_name = [],
     g_type = GROUPTYPE_NORMAL, g_dungeon = DUNGEON_DIFFICULTY_NORMAL, g_raid = RAID_DIFFICULTY_10MAN_NORMAL,
     g_bf = False, g_bg = False, g_icons = replicate TARGETICONCOUNT 0, g_loot_method = FREE_FOR_ALL,
     g_threshold = ITEM_QUALITY_UNCOMMON, g_looter = 0, g_master = 0, g_rolls = [], g_counts = None, g_guid = 0,
     g_counter = 0, g_max_enchanting = 0, g_lfg_flags = garbage, g_diff_time = 0, g_diff_type = 0\<rparr>"

section \<open>What a group is\<close>

definition is_lfg_group :: "bool \<Rightarrow> group_data \<Rightarrow> bool" where
  "is_lfg_group restricted g \<longleftrightarrow> g_type g AND GROUPTYPE_LFG \<noteq> 0
     \<and> (\<not> restricted \<or> g_type g AND GROUPTYPE_LFG_RESTRICTED \<noteq> 0)"

definition is_raid_group :: "group_data \<Rightarrow> bool" where
  "is_raid_group g \<longleftrightarrow> g_type g AND GROUPTYPE_RAID \<noteq> 0"

definition is_bg_group :: "group_data \<Rightarrow> bool" where "is_bg_group g \<longleftrightarrow> g_bg g"
definition is_bf_group :: "group_data \<Rightarrow> bool" where "is_bf_group g \<longleftrightarrow> g_bf g"

abbreviation bg_or_bf :: "group_data \<Rightarrow> bool" where
  "bg_or_bf g \<equiv> is_bg_group g \<or> is_bf_group g"

definition members_count :: "group_data \<Rightarrow> nat" where "members_count g = length (g_slots g)"
definition invitee_count :: "group_data \<Rightarrow> nat" where "invitee_count g = length (g_invitees g)"

definition is_created :: "group_data \<Rightarrow> bool" where "is_created g \<longleftrightarrow> members_count g > 0"

definition is_full :: "group_data \<Rightarrow> bool" where
  "is_full g \<longleftrightarrow> (if is_raid_group g then length (g_slots g) \<ge> MAXRAIDSIZE else length (g_slots g) \<ge> MAXGROUPSIZE)"

definition add_lfg_buff_flag :: "group_data \<Rightarrow> group_data" where
  "add_lfg_buff_flag g = g\<lparr>g_lfg_flags := g_lfg_flags g OR GROUP_LFG_FLAG_APPLY_RANDOM_BUFF\<rparr>"

definition add_lfg_random_instance_flag :: "group_data \<Rightarrow> group_data" where
  "add_lfg_random_instance_flag g = g\<lparr>g_lfg_flags := g_lfg_flags g OR GROUP_LFG_FLAG_IS_RANDOM_INSTANCE\<rparr>"

definition add_lfg_heroic_flag :: "group_data \<Rightarrow> group_data" where
  "add_lfg_heroic_flag g = g\<lparr>g_lfg_flags := g_lfg_flags g OR GROUP_LFG_FLAG_IS_HEROIC\<rparr>"

definition is_lfg_with_buff :: "group_data \<Rightarrow> bool" where
  "is_lfg_with_buff g \<longleftrightarrow> is_lfg_group False g \<and> g_lfg_flags g AND GROUP_LFG_FLAG_APPLY_RANDOM_BUFF \<noteq> 0"

definition is_lfg_random_instance :: "group_data \<Rightarrow> bool" where
  "is_lfg_random_instance g \<longleftrightarrow> is_lfg_group False g \<and> g_lfg_flags g AND GROUP_LFG_FLAG_IS_RANDOM_INSTANCE \<noteq> 0"

definition is_lfg_heroic :: "group_data \<Rightarrow> bool" where
  "is_lfg_heroic g \<longleftrightarrow> is_lfg_group False g \<and> g_lfg_flags g AND GROUP_LFG_FLAG_IS_HEROIC \<noteq> 0"

definition get_difficulty :: "bool \<Rightarrow> group_data \<Rightarrow> u8" where
  "get_difficulty isRaid g = (if isRaid then g_raid g else g_dungeon g)"

definition set_loot_method :: "u8 \<Rightarrow> group_data \<Rightarrow> group_data" where
  "set_loot_method method g = g\<lparr>g_loot_method := method\<rparr>"

definition set_looter_guid :: "guid \<Rightarrow> group_data \<Rightarrow> group_data" where
  "set_looter_guid x g = g\<lparr>g_looter := x\<rparr>"

definition set_master_looter_guid :: "guid \<Rightarrow> group_data \<Rightarrow> group_data" where
  "set_master_looter_guid x g = g\<lparr>g_master := x\<rparr>"

definition set_loot_threshold :: "u8 \<Rightarrow> group_data \<Rightarrow> group_data" where
  "set_loot_threshold threshold g = g\<lparr>g_threshold := threshold\<rparr>"

definition set_battleground_group :: "bool \<Rightarrow> group_data \<Rightarrow> group_data" where
  "set_battleground_group bg g = g\<lparr>g_bg := bg\<rparr>"

definition set_battlefield_group :: "bool \<Rightarrow> group_data \<Rightarrow> group_data" where
  "set_battlefield_group bf g = g\<lparr>g_bf := bf\<rparr>"

definition is_roll_loot_active :: "group_data \<Rightarrow> bool" where
  "is_roll_loot_active g \<longleftrightarrow> g_rolls g \<noteq> []"

text \<open>The clock is in seconds; the difference is taken in 32 bits.\<close>

definition get_difficulty_change_prevention_time :: "u32 \<Rightarrow> group_data \<Rightarrow> u32" where
  "get_difficulty_change_prevention_time now g = (if g_diff_time g > now then g_diff_time g - now else 0)"

definition set_difficulty_change_prevention :: "u32 \<Rightarrow> u8 \<Rightarrow> group_data \<Rightarrow> group_data" where
  "set_difficulty_change_prevention now type g = g\<lparr>g_diff_time := now + 60, g_diff_type := type\<rparr>"

section \<open>Members\<close>

definition slot_of :: "guid \<Rightarrow> group_data \<Rightarrow> member_slot option" where
  "slot_of x g = find (\<lambda>m. ms_guid m = x) (g_slots g)"

definition is_member :: "guid \<Rightarrow> group_data \<Rightarrow> bool" where
  "is_member x g \<longleftrightarrow> slot_of x g \<noteq> None"

definition is_leader :: "guid \<Rightarrow> group_data \<Rightarrow> bool" where
  "is_leader x g \<longleftrightarrow> g_leader g = x"

definition get_member_guid :: "bytes \<Rightarrow> group_data \<Rightarrow> guid" where
  "get_member_guid name g = (case find (\<lambda>m. ms_name m = name) (g_slots g) of Some m \<Rightarrow> ms_guid m | None \<Rightarrow> guid_empty)"

definition is_assistant :: "guid \<Rightarrow> group_data \<Rightarrow> bool" where
  "is_assistant x g \<longleftrightarrow> (case slot_of x g of None \<Rightarrow> False | Some m \<Rightarrow> ms_flags m AND MEMBER_FLAG_ASSISTANT \<noteq> 0)"

definition get_member_group :: "guid \<Rightarrow> group_data \<Rightarrow> u8" where
  "get_member_group x g = (case slot_of x g of None \<Rightarrow> of_nat (MAX_RAID_SUBGROUPS + 1) | Some m \<Rightarrow> ms_group m)"

definition same_sub_group :: "guid \<Rightarrow> guid \<Rightarrow> group_data \<Rightarrow> bool" where
  "same_sub_group x y g \<longleftrightarrow> (case slot_of y g of None \<Rightarrow> False
     | Some m2 \<Rightarrow> (case slot_of x g of None \<Rightarrow> False | Some m1 \<Rightarrow> ms_group m1 = ms_group m2))"

text \<open>The change of a member's slot, the first one with the GUID, and its removal.\<close>

fun update_slot :: "guid \<Rightarrow> (member_slot \<Rightarrow> member_slot) \<Rightarrow> member_slot list \<Rightarrow> member_slot list" where
  "update_slot x f [] = []"
| "update_slot x f (m # ms) = (if ms_guid m = x then f m # ms else m # update_slot x f ms)"

fun erase_slot :: "guid \<Rightarrow> member_slot list \<Rightarrow> member_slot list" where
  "erase_slot x [] = []"
| "erase_slot x (m # ms) = (if ms_guid m = x then ms else m # erase_slot x ms)"

definition toggle_group_member_flag :: "u8 \<Rightarrow> bool \<Rightarrow> member_slot \<Rightarrow> member_slot" where
  "toggle_group_member_flag flag apply m =
     (if apply then m\<lparr>ms_flags := ms_flags m OR flag\<rparr> else m\<lparr>ms_flags := ms_flags m AND NOT flag\<rparr>)"

definition remove_unique_group_member_flag :: "u8 \<Rightarrow> group_data \<Rightarrow> group_data" where
  "remove_unique_group_member_flag flag g = g\<lparr>g_slots :=
     map (\<lambda>m. if ms_flags m AND flag \<noteq> 0 then m\<lparr>ms_flags := ms_flags m AND NOT flag\<rparr> else m) (g_slots g)\<rparr>"

section \<open>The counters of the subgroups\<close>

text \<open>A write outside of the array is \<open>None\<close>.\<close>

definition add_at :: "u8 \<Rightarrow> u8 \<Rightarrow> u8 list \<Rightarrow> u8 list option" where
  "add_at d i cs = (if unat i < length cs then Some (cs[unat i := cs ! unat i + d]) else None)"

definition init_raid_sub_groups_counter :: "group_data \<Rightarrow> group_data option" where
  "init_raid_sub_groups_counter g = map_option (\<lambda>cs. g\<lparr>g_counts := Some cs\<rparr>)
     (fold (\<lambda>m r. Option.bind r (add_at 1 (ms_group m))) (g_slots g) (Some (replicate MAX_RAID_SUBGROUPS 0)))"

definition sub_group_counter_increase :: "u8 \<Rightarrow> group_data \<Rightarrow> group_data option" where
  "sub_group_counter_increase subgroup g = (case g_counts g of None \<Rightarrow> Some g
     | Some cs \<Rightarrow> map_option (\<lambda>cs. g\<lparr>g_counts := Some cs\<rparr>) (add_at 1 subgroup cs))"

definition sub_group_counter_decrease :: "u8 \<Rightarrow> group_data \<Rightarrow> group_data option" where
  "sub_group_counter_decrease subgroup g = (case g_counts g of None \<Rightarrow> Some g
     | Some cs \<Rightarrow> map_option (\<lambda>cs. g\<lparr>g_counts := Some cs\<rparr>) (add_at (- 1) subgroup cs))"

text \<open>\<open>None\<close>: a read outside of the array.\<close>

definition has_free_slot_sub_group :: "u8 \<Rightarrow> group_data \<Rightarrow> bool option" where
  "has_free_slot_sub_group subgroup g = (case g_counts g of None \<Rightarrow> Some False
     | Some cs \<Rightarrow> if unat subgroup < length cs then Some (unat (cs ! unat subgroup) < MAXGROUPSIZE) else None)"

text \<open>The first subgroup that is not full; without counters it is the first one.\<close>

definition first_free_sub_group :: "group_data \<Rightarrow> u8 option" where
  "first_free_sub_group g = (case g_counts g of None \<Rightarrow> Some 0
     | Some cs \<Rightarrow> map_option of_nat (find (\<lambda>i. unat (cs ! i) < MAXGROUPSIZE) [0..<MAX_RAID_SUBGROUPS]))"

end
