(* ===== verification/GroupWorld.thy ===== *)
theory GroupWorld
  imports Group
begin

text \<open>
  Groups and players together: the references between them (\<open>GroupReference\<close>, the members
  \<open>m_group\<close>, \<open>m_originalGroup\<close> and \<open>m_groupInvite\<close> of \<open>Player\<close>), the group manager's store, the
  character cache, and the packets that all members get. A pointer to a group is its address,
  which is not used again when the group is deleted; following a pointer to a deleted group or
  player is the effect \<open>GBadPointer\<close>, a write outside of an array \<open>GBadIndex\<close>.
\<close>

section \<open>State\<close>

record group_reference =
  ref_target :: "nat option"
  ref_subgroup :: u8

definition ref_none :: group_reference where "ref_none = \<lparr>ref_target = None, ref_subgroup = 0\<rparr>"

record group_player =
  gp_name :: bytes
  gp_ref :: group_reference
  gp_original :: group_reference
  gp_invite :: "nat option"
  gp_leader_flag :: bool
  gp_dungeon :: u8
  gp_raid :: u8
  gp_enchanting :: u16
  gp_pass :: bool

record loot_item =
  li_item :: u32
  li_count :: u8
  li_random_prop :: u32
  li_random_suffix :: u32
  li_free_for_all :: bool
  li_under_threshold :: bool
  li_follow_rules :: bool
  li_looted :: bool
  li_blocked :: bool
  li_winner :: guid

record loot =
  lt_items :: "loot_item list"
  lt_quest_items :: "loot_item list"
  lt_gold :: u32
  lt_unlooted :: u8
  lt_chest :: bool

text \<open>Of \<open>ItemTemplate\<close>: quality, loot of disenchanting, skill this needs, if need rolls are disabled.\<close>

record item_template =
  it_quality :: u32
  it_disenchant :: u32
  it_disenchant_skill :: u32
  it_no_need :: bool

text \<open>The statements Group.cpp executes, with their parameters in order.\<close>

datatype group_stmt =
    InsGroup u32 u32 u8 u32 u8 "u64 list" u8 u8 u8 u32
  | RepGroupMember u32 u32 u8 u8 u8
  | DelGroupMember u32 u32
  | UpdGroupLeader u32 u32
  | UpdGroupType u8 u32
  | UpdGroupMemberSubgroup u8 u32
  | UpdGroupMemberFlag u8 u32
  | UpdGroupDifficulty u8 u32
  | UpdGroupRaidDifficulty u8 u32
  | DelGroup u32
  | DelGroupMemberAll u32
  | DelLfgData u32

datatype group_effect =
    GBadPointer
  | GBadIndex
  | GDb group_stmt
  | GSend guid world_packet
  | GResetInstances guid u8
  | GCopyBinds guid guid
  | GDeleteInstanceData u32
  | GInstanceInvalid guid
  | GLfgBoot guid guid guid bytes
  | GLfgLeave guid
  | GLfgSetupMember guid guid
  | GLfgLoad guid
  | GOnInvite nat guid
  | GOnAddMember nat guid
  | GOnRemoveMember nat guid u8 guid bytes
  | GOnChangeLeader nat guid guid
  | GOnDisband nat
  | GOnCreate nat guid
  | GAchievement guid u8 u8
  | GItemStored guid u32 u8
  | GEquipError guid u8 u32
  | GDisenchant guid u32
  | GItemRemoved nat u8
  | GChestEmpty nat
  | GLootTimer nat u32
  | GServerStop
  | GAssertFailed

record group_world =
  gw_players :: "guid \<Rightarrow> group_player option"
  gw_groups :: "nat \<Rightarrow> group_data option"
  gw_next :: nat
  gw_store :: "(u32 \<times> nat) list"
  gw_next_id :: u32
  gw_ids :: "bool list"
  gw_cache :: char_cache
  gw_loots :: "nat \<Rightarrow> loot option"
  gw_item_gen :: guid_generator
  gw_draws :: nat
  gw_log :: "group_effect list"

text \<open>
  The rest of the world, which the operations only read: the attributes of players, the looking
  for groups manager, the configuration, the answers of the scripts, the random numbers.
\<close>

record group_env =
  ge_in_world :: "guid \<Rightarrow> bool"
  ge_level :: "guid \<Rightarrow> u8"
  ge_gm :: "guid \<Rightarrow> bool"
  ge_spectator :: "guid \<Rightarrow> bool"
  ge_team :: "guid \<Rightarrow> u8"
  ge_instance :: "guid \<Rightarrow> u32"
  ge_map :: "guid \<Rightarrow> u32"
  ge_alive :: "guid \<Rightarrow> bool"
  ge_in_dungeon :: "guid \<Rightarrow> bool"
  ge_in_bg :: "guid \<Rightarrow> bool"
  ge_logging_out :: "guid \<Rightarrow> bool"
  ge_socket_closed :: "guid \<Rightarrow> bool"
  ge_in_combat_near :: "guid \<Rightarrow> guid \<Rightarrow> bool"
  ge_hostile :: "guid \<Rightarrow> guid \<Rightarrow> bool"
  ge_social :: "guid \<Rightarrow> player_social"
  ge_name_map :: "bytes \<Rightarrow> guid option"
  ge_stats_packet :: "guid \<Rightarrow> world_packet"
  ge_far :: "guid \<Rightarrow> guid \<Rightarrow> bool"
  ge_on_map :: "guid \<Rightarrow> nat option"
  ge_near_loot :: "guid \<Rightarrow> bool"
  ge_near_reward :: "guid \<Rightarrow> bool"
  ge_lfg_can_roll :: "guid \<Rightarrow> u32 \<Rightarrow> bool"
  ge_loot_map :: u32
  ge_item :: "u32 \<Rightarrow> item_template option"
  ge_can_roll :: "guid \<Rightarrow> u32 \<Rightarrow> bool"
  ge_can_store :: "guid \<Rightarrow> u32 \<Rightarrow> u8 \<Rightarrow> u8"
  ge_urand :: "nat \<Rightarrow> u8"
  ge_lfg_state :: "guid \<Rightarrow> u8"
  ge_lfg_dungeon :: "guid \<Rightarrow> u32"
  ge_lfg_map :: "guid \<Rightarrow> u32"
  ge_lfg_kicks_left :: "guid \<Rightarrow> u8"
  ge_lfg_kick_wait :: "guid \<Rightarrow> u32 option"
  ge_can_invite :: "guid \<Rightarrow> bytes \<Rightarrow> bool"
  ge_can_accept :: "guid \<Rightarrow> nat \<Rightarrow> bool"
  ge_gm_group :: bool
  ge_two_side :: bool
  ge_level_req :: u32
  ge_raid_level :: int
  ge_leave_on_logout :: bool
  ge_no_bg_ready_check :: bool
  ge_escape :: "bytes \<Rightarrow> bytes"
  ge_garbage :: u8

definition glog :: "group_effect \<Rightarrow> group_world \<Rightarrow> group_world" where
  "glog ef w = w\<lparr>gw_log := gw_log w @ [ef]\<rparr>"

definition upd_player :: "guid \<Rightarrow> (group_player \<Rightarrow> group_player) \<Rightarrow> group_world \<Rightarrow> group_world" where
  "upd_player x f w = w\<lparr>gw_players := (gw_players w)(x := map_option f (gw_players w x))\<rparr>"

definition upd_group :: "nat \<Rightarrow> (group_data \<Rightarrow> group_data) \<Rightarrow> group_world \<Rightarrow> group_world" where
  "upd_group p f w = w\<lparr>gw_groups := (gw_groups w)(p := map_option f (gw_groups w p))\<rparr>"

text \<open>A call of a method on the group at the address, and a change that may leave an array.\<close>

definition with_group :: "nat \<Rightarrow> (group_data \<Rightarrow> group_world \<Rightarrow> group_world) \<Rightarrow> group_world \<Rightarrow> group_world" where
  "with_group p f w = (case gw_groups w p of None \<Rightarrow> glog GBadPointer w | Some g \<Rightarrow> f g w)"

definition try_group :: "nat \<Rightarrow> (group_data \<Rightarrow> group_data option) \<Rightarrow> group_world \<Rightarrow> group_world" where
  "try_group p f = with_group p (\<lambda>g w. case f g of None \<Rightarrow> glog GBadIndex w | Some g' \<Rightarrow> upd_group p (\<lambda>_. g') w)"

definition grp_connected :: "group_world \<Rightarrow> guid \<Rightarrow> bool" where
  "grp_connected w x \<longleftrightarrow> gw_players w x \<noteq> None"

text \<open>\<open>FindPlayer\<close>, \<open>FindPlayerByName(name, false)\<close>\<close>

definition grp_find_player :: "group_env \<Rightarrow> group_world \<Rightarrow> guid \<Rightarrow> group_player option" where
  "grp_find_player e w x = (if ge_in_world e x then gw_players w x else None)"

definition grp_find_by_name :: "group_env \<Rightarrow> group_world \<Rightarrow> bytes \<Rightarrow> guid option" where
  "grp_find_by_name e w name = (case ge_name_map e name of
     Some x \<Rightarrow> if grp_connected w x then Some x else None | None \<Rightarrow> None)"

definition db :: "group_stmt \<Rightarrow> group_world \<Rightarrow> group_world" where "db s = glog (GDb s)"
definition send_to :: "guid \<Rightarrow> world_packet \<Rightarrow> group_world \<Rightarrow> group_world" where "send_to x pk = glog (GSend x pk)"

section \<open>References\<close>

definition get_ref :: "bool \<Rightarrow> group_player \<Rightarrow> group_reference" where
  "get_ref orig pl = (if orig then gp_original pl else gp_ref pl)"

definition put_ref :: "bool \<Rightarrow> group_reference \<Rightarrow> group_player \<Rightarrow> group_player" where
  "put_ref orig r pl = (if orig then pl\<lparr>gp_original := r\<rparr> else pl\<lparr>gp_ref := r\<rparr>)"

definition unlink_ref :: "bool \<Rightarrow> guid \<Rightarrow> group_world \<Rightarrow> group_world" where
  "unlink_ref orig x w = (case gw_players w x of None \<Rightarrow> w
     | Some pl \<Rightarrow> case ref_target (get_ref orig pl) of None \<Rightarrow> w
       | Some p \<Rightarrow> upd_player x (put_ref orig ((get_ref orig pl)\<lparr>ref_target := None\<rparr>))
           (upd_group p (\<lambda>g. g\<lparr>g_refs := removeAll (x, orig) (g_refs g)\<rparr>) w))"

text \<open>\<open>link\<close> and the \<open>LinkMember\<close> it calls, which puts the reference first.\<close>

definition link_member :: "bool \<Rightarrow> guid \<Rightarrow> group_data \<Rightarrow> group_data" where
  "link_member orig x g = g\<lparr>g_refs := (x, orig) # g_refs g\<rparr>"

definition link_ref :: "bool \<Rightarrow> nat \<Rightarrow> guid \<Rightarrow> group_world \<Rightarrow> group_world" where
  "link_ref orig p x w = upd_group p (link_member orig x)
     (upd_player x (\<lambda>pl. put_ref orig ((get_ref orig pl)\<lparr>ref_target := Some p\<rparr>) pl) (unlink_ref orig x w))"

definition set_sub_group :: "bool \<Rightarrow> u8 \<Rightarrow> guid \<Rightarrow> group_world \<Rightarrow> group_world" where
  "set_sub_group orig subgroup x = upd_player x (\<lambda>pl. put_ref orig ((get_ref orig pl)\<lparr>ref_subgroup := subgroup\<rparr>) pl)"

text \<open>\<open>Player::SetGroup\<close>, \<open>Player::SetOriginalGroup\<close>; \<open>None\<close> is the null pointer.\<close>

definition player_set_group :: "guid \<Rightarrow> nat option \<Rightarrow> u8 \<Rightarrow> group_world \<Rightarrow> group_world" where
  "player_set_group x grp subgroup w = (case grp of None \<Rightarrow> unlink_ref False x w
     | Some p \<Rightarrow> set_sub_group False subgroup x (link_ref False p x w))"

definition player_set_original_group :: "guid \<Rightarrow> nat option \<Rightarrow> u8 \<Rightarrow> group_world \<Rightarrow> group_world" where
  "player_set_original_group x grp subgroup w = (case grp of None \<Rightarrow> unlink_ref True x w
     | Some p \<Rightarrow> set_sub_group True subgroup x (link_ref True p x w))"

definition get_group :: "group_world \<Rightarrow> guid \<Rightarrow> nat option" where
  "get_group w x = Option.bind (gw_players w x) (\<lambda>pl. ref_target (gp_ref pl))"

definition get_original_group :: "group_world \<Rightarrow> guid \<Rightarrow> nat option" where
  "get_original_group w x = Option.bind (gw_players w x) (\<lambda>pl. ref_target (gp_original pl))"

definition get_sub_group :: "group_world \<Rightarrow> guid \<Rightarrow> u8" where
  "get_sub_group w x = (case gw_players w x of Some pl \<Rightarrow> ref_subgroup (gp_ref pl) | None \<Rightarrow> 0)"

definition get_group_invite :: "group_world \<Rightarrow> guid \<Rightarrow> nat option" where
  "get_group_invite w x = Option.bind (gw_players w x) gp_invite"

definition set_group_invite :: "nat option \<Rightarrow> guid \<Rightarrow> group_world \<Rightarrow> group_world" where
  "set_group_invite grp x = upd_player x (\<lambda>pl. pl\<lparr>gp_invite := grp\<rparr>)"

definition set_battleground_or_battlefield_raid :: "guid \<Rightarrow> nat \<Rightarrow> u8 \<Rightarrow> group_world \<Rightarrow> group_world" where
  "set_battleground_or_battlefield_raid x p subgroup w =
     (let w = player_set_original_group x (get_group w x) (get_sub_group w x) w;
          w = unlink_ref False x w
      in set_sub_group False subgroup x (link_ref False p x w))"

definition remove_from_battleground_or_battlefield_raid :: "guid \<Rightarrow> group_world \<Rightarrow> group_world" where
  "remove_from_battleground_or_battlefield_raid x w =
     (let w = unlink_ref False x w;
          w = (case get_original_group w x of None \<Rightarrow> w
               | Some p \<Rightarrow> (case gw_players w x of None \<Rightarrow> w
                   | Some pl \<Rightarrow> set_sub_group False (ref_subgroup (gp_original pl)) x (link_ref False p x w)))
      in player_set_original_group x None 0 w)"

text \<open>\<open>delete\<close>: the list of references is cleared, which sets every one of them to null.\<close>

definition delete_group :: "nat \<Rightarrow> group_world \<Rightarrow> group_world" where
  "delete_group p = with_group p (\<lambda>g w.
     let w = fold (\<lambda>(x, orig). upd_player x (\<lambda>pl. put_ref orig ((get_ref orig pl)\<lparr>ref_target := None\<rparr>) pl)) (g_refs g) w
     in w\<lparr>gw_groups := (gw_groups w)(p := None)\<rparr>)"

definition new_group :: "group_env \<Rightarrow> group_world \<Rightarrow> nat \<times> group_world" where
  "new_group e w = (let p = gw_next w in
     (p, w\<lparr>gw_groups := (gw_groups w)(p \<mapsto> group_new (ge_garbage e)), gw_next := p + 1\<rparr>))"

section \<open>Packets to the members\<close>

definition SMSG_GROUP_UNINVITE :: u16 where "SMSG_GROUP_UNINVITE = 0x077"
definition SMSG_GROUP_SET_LEADER :: u16 where "SMSG_GROUP_SET_LEADER = 0x079"
definition SMSG_GROUP_DESTROYED :: u16 where "SMSG_GROUP_DESTROYED = 0x07C"
definition SMSG_GROUP_LIST :: u16 where "SMSG_GROUP_LIST = 0x07D"
definition MSG_RAID_TARGET_UPDATE :: u16 where "MSG_RAID_TARGET_UPDATE = 0x321"
definition MSG_RAID_READY_CHECK_CONFIRM :: u16 where "MSG_RAID_READY_CHECK_CONFIRM = 0x3AE"
definition LFG_STATE_NONE :: u8 where "LFG_STATE_NONE = 0"
definition LFG_STATE_BOOT :: u8 where "LFG_STATE_BOOT = 4"
definition LFG_STATE_FINISHED_DUNGEON :: u8 where "LFG_STATE_FINISHED_DUNGEON = 6"
definition LFG_STATE_RAIDBROWSER :: u8 where "LFG_STATE_RAIDBROWSER = 7"

definition group_list_member :: "group_env \<Rightarrow> group_world \<Rightarrow> group_data \<Rightarrow> member_slot \<Rightarrow> field list" where
  "group_list_member e w g c =
     (let onlineState = (if grp_connected w (ms_guid c) \<and> \<not> ge_logging_out e (ms_guid c) then MEMBER_STATUS_ONLINE else MEMBER_STATUS_OFFLINE);
          onlineState = onlineState OR (if bg_or_bf g then MEMBER_STATUS_PVP else 0)
      in [FStr (ms_name c), FU64 (ms_guid c), FU8 onlineState, FU8 (ms_group c), FU8 (ms_flags c), FU8 (ms_roles c)])"

definition group_list_packet :: "group_env \<Rightarrow> group_world \<Rightarrow> group_data \<Rightarrow> member_slot \<Rightarrow> world_packet" where
  "group_list_packet e w g slot = WorldPacket SMSG_GROUP_LIST
     ([FU8 (g_type g), FU8 (ms_group slot), FU8 (ms_flags slot), FU8 (ms_roles slot)]
      @ (if is_lfg_group False g
         then [FU8 (if ge_lfg_state e (g_guid g) = LFG_STATE_FINISHED_DUNGEON then 2 else 0), FU32 (ge_lfg_dungeon e (g_guid g))] else [])
      @ [FU64 (g_guid g), FU32 (g_counter g), FU32 (of_nat (members_count g) - 1)]
      @ concat (map (group_list_member e w g) (filter (\<lambda>c. ms_guid c \<noteq> ms_guid slot) (g_slots g)))
      @ [FU64 (g_leader g)]
      @ (if of_nat (members_count g) - 1 \<noteq> (0 :: u32)
         then [FU8 (g_loot_method g), FU64 (if g_loot_method g = MASTER_LOOT then g_master g else 0), FU8 (g_threshold g),
               FU8 (g_dungeon g), FU8 (g_raid g), FU8 (if g_raid g \<ge> RAID_DIFFICULTY_10MAN_HEROIC then 1 else 0)] else []))"

definition send_update_to_player :: "group_env \<Rightarrow> nat \<Rightarrow> guid \<Rightarrow> member_slot option \<Rightarrow> group_world \<Rightarrow> group_world" where
  "send_update_to_player e p x slot = with_group p (\<lambda>g w.
     if get_group w x \<noteq> Some p then w
     else case (case slot of None \<Rightarrow> slot_of x g | Some m \<Rightarrow> Some m) of
         None \<Rightarrow> w
       | Some m \<Rightarrow> send_to x (group_list_packet e w g m) (upd_group p (\<lambda>g. g\<lparr>g_counter := g_counter g + 1\<rparr>) w))"

definition send_update :: "group_env \<Rightarrow> nat \<Rightarrow> group_world \<Rightarrow> group_world" where
  "send_update e p = with_group p (\<lambda>g. fold (\<lambda>m. send_update_to_player e p (ms_guid m) (Some m)) (g_slots g))"

text \<open>What the removed players are told: an empty list.\<close>

definition empty_list_packet :: "group_data \<Rightarrow> world_packet" where
  "empty_list_packet g = WorldPacket SMSG_GROUP_LIST
     [FU8 0x10, FU8 0, FU8 0, FU8 0, FU64 (g_guid g), FU32 (g_counter g), FU32 0, FU64 0]"

text \<open>To the players whose references lead to the group; \<open>group\<close> is a subgroup or none for all.\<close>

definition broadcast_packet :: "world_packet \<Rightarrow> bool \<Rightarrow> u8 option \<Rightarrow> guid \<Rightarrow> nat \<Rightarrow> group_world \<Rightarrow> group_world" where
  "broadcast_packet pk ignorePlayersInBGRaid grp ignore p = with_group p (\<lambda>g.
     fold (\<lambda>(x, orig) w. case gw_players w x of None \<Rightarrow> glog GBadPointer w
       | Some pl \<Rightarrow>
           if \<not> is_empty ignore \<and> x = ignore \<or> ignorePlayersInBGRaid \<and> ref_target (gp_ref pl) \<noteq> Some p then w
           else if grp = None \<or> grp = Some (ref_subgroup (get_ref orig pl)) then send_to x pk w else w) (g_refs g))"

definition broadcast_ready_check :: "world_packet \<Rightarrow> nat \<Rightarrow> group_world \<Rightarrow> group_world" where
  "broadcast_ready_check pk p = with_group p (\<lambda>g.
     fold (\<lambda>(x, orig) w. if is_leader x g \<or> is_assistant x g then send_to x pk w else w) (g_refs g))"

definition offline_ready_check :: "nat \<Rightarrow> group_world \<Rightarrow> group_world" where
  "offline_ready_check p = with_group p (\<lambda>g.
     fold (\<lambda>m w. if grp_connected w (ms_guid m) then w
       else broadcast_ready_check (WorldPacket MSG_RAID_READY_CHECK_CONFIRM [FU64 (ms_guid m), FU8 0]) p w) (g_slots g))"

definition update_player_out_of_range :: "group_env \<Rightarrow> nat \<Rightarrow> guid \<Rightarrow> group_world \<Rightarrow> group_world" where
  "update_player_out_of_range e p x w =
     (if \<not> ge_in_world e x then w
      else with_group p (\<lambda>g. fold (\<lambda>(y, orig) w. if ge_far e y x then send_to y (ge_stats_packet e x) w else w) (g_refs g)) w)"

text \<open>\<open>SameSubGroup\<close> of two players.\<close>

definition players_same_sub_group :: "nat \<Rightarrow> guid \<Rightarrow> guid \<Rightarrow> group_world \<Rightarrow> bool" where
  "players_same_sub_group p x y w \<longleftrightarrow> get_group w x = Some p \<and> get_group w y = Some p \<and> get_sub_group w x = get_sub_group w y"

section \<open>Target icons\<close>

definition target_update_packet :: "guid \<Rightarrow> u8 \<Rightarrow> guid \<Rightarrow> world_packet" where
  "target_update_packet who i target = WorldPacket MSG_RAID_TARGET_UPDATE [FU8 0, FU64 who, FU8 i, FU64 target]"

definition put_target_icon :: "u8 \<Rightarrow> guid \<Rightarrow> guid \<Rightarrow> nat \<Rightarrow> group_world \<Rightarrow> group_world" where
  "put_target_icon i who target p w = broadcast_packet (target_update_packet who i target) True None guid_empty p
     (upd_group p (\<lambda>g. g\<lparr>g_icons := (g_icons g)[unat i := target]\<rparr>) w)"

text \<open>The recursive calls have an empty target, so they go no deeper.\<close>

definition set_target_icon :: "u8 \<Rightarrow> guid \<Rightarrow> guid \<Rightarrow> nat \<Rightarrow> group_world \<Rightarrow> group_world" where
  "set_target_icon i who target p w =
     (if unat i \<ge> TARGETICONCOUNT then w
      else let w = (if is_empty target then w
             else fold (\<lambda>k. with_group p (\<lambda>g w. if g_icons g ! k = target then put_target_icon (of_nat k) guid_empty guid_empty p w else w))
               [0..<TARGETICONCOUNT] w)
        in with_group p (\<lambda>_. put_target_icon i who target p) w)"

definition send_target_icon_list :: "nat \<Rightarrow> guid \<Rightarrow> group_world \<Rightarrow> group_world" where
  "send_target_icon_list p x = with_group p (\<lambda>g. send_to x (WorldPacket MSG_RAID_TARGET_UPDATE
     (FU8 1 # concat (map (\<lambda>k. if is_empty (g_icons g ! k) then [] else [FU8 (of_nat k), FU64 (g_icons g ! k)]) [0..<TARGETICONCOUNT]))))"

end
