(* ===== verification/GroupRolls.thy ===== *)
theory GroupRolls
  imports GroupWorld
begin

text \<open>
  The rolls for loot of Group.cpp: how a roll starts (\<open>GroupLoot\<close>, \<open>NeedBeforeGreed\<close>), how votes
  are counted (\<open>CountRollVote\<close>) and how it ends (\<open>CountTheRoll\<close>, \<open>EndRoll\<close>), \<open>MasterLoot\<close> and the
  choice of the next looter. The four totals of a roll are eight-bit counters; the lemmas show
  when they agree with the votes, and what happens when they do not.
\<close>

section \<open>Packets\<close>

definition ROLL_PASS :: u8 where "ROLL_PASS = 0"
definition ROLL_NEED :: u8 where "ROLL_NEED = 1"
definition ROLL_GREED :: u8 where "ROLL_GREED = 2"
definition ROLL_DISENCHANT :: u8 where "ROLL_DISENCHANT = 3"
definition MAX_ROLL_TYPE :: u8 where "MAX_ROLL_TYPE = 4"

lemmas roll_type_defs = ROLL_PASS_def ROLL_NEED_def ROLL_GREED_def ROLL_DISENCHANT_def MAX_ROLL_TYPE_def

definition SMSG_LOOT_ALL_PASSED :: u16 where "SMSG_LOOT_ALL_PASSED = 0x29E"
definition SMSG_LOOT_ROLL_WON :: u16 where "SMSG_LOOT_ROLL_WON = 0x29F"
definition SMSG_LOOT_START_ROLL :: u16 where "SMSG_LOOT_START_ROLL = 0x2A1"
definition SMSG_LOOT_ROLL :: u16 where "SMSG_LOOT_ROLL = 0x2A2"
definition SMSG_LOOT_MASTER_LIST :: u16 where "SMSG_LOOT_MASTER_LIST = 0x2A4"

primrec vote_number :: "roll_vote \<Rightarrow> u8" where
  "vote_number PASS = 0"
| "vote_number NEED = 1"
| "vote_number GREED = 2"
| "vote_number DISENCHANT = 3"
| "vote_number NOT_EMITED_YET = 4"
| "vote_number NOT_VALID = 5"

definition roll_new :: "guid \<Rightarrow> loot_item \<Rightarrow> roll" where
  "roll_new g li = \<lparr>rl_item_guid = g, rl_item = li_item li, rl_random_prop = li_random_prop li,
     rl_random_suffix = li_random_suffix li, rl_count = li_count li, rl_loot = None, rl_votes = [], rl_total = 0,
     rl_need = 0, rl_greed = 0, rl_pass = 0, rl_slot = 0, rl_mask = ROLL_ALL_TYPE_NO_DISENCHANT\<rparr>"

text \<open>To the connected voters whose vote is one of those.\<close>

definition send_to_voters :: "(roll_vote \<Rightarrow> bool) \<Rightarrow> roll \<Rightarrow> world_packet \<Rightarrow> group_world \<Rightarrow> group_world" where
  "send_to_voters P r pk = fold (\<lambda>(x, v) w. if grp_connected w x \<and> P v then send_to x pk w else w) (rl_votes r)"

definition start_roll_packet :: "u32 \<Rightarrow> u32 \<Rightarrow> u8 \<Rightarrow> roll \<Rightarrow> world_packet" where
  "start_roll_packet countDown mapid voteMask r = WorldPacket SMSG_LOOT_START_ROLL
     [FU64 (rl_item_guid r), FU32 mapid, FU32 (ucast (rl_slot r)), FU32 (rl_item r), FU32 (rl_random_suffix r),
      FU32 (rl_random_prop r), FU32 (ucast (rl_count r)), FU32 countDown, FU8 voteMask]"

definition send_loot_start_roll :: "u32 \<Rightarrow> u32 \<Rightarrow> roll \<Rightarrow> group_world \<Rightarrow> group_world" where
  "send_loot_start_roll countDown mapid r =
     send_to_voters (\<lambda>v. v = NOT_EMITED_YET) r (start_roll_packet countDown mapid (rl_mask r) r)"

definition send_loot_start_roll_to_player :: "u32 \<Rightarrow> u32 \<Rightarrow> guid \<Rightarrow> bool \<Rightarrow> roll \<Rightarrow> group_world \<Rightarrow> group_world" where
  "send_loot_start_roll_to_player countDown mapid x canNeed r =
     send_to x (start_roll_packet countDown mapid (if canNeed then rl_mask r else rl_mask r AND NOT ROLL_FLAG_TYPE_NEED) r)"

definition send_loot_roll :: "guid \<Rightarrow> guid \<Rightarrow> u8 \<Rightarrow> u8 \<Rightarrow> bool \<Rightarrow> roll \<Rightarrow> group_world \<Rightarrow> group_world" where
  "send_loot_roll source target rollNumber rollType autoPass r = send_to_voters (\<lambda>v. v \<noteq> NOT_VALID) r
     (WorldPacket SMSG_LOOT_ROLL [FU64 source, FU32 (ucast (rl_slot r)), FU64 target, FU32 (rl_item r), FU32 (rl_random_suffix r),
      FU32 (rl_random_prop r), FU8 rollNumber, FU8 rollType, FU8 (if autoPass then 1 else 0)])"

definition send_loot_roll_won :: "guid \<Rightarrow> guid \<Rightarrow> u8 \<Rightarrow> u8 \<Rightarrow> roll \<Rightarrow> group_world \<Rightarrow> group_world" where
  "send_loot_roll_won source target rollNumber rollType r = send_to_voters (\<lambda>v. v \<noteq> NOT_VALID) r
     (WorldPacket SMSG_LOOT_ROLL_WON [FU64 source, FU32 (ucast (rl_slot r)), FU32 (rl_item r), FU32 (rl_random_suffix r),
      FU32 (rl_random_prop r), FU64 target, FU8 rollNumber, FU8 rollType])"

definition send_loot_all_passed :: "roll \<Rightarrow> group_world \<Rightarrow> group_world" where
  "send_loot_all_passed r = send_to_voters (\<lambda>v. v \<noteq> NOT_VALID) r
     (WorldPacket SMSG_LOOT_ALL_PASSED [FU64 (rl_item_guid r), FU32 (ucast (rl_slot r)), FU32 (rl_item r), FU32 (rl_random_prop r),
      FU32 (rl_random_suffix r)])"

section \<open>Loot\<close>

definition upd_loot :: "nat \<Rightarrow> (loot \<Rightarrow> loot) \<Rightarrow> group_world \<Rightarrow> group_world" where
  "upd_loot l f w = w\<lparr>gw_loots := (gw_loots w)(l := map_option f (gw_loots w l))\<rparr>"

text \<open>The item in a slot: the quest items come behind the others. \<open>None\<close>: there is no such slot.\<close>

definition loot_slot :: "loot \<Rightarrow> u8 \<Rightarrow> loot_item option" where
  "loot_slot lt s = (let i = unat s; n = length (lt_items lt) in
     if i \<ge> n then (if i - n < length (lt_quest_items lt) then Some (lt_quest_items lt ! (i - n)) else None)
     else Some (lt_items lt ! i))"

definition upd_loot_slot :: "u8 \<Rightarrow> (loot_item \<Rightarrow> loot_item) \<Rightarrow> loot \<Rightarrow> loot" where
  "upd_loot_slot s f lt = (let i = unat s; n = length (lt_items lt) in
     if i \<ge> n then lt\<lparr>lt_quest_items := (lt_quest_items lt)[i - n := f (lt_quest_items lt ! (i - n))]\<rparr>
     else lt\<lparr>lt_items := (lt_items lt)[i := f (lt_items lt ! i)]\<rparr>)"

definition is_looted :: "loot \<Rightarrow> bool" where
  "is_looted lt \<longleftrightarrow> lt_gold lt = 0 \<and> lt_unlooted lt = 0"

section \<open>The end of a roll\<close>

text \<open>One vote among those that count: it is dropped when the player is gone, or draws a number.\<close>

type_synonym draw_state = "u8 \<times> guid \<times> roll_vote \<times> nat \<times> group_world"

definition draw :: "group_env \<Rightarrow> nat option \<Rightarrow> (roll_vote \<Rightarrow> bool) \<Rightarrow> roll \<Rightarrow> guid \<times> roll_vote \<Rightarrow> draw_state \<Rightarrow> draw_state" where
  "draw e allowedMap P r xv s = (case (xv, s) of ((x, v), (maxresul, maxguid, rollvote, gone, w)) \<Rightarrow>
     if \<not> P v then s
     else if grp_find_player e w x = None \<or> allowedMap \<noteq> None \<and> ge_on_map e x \<noteq> allowedMap
     then (maxresul, maxguid, rollvote, gone + 1, w)
     else
       let randomN = ge_urand e (gw_draws w);
           w = send_loot_roll guid_empty x randomN (vote_number v) False r (w\<lparr>gw_draws := gw_draws w + 1\<rparr>)
       in if maxresul < randomN then (randomN, x, v, gone, w) else (maxresul, maxguid, rollvote, gone, w))"

definition draw_all :: "group_env \<Rightarrow> nat option \<Rightarrow> (roll_vote \<Rightarrow> bool) \<Rightarrow> roll \<Rightarrow> group_world \<Rightarrow> draw_state" where
  "draw_all e allowedMap P r w = fold (draw e allowedMap P r) (rl_votes r) (0, guid_empty, NOT_VALID, 0, w)"

text \<open>The winner gets the item, or keeps the right to it when his bags are full.\<close>

definition award_item :: "group_env \<Rightarrow> nat \<Rightarrow> roll \<Rightarrow> guid \<Rightarrow> group_world \<Rightarrow> group_world" where
  "award_item e l r x w = (case Option.bind (gw_loots w l) (\<lambda>lt. loot_slot lt (rl_slot r)) of
     None \<Rightarrow> glog GBadIndex w
   | Some item \<Rightarrow>
       let msg = ge_can_store e x (rl_item r) (li_count item)
       in if msg = 0
          then glog (GItemStored x (rl_item r) (li_count item))
            (glog (GItemRemoved l (rl_slot r))
              (upd_loot l (\<lambda>lt. (upd_loot_slot (rl_slot r) (\<lambda>i. i\<lparr>li_looted := True\<rparr>) lt)\<lparr>lt_unlooted := lt_unlooted lt - 1\<rparr>) w))
          else glog (GEquipError x msg (rl_item r))
            (upd_loot l (upd_loot_slot (rl_slot r) (\<lambda>i. i\<lparr>li_blocked := False, li_winner := x\<rparr>)) w))"

text \<open>\<open>GDisenchant\<close>: the player gets the disenchanted item, in his bags or by mail.\<close>

definition award_disenchant :: "nat \<Rightarrow> roll \<Rightarrow> guid \<Rightarrow> group_world \<Rightarrow> group_world" where
  "award_disenchant l r x w = (case Option.bind (gw_loots w l) (\<lambda>lt. loot_slot lt (rl_slot r)) of
     None \<Rightarrow> glog GBadIndex w
   | Some item \<Rightarrow> glog (GDisenchant x (rl_item r)) (glog (GItemRemoved l (rl_slot r))
       (upd_loot l (\<lambda>lt. (upd_loot_slot (rl_slot r) (\<lambda>i. i\<lparr>li_looted := True\<rparr>) lt)\<lparr>lt_unlooted := lt_unlooted lt - 1\<rparr>) w)))"

definition count_needs :: "group_env \<Rightarrow> nat option \<Rightarrow> nat \<Rightarrow> roll \<times> group_world \<Rightarrow> roll \<times> group_world" where
  "count_needs e allowedMap l = (\<lambda>(r, w).
     if rl_need r > 0 \<and> rl_votes r \<noteq> [] then
       (case draw_all e allowedMap (\<lambda>v. v = NEED) r w of (maxresul, maxguid, _, gone, w) \<Rightarrow>
          let r' = r\<lparr>rl_need := rl_need r - of_nat gone\<rparr>
          in if is_empty maxguid then (r'\<lparr>rl_need := 0\<rparr>, w)
             else let w = send_loot_roll_won guid_empty maxguid maxresul ROLL_NEED r' w
               in (r', if grp_find_player e w maxguid = None then w
                       else award_item e l r' maxguid (glog (GAchievement maxguid ROLL_NEED maxresul) w)))
     else (r, w))"

definition count_greeds :: "group_env \<Rightarrow> nat option \<Rightarrow> nat \<Rightarrow> roll \<times> group_world \<Rightarrow> roll \<times> group_world" where
  "count_greeds e allowedMap l = (\<lambda>(r, w).
     if rl_need r = 0 \<and> rl_greed r > 0 \<and> rl_votes r \<noteq> [] then
       (case draw_all e allowedMap (\<lambda>v. v = GREED \<or> v = DISENCHANT) r w of (maxresul, maxguid, rollvote, gone, w) \<Rightarrow>
          let r' = r\<lparr>rl_greed := rl_greed r - of_nat gone\<rparr>
          in if is_empty maxguid then (r'\<lparr>rl_greed := 0\<rparr>, w)
             else let w = send_loot_roll_won guid_empty maxguid maxresul (vote_number rollvote) r' w
               in (r', if grp_find_player e w maxguid = None then w
                       else let w = glog (GAchievement maxguid ROLL_GREED maxresul) w
                         in if rollvote = GREED then award_item e l r' maxguid w
                            else if rollvote = DISENCHANT then award_disenchant l r' maxguid w
                            else w))
     else (r, w))"

definition unblock_item :: "nat \<Rightarrow> roll \<Rightarrow> group_world \<Rightarrow> group_world" where
  "unblock_item l r w = (case Option.bind (gw_loots w l) (\<lambda>lt. loot_slot lt (rl_slot r)) of
     None \<Rightarrow> glog GBadIndex w
   | Some item \<Rightarrow> upd_loot l (upd_loot_slot (rl_slot r) (\<lambda>i. i\<lparr>li_blocked := False\<rparr>)) w)"

text \<open>\<open>CountTheRoll\<close> up to the erasing of the roll, which the callers do.\<close>

definition count_the_roll :: "group_env \<Rightarrow> nat option \<Rightarrow> roll \<Rightarrow> group_world \<Rightarrow> group_world" where
  "count_the_roll e allowedMap r w = (case rl_loot r of
     None \<Rightarrow> w
   | Some l \<Rightarrow>
       let (r, w) = count_greeds e allowedMap l (count_needs e allowedMap l (r, w));
           w = (if rl_need r = 0 \<and> rl_greed r = 0 then unblock_item l r (send_loot_all_passed r w) else w)
       in case gw_loots w l of
            Some lt \<Rightarrow> if is_looted lt \<and> lt_chest lt then glog (GChestEmpty l) w else w
          | None \<Rightarrow> w)"

section \<open>Votes\<close>

text \<open>\<open>GetRoll\<close>: the place of the first valid roll for the item.\<close>

definition get_roll :: "guid \<Rightarrow> roll list \<Rightarrow> nat option" where
  "get_roll g rs = find (\<lambda>i. rl_item_guid (rs ! i) = g \<and> rl_loot (rs ! i) \<noteq> None) [0..<length rs]"

definition roll_finished :: "roll \<Rightarrow> bool" where
  "roll_finished r \<longleftrightarrow> unat (rl_pass r) + unat (rl_need r) + unat (rl_greed r) \<ge> unat (rl_total r)"

text \<open>
  The vote itself: the packet, the total, the player's entry. An entry that is not there would be
  written through the end iterator; it is only reached with an entry.
\<close>

definition cast_vote :: "guid \<Rightarrow> u8 \<Rightarrow> roll \<times> group_world \<Rightarrow> roll \<times> group_world" where
  "cast_vote x Choice = (\<lambda>(r, w).
     if Choice = ROLL_PASS then
       (r\<lparr>rl_pass := rl_pass r + 1, rl_votes := om_put x PASS (rl_votes r)\<rparr>, send_loot_roll guid_empty x 128 ROLL_PASS False r w)
     else if Choice = ROLL_NEED then
       (r\<lparr>rl_need := rl_need r + 1, rl_votes := om_put x NEED (rl_votes r)\<rparr>, send_loot_roll guid_empty x 0 0 False r w)
     else if Choice = ROLL_GREED then
       (r\<lparr>rl_greed := rl_greed r + 1, rl_votes := om_put x GREED (rl_votes r)\<rparr>, send_loot_roll guid_empty x 128 ROLL_GREED False r w)
     else if Choice = ROLL_DISENCHANT then
       (r\<lparr>rl_greed := rl_greed r + 1, rl_votes := om_put x DISENCHANT (rl_votes r)\<rparr>,
        send_loot_roll guid_empty x 128 ROLL_DISENCHANT False r w)
     else (r, w))"

definition loot_has_no_items :: "roll \<Rightarrow> group_world \<Rightarrow> bool" where
  "loot_has_no_items r w \<longleftrightarrow> (case Option.bind (rl_loot r) (gw_loots w) of Some lt \<Rightarrow> lt_items lt = [] | None \<Rightarrow> False)"

text \<open>The rolls are passed explicitly; the result says if the roll ended and left the list.\<close>

definition count_roll_vote :: "group_env \<Rightarrow> guid \<Rightarrow> guid \<Rightarrow> u8 \<Rightarrow> roll list \<times> group_world \<Rightarrow> bool \<times> roll list \<times> group_world" where
  "count_roll_vote e x g Choice = (\<lambda>(rs, w). case get_roll g rs of
     None \<Rightarrow> (False, rs, w)
   | Some i \<Rightarrow>
       let r = rs ! i
       in if Choice < MAX_ROLL_TYPE \<and> map_of (rl_votes r) x = None then (False, rs, w)
          else if loot_has_no_items r w then (False, rs, w)
          else
            let (r, w) = cast_vote x Choice (r, w)
            in if roll_finished r then (True, take i rs @ drop (Suc i) rs, count_the_roll e None r w)
               else (False, rs[i := r], w))"

definition group_count_roll_vote :: "group_env \<Rightarrow> nat \<Rightarrow> guid \<Rightarrow> guid \<Rightarrow> u8 \<Rightarrow> group_world \<Rightarrow> group_world" where
  "group_count_roll_vote e p x g Choice = with_group p (\<lambda>grp w.
     case count_roll_vote e x g Choice (g_rolls grp, w) of (_, rs, w) \<Rightarrow> upd_group p (\<lambda>grp. grp\<lparr>g_rolls := rs\<rparr>) w)"

text \<open>\<open>EndRoll\<close>: every roll for the loot is counted, from the first on.\<close>

definition end_roll :: "group_env \<Rightarrow> nat \<Rightarrow> nat option \<Rightarrow> nat \<Rightarrow> group_world \<Rightarrow> group_world" where
  "end_roll e l allowedMap p = with_group p (\<lambda>grp w.
     upd_group p (\<lambda>grp. grp\<lparr>g_rolls := filter (\<lambda>r. rl_loot r \<noteq> Some l) (g_rolls grp)\<rparr>)
       (fold (count_the_roll e allowedMap) (filter (\<lambda>r. rl_loot r = Some l) (g_rolls grp)) w))"

section \<open>A member leaves\<close>

definition drop_vote :: "guid \<Rightarrow> roll_vote \<Rightarrow> roll \<Rightarrow> roll" where
  "drop_vote x v r =
     (let r = (if v = GREED \<or> v = DISENCHANT then r\<lparr>rl_greed := rl_greed r - 1\<rparr>
               else if v = NEED then r\<lparr>rl_need := rl_need r - 1\<rparr>
               else if v = PASS then r\<lparr>rl_pass := rl_pass r - 1\<rparr>
               else r);
          r = (if v \<noteq> NOT_VALID then r\<lparr>rl_total := rl_total r - 1\<rparr> else r)
      in r\<lparr>rl_votes := filter (\<lambda>e. fst e \<noteq> x) (rl_votes r)\<rparr>)"


lemma cast_no_vote: "cast_vote x MAX_ROLL_TYPE rw = rw"
  by (cases rw) (simp add: cast_vote_def roll_type_defs)

lemma find_upt_SomeD: "find P [0..<n] = Some i \<Longrightarrow> i < n \<and> P i"
  by (auto simp: find_Some_iff)

lemma count_roll_vote_removal:
  assumes "count_roll_vote e x g MAX_ROLL_TYPE (rs, w) = (ended, rs', w')"
  shows "if ended then \<exists>i < length rs. rs' = take i rs @ drop (Suc i) rs else rs' = rs"
  using assms
  by (auto simp: count_roll_vote_def Let_def cast_no_vote get_roll_def split: option.splits if_splits dest!: find_upt_SomeD)

abbreviation votes_in :: "guid \<Rightarrow> roll \<Rightarrow> bool" where
  "votes_in x r \<equiv> map_of (rl_votes r) x \<noteq> None"

lemma drop_vote_gone: "\<not> votes_in x (drop_vote x v r)"
proof -
  have "rl_votes (drop_vote x v r) = filter (\<lambda>e. fst e \<noteq> x) (rl_votes r)"
    by (simp add: drop_vote_def Let_def)
  then show ?thesis by (auto simp: map_of_eq_None_iff)
qed

lemma length_filter_erase: "length (filter P (take i rs @ drop (Suc i) rs)) \<le> length (filter P rs)"
proof -
  have "length (filter P rs) = length (filter P (take i rs)) + length (filter P (drop i rs))"
    by (metis append_take_drop_id filter_append length_append)
  moreover have "length (filter P (drop (Suc i) rs)) \<le> length (filter P (drop i rs))"
    by (cases "i < length rs") (simp_all add: Cons_nth_drop_Suc [symmetric])
  ultimately show ?thesis by simp
qed

lemma length_filter_update:
  assumes "i < length rs" "P (rs ! i)" "\<not> P r"
  shows "length (filter P (rs[i := r])) < length (filter P rs)"
proof -
  have "filter P rs = filter P (take i rs @ rs ! i # drop (Suc i) rs)"
    using assms(1) by (rule arg_cong [OF id_take_nth_drop])
  also have "\<dots> = filter P (take i rs) @ rs ! i # filter P (drop (Suc i) rs)"
    using assms(2) by (simp only: filter_append filter.simps if_True)
  finally have "length (filter P rs) = Suc (length (filter P (take i rs)) + length (filter P (drop (Suc i) rs)))"
    by (simp only: length_append length_Cons add_Suc_right)
  moreover have "length (filter P (rs[i := r])) = length (filter P (take i rs)) + length (filter P (drop (Suc i) rs))"
    using assms(1,3) by (simp add: upd_conv_take_nth_drop)
  ultimately show ?thesis by simp
qed

lemma remove_votes_decreases:
  assumes "i < length rs" "votes_in x (rs ! i)"
    "count_roll_vote e x g MAX_ROLL_TYPE (rs[i := drop_vote x v (rs ! i)], w) = (ended, rs', w')"
  shows "length (filter (votes_in x) rs') < length (filter (votes_in x) rs)"
proof -
  have "length (filter (votes_in x) rs') \<le> length (filter (votes_in x) (rs[i := drop_vote x v (rs ! i)]))"
    using count_roll_vote_removal [OF assms(3)] length_filter_erase [of "votes_in x"]
    by (auto split: if_splits)
  also have "\<dots> < length (filter (votes_in x) rs)"
    using assms(1,2) drop_vote_gone by (rule length_filter_update)
  finally show ?thesis .
qed

function remove_votes :: "group_env \<Rightarrow> guid \<Rightarrow> nat \<Rightarrow> roll list \<Rightarrow> group_world \<Rightarrow> roll list \<times> group_world" where
  "remove_votes e x i rs w =
     (if i \<ge> length rs then (rs, w)
      else case map_of (rl_votes (rs ! i)) x of
          None \<Rightarrow> remove_votes e x (Suc i) rs w
        | Some v \<Rightarrow>
            case count_roll_vote e x (rl_item_guid (rs ! i)) MAX_ROLL_TYPE (rs[i := drop_vote x v (rs ! i)], w) of
              (ended, rs', w') \<Rightarrow> remove_votes e x (if ended then 0 else Suc i) rs' w')"
  by pat_completeness auto

termination
  apply (relation "measures [\<lambda>(e, x, i, rs, w). length (filter (votes_in x) rs), \<lambda>(e, x, i, rs, w). length rs - i]")
    apply simp
   apply simp
  subgoal for e x i rs w v ended z rs' w'
    using remove_votes_decreases [of i rs x e "rl_item_guid (rs ! i)" v w ended rs' w'] by (cases z) auto
  done

declare remove_votes.simps [simp del]

end
