(* ===== verification/GroupLoot.thy ===== *)
theory GroupLoot
  imports GroupRolls
begin

text \<open>
  How the loot of a kill is shared in a group: the rolls that are started for its items
  (\<open>GroupLoot\<close>, \<open>NeedBeforeGreed\<close>), the list for the master looter, and who may loot next.
\<close>

section \<open>Starting rolls\<close>

text \<open>One near member of the group: he rolls, or passes because he opted out or may not have the item.\<close>

definition add_roller :: "group_env \<Rightarrow> group_world \<Rightarrow> loot_item \<Rightarrow> guid \<Rightarrow> roll \<Rightarrow> roll" where
  "add_roller e w li x r =
     (let r = r\<lparr>rl_total := rl_total r + 1\<rparr>;
          vote = (case gw_players w x of Some pl \<Rightarrow> if gp_pass pl then PASS else NOT_EMITED_YET | None \<Rightarrow> NOT_EMITED_YET);
          (vote, r) = (if \<not> ge_can_roll e x (li_item li) then (PASS, r\<lparr>rl_pass := rl_pass r + 1\<rparr>) else (vote, r))
      in r\<lparr>rl_votes := om_put x vote (rl_votes r)\<rparr>)"

text \<open>The loop over the quest items of \<open>GroupLoot\<close> has its own body: it does not count the player.\<close>

definition add_quest_roller :: "group_env \<Rightarrow> loot_item \<Rightarrow> guid \<Rightarrow> roll \<Rightarrow> roll" where
  "add_quest_roller e li x r =
     (let (vote, r) = (if \<not> ge_can_roll e x (li_item li) then (PASS, r\<lparr>rl_pass := rl_pass r + 1\<rparr>) else (NOT_EMITED_YET, r))
      in r\<lparr>rl_votes := om_put x vote (rl_votes r)\<rparr>)"

definition new_item_guid :: "group_world \<Rightarrow> guid \<times> group_world" where
  "new_item_guid w = (let (c, gen) = gen_generate HG_Item (gw_item_gen w) in (guid_create_global HG_Item c, w\<lparr>gw_item_gen := gen\<rparr>))"

definition collect :: "(guid \<Rightarrow> bool) \<Rightarrow> (guid \<Rightarrow> roll \<Rightarrow> roll) \<Rightarrow> group_data \<Rightarrow> roll \<Rightarrow> roll" where
  "collect near f g r = fold (\<lambda>(x, orig) r. if near x then f x r else r) (g_refs g) r"

definition allow_disenchant :: "item_template \<Rightarrow> group_data \<Rightarrow> roll \<Rightarrow> roll" where
  "allow_disenchant it g r = (if it_disenchant it \<noteq> 0 \<and> g_max_enchanting g \<ge> it_disenchant_skill it
     then r\<lparr>rl_mask := rl_mask r OR ROLL_FLAG_TYPE_DISENCHANT\<rparr> else r)"

definition add_roll :: "nat \<Rightarrow> nat \<Rightarrow> roll \<Rightarrow> group_world \<Rightarrow> group_world" where
  "add_roll p l r w = glog (GLootTimer l 60000) (upd_group p (\<lambda>g. g\<lparr>g_rolls := g_rolls g @ [r]\<rparr>) w)"

definition block_item :: "nat \<Rightarrow> u8 \<Rightarrow> group_world \<Rightarrow> group_world" where
  "block_item l s = upd_loot l (upd_loot_slot s (\<lambda>i. i\<lparr>li_blocked := True\<rparr>))"

definition group_loot_item :: "group_env \<Rightarrow> nat \<Rightarrow> nat \<Rightarrow> nat \<Rightarrow> group_world \<Rightarrow> group_world" where
  "group_loot_item e p l k = with_group p (\<lambda>g w. case gw_loots w l of
     None \<Rightarrow> glog GBadPointer w
   | Some lt \<Rightarrow>
       let li = lt_items lt ! k
       in if li_free_for_all li then w
          else case ge_item e (li_item li) of None \<Rightarrow> w
          | Some it \<Rightarrow>
            if it_quality it \<ge> ucast (g_threshold g) then
              let (newitem, w) = new_item_guid w;
                  r = collect (ge_near_loot e) (add_roller e w li) g (roll_new newitem li)
              in if rl_total r > 0 then
                   let r = allow_disenchant it g (r\<lparr>rl_loot := Some l, rl_slot := of_nat k\<rparr>);
                       w = block_item l (rl_slot r) w;
                       w = (if rl_pass r \<noteq> 0
                            then fold (\<lambda>(x, v) w. if grp_find_player e w x \<noteq> None \<and> v = PASS
                              then send_loot_roll newitem x 128 ROLL_PASS True r w else w) (rl_votes r) w
                            else w)
                   in if rl_pass r = rl_total r then w
                      else add_roll p l r (send_loot_start_roll 60000 (ge_loot_map e) r w)
                 else w
            else upd_loot l (\<lambda>lt. lt\<lparr>lt_items := (lt_items lt)[k := li\<lparr>li_under_threshold := True\<rparr>]\<rparr>) w)"

definition group_loot_quest_item :: "group_env \<Rightarrow> nat \<Rightarrow> nat \<Rightarrow> nat \<Rightarrow> group_world \<Rightarrow> group_world" where
  "group_loot_quest_item e p l k = with_group p (\<lambda>g w. case gw_loots w l of
     None \<Rightarrow> glog GBadPointer w
   | Some lt \<Rightarrow>
       let li = lt_quest_items lt ! k
       in if \<not> li_follow_rules li then w
          else case ge_item e (li_item li) of None \<Rightarrow> w
          | Some it \<Rightarrow>
              let (newitem, w) = new_item_guid w;
                  r = collect (ge_near_loot e) (add_quest_roller e li) g (roll_new newitem li)
              in if rl_total r > 0 then
                   let r = r\<lparr>rl_loot := Some l, rl_slot := of_nat (length (lt_items lt) + k)\<rparr>
                   in add_roll p l r (send_loot_start_roll 60000 (ge_loot_map e) r (block_item l (rl_slot r) w))
                 else w)"

definition group_loot :: "group_env \<Rightarrow> nat \<Rightarrow> nat \<Rightarrow> group_world \<Rightarrow> group_world" where
  "group_loot e p l w = (case gw_loots w l of None \<Rightarrow> glog GBadPointer w
     | Some lt \<Rightarrow> fold (group_loot_quest_item e p l) [0..<length (lt_quest_items lt)]
         (fold (group_loot_item e p l) [0..<length (lt_items lt)] w))"

text \<open>Every voter is told that he passed, or that the roll starts.\<close>

definition announce_need_roll :: "group_env \<Rightarrow> roll \<Rightarrow> group_world \<Rightarrow> group_world" where
  "announce_need_roll e r = fold (\<lambda>(x, v) w. if grp_find_player e w x = None then w
     else if v = PASS then send_loot_roll (rl_item_guid r) x 128 ROLL_PASS False r w
     else send_loot_start_roll_to_player 60000 (ge_loot_map e) x (ge_lfg_can_roll e x (rl_item r)) r w) (rl_votes r)"

definition need_before_greed_item :: "group_env \<Rightarrow> nat \<Rightarrow> nat \<Rightarrow> nat \<Rightarrow> group_world \<Rightarrow> group_world" where
  "need_before_greed_item e p l k = with_group p (\<lambda>g w. case gw_loots w l of
     None \<Rightarrow> glog GBadPointer w
   | Some lt \<Rightarrow>
       let li = lt_items lt ! k
       in if li_free_for_all li then w
          else case ge_item e (li_item li) of None \<Rightarrow> glog GBadPointer w
          | Some it \<Rightarrow>
            if it_quality it \<ge> ucast (g_threshold g) then
              let (newitem, w) = new_item_guid w;
                  r = collect (ge_near_reward e) (add_roller e w li) g (roll_new newitem li)
              in if rl_total r > 0 then
                   let r = allow_disenchant it g (r\<lparr>rl_loot := Some l, rl_slot := of_nat k\<rparr>);
                       r = (if it_no_need it then r\<lparr>rl_mask := rl_mask r AND NOT ROLL_FLAG_TYPE_NEED\<rparr> else r)
                   in add_roll p l r (announce_need_roll e r (block_item l (rl_slot r) w))
                 else w
            else upd_loot l (\<lambda>lt. lt\<lparr>lt_items := (lt_items lt)[k := li\<lparr>li_under_threshold := True\<rparr>]\<rparr>) w)"

definition need_before_greed_quest_item :: "group_env \<Rightarrow> nat \<Rightarrow> nat \<Rightarrow> nat \<Rightarrow> group_world \<Rightarrow> group_world" where
  "need_before_greed_quest_item e p l k = with_group p (\<lambda>g w. case gw_loots w l of
     None \<Rightarrow> glog GBadPointer w
   | Some lt \<Rightarrow>
       let li = lt_quest_items lt ! k
       in if \<not> li_follow_rules li then w
          else
            let (newitem, w) = new_item_guid w;
                r = collect (ge_near_reward e) (add_roller e w li) g (roll_new newitem li)
            in if rl_total r > 0 then
                 let r = r\<lparr>rl_loot := Some l, rl_slot := of_nat (length (lt_items lt) + k)\<rparr>
                 in add_roll p l r (announce_need_roll e r (block_item l (rl_slot r) w))
               else w)"

definition need_before_greed :: "group_env \<Rightarrow> nat \<Rightarrow> nat \<Rightarrow> group_world \<Rightarrow> group_world" where
  "need_before_greed e p l w = (case gw_loots w l of None \<Rightarrow> glog GBadPointer w
     | Some lt \<Rightarrow> fold (need_before_greed_quest_item e p l) [0..<length (lt_quest_items lt)]
         (fold (need_before_greed_item e p l) [0..<length (lt_items lt)] w))"

section \<open>The master looter, the next looter\<close>

definition master_loot :: "group_env \<Rightarrow> nat \<Rightarrow> nat \<Rightarrow> group_world \<Rightarrow> group_world" where
  "master_loot e p l = with_group p (\<lambda>g w.
     let w = upd_loot l (\<lambda>lt. lt\<lparr>
           lt_items := map (\<lambda>i. if li_free_for_all i then i else i\<lparr>li_blocked := \<not> li_under_threshold i\<rparr>) (lt_items lt),
           lt_quest_items := map (\<lambda>i. if \<not> li_follow_rules i then i else i\<lparr>li_blocked := \<not> li_under_threshold i\<rparr>) (lt_quest_items lt)\<rparr>) w;
         looters = map fst (filter (\<lambda>(x, orig). ge_in_world e x \<and> ge_near_loot e x) (g_refs g));
         data = WorldPacket SMSG_LOOT_MASTER_LIST (FU8 (of_nat (length looters)) # map FU64 looters)
     in fold (\<lambda>x. send_to x data) looters w)"

definition slot_index :: "guid \<Rightarrow> group_data \<Rightarrow> nat option" where
  "slot_index x g = find (\<lambda>i. ms_guid (g_slots g ! i) = x) [0..<length (g_slots g)]"

definition update_looter_guid :: "group_env \<Rightarrow> bool \<Rightarrow> nat \<Rightarrow> group_world \<Rightarrow> group_world" where
  "update_looter_guid e ifneed p = with_group p (\<lambda>g w.
     if g_loot_method g = FREE_FOR_ALL then w
     else
       let old = g_looter g;
           found = slot_index old g;
           ok = (\<lambda>x. grp_find_player e w x \<noteq> None \<and> ge_near_loot e x);
           next = (case found of None \<Rightarrow> length (g_slots g) | Some i \<Rightarrow> i + 1)
       in if found \<noteq> None \<and> ifneed \<and> ok old then w
          else case (case find (\<lambda>m. ok (ms_guid m)) (drop next (g_slots g)) of
                 Some m \<Rightarrow> Some m | None \<Rightarrow> find (\<lambda>m. ok (ms_guid m)) (take next (g_slots g))) of
               Some m \<Rightarrow> if old \<noteq> ms_guid m then send_update e p (upd_group p (set_looter_guid (ms_guid m)) w) else w
             | None \<Rightarrow> send_update e p (upd_group p (set_looter_guid guid_empty) w))"

definition set_pass_on_group_loot :: "guid \<Rightarrow> bool \<Rightarrow> group_world \<Rightarrow> group_world" where
  "set_pass_on_group_loot x b = upd_player x (\<lambda>pl. pl\<lparr>gp_pass := b\<rparr>)"

definition loot_list_packet :: "group_data \<Rightarrow> guid \<Rightarrow> bool \<Rightarrow> guid option \<Rightarrow> world_packet" where
  "loot_list_packet g creature overThreshold groupLooter = WorldPacket 0x3F9
     ([FU64 creature] @ (if g_loot_method g = MASTER_LOOT \<and> overThreshold then [FPacked (g_master g)] else [FU8 0])
      @ (case groupLooter of Some x \<Rightarrow> [FPacked x] | None \<Rightarrow> [FU8 0]))"

definition send_looter :: "guid \<Rightarrow> bool \<Rightarrow> guid option \<Rightarrow> nat \<Rightarrow> group_world \<Rightarrow> group_world" where
  "send_looter creature overThreshold groupLooter p = with_group p (\<lambda>g.
     broadcast_packet (loot_list_packet g creature overThreshold groupLooter) False None guid_empty p)"

end
