(* ===== verification/GroupOps.thy ===== *)
theory GroupOps
  imports GroupLoot
begin

text \<open>
  The operations of Group.cpp that change who is in which group, with all they do to the players,
  the character cache, the group manager and the database; GroupMgr.cpp; and what
  \<open>Player\<close> and \<open>WorldSession\<close> do to groups when a player logs in or out. Not modelled are the
  updates of visible fields, of quest objects and of instance binds; where Group.cpp calls the
  instance save manager or the looking-for-group manager the call is an effect in the log.
\<close>

definition INSTANCE_RESET_GROUP_JOIN :: u8 where "INSTANCE_RESET_GROUP_JOIN = 3"
definition INSTANCE_RESET_GROUP_LEAVE :: u8 where "INSTANCE_RESET_GROUP_LEAVE = 4"
definition GROUP_REMOVEMETHOD_DEFAULT :: u8 where "GROUP_REMOVEMETHOD_DEFAULT = 0"
definition GROUP_REMOVEMETHOD_KICK :: u8 where "GROUP_REMOVEMETHOD_KICK = 1"
definition GROUP_REMOVEMETHOD_LEAVE :: u8 where "GROUP_REMOVEMETHOD_LEAVE = 2"
definition GROUP_REMOVEMETHOD_KICK_LFG :: u8 where "GROUP_REMOVEMETHOD_KICK_LFG = 3"
definition MSG_SET_DUNGEON_DIFFICULTY :: u16 where "MSG_SET_DUNGEON_DIFFICULTY = 0x329"
definition MSG_SET_RAID_DIFFICULTY :: u16 where "MSG_SET_RAID_DIFFICULTY = 0x4EB"

definition upd_cache :: "(char_cache \<Rightarrow> char_cache) \<Rightarrow> group_world \<Rightarrow> group_world" where
  "upd_cache f w = w\<lparr>gw_cache := f (gw_cache w)\<rparr>"

definition clear_character_group :: "guid \<Rightarrow> char_cache \<Rightarrow> char_cache" where
  "clear_character_group g = update_character_group g guid_empty"

section \<open>The group manager\<close>

function next_group_id :: "bool list \<Rightarrow> u32 \<Rightarrow> u32" where
  "next_group_id ids n = (if n < 0xFFFFFFFF
     then (let n = n + 1 in if unat n < length ids \<and> ids ! unat n then next_group_id ids n else n) else n)"
  by pat_completeness auto

termination
proof (relation "measure (\<lambda>(ids, n). unat (0xFFFFFFFF - n))")
  fix ids :: "bool list" and n x :: u32
  assume n: "n < 0xFFFFFFFF" and x: "x = n + 1"
  have lt: "unat n < 0xFFFFFFFF" using n by (simp add: word_less_nat_alt)
  have x': "unat x = unat n + 1" unfolding x using lt by (simp add: unat_word_ariths)
  have "m \<le> 0xFFFFFFFF" for m :: u32
    using unsigned_less [of m, where 'a = nat] by (simp add: word_le_nat_alt)
  then have "unat (0xFFFFFFFF - m) = 0xFFFFFFFF - unat m" for m :: u32
    by (simp add: unat_sub)
  then show "((ids, x), ids, n) \<in> measure (\<lambda>(ids, n). unat (0xFFFFFFFF - n))"
    using lt x' by simp
qed simp

declare next_group_id.simps [simp del]

definition generate_group_id :: "group_world \<Rightarrow> u32 \<times> group_world" where
  "generate_group_id w =
     (let newGroupId = gw_next_id w;
          n = next_group_id (gw_ids w) (gw_next_id w);
          w = w\<lparr>gw_next_id := n\<rparr>
      in (newGroupId, if n = 0xFFFFFFFF then glog GServerStop w else w))"

text \<open>\<open>maxId\<close> is the highest number in the table, if it has rows.\<close>

definition init_group_ids :: "u32 option \<Rightarrow> group_world \<Rightarrow> group_world" where
  "init_group_ids maxId w = (let w = w\<lparr>gw_next_id := 1\<rparr> in case maxId of None \<Rightarrow> w
     | Some m \<Rightarrow> w\<lparr>gw_ids := take (unat (m + 1)) (gw_ids w) @ replicate (unat (m + 1) - length (gw_ids w)) False\<rparr>)"

definition register_group_id :: "u32 \<Rightarrow> group_world \<Rightarrow> group_world" where
  "register_group_id groupId w =
     (let w = (if unat groupId < length (gw_ids w) then w\<lparr>gw_ids := (gw_ids w)[unat groupId := True]\<rparr> else glog GBadIndex w)
      in if gw_next_id w = groupId then w\<lparr>gw_next_id := gw_next_id w + 1\<rparr> else w)"

definition get_group_by_guid :: "u32 \<Rightarrow> group_world \<Rightarrow> nat option" where
  "get_group_by_guid groupId w = map_of (gw_store w) groupId"

definition mgr_add_group :: "nat \<Rightarrow> group_world \<Rightarrow> group_world" where
  "mgr_add_group p = with_group p (\<lambda>g w. w\<lparr>gw_store := om_put (get_counter (g_guid g)) p (gw_store w)\<rparr>)"

definition mgr_remove_group :: "nat \<Rightarrow> group_world \<Rightarrow> group_world" where
  "mgr_remove_group p = with_group p (\<lambda>g w. w\<lparr>gw_store := filter (\<lambda>e. fst e \<noteq> get_counter (g_guid g)) (gw_store w)\<rparr>)"

section \<open>Invitations\<close>

text \<open>The group that counts for invitations: the original one of a player in a battleground's.\<close>

definition invite_group :: "group_world \<Rightarrow> guid \<Rightarrow> nat option" where
  "invite_group w x = (case get_group w x of None \<Rightarrow> None
     | Some q \<Rightarrow> (case gw_groups w q of
         Some g \<Rightarrow> if bg_or_bf g then get_original_group w x else Some q | None \<Rightarrow> Some q))"

definition remove_invite :: "nat \<Rightarrow> guid \<Rightarrow> group_world \<Rightarrow> group_world" where
  "remove_invite p x w = (if grp_connected w x
     then set_group_invite None x (upd_group p (\<lambda>g. g\<lparr>g_invitees := removeAll x (g_invitees g)\<rparr>) w) else w)"

definition add_invite :: "nat \<Rightarrow> guid \<Rightarrow> group_world \<Rightarrow> bool \<times> group_world" where
  "add_invite p x w =
     (if \<not> grp_connected w x \<or> get_group_invite w x \<noteq> None then (False, w)
      else if invite_group w x \<noteq> None then (False, w)
      else let w = remove_invite p x w;
               w = upd_group p (\<lambda>g. g\<lparr>g_invitees := x # g_invitees g\<rparr>) w;
               w = set_group_invite (Some p) x w
           in (True, glog (GOnInvite p x) w))"

definition player_name :: "group_world \<Rightarrow> guid \<Rightarrow> bytes" where
  "player_name w x = (case gw_players w x of Some pl \<Rightarrow> gp_name pl | None \<Rightarrow> [])"

definition add_leader_invite :: "nat \<Rightarrow> guid \<Rightarrow> group_world \<Rightarrow> bool \<times> group_world" where
  "add_leader_invite p x w = (let (ok, w) = add_invite p x w in
     if \<not> ok then (False, w)
     else (True, upd_group p (\<lambda>g. g\<lparr>g_leader := x, g_leader_name := player_name w x\<rparr>) w))"

definition remove_all_invites :: "nat \<Rightarrow> group_world \<Rightarrow> group_world" where
  "remove_all_invites p = with_group p (\<lambda>g w.
     upd_group p (\<lambda>g. g\<lparr>g_invitees := []\<rparr>)
       (fold (\<lambda>x w. if grp_connected w x then set_group_invite None x w else glog GBadPointer w) (g_invitees g) w))"

definition get_invited :: "guid \<Rightarrow> group_data \<Rightarrow> guid option" where
  "get_invited x g = find (\<lambda>y. y = x) (g_invitees g)"

definition get_invited_by_name :: "bytes \<Rightarrow> group_data \<Rightarrow> group_world \<Rightarrow> guid option" where
  "get_invited_by_name name g w = find (\<lambda>y. grp_connected w y \<and> player_name w y = name) (g_invitees g)"

section \<open>Joining\<close>

definition send_dungeon_difficulty :: "guid \<Rightarrow> group_world \<Rightarrow> group_world" where
  "send_dungeon_difficulty x w = (case gw_players w x of None \<Rightarrow> w
     | Some pl \<Rightarrow> send_to x (WorldPacket MSG_SET_DUNGEON_DIFFICULTY [FU32 (ucast (gp_dungeon pl)), FU32 1, FU32 1]) w)"

definition send_raid_difficulty :: "guid \<Rightarrow> group_world \<Rightarrow> group_world" where
  "send_raid_difficulty x w = (case gw_players w x of None \<Rightarrow> w
     | Some pl \<Rightarrow> send_to x (WorldPacket MSG_SET_RAID_DIFFICULTY [FU32 (ucast (gp_raid pl)), FU32 1, FU32 1]) w)"

definition take_over_difficulties :: "nat \<Rightarrow> guid \<Rightarrow> group_world \<Rightarrow> group_world" where
  "take_over_difficulties p x w = with_group p (\<lambda>g w. case gw_players w x of None \<Rightarrow> w | Some pl \<Rightarrow>
     let w = (if gp_dungeon pl \<noteq> g_dungeon g
              then send_dungeon_difficulty x (upd_player x (\<lambda>pl. pl\<lparr>gp_dungeon := g_dungeon g\<rparr>) w) else w)
     in if gp_raid pl \<noteq> g_raid g
        then send_raid_difficulty x (upd_player x (\<lambda>pl. pl\<lparr>gp_raid := g_raid g\<rparr>) w) else w) w"

text \<open>What \<open>AddMember\<close> does for the player once he is in the list.\<close>

definition greet_member :: "group_env \<Rightarrow> nat \<Rightarrow> guid \<Rightarrow> group_world \<Rightarrow> group_world" where
  "greet_member e p x = with_group p (\<lambda>g w.
     let w = glog (GOnAddMember p x) w;
         w = (if \<not> is_leader x g \<and> \<not> bg_or_bf g
              then take_over_difficulties p x (glog (GResetInstances x INSTANCE_RESET_GROUP_JOIN) w)
              else if is_leader x g \<and> is_lfg_group False g then glog (GResetInstances x INSTANCE_RESET_GROUP_JOIN) w
              else w)
     in update_player_out_of_range e p x w)"

definition note_enchanting :: "nat \<Rightarrow> guid \<Rightarrow> group_world \<Rightarrow> group_world" where
  "note_enchanting p x w = (case gw_players w x of None \<Rightarrow> w | Some pl \<Rightarrow>
     upd_group p (\<lambda>g. if g_max_enchanting g < ucast (gp_enchanting pl) then g\<lparr>g_max_enchanting := ucast (gp_enchanting pl)\<rparr> else g) w)"

definition join_player :: "nat \<Rightarrow> guid \<Rightarrow> u8 \<Rightarrow> group_data \<Rightarrow> group_world \<Rightarrow> group_world" where
  "join_player p x subGroup g w =
     (if get_group w x \<noteq> None
      then (if bg_or_bf g then set_battleground_or_battlefield_raid x p subGroup w
            else player_set_original_group x (Some p) subGroup w)
      else player_set_group x (Some p) subGroup w)"

definition add_member :: "group_env \<Rightarrow> nat \<Rightarrow> guid \<Rightarrow> group_world \<Rightarrow> bool \<times> group_world" where
  "add_member e p x w = (case gw_groups w p of None \<Rightarrow> (False, glog GBadPointer w)
   | Some g \<Rightarrow> case gw_players w x of None \<Rightarrow> (False, w)
   | Some pl \<Rightarrow> case first_free_sub_group g of None \<Rightarrow> (False, w)
   | Some subGroup \<Rightarrow>
       let w = upd_group p (\<lambda>g. g\<lparr>g_slots := g_slots g @
             [\<lparr>ms_guid = x, ms_name = gp_name pl, ms_group = subGroup, ms_flags = 0, ms_roles = 0\<rparr>]\<rparr>) w;
           w = (if \<not> bg_or_bf g then upd_cache (update_character_group x (g_guid g)) w else w);
           w = try_group p (sub_group_counter_increase subGroup) w;
           w = set_group_invite None x w;
           w = join_player p x subGroup g w;
           w = (if \<not> is_raid_group g then upd_group p (\<lambda>g. g\<lparr>g_icons := replicate TARGETICONCOUNT 0\<rparr>) w else w);
           w = (if \<not> bg_or_bf g then db (RepGroupMember (get_counter (g_guid g)) (get_counter x) 0 subGroup 0) w else w);
           w = send_update e p w
       in (True, note_enchanting p x (greet_member e p x w)))"

definition group_create :: "group_env \<Rightarrow> nat \<Rightarrow> guid \<Rightarrow> group_world \<Rightarrow> bool \<times> group_world" where
  "group_create e p x w =
     (let (lowguid, w) = generate_group_id w;
          w = upd_group p (\<lambda>g. g\<lparr>g_guid := guid_create_global HG_Group lowguid, g_leader := x, g_leader_name := player_name w x\<rparr>) w;
          w = upd_player x (\<lambda>pl. pl\<lparr>gp_leader_flag := True\<rparr>) w;
          w = upd_group p (\<lambda>g. if bg_or_bf g then g\<lparr>g_type := GROUPTYPE_BGRAID\<rparr> else g) w;
          w = try_group p (\<lambda>g. if is_raid_group g then init_raid_sub_groups_counter g else Some g) w;
          w = upd_group p (\<lambda>g. if is_lfg_group False g then g else g\<lparr>g_loot_method := GROUP_LOOT\<rparr>) w;
          w = upd_group p (\<lambda>g. g\<lparr>g_threshold := ITEM_QUALITY_UNCOMMON, g_looter := x, g_master := 0,
                g_dungeon := DUNGEON_DIFFICULTY_NORMAL, g_raid := RAID_DIFFICULTY_10MAN_NORMAL\<rparr>) w
      in case (gw_groups w p, gw_players w x) of
           (Some g, Some pl) \<Rightarrow>
             if \<not> bg_or_bf g then
               let w = upd_group p (\<lambda>g. g\<lparr>g_dungeon := gp_dungeon pl, g_raid := gp_raid pl\<rparr>) w;
                   w = db (InsGroup lowguid (get_counter x) (g_loot_method g) (get_counter (g_looter g)) (g_threshold g) (g_icons g)
                     (g_type g) (gp_dungeon pl) (gp_raid pl) (get_counter (g_master g))) w;
                   (ok, w) = add_member e p x w
               in if ok then (True, glog (GOnCreate p x) w) else (False, glog GAssertFailed w)
             else add_member e p x w
         | _ \<Rightarrow> (False, glog GBadPointer w))"

section \<open>The leader, the end of a group\<close>

definition change_leader :: "group_env \<Rightarrow> nat \<Rightarrow> guid \<Rightarrow> group_world \<Rightarrow> group_world" where
  "change_leader e p newLeader = with_group p (\<lambda>g w.
     case slot_of newLeader g of None \<Rightarrow> w
   | Some slot \<Rightarrow>
       if \<not> grp_connected w newLeader then w
       else
         let w = (if \<not> bg_or_bf g
                  then glog (GCopyBinds (g_leader g) newLeader) (db (UpdGroupLeader (get_counter newLeader) (get_counter (g_guid g))) w) else w);
             w = upd_player (g_leader g) (\<lambda>pl. pl\<lparr>gp_leader_flag := False\<rparr>) w;
             w = upd_player newLeader (\<lambda>pl. pl\<lparr>gp_leader_flag := True\<rparr>) w;
             w = upd_group p (\<lambda>g. g\<lparr>g_leader := newLeader, g_leader_name := player_name w newLeader,
                   g_slots := update_slot newLeader (toggle_group_member_flag MEMBER_FLAG_ASSISTANT False) (g_slots g)\<rparr>) w;
             w = broadcast_packet (WorldPacket SMSG_GROUP_SET_LEADER [FStr (ms_name slot)]) True None guid_empty p w
         in with_group p (\<lambda>g. glog (GOnChangeLeader p newLeader (g_leader g))) w)"

text \<open>The player's references to the group are cut.\<close>

definition leave_references :: "nat \<Rightarrow> guid \<Rightarrow> group_data \<Rightarrow> group_world \<Rightarrow> group_world" where
  "leave_references p x g w =
     (if bg_or_bf g then remove_from_battleground_or_battlefield_raid x w
      else if get_original_group w x = Some p then player_set_original_group x None 0 w
      else player_set_group x None 0 w)"

definition homebind_if_instance :: "group_env \<Rightarrow> guid \<Rightarrow> group_world \<Rightarrow> group_world" where
  "homebind_if_instance e x w = (if grp_connected w x \<and> \<not> ge_gm e x \<and> ge_in_dungeon e x then glog (GInstanceInvalid x) w else w)"

definition disband_member :: "group_env \<Rightarrow> nat \<Rightarrow> bool \<Rightarrow> group_data \<Rightarrow> member_slot \<Rightarrow> u32 \<times> group_world \<Rightarrow> u32 \<times> group_world" where
  "disband_member e p hideDestroy g m = (\<lambda>(instanceId, w).
     let x = ms_guid m;
         w = (if \<not> bg_or_bf g then upd_cache (clear_character_group x) w else w);
         instanceId = (if grp_connected w x \<and> instanceId = 0 \<and> \<not> bg_or_bf g then ge_instance e x else instanceId);
         w = homebind_if_instance e x w;
         w = (if \<not> bg_or_bf g then glog (GResetInstances x INSTANCE_RESET_GROUP_LEAVE) w else w)
     in if \<not> grp_connected w x then (instanceId, w)
        else
          let w = leave_references p x g w;
              w = (if hideDestroy then w else send_to x (WorldPacket SMSG_GROUP_DESTROYED []) w)
          in (instanceId, case get_group w x of Some q \<Rightarrow> send_update e q w | None \<Rightarrow> send_to x (empty_list_packet g) w))"

definition disband :: "group_env \<Rightarrow> nat \<Rightarrow> bool \<Rightarrow> group_world \<Rightarrow> group_world" where
  "disband e p hideDestroy = with_group p (\<lambda>g w.
     let (instanceId, w) = fold (disband_member e p hideDestroy g) (g_slots g) (0, glog (GOnDisband p) w);
         w = upd_group p (\<lambda>g. g\<lparr>g_rolls := [], g_slots := []\<rparr>) w;
         w = remove_all_invites p w;
         gid = get_counter (g_guid g);
         w = (if \<not> bg_or_bf g then db (DelLfgData gid) (db (DelGroupMemberAll gid) (db (DelGroup gid) w)) else w);
         w = glog (GDeleteInstanceData instanceId) w
     in delete_group p (mgr_remove_group p w))"

section \<open>Leaving\<close>

definition reset_max_enchanting_level :: "group_env \<Rightarrow> nat \<Rightarrow> group_world \<Rightarrow> group_world" where
  "reset_max_enchanting_level e p w = upd_group p (\<lambda>g. g\<lparr>g_max_enchanting :=
     fold (\<lambda>m best. case grp_find_player e w (ms_guid m) of None \<Rightarrow> best
       | Some pl \<Rightarrow> if \<not> ge_socket_closed e (ms_guid m) \<and> best < ucast (gp_enchanting pl) then ucast (gp_enchanting pl) else best)
       (g_slots g) 0\<rparr>) w"

definition detach_member :: "nat \<Rightarrow> guid \<Rightarrow> u8 \<Rightarrow> group_data \<Rightarrow> group_world \<Rightarrow> group_world" where
  "detach_member p x method g w =
     (if \<not> grp_connected w x then w
      else
        let w = leave_references p x g w;
            w = (if method = GROUP_REMOVEMETHOD_KICK \<or> method = GROUP_REMOVEMETHOD_KICK_LFG
                 then send_to x (WorldPacket SMSG_GROUP_UNINVITE []) w else w)
        in send_to x (empty_list_packet g) w)"

definition erase_member_slot :: "nat \<Rightarrow> guid \<Rightarrow> group_world \<Rightarrow> group_world" where
  "erase_member_slot p x = with_group p (\<lambda>g w. case slot_of x g of None \<Rightarrow> w
     | Some slot \<Rightarrow>
         let w = try_group p (sub_group_counter_decrease (ms_group slot)) w;
             w = upd_group p (\<lambda>g. g\<lparr>g_slots := erase_slot x (g_slots g)\<rparr>) w
         in if \<not> bg_or_bf g then upd_cache (clear_character_group x) w else w)"

definition remove_member_votes :: "group_env \<Rightarrow> nat \<Rightarrow> guid \<Rightarrow> group_world \<Rightarrow> group_world" where
  "remove_member_votes e p x = with_group p (\<lambda>g w. case remove_votes e x 0 (g_rolls g) w of
     (rs, w) \<Rightarrow> upd_group p (\<lambda>g. g\<lparr>g_rolls := rs\<rparr>) w)"

definition pick_new_leader :: "group_env \<Rightarrow> nat \<Rightarrow> guid \<Rightarrow> group_world \<Rightarrow> group_world" where
  "pick_new_leader e p x = with_group p (\<lambda>g w. if g_leader g \<noteq> x then w
     else case find (\<lambda>m. grp_connected w (ms_guid m)) (g_slots g) of
         None \<Rightarrow> w | Some m \<Rightarrow> change_leader e p (ms_guid m) w)"

text \<open>After a removal: is the group to be disbanded?\<close>

definition lfg_group_over :: "group_env \<Rightarrow> group_world \<Rightarrow> group_data \<Rightarrow> bool" where
  "lfg_group_over e w g \<longleftrightarrow> is_lfg_group False g \<and> members_count g = 1 \<and>
     (ge_lfg_map e (g_guid g) = 0 \<or> \<not> grp_connected w (g_leader g)
      \<or> (ge_alive e (g_leader g) \<and> ge_map e (g_leader g) \<noteq> ge_lfg_map e (g_guid g))
      \<or> ge_lfg_state e (g_guid g) = LFG_STATE_NONE)"

definition too_few_online :: "group_data \<Rightarrow> bool" where
  "too_few_online g \<longleftrightarrow> length (g_refs g) < (if is_lfg_group False g \<or> bg_or_bf g then 1 else 2)"

definition remove_member :: "group_env \<Rightarrow> nat \<Rightarrow> guid \<Rightarrow> u8 \<Rightarrow> guid \<Rightarrow> bytes \<Rightarrow> group_world \<Rightarrow> group_world" where
  "remove_member e p x method kicker reason = with_group p (\<lambda>g w.
     if is_lfg_group True g \<and> method = GROUP_REMOVEMETHOD_KICK then glog (GLfgBoot (g_guid g) kicker x reason) w
     else if members_count g > (if bg_or_bf g \<or> is_lfg_group False g then 1 else 2) then
       let w = detach_member p x method g w;
           w = (if \<not> bg_or_bf g then db (DelGroupMember (get_counter x) (get_counter (g_guid g))) w else w);
           w = remove_member_votes e p x w;
           w = erase_member_slot p x w;
           w = (case gw_players w x of
                  Some pl \<Rightarrow> if gp_enchanting pl \<noteq> 0 then reset_max_enchanting_level e p w else w
                | None \<Rightarrow> reset_max_enchanting_level e p w);
           w = pick_new_leader e p x w;
           w = homebind_if_instance e x w;
           w = (if \<not> bg_or_bf g then glog (GResetInstances x INSTANCE_RESET_GROUP_LEAVE) w else w);
           w = glog (GOnRemoveMember p x method kicker reason) w;
           w = send_update e p w
       in with_group p (\<lambda>g w. if lfg_group_over e w g \<or> too_few_online g then disband e p False w else w) w
     else disband e p False (glog (GOnRemoveMember p x method kicker reason) w))"

definition uninvite_from_group :: "group_env \<Rightarrow> guid \<Rightarrow> group_world \<Rightarrow> group_world" where
  "uninvite_from_group e x w = (case get_group_invite w x of None \<Rightarrow> w
     | Some p \<Rightarrow> with_group p (\<lambda>_ w.
         with_group p (\<lambda>g w.
           if is_created g then (if members_count g \<le> 1 then disband e p True w else w)
           else if invitee_count g \<le> 1 then delete_group p (remove_all_invites p w) else w)
         (remove_invite p x w)) w)"

section \<open>Changing a group\<close>

definition upd_group_type :: "nat \<Rightarrow> group_world \<Rightarrow> group_world" where
  "upd_group_type p = with_group p (\<lambda>g w. if \<not> bg_or_bf g then db (UpdGroupType (g_type g) (get_counter (g_guid g))) w else w)"

definition convert_to_lfg :: "group_env \<Rightarrow> bool \<Rightarrow> nat \<Rightarrow> group_world \<Rightarrow> group_world" where
  "convert_to_lfg e restricted p w =
     (let w = upd_group p (\<lambda>g. g\<lparr>g_type := g_type g OR GROUPTYPE_LFG\<rparr>) w;
          w = (if restricted then upd_group p (\<lambda>g. g\<lparr>g_type := g_type g OR GROUPTYPE_LFG_RESTRICTED, g_loot_method := NEED_BEFORE_GREED\<rparr>) w else w)
      in send_update e p (upd_group_type p w))"

definition check_level_for_raid :: "group_env \<Rightarrow> group_world \<Rightarrow> group_data \<Rightarrow> bool" where
  "check_level_for_raid e w g \<longleftrightarrow>
     (\<exists>m \<in> set (g_slots g). grp_find_player e w (ms_guid m) \<noteq> None \<and> uint (ge_level e (ms_guid m)) < ge_raid_level e)"

definition convert_to_raid :: "group_env \<Rightarrow> nat \<Rightarrow> group_world \<Rightarrow> group_world" where
  "convert_to_raid e p w =
     (let w = upd_group p (\<lambda>g. g\<lparr>g_type := g_type g OR GROUPTYPE_RAID\<rparr>) w;
          w = try_group p init_raid_sub_groups_counter w;
          w = send_update e p (upd_group_type p w)
      in with_group p (\<lambda>g w. if ge_lfg_state e (g_leader g) = LFG_STATE_RAIDBROWSER then glog (GLfgLeave (g_leader g)) w else w) w)"

definition change_members_group :: "group_env \<Rightarrow> nat \<Rightarrow> guid \<Rightarrow> u8 \<Rightarrow> group_world \<Rightarrow> group_world" where
  "change_members_group e p x grp = with_group p (\<lambda>g w.
     if \<not> is_raid_group g then w
     else case slot_of x g of None \<Rightarrow> w
     | Some slot \<Rightarrow>
         let prevSubGroup = get_member_group x g
         in if prevSubGroup = grp then w
            else
              let w = upd_group p (\<lambda>g. g\<lparr>g_slots := update_slot x (\<lambda>m. m\<lparr>ms_group := grp\<rparr>) (g_slots g)\<rparr>) w;
                  w = try_group p (sub_group_counter_increase grp) w;
                  w = try_group p (sub_group_counter_decrease prevSubGroup) w;
                  w = (if \<not> bg_or_bf g then db (UpdGroupMemberSubgroup grp (get_counter x)) w else w);
                  w = set_sub_group (get_group w x \<noteq> Some p) grp x w
              in send_update e p w)"

definition set_group_member_flag :: "group_env \<Rightarrow> nat \<Rightarrow> guid \<Rightarrow> bool \<Rightarrow> u8 \<Rightarrow> group_world \<Rightarrow> group_world" where
  "set_group_member_flag e p x apply flag = with_group p (\<lambda>g w.
     if \<not> is_raid_group g then w
     else if slot_of x g = None then w
     else if flag \<notin> set [MEMBER_FLAG_MAINASSIST, MEMBER_FLAG_MAINTANK, MEMBER_FLAG_ASSISTANT] then w
     else
       let w = (if flag = MEMBER_FLAG_ASSISTANT then w else upd_group p (remove_unique_group_member_flag flag) w);
           w = upd_group p (\<lambda>g. g\<lparr>g_slots := update_slot x (toggle_group_member_flag flag apply) (g_slots g)\<rparr>) w;
           w = with_group p (\<lambda>g w. case slot_of x g of None \<Rightarrow> w
                 | Some slot \<Rightarrow> db (UpdGroupMemberFlag (ms_flags slot) (get_counter x)) w) w
       in send_update e p w)"

definition set_lfg_roles :: "group_env \<Rightarrow> nat \<Rightarrow> guid \<Rightarrow> u8 \<Rightarrow> group_world \<Rightarrow> group_world" where
  "set_lfg_roles e p x roles = with_group p (\<lambda>g w. case slot_of x g of None \<Rightarrow> w
     | Some slot \<Rightarrow> send_update e p (upd_group p (\<lambda>g. g\<lparr>g_slots := update_slot x (\<lambda>m. m\<lparr>ms_roles := roles\<rparr>) (g_slots g)\<rparr>) w))"

definition set_dungeon_difficulty :: "nat \<Rightarrow> u8 \<Rightarrow> group_world \<Rightarrow> group_world" where
  "set_dungeon_difficulty p difficulty w = with_group p (\<lambda>g w.
     let w = (if \<not> bg_or_bf g then db (UpdGroupDifficulty difficulty (get_counter (g_guid g))) w else w)
     in fold (\<lambda>(x, orig) w. send_dungeon_difficulty x (upd_player x (\<lambda>pl. pl\<lparr>gp_dungeon := difficulty\<rparr>) w)) (g_refs g) w)
     (upd_group p (\<lambda>g. g\<lparr>g_dungeon := difficulty\<rparr>) w)"

definition set_raid_difficulty :: "nat \<Rightarrow> u8 \<Rightarrow> group_world \<Rightarrow> group_world" where
  "set_raid_difficulty p difficulty w = with_group p (\<lambda>g w.
     let w = (if \<not> bg_or_bf g then db (UpdGroupRaidDifficulty difficulty (get_counter (g_guid g))) w else w)
     in fold (\<lambda>(x, orig) w. send_raid_difficulty x (upd_player x (\<lambda>pl. pl\<lparr>gp_raid := difficulty\<rparr>) w)) (g_refs g) w)
     (upd_group p (\<lambda>g. g\<lparr>g_raid := difficulty\<rparr>) w)"

section \<open>Loading, logging in and out\<close>

text \<open>A row of \<open>groups\<close> in the order of the query, and a row of \<open>group_member\<close>.\<close>

record group_row =
  gr_leader :: u32
  gr_loot_method :: u8
  gr_looter :: u32
  gr_threshold :: u8
  gr_icons :: "u64 list"
  gr_type :: u8
  gr_dungeon :: u8
  gr_raid :: u8
  gr_master :: u32
  gr_guid :: u32

definition load_group_from_db :: "nat \<Rightarrow> group_row \<Rightarrow> group_world \<Rightarrow> bool \<times> group_world" where
  "load_group_from_db p r w =
     (let leader = guid_create_global HG_Player (gr_leader r);
          w = upd_group p (\<lambda>g. g\<lparr>g_guid := guid_create_global HG_Group (gr_guid r), g_leader := leader\<rparr>) w
      in case get_character_name_by_guid (gw_cache w) leader of
           None \<Rightarrow> (False, db (DelLfgData (gr_guid r)) (db (DelGroupMemberAll (gr_guid r)) (db (DelGroup (gr_guid r)) w)))
         | Some name \<Rightarrow>
             let w = upd_group p (\<lambda>g. g\<lparr>g_leader_name := name, g_loot_method := gr_loot_method r,
                   g_looter := guid_create_global HG_Player (gr_looter r), g_threshold := gr_threshold r,
                   g_icons := gr_icons r, g_type := gr_type r\<rparr>) w;
                 w = try_group p (\<lambda>g. if is_raid_group g then init_raid_sub_groups_counter g else Some g) w;
                 w = upd_group p (\<lambda>g. g\<lparr>
                   g_dungeon := if gr_dungeon r \<ge> MAX_DUNGEON_DIFFICULTY then DUNGEON_DIFFICULTY_NORMAL else gr_dungeon r,
                   g_raid := if gr_raid r \<ge> MAX_RAID_DIFFICULTY then RAID_DIFFICULTY_10MAN_NORMAL else gr_raid r,
                   g_master := guid_create_global HG_Player (gr_master r)\<rparr>) w
             in (True, if gr_type r AND GROUPTYPE_LFG \<noteq> 0 then glog (GLfgLoad (guid_create_global HG_Group (gr_guid r))) w else w))"

definition load_member_from_db :: "nat \<Rightarrow> u32 \<Rightarrow> u8 \<Rightarrow> u8 \<Rightarrow> u8 \<Rightarrow> group_world \<Rightarrow> group_world" where
  "load_member_from_db p guidLow memberFlags subgroup roles = with_group p (\<lambda>g w.
     let x = guid_create_global HG_Player guidLow
     in case get_character_name_by_guid (gw_cache w) x of
          None \<Rightarrow> db (DelGroupMember guidLow (get_counter (g_guid g))) w
        | Some name \<Rightarrow>
            let w = upd_group p (\<lambda>g. g\<lparr>g_slots := g_slots g @
                  [\<lparr>ms_guid = x, ms_name = name, ms_group = subgroup, ms_flags = memberFlags, ms_roles = roles\<rparr>]\<rparr>) w;
                w = (if \<not> bg_or_bf g then upd_cache (update_character_group x (g_guid g)) w else w)
            in glog (GLfgSetupMember x (g_guid g)) (try_group p (sub_group_counter_increase subgroup) w))"

text \<open>A row of \<open>group_member\<close>: group, member, flags, subgroup, roles.\<close>

type_synonym member_row = "u32 \<times> u32 \<times> u8 \<times> u8 \<times> u8"

definition load_group_row :: "group_env \<Rightarrow> group_row \<Rightarrow> group_world \<Rightarrow> group_world" where
  "load_group_row e r w =
     (let (p, w) = new_group e w; (ok, w) = load_group_from_db p r w
      in if \<not> ok then delete_group p w else register_group_id (gr_guid r) (mgr_add_group p w))"

fun load_member_row :: "member_row \<Rightarrow> group_world \<Rightarrow> group_world" where
  "load_member_row (gid, low, flags, sub, roles) w = (case get_group_by_guid gid w of None \<Rightarrow> w
     | Some p \<Rightarrow> load_member_from_db p low flags sub roles w)"

text \<open>\<open>LoadGroups\<close>, after the statements that clean the tables; the rows are in the order of the queries.\<close>

definition load_groups :: "group_env \<Rightarrow> u32 option \<Rightarrow> group_row list \<Rightarrow> member_row list \<Rightarrow> group_world \<Rightarrow> group_world" where
  "load_groups e maxId rows members w =
     fold load_member_row members (fold (load_group_row e) rows (init_group_ids maxId w))"

text \<open>\<open>Player::_LoadGroup\<close>\<close>

definition player_load_group :: "guid \<Rightarrow> group_world \<Rightarrow> group_world" where
  "player_load_group x w =
     (let groupId = get_character_group_guid_by_guid (gw_cache w) x;
          w = (if is_empty groupId then w
               else case get_group_by_guid (get_counter groupId) w of None \<Rightarrow> w
               | Some p \<Rightarrow> with_group p (\<lambda>g w.
                   if unat (get_member_group x g) \<le> MAX_RAID_SUBGROUPS then
                     let w = (if is_leader x g then upd_player x (\<lambda>pl. pl\<lparr>gp_leader_flag := True\<rparr>) w else w);
                         w = player_set_group x (Some p) (get_member_group x g) w
                     in upd_player x (\<lambda>pl. pl\<lparr>gp_dungeon := g_dungeon g, gp_raid := g_raid g\<rparr>) w
                   else w) w)
      in case get_group w x of
           None \<Rightarrow> upd_player x (\<lambda>pl. pl\<lparr>gp_leader_flag := False\<rparr>) w
         | Some p \<Rightarrow> with_group p (\<lambda>g w. if is_leader x g then w else upd_player x (\<lambda>pl. pl\<lparr>gp_leader_flag := False\<rparr>) w) w)"

text \<open>The part of \<open>WorldSession::LogoutPlayer\<close>; \<open>socket\<close>: the connection is still open.\<close>

definition logout_groups :: "group_env \<Rightarrow> bool \<Rightarrow> guid \<Rightarrow> group_world \<Rightarrow> group_world" where
  "logout_groups e socket x w =
     (let w = (if get_group w x = None \<or> ge_leave_on_logout e then uninvite_from_group e x w else w)
      in case get_group w x of None \<Rightarrow> w
         | Some p \<Rightarrow> with_group p (\<lambda>g w.
             if \<not> is_raid_group g \<and> \<not> is_lfg_group False g \<and> socket \<and> ge_leave_on_logout e
             then remove_member e p x GROUP_REMOVEMETHOD_DEFAULT guid_empty [] w else w) w)"

text \<open>The player object is deleted, and with it its references.\<close>

definition delete_player :: "guid \<Rightarrow> group_world \<Rightarrow> group_world" where
  "delete_player x w = (let w = unlink_ref True x (unlink_ref False x w) in w\<lparr>gw_players := (gw_players w)(x := None)\<rparr>)"

text \<open>A player object appears: it is nobody's member yet, and loads its group.\<close>

definition login_player :: "guid \<Rightarrow> group_player \<Rightarrow> group_world \<Rightarrow> group_world" where
  "login_player x pl w = player_load_group x (w\<lparr>gw_players := (gw_players w)(x \<mapsto>
     pl\<lparr>gp_ref := ref_none, gp_original := ref_none, gp_invite := None\<rparr>)\<rparr>)"

end
