(* ===== verification/GroupHandlers.thy ===== *)
theory GroupHandlers
  imports GroupOps Names
begin

text \<open>
  The requests of the client about groups (GroupHandler.cpp, and
  \<open>Player::CanUninviteFromGroup\<close>). A \<open>handle_...\<close> function reads the packet, in the order and
  behind the checks of the source, and calls the function that acts on what was read.
\<close>

section \<open>Answers\<close>

definition PARTY_OP_INVITE :: u32 where "PARTY_OP_INVITE = 0"
definition PARTY_OP_UNINVITE :: u32 where "PARTY_OP_UNINVITE = 1"
definition PARTY_OP_LEAVE :: u32 where "PARTY_OP_LEAVE = 2"
definition PARTY_OP_SWAP :: u32 where "PARTY_OP_SWAP = 4"

definition ERR_PARTY_RESULT_OK :: u32 where "ERR_PARTY_RESULT_OK = 0"
definition ERR_BAD_PLAYER_NAME_S :: u32 where "ERR_BAD_PLAYER_NAME_S = 1"
definition ERR_TARGET_NOT_IN_GROUP_S :: u32 where "ERR_TARGET_NOT_IN_GROUP_S = 2"
definition ERR_TARGET_NOT_IN_INSTANCE_S :: u32 where "ERR_TARGET_NOT_IN_INSTANCE_S = 3"
definition ERR_GROUP_FULL :: u32 where "ERR_GROUP_FULL = 4"
definition ERR_ALREADY_IN_GROUP_S :: u32 where "ERR_ALREADY_IN_GROUP_S = 5"
definition ERR_NOT_IN_GROUP :: u32 where "ERR_NOT_IN_GROUP = 6"
definition ERR_NOT_LEADER :: u32 where "ERR_NOT_LEADER = 7"
definition ERR_PLAYER_WRONG_FACTION :: u32 where "ERR_PLAYER_WRONG_FACTION = 8"
definition ERR_IGNORING_YOU_S :: u32 where "ERR_IGNORING_YOU_S = 9"
definition ERR_INVITE_RESTRICTED :: u32 where "ERR_INVITE_RESTRICTED = 13"
definition ERR_GROUP_SWAP_FAILED :: u32 where "ERR_GROUP_SWAP_FAILED = 14"
definition ERR_PARTY_LFG_BOOT_LIMIT :: u32 where "ERR_PARTY_LFG_BOOT_LIMIT = 20"
definition ERR_PARTY_LFG_BOOT_IN_PROGRESS :: u32 where "ERR_PARTY_LFG_BOOT_IN_PROGRESS = 22"
definition ERR_PARTY_LFG_BOOT_TOO_FEW_PLAYERS :: u32 where "ERR_PARTY_LFG_BOOT_TOO_FEW_PLAYERS = 23"
definition ERR_PARTY_LFG_BOOT_NOT_ELIGIBLE_S :: u32 where "ERR_PARTY_LFG_BOOT_NOT_ELIGIBLE_S = 24"
definition ERR_RAID_DISALLOWED_BY_LEVEL :: u32 where "ERR_RAID_DISALLOWED_BY_LEVEL = 25"
definition ERR_PARTY_LFG_BOOT_IN_COMBAT :: u32 where "ERR_PARTY_LFG_BOOT_IN_COMBAT = 26"
definition ERR_VOTE_KICK_REASON_NEEDED :: u32 where "ERR_VOTE_KICK_REASON_NEEDED = 27"
definition ERR_PARTY_LFG_BOOT_DUNGEON_COMPLETE :: u32 where "ERR_PARTY_LFG_BOOT_DUNGEON_COMPLETE = 28"
definition ERR_PARTY_LFG_BOOT_LOOT_ROLLS :: u32 where "ERR_PARTY_LFG_BOOT_LOOT_ROLLS = 29"

lemmas party_result_defs = ERR_PARTY_RESULT_OK_def ERR_BAD_PLAYER_NAME_S_def ERR_TARGET_NOT_IN_GROUP_S_def
  ERR_NOT_IN_GROUP_def ERR_NOT_LEADER_def ERR_INVITE_RESTRICTED_def ERR_PARTY_LFG_BOOT_LIMIT_def
  ERR_PARTY_LFG_BOOT_IN_PROGRESS_def ERR_PARTY_LFG_BOOT_TOO_FEW_PLAYERS_def
  ERR_PARTY_LFG_BOOT_NOT_ELIGIBLE_S_def ERR_PARTY_LFG_BOOT_IN_COMBAT_def
  ERR_PARTY_LFG_BOOT_DUNGEON_COMPLETE_def ERR_PARTY_LFG_BOOT_LOOT_ROLLS_def

definition SMSG_GROUP_INVITE :: u16 where "SMSG_GROUP_INVITE = 0x06F"
definition SMSG_GROUP_DECLINE :: u16 where "SMSG_GROUP_DECLINE = 0x074"
definition SMSG_PARTY_COMMAND_RESULT :: u16 where "SMSG_PARTY_COMMAND_RESULT = 0x07F"
definition MSG_MINIMAP_PING :: u16 where "MSG_MINIMAP_PING = 0x1D5"
definition MSG_RAID_READY_CHECK :: u16 where "MSG_RAID_READY_CHECK = 0x322"
definition MSG_RAID_READY_CHECK_FINISHED :: u16 where "MSG_RAID_READY_CHECK_FINISHED = 0x3C6"

definition send_party_result :: "guid \<Rightarrow> u32 \<Rightarrow> bytes \<Rightarrow> u32 \<Rightarrow> u32 \<Rightarrow> group_world \<Rightarrow> group_world" where
  "send_party_result x operation member res val =
     send_to x (WorldPacket SMSG_PARTY_COMMAND_RESULT [FU32 operation, FStr member, FU32 res, FU32 val])"

definition group_invite_packet :: "u8 \<Rightarrow> bytes \<Rightarrow> world_packet" where
  "group_invite_packet flag name = WorldPacket SMSG_GROUP_INVITE [FU8 flag, FStr name, FU32 0, FU8 0, FU32 0]"

section \<open>Inviting\<close>

text \<open>The checks of a request for an invitation before the groups are looked at.\<close>

definition invite_refusal :: "group_env \<Rightarrow> guid \<Rightarrow> guid \<Rightarrow> u32 option" where
  "invite_refusal e x y =
     (if ge_spectator e x \<or> ge_spectator e y then Some ERR_INVITE_RESTRICTED
      else if \<not> ge_gm_group e \<and> \<not> ge_gm e x \<and> ge_gm e y then Some ERR_BAD_PLAYER_NAME_S
      else if \<not> ge_gm e x \<and> \<not> ge_two_side e \<and> ge_team e x \<noteq> ge_team e y then Some ERR_PLAYER_WRONG_FACTION
      else if ge_instance e x \<noteq> 0 \<and> ge_instance e y \<noteq> 0 \<and> ge_instance e x \<noteq> ge_instance e y \<and> ge_map e x = ge_map e y
      then Some ERR_TARGET_NOT_IN_INSTANCE_S
      else if has_ignore x (ge_social e y) then Some ERR_IGNORING_YOU_S
      else if \<not> has_friend x (ge_social e y) \<and> ucast (ge_level e x) < ge_level_req e then Some ERR_INVITE_RESTRICTED
      else None)"

text \<open>Here only a battleground's group is passed over, not a battlefield's.\<close>

definition handler_group :: "group_world \<Rightarrow> guid \<Rightarrow> nat option" where
  "handler_group w x = (case get_group w x of None \<Rightarrow> None
     | Some q \<Rightarrow> (case gw_groups w q of
         Some g \<Rightarrow> if is_bg_group g then get_original_group w x else Some q | None \<Rightarrow> Some q))"

definition first_group :: "nat option \<Rightarrow> nat option \<Rightarrow> nat option" where
  "first_group a b = (case a of None \<Rightarrow> b | Some p \<Rightarrow> Some p)"

definition invited :: "guid \<Rightarrow> guid \<Rightarrow> bytes \<Rightarrow> group_world \<Rightarrow> group_world" where
  "invited x y membername w = send_party_result x PARTY_OP_INVITE membername ERR_PARTY_RESULT_OK 0
     (send_to y (group_invite_packet 1 (player_name w x)) w)"

definition invite_to_new_group :: "group_env \<Rightarrow> guid \<Rightarrow> guid \<Rightarrow> bytes \<Rightarrow> group_world \<Rightarrow> group_world" where
  "invite_to_new_group e x y membername w =
     (let (p, w) = new_group e w; (ok, w) = add_leader_invite p x w
      in if \<not> ok then delete_group p w
         else let (ok, w) = add_invite p y w in if \<not> ok then delete_group p w else invited x y membername w)"

definition invite_to_group :: "nat \<Rightarrow> guid \<Rightarrow> guid \<Rightarrow> bytes \<Rightarrow> group_world \<Rightarrow> group_world" where
  "invite_to_group p x y membername = with_group p (\<lambda>g w.
     if \<not> is_leader x g \<and> \<not> is_assistant x g then send_party_result x PARTY_OP_INVITE [] ERR_NOT_LEADER 0 w
     else if is_full g then send_party_result x PARTY_OP_INVITE [] ERR_GROUP_FULL 0 w
     else let (ok, w) = add_invite p y w in if \<not> ok then w else invited x y membername w)"

definition invite_player :: "group_env \<Rightarrow> guid \<Rightarrow> guid \<Rightarrow> bytes \<Rightarrow> group_world \<Rightarrow> group_world" where
  "invite_player e x y membername w =
     (let grp = first_group (handler_group w x) (get_group_invite w x);
          group2 = handler_group w y
      in if group2 \<noteq> None \<or> get_group_invite w y \<noteq> None then
           let w = send_party_result x PARTY_OP_INVITE membername ERR_ALREADY_IN_GROUP_S 0 w
           in if group2 \<noteq> None then send_to y (group_invite_packet 0 (player_name w x)) w else w
         else case grp of Some p \<Rightarrow> invite_to_group p x y membername w | None \<Rightarrow> invite_to_new_group e x y membername w)"

definition group_invite :: "group_env \<Rightarrow> guid \<Rightarrow> bytes \<Rightarrow> group_world \<Rightarrow> group_world" where
  "group_invite e x membername w = (case normalize_player_name membername of
     None \<Rightarrow> send_party_result x PARTY_OP_INVITE membername ERR_BAD_PLAYER_NAME_S 0 w
   | Some membername \<Rightarrow> (case grp_find_by_name e w membername of
       None \<Rightarrow> send_party_result x PARTY_OP_INVITE membername ERR_BAD_PLAYER_NAME_S 0 w
     | Some y \<Rightarrow>
         if y = x then send_party_result x PARTY_OP_INVITE membername ERR_BAD_PLAYER_NAME_S 0 w
         else if \<not> ge_can_invite e x membername then w
         else case invite_refusal e x y of
             Some res \<Rightarrow> send_party_result x PARTY_OP_INVITE membername res 0 w
           | None \<Rightarrow> invite_player e x y membername w))"

definition handle_group_invite :: "group_env \<Rightarrow> guid \<Rightarrow> byte_buffer \<Rightarrow> group_world \<Rightarrow> bb_error + group_world" where
  "handle_group_invite e x packet w =
     res_bind (bb_get_string packet) (\<lambda>(membername, packet).
     res_bind (bb_read_skip 4 packet) (\<lambda>_. Inr (group_invite e x membername w)))"

definition group_accept :: "group_env \<Rightarrow> guid \<Rightarrow> group_world \<Rightarrow> group_world" where
  "group_accept e x w = (case get_group_invite w x of None \<Rightarrow> w
   | Some p \<Rightarrow> with_group p (\<lambda>_ w.
       let w = remove_invite p x w
       in if ge_spectator e x then send_party_result x PARTY_OP_INVITE [] ERR_INVITE_RESTRICTED 0 w
          else if \<not> ge_can_accept e x p then w
          else with_group p (\<lambda>g w.
            if g_leader g = x then w
            else if is_full g then send_party_result x PARTY_OP_INVITE [] ERR_GROUP_FULL 0 w
            else if \<not> is_created g then
              (if \<not> grp_connected w (g_leader g) \<or> ge_spectator e (g_leader g) then remove_all_invites p w
               else let w = remove_invite p (g_leader g) w;
                        w = snd (group_create e p (g_leader g) w);
                        w = mgr_add_group p w
                 in snd (add_member e p x w))
            else snd (add_member e p x w)) w) w)"

definition handle_group_accept :: "group_env \<Rightarrow> guid \<Rightarrow> byte_buffer \<Rightarrow> group_world \<Rightarrow> bb_error + group_world" where
  "handle_group_accept e x packet w = res_bind (bb_read_skip 4 packet) (\<lambda>_. Inr (group_accept e x w))"

definition group_decline :: "group_env \<Rightarrow> guid \<Rightarrow> group_world \<Rightarrow> group_world" where
  "group_decline e x w = (case get_group_invite w x of None \<Rightarrow> w
   | Some p \<Rightarrow> with_group p (\<lambda>g w.
       let leader = g_leader g; online = grp_connected w leader; w = uninvite_from_group e x w
       in if \<not> online then w else send_to leader (WorldPacket SMSG_GROUP_DECLINE [FStr (player_name w x)]) w) w)"

section \<open>Removing members\<close>

definition LFG_GROUP_KICK_VOTES_NEEDED :: nat where "LFG_GROUP_KICK_VOTES_NEEDED = 3"

definition can_uninvite_from_group :: "group_env \<Rightarrow> group_world \<Rightarrow> guid \<Rightarrow> guid \<Rightarrow> u32" where
  "can_uninvite_from_group e w x target = (case Option.bind (get_group w x) (gw_groups w) of
     None \<Rightarrow> ERR_NOT_IN_GROUP
   | Some g \<Rightarrow>
       if is_lfg_group True g then
         (if ge_lfg_kicks_left e (g_guid g) = 0 then ERR_PARTY_LFG_BOOT_LIMIT
          else if ge_lfg_state e (g_guid g) = LFG_STATE_BOOT then ERR_PARTY_LFG_BOOT_IN_PROGRESS
          else if members_count g \<le> LFG_GROUP_KICK_VOTES_NEEDED then ERR_PARTY_LFG_BOOT_TOO_FEW_PLAYERS
          else if ge_lfg_state e (g_guid g) = LFG_STATE_FINISHED_DUNGEON then ERR_PARTY_LFG_BOOT_DUNGEON_COMPLETE
          else if is_roll_loot_active g then ERR_PARTY_LFG_BOOT_LOOT_ROLLS
          else if \<exists>r \<in> set (g_refs g). ge_in_combat_near e x (fst r) then ERR_PARTY_LFG_BOOT_IN_COMBAT
          else if grp_connected w target \<and> ge_lfg_kick_wait e target \<noteq> None then ERR_PARTY_LFG_BOOT_NOT_ELIGIBLE_S
          else ERR_PARTY_RESULT_OK)
       else if \<not> is_leader x g \<and> \<not> is_assistant x g then ERR_NOT_LEADER
       else if ge_in_bg e x then ERR_INVITE_RESTRICTED
       else ERR_PARTY_RESULT_OK)"

definition group_uninvite_guid :: "group_env \<Rightarrow> guid \<Rightarrow> guid \<Rightarrow> bytes \<Rightarrow> group_world \<Rightarrow> group_world" where
  "group_uninvite_guid e x target reason w =
     (if target = x then w
      else
        let name = (case get_character_name_by_guid (gw_cache w) target of Some n \<Rightarrow> n | None \<Rightarrow> []);
            res = can_uninvite_from_group e w x target
        in if res \<noteq> ERR_PARTY_RESULT_OK then
             (if res = ERR_PARTY_LFG_BOOT_NOT_ELIGIBLE_S
              then (case ge_lfg_kick_wait e target of Some t \<Rightarrow> send_party_result x PARTY_OP_UNINVITE name res t w | None \<Rightarrow> w)
              else send_party_result x PARTY_OP_UNINVITE name res 0 w)
           else case get_group w x of None \<Rightarrow> w
           | Some p \<Rightarrow> with_group p (\<lambda>g w.
               if is_lfg_group True g \<and> reason = [] then send_party_result x PARTY_OP_UNINVITE name ERR_VOTE_KICK_REASON_NEEDED 0 w
               else if is_leader target g \<and> \<not> is_lfg_group True g then send_party_result x PARTY_OP_UNINVITE name ERR_NOT_LEADER 0 w
               else if is_member target g then remove_member e p target GROUP_REMOVEMETHOD_KICK x reason w
               else case get_invited target g of Some y \<Rightarrow> uninvite_from_group e y w
               | None \<Rightarrow> send_party_result x PARTY_OP_UNINVITE name ERR_TARGET_NOT_IN_GROUP_S 0 w) w)"

definition handle_group_uninvite_guid :: "group_env \<Rightarrow> guid \<Rightarrow> byte_buffer \<Rightarrow> group_world \<Rightarrow> bb_error + group_world" where
  "handle_group_uninvite_guid e x packet w =
     res_bind (bb_get_u64 packet) (\<lambda>(target, packet).
     res_bind (bb_get_string packet) (\<lambda>(reason, _). Inr (group_uninvite_guid e x target reason w)))"

definition group_uninvite :: "group_env \<Rightarrow> guid \<Rightarrow> bytes \<Rightarrow> group_world \<Rightarrow> group_world" where
  "group_uninvite e x membername w = (case normalize_player_name membername of None \<Rightarrow> w
   | Some membername \<Rightarrow>
       if player_name w x = membername then w
       else case get_group w x of None \<Rightarrow> w
       | Some p \<Rightarrow> with_group p (\<lambda>g w.
           let target = get_member_guid membername g;
               res = can_uninvite_from_group e w x target
           in if res \<noteq> ERR_PARTY_RESULT_OK then send_party_result x PARTY_OP_UNINVITE [] res 0 w
              else if \<not> is_empty target then remove_member e p target GROUP_REMOVEMETHOD_KICK x [] w
              else case get_invited_by_name membername g w of Some y \<Rightarrow> uninvite_from_group e y w
              | None \<Rightarrow> send_party_result x PARTY_OP_UNINVITE membername ERR_TARGET_NOT_IN_GROUP_S 0 w) w)"

definition handle_group_uninvite :: "group_env \<Rightarrow> guid \<Rightarrow> byte_buffer \<Rightarrow> group_world \<Rightarrow> bb_error + group_world" where
  "handle_group_uninvite e x packet w = res_bind (bb_get_string packet) (\<lambda>(membername, _). Inr (group_uninvite e x membername w))"

definition group_leave :: "group_env \<Rightarrow> guid \<Rightarrow> group_world \<Rightarrow> group_world" where
  "group_leave e x w =
     (let grp = get_group w x; grpInvite = get_group_invite w x
      in if grp = None \<and> grpInvite = None then w
         else if ge_in_bg e x then send_party_result x PARTY_OP_INVITE [] ERR_INVITE_RESTRICTED 0 w
         else case grp of
             Some p \<Rightarrow> remove_member e p x GROUP_REMOVEMETHOD_LEAVE guid_empty []
               (send_party_result x PARTY_OP_LEAVE (player_name w x) ERR_PARTY_RESULT_OK 0 w)
           | None \<Rightarrow> (case grpInvite of None \<Rightarrow> w
               | Some p \<Rightarrow> with_group p (\<lambda>g w. if g_leader g = x
                   then disband e p False (send_party_result x PARTY_OP_LEAVE (player_name w x) ERR_PARTY_RESULT_OK 0 w) else w) w))"

section \<open>The leader's requests\<close>

definition group_set_leader :: "group_env \<Rightarrow> guid \<Rightarrow> guid \<Rightarrow> group_world \<Rightarrow> group_world" where
  "group_set_leader e x target w = (case get_group w x of None \<Rightarrow> w
   | Some p \<Rightarrow>
       if \<not> grp_connected w target then w
       else with_group p (\<lambda>g w.
         if \<not> is_leader x g \<or> get_group w target \<noteq> Some p \<or> target = x then w
         else send_update e p (change_leader e p target w)) w)"

definition handle_group_set_leader :: "group_env \<Rightarrow> guid \<Rightarrow> byte_buffer \<Rightarrow> group_world \<Rightarrow> bb_error + group_world" where
  "handle_group_set_leader e x packet w = res_bind (bb_get_u64 packet) (\<lambda>(target, _). Inr (group_set_leader e x target w))"

definition group_loot_method :: "group_env \<Rightarrow> guid \<Rightarrow> u32 \<Rightarrow> guid \<Rightarrow> u32 \<Rightarrow> group_world \<Rightarrow> group_world" where
  "group_loot_method e x lootMethod lootMaster lootThreshold w = (case get_group w x of None \<Rightarrow> w
   | Some p \<Rightarrow> with_group p (\<lambda>g w.
       if \<not> is_leader x g \<or> is_lfg_group True g then w
       else if lootMethod > ucast NEED_BEFORE_GREED then w
       else if lootThreshold < ucast ITEM_QUALITY_UNCOMMON \<or> lootThreshold > ucast ITEM_QUALITY_ARTIFACT then w
       else if lootMethod = ucast MASTER_LOOT \<and> \<not> is_member lootMaster g then w
       else send_update e p (upd_group p (\<lambda>g. set_loot_threshold (ucast lootThreshold)
         (set_master_looter_guid lootMaster (set_loot_method (ucast lootMethod) g))) w)) w)"

definition handle_loot_method :: "group_env \<Rightarrow> guid \<Rightarrow> byte_buffer \<Rightarrow> group_world \<Rightarrow> bb_error + group_world" where
  "handle_loot_method e x packet w =
     res_bind (bb_get_u32 packet) (\<lambda>(lootMethod, packet).
     res_bind (bb_get_u64 packet) (\<lambda>(lootMaster, packet).
     res_bind (bb_get_u32 packet) (\<lambda>(lootThreshold, _).
       Inr (group_loot_method e x lootMethod lootMaster lootThreshold w))))"

definition loot_roll_request :: "group_env \<Rightarrow> guid \<Rightarrow> guid \<Rightarrow> u8 \<Rightarrow> group_world \<Rightarrow> group_world" where
  "loot_roll_request e x item rollType w = (case get_group w x of None \<Rightarrow> w
   | Some p \<Rightarrow>
       let w = group_count_roll_vote e p x item rollType w
       in if rollType \<in> set [ROLL_NEED, ROLL_GREED, ROLL_DISENCHANT] then glog (GAchievement x rollType 1) w else w)"

definition handle_loot_roll :: "group_env \<Rightarrow> guid \<Rightarrow> byte_buffer \<Rightarrow> group_world \<Rightarrow> bb_error + group_world" where
  "handle_loot_roll e x packet w =
     res_bind (bb_get_u64 packet) (\<lambda>(item, packet).
     res_bind (bb_get_u32 packet) (\<lambda>(itemSlot, packet).
     res_bind (bb_get_u8 packet) (\<lambda>(rollType, _). Inr (loot_roll_request e x item rollType w))))"

definition handle_minimap_ping :: "group_env \<Rightarrow> guid \<Rightarrow> byte_buffer \<Rightarrow> group_world \<Rightarrow> bb_error + group_world" where
  "handle_minimap_ping e x packet w = (case get_group w x of None \<Rightarrow> Inr w
   | Some p \<Rightarrow>
     res_bind (bb_get_float packet) (\<lambda>(px, packet).
     res_bind (bb_get_float packet) (\<lambda>(py, _).
       Inr (broadcast_packet (WorldPacket MSG_MINIMAP_PING [FU64 x, FFloat px, FFloat py]) True None x p w))))"

definition handle_raid_target_update :: "group_env \<Rightarrow> guid \<Rightarrow> byte_buffer \<Rightarrow> group_world \<Rightarrow> bb_error + group_world" where
  "handle_raid_target_update e x packet w = (case get_group w x of None \<Rightarrow> Inr w
   | Some p \<Rightarrow> (case gw_groups w p of None \<Rightarrow> Inr (glog GBadPointer w) | Some g \<Rightarrow>
     res_bind (bb_get_u8 packet) (\<lambda>(i, packet).
       if i = 0xFF then Inr (send_target_icon_list p x w)
       else if is_raid_group g \<and> \<not> is_leader x g \<and> \<not> is_assistant x g then Inr w
       else res_bind (bb_get_u64 packet) (\<lambda>(target, _).
         if is_player target \<and> (\<not> grp_connected w target \<or> ge_hostile e target x) then Inr w
         else Inr (set_target_icon i x target p w)))))"

definition group_raid_convert :: "group_env \<Rightarrow> guid \<Rightarrow> group_world \<Rightarrow> group_world" where
  "group_raid_convert e x w = (case get_group w x of None \<Rightarrow> w
   | Some p \<Rightarrow>
       if ge_in_bg e x then w
       else with_group p (\<lambda>g w.
         if check_level_for_raid e w g then send_party_result x PARTY_OP_INVITE [] ERR_RAID_DISALLOWED_BY_LEVEL 0 w
         else if \<not> is_leader x g \<or> members_count g < 2 \<or> is_lfg_group False g then w
         else convert_to_raid e p (send_party_result x PARTY_OP_INVITE [] ERR_PARTY_RESULT_OK 0 w)) w)"

text \<open>Of a player who is not connected the character cache gives the GUID; \<open>None\<close> is a stale pointer followed.\<close>

definition group_change_sub_group :: "group_env \<Rightarrow> guid \<Rightarrow> bytes \<Rightarrow> u8 \<Rightarrow> group_world \<Rightarrow> group_world" where
  "group_change_sub_group e x name groupNr w = (case get_group w x of None \<Rightarrow> w
   | Some p \<Rightarrow>
       if unat groupNr \<ge> MAX_RAID_SUBGROUPS then w
       else with_group p (\<lambda>g w.
         if \<not> is_leader x g \<and> \<not> is_assistant x g then w
         else case has_free_slot_sub_group groupNr g of
             None \<Rightarrow> glog GBadIndex w
           | Some False \<Rightarrow> w
           | Some True \<Rightarrow> (case (case grp_find_by_name e w name of Some y \<Rightarrow> Some y
                 | None \<Rightarrow> get_character_guid_by_name (gw_cache w) (ge_escape e name)) of
               None \<Rightarrow> glog GBadPointer w
             | Some y \<Rightarrow> change_members_group e p y groupNr w)) w)"

definition handle_group_change_sub_group :: "group_env \<Rightarrow> guid \<Rightarrow> byte_buffer \<Rightarrow> group_world \<Rightarrow> bb_error + group_world" where
  "handle_group_change_sub_group e x packet w = (if get_group w x = None then Inr w else
     res_bind (bb_get_string packet) (\<lambda>(name, packet).
     res_bind (bb_get_u8 packet) (\<lambda>(groupNr, _). Inr (group_change_sub_group e x name groupNr w))))"

definition group_assistant :: "group_env \<Rightarrow> nat \<Rightarrow> guid \<Rightarrow> bool \<Rightarrow> group_world \<Rightarrow> group_world" where
  "group_assistant e p target apply w = send_update e p (set_group_member_flag e p target apply MEMBER_FLAG_ASSISTANT w)"

definition handle_group_assistant_leader :: "group_env \<Rightarrow> guid \<Rightarrow> byte_buffer \<Rightarrow> group_world \<Rightarrow> bb_error + group_world" where
  "handle_group_assistant_leader e x packet w = (case get_group w x of None \<Rightarrow> Inr w
   | Some p \<Rightarrow> (case gw_groups w p of None \<Rightarrow> Inr (glog GBadPointer w) | Some g \<Rightarrow>
     if \<not> is_leader x g then Inr w
     else
       res_bind (bb_get_u64 packet) (\<lambda>(target, packet).
       res_bind (bb_get_bool packet) (\<lambda>(apply, _). Inr (group_assistant e p target apply w)))))"

text \<open>The case of the main tank falls through to the default, which does nothing.\<close>

definition party_assignment :: "group_env \<Rightarrow> nat \<Rightarrow> u8 \<Rightarrow> bool \<Rightarrow> guid \<Rightarrow> group_world \<Rightarrow> group_world" where
  "party_assignment e p assignment apply target w =
     (let w = (if assignment = 1 then set_group_member_flag e p target apply MEMBER_FLAG_MAINASSIST
                 (upd_group p (remove_unique_group_member_flag MEMBER_FLAG_MAINASSIST) w)
               else if assignment = 0 then set_group_member_flag e p target apply MEMBER_FLAG_MAINTANK
                 (upd_group p (remove_unique_group_member_flag MEMBER_FLAG_MAINTANK) w)
               else w)
      in send_update e p w)"

definition handle_party_assignment :: "group_env \<Rightarrow> guid \<Rightarrow> byte_buffer \<Rightarrow> group_world \<Rightarrow> bb_error + group_world" where
  "handle_party_assignment e x packet w = (case get_group w x of None \<Rightarrow> Inr w
   | Some p \<Rightarrow> (case gw_groups w p of None \<Rightarrow> Inr (glog GBadPointer w) | Some g \<Rightarrow>
     if \<not> is_leader x g \<and> \<not> is_assistant x g then Inr w
     else
       res_bind (bb_get_u8 packet) (\<lambda>(assignment, packet).
       res_bind (bb_get_bool packet) (\<lambda>(apply, packet).
       res_bind (bb_get_u64 packet) (\<lambda>(target, _). Inr (party_assignment e p assignment apply target w))))))"

text \<open>The notice that the check is disabled in battlegrounds is a chat message, not modelled.\<close>

definition handle_raid_ready_check :: "group_env \<Rightarrow> guid \<Rightarrow> byte_buffer \<Rightarrow> group_world \<Rightarrow> bb_error + group_world" where
  "handle_raid_ready_check e x packet w = (case get_group w x of None \<Rightarrow> Inr w
   | Some p \<Rightarrow> (case gw_groups w p of None \<Rightarrow> Inr (glog GBadPointer w) | Some g \<Rightarrow>
     if bb_size packet = 0 then
       (if \<not> is_leader x g \<and> \<not> is_assistant x g then Inr w
        else if ge_no_bg_ready_check e \<and> ge_in_bg e x then Inr w
        else Inr (offline_ready_check p (broadcast_packet (WorldPacket MSG_RAID_READY_CHECK [FU64 x]) False None guid_empty p w)))
     else
       res_bind (bb_get_u8 packet) (\<lambda>(state, _).
         Inr (broadcast_ready_check (WorldPacket MSG_RAID_READY_CHECK_CONFIRM [FU64 x, FU8 state]) p w))))"

definition raid_ready_check_finished :: "group_env \<Rightarrow> guid \<Rightarrow> group_world \<Rightarrow> group_world" where
  "raid_ready_check_finished e x w = (case get_group w x of None \<Rightarrow> w
   | Some p \<Rightarrow> with_group p (\<lambda>g w.
       if \<not> is_leader x g \<and> \<not> is_assistant x g then w
       else broadcast_packet (WorldPacket MSG_RAID_READY_CHECK_FINISHED []) True None guid_empty p w) w)"

definition handle_opt_out_of_loot :: "guid \<Rightarrow> byte_buffer \<Rightarrow> group_world \<Rightarrow> bb_error + group_world" where
  "handle_opt_out_of_loot x packet w =
     res_bind (bb_get_u32 packet) (\<lambda>(passOnLoot, _). Inr (set_pass_on_group_loot x (passOnLoot \<noteq> 0) w))"

text \<open>The GUID of a member by name; the outer \<open>None\<close> is a stale pointer followed.\<close>

definition swap_guid :: "group_env \<Rightarrow> group_world \<Rightarrow> group_data \<Rightarrow> bytes \<Rightarrow> guid option" where
  "swap_guid e w g playerName =
     (if is_empty (get_member_guid playerName g) then Some guid_empty
      else case (case ge_name_map e playerName of Some y \<Rightarrow> if grp_find_player e w y \<noteq> None then Some y else None | None \<Rightarrow> None) of
          Some y \<Rightarrow> Some y
        | None \<Rightarrow> get_character_guid_by_name (gw_cache w) playerName)"

definition group_swap_sub_group :: "group_env \<Rightarrow> guid \<Rightarrow> bytes \<Rightarrow> bytes \<Rightarrow> group_world \<Rightarrow> group_world" where
  "group_swap_sub_group e x playerName1 playerName2 w =
     (case normalize_player_name playerName1 of
        None \<Rightarrow> send_party_result x PARTY_OP_SWAP playerName1 ERR_GROUP_SWAP_FAILED 0 w
      | Some playerName1 \<Rightarrow> case normalize_player_name playerName2 of
        None \<Rightarrow> send_party_result x PARTY_OP_SWAP playerName1 ERR_GROUP_SWAP_FAILED 0 w
      | Some playerName2 \<Rightarrow> case get_group w x of None \<Rightarrow> w
      | Some p \<Rightarrow> with_group p (\<lambda>g w.
          if \<not> is_raid_group g then w
          else if \<not> is_leader x g \<and> \<not> is_assistant x g then w
          else case (swap_guid e w g playerName1, swap_guid e w g playerName2) of
              (Some guid1, Some guid2) \<Rightarrow>
                if is_empty guid1 \<or> is_empty guid2 then send_party_result x PARTY_OP_SWAP playerName1 ERR_GROUP_SWAP_FAILED 0 w
                else
                  let groupId1 = get_member_group guid1 g; groupId2 = get_member_group guid2 g
                  in if unat groupId1 = MAX_RAID_SUBGROUPS + 1 \<or> unat groupId2 = MAX_RAID_SUBGROUPS + 1 then w
                     else if groupId1 = groupId2 then w
                     else change_members_group e p guid2 groupId1 (change_members_group e p guid1 groupId2 w)
            | _ \<Rightarrow> glog GBadPointer w) w)"

definition handle_group_swap_sub_group :: "group_env \<Rightarrow> guid \<Rightarrow> byte_buffer \<Rightarrow> group_world \<Rightarrow> bb_error + group_world" where
  "handle_group_swap_sub_group e x packet w =
     res_bind (bb_get_string packet) (\<lambda>(playerName1, packet).
     res_bind (bb_get_string packet) (\<lambda>(playerName2, _). Inr (group_swap_sub_group e x playerName1 playerName2 w)))"

end
