(* ===== verification/GroupNeutral.thy ===== *)
theory GroupNeutral
  imports GroupHandlers
begin

text \<open>
  Most of what the operations on groups do leaves membership alone: packets, statements, loot,
  rolls, difficulties. \<open>core\<close> is the part of the state membership depends on; an operation is
  \<open>neutral\<close> when it keeps the core and follows no bad pointer or index. The rules of
  \<open>neutral_intros\<close> are put together along the structure of a definition.
\<close>

section \<open>The core\<close>

definition gcore :: "group_data \<Rightarrow> group_data" where
  "gcore g = g\<lparr>g_counter := 0, g_rolls := [], g_icons := [], g_looter := 0, g_master := 0, g_threshold := 0,
     g_loot_method := 0, g_dungeon := 0, g_raid := 0, g_max_enchanting := 0, g_lfg_flags := 0, g_diff_time := 0, g_diff_type := 0\<rparr>"

definition pcore :: "group_player \<Rightarrow> group_player" where
  "pcore pl = pl\<lparr>gp_leader_flag := False, gp_dungeon := 0, gp_raid := 0, gp_enchanting := 0, gp_pass := False\<rparr>"

lemma gcore_fields [simp]:
  "g_slots (gcore g) = g_slots g" "g_refs (gcore g) = g_refs g" "g_invitees (gcore g) = g_invitees g"
  "g_leader (gcore g) = g_leader g" "g_type (gcore g) = g_type g" "g_bf (gcore g) = g_bf g" "g_bg (gcore g) = g_bg g"
  "g_counts (gcore g) = g_counts g" "g_guid (gcore g) = g_guid g"
  by (simp_all add: gcore_def)

lemma pcore_fields [simp]:
  "gp_name (pcore pl) = gp_name pl" "gp_ref (pcore pl) = gp_ref pl" "gp_original (pcore pl) = gp_original pl"
  "gp_invite (pcore pl) = gp_invite pl"
  by (simp_all add: pcore_def)

lemma gcore_eqD:
  assumes "gcore g = gcore g'"
  shows "g_slots g = g_slots g'" "g_refs g = g_refs g'" "g_invitees g = g_invitees g'" "g_leader g = g_leader g'"
    "g_type g = g_type g'" "g_bf g = g_bf g'" "g_bg g = g_bg g'" "g_counts g = g_counts g'" "g_guid g = g_guid g'"
  using assms by (metis gcore_fields)+

lemma pcore_eqD:
  assumes "pcore a = pcore b"
  shows "gp_name a = gp_name b" "gp_ref a = gp_ref b" "gp_original a = gp_original b" "gp_invite a = gp_invite b"
  using assms by (metis pcore_fields)+

record group_core =
  gc_players :: "guid \<Rightarrow> group_player option"
  gc_groups :: "nat \<Rightarrow> group_data option"
  gc_next :: nat
  gc_store :: "(u32 \<times> nat) list"
  gc_next_id :: u32
  gc_ids :: "bool list"
  gc_cache :: char_cache

definition core :: "group_world \<Rightarrow> group_core" where
  "core w = \<lparr>gc_players = (\<lambda>x. map_option pcore (gw_players w x)), gc_groups = (\<lambda>p. map_option gcore (gw_groups w p)),
     gc_next = gw_next w, gc_store = gw_store w, gc_next_id = gw_next_id w, gc_ids = gw_ids w, gc_cache = gw_cache w\<rparr>"

lemma core_eqI:
  assumes "\<And>x. map_option pcore (gw_players w' x) = map_option pcore (gw_players w x)"
    "\<And>p. map_option gcore (gw_groups w' p) = map_option gcore (gw_groups w p)"
    "gw_next w' = gw_next w" "gw_store w' = gw_store w" "gw_next_id w' = gw_next_id w" "gw_ids w' = gw_ids w"
    "gw_cache w' = gw_cache w"
  shows "core w' = core w"
  using assms by (simp add: core_def)

lemma core_eqD:
  assumes "core w' = core w"
  shows "map_option pcore (gw_players w' x) = map_option pcore (gw_players w x)"
    "map_option gcore (gw_groups w' p) = map_option gcore (gw_groups w p)"
    "gw_next w' = gw_next w" "gw_store w' = gw_store w" "gw_next_id w' = gw_next_id w" "gw_ids w' = gw_ids w"
    "gw_cache w' = gw_cache w"
proof -
  have "gc_players (core w') x = gc_players (core w) x" "gc_groups (core w') p = gc_groups (core w) p"
    "gc_next (core w') = gc_next (core w)" "gc_store (core w') = gc_store (core w)"
    "gc_next_id (core w') = gc_next_id (core w)" "gc_ids (core w') = gc_ids (core w)" "gc_cache (core w') = gc_cache (core w)"
    using assms by simp_all
  then show "map_option pcore (gw_players w' x) = map_option pcore (gw_players w x)"
    "map_option gcore (gw_groups w' p) = map_option gcore (gw_groups w p)"
    "gw_next w' = gw_next w" "gw_store w' = gw_store w" "gw_next_id w' = gw_next_id w" "gw_ids w' = gw_ids w"
    "gw_cache w' = gw_cache w"
    by (simp_all add: core_def)
qed

section \<open>Safety\<close>

definition bad_effect :: "group_effect \<Rightarrow> bool" where
  "bad_effect ef \<longleftrightarrow> ef = GBadPointer \<or> ef = GBadIndex \<or> ef = GAssertFailed"

lemma bad_effect_simps [simp]:
  "bad_effect GBadPointer" "bad_effect GBadIndex" "bad_effect GAssertFailed"
  "\<not> bad_effect (GDb s)" "\<not> bad_effect (GSend x pk)" "\<not> bad_effect (GResetInstances x m)" "\<not> bad_effect (GCopyBinds x y)"
  "\<not> bad_effect (GDeleteInstanceData i)" "\<not> bad_effect (GInstanceInvalid x)" "\<not> bad_effect (GLfgBoot x y z r)"
  "\<not> bad_effect (GLfgLeave x)" "\<not> bad_effect (GLfgSetupMember x y)" "\<not> bad_effect (GLfgLoad x)"
  "\<not> bad_effect (GOnInvite p x)" "\<not> bad_effect (GOnAddMember p x)" "\<not> bad_effect (GOnRemoveMember p x m y r)"
  "\<not> bad_effect (GOnChangeLeader p x y)" "\<not> bad_effect (GOnDisband p)" "\<not> bad_effect (GOnCreate p x)"
  "\<not> bad_effect (GAchievement x m k)" "\<not> bad_effect (GItemStored x i m)" "\<not> bad_effect (GEquipError x m i)"
  "\<not> bad_effect (GDisenchant x i)" "\<not> bad_effect (GItemRemoved p m)" "\<not> bad_effect (GChestEmpty p)"
  "\<not> bad_effect (GLootTimer p i)" "\<not> bad_effect GServerStop"
  by (simp_all add: bad_effect_def)

definition clean :: "group_world \<Rightarrow> bool" where
  "clean w \<longleftrightarrow> (\<forall>ef \<in> set (gw_log w). \<not> bad_effect ef)"

text \<open>A roll whose loot still exists is for a slot of that loot.\<close>

definition roll_valid :: "(nat \<Rightarrow> loot option) \<Rightarrow> roll \<Rightarrow> bool" where
  "roll_valid ls r \<longleftrightarrow> (\<forall>l. rl_loot r = Some l \<longrightarrow> (\<exists>lt. ls l = Some lt \<and> loot_slot lt (rl_slot r) \<noteq> None))"

definition rolls_valid :: "group_world \<Rightarrow> bool" where
  "rolls_valid w \<longleftrightarrow> (\<forall>p g. gw_groups w p = Some g \<longrightarrow> (\<forall>r \<in> set (g_rolls g). roll_valid (gw_loots w) r))"

definition safe :: "group_world \<Rightarrow> bool" where "safe w \<longleftrightarrow> clean w \<and> rolls_valid w"

definition neutral :: "group_world \<Rightarrow> group_world \<Rightarrow> bool" where
  "neutral w w' \<longleftrightarrow> core w' = core w \<and> (safe w \<longrightarrow> safe w')"

named_theorems neutral_intros \<open>operations that keep the core\<close>

lemma neutral_refl [neutral_intros, simp]: "neutral w w"
  by (simp add: neutral_def)

lemma neutral_trans: "neutral w w1 \<Longrightarrow> neutral w1 w2 \<Longrightarrow> neutral w w2"
  by (auto simp: neutral_def)

lemma neutral_core: "neutral w w' \<Longrightarrow> core w' = core w"
  by (simp add: neutral_def)

definition alive :: "group_world \<Rightarrow> nat \<Rightarrow> bool" where
  "alive w p \<longleftrightarrow> gw_groups w p \<noteq> None"

lemma alive_core: "core w' = core w \<Longrightarrow> alive w' p \<longleftrightarrow> alive w p"
  using core_eqD(2) [of w' w p] by (cases "gw_groups w p") (auto simp: alive_def)

lemmas alive_coreI = alive_core [THEN iffD2]

lemma alive_upd [simp]:
  "alive (upd_group q f w) p = alive w p" "alive (upd_player x h w) p = alive w p" "alive (glog ef w) p = alive w p"
  by (auto simp: alive_def upd_group_def upd_player_def glog_def)

lemma connected_core: "core w' = core w \<Longrightarrow> grp_connected w' x \<longleftrightarrow> grp_connected w x"
  using core_eqD(1) [of w' w x] by (cases "gw_players w x") (auto simp: grp_connected_def)

lemma glog_fields [simp]:
  "gw_players (glog ef w) = gw_players w" "gw_groups (glog ef w) = gw_groups w" "gw_next (glog ef w) = gw_next w"
  "gw_store (glog ef w) = gw_store w" "gw_next_id (glog ef w) = gw_next_id w" "gw_ids (glog ef w) = gw_ids w"
  "gw_cache (glog ef w) = gw_cache w" "gw_loots (glog ef w) = gw_loots w" "gw_draws (glog ef w) = gw_draws w"
  "gw_item_gen (glog ef w) = gw_item_gen w" "gw_log (glog ef w) = gw_log w @ [ef]"
  by (simp_all add: glog_def)

lemma upd_player_fields [simp]:
  "gw_players (upd_player x f w) = (gw_players w)(x := map_option f (gw_players w x))"
  "gw_groups (upd_player x f w) = gw_groups w" "gw_next (upd_player x f w) = gw_next w"
  "gw_store (upd_player x f w) = gw_store w" "gw_next_id (upd_player x f w) = gw_next_id w" "gw_ids (upd_player x f w) = gw_ids w"
  "gw_cache (upd_player x f w) = gw_cache w" "gw_loots (upd_player x f w) = gw_loots w"
  "gw_draws (upd_player x f w) = gw_draws w" "gw_item_gen (upd_player x f w) = gw_item_gen w" "gw_log (upd_player x f w) = gw_log w"
  by (simp_all add: upd_player_def)

lemma upd_group_fields [simp]:
  "gw_groups (upd_group p f w) = (gw_groups w)(p := map_option f (gw_groups w p))"
  "gw_players (upd_group p f w) = gw_players w" "gw_next (upd_group p f w) = gw_next w"
  "gw_store (upd_group p f w) = gw_store w" "gw_next_id (upd_group p f w) = gw_next_id w" "gw_ids (upd_group p f w) = gw_ids w"
  "gw_cache (upd_group p f w) = gw_cache w" "gw_loots (upd_group p f w) = gw_loots w"
  "gw_draws (upd_group p f w) = gw_draws w" "gw_item_gen (upd_group p f w) = gw_item_gen w" "gw_log (upd_group p f w) = gw_log w"
  by (simp_all add: upd_group_def)

lemma safe_glog: "\<not> bad_effect ef \<Longrightarrow> safe w \<Longrightarrow> safe (glog ef w)"
  by (auto simp: safe_def clean_def rolls_valid_def)

lemma safe_upd_player: "safe w \<Longrightarrow> safe (upd_player x f w)"
  by (auto simp: safe_def clean_def rolls_valid_def)

lemma safe_upd_group: "safe w \<Longrightarrow> (\<And>g. g_rolls (f g) = g_rolls g) \<Longrightarrow> safe (upd_group p f w)"
  by (auto simp: safe_def clean_def rolls_valid_def)

lemma neutral_glog [neutral_intros]: "\<not> bad_effect ef \<Longrightarrow> neutral w (glog ef w)"
  by (auto simp: neutral_def safe_glog intro!: core_eqI)

lemma neutral_db [neutral_intros]: "neutral w (db s w)"
  unfolding db_def by (rule neutral_glog) simp

lemma neutral_send_to [neutral_intros]: "neutral w (send_to x pk w)"
  unfolding send_to_def by (rule neutral_glog) simp

lemma neutral_upd_player:
  assumes "\<And>pl. pcore (f pl) = pcore pl"
  shows "neutral w (upd_player x f w)"
proof -
  have "map_option pcore (map_option f z) = map_option pcore z" for z
    using assms by (cases z) simp_all
  then show ?thesis by (auto simp: neutral_def safe_upd_player intro!: core_eqI)
qed

lemma neutral_upd_group:
  assumes "\<And>g. gcore (f g) = gcore g" "\<And>g. g_rolls (f g) = g_rolls g"
  shows "neutral w (upd_group p f w)"
proof -
  have "map_option gcore (map_option f z) = map_option gcore z" for z
    using assms(1) by (cases z) simp_all
  with assms(2) show ?thesis by (auto simp: neutral_def safe_upd_group intro!: core_eqI)
qed

lemma neutral_with_group:
  assumes "alive w p" "\<And>g. gw_groups w p = Some g \<Longrightarrow> neutral w (f g w)"
  shows "neutral w (with_group p f w)"
  using assms by (auto simp: with_group_def alive_def)

lemma neutral_fold:
  assumes "\<And>x v. x \<in> set xs \<Longrightarrow> core v = core w \<Longrightarrow> neutral v (f x v)"
  shows "neutral w (fold f xs w)"
  using assms
proof (induction xs arbitrary: w)
  case (Cons x xs)
  have 1: "neutral w (f x w)" by (rule Cons.prems) simp_all
  then have "core (f x w) = core w" by (rule neutral_core)
  then have "neutral (f x w) (fold f xs (f x w))"
    by (intro Cons.IH) (auto intro: Cons.prems)
  with 1 show ?case by (auto intro: neutral_trans)
qed simp


section \<open>Packets and settings\<close>

lemma neutral_send_update_to_player [neutral_intros]:
  assumes "alive w p"
  shows "neutral w (send_update_to_player e p x slot w)"
  unfolding send_update_to_player_def
  by (rule neutral_with_group [OF assms])
    (auto split: option.splits intro!: neutral_trans [OF neutral_upd_group neutral_send_to] simp: gcore_def)

lemma neutral_send_update [neutral_intros]:
  assumes "alive w p"
  shows "neutral w (send_update e p w)"
  unfolding send_update_def
  using assms by (intro neutral_with_group neutral_fold) (blast intro: neutral_send_update_to_player alive_coreI)+

lemma neutral_broadcast_packet [neutral_intros]:
  assumes "alive w p" "\<And>g x b. gw_groups w p = Some g \<Longrightarrow> (x, b) \<in> set (g_refs g) \<Longrightarrow> grp_connected w x"
  shows "neutral w (broadcast_packet pk ign grp ignore p w)"
  unfolding broadcast_packet_def
proof (rule neutral_with_group [OF assms(1)], rule neutral_fold)
  fix g xb v
  assume "gw_groups w p = Some g" "xb \<in> set (g_refs g)" "core v = core w"
  moreover obtain x b where "xb = (x, b)" by (cases xb)
  ultimately have "grp_connected v x" using assms(2) connected_core by metis
  then show "neutral v ((case xb of (x, orig) \<Rightarrow> \<lambda>w. case gw_players w x of None \<Rightarrow> glog GBadPointer w
       | Some pl \<Rightarrow>
           if \<not> is_empty ignore \<and> x = ignore \<or> ign \<and> ref_target (gp_ref pl) \<noteq> Some p then w
           else if grp = None \<or> grp = Some (ref_subgroup (get_ref orig pl)) then send_to x pk w else w) v)"
    unfolding \<open>xb = (x, b)\<close> by (auto simp: grp_connected_def intro: neutral_send_to)
qed

lemma neutral_broadcast_ready_check [neutral_intros]:
  assumes "alive w p"
  shows "neutral w (broadcast_ready_check pk p w)"
  unfolding broadcast_ready_check_def
  by (rule neutral_with_group [OF assms], rule neutral_fold) (auto intro: neutral_send_to)

lemma neutral_offline_ready_check [neutral_intros]:
  assumes "alive w p"
  shows "neutral w (offline_ready_check p w)"
  unfolding offline_ready_check_def
proof (rule neutral_with_group [OF assms], rule neutral_fold)
  fix g m v assume "core v = core w"
  then have "alive v p" using assms by (rule alive_coreI)
  then show "neutral v ((if grp_connected v (ms_guid m) then v
    else broadcast_ready_check (WorldPacket MSG_RAID_READY_CHECK_CONFIRM [FU64 (ms_guid m), FU8 0]) p v))"
    by (simp add: neutral_broadcast_ready_check)
qed

lemma neutral_update_player_out_of_range [neutral_intros]:
  assumes "alive w p"
  shows "neutral w (update_player_out_of_range e p x w)"
  unfolding update_player_out_of_range_def
  using assms by (auto intro!: neutral_with_group neutral_fold intro: neutral_send_to)

lemma neutral_send_difficulties [neutral_intros]:
  "neutral w (send_dungeon_difficulty x w)" "neutral w (send_raid_difficulty x w)"
  by (auto simp: send_dungeon_difficulty_def send_raid_difficulty_def split: option.split intro: neutral_send_to)

lemma neutral_take_over_difficulties [neutral_intros]:
  assumes "alive w p"
  shows "neutral w (take_over_difficulties p x w)"
proof -
  have d: "neutral v (send_dungeon_difficulty x (upd_player x (\<lambda>pl. pl\<lparr>gp_dungeon := k\<rparr>) v))"
    "neutral v (send_raid_difficulty x (upd_player x (\<lambda>pl. pl\<lparr>gp_raid := k\<rparr>) v))" for k v
    by (rule neutral_trans [OF neutral_upd_player neutral_send_difficulties(1)]; simp add: pcore_def)
      (rule neutral_trans [OF neutral_upd_player neutral_send_difficulties(2)]; simp add: pcore_def)
  show ?thesis
    unfolding take_over_difficulties_def
    by (rule neutral_with_group [OF assms]) (auto simp: Let_def split: option.split intro: d neutral_trans [OF d(1) d(2)])
qed

lemma neutral_greet_member [neutral_intros]:
  assumes "alive w p"
  shows "neutral w (greet_member e p x w)"
proof -
  have *: "alive v p" if "neutral w v" for v
    using neutral_core [OF that] assms by (rule alive_coreI)
  have hook: "neutral w (glog (GOnAddMember p x) w)" by (rule neutral_glog) simp
  have reset: "neutral v (glog (GResetInstances x m) v)" for v m by (rule neutral_glog) simp
  note r = neutral_trans [OF hook reset]
  show ?thesis
    unfolding greet_member_def
    by (rule neutral_with_group [OF assms])
      (auto simp: Let_def intro!: neutral_trans [OF r neutral_trans [OF neutral_take_over_difficulties neutral_update_player_out_of_range]]
        neutral_trans [OF r neutral_update_player_out_of_range] neutral_trans [OF hook neutral_update_player_out_of_range] * r hook
        neutral_trans [OF r neutral_take_over_difficulties])
qed

lemma neutral_note_enchanting [neutral_intros]: "neutral w (note_enchanting p x w)"
  unfolding note_enchanting_def by (auto split: option.split intro!: neutral_upd_group simp: gcore_def)

lemma neutral_homebind [neutral_intros]: "neutral w (homebind_if_instance e x w)"
  by (auto simp: homebind_if_instance_def intro: neutral_glog)

lemma neutral_reset_max_enchanting_level [neutral_intros]: "neutral w (reset_max_enchanting_level e p w)"
  unfolding reset_max_enchanting_level_def by (intro neutral_upd_group) (simp_all add: gcore_def)

lemma neutral_send_party_result [neutral_intros]: "neutral w (send_party_result x op name res val w)"
  by (simp add: send_party_result_def neutral_send_to)

lemma neutral_send_target_icon_list [neutral_intros]:
  assumes "alive w p"
  shows "neutral w (send_target_icon_list p x w)"
  unfolding send_target_icon_list_def by (rule neutral_with_group [OF assms]) (rule neutral_send_to)

lemma neutral_put_target_icon:
  assumes "alive w p" "\<And>g y b. gw_groups w p = Some g \<Longrightarrow> (y, b) \<in> set (g_refs g) \<Longrightarrow> grp_connected w y"
  shows "neutral w (put_target_icon i who target p w)"
  unfolding put_target_icon_def
  by (rule neutral_trans [OF neutral_upd_group neutral_broadcast_packet])
    (use assms in \<open>auto simp: gcore_def grp_connected_def\<close>)

end
