(* ===== verification/GroupRollSafety.thy ===== *)
theory GroupRollSafety
  imports GroupNeutral
begin

text \<open>
  Counting rolls changes loot and sends packets, but touches no player and no group, and it
  finds the slot of every valid roll.
\<close>

definition loot_step :: "group_world \<Rightarrow> group_world \<Rightarrow> bool" where
  "loot_step w w' \<longleftrightarrow> gw_players w' = gw_players w \<and> gw_groups w' = gw_groups w \<and> gw_next w' = gw_next w
     \<and> gw_store w' = gw_store w \<and> gw_next_id w' = gw_next_id w \<and> gw_ids w' = gw_ids w \<and> gw_cache w' = gw_cache w
     \<and> (\<forall>r. roll_valid (gw_loots w) r \<longrightarrow> roll_valid (gw_loots w') r) \<and> (clean w \<longrightarrow> clean w')"

lemma loot_step_refl [simp]: "loot_step w w"
  by (simp add: loot_step_def)

lemma loot_step_trans: "loot_step w w1 \<Longrightarrow> loot_step w1 w2 \<Longrightarrow> loot_step w w2"
  by (auto simp: loot_step_def)

lemma loot_step_glog: "\<not> bad_effect ef \<Longrightarrow> loot_step w (glog ef w)"
  by (auto simp: loot_step_def clean_def)

lemma loot_step_draws: "loot_step w (w\<lparr>gw_draws := n\<rparr>)"
  by (simp add: loot_step_def clean_def)

lemma loot_step_gen: "loot_step w (w\<lparr>gw_item_gen := n\<rparr>)"
  by (simp add: loot_step_def clean_def)

lemma loot_step_valid: "loot_step w w' \<Longrightarrow> roll_valid (gw_loots w) r \<Longrightarrow> roll_valid (gw_loots w') r"
  by (simp add: loot_step_def)

lemma loot_step_fold:
  assumes "\<And>x v. x \<in> set xs \<Longrightarrow> loot_step w v \<Longrightarrow> loot_step v (f x v)"
  shows "loot_step w (fold f xs w)"
  using assms
proof (induction xs arbitrary: w)
  case (Cons x xs)
  have 1: "loot_step w (f x w)" by (rule Cons.prems) simp_all
  then have "loot_step (f x w) (fold f xs (f x w))"
    by (intro Cons.IH) (auto intro: Cons.prems loot_step_trans)
  with 1 show ?case by (auto intro: loot_step_trans)
qed simp

lemma loot_step_send_to: "loot_step w (send_to x pk w)"
  by (simp add: send_to_def loot_step_glog)

lemma loot_step_voters: "loot_step w (send_to_voters P r pk w)"
  unfolding send_to_voters_def by (rule loot_step_fold) (auto intro: loot_step_send_to)

lemma loot_step_packets:
  "loot_step w (send_loot_roll a b c d f r w)" "loot_step w (send_loot_roll_won a b c d r w)"
  "loot_step w (send_loot_all_passed r w)" "loot_step w (send_loot_start_roll k i r w)"
  by (simp_all add: send_loot_roll_def send_loot_roll_won_def send_loot_all_passed_def send_loot_start_roll_def loot_step_voters)

lemma loot_slot_upd: "loot_slot (upd_loot_slot s f lt) s' \<noteq> None \<longleftrightarrow> loot_slot lt s' \<noteq> None"
  by (simp add: loot_slot_def upd_loot_slot_def Let_def)

lemma roll_valid_upd:
  assumes "\<And>lt s. loot_slot (f lt) s \<noteq> None \<longleftrightarrow> loot_slot lt s \<noteq> None"
  shows "roll_valid (gw_loots (upd_loot l f w)) r \<longleftrightarrow> roll_valid (gw_loots w) r"
proof (cases "rl_loot r = Some l")
  case True
  show ?thesis
  proof (cases "gw_loots w l")
    case (Some lt)
    with True assms [of lt "rl_slot r"] show ?thesis by (simp add: roll_valid_def upd_loot_def)
  qed (simp add: True roll_valid_def upd_loot_def)
next
  case False
  then show ?thesis by (auto simp: roll_valid_def upd_loot_def)
qed

lemma loot_step_upd_loot:
  assumes "\<And>lt s. loot_slot (f lt) s \<noteq> None \<longleftrightarrow> loot_slot lt s \<noteq> None"
  shows "loot_step w (upd_loot l f w)"
  using roll_valid_upd [OF assms, of l w] by (simp add: loot_step_def upd_loot_def clean_def)

lemma loot_step_upd_slot: "loot_step w (upd_loot l (upd_loot_slot s f) w)"
  by (rule loot_step_upd_loot) (rule loot_slot_upd)

lemma loot_slot_unlooted: "loot_slot (lt\<lparr>lt_unlooted := k\<rparr>) s = loot_slot lt s"
  by (simp add: loot_slot_def Let_def)

lemma loot_step_upd_slot_unlooted:
  "loot_step w (upd_loot l (\<lambda>lt. (upd_loot_slot s f lt)\<lparr>lt_unlooted := lt_unlooted lt - 1\<rparr>) w)"
  by (rule loot_step_upd_loot) (simp only: loot_slot_unlooted loot_slot_upd)

lemma loot_slot_there:
  assumes "roll_valid (gw_loots w) r" "rl_loot r = Some l"
  obtains item where "Option.bind (gw_loots w l) (\<lambda>lt. loot_slot lt (rl_slot r)) = Some item"
  using assms by (auto simp: roll_valid_def)

lemma loot_step_award_item:
  assumes "roll_valid (gw_loots w) r" "rl_loot r = Some l"
  shows "loot_step w (award_item e l r x w)"
proof -
  obtain item where i: "Option.bind (gw_loots w l) (\<lambda>lt. loot_slot lt (rl_slot r)) = Some item"
    using loot_slot_there [OF assms] .
  show ?thesis
    unfolding award_item_def i
    by (auto simp: Let_def intro!: loot_step_trans [OF loot_step_trans [OF loot_step_upd_slot_unlooted loot_step_glog] loot_step_glog]
      loot_step_trans [OF loot_step_upd_slot loot_step_glog])
qed

lemma loot_step_award_disenchant:
  assumes "roll_valid (gw_loots w) r" "rl_loot r = Some l"
  shows "loot_step w (award_disenchant l r x w)"
proof -
  obtain item where i: "Option.bind (gw_loots w l) (\<lambda>lt. loot_slot lt (rl_slot r)) = Some item"
    using loot_slot_there [OF assms] .
  show ?thesis
    unfolding award_disenchant_def i
    by (auto intro!: loot_step_trans [OF loot_step_trans [OF loot_step_upd_slot_unlooted loot_step_glog] loot_step_glog])
qed

lemma loot_step_unblock:
  assumes "roll_valid (gw_loots w) r" "rl_loot r = Some l"
  shows "loot_step w (unblock_item l r w)"
proof -
  obtain item where i: "Option.bind (gw_loots w l) (\<lambda>lt. loot_slot lt (rl_slot r)) = Some item"
    using loot_slot_there [OF assms] .
  show ?thesis unfolding unblock_item_def i by (simp add: loot_step_upd_slot)
qed

lemma draw_fold_step:
  assumes "fold (draw e al P r) xs (a, b, c, d, w) = (a', b', c', d', w')"
  shows "loot_step w w'"
  using assms
proof (induction xs arbitrary: a b c d w)
  case (Cons xv xs)
  obtain a1 b1 c1 d1 w1 where d: "draw e al P r xv (a, b, c, d, w) = (a1, b1, c1, d1, w1)" by (metis prod_cases5)
  then have "loot_step w w1"
    by (auto simp: draw_def Let_def split: prod.splits if_splits intro!: loot_step_trans [OF loot_step_draws loot_step_packets(1)])
  moreover have "loot_step w1 w'" using Cons.prems d by (intro Cons.IH) simp
  ultimately show ?case by (rule loot_step_trans)
qed simp

lemma draw_all_step: "draw_all e al P r w = (a', b', c', d', w') \<Longrightarrow> loot_step w w'"
  unfolding draw_all_def by (rule draw_fold_step)

lemma roll_valid_cong: "rl_loot r' = rl_loot r \<Longrightarrow> rl_slot r' = rl_slot r \<Longrightarrow> roll_valid ls r' \<longleftrightarrow> roll_valid ls r"
  by (simp add: roll_valid_def)

definition same_roll :: "roll \<Rightarrow> roll \<Rightarrow> bool" where
  "same_roll r r' \<longleftrightarrow> rl_loot r' = rl_loot r \<and> rl_slot r' = rl_slot r \<and> rl_item_guid r' = rl_item_guid r"

lemma same_roll_valid: "same_roll r r' \<Longrightarrow> roll_valid ls r' \<longleftrightarrow> roll_valid ls r"
  by (simp add: same_roll_def roll_valid_def)

lemma count_needs_step:
  assumes "count_needs e al l (r, w) = (r', w')" "roll_valid (gw_loots w) r" "rl_loot r = Some l"
  shows "loot_step w w'" "same_roll r r'"
proof -
  obtain a b c d v where da: "draw_all e al (\<lambda>v. v = NEED) r w = (a, b, c, d, v)" by (metis prod_cases5)
  note dv = draw_all_step [OF da]
  have v: "roll_valid (gw_loots (send_loot_roll_won guid_empty b a ROLL_NEED q v)) q" "rl_loot q = Some l"
    if "same_roll r q" for q
    using loot_step_valid [OF loot_step_trans [OF dv loot_step_packets(2)] assms(2)] that assms(3)
    by (simp_all add: same_roll_def roll_valid_def)
  let ?q = "r\<lparr>rl_need := rl_need r - of_nat d\<rparr>"
  let ?u = "send_loot_roll_won guid_empty b a ROLL_NEED ?q v"
  have q: "same_roll r ?q" by (simp add: same_roll_def)
  have u: "loot_step w ?u" by (rule loot_step_trans [OF dv loot_step_packets(2)])
  have h: "loot_step ?u (glog (GAchievement b ROLL_NEED a) ?u)" by (rule loot_step_glog) simp
  have aw: "loot_step w (award_item e l ?q b (glog (GAchievement b ROLL_NEED a) ?u))"
    using v [OF q] by (intro loot_step_trans [OF loot_step_trans [OF u h]] loot_step_award_item) simp_all
  show "loot_step w w'" "same_roll r r'"
    using assms(1) dv u aw by (auto simp: count_needs_def da Let_def same_roll_def split: if_splits)
qed

lemma count_greeds_step:
  assumes "count_greeds e al l (r, w) = (r', w')" "roll_valid (gw_loots w) r" "rl_loot r = Some l"
  shows "loot_step w w'" "same_roll r r'"
proof -
  obtain a b c d v where da: "draw_all e al (\<lambda>v. v = GREED \<or> v = DISENCHANT) r w = (a, b, c, d, v)" by (metis prod_cases5)
  note dv = draw_all_step [OF da]
  let ?q = "r\<lparr>rl_greed := rl_greed r - of_nat d\<rparr>"
  let ?u = "send_loot_roll_won guid_empty b a (vote_number c) ?q v"
  let ?h = "glog (GAchievement b ROLL_GREED a) ?u"
  have u: "loot_step w ?u" by (rule loot_step_trans [OF dv loot_step_packets(2)])
  have h: "loot_step w ?h" by (rule loot_step_trans [OF u loot_step_glog]) simp
  have q: "roll_valid (gw_loots ?h) ?q" "rl_loot ?q = Some l"
    using loot_step_valid [OF h assms(2)] assms(3) by (simp_all add: roll_valid_def)
  have aw: "loot_step w (award_item e l ?q b ?h)" "loot_step w (award_disenchant l ?q b ?h)"
    using loot_step_trans [OF h loot_step_award_item [OF q]] loot_step_trans [OF h loot_step_award_disenchant [OF q]] by blast+
  show "loot_step w w'" "same_roll r r'"
    using assms(1) dv u h aw by (auto simp: count_greeds_def da Let_def same_roll_def split: if_splits)
qed

lemma same_roll_trans: "same_roll a b \<Longrightarrow> same_roll b c \<Longrightarrow> same_roll a c"
  by (simp add: same_roll_def)

lemma count_the_roll_step:
  assumes "roll_valid (gw_loots w) r"
  shows "loot_step w (count_the_roll e al r w)"
proof (cases "rl_loot r")
  case (Some l)
  obtain r1 w1 where n: "count_needs e al l (r, w) = (r1, w1)" by fastforce
  note n1 = count_needs_step [OF n assms Some]
  have v1: "roll_valid (gw_loots w1) r1" "rl_loot r1 = Some l"
    using loot_step_valid [OF n1(1) assms] n1(2) Some by (simp_all add: same_roll_valid) (simp add: same_roll_def)
  obtain r2 w2 where g: "count_greeds e al l (r1, w1) = (r2, w2)" by fastforce
  note g1 = count_greeds_step [OF g v1]
  have s2: "loot_step w w2" by (rule loot_step_trans [OF n1(1) g1(1)])
  let ?w3 = "if rl_need r2 = 0 \<and> rl_greed r2 = 0 then unblock_item l r2 (send_loot_all_passed r2 w2) else w2"
  have "roll_valid (gw_loots (send_loot_all_passed r2 w2)) r2" "rl_loot r2 = Some l"
    using loot_step_valid [OF loot_step_trans [OF g1(1) loot_step_packets(3)] v1(1)] g1(2) v1(2)
    by (simp_all add: same_roll_valid) (simp add: same_roll_def)
  then have "loot_step w ?w3"
    using s2 by (auto intro: loot_step_trans [OF loot_step_trans [OF s2 loot_step_packets(3)] loot_step_unblock])
  moreover have "loot_step ?w3 (glog (GChestEmpty l) ?w3)" by (rule loot_step_glog) simp
  ultimately have "loot_step w ?w3 \<and> loot_step w (glog (GChestEmpty l) ?w3)" by (blast intro: loot_step_trans)
  moreover have "count_the_roll e al r w = (case gw_loots ?w3 l of
      Some lt \<Rightarrow> if is_looted lt \<and> lt_chest lt then glog (GChestEmpty l) ?w3 else ?w3 | None \<Rightarrow> ?w3)"
    by (simp add: count_the_roll_def Some n g Let_def)
  ultimately show ?thesis by (auto split: option.split)
qed (simp add: count_the_roll_def)

lemma cast_vote_step:
  assumes "cast_vote x ch (r, w) = (r', w')"
  shows "loot_step w w'" "same_roll r r'"
  using assms by (auto simp: cast_vote_def same_roll_def loot_step_packets split: if_splits)

abbreviation all_valid :: "group_world \<Rightarrow> roll list \<Rightarrow> bool" where
  "all_valid w rs \<equiv> \<forall>r \<in> set rs. roll_valid (gw_loots w) r"

lemma all_valid_step: "loot_step w w' \<Longrightarrow> all_valid w rs \<Longrightarrow> all_valid w' rs"
  by (simp add: loot_step_def)

lemma count_roll_vote_step:
  assumes "count_roll_vote e x g ch (rs, w) = (ended, rs', w')" "all_valid w rs"
  shows "loot_step w w'" "all_valid w' rs'"
proof -
  have "loot_step w w' \<and> all_valid w' rs'"
  proof (cases "get_roll g rs")
    case None
    then show ?thesis using assms by (simp add: count_roll_vote_def)
  next
    case (Some i)
    then have i: "i < length rs" by (auto simp: get_roll_def dest: find_upt_SomeD)
    obtain r1 w1 where c: "cast_vote x ch (rs ! i, w) = (r1, w1)" by fastforce
    note c1 = cast_vote_step [OF c]
    have v: "all_valid w1 rs" "roll_valid (gw_loots w1) r1"
      using all_valid_step [OF c1(1) assms(2)] c1(2) i by (simp_all add: same_roll_valid)
    note k = count_the_roll_step [OF v(2), of e None]
    have "loot_step w (count_the_roll e None r1 w1)" by (rule loot_step_trans [OF c1(1) k])
    moreover have "all_valid (count_the_roll e None r1 w1) (take i rs @ drop (Suc i) rs)"
      using all_valid_step [OF k v(1)] by (auto dest: in_set_takeD in_set_dropD)
    moreover have "all_valid w1 (rs[i := r1])"
      using v set_update_subset_insert [of rs i r1] by blast
    ultimately show ?thesis
      using assms c c1 by (auto simp: count_roll_vote_def Some Let_def split: if_splits)
  qed
  then show "loot_step w w'" "all_valid w' rs'" by simp_all
qed

lemma remove_votes_step:
  assumes "remove_votes e x i rs w = (rs', w')" "all_valid w rs"
  shows "loot_step w w' \<and> all_valid w' rs'"
  using assms
proof (induction e x i rs w rule: remove_votes.induct)
  case (1 e x i rs w)
  show ?case
  proof (cases "i \<ge> length rs")
    case True
    then show ?thesis using 1(3,4) by (simp add: remove_votes.simps [of e x i])
  next
    case i: False
    show ?thesis
    proof (cases "map_of (rl_votes (rs ! i)) x")
      case None
      then show ?thesis using 1(1) [OF i None] 1(3,4) i by (simp add: remove_votes.simps [of e x i])
    next
      case (Some v)
      let ?rs = "rs[i := drop_vote x v (rs ! i)]"
      obtain ended rs1 w1 where c: "count_roll_vote e x (rl_item_guid (rs ! i)) MAX_ROLL_TYPE (?rs, w) = (ended, rs1, w1)"
        by (metis prod_cases3)
      have "same_roll (rs ! i) (drop_vote x v (rs ! i))" by (simp add: same_roll_def drop_vote_def Let_def)
      then have "roll_valid (gw_loots w) (drop_vote x v (rs ! i))"
        using 1(4) i by (simp add: same_roll_valid)
      then have "all_valid w ?rs"
        using 1(4) set_update_subset_insert [of rs i "drop_vote x v (rs ! i)"] by blast
      note s = count_roll_vote_step [OF c this]
      have "remove_votes e x (if ended then 0 else Suc i) rs1 w1 = (rs', w')"
        using 1(3) i Some c by (simp add: remove_votes.simps [of e x i])
      then have "loot_step w1 w' \<and> all_valid w' rs'"
        using 1(2) [OF i Some c [symmetric] refl _ s(2)] by simp
      then show ?thesis using loot_step_trans [OF s(1)] by blast
    qed
  qed
qed

section \<open>Rolls are neutral\<close>

lemma neutral_new_rolls:
  assumes "loot_step w v" "safe w \<Longrightarrow> all_valid v rs"
  shows "neutral w (upd_group p (\<lambda>g. g\<lparr>g_rolls := rs\<rparr>) v)"
proof -
  have "map_option gcore (map_option (\<lambda>g. g\<lparr>g_rolls := rs\<rparr>) z) = map_option gcore z" for z
    by (cases z) (simp_all add: gcore_def)
  then have "core (upd_group p (\<lambda>g. g\<lparr>g_rolls := rs\<rparr>) v) = core w"
    using assms(1) by (intro core_eqI) (auto simp: loot_step_def)
  moreover have "safe (upd_group p (\<lambda>g. g\<lparr>g_rolls := rs\<rparr>) v)" if "safe w"
  proof -
    have "clean v" using that assms(1) by (simp add: safe_def loot_step_def)
    then have "clean (upd_group p (\<lambda>g. g\<lparr>g_rolls := rs\<rparr>) v)" by (simp add: clean_def)
    moreover have "rolls_valid (upd_group p (\<lambda>g. g\<lparr>g_rolls := rs\<rparr>) v)"
      using that assms unfolding safe_def rolls_valid_def loot_step_def by (auto split: if_splits)
    ultimately show ?thesis by (simp add: safe_def)
  qed
  ultimately show ?thesis by (simp add: neutral_def)
qed

lemma safe_rollsD: "safe w \<Longrightarrow> gw_groups w p = Some g \<Longrightarrow> all_valid w (g_rolls g)"
  by (simp add: safe_def rolls_valid_def)

lemma neutral_remove_member_votes [neutral_intros]:
  assumes "alive w p" "safe w"
  shows "neutral w (remove_member_votes e p x w)"
  unfolding remove_member_votes_def
proof (rule neutral_with_group [OF assms(1)])
  fix g assume g: "gw_groups w p = Some g"
  obtain rs v where r: "remove_votes e x 0 (g_rolls g) w = (rs, v)" by fastforce
  have "loot_step w v \<and> all_valid v rs"
    using r safe_rollsD [OF assms(2) g] by (rule remove_votes_step)
  then show "neutral w (case remove_votes e x 0 (g_rolls g) w of (rs, w) \<Rightarrow> upd_group p (\<lambda>g. g\<lparr>g_rolls := rs\<rparr>) w)"
    by (simp add: r neutral_new_rolls)
qed

lemma neutral_group_count_roll_vote [neutral_intros]:
  assumes "alive w p" "safe w"
  shows "neutral w (group_count_roll_vote e p x item ch w)"
  unfolding group_count_roll_vote_def
proof (rule neutral_with_group [OF assms(1)])
  fix g assume g: "gw_groups w p = Some g"
  obtain b rs v where r: "count_roll_vote e x item ch (g_rolls g, w) = (b, rs, v)" by (metis prod_cases3)
  note s = count_roll_vote_step [OF r safe_rollsD [OF assms(2) g]]
  show "neutral w (case count_roll_vote e x item ch (g_rolls g, w) of (_, rs, w) \<Rightarrow> upd_group p (\<lambda>grp. grp\<lparr>g_rolls := rs\<rparr>) w)"
    unfolding r prod.case using neutral_new_rolls [OF s(1), of rs] s(2) by blast
qed

end
