(* ===== verification/GroupInv.thy ===== *)
theory GroupInv
  imports GroupRollSafety
begin

text \<open>
  What holds of groups, players, the character cache and the group manager between requests,
  outside of battlegrounds and battlefields: the references of the players, the slots of the
  groups and the cache agree on who is in which group, the counters of a raid's subgroups are
  the numbers of members in them and no subgroup has more than five, the leader of a group is a
  member, invitations are known to both sides, and the manager finds every group by its number.
\<close>

section \<open>One group\<close>

abbreviation members :: "group_data \<Rightarrow> guid set" where
  "members g \<equiv> ms_guid ` set (g_slots g)"

definition sub_count :: "nat \<Rightarrow> member_slot list \<Rightarrow> nat" where
  "sub_count i ms = length (filter (\<lambda>m. unat (ms_group m) = i) ms)"

definition counts_ok :: "group_data \<Rightarrow> bool" where
  "counts_ok g \<longleftrightarrow> (case g_counts g of
     None \<Rightarrow> \<not> is_raid_group g \<and> (\<forall>m \<in> set (g_slots g). ms_group m = 0) \<and> length (g_slots g) \<le> MAXGROUPSIZE
   | Some cs \<Rightarrow> is_raid_group g \<and> length cs = MAX_RAID_SUBGROUPS \<and> (\<forall>m \<in> set (g_slots g). unat (ms_group m) < MAX_RAID_SUBGROUPS)
       \<and> (\<forall>i < MAX_RAID_SUBGROUPS. unat (cs ! i) = sub_count i (g_slots g) \<and> sub_count i (g_slots g) \<le> MAXGROUPSIZE))"

definition group_ok :: "group_data \<Rightarrow> bool" where
  "group_ok g \<longleftrightarrow> \<not> bg_or_bf g \<and> distinct (map ms_guid (g_slots g)) \<and> distinct (g_invitees g) \<and> distinct (g_refs g) \<and> counts_ok g"

lemma group_ok_cong:
  assumes "gcore g' = gcore g"
  shows "group_ok g' \<longleftrightarrow> group_ok g"
  unfolding group_ok_def counts_ok_def is_bg_group_def is_bf_group_def is_raid_group_def gcore_eqD [OF assms] ..

lemma slot_of_cong: "g_slots g' = g_slots g \<Longrightarrow> slot_of x g' = slot_of x g"
  by (simp add: slot_of_def)

lemma get_member_group_cong: "g_slots g' = g_slots g \<Longrightarrow> get_member_group x g' = get_member_group x g"
  unfolding get_member_group_def slot_of_def by simp

lemma slot_of_None_iff: "slot_of x g = None \<longleftrightarrow> x \<notin> members g"
  by (auto simp: slot_of_def find_None_iff)

lemma slot_of_SomeD: "slot_of x g = Some m \<Longrightarrow> m \<in> set (g_slots g) \<and> ms_guid m = x"
  by (auto simp: slot_of_def find_Some_iff)

lemma is_member_iff: "is_member x g \<longleftrightarrow> x \<in> members g"
  by (simp add: is_member_def slot_of_None_iff del: not_None_eq)

section \<open>The whole\<close>

text \<open>
  The players of \<open>G\<close> are being removed: their references are cut, their slots are still there.
\<close>

definition player_inv :: "guid set \<Rightarrow> group_world \<Rightarrow> guid \<Rightarrow> group_player \<Rightarrow> bool" where
  "player_inv G w x pl \<longleftrightarrow> ref_target (gp_original pl) = None \<and> has_character_cache_entry (gw_cache w) x
     \<and> (\<forall>p. ref_target (gp_ref pl) = Some p \<longrightarrow> x \<notin> G \<and>
          (\<exists>g. gw_groups w p = Some g \<and> x \<in> members g \<and> ref_subgroup (gp_ref pl) = get_member_group x g))
     \<and> (\<forall>p. gp_invite pl = Some p \<longrightarrow> ref_target (gp_ref pl) = None \<and> (\<exists>g. gw_groups w p = Some g \<and> x \<in> set (g_invitees g)))"

definition group_inv :: "guid set \<Rightarrow> group_world \<Rightarrow> nat \<Rightarrow> group_data \<Rightarrow> bool" where
  "group_inv G w p g \<longleftrightarrow> group_ok g \<and> p < gw_next w
     \<and> (\<forall>x b. (x, b) \<in> set (g_refs g) \<longleftrightarrow> \<not> b \<and> x \<in> members g - G \<and> gw_players w x \<noteq> None)
     \<and> (\<forall>x \<in> members g - G. has_character_cache_entry (gw_cache w) x \<and> get_character_group_guid_by_guid (gw_cache w) x = g_guid g
          \<and> (\<forall>pl. gw_players w x = Some pl \<longrightarrow> ref_target (gp_ref pl) = Some p))
     \<and> (\<forall>x \<in> set (g_invitees g). \<exists>pl. gw_players w x = Some pl \<and> gp_invite pl = Some p)"

text \<open>Nobody is in two groups.\<close>

definition one_group :: "group_world \<Rightarrow> bool" where
  "one_group w \<longleftrightarrow> (\<forall>p q g h x. gw_groups w p = Some g \<longrightarrow> gw_groups w q = Some h
     \<longrightarrow> x \<in> members g \<longrightarrow> x \<in> members h \<longrightarrow> p = q)"

definition id_used :: "group_world \<Rightarrow> u32 \<Rightarrow> bool" where
  "id_used w n \<longleftrightarrow> n < gw_next_id w \<or> (unat n < length (gw_ids w) \<and> gw_ids w ! unat n)"

text \<open>The groups of \<open>S\<close> have their number but are not in the manager's store yet.\<close>

definition store_inv :: "nat set \<Rightarrow> group_world \<Rightarrow> bool" where
  "store_inv S w \<longleftrightarrow> om_sorted (gw_store w) \<and> gw_next_id w \<noteq> 0
     \<and> (\<forall>n p. map_of (gw_store w) n = Some p \<longrightarrow> n \<noteq> 0 \<and> id_used w n
          \<and> (\<exists>g. gw_groups w p = Some g \<and> g_slots g \<noteq> [] \<and> g_guid g = guid_create_global HG_Group n))
     \<and> (\<forall>p g. gw_groups w p = Some g \<longrightarrow> p \<notin> S \<longrightarrow> (if g_slots g = [] then g_guid g = 0
          else \<exists>n. g_guid g = guid_create_global HG_Group n \<and> map_of (gw_store w) n = Some p))
     \<and> (\<forall>p \<in> S. \<exists>g n. gw_groups w p = Some g \<and> g_guid g = guid_create_global HG_Group n \<and> n \<noteq> 0
          \<and> id_used w n \<and> map_of (gw_store w) n = None)
     \<and> (gw_next_id w \<noteq> 0xFFFFFFFF \<longrightarrow> \<not> id_used w (gw_next_id w))"

text \<open>The groups of \<open>L\<close> may be without a leader: the old one has just left.\<close>

definition leaders_ok :: "nat set \<Rightarrow> group_world \<Rightarrow> bool" where
  "leaders_ok L w \<longleftrightarrow> (\<forall>p g. gw_groups w p = Some g \<longrightarrow> p \<notin> L \<longrightarrow> g_slots g \<noteq> [] \<longrightarrow> g_leader g \<in> members g)"

definition gw_inv :: "nat set \<Rightarrow> nat set \<Rightarrow> guid set \<Rightarrow> group_world \<Rightarrow> bool" where
  "gw_inv S L G w \<longleftrightarrow> (\<forall>x pl. gw_players w x = Some pl \<longrightarrow> player_inv G w x pl)
     \<and> (\<forall>p g. gw_groups w p = Some g \<longrightarrow> group_inv G w p g) \<and> one_group w \<and> store_inv S w \<and> leaders_ok L w
     \<and> cache_ok (gw_cache w) \<and> safe w"

lemma gw_invD:
  assumes "gw_inv S L G w"
  shows "gw_players w x = Some pl \<Longrightarrow> player_inv G w x pl" "gw_groups w p = Some g \<Longrightarrow> group_inv G w p g"
    "store_inv S w" "safe w" "leaders_ok L w" "one_group w" "cache_ok (gw_cache w)"
  using assms by (auto simp: gw_inv_def)

lemma store_invD:
  assumes "store_inv S w"
  shows "om_sorted (gw_store w)" "map_of (gw_store w) n = Some p \<Longrightarrow> n \<noteq> 0" "map_of (gw_store w) n = Some p \<Longrightarrow> id_used w n"
    "map_of (gw_store w) n = Some p \<Longrightarrow> \<exists>g. gw_groups w p = Some g \<and> g_slots g \<noteq> [] \<and> g_guid g = guid_create_global HG_Group n"
    "gw_groups w p = Some g \<Longrightarrow> p \<notin> S \<Longrightarrow> g_slots g = [] \<Longrightarrow> g_guid g = 0"
    "gw_groups w p = Some g \<Longrightarrow> p \<notin> S \<Longrightarrow> g_slots g \<noteq> [] \<Longrightarrow> \<exists>n. g_guid g = guid_create_global HG_Group n \<and> map_of (gw_store w) n = Some p"
    "p \<in> S \<Longrightarrow> \<exists>g n. gw_groups w p = Some g \<and> g_guid g = guid_create_global HG_Group n \<and> n \<noteq> 0 \<and> id_used w n \<and> map_of (gw_store w) n = None"
    "gw_next_id w \<noteq> 0" "gw_next_id w \<noteq> 0xFFFFFFFF \<Longrightarrow> \<not> id_used w (gw_next_id w)"
  using assms unfolding store_inv_def by (fast, blast, blast, blast, fastforce, fastforce, blast, blast, blast)

lemma group_invD:
  assumes "group_inv G w p g"
  shows "group_ok g" "p < gw_next w" "(x, b) \<in> set (g_refs g) \<longleftrightarrow> \<not> b \<and> x \<in> members g - G \<and> gw_players w x \<noteq> None"
    "x \<in> members g - G \<Longrightarrow> has_character_cache_entry (gw_cache w) x"
    "x \<in> members g - G \<Longrightarrow> get_character_group_guid_by_guid (gw_cache w) x = g_guid g"
    "x \<in> members g - G \<Longrightarrow> gw_players w x = Some pl \<Longrightarrow> ref_target (gp_ref pl) = Some p"
    "x \<in> set (g_invitees g) \<Longrightarrow> \<exists>pl. gw_players w x = Some pl \<and> gp_invite pl = Some p"
  using assms unfolding group_inv_def by blast+

lemma player_invD:
  assumes "player_inv G w x pl"
  shows "ref_target (gp_original pl) = None" "has_character_cache_entry (gw_cache w) x"
    "ref_target (gp_ref pl) = Some p \<Longrightarrow>
       \<exists>g. gw_groups w p = Some g \<and> x \<in> members g \<and> ref_subgroup (gp_ref pl) = get_member_group x g"
    "gp_invite pl = Some p \<Longrightarrow> ref_target (gp_ref pl) = None"
    "gp_invite pl = Some p \<Longrightarrow> \<exists>g. gw_groups w p = Some g \<and> x \<in> set (g_invitees g)"
    "ref_target (gp_ref pl) = Some p \<Longrightarrow> x \<notin> G"
  using assms unfolding player_inv_def by blast+

lemma one_groupD: "one_group w \<Longrightarrow> gw_groups w p = Some g \<Longrightarrow> gw_groups w q = Some h \<Longrightarrow> x \<in> members g \<Longrightarrow> x \<in> members h \<Longrightarrow> p = q"
  unfolding one_group_def by blast

lemma group_okD:
  assumes "group_ok g"
  shows "\<not> g_bg g" "\<not> g_bf g" "distinct (map ms_guid (g_slots g))" "distinct (g_invitees g)" "distinct (g_refs g)" "counts_ok g"
  using assms by (simp_all add: group_ok_def is_bg_group_def is_bf_group_def)

lemma core_playerD:
  assumes "core w' = core w" "gw_players w' x = Some pl'"
  obtains pl where "gw_players w x = Some pl" "gp_ref pl' = gp_ref pl" "gp_original pl' = gp_original pl" "gp_invite pl' = gp_invite pl"
    "gp_name pl' = gp_name pl"
proof (cases "gw_players w x")
  case None
  then show ?thesis using core_eqD(1) [OF assms(1), of x] assms(2) by simp
next
  case (Some pl)
  then have "pcore pl' = pcore pl" using core_eqD(1) [OF assms(1), of x] assms(2) by simp
  from that [OF Some] pcore_eqD [OF this] show ?thesis by simp
qed

lemma core_groupD:
  assumes "core w' = core w" "gw_groups w' p = Some g'"
  obtains g where "gw_groups w p = Some g" "gcore g' = gcore g"
  using core_eqD(2) [OF assms(1), of p] assms(2) by (cases "gw_groups w p") auto

lemma gw_inv_neutral:
  assumes inv: "gw_inv S L G w" and n: "neutral w w'"
  shows "gw_inv S L G w'"
proof -
  have c: "core w' = core w" and s: "safe w'" using n gw_invD(4) [OF inv] by (auto simp: neutral_def)
  note e = core_eqD(3-7) [OF c]
  have up: "\<exists>g'. gw_groups w' p = Some g' \<and> gcore g' = gcore g" if "gw_groups w p = Some g" for p g
    using core_groupD [OF c [symmetric] that] by metis
  have "player_inv G w' x pl'" if p': "gw_players w' x = Some pl'" for x pl'
  proof -
    obtain pl where pl: "gw_players w x = Some pl" "gp_ref pl' = gp_ref pl" "gp_original pl' = gp_original pl"
      "gp_invite pl' = gp_invite pl" "gp_name pl' = gp_name pl"
      by (rule core_playerD [OF c p'])
    have "\<exists>g'. gw_groups w' p = Some g' \<and> x \<in> members g' \<and> ref_subgroup (gp_ref pl) = get_member_group x g'"
      if "gw_groups w p = Some g" "x \<in> members g" "ref_subgroup (gp_ref pl) = get_member_group x g" for p g
      using up [OF that(1)] that(2,3) gcore_eqD(1) get_member_group_cong by metis
    moreover have "\<exists>g'. gw_groups w' p = Some g' \<and> x \<in> set (g_invitees g')"
      if "gw_groups w p = Some g" "x \<in> set (g_invitees g)" for p g
      using up [OF that(1)] that(2) gcore_eqD(3) by metis
    ultimately show ?thesis
      using gw_invD(1) [OF inv pl(1)] unfolding player_inv_def pl(2-4) e by blast
  qed
  moreover have "group_inv G w' p g'" if g': "gw_groups w' p = Some g'" for p g'
  proof -
    obtain g where g: "gw_groups w p = Some g" "gcore g' = gcore g" by (rule core_groupD [OF c g'])
    note ge = gcore_eqD [OF g(2)]
    have pl: "(gw_players w' x = None) = (gw_players w x = None)" for x
      using connected_core [OF c, of x] by (auto simp: grp_connected_def)
    have P: "(\<forall>pl. gw_players w' x = Some pl \<longrightarrow> ref_target (gp_ref pl) = Some p)
        \<longleftrightarrow> (\<forall>pl. gw_players w x = Some pl \<longrightarrow> ref_target (gp_ref pl) = Some p)" for x
      using core_playerD [OF c] core_playerD [OF c [symmetric]] by metis
    have Q: "(\<exists>pl. gw_players w' x = Some pl \<and> gp_invite pl = Some p) \<longleftrightarrow> (\<exists>pl. gw_players w x = Some pl \<and> gp_invite pl = Some p)" for x
      using core_playerD [OF c] core_playerD [OF c [symmetric]] by metis
    show ?thesis
      using gw_invD(2) [OF inv g(1)] unfolding group_inv_def group_ok_cong [OF g(2)] e ge pl P Q .
  qed
  moreover have "one_group w'"
    unfolding one_group_def
  proof (intro allI impI)
    fix p q g' h' x assume new: "gw_groups w' p = Some g'" "gw_groups w' q = Some h'" "x \<in> members g'" "x \<in> members h'"
    obtain g h where g: "gw_groups w p = Some g" "gcore g' = gcore g" and h: "gw_groups w q = Some h" "gcore h' = gcore h"
      using core_groupD [OF c new(1)] core_groupD [OF c new(2)] by metis
    show "p = q"
      using one_groupD [OF gw_invD(6) [OF inv] g(1) h(1)] new(3,4) unfolding gcore_eqD(1) [OF g(2)] gcore_eqD(1) [OF h(2)] .
  qed
  moreover have "store_inv S w'"
  proof -
    have id: "id_used w' n = id_used w n" for n by (simp add: id_used_def e)
    have gid: "g_slots g' = g_slots g" "g_guid g' = g_guid g" if "gcore g' = gcore g" for g g'
      using gcore_eqD [OF that] by simp_all
    have 1: "\<exists>g'. gw_groups w' p = Some g' \<and> g_slots g' \<noteq> [] \<and> g_guid g' = k"
      if "\<exists>g. gw_groups w p = Some g \<and> g_slots g \<noteq> [] \<and> g_guid g = k" for p k
      using that up gid by metis
    have 2: "if g_slots g' = [] then g_guid g' = 0 else \<exists>n. g_guid g' = guid_create_global HG_Group n \<and> map_of (gw_store w) n = Some p"
      if new: "gw_groups w' p = Some g'" "p \<notin> S" for p g'
    proof -
      obtain g where g: "gw_groups w p = Some g" "gcore g' = gcore g" by (rule core_groupD [OF c new(1)])
      with new(2) show ?thesis using gw_invD(3) [OF inv] unfolding store_inv_def gid [OF g(2)] by blast
    qed
    have 3: "\<exists>g' n. gw_groups w' p = Some g' \<and> g_guid g' = guid_create_global HG_Group n \<and> n \<noteq> 0 \<and> id_used w n \<and> map_of (gw_store w) n = None"
      if "p \<in> S" for p
    proof -
      obtain g n where g: "gw_groups w p = Some g" "g_guid g = guid_create_global HG_Group n" "n \<noteq> 0" "id_used w n"
        "map_of (gw_store w) n = None"
        using gw_invD(3) [OF inv] \<open>p \<in> S\<close> unfolding store_inv_def by blast
      obtain g' where "gw_groups w' p = Some g'" "gcore g' = gcore g" using up [OF g(1)] by blast
      with g gid show ?thesis by metis
    qed
    show ?thesis
      using gw_invD(3) [OF inv] 1 2 3 unfolding store_inv_def e id by blast
  qed
  moreover have "leaders_ok L w'"
    unfolding leaders_ok_def
  proof (intro allI impI)
    fix p g' assume new: "gw_groups w' p = Some g'" "p \<notin> L" "g_slots g' \<noteq> []"
    obtain g where g: "gw_groups w p = Some g" "gcore g' = gcore g" by (rule core_groupD [OF c new(1)])
    show "g_leader g' \<in> members g'"
      using gw_invD(5) [OF inv] g(1) new(2,3) unfolding leaders_ok_def gcore_eqD [OF g(2)] by blast
  qed
  moreover have "cache_ok (gw_cache w')" using gw_invD(7) [OF inv] by (simp add: e)
  ultimately show ?thesis using s by (simp add: gw_inv_def)
qed

section \<open>Consequences\<close>

lemma group_counter: "n \<noteq> 0 \<Longrightarrow> get_counter (guid_create_global HG_Group n) = n"
  by (simp add: guid_create_global_def get_counter_guid_make_global has_entry_high_def high_guid_defs)

section \<open>A step at some players and one group\<close>

text \<open>
  Most operations change some players, one group and the players' entries in the cache. What is
  left to show then is about these players, this group, and the others who point to it.
\<close>

lemma gw_inv_step:
  assumes inv: "gw_inv S L G w"
    and players: "\<And>y. y \<notin> X \<Longrightarrow> gw_players w' y = gw_players w y" and groups: "\<And>q. q \<noteq> p \<Longrightarrow> gw_groups w' q = gw_groups w q"
    and nxt: "gw_next w \<le> gw_next w'"
    and entries: "\<And>y. has_character_cache_entry (gw_cache w') y \<longleftrightarrow> has_character_cache_entry (gw_cache w) y"
    and cache: "\<And>y. y \<notin> X \<Longrightarrow> get_character_group_guid_by_guid (gw_cache w') y = get_character_group_guid_by_guid (gw_cache w) y"
    and gone: "\<And>q h y. q \<noteq> p \<Longrightarrow> gw_groups w q = Some h \<Longrightarrow> y \<in> members h \<Longrightarrow> y \<in> G' \<longleftrightarrow> y \<in> G"
    and here: "\<And>y pl. y \<in> X \<Longrightarrow> gw_players w' y = Some pl \<Longrightarrow> player_inv G' w' y pl"
      "\<And>g. gw_groups w' p = Some g \<Longrightarrow> group_inv G' w' p g"
    and others: "\<And>y pl. y \<notin> X \<Longrightarrow> gw_players w y = Some pl \<Longrightarrow> ref_target (gp_ref pl) = Some p
        \<Longrightarrow> y \<notin> G' \<and> (\<exists>g. gw_groups w' p = Some g \<and> y \<in> members g \<and> ref_subgroup (gp_ref pl) = get_member_group y g)"
      "\<And>y pl. y \<notin> X \<Longrightarrow> gw_players w y = Some pl \<Longrightarrow> gp_invite pl = Some p
        \<Longrightarrow> \<exists>g. gw_groups w' p = Some g \<and> y \<in> set (g_invitees g)"
    and elsewhere: "\<And>y q h. y \<in> X \<Longrightarrow> q \<noteq> p \<Longrightarrow> gw_groups w q = Some h \<Longrightarrow> y \<notin> members h"
      "\<And>y q h. y \<in> X \<Longrightarrow> q \<noteq> p \<Longrightarrow> gw_groups w q = Some h \<Longrightarrow> y \<in> set (g_invitees h)
        \<Longrightarrow> \<exists>pl. gw_players w' y = Some pl \<and> gp_invite pl = Some q"
    and mem: "\<And>g y. gw_groups w' p = Some g \<Longrightarrow> y \<in> members g \<Longrightarrow> y \<in> X \<or> (\<exists>g0. gw_groups w p = Some g0 \<and> y \<in> members g0)"
    and rest: "store_inv S' w'" "leaders_ok L' w'" "cache_ok (gw_cache w) \<Longrightarrow> cache_ok (gw_cache w')" "safe w'"
  shows "gw_inv S' L' G' w'"
proof -
  have "player_inv G' w' y pl" if y: "gw_players w' y = Some pl" for y pl
  proof (cases "y \<in> X")
    case True
    then show ?thesis using y by (rule here(1))
  next
    case False
    then have old: "gw_players w y = Some pl" using y players by simp
    note pi = gw_invD(1) [OF inv old]
    have 1: "y \<notin> G' \<and> (\<exists>g. gw_groups w' q = Some g \<and> y \<in> members g \<and> ref_subgroup (gp_ref pl) = get_member_group y g)"
      if r: "ref_target (gp_ref pl) = Some q" for q
    proof (cases "q = p")
      case True
      then show ?thesis using others(1) [OF False old] r by simp
    next
      case q: False
      obtain h where h: "gw_groups w q = Some h" "y \<in> members h" "ref_subgroup (gp_ref pl) = get_member_group y h"
        using player_invD(3) [OF pi r] by blast
      then show ?thesis using gone [OF q h(1,2)] player_invD(6) [OF pi r] groups [OF q] by simp
    qed
    have 2: "\<exists>g. gw_groups w' q = Some g \<and> y \<in> set (g_invitees g)" if "gp_invite pl = Some q" for q
      using that player_invD(5) [OF pi that] others(2) [OF False old] groups by (cases "q = p") auto
    show ?thesis
      unfolding player_inv_def entries using player_invD(1,2,4) [OF pi] 1 2 by blast
  qed
  moreover have "group_inv G' w' q h" if q: "gw_groups w' q = Some h" for q h
  proof (cases "q = p")
    case True
    then show ?thesis using q here(2) by simp
  next
    case False
    then have old: "gw_groups w q = Some h" using q groups by simp
    note gi = gw_invD(2) [OF inv old]
    have same: "gw_players w' y = gw_players w y \<and>
        get_character_group_guid_by_guid (gw_cache w') y = get_character_group_guid_by_guid (gw_cache w) y" if "y \<in> members h" for y
      using that elsewhere(1) [OF _ False old] players cache by blast
    have minus: "members h - G' = members h - G" using gone [OF False old] by blast
    have invd: "\<exists>pl. gw_players w' y = Some pl \<and> gp_invite pl = Some q" if "y \<in> set (g_invitees h)" for y
      using that elsewhere(2) [OF _ False old that] group_invD(7) [OF gi that] players [of y] by (cases "y \<in> X") auto
    have nx: "q < gw_next w'" using group_invD(2) [OF gi] nxt by simp
    show ?thesis
      unfolding group_inv_def entries minus using group_invD(1,3,4,5,6) [OF gi] same invd nx by (metis DiffD1)
  qed
  moreover have "one_group w'"
    unfolding one_group_def
  proof (intro allI impI)
    have *: "x \<notin> members g" if g: "gw_groups w' p = Some g" and q: "q \<noteq> p" "gw_groups w' q = Some h" "x \<in> members h" for g h q x
    proof
      assume x: "x \<in> members g"
      have old: "gw_groups w q = Some h" using q groups by simp
      show False
        using mem [OF g x] elsewhere(1) [OF _ q(1) old] q(3) one_groupD [OF gw_invD(6) [OF inv] old] q(1) by metis
    qed
    fix q r g h x assume new: "gw_groups w' q = Some g" "gw_groups w' r = Some h" "x \<in> members g" "x \<in> members h"
    show "q = r"
    proof (cases "q = p \<or> r = p")
      case True
      then show ?thesis using * new by metis
    next
      case False
      then show ?thesis using one_groupD [OF gw_invD(6) [OF inv], of q g r h x] new groups by simp
    qed
  qed
  ultimately show ?thesis using rest gw_invD(7) [OF inv] by (simp add: gw_inv_def)
qed

end
