(* ===== verification/GroupMoves.thy ===== *)
theory GroupMoves
  imports GroupInv
begin

text \<open>
  The operations that change membership keep \<open>gw_inv\<close>: invitations, joining, leaving, the end of
  a group, moves between subgroups.
\<close>

section \<open>Groups that stay\<close>

lemma store_inv_upd:
  assumes st: "store_inv S w" and g: "gw_groups w p = Some g" and groups: "gw_groups w' = (gw_groups w)(p \<mapsto> g')"
    and same: "gw_store w' = gw_store w" "gw_next_id w' = gw_next_id w" "gw_ids w' = gw_ids w"
    and kept: "(g_slots g' = [] \<longleftrightarrow> g_slots g = []) \<or> (p \<in> S \<and> g_slots g' \<noteq> [])" "g_guid g' = g_guid g"
  shows "store_inv S w'"
proof -
  have id: "id_used w' n = id_used w n" for n by (simp add: id_used_def same)
  have 1: "\<exists>h. gw_groups w' q = Some h \<and> g_slots h \<noteq> [] \<and> g_guid h = k"
    if "\<exists>h. gw_groups w q = Some h \<and> g_slots h \<noteq> [] \<and> g_guid h = k" for q k
    using g kept that by (auto simp: groups)
  have 2: "(\<forall>h. gw_groups w' q = Some h \<longrightarrow> q \<notin> S \<longrightarrow> (if g_slots h = [] then g_guid h = 0
          else \<exists>n. g_guid h = guid_create_global HG_Group n \<and> map_of (gw_store w) n = Some q))
      \<longleftrightarrow> (\<forall>h. gw_groups w q = Some h \<longrightarrow> q \<notin> S \<longrightarrow> (if g_slots h = [] then g_guid h = 0
          else \<exists>n. g_guid h = guid_create_global HG_Group n \<and> map_of (gw_store w) n = Some q))" for q
    using g kept by (auto simp: groups)
  have 3: "(\<exists>h n. gw_groups w' q = Some h \<and> g_guid h = guid_create_global HG_Group n \<and> n \<noteq> 0 \<and> id_used w n \<and> map_of (gw_store w) n = None)
      \<longleftrightarrow> (\<exists>h n. gw_groups w q = Some h \<and> g_guid h = guid_create_global HG_Group n \<and> n \<noteq> 0 \<and> id_used w n \<and> map_of (gw_store w) n = None)" for q
    using g kept by (simp add: groups)
  show ?thesis using st 1 unfolding store_inv_def same id 2 3 by blast
qed

lemma leaders_ok_upd:
  assumes "leaders_ok L w" "\<And>q. q \<noteq> p \<Longrightarrow> gw_groups w' q = gw_groups w q" "\<And>q. q \<in> L \<Longrightarrow> q \<noteq> p \<Longrightarrow> q \<in> L'"
    "\<And>g. gw_groups w' p = Some g \<Longrightarrow> p \<notin> L' \<Longrightarrow> g_slots g \<noteq> [] \<Longrightarrow> g_leader g \<in> members g"
  shows "leaders_ok L' w'"
  unfolding leaders_ok_def
proof (intro allI impI)
  fix q h assume q: "gw_groups w' q = Some h" "q \<notin> L'" "g_slots h \<noteq> []"
  show "g_leader h \<in> members h"
  proof (cases "q = p")
    case False
    then show ?thesis using q assms(1,2) assms(3) [of q] unfolding leaders_ok_def by metis
  qed (use q assms(4) in simp)
qed

text \<open>The group at \<open>p\<close> changes and stays, the players of \<open>X\<close> change, the manager does not.\<close>

definition same_manager :: "group_world \<Rightarrow> group_world \<Rightarrow> bool" where
  "same_manager w w' \<longleftrightarrow> gw_next w' = gw_next w \<and> gw_store w' = gw_store w \<and> gw_next_id w' = gw_next_id w \<and> gw_ids w' = gw_ids w"

lemma same_managerI [intro!]:
  "gw_next w' = gw_next w \<Longrightarrow> gw_store w' = gw_store w \<Longrightarrow> gw_next_id w' = gw_next_id w \<Longrightarrow> gw_ids w' = gw_ids w \<Longrightarrow> same_manager w w'"
  by (simp add: same_manager_def)

lemma gw_inv_upd:
  assumes inv: "gw_inv S L G w" and g: "gw_groups w p = Some g" and man: "same_manager w w'"
    and players: "\<And>y. y \<notin> X \<Longrightarrow> gw_players w' y = gw_players w y" and groups: "gw_groups w' = (gw_groups w)(p \<mapsto> g')"
    and kept: "(g_slots g' = [] \<longleftrightarrow> g_slots g = []) \<or> (p \<in> S \<and> g_slots g' \<noteq> [])" "g_guid g' = g_guid g"
    and entries: "\<And>y. has_character_cache_entry (gw_cache w') y \<longleftrightarrow> has_character_cache_entry (gw_cache w) y"
    and cache: "\<And>y. y \<notin> X \<Longrightarrow> get_character_group_guid_by_guid (gw_cache w') y = get_character_group_guid_by_guid (gw_cache w) y"
    and gone: "\<And>q h y. q \<noteq> p \<Longrightarrow> gw_groups w q = Some h \<Longrightarrow> y \<in> members h \<Longrightarrow> y \<in> G' \<longleftrightarrow> y \<in> G"
    and here: "\<And>y pl. y \<in> X \<Longrightarrow> gw_players w' y = Some pl \<Longrightarrow> player_inv G' w' y pl" "group_inv G' w' p g'"
    and others: "\<And>y pl. y \<notin> X \<Longrightarrow> gw_players w y = Some pl \<Longrightarrow> ref_target (gp_ref pl) = Some p
        \<Longrightarrow> y \<notin> G' \<and> y \<in> members g' \<and> ref_subgroup (gp_ref pl) = get_member_group y g'"
      "\<And>y pl. y \<notin> X \<Longrightarrow> gw_players w y = Some pl \<Longrightarrow> gp_invite pl = Some p \<Longrightarrow> y \<in> set (g_invitees g')"
    and elsewhere: "\<And>y q h. y \<in> X \<Longrightarrow> q \<noteq> p \<Longrightarrow> gw_groups w q = Some h \<Longrightarrow> y \<notin> members h"
      "\<And>y q h. y \<in> X \<Longrightarrow> q \<noteq> p \<Longrightarrow> gw_groups w q = Some h \<Longrightarrow> y \<in> set (g_invitees h)
        \<Longrightarrow> \<exists>pl. gw_players w' y = Some pl \<and> gp_invite pl = Some q"
    and mem: "\<And>y. y \<in> members g' \<Longrightarrow> y \<in> X \<or> y \<in> members g"
    and lead: "\<And>q. q \<in> L \<Longrightarrow> q \<noteq> p \<Longrightarrow> q \<in> L'" "p \<notin> L' \<Longrightarrow> g_slots g' \<noteq> [] \<Longrightarrow> g_leader g' \<in> members g'"
    and cok: "cache_ok (gw_cache w) \<Longrightarrow> cache_ok (gw_cache w')" and safe: "safe w'"
  shows "gw_inv S L' G' w'"
proof -
  note m = man [unfolded same_manager_def]
  have p': "gw_groups w' p = Some g'" and q': "gw_groups w' q = gw_groups w q" if "q \<noteq> p" for q
    using that by (simp_all add: groups)
  have st: "store_inv S w'" using m by (intro store_inv_upd [OF gw_invD(3) [OF inv] g groups _ _ _ kept]) simp_all
  have ld: "leaders_ok L' w'"
    by (rule leaders_ok_upd [OF gw_invD(5) [OF inv], of p]) (use lead in \<open>auto simp: groups\<close>)
  show ?thesis
  proof (rule gw_inv_step [OF inv, where p = p and X = X])
    show "\<And>y. y \<notin> X \<Longrightarrow> gw_players w' y = gw_players w y" by (rule players)
    show "gw_next w \<le> gw_next w'" using m by simp
    show "\<And>y. y \<notin> X \<Longrightarrow> gw_players w y = Some pl \<Longrightarrow> ref_target (gp_ref pl) = Some p \<Longrightarrow>
        y \<notin> G' \<and> (\<exists>g. gw_groups w' p = Some g \<and> y \<in> members g \<and> ref_subgroup (gp_ref pl) = get_member_group y g)" for pl
      using others(1) by (simp add: groups)
    show "\<And>y. y \<notin> X \<Longrightarrow> gw_players w y = Some pl \<Longrightarrow> gp_invite pl = Some p \<Longrightarrow>
        \<exists>g. gw_groups w' p = Some g \<and> y \<in> set (g_invitees g)" for pl
      using others(2) by (simp add: groups)
    show "\<And>h y. gw_groups w' p = Some h \<Longrightarrow> y \<in> members h \<Longrightarrow> y \<in> X \<or> (\<exists>g0. gw_groups w p = Some g0 \<and> y \<in> members g0)"
      using mem g by (simp add: groups)
    show "\<And>h. gw_groups w' p = Some h \<Longrightarrow> group_inv G' w' p h" using here(2) by (simp add: groups)
    show "\<And>q. q \<noteq> p \<Longrightarrow> gw_groups w' q = gw_groups w q" by (simp add: groups)
  qed (fact entries cache gone here elsewhere st ld cok safe)+
qed

section \<open>What the invariant gives\<close>

lemma get_group_Some: "get_group w x = Some p \<longleftrightarrow> (\<exists>pl. gw_players w x = Some pl \<and> ref_target (gp_ref pl) = Some p)"
  by (auto simp: get_group_def bind_eq_Some_conv)

lemma get_group_None: "get_group w x = None \<longleftrightarrow> (\<forall>pl. gw_players w x = Some pl \<longrightarrow> ref_target (gp_ref pl) = None)"
  by (cases "gw_players w x") (simp_all add: get_group_def)

lemma get_group_invite_Some: "get_group_invite w x = Some p \<longleftrightarrow> (\<exists>pl. gw_players w x = Some pl \<and> gp_invite pl = Some p)"
  by (auto simp: get_group_invite_def bind_eq_Some_conv)

lemma inv_get_group:
  assumes "gw_inv S L G w" "get_group w x = Some p"
  obtains pl g where "gw_players w x = Some pl" "ref_target (gp_ref pl) = Some p" "gw_groups w p = Some g" "x \<in> members g - G"
    "ref_subgroup (gp_ref pl) = get_member_group x g" "gp_invite pl = None"
proof -
  obtain pl where pl: "gw_players w x = Some pl" "ref_target (gp_ref pl) = Some p" using assms(2) by (auto simp: get_group_Some)
  note pi = gw_invD(1) [OF assms(1) pl(1)]
  have "gp_invite pl = None" using player_invD(4) [OF pi] pl(2) by (cases "gp_invite pl") auto
  then show ?thesis using that pl player_invD(3) [OF pi pl(2)] player_invD(6) [OF pi pl(2)] by blast
qed

lemma inv_get_invite:
  assumes "gw_inv S L G w" "get_group_invite w x = Some p"
  obtains pl g where "gw_players w x = Some pl" "gp_invite pl = Some p" "ref_target (gp_ref pl) = None" "gw_groups w p = Some g" "x \<in> set (g_invitees g)"
proof -
  obtain pl where pl: "gw_players w x = Some pl" "gp_invite pl = Some p" using assms(2) by (auto simp: get_group_invite_Some)
  note pi = gw_invD(1) [OF assms(1) pl(1)]
  show ?thesis using that pl player_invD(4,5) [OF pi pl(2)] by blast
qed

lemma inv_not_bg: "gw_inv S L G w \<Longrightarrow> gw_groups w p = Some g \<Longrightarrow> \<not> bg_or_bf g"
  using group_invD(1) [OF gw_invD(2)] by (auto simp: group_ok_def)

lemma inv_original: "gw_inv S L G w \<Longrightarrow> get_original_group w x = None"
  using player_invD(1) [OF gw_invD(1)] by (cases "gw_players w x") (simp_all add: get_original_group_def)

lemma inv_invite_group: "gw_inv S L G w \<Longrightarrow> invite_group w x = get_group w x"
  using inv_not_bg by (auto simp: invite_group_def split: option.splits)

lemma inv_handler_group: "gw_inv S L G w \<Longrightarrow> handler_group w x = get_group w x"
  using inv_not_bg by (fastforce simp: handler_group_def split: option.splits)

lemma inv_refs_connected: "gw_inv S L G w \<Longrightarrow> gw_groups w p = Some g \<Longrightarrow> (x, b) \<in> set (g_refs g) \<Longrightarrow> grp_connected w x"
  using group_invD(3) [OF gw_invD(2)] by (simp add: grp_connected_def)

lemma inv_broadcast:
  assumes "gw_inv S L G w" "alive w p"
  shows "gw_inv S L G (broadcast_packet pk ign grp ignore p w)"
  by (rule gw_inv_neutral [OF assms(1) neutral_broadcast_packet [OF assms(2) inv_refs_connected [OF assms(1)]]])

lemma inv_no_group_no_member:
  assumes "gw_inv S L {} w" "gw_players w x = Some pl" "ref_target (gp_ref pl) = None" "gw_groups w q = Some h"
  shows "x \<notin> members h"
  using group_invD(6) [OF gw_invD(2) [OF assms(1,4)] _ assms(2)] assms(3) by auto

lemma inv_invited_here:
  assumes "gw_inv S L G w" "gw_players w x = Some pl" "gw_groups w q = Some h" "x \<in> set (g_invitees h)"
  shows "gp_invite pl = Some q"
  using group_invD(7) [OF gw_invD(2) [OF assms(1,3)] assms(4)] assms(2) by simp

lemma counts_ok_cong:
  assumes "g_slots g' = g_slots g" "g_type g' = g_type g" "g_counts g' = g_counts g"
  shows "counts_ok g' \<longleftrightarrow> counts_ok g"
  unfolding counts_ok_def is_raid_group_def assms ..

lemma group_ok_upd:
  assumes "group_ok g" "g_bg g' = g_bg g" "g_bf g' = g_bf g" "distinct (map ms_guid (g_slots g'))" "distinct (g_invitees g')"
    "distinct (g_refs g')" "counts_ok g'"
  shows "group_ok g'"
  using assms by (simp add: group_ok_def is_bg_group_def is_bf_group_def)

section \<open>Invitations\<close>

text \<open>A player without a group gets or loses the invitation to the group at \<open>p\<close>.\<close>

lemma invite_change_inv:
  assumes inv: "gw_inv S L {} w" and pl: "gw_players w x = Some pl" and a: "gw_groups w p = Some g"
    and own: "ref_target (gp_ref pl) = None" "\<And>q. gp_invite pl = Some q \<Longrightarrow> q = p"
    and new: "io = None \<or> io = Some p" "\<And>y. y \<in> set is' \<longleftrightarrow> (if y = x then io = Some p else y \<in> set (g_invitees g))" "distinct is'"
    and F: "gw_players w' = (gw_players w)(x \<mapsto> pl\<lparr>gp_invite := io\<rparr>)" "gw_groups w' = (gw_groups w)(p \<mapsto> g\<lparr>g_invitees := is'\<rparr>)"
      "gw_cache w' = gw_cache w" "same_manager w w'" "safe w'"
  shows "gw_inv S L {} w'"
proof -
  let ?g = "g\<lparr>g_invitees := is'\<rparr>"
  note gi = gw_invD(2) [OF inv a] and pi = gw_invD(1) [OF inv pl]
  have nx: "gw_next w' = gw_next w" using F(4) by (simp add: same_manager_def)
  have sl: "get_member_group y ?g = get_member_group y g" for y by (rule get_member_group_cong) simp
  have gok: "group_ok ?g"
    using group_okD [OF group_invD(1) [OF gi]] new(3) by (intro group_ok_upd [OF group_invD(1) [OF gi]]) (simp_all add: counts_ok_cong [of ?g g])
  have conn: "gw_players w' y \<noteq> None \<longleftrightarrow> gw_players w y \<noteq> None" for y using pl by (simp add: F)
  have invd: "y \<in> set is'" if "y \<noteq> x" "gw_players w y = Some ql" "gp_invite ql = Some p" for y ql
    using player_invD(5) [OF gw_invD(1) [OF inv that(2)] that(3)] a new(2) [of y] that(1) by simp
  have refs: "gw_players w' y = Some ql \<Longrightarrow> \<exists>ql'. gw_players w y = Some ql' \<and> gp_ref ql = gp_ref ql'" for y ql
    using pl by (auto simp: F split: if_splits)
  show ?thesis
  proof (rule gw_inv_upd [OF inv a F(4), where X = "{x}" and g' = ?g])
    show "group_inv {} w' p ?g"
      unfolding group_inv_def F(3) nx
    proof (intro conjI allI ballI impI)
      fix y assume "y \<in> set (g_invitees ?g)"
      then show "\<exists>pl. gw_players w' y = Some pl \<and> gp_invite pl = Some p" using group_invD(7) [OF gi, of y] new(2) [of y] by (simp add: F split: if_splits)
    next
      fix y b show "((y, b) \<in> set (g_refs ?g)) = (\<not> b \<and> y \<in> members ?g - {} \<and> gw_players w' y \<noteq> None)"
        unfolding conn using group_invD(3) [OF gi, of y b] by simp
    next
      fix y ql assume "y \<in> members ?g - {}" "gw_players w' y = Some ql"
      then show "ref_target (gp_ref ql) = Some p" using refs [of y ql] group_invD(6) [OF gi, of y] by auto
    qed (use gok group_invD(2,4,5) [OF gi] in auto)
    show "\<And>y pl'. y \<in> {x} \<Longrightarrow> gw_players w' y = Some pl' \<Longrightarrow> player_inv {} w' y pl'"
      using player_invD(1,2) [OF pi] own(1) new(1) new(2) [of x] unfolding player_inv_def F by auto
    show "\<And>y q h. y \<in> {x} \<Longrightarrow> q \<noteq> p \<Longrightarrow> gw_groups w q = Some h \<Longrightarrow> y \<in> set (g_invitees h)
        \<Longrightarrow> \<exists>pl. gw_players w' y = Some pl \<and> gp_invite pl = Some q"
      using inv_invited_here [OF inv pl] own(2) by blast
    show "\<And>y q h. y \<in> {x} \<Longrightarrow> q \<noteq> p \<Longrightarrow> gw_groups w q = Some h \<Longrightarrow> y \<notin> members h"
      using inv_no_group_no_member [OF inv pl own(1)] by blast
    show "\<And>y pl. y \<notin> {x} \<Longrightarrow> gw_players w y = Some pl \<Longrightarrow> ref_target (gp_ref pl) = Some p
        \<Longrightarrow> y \<notin> {} \<and> y \<in> members ?g \<and> ref_subgroup (gp_ref pl) = get_member_group y ?g"
      using player_invD(3) [OF gw_invD(1) [OF inv]] a unfolding sl by fastforce
    show "\<And>y pl. y \<notin> {x} \<Longrightarrow> gw_players w y = Some pl \<Longrightarrow> gp_invite pl = Some p \<Longrightarrow> y \<in> set (g_invitees ?g)"
      using invd by simp
    show "p \<notin> L \<Longrightarrow> g_slots ?g \<noteq> [] \<Longrightarrow> g_leader ?g \<in> members ?g"
      using gw_invD(5) [OF inv] a by (simp add: leaders_ok_def)
    show "safe w'" by (rule F(5))
  qed (simp_all add: F)
qed

lemma remove_invite_fields:
  assumes "gw_players w x = Some pl" "gw_groups w p = Some g"
  shows "gw_players (remove_invite p x w) = (gw_players w)(x \<mapsto> pl\<lparr>gp_invite := None\<rparr>)"
    "gw_groups (remove_invite p x w) = (gw_groups w)(p \<mapsto> g\<lparr>g_invitees := removeAll x (g_invitees g)\<rparr>)"
    "gw_cache (remove_invite p x w) = gw_cache w" "same_manager w (remove_invite p x w)"
    "safe w \<Longrightarrow> safe (remove_invite p x w)"
  using assms by (simp_all add: remove_invite_def grp_connected_def set_group_invite_def same_manager_def safe_upd_player safe_upd_group)

lemma remove_invite_inv:
  assumes inv: "gw_inv S L {} w" and pl: "gw_players w x = Some pl" and a: "gw_groups w p = Some g"
    and own: "ref_target (gp_ref pl) = None" "\<And>q. gp_invite pl = Some q \<Longrightarrow> q = p"
  shows "gw_inv S L {} (remove_invite p x w)"
  by (rule invite_change_inv [OF inv pl a own, where io = None and is' = "removeAll x (g_invitees g)"])
    (use remove_invite_fields [OF pl a] gw_invD(4) [OF inv] group_okD(4) [OF group_invD(1) [OF gw_invD(2) [OF inv a]]]
      in \<open>auto simp: removeAll_filter_not_eq\<close>)

text \<open>What a successful \<open>add_invite\<close> does.\<close>

lemma add_invite_ok:
  assumes inv: "gw_inv S L {} w" and a: "gw_groups w p = Some g" and ok: "add_invite p x w = (True, w')"
  obtains pl where "gw_players w x = Some pl" "gp_invite pl = None" "ref_target (gp_ref pl) = None"
    "gw_players w' = (gw_players w)(x \<mapsto> pl\<lparr>gp_invite := Some p\<rparr>)"
    "gw_groups w' = (gw_groups w)(p \<mapsto> g\<lparr>g_invitees := x # removeAll x (g_invitees g)\<rparr>)"
    "gw_cache w' = gw_cache w" "same_manager w w'" "gw_inv S L {} w'"
proof -
  have c: "grp_connected w x" "get_group_invite w x = None" "get_group w x = None"
    using ok by (auto simp: add_invite_def inv_invite_group [OF inv] split: if_splits)
  obtain pl where pl: "gw_players w x = Some pl" using c(1) by (auto simp: grp_connected_def)
  have no: "gp_invite pl = None" "ref_target (gp_ref pl) = None"
    using c(2,3) pl by (simp_all add: get_group_invite_def get_group_def)
  have w': "w' = glog (GOnInvite p x) (set_group_invite (Some p) x (upd_group p (\<lambda>g. g\<lparr>g_invitees := x # g_invitees g\<rparr>) (remove_invite p x w)))"
    using ok by (auto simp: add_invite_def Let_def split: if_splits)
  note F = remove_invite_fields [OF pl a]
  have s: "safe w'" unfolding w' using F(5) [OF gw_invD(4) [OF inv]]
    by (intro safe_glog) (simp_all add: set_group_invite_def safe_upd_player safe_upd_group)
  have f: "gw_players w' = (gw_players w)(x \<mapsto> pl\<lparr>gp_invite := Some p\<rparr>)"
    "gw_groups w' = (gw_groups w)(p \<mapsto> g\<lparr>g_invitees := x # removeAll x (g_invitees g)\<rparr>)" "gw_cache w' = gw_cache w" "same_manager w w'"
    using F(4) unfolding w' by (simp_all add: F(1-3) set_group_invite_def same_manager_def)
  have "gw_inv S L {} w'"
    by (rule invite_change_inv [OF inv pl a no(2), where io = "Some p" and is' = "x # removeAll x (g_invitees g)"])
      (use f s no group_okD(4) [OF group_invD(1) [OF gw_invD(2) [OF inv a]]] in \<open>auto simp: removeAll_filter_not_eq\<close>)
  then show ?thesis using that pl no f by blast
qed

lemma add_invite_no: "add_invite p x w = (False, w') \<Longrightarrow> w' = w"
  by (auto simp: add_invite_def Let_def split: if_splits)

section \<open>A change of the group alone\<close>

lemma gw_inv_group:
  assumes inv: "gw_inv S L G w" and a: "gw_groups w p = Some g"
    and F: "gw_players w' = gw_players w" "gw_groups w' = (gw_groups w)(p \<mapsto> g')" "gw_cache w' = gw_cache w" "same_manager w w'" "safe w'"
    and kept: "map ms_guid (g_slots g') = map ms_guid (g_slots g)" "map ms_group (g_slots g') = map ms_group (g_slots g)"
      "g_refs g' = g_refs g" "g_invitees g' = g_invitees g" "g_guid g' = g_guid g" "g_bg g' = g_bg g" "g_bf g' = g_bf g" "counts_ok g'"
    and lead: "\<And>q. q \<in> L \<Longrightarrow> q \<noteq> p \<Longrightarrow> q \<in> L'" "p \<notin> L' \<Longrightarrow> g_slots g' \<noteq> [] \<Longrightarrow> g_leader g' \<in> members g'"
  shows "gw_inv S L' G w'"
proof -
  have mem: "members g' = members g"
    using arg_cong [OF kept(1), of set] by simp
  have grp: "get_member_group y g' = get_member_group y g" for y
  proof -
    have "map_option ms_group (find (\<lambda>m. ms_guid m = y) xs) = map_option ms_group (find (\<lambda>m. ms_guid m = y) ys)"
      if "map ms_guid xs = map ms_guid ys" "map ms_group xs = map ms_group ys" for xs ys
      using that by (induction xs arbitrary: ys) (auto simp: Cons_eq_map_conv map_eq_Cons_conv)
    from this [OF kept(1,2)] show ?thesis by (auto simp: get_member_group_def slot_of_def split: option.splits)
  qed
  note gi = gw_invD(2) [OF inv a] and o = group_okD [OF group_invD(1) [OF gw_invD(2) [OF inv a]]]
  have "group_ok g'"
    using o(3-5) kept by (intro group_ok_upd [OF group_invD(1) [OF gi]]) simp_all
  then have gi': "group_inv G w' p g'"
    using gi F(4) unfolding group_inv_def mem kept F by (simp add: same_manager_def)
  show ?thesis
  proof (rule gw_inv_upd [OF inv a F(4), where X = "{}" and g' = g'])
    show "(g_slots g' = [] \<longleftrightarrow> g_slots g = []) \<or> (p \<in> S \<and> g_slots g' \<noteq> [])" using kept(1) by (metis map_is_Nil_conv)
    show "\<And>y pl. y \<notin> {} \<Longrightarrow> gw_players w y = Some pl \<Longrightarrow> ref_target (gp_ref pl) = Some p
        \<Longrightarrow> y \<notin> G \<and> y \<in> members g' \<and> ref_subgroup (gp_ref pl) = get_member_group y g'"
      using player_invD(3,6) [OF gw_invD(1) [OF inv]] a unfolding mem grp by fastforce
    show "\<And>y pl. y \<notin> {} \<Longrightarrow> gw_players w y = Some pl \<Longrightarrow> gp_invite pl = Some p \<Longrightarrow> y \<in> set (g_invitees g')"
      using player_invD(5) [OF gw_invD(1) [OF inv]] a unfolding kept by fastforce
  qed (use gi' mem lead in \<open>simp_all add: F kept\<close>)
qed

lemma update_slot_kept:
  assumes "\<And>m. ms_guid (f m) = ms_guid m" "\<And>m. ms_group (f m) = ms_group m"
  shows "map ms_guid (update_slot x f ms) = map ms_guid ms" "map ms_group (update_slot x f ms) = map ms_group ms"
  using assms by (induction ms) simp_all

lemma sub_count_map: "sub_count i ms = length (filter (\<lambda>s. unat s = i) (map ms_group ms))"
  by (simp add: sub_count_def filter_map o_def)

lemma sub_count_kept: "map ms_group ms = map ms_group ms' \<Longrightarrow> sub_count i ms = sub_count i ms'"
  by (simp only: sub_count_map)

lemma counts_ok_kept:
  assumes "map ms_group (g_slots g') = map ms_group (g_slots g)" "g_type g' = g_type g" "g_counts g' = g_counts g"
  shows "counts_ok g' \<longleftrightarrow> counts_ok g"
proof -
  have s: "ms_group ` set (g_slots g') = ms_group ` set (g_slots g)" using arg_cong [OF assms(1), of set] by simp
  have "(\<forall>m \<in> set (g_slots g'). P (ms_group m)) \<longleftrightarrow> (\<forall>m \<in> set (g_slots g). P (ms_group m))" for P
    using s by (metis (no_types, lifting) image_iff)
  note p = this [where P = "\<lambda>s. s = 0"] this [where P = "\<lambda>s. unat s < MAX_RAID_SUBGROUPS"]
  have l: "length (g_slots g') = length (g_slots g)" using arg_cong [OF assms(1), of length] by simp
  show ?thesis
    unfolding counts_ok_def is_raid_group_def assms(2,3) p l sub_count_kept [OF assms(1)] ..
qed

section \<open>New and deleted groups\<close>

lemma new_group_inv:
  assumes inv: "gw_inv S L {} w" and new: "new_group e w = (p, w')"
  shows "gw_inv S L {} w'" "gw_groups w p = None" "gw_groups w' p = Some (group_new (ge_garbage e))" "gw_players w' = gw_players w"
proof -
  have p: "p = gw_next w" and w': "w' = w\<lparr>gw_groups := (gw_groups w)(p \<mapsto> group_new (ge_garbage e)), gw_next := p + 1\<rparr>"
    using new by (auto simp: new_group_def Let_def)
  show none: "gw_groups w p = None"
    using group_invD(2) [OF gw_invD(2) [OF inv, of p]] p by (cases "gw_groups w p") auto
  let ?g = "group_new (ge_garbage e)"
  have g: "g_slots ?g = []" "g_refs ?g = []" "g_invitees ?g = []" "g_guid ?g = 0" "g_counts ?g = None" "\<not> g_bg ?g" "\<not> g_bf ?g" "g_type ?g = 0"
    by (simp_all add: group_new_def GROUPTYPE_NORMAL_def)
  have gok: "group_ok ?g"
    using g by (simp add: group_ok_def counts_ok_def is_bg_group_def is_bf_group_def is_raid_group_def)
  have nobody: "ref_target (gp_ref pl) \<noteq> Some p \<and> gp_invite pl \<noteq> Some p" if "gw_players w y = Some pl" for y pl
    using player_invD(3,5) [OF gw_invD(1) [OF inv that]] none by fastforce
  show "gw_inv S L {} w'"
  proof (rule gw_inv_step [OF inv, where p = p and X = "{}"])
    show "store_inv S w'"
    proof -
      have id: "id_used w' n = id_used w n" for n by (simp add: id_used_def w')
      have "q \<noteq> p" if "gw_groups w q = Some h" for q h using that none by auto
      then show ?thesis
        using gw_invD(3) [OF inv] g(1,4) unfolding store_inv_def id by (simp add: w') metis
    qed
    show "leaders_ok L w'"
      by (rule leaders_ok_upd [OF gw_invD(5) [OF inv], of p]) (simp_all add: w' g)
    show "safe w'" using gw_invD(4) [OF inv] by (auto simp: safe_def clean_def rolls_valid_def w' group_new_def)
    show "\<And>h. gw_groups w' p = Some h \<Longrightarrow> group_inv {} w' p h"
      using gok by (simp add: group_inv_def w' g)
  qed (use nobody g in \<open>auto simp: w' p\<close>)
  show "gw_groups w' p = Some ?g" "gw_players w' = gw_players w" by (simp_all add: w')
qed

section \<open>The end of a group\<close>

text \<open>All invitations to a group are withdrawn.\<close>

definition uninvite_all :: "guid list \<Rightarrow> (guid \<Rightarrow> group_player option) \<Rightarrow> guid \<Rightarrow> group_player option" where
  "uninvite_all xs ps y = (if y \<in> set xs then map_option (\<lambda>pl. pl\<lparr>gp_invite := None\<rparr>) (ps y) else ps y)"

lemma uninvite_fold:
  assumes "\<And>x. x \<in> set xs \<Longrightarrow> gw_players w x \<noteq> None"
  shows "fold (\<lambda>x w. if grp_connected w x then set_group_invite None x w else glog GBadPointer w) xs w
    = w\<lparr>gw_players := uninvite_all xs (gw_players w)\<rparr>"
  using assms
proof (induction xs arbitrary: w)
  case Nil
  then show ?case by (simp add: uninvite_all_def [abs_def])
next
  case (Cons x xs)
  let ?w = "set_group_invite None x w"
  have c: "grp_connected w x" using Cons.prems by (simp add: grp_connected_def)
  have "gw_players ?w y \<noteq> None" if "y \<in> set xs" for y
    using Cons.prems that by (simp add: set_group_invite_def)
  then have "fold (\<lambda>x w. if grp_connected w x then set_group_invite None x w else glog GBadPointer w) xs ?w
      = ?w\<lparr>gw_players := uninvite_all xs (gw_players ?w)\<rparr>" by (rule Cons.IH)
  also have "\<dots> = w\<lparr>gw_players := uninvite_all (x # xs) (gw_players w)\<rparr>"
  proof -
    have "map_option (\<lambda>pl. pl\<lparr>gp_invite := None\<rparr>) (map_option (\<lambda>pl. pl\<lparr>gp_invite := None\<rparr>) z) = map_option (\<lambda>pl. pl\<lparr>gp_invite := None\<rparr>) z" for z
      by (cases z) simp_all
    then have "uninvite_all xs (gw_players ?w) = uninvite_all (x # xs) (gw_players w)"
      by (auto simp: uninvite_all_def set_group_invite_def fun_eq_iff)
    then show ?thesis by (simp add: set_group_invite_def upd_player_def)
  qed
  finally show ?case using c by simp
qed

lemma remove_all_invites_eq:
  assumes inv: "gw_inv S L G w" and a: "gw_groups w p = Some g"
  shows "remove_all_invites p w = upd_group p (\<lambda>g. g\<lparr>g_invitees := []\<rparr>) (w\<lparr>gw_players := uninvite_all (g_invitees g) (gw_players w)\<rparr>)"
proof -
  have "gw_players w x \<noteq> None" if "x \<in> set (g_invitees g)" for x
    using group_invD(7) [OF gw_invD(2) [OF inv a] that] by auto
  from uninvite_fold [of "g_invitees g" w, OF this] show ?thesis using a by (simp add: remove_all_invites_def with_group_def)
qed

lemma uninvited_player:
  assumes inv: "gw_inv S L G w" and a: "gw_groups w p = Some g" and y: "y \<in> set (g_invitees g)"
    "uninvite_all (g_invitees g) (gw_players w) y = Some ql"
  obtains pl where "gw_players w y = Some pl" "ql = pl\<lparr>gp_invite := None\<rparr>" "gp_invite pl = Some p" "ref_target (gp_ref pl) = None"
    "ref_target (gp_original pl) = None" "has_character_cache_entry (gw_cache w) y"
proof -
  obtain pl where pl: "gw_players w y = Some pl" "gp_invite pl = Some p" using group_invD(7) [OF gw_invD(2) [OF inv a] y(1)] by blast
  note pi = gw_invD(1) [OF inv pl(1)]
  show ?thesis using that pl y player_invD(1,2) [OF pi] player_invD(4) [OF pi pl(2)] by (auto simp: uninvite_all_def)
qed

lemma invited_not_member:
  assumes inv: "gw_inv S L G w" and a: "gw_groups w p = Some g" and sub: "G \<subseteq> members g" and y: "y \<in> set (g_invitees g)"
    and q: "q \<noteq> p" "gw_groups w q = Some h"
  shows "y \<notin> members h" "y \<notin> set (g_invitees h)"
proof -
  obtain pl where pl: "gw_players w y = Some pl" "gp_invite pl = Some p" using group_invD(7) [OF gw_invD(2) [OF inv a] y] by blast
  have r: "ref_target (gp_ref pl) = None" by (rule player_invD(4) [OF gw_invD(1) [OF inv pl(1)] pl(2)])
  show "y \<notin> members h"
  proof
    assume m: "y \<in> members h"
    show False
    proof (cases "y \<in> G")
      case True
      then show False using sub one_groupD [OF gw_invD(6) [OF inv] a q(2)] m q(1) by blast
    next
      case False
      then show False using group_invD(6) [OF gw_invD(2) [OF inv q(2)] _ pl(1)] m r by simp
    qed
  qed
  show "y \<notin> set (g_invitees h)" using inv_invited_here [OF inv pl(1) q(2)] pl(2) q(1) by auto
qed

lemma remove_all_invites_inv:
  assumes inv: "gw_inv S L {} w" and a: "gw_groups w p = Some g"
  shows "gw_inv S L {} (remove_all_invites p w)"
proof -
  let ?w = "remove_all_invites p w" and ?g = "g\<lparr>g_invitees := []\<rparr>"
  note e = remove_all_invites_eq [OF inv a]
  have P: "gw_players ?w = uninvite_all (g_invitees g) (gw_players w)" and Gr: "gw_groups ?w = (gw_groups w)(p \<mapsto> ?g)"
    and C: "gw_cache ?w = gw_cache w" "gw_next ?w = gw_next w" and M: "same_manager w ?w"
    unfolding e using a by (simp_all add: same_manager_def)
  have s: "safe ?w" unfolding e using gw_invD(4) [OF inv] by (intro safe_upd_group) (simp_all add: safe_def clean_def rolls_valid_def)
  note gi = gw_invD(2) [OF inv a] and o = group_okD [OF group_invD(1) [OF gw_invD(2) [OF inv a]]]
  have sl: "get_member_group y ?g = get_member_group y g" for y by (rule get_member_group_cong) simp
  have gok: "group_ok ?g" using o by (intro group_ok_upd [OF group_invD(1) [OF gi]]) (simp_all add: counts_ok_cong [of ?g g])
  have conn: "gw_players ?w y = None \<longleftrightarrow> gw_players w y = None" for y by (simp add: P uninvite_all_def)
  have refs: "gw_players ?w y = Some ql \<Longrightarrow> \<exists>ql'. gw_players w y = Some ql' \<and> gp_ref ql = gp_ref ql'" for y ql
    by (auto simp: P uninvite_all_def split: if_splits)
  show ?thesis
  proof (rule gw_inv_upd [OF inv a M, where X = "set (g_invitees g)" and g' = ?g])
    show "group_inv {} ?w p ?g"
      unfolding group_inv_def C
    proof (intro conjI allI ballI impI)
      fix y b show "((y, b) \<in> set (g_refs ?g)) = (\<not> b \<and> y \<in> members ?g - {} \<and> gw_players ?w y \<noteq> None)"
        unfolding conn using group_invD(3) [OF gi, of y b] by simp
    next
      fix y ql assume "y \<in> members ?g - {}" "gw_players ?w y = Some ql"
      then show "ref_target (gp_ref ql) = Some p" using refs [of y ql] group_invD(6) [OF gi, of y] by auto
    qed (use gok group_invD(2,4,5) [OF gi] in auto)
    show "\<And>y pl. y \<in> set (g_invitees g) \<Longrightarrow> gw_players ?w y = Some pl \<Longrightarrow> player_inv {} ?w y pl"
      by (erule (1) uninvited_player [OF inv a, unfolded P [symmetric]]) (simp add: player_inv_def C)
    show "\<And>y pl. y \<notin> set (g_invitees g) \<Longrightarrow> gw_players w y = Some pl \<Longrightarrow> ref_target (gp_ref pl) = Some p
        \<Longrightarrow> y \<notin> {} \<and> y \<in> members ?g \<and> ref_subgroup (gp_ref pl) = get_member_group y ?g"
      using player_invD(3) [OF gw_invD(1) [OF inv]] a unfolding sl by fastforce
    show "\<And>y pl. y \<notin> set (g_invitees g) \<Longrightarrow> gw_players w y = Some pl \<Longrightarrow> gp_invite pl = Some p \<Longrightarrow> y \<in> set (g_invitees ?g)"
      using player_invD(5) [OF gw_invD(1) [OF inv]] a by fastforce
    show "p \<notin> L \<Longrightarrow> g_slots ?g \<noteq> [] \<Longrightarrow> g_leader ?g \<in> members ?g"
      using gw_invD(5) [OF inv] a by (simp add: leaders_ok_def)
    show "\<And>y q h. y \<in> set (g_invitees g) \<Longrightarrow> q \<noteq> p \<Longrightarrow> gw_groups w q = Some h \<Longrightarrow> y \<notin> members h"
      by (rule invited_not_member [OF inv a]) simp_all
    show "\<And>y q h. y \<in> set (g_invitees g) \<Longrightarrow> q \<noteq> p \<Longrightarrow> gw_groups w q = Some h \<Longrightarrow> y \<in> set (g_invitees h)
        \<Longrightarrow> \<exists>pl. gw_players ?w y = Some pl \<and> gp_invite pl = Some q"
      using invited_not_member(2) [OF inv a] by blast
  qed (simp_all add: P Gr C s, simp_all add: uninvite_all_def)
qed

lemma get_counter_zero: "get_counter 0 = 0"
  by (code_simp)

lemma map_of_filter_key: "map_of (filter (\<lambda>e. fst e \<noteq> k) xs) n = (if n = k then None else map_of xs n)"
  by (induction xs) auto

text \<open>The group at \<open>p\<close> is deleted, after all members were taken out.\<close>

lemma end_group_inv:
  assumes inv: "gw_inv {} L G w" and a: "gw_groups w p = Some g" and gone: "G = members g"
    and F: "gw_players w' = uninvite_all (g_invitees g) (gw_players w)" "gw_groups w' = (gw_groups w)(p := None)"
      "gw_store w' = filter (\<lambda>e. fst e \<noteq> get_counter (g_guid g)) (gw_store w)" "gw_cache w' = gw_cache w"
      "gw_next w' = gw_next w" "gw_next_id w' = gw_next_id w" "gw_ids w' = gw_ids w" "safe w'"
  shows "gw_inv {} (L - {p}) {} w'"
proof (rule gw_inv_step [OF inv, where p = p and X = "set (g_invitees g)"])
  show "\<And>q h y. q \<noteq> p \<Longrightarrow> gw_groups w q = Some h \<Longrightarrow> y \<in> members h \<Longrightarrow> y \<in> {} \<longleftrightarrow> y \<in> G"
    using one_groupD [OF gw_invD(6) [OF inv] a] unfolding gone by blast
  have no: False if "gw_players w y = Some pl" "ref_target (gp_ref pl) = Some p" for y pl
    using player_invD(3,6) [OF gw_invD(1) [OF inv that(1)] that(2)] a gone by auto
  show "\<And>y pl. y \<notin> set (g_invitees g) \<Longrightarrow> gw_players w y = Some pl \<Longrightarrow> ref_target (gp_ref pl) = Some p
        \<Longrightarrow> y \<notin> {} \<and> (\<exists>g. gw_groups w' p = Some g \<and> y \<in> members g \<and> ref_subgroup (gp_ref pl) = get_member_group y g)"
    using no by blast
  show "\<And>y pl. y \<notin> set (g_invitees g) \<Longrightarrow> gw_players w y = Some pl \<Longrightarrow> gp_invite pl = Some p
        \<Longrightarrow> \<exists>g. gw_groups w' p = Some g \<and> y \<in> set (g_invitees g)"
    using player_invD(5) [OF gw_invD(1) [OF inv]] a by fastforce
  show "\<And>y pl. y \<in> set (g_invitees g) \<Longrightarrow> gw_players w' y = Some pl \<Longrightarrow> player_inv {} w' y pl"
    by (erule (1) uninvited_player [OF inv a, unfolded F(1) [symmetric]]) (simp add: player_inv_def F)
  show "\<And>y q h. y \<in> set (g_invitees g) \<Longrightarrow> q \<noteq> p \<Longrightarrow> gw_groups w q = Some h \<Longrightarrow> y \<notin> members h"
    by (rule invited_not_member [OF inv a]) (simp_all add: gone)
  show "\<And>y q h. y \<in> set (g_invitees g) \<Longrightarrow> q \<noteq> p \<Longrightarrow> gw_groups w q = Some h \<Longrightarrow> y \<in> set (g_invitees h)
      \<Longrightarrow> \<exists>pl. gw_players w' y = Some pl \<and> gp_invite pl = Some q"
    using invited_not_member(2) [OF inv a] gone by blast
  show "leaders_ok (L - {p}) w'"
    by (rule leaders_ok_upd [OF gw_invD(5) [OF inv], of p]) (simp_all add: F)
  show "store_inv {} w'"
  proof -
    note st = store_invD [OF gw_invD(3) [OF inv]]
    have id: "id_used w' n = id_used w n" for n by (simp add: id_used_def F)
    have m: "map_of (gw_store w') n = (if n = get_counter (g_guid g) then None else map_of (gw_store w) n)" for n
      unfolding F by (rule map_of_filter_key)
    have "om_sorted (gw_store w')" unfolding F using st(1) by (simp add: om_sorted_filter)
    moreover have "q \<noteq> p" if n: "map_of (gw_store w') n = Some q" for n q
    proof
      assume "q = p"
      with n m have "map_of (gw_store w) n = Some p" "n \<noteq> get_counter (g_guid g)" by (simp_all split: if_splits)
      then show False using st(2) [of n p] st(4) [of n p] a group_counter [of n] by auto
    qed
    moreover have "n \<noteq> get_counter (g_guid g)" if q: "q \<noteq> p" "gw_groups w q = Some h" "g_slots h \<noteq> []"
        "g_guid h = guid_create_global HG_Group n" "map_of (gw_store w) n = Some q" for q h n
    proof
      assume n: "n = get_counter (g_guid g)"
      have nz: "n \<noteq> 0" by (rule st(2) [OF q(5)])
      show False
      proof (cases "g_slots g = []")
        case True
        then have "g_guid g = 0" using st(5) [OF a] by simp
        then show False using n nz by (simp add: get_counter_zero)
      next
        case False
        then obtain k where k: "g_guid g = guid_create_global HG_Group k" "map_of (gw_store w) k = Some p" using st(6) [OF a] by auto
        then have "n = k" using n group_counter [OF st(2) [OF k(2)]] by simp
        then show False using q(1,5) k(2) by simp
      qed
    qed
    ultimately show ?thesis
      unfolding store_inv_def id F(2,6)
    proof (intro conjI allI impI ballI)
      assume keys: "\<And>n q. map_of (gw_store w') n = Some q \<Longrightarrow> q \<noteq> p"
        and others: "\<And>q h n. q \<noteq> p \<Longrightarrow> gw_groups w q = Some h \<Longrightarrow> g_slots h \<noteq> [] \<Longrightarrow> g_guid h = guid_create_global HG_Group n
          \<Longrightarrow> map_of (gw_store w) n = Some q \<Longrightarrow> n \<noteq> get_counter (g_guid g)"
      { fix n q assume n: "map_of (gw_store w') n = Some q"
        then have o: "map_of (gw_store w) n = Some q" by (simp add: m split: if_splits)
        show "n \<noteq> 0" "id_used w n" by (rule st(2) [OF o], rule st(3) [OF o])
        show "\<exists>h. ((gw_groups w)(p := None)) q = Some h \<and> g_slots h \<noteq> [] \<and> g_guid h = guid_create_global HG_Group n"
          using st(4) [OF o] keys [OF n] by simp }
      fix q h assume q: "((gw_groups w)(p := None)) q = Some h"
      then have o: "q \<noteq> p" "gw_groups w q = Some h" by (auto split: if_splits)
      show "if g_slots h = [] then g_guid h = 0 else \<exists>n. g_guid h = guid_create_global HG_Group n \<and> map_of (gw_store w') n = Some q"
      proof (cases "g_slots h = []")
        case True
        then show ?thesis using st(5) [OF o(2)] by simp
      next
        case False
        then obtain n where n: "g_guid h = guid_create_global HG_Group n" "map_of (gw_store w) n = Some q" using st(6) [OF o(2)] by auto
        with others [OF o False n] False show ?thesis by (auto simp: m)
      qed
    qed (use st(8,9) in auto)
  qed
qed (use gone in \<open>simp_all add: F uninvite_all_def\<close>)

end
