(* ===== verification/GroupEnds.thy ===== *)
theory GroupEnds
  imports GroupMoves
begin

text \<open>
  The end of a group, and a member who leaves: the references are cut one after the other, then
  the slots are taken away.
\<close>

section \<open>Operations that only look at the core\<close>

lemma core_upd_player:
  assumes "core v = core w" "\<And>pl pl'. pcore pl = pcore pl' \<Longrightarrow> pcore (f pl) = pcore (f' pl')"
  shows "core (upd_player x f v) = core (upd_player x f' w)"
proof -
  have "map_option pcore (map_option f a) = map_option pcore (map_option f' b)" if "map_option pcore a = map_option pcore b" for a b
    using that assms(2) by (cases a; cases b) auto
  then show ?thesis using core_eqD [OF assms(1)] by (intro core_eqI) simp_all
qed

lemma core_upd_group:
  assumes "core v = core w" "\<And>g g'. gcore g = gcore g' \<Longrightarrow> gcore (f g) = gcore (f' g')"
  shows "core (upd_group p f v) = core (upd_group p f' w)"
proof -
  have "map_option gcore (map_option f a) = map_option gcore (map_option f' b)" if "map_option gcore a = map_option gcore b" for a b
    using that assms(2) by (cases a; cases b) auto
  then show ?thesis using core_eqD [OF assms(1)] by (intro core_eqI) simp_all
qed

lemma gcore_eqI:
  assumes "g_slots g = g_slots h" "g_refs g = g_refs h" "g_invitees g = g_invitees h" "g_leader g = g_leader h" "g_leader_name g = g_leader_name h"
    "g_type g = g_type h" "g_bf g = g_bf h" "g_bg g = g_bg h" "g_counts g = g_counts h" "g_guid g = g_guid h"
  shows "gcore g = gcore h"
  using assms by (cases g; cases h) (simp add: gcore_def)

lemma gcore_leader_name: "gcore g = gcore h \<Longrightarrow> g_leader_name g = g_leader_name h"
  by (cases g; cases h) (simp add: gcore_def)

lemma pcore_eqI:
  assumes "gp_name a = gp_name b" "gp_ref a = gp_ref b" "gp_original a = gp_original b" "gp_invite a = gp_invite b"
  shows "pcore a = pcore b"
  using assms by (cases a; cases b) (simp add: pcore_def)

lemma core_unlink_ref:
  assumes c: "core v = core w"
  shows "core (unlink_ref orig x v) = core (unlink_ref orig x w)"
proof (cases "gw_players v x")
  case None
  then have "gw_players w x = None" using core_eqD(1) [OF c, of x] by simp
  then show ?thesis using None c by (simp add: unlink_ref_def)
next
  case (Some pl)
  then obtain pl' where pl': "gw_players w x = Some pl'" "pcore pl = pcore pl'"
    using core_eqD(1) [OF c, of x] by (cases "gw_players w x") auto
  have r: "get_ref orig pl = get_ref orig pl'" using pcore_eqD [OF pl'(2)] by (simp add: get_ref_def)
  have p: "pcore (put_ref orig k a) = pcore (put_ref orig k b)" if "pcore a = pcore b" for k a b
    using pcore_eqD [OF that] by (auto simp: put_ref_def intro!: pcore_eqI)
  have g: "gcore (a\<lparr>g_refs := removeAll z (g_refs a)\<rparr>) = gcore (b\<lparr>g_refs := removeAll z (g_refs b)\<rparr>)" if "gcore a = gcore b" for z a b
    using gcore_eqD [OF that] gcore_leader_name [OF that] by (intro gcore_eqI) simp_all
  show ?thesis
    using Some pl'(1) r c by (auto simp: unlink_ref_def split: option.splits intro!: core_upd_player core_upd_group p g)
qed

lemma core_upd_cache: "core v = core w \<Longrightarrow> core (upd_cache f v) = core (upd_cache f w)"
  using core_eqD [of v w] by (intro core_eqI) (simp_all add: upd_cache_def)

lemma gw_inv_core: "gw_inv S L G w \<Longrightarrow> core w' = core w \<Longrightarrow> safe w' \<Longrightarrow> gw_inv S L G w'"
  by (rule gw_inv_neutral) (simp_all add: neutral_def)

section \<open>The cache entry of one character\<close>

lemma cache_group_fields:
  "has_character_cache_entry (update_character_group x k cc) y \<longleftrightarrow> has_character_cache_entry cc y"
  "y \<noteq> x \<Longrightarrow> get_character_group_guid_by_guid (update_character_group x k cc) y = get_character_group_guid_by_guid cc y"
  "has_character_cache_entry cc x \<Longrightarrow> get_character_group_guid_by_guid (update_character_group x k cc) x = k"
  by (auto simp: update_character_group_def modify_entry_def has_character_cache_entry_def get_character_group_guid_by_guid_def
      by_guid_def get_character_cache_by_guid_def map_of_AList_update split: option.splits)

lemma cache_clear_fields:
  "has_character_cache_entry (clear_character_group x cc) y \<longleftrightarrow> has_character_cache_entry cc y"
  "y \<noteq> x \<Longrightarrow> get_character_group_guid_by_guid (clear_character_group x cc) y = get_character_group_guid_by_guid cc y"
  by (simp_all add: clear_character_group_def cache_group_fields)

lemma cache_group_ok: "cache_ok cc \<Longrightarrow> cache_ok (update_character_group x k cc)"
  "cache_ok cc \<Longrightarrow> cache_ok (clear_character_group x cc)"
  unfolding clear_character_group_def update_character_group_def by (rule modify_ok; simp)+

lemma upd_cache_fields [simp]:
  "gw_players (upd_cache f w) = gw_players w" "gw_groups (upd_cache f w) = gw_groups w" "gw_next (upd_cache f w) = gw_next w"
  "gw_store (upd_cache f w) = gw_store w" "gw_next_id (upd_cache f w) = gw_next_id w" "gw_ids (upd_cache f w) = gw_ids w"
  "gw_cache (upd_cache f w) = f (gw_cache w)" "gw_log (upd_cache f w) = gw_log w" "gw_loots (upd_cache f w) = gw_loots w"
  by (simp_all add: upd_cache_def)

lemma safe_upd_cache: "safe w \<Longrightarrow> safe (upd_cache f w)"
  by (auto simp: safe_def clean_def rolls_valid_def)

section \<open>Cutting one member's reference\<close>

lemma safe_unlink_ref: "safe w \<Longrightarrow> safe (unlink_ref orig x w)"
  by (auto simp: unlink_ref_def safe_upd_player safe_upd_group split: option.splits)

definition cut_player :: "group_player option \<Rightarrow> group_player option" where
  "cut_player = map_option (\<lambda>pl. pl\<lparr>gp_ref := (gp_ref pl)\<lparr>ref_target := None\<rparr>\<rparr>)"

lemma unlink_fields:
  assumes inv: "gw_inv S L G w" and a: "gw_groups w p = Some g" and x: "x \<in> members g - G"
  shows "gw_players (unlink_ref False x w) = (gw_players w)(x := cut_player (gw_players w x))"
    "gw_groups (unlink_ref False x w) = (gw_groups w)(p \<mapsto> g\<lparr>g_refs := removeAll (x, False) (g_refs g)\<rparr>)"
    "gw_cache (unlink_ref False x w) = gw_cache w" "same_manager w (unlink_ref False x w)"
proof -
  note gi = gw_invD(2) [OF inv a]
  show "gw_players (unlink_ref False x w) = (gw_players w)(x := cut_player (gw_players w x))"
    "gw_groups (unlink_ref False x w) = (gw_groups w)(p \<mapsto> g\<lparr>g_refs := removeAll (x, False) (g_refs g)\<rparr>)"
  proof -
    show "gw_players (unlink_ref False x w) = (gw_players w)(x := cut_player (gw_players w x))"
    proof (cases "gw_players w x")
      case (Some pl)
      then show ?thesis using group_invD(6) [OF gi x Some] by (simp add: unlink_ref_def get_ref_def put_ref_def cut_player_def)
    qed (auto simp: unlink_ref_def cut_player_def)
    show "gw_groups (unlink_ref False x w) = (gw_groups w)(p \<mapsto> g\<lparr>g_refs := removeAll (x, False) (g_refs g)\<rparr>)"
    proof (cases "gw_players w x")
      case None
      then have "(x, False) \<notin> set (g_refs g)" using group_invD(3) [OF gi] by simp
      then show ?thesis using None a by (simp add: unlink_ref_def fun_upd_idem)
    next
      case (Some pl)
      then show ?thesis using group_invD(6) [OF gi x Some] a by (simp add: unlink_ref_def get_ref_def put_ref_def)
    qed
  qed
  show "gw_cache (unlink_ref False x w) = gw_cache w" "same_manager w (unlink_ref False x w)"
    by (auto simp: unlink_ref_def split: option.splits)
qed

lemma detach_inv:
  assumes inv: "gw_inv S L G w" and a: "gw_groups w p = Some g" and x: "x \<in> members g - G"
    and F: "gw_players w' = (gw_players w)(x := cut_player (gw_players w x))"
      "gw_groups w' = (gw_groups w)(p \<mapsto> g\<lparr>g_refs := removeAll (x, False) (g_refs g)\<rparr>)" "same_manager w w'" "safe w'"
    and entries: "\<And>y. has_character_cache_entry (gw_cache w') y \<longleftrightarrow> has_character_cache_entry (gw_cache w) y"
    and cache: "\<And>y. y \<noteq> x \<Longrightarrow> get_character_group_guid_by_guid (gw_cache w') y = get_character_group_guid_by_guid (gw_cache w) y"
    and cok: "cache_ok (gw_cache w) \<Longrightarrow> cache_ok (gw_cache w')"
  shows "gw_inv S L (insert x G) w'"
proof -
  let ?g = "g\<lparr>g_refs := removeAll (x, False) (g_refs g)\<rparr>"
  note gi = gw_invD(2) [OF inv a]
  note o = group_okD [OF group_invD(1) [OF gi]]
  have sl: "get_member_group y ?g = get_member_group y g" for y by (rule get_member_group_cong) simp
  have gok: "group_ok ?g"
  proof (rule group_ok_upd [OF group_invD(1) [OF gi]])
    show "counts_ok ?g" using o(6) counts_ok_cong [of ?g g] by simp
  qed (use o in \<open>simp_all add: removeAll_filter_not_eq\<close>)
  have nx: "gw_next w' = gw_next w" using F(3) by (simp add: same_manager_def)
  have conn: "gw_players w' y = None \<longleftrightarrow> gw_players w y = None" for y by (simp add: F cut_player_def)
  show ?thesis
  proof (rule gw_inv_upd [OF inv a F(3), where X = "{x}" and g' = ?g])
    show "\<And>q h y. q \<noteq> p \<Longrightarrow> gw_groups w q = Some h \<Longrightarrow> y \<in> members h \<Longrightarrow> y \<in> insert x G \<longleftrightarrow> y \<in> G"
      using one_groupD [OF gw_invD(6) [OF inv] a] x by blast
    show "group_inv (insert x G) w' p ?g"
      unfolding group_inv_def nx entries
    proof (intro conjI allI ballI impI)
      fix y b show "((y, b) \<in> set (g_refs ?g)) = (\<not> b \<and> y \<in> members ?g - insert x G \<and> gw_players w' y \<noteq> None)"
        unfolding conn using group_invD(3) [OF gi, of y b] by auto
    next
      fix y assume "y \<in> members ?g - insert x G"
      then show "has_character_cache_entry (gw_cache w) y" "get_character_group_guid_by_guid (gw_cache w') y = g_guid ?g"
        using group_invD(4,5) [OF gi, of y] cache [of y] by auto
    next
      fix y pl assume "y \<in> members ?g - insert x G" "gw_players w' y = Some pl"
      then show "ref_target (gp_ref pl) = Some p" using group_invD(6) [OF gi, of y] by (auto simp: F)
    next
      fix y assume "y \<in> set (g_invitees ?g)"
      then show "\<exists>pl. gw_players w' y = Some pl \<and> gp_invite pl = Some p"
        using group_invD(7) [OF gi, of y] by (auto simp: F cut_player_def)
    qed (use gok group_invD(2) [OF gi] in auto)
    show "\<And>y pl. y \<in> {x} \<Longrightarrow> gw_players w' y = Some pl \<Longrightarrow> player_inv (insert x G) w' y pl"
    proof -
      fix y pl assume y: "y \<in> {x}" "gw_players w' y = Some pl"
      then obtain ql where ql: "gw_players w x = Some ql" "pl = ql\<lparr>gp_ref := (gp_ref ql)\<lparr>ref_target := None\<rparr>\<rparr>"
        by (auto simp: F cut_player_def)
      note pi = gw_invD(1) [OF inv ql(1)]
      have "gp_invite ql = None"
        using group_invD(6) [OF gi x ql(1)] player_invD(4) [OF pi] by (cases "gp_invite ql") auto
      then show "player_inv (insert x G) w' y pl"
        using y(1) ql(2) player_invD(1,2) [OF pi] by (simp add: player_inv_def entries)
    qed
    show "\<And>y pl. y \<notin> {x} \<Longrightarrow> gw_players w y = Some pl \<Longrightarrow> ref_target (gp_ref pl) = Some p
        \<Longrightarrow> y \<notin> insert x G \<and> y \<in> members ?g \<and> ref_subgroup (gp_ref pl) = get_member_group y ?g"
      using player_invD(3,6) [OF gw_invD(1) [OF inv]] a unfolding sl by fastforce
    show "\<And>y pl. y \<notin> {x} \<Longrightarrow> gw_players w y = Some pl \<Longrightarrow> gp_invite pl = Some p \<Longrightarrow> y \<in> set (g_invitees ?g)"
      using player_invD(5) [OF gw_invD(1) [OF inv]] a by fastforce
    show "\<And>y q h. y \<in> {x} \<Longrightarrow> q \<noteq> p \<Longrightarrow> gw_groups w q = Some h \<Longrightarrow> y \<notin> members h"
      using one_groupD [OF gw_invD(6) [OF inv] a] x by blast
    show "\<And>y q h. y \<in> {x} \<Longrightarrow> q \<noteq> p \<Longrightarrow> gw_groups w q = Some h \<Longrightarrow> y \<in> set (g_invitees h)
        \<Longrightarrow> \<exists>pl. gw_players w' y = Some pl \<and> gp_invite pl = Some q"
      using group_invD(7) [OF gw_invD(2) [OF inv]] by (fastforce simp: F cut_player_def)
    show "p \<notin> L \<Longrightarrow> g_slots ?g \<noteq> [] \<Longrightarrow> g_leader ?g \<in> members ?g"
      using gw_invD(5) [OF inv] a by (simp add: leaders_ok_def)
    show "\<And>y. y \<notin> {x} \<Longrightarrow> get_character_group_guid_by_guid (gw_cache w') y = get_character_group_guid_by_guid (gw_cache w) y"
      using cache by simp
  qed (simp_all add: F entries cok)
qed

section \<open>Players without an invitation\<close>

definition uninvited :: "guid \<Rightarrow> group_world \<Rightarrow> bool" where
  "uninvited x w \<longleftrightarrow> get_group_invite w x = None"

lemma uninvited_core: "core v = core w \<Longrightarrow> uninvited x v \<longleftrightarrow> uninvited x w"
  using core_eqD(1) [of v w x] by (cases "gw_players v x"; cases "gw_players w x") (auto simp: uninvited_def get_group_invite_def dest!: pcore_eqD(4))

lemma uninvited_upd:
  "(\<And>pl. gp_invite (f pl) = gp_invite pl) \<Longrightarrow> uninvited x (upd_player y f w) \<longleftrightarrow> uninvited x w"
  by (cases "gw_players w x") (auto simp: uninvited_def get_group_invite_def)

lemma uninvited_same: "gw_players v = gw_players w \<Longrightarrow> uninvited x v \<longleftrightarrow> uninvited x w"
  by (simp add: uninvited_def get_group_invite_def)

lemma uninvited_unlink: "uninvited x (unlink_ref orig y w) \<longleftrightarrow> uninvited x w"
proof (cases "gw_players w y")
  case None
  then show ?thesis by (simp add: unlink_ref_def)
next
  case (Some pl)
  show ?thesis
  proof (cases "ref_target (get_ref orig pl)")
    case None
    then show ?thesis using Some by (simp add: unlink_ref_def)
  next
    case (Some p)
    have "uninvited x (upd_player y (put_ref orig r) (upd_group p f w)) \<longleftrightarrow> uninvited x w" for r f
      using uninvited_upd [of "put_ref orig r" x y "upd_group p f w"] uninvited_same [of "upd_group p f w" w x] by (simp add: put_ref_def)
    then show ?thesis using \<open>gw_players w y = Some pl\<close> Some by (simp add: unlink_ref_def)
  qed
qed

section \<open>Disbanding\<close>

lemma get_original_core: "core v = core w \<Longrightarrow> get_original_group v x = get_original_group w x"
  using core_eqD(1) [of v w x] by (cases "gw_players v x"; cases "gw_players w x") (auto simp: get_original_group_def dest!: pcore_eqD(3))

lemma get_group_core: "core v = core w \<Longrightarrow> get_group v x = get_group w x"
  using core_eqD(1) [of v w x] by (cases "gw_players v x"; cases "gw_players w x") (auto simp: get_group_def dest!: pcore_eqD(2))

lemma get_group_unlink: "get_group (unlink_ref False x w) x = None"
  by (auto simp: unlink_ref_def get_group_def get_ref_def put_ref_def split: option.splits)

lemma leave_references_eq:
  assumes "\<not> bg_or_bf g" "get_original_group w x = None"
  shows "leave_references p x g w = unlink_ref False x w"
  using assms by (simp add: leave_references_def player_set_group_def)

lemma same_manager_core: "core w' = core w \<Longrightarrow> same_manager w w'"
  using core_eqD(3-6) [of w' w] by auto

lemma same_manager_trans: "same_manager a b \<Longrightarrow> same_manager b c \<Longrightarrow> same_manager a c"
  by (simp add: same_manager_def)

lemma disband_member_inv:
  assumes inv: "gw_inv S L G w" and a: "gw_groups w p = Some g" and x: "ms_guid m \<in> members g - G" and n: "\<not> bg_or_bf g0"
  obtains i' w' where "disband_member e p hide g0 m (i, w) = (i', w')" "gw_inv S L (insert (ms_guid m) G) w'"
    "core w' = core (unlink_ref False (ms_guid m) (upd_cache (clear_character_group (ms_guid m)) w))"
proof -
  let ?x = "ms_guid m"
  let ?c = "upd_cache (clear_character_group ?x) w"
  let ?u = "unlink_ref False ?x ?c"
  have U: "gw_players ?u = gw_players (unlink_ref False ?x w)" "gw_groups ?u = gw_groups (unlink_ref False ?x w)" "gw_cache ?u = gw_cache ?c"
    "same_manager w ?u"
    by (auto simp: unlink_ref_def split: option.splits)
  note F = unlink_fields [OF inv a x]
  have iu: "gw_inv S L (insert ?x G) ?u"
  proof (rule detach_inv [OF inv a x])
    show "cache_ok (gw_cache ?u)" if "cache_ok (gw_cache w)" using cache_group_ok(2) [OF that] by (simp only: U upd_cache_fields)
    show "safe ?u" by (intro safe_unlink_ref safe_upd_cache gw_invD(4) [OF inv])
  qed (simp_all only: U F upd_cache_fields cache_clear_fields not_False_eq_True)
  define w3 where "w3 = glog (GResetInstances ?x INSTANCE_RESET_GROUP_LEAVE) (homebind_if_instance e ?x ?c)"
  have "neutral ?c w3"
    unfolding w3_def by (rule neutral_trans [OF neutral_homebind neutral_glog]) simp
  then have c3: "core w3 = core ?c" and s3: "safe w3" using gw_invD(4) [OF inv] by (simp_all add: neutral_def safe_upd_cache)
  show ?thesis
  proof (cases "grp_connected w ?x")
    case False
    then have "?u = ?c" by (auto simp: unlink_ref_def grp_connected_def)
    with c3 have "core w3 = core ?u" by simp
    then have i3: "gw_inv S L (insert ?x G) w3" by (rule gw_inv_core [OF iu _ s3])
    have "\<not> grp_connected w3 ?x" using connected_core [OF c3, of ?x] False by (simp add: grp_connected_def)
    then have "disband_member e p hide g0 m (i, w) = (i, w3)"
      using n False by (simp add: disband_member_def Let_def w3_def grp_connected_def)
    then show ?thesis using that i3 \<open>core w3 = core ?u\<close> by blast
  next
    case True
    have conn: "grp_connected w3 ?x" using connected_core [OF c3, of ?x] True by (simp add: grp_connected_def)
    have "get_original_group w3 ?x = None"
      using get_original_core [OF c3] inv_original [OF inv, of ?x] by (simp add: get_original_group_def)
    then have lv: "leave_references p ?x g0 w3 = unlink_ref False ?x w3" by (rule leave_references_eq [OF n])
    define w4 where "w4 = unlink_ref False ?x w3"
    have c4: "core w4 = core ?u" unfolding w4_def by (rule core_unlink_ref [OF c3])
    have s4: "safe w4" unfolding w4_def by (rule safe_unlink_ref [OF s3])
    define w5 where "w5 = (if hide then w4 else send_to ?x (WorldPacket SMSG_GROUP_DESTROYED []) w4)"
    have n5: "neutral w4 w5" by (simp add: w5_def neutral_send_to)
    have "get_group w5 ?x = None"
      using get_group_core [OF neutral_core [OF n5]] get_group_unlink by (simp add: w4_def)
    then obtain i' where d: "disband_member e p hide g0 m (i, w) = (i', send_to ?x (empty_list_packet g0) w5)"
      using n True conn lv by (simp add: disband_member_def Let_def w3_def [symmetric] w4_def [symmetric] w5_def [symmetric] cong: if_cong)
    have n6: "neutral w4 (send_to ?x (empty_list_packet g0) w5)" by (rule neutral_trans [OF n5 neutral_send_to])
    then have c6: "core (send_to ?x (empty_list_packet g0) w5) = core ?u" and s6: "safe (send_to ?x (empty_list_packet g0) w5)"
      using c4 s4 by (simp_all add: neutral_def)
    show ?thesis using that [OF d gw_inv_core [OF iu c6 s6] c6] .
  qed
qed

text \<open>What the groups have in common before and after.\<close>

definition same_lists :: "group_data \<Rightarrow> group_data \<Rightarrow> bool" where
  "same_lists g g' \<longleftrightarrow> g_slots g' = g_slots g \<and> g_invitees g' = g_invitees g \<and> g_guid g' = g_guid g"

lemma disband_loop_inv:
  assumes "gw_inv S L G w" "gw_groups w p = Some g" "ms_guid ` set ms \<subseteq> members g - G" "distinct (map ms_guid ms)" "\<not> bg_or_bf g0"
  shows "\<exists>i' w' g'. fold (disband_member e p hide g0) ms (i, w) = (i', w') \<and> gw_inv S L (G \<union> ms_guid ` set ms) w' \<and> same_manager w w'
    \<and> gw_groups w' p = Some g' \<and> same_lists g g' \<and> (\<forall>q. q \<noteq> p \<longrightarrow> map_option gcore (gw_groups w' q) = map_option gcore (gw_groups w q))
    \<and> (\<forall>y. uninvited y w \<longrightarrow> uninvited y w')"
  using assms
proof (induction ms arbitrary: G w g i)
  case Nil
  then show ?case by (auto simp: same_lists_def same_manager_def)
next
  case (Cons m ms)
  have x: "ms_guid m \<in> members g - G" using Cons.prems(3) by simp
  obtain i1 w1 where d: "disband_member e p hide g0 m (i, w) = (i1, w1)" "gw_inv S L (insert (ms_guid m) G) w1"
    and c1: "core w1 = core (unlink_ref False (ms_guid m) (upd_cache (clear_character_group (ms_guid m)) w))"
    by (rule disband_member_inv [OF Cons.prems(1,2) x Cons.prems(5)])
  have gr: "gw_groups (unlink_ref False (ms_guid m) (upd_cache (clear_character_group (ms_guid m)) w))
      = (gw_groups w)(p \<mapsto> g\<lparr>g_refs := removeAll (ms_guid m, False) (g_refs g)\<rparr>)"
    using unlink_fields(2) [OF Cons.prems(1,2) x] by (auto simp: unlink_ref_def split: option.splits)
  obtain g1 where g1: "gw_groups w1 p = Some g1" "gcore g1 = gcore (g\<lparr>g_refs := removeAll (ms_guid m, False) (g_refs g)\<rparr>)"
    using core_eqD(2) [OF c1, of p] gr by auto
  have same1: "same_lists g g1" using gcore_eqD [OF g1(2)] by (simp add: same_lists_def)
  have man1: "same_manager w w1"
    by (rule same_manager_trans [OF _ same_manager_core [OF c1]]) (auto simp: unlink_ref_def split: option.splits)
  have oth1: "map_option gcore (gw_groups w1 q) = map_option gcore (gw_groups w q)" if "q \<noteq> p" for q
    using core_eqD(2) [OF c1, of q] gr that by simp
  have dist: "distinct (map ms_guid ms)" using Cons.prems(4) by simp
  have sub: "ms_guid ` set ms \<subseteq> members g1 - insert (ms_guid m) G"
  proof -
    have "ms_guid m \<notin> ms_guid ` set ms" using Cons.prems(4) by simp
    then show ?thesis using Cons.prems(3) same1 by (simp add: same_lists_def subset_Diff_insert)
  qed
  obtain i' w' g' where IH: "fold (disband_member e p hide g0) ms (i1, w1) = (i', w')"
    "gw_inv S L (insert (ms_guid m) G \<union> ms_guid ` set ms) w'" "same_manager w1 w'" "gw_groups w' p = Some g'" "same_lists g1 g'"
    "\<forall>q. q \<noteq> p \<longrightarrow> map_option gcore (gw_groups w' q) = map_option gcore (gw_groups w1 q)" "\<forall>y. uninvited y w1 \<longrightarrow> uninvited y w'"
    using Cons.IH [OF d(2) g1(1) sub dist Cons.prems(5), of i1] by blast
  have "fold (disband_member e p hide g0) (m # ms) (i, w) = (i', w')" using d(1) IH(1) by simp
  moreover have "gw_inv S L (G \<union> ms_guid ` set (m # ms)) w'" using IH(2) by simp
  moreover have "same_lists g g'" using same1 IH(5) by (simp add: same_lists_def)
  moreover have "uninvited y w' " if "uninvited y w" for y
    using IH(7) that uninvited_core [OF c1, of y] uninvited_unlink [of y]
      uninvited_same [of "upd_cache (clear_character_group (ms_guid m)) w" w y] by simp
  ultimately show ?case using same_manager_trans [OF man1 IH(3)] IH(4,6) oth1 by auto
qed

lemma disband_inv:
  assumes inv: "gw_inv {} L {} w" and a: "gw_groups w p = Some g"
  shows "gw_inv {} (L - {p}) {} (disband e p hide w)" "uninvited x w \<Longrightarrow> uninvited x (disband e p hide w)"
proof -
  note nb = inv_not_bg [OF inv a]
  let ?w0 = "glog (GOnDisband p) w"
  have i0: "gw_inv {} L {} ?w0" by (rule gw_inv_neutral [OF inv neutral_glog]) simp
  have a0: "gw_groups ?w0 p = Some g" using a by simp
  obtain i1 w1 g1 where 1: "fold (disband_member e p hide g) (g_slots g) (0, ?w0) = (i1, w1)" "gw_inv {} L (members g) w1"
    "same_manager ?w0 w1" "gw_groups w1 p = Some g1" "same_lists g g1" "\<forall>y. uninvited y ?w0 \<longrightarrow> uninvited y w1"
    using disband_loop_inv [OF i0 a0 _ group_okD(3) [OF group_invD(1) [OF gw_invD(2) [OF inv a]]] nb, of e hide 0] by auto
  define w2 where "w2 = upd_group p (\<lambda>g. g\<lparr>g_rolls := [], g_slots := []\<rparr>) w1"
  have conn: "grp_connected w2 x" if "x \<in> set (g_invitees g1)" for x
    using group_invD(7) [OF gw_invD(2) [OF 1(2,4)] that] by (auto simp: w2_def grp_connected_def)
  have a2: "gw_groups w2 p = Some (g1\<lparr>g_rolls := [], g_slots := []\<rparr>)" using 1(4) by (simp add: w2_def)
  have "(x, b) \<notin> set (g_refs g1)" for x b
    using group_invD(3) [OF gw_invD(2) [OF 1(2,4)], of x b] 1(5) by (simp add: same_lists_def)
  then have refs: "g_refs g1 = []" by (cases "g_refs g1") auto
  define w3 where "w3 = w2\<lparr>gw_players := uninvite_all (g_invitees g1) (gw_players w2)\<rparr>"
  have r3: "remove_all_invites p w2 = upd_group p (\<lambda>g. g\<lparr>g_invitees := []\<rparr>) w3"
  proof -
    have "fold (\<lambda>x w. if grp_connected w x then set_group_invite None x w else glog GBadPointer w) (g_invitees g1) w2 = w3"
      unfolding w3_def by (rule uninvite_fold) (use conn in \<open>auto simp: grp_connected_def\<close>)
    then show ?thesis using a2 by (simp add: remove_all_invites_def with_group_def)
  qed
  define w4 where "w4 = glog (GDeleteInstanceData i1) (db (DelLfgData (get_counter (g_guid g))) (db (DelGroupMemberAll (get_counter (g_guid g)))
      (db (DelGroup (get_counter (g_guid g))) (upd_group p (\<lambda>g. g\<lparr>g_invitees := []\<rparr>) w3))))"
  have d: "disband e p hide w = delete_group p (mgr_remove_group p w4)"
    using a nb 1(1) r3 [unfolded w2_def] by (simp add: disband_def with_group_def Let_def w4_def)
  have g4: "gw_groups w4 p = Some (g1\<lparr>g_rolls := [], g_slots := [], g_invitees := []\<rparr>)"
    using a2 by (simp add: w4_def db_def w3_def)
  have d': "disband e p hide w = (w4\<lparr>gw_store := filter (\<lambda>e. fst e \<noteq> get_counter (g_guid g1)) (gw_store w4)\<rparr>)\<lparr>gw_groups := (gw_groups w4)(p := None)\<rparr>"
    unfolding d using g4 refs by (simp add: mgr_remove_group_def delete_group_def with_group_def)
  have s: "safe (disband e p hide w)"
    using gw_invD(4) [OF 1(2)] unfolding d'
    by (auto simp: safe_def clean_def rolls_valid_def w4_def db_def w3_def w2_def split: if_splits)
  have P: "gw_players (disband e p hide w) = uninvite_all (g_invitees g1) (gw_players w1)"
    by (simp add: d' w4_def db_def w3_def w2_def)
  show "uninvited x (disband e p hide w)" if "uninvited x w"
  proof -
    have "uninvited x w1" using 1(6) that uninvited_same [of ?w0 w x] by simp
    then show ?thesis by (cases "gw_players w1 x") (auto simp: uninvited_def get_group_invite_def P uninvite_all_def)
  qed
  show "gw_inv {} (L - {p}) {} (disband e p hide w)"
  proof (rule end_group_inv [OF 1(2,4)])
    show "members g = members g1" using 1(5) by (simp add: same_lists_def)
    show "gw_groups (disband e p hide w) = (gw_groups w1)(p := None)" unfolding d' by (simp add: w4_def db_def w3_def w2_def)
  qed (use s in \<open>simp_all add: d' w4_def db_def w3_def w2_def\<close>)
qed

end
