(* ===== verification/GroupLeave.thy ===== *)
theory GroupLeave
  imports GroupEnds
begin

text \<open>A member who leaves or is removed; the choice of a new leader.\<close>

section \<open>The slot is erased\<close>

lemma erase_slot_filter: "distinct (map ms_guid ms) \<Longrightarrow> erase_slot x ms = filter (\<lambda>m. ms_guid m \<noteq> x) ms"
proof (induction ms)
  case (Cons m ms)
  have "filter (\<lambda>a. ms_guid a \<noteq> ms_guid m) ms = ms"
    by (rule filter_True) (use Cons.prems in \<open>metis distinct.simps(2) image_eqI list.set_map list.simps(9)\<close>)
  then show ?case using Cons by auto
qed simp

lemma sub_count_erase:
  assumes "distinct (map ms_guid ms)" "m \<in> set ms" "ms_guid m = x"
  shows "sub_count i ms = sub_count i (filter (\<lambda>m. ms_guid m \<noteq> x) ms) + (if unat (ms_group m) = i then 1 else 0)"
  using assms
proof (induction ms)
  case (Cons a ms)
  show ?case
  proof (cases "a = m")
    case True
    have "filter (\<lambda>a. ms_guid a \<noteq> x) ms = ms"
      by (rule filter_True) (use Cons.prems True in \<open>metis distinct.simps(2) image_eqI list.set_map list.simps(9)\<close>)
    then show ?thesis using True Cons.prems(3) by (simp add: sub_count_def)
  next
    case False
    then have "m \<in> set ms" "ms_guid a \<noteq> x" using Cons.prems by auto
    then show ?thesis using Cons by (simp add: sub_count_def)
  qed
qed simp

lemma unat_dec: "unat (c :: u8) = Suc k \<Longrightarrow> unat (c - 1) = k"
  using unat_sub [of 1 c] by (simp add: word_le_nat_alt)

lemma erase_counts:
  assumes ok: "group_ok g" and m: "slot_of x g = Some m"
  obtains g1 where "sub_group_counter_decrease (ms_group m) g = Some g1" "g1 = g\<lparr>g_counts := g_counts g1\<rparr>"
    "counts_ok (g1\<lparr>g_slots := erase_slot x (g_slots g)\<rparr>)"
proof -
  note o = group_okD [OF ok]
  have mem: "m \<in> set (g_slots g)" "ms_guid m = x" using slot_of_SomeD [OF m] by simp_all
  note e = erase_slot_filter [OF o(3), of x] and c = sub_count_erase [OF o(3) mem]
  show ?thesis
  proof (cases "g_counts g")
    case None
    have "length (g_slots g) \<le> MAXGROUPSIZE" using o(6) None by (simp add: counts_ok_def)
    then have len: "length (erase_slot x (g_slots g)) \<le> MAXGROUPSIZE" unfolding e using length_filter_le order_trans by blast
    have sub: "set (erase_slot x (g_slots g)) \<subseteq> set (g_slots g)" unfolding e by simp
    have "counts_ok (g\<lparr>g_slots := erase_slot x (g_slots g)\<rparr>)"
      using None o(6) len sub by (auto simp: counts_ok_def is_raid_group_def)
    then show ?thesis
      by (intro that [of g]) (use None in \<open>simp_all add: sub_group_counter_decrease_def\<close>)
  next
    case (Some cs)
    let ?i = "unat (ms_group m)" and ?ms = "erase_slot x (g_slots g)"
    let ?cs = "cs[?i := cs ! ?i - 1]"
    have k: "is_raid_group g" "length cs = MAX_RAID_SUBGROUPS" "\<forall>m \<in> set (g_slots g). unat (ms_group m) < MAX_RAID_SUBGROUPS"
      "\<And>i. i < MAX_RAID_SUBGROUPS \<Longrightarrow> unat (cs ! i) = sub_count i (g_slots g)" "\<And>i. i < MAX_RAID_SUBGROUPS \<Longrightarrow> sub_count i (g_slots g) \<le> MAXGROUPSIZE"
      using o(6) Some by (simp_all add: counts_ok_def)
    have i: "?i < length cs" using k(2,3) mem(1) by simp
    have new: "unat (?cs ! j) = sub_count j ?ms" "sub_count j ?ms \<le> MAXGROUPSIZE" if j: "j < MAX_RAID_SUBGROUPS" for j
    proof -
      show "sub_count j ?ms \<le> MAXGROUPSIZE" using c [of j] k(5) [OF j] by (simp add: e)
      show "unat (?cs ! j) = sub_count j ?ms"
      proof (cases "j = ?i")
        case True
        then have "unat (cs ! ?i) = Suc (sub_count j ?ms)" using c [of j] k(4) [OF j] by (simp add: e)
        then show ?thesis using unat_dec True i by simp
      next
        case False
        then show ?thesis using c [of j] k(4) [OF j] by (simp add: e)
      qed
    qed
    have "sub_group_counter_decrease (ms_group m) g = Some (g\<lparr>g_counts := Some ?cs\<rparr>)"
      using Some i by (simp add: sub_group_counter_decrease_def add_at_def)
    moreover have "counts_ok (g\<lparr>g_counts := Some ?cs, g_slots := ?ms\<rparr>)"
      unfolding counts_ok_def using k new by (simp add: is_raid_group_def e)
    ultimately show ?thesis by (intro that) simp_all
  qed
qed

lemma erase_member_slot_inv:
  assumes inv: "gw_inv {} L {x} w" and a: "gw_groups w p = Some g" and x: "x \<in> members g" and many: "length (g_slots g) > 1"
  obtains g' where "gw_inv {} (insert p L) {} (erase_member_slot p x w)" "gw_groups (erase_member_slot p x w) p = Some g'"
    "g_slots g' = filter (\<lambda>m. ms_guid m \<noteq> x) (g_slots g)" "g_leader g' = g_leader g" "same_manager w (erase_member_slot p x w)"
proof -
  note gi = gw_invD(2) [OF inv a]
  note o = group_okD [OF group_invD(1) [OF gi]]
  obtain m where m: "slot_of x g = Some m" using x slot_of_None_iff [of x g] by (cases "slot_of x g") auto
  obtain g1 where g1: "sub_group_counter_decrease (ms_group m) g = Some g1" "g1 = g\<lparr>g_counts := g_counts g1\<rparr>"
    "counts_ok (g1\<lparr>g_slots := erase_slot x (g_slots g)\<rparr>)"
    by (rule erase_counts [OF group_invD(1) [OF gi] m])
  let ?g = "g\<lparr>g_counts := g_counts g1, g_slots := filter (\<lambda>m. ms_guid m \<noteq> x) (g_slots g)\<rparr>" and ?w = "erase_member_slot p x w"
  have e: "erase_slot x (g_slots g) = filter (\<lambda>m. ms_guid m \<noteq> x) (g_slots g)" by (rule erase_slot_filter [OF o(3)])
  have g1': "g1\<lparr>g_slots := erase_slot x (g_slots g1)\<rparr> = ?g" using g1(2) e by (cases g; cases g1) simp
  have w': "?w = upd_cache (clear_character_group x) (upd_group p (\<lambda>g. g\<lparr>g_slots := erase_slot x (g_slots g)\<rparr>) (upd_group p (\<lambda>_. g1) w))"
    using a m g1(1) inv_not_bg [OF inv a] by (simp add: erase_member_slot_def with_group_def try_group_def)
  have F: "gw_players ?w = gw_players w" "gw_groups ?w = (gw_groups w)(p \<mapsto> ?g)" "gw_cache ?w = clear_character_group x (gw_cache w)"
    "same_manager w ?w"
    unfolding w' using a g1' by (simp_all add: same_manager_def)
  have s: "safe ?w"
  proof -
    have "g_rolls g1 = g_rolls g" using g1(2) by (metis group_data.select_convs(16) group_data.surjective group_data.update_convs(17))
    then have s1: "safe (upd_group p (\<lambda>_. g1) w)"
      using gw_invD(4) [OF inv] a by (auto simp: safe_def clean_def rolls_valid_def)
    show ?thesis unfolding w' by (rule safe_upd_cache, rule safe_upd_group [OF s1]) simp
  qed
  have mem: "members ?g = members g - {x}" by auto
  have ne: "g_slots ?g \<noteq> []"
  proof
    assume "g_slots ?g = []"
    then have "members g \<subseteq> {x}" using mem by auto
    then have "card (members g) \<le> 1" by (metis card_mono card.empty card_insert_disjoint finite.intros One_nat_def empty_iff)
    then show False using many distinct_card [OF o(3)] by simp
  qed
  have grp: "get_member_group y ?g = get_member_group y g" if "y \<noteq> x" for y
  proof -
    have "find (\<lambda>m. ms_guid m = y) (filter (\<lambda>m. ms_guid m \<noteq> x) ms) = find (\<lambda>m. ms_guid m = y) ms" for ms :: "member_slot list"
      using that by (induction ms) auto
    then show ?thesis by (simp add: get_member_group_def slot_of_def)
  qed
  have nx: "gw_next ?w = gw_next w" using F(4) by (simp add: same_manager_def)
  have gok: "group_ok ?g"
  proof (rule group_ok_upd [OF group_invD(1) [OF gi]])
    have "counts_ok (g1\<lparr>g_slots := erase_slot x (g_slots g)\<rparr>) = counts_ok ?g"
      using g1' g1(2) by (metis group_data.select_convs(1) group_data.surjective group_data.update_convs(17))
    then show "counts_ok ?g" using g1(3) by simp
  qed (use o in \<open>simp_all add: distinct_map_filter\<close>)
  have "gw_inv {} (insert p L) {} ?w"
  proof (rule gw_inv_upd [OF inv a F(4), where X = "{x}" and g' = ?g])
    show "group_inv {} ?w p ?g"
      unfolding group_inv_def nx mem F(1,3) cache_clear_fields
    proof (intro conjI allI ballI impI)
      fix y b show "((y, b) \<in> set (g_refs ?g)) = (\<not> b \<and> y \<in> members g - {x} - {} \<and> gw_players w y \<noteq> None)"
        using group_invD(3) [OF gi, of y b] by simp
    next
      fix y assume y: "y \<in> members g - {x} - {}"
      then show "has_character_cache_entry (gw_cache w) y"
        "get_character_group_guid_by_guid (clear_character_group x (gw_cache w)) y = g_guid ?g"
        using group_invD(4,5) [OF gi, of y] cache_clear_fields(2) [of y x] by auto
    next
      fix y pl assume "y \<in> members g - {x} - {}" "gw_players w y = Some pl"
      then show "ref_target (gp_ref pl) = Some p" using group_invD(6) [OF gi, of y] by simp
    qed (use gok group_invD(2,7) [OF gi] in auto)
    show "\<And>y pl. y \<in> {x} \<Longrightarrow> gw_players ?w y = Some pl \<Longrightarrow> player_inv {} ?w y pl"
    proof -
      fix y pl assume y: "y \<in> {x}" "gw_players ?w y = Some pl"
      then have pl: "gw_players w x = Some pl" by (simp add: F)
      note pi = gw_invD(1) [OF inv pl]
      have "ref_target (gp_ref pl) = None" using player_invD(6) [OF pi] by (cases "ref_target (gp_ref pl)") auto
      then show "player_inv {} ?w y pl"
        using y(1) player_invD(1,2,5) [OF pi] a by (auto simp: player_inv_def F cache_clear_fields)
    qed
    show "\<And>y pl. y \<notin> {x} \<Longrightarrow> gw_players w y = Some pl \<Longrightarrow> ref_target (gp_ref pl) = Some p
        \<Longrightarrow> y \<notin> {} \<and> y \<in> members ?g \<and> ref_subgroup (gp_ref pl) = get_member_group y ?g"
      using player_invD(3) [OF gw_invD(1) [OF inv]] a grp unfolding mem by fastforce
    show "\<And>y pl. y \<notin> {x} \<Longrightarrow> gw_players w y = Some pl \<Longrightarrow> gp_invite pl = Some p \<Longrightarrow> y \<in> set (g_invitees ?g)"
      using player_invD(5) [OF gw_invD(1) [OF inv]] a by fastforce
    show "\<And>q h y. q \<noteq> p \<Longrightarrow> gw_groups w q = Some h \<Longrightarrow> y \<in> members h \<Longrightarrow> y \<in> {} \<longleftrightarrow> y \<in> {x}"
      "\<And>y q h. y \<in> {x} \<Longrightarrow> q \<noteq> p \<Longrightarrow> gw_groups w q = Some h \<Longrightarrow> y \<notin> members h"
      using one_groupD [OF gw_invD(6) [OF inv] a] x by blast+
    show "\<And>y q h. y \<in> {x} \<Longrightarrow> q \<noteq> p \<Longrightarrow> gw_groups w q = Some h \<Longrightarrow> y \<in> set (g_invitees h)
        \<Longrightarrow> \<exists>pl. gw_players ?w y = Some pl \<and> gp_invite pl = Some q"
      using group_invD(7) [OF gw_invD(2) [OF inv]] by (simp add: F)
    show "(g_slots ?g = [] \<longleftrightarrow> g_slots g = []) \<or> (p \<in> {} \<and> g_slots ?g \<noteq> [])" using ne many by auto
    show "safe ?w" by (rule s)
  qed (auto simp: F cache_clear_fields cache_group_ok)
  then show ?thesis using that F by simp
qed

section \<open>The leader changes\<close>

lemma change_leader_inv:
  assumes inv: "gw_inv {} L {} w" and a: "gw_groups w p = Some g" and m: "slot_of y g = Some m" "grp_connected w y"
  shows "gw_inv {} (L - {p}) {} (change_leader e p y w)" "alive (change_leader e p y w) p"
    "uninvited z w \<Longrightarrow> uninvited z (change_leader e p y w)"
proof -
  define w1 where "w1 = upd_player y (\<lambda>pl. pl\<lparr>gp_leader_flag := True\<rparr>) (upd_player (g_leader g) (\<lambda>pl. pl\<lparr>gp_leader_flag := False\<rparr>)
    (glog (GCopyBinds (g_leader g) y) (db (UpdGroupLeader (get_counter y) (get_counter (g_guid g))) w)))"
  let ?f = "\<lambda>g. g\<lparr>g_leader := y, g_leader_name := player_name w1 y,
      g_slots := update_slot y (toggle_group_member_flag MEMBER_FLAG_ASSISTANT False) (g_slots g)\<rparr>"
  define w2 where "w2 = upd_group p ?f w1"
  have n1: "neutral w w1"
    unfolding w1_def
    by (rule neutral_trans [OF neutral_trans [OF neutral_trans [OF neutral_db neutral_glog] neutral_upd_player] neutral_upd_player])
      (simp_all add: pcore_def)
  have i1: "gw_inv {} L {} w1" by (rule gw_inv_neutral [OF inv n1])
  have a1: "gw_groups w1 p = Some g" using a by (simp add: w1_def db_def)
  have ks: "map ms_guid (update_slot y (toggle_group_member_flag MEMBER_FLAG_ASSISTANT False) ms) = map ms_guid ms"
    "map ms_group (update_slot y (toggle_group_member_flag MEMBER_FLAG_ASSISTANT False) ms) = map ms_group ms" for ms
    by (rule update_slot_kept; simp add: toggle_group_member_flag_def)+
  have mem: "y \<in> members g" using slot_of_SomeD [OF m(1)] by auto
  have i2: "gw_inv {} (L - {p}) {} w2"
  proof (rule gw_inv_group [OF i1 a1, where g' = "?f g"])
    show "counts_ok (?f g)"
      using group_okD(6) [OF group_invD(1) [OF gw_invD(2) [OF i1 a1]]] counts_ok_kept [of "?f g" g] ks(2) by simp
    show "safe w2" unfolding w2_def by (rule safe_upd_group [OF gw_invD(4) [OF i1]]) simp
    have "members (?f g) = members g" using arg_cong [OF ks(1) [of "g_slots g"], of set] by simp
    then show "g_leader (?f g) \<in> members (?f g)" using mem by simp
  qed (use a1 ks in \<open>simp_all add: w2_def same_manager_def\<close>)
  have al: "alive w2 p" using a1 by (simp add: w2_def alive_def)
  define w3 where "w3 = broadcast_packet (WorldPacket SMSG_GROUP_SET_LEADER [FStr (ms_name m)]) True None guid_empty p w2"
  have i3: "gw_inv {} (L - {p}) {} w3" unfolding w3_def by (rule inv_broadcast [OF i2 al])
  have a3: "alive w3 p"
    unfolding w3_def by (rule alive_coreI [OF neutral_core [OF neutral_broadcast_packet [OF al inv_refs_connected [OF i2]]] al])
  have n: "neutral w3 (with_group p (\<lambda>g. glog (GOnChangeLeader p y (g_leader g))) w3)"
    by (rule neutral_with_group [OF a3]) (rule neutral_glog, simp)
  have c: "change_leader e p y w = with_group p (\<lambda>g. glog (GOnChangeLeader p y (g_leader g))) w3"
    using a m inv_not_bg [OF inv a] by (simp add: change_leader_def with_group_def Let_def w3_def w2_def w1_def)
  show "gw_inv {} (L - {p}) {} (change_leader e p y w)" unfolding c by (rule gw_inv_neutral [OF i3 n])
  show "uninvited z (change_leader e p y w)" if "uninvited z w"
  proof -
    have "uninvited z w1" using uninvited_core [OF neutral_core [OF n1]] that by simp
    then have "uninvited z w2" using uninvited_same [of w2 w1 z] by (simp add: w2_def)
    moreover have "neutral w2 w3" unfolding w3_def by (rule neutral_broadcast_packet [OF al inv_refs_connected [OF i2]])
    ultimately show ?thesis
      unfolding c using uninvited_core [OF neutral_core [OF n], of z] uninvited_core [OF neutral_core, of w2 w3 z] by simp
  qed
  show "alive (change_leader e p y w) p" unfolding c by (rule alive_coreI [OF neutral_core [OF n] a3])
qed

lemma pick_new_leader_inv:
  assumes inv: "gw_inv {} {p} {} w" and a: "gw_groups w p = Some g" and lead: "g_leader g \<noteq> x \<Longrightarrow> g_leader g \<in> members g"
  shows "(gw_inv {} {} {} (pick_new_leader e p x w) \<and> alive (pick_new_leader e p x w) p)
    \<or> (pick_new_leader e p x w = w \<and> g_refs g = [])" "uninvited z w \<Longrightarrow> uninvited z (pick_new_leader e p x w)"
proof -
  have m: "slot_of (ms_guid m) g \<noteq> None" if "m \<in> set (g_slots g)" for m using that slot_of_None_iff [of "ms_guid m" g] by auto
  show "uninvited z (pick_new_leader e p x w)" if "uninvited z w"
  proof (cases "find (\<lambda>m. grp_connected w (ms_guid m)) (g_slots g)")
    case None
    then show ?thesis using that a by (simp add: pick_new_leader_def with_group_def)
  next
    case (Some n)
    then have n: "n \<in> set (g_slots g)" "grp_connected w (ms_guid n)" by (auto simp: find_Some_iff)
    obtain n' where "slot_of (ms_guid n) g = Some n'" using m [OF n(1)] by blast
    from change_leader_inv(3) [OF inv a this n(2) that] show ?thesis
      using that Some a by (simp add: pick_new_leader_def with_group_def)
  qed
  show "(gw_inv {} {} {} (pick_new_leader e p x w) \<and> alive (pick_new_leader e p x w) p)
    \<or> (pick_new_leader e p x w = w \<and> g_refs g = [])"
proof (cases "g_leader g = x")
  case False
  then have "pick_new_leader e p x w = w" using a by (simp add: pick_new_leader_def with_group_def)
  moreover have "leaders_ok {} w" using gw_invD(5) [OF inv] a lead [OF False] unfolding leaders_ok_def by (metis empty_iff insert_iff option.inject)
  ultimately show ?thesis using inv a by (simp add: gw_inv_def alive_def)
next
  case True
  show ?thesis
  proof (cases "find (\<lambda>m. grp_connected w (ms_guid m)) (g_slots g)")
    case None
    then have "\<not> grp_connected w y" if "y \<in> members g" for y using that by (auto simp: find_None_iff)
    then have "(y, b) \<notin> set (g_refs g)" for y b
      using group_invD(3) [OF gw_invD(2) [OF inv a], of y b] by (auto simp: grp_connected_def)
    then have "g_refs g = []" by (cases "g_refs g") auto
    then show ?thesis using True None a by (simp add: pick_new_leader_def with_group_def)
  next
    case (Some m)
    then have m: "m \<in> set (g_slots g)" "grp_connected w (ms_guid m)" by (auto simp: find_Some_iff)
    obtain m' where "slot_of (ms_guid m) g = Some m'" using m(1) slot_of_None_iff [of "ms_guid m" g] by (cases "slot_of (ms_guid m) g") auto
    from change_leader_inv(1,2) [OF inv a this m(2)] show ?thesis using True Some a by (simp add: pick_new_leader_def with_group_def)
  qed
qed
qed

section \<open>A member is removed\<close>

lemma detach_member_inv:
  assumes inv: "gw_inv {} L {} w" and a: "gw_groups w p = Some g" and x: "x \<in> members g"
  shows "gw_inv {} L {x} (detach_member p x method g w)"
    "core (detach_member p x method g w) = core (unlink_ref False x w)"
proof -
  have x': "x \<in> members g - {}" using x by simp
  note F = unlink_fields [OF inv a x']
  have iu: "gw_inv {} L {x} (unlink_ref False x w)"
    by (rule detach_inv [OF inv a x' F(1,2,4)]) (simp_all add: safe_unlink_ref gw_invD(4) [OF inv] F)
  have n: "neutral (unlink_ref False x w) (detach_member p x method g w)"
  proof (cases "grp_connected w x")
    case False
    then show ?thesis by (auto simp: detach_member_def unlink_ref_def grp_connected_def)
  next
    case True
    then show ?thesis
      using leave_references_eq [OF inv_not_bg [OF inv a] inv_original [OF inv]]
      by (auto simp: detach_member_def Let_def intro: neutral_send_to neutral_trans [OF neutral_send_to neutral_send_to])
  qed
  show "core (detach_member p x method g w) = core (unlink_ref False x w)" by (rule neutral_core [OF n])
  show "gw_inv {} L {x} (detach_member p x method g w)" by (rule gw_inv_neutral [OF iu n])
qed

lemma alive_neutral: "neutral w w' \<Longrightarrow> alive w p \<Longrightarrow> alive w' p"
  by (rule alive_coreI [OF neutral_core])

text \<open>\<open>remove_member\<close> up to the choice of a leader, and its end.\<close>

definition taken_out :: "group_env \<Rightarrow> nat \<Rightarrow> guid \<Rightarrow> u8 \<Rightarrow> group_data \<Rightarrow> group_world \<Rightarrow> group_world" where
  "taken_out e p x method g w =
     (let w = erase_member_slot p x (remove_member_votes e p x
            (db (DelGroupMember (get_counter x) (get_counter (g_guid g))) (detach_member p x method g w)))
      in case gw_players w x of Some pl \<Rightarrow> if gp_enchanting pl \<noteq> 0 then reset_max_enchanting_level e p w else w
         | None \<Rightarrow> reset_max_enchanting_level e p w)"

definition removal_end :: "group_env \<Rightarrow> nat \<Rightarrow> group_world \<Rightarrow> group_world" where
  "removal_end e p = with_group p (\<lambda>g w. if lfg_group_over e w g \<or> too_few_online g then disband e p False w else w)"

lemma erase_member_slot_players: "gw_players (erase_member_slot p x w) = gw_players w"
  by (auto simp: erase_member_slot_def with_group_def try_group_def Let_def split: option.split)

lemma votes_removed:
  assumes inv: "gw_inv {} {} {} w" and a: "gw_groups w p = Some g" and x: "x \<in> members g"
    and w3: "w3 = remove_member_votes e p x (db (DelGroupMember (get_counter x) (get_counter (g_guid g))) (detach_member p x method g w))"
  obtains g3 where "gw_inv {} {} {x} w3" "core w3 = core (unlink_ref False x w)" "gw_groups w3 p = Some g3"
    "gcore g3 = gcore (g\<lparr>g_refs := removeAll (x, False) (g_refs g)\<rparr>)"
proof -
  define w1 where "w1 = detach_member p x method g w"
  define w2 where "w2 = db (DelGroupMember (get_counter x) (get_counter (g_guid g))) w1"
  have w3: "w3 = remove_member_votes e p x w2" unfolding w3 w2_def w1_def ..
  have i1: "gw_inv {} {} {x} w1" and c1: "core w1 = core (unlink_ref False x w)"
    unfolding w1_def by (rule detach_member_inv [OF inv a x])+
  have n12: "neutral w1 w2" unfolding w2_def by (rule neutral_db)
  have u: "gw_groups (unlink_ref False x w) p = Some (g\<lparr>g_refs := removeAll (x, False) (g_refs g)\<rparr>)"
    using unlink_fields(2) [OF inv a, of x] x by simp
  have al2: "alive w2 p" by (rule alive_neutral [OF n12 alive_coreI [OF c1]]) (simp add: alive_def u)
  have i2: "gw_inv {} {} {x} w2" by (rule gw_inv_neutral [OF i1 n12])
  have n23: "neutral w2 w3" unfolding w3 by (rule neutral_remove_member_votes [OF al2 gw_invD(4) [OF i2]])
  have i3: "gw_inv {} {} {x} w3" by (rule gw_inv_neutral [OF i2 n23])
  have c3: "core w3 = core (unlink_ref False x w)" using neutral_core [OF n12] neutral_core [OF n23] c1 by simp
  then obtain g3 where "gw_groups w3 p = Some g3" "gcore g3 = gcore (g\<lparr>g_refs := removeAll (x, False) (g_refs g)\<rparr>)"
    using core_eqD(2) [of w3 _ p] u by fastforce
  then show ?thesis using that i3 c3 by blast
qed

lemma taken_out_inv:
  assumes inv: "gw_inv {} {} {} w" and a: "gw_groups w p = Some g" and x: "x \<in> members g" and many: "length (g_slots g) > 1"
  obtains g' where "gw_inv {} {p} {} (taken_out e p x method g w)" "gw_groups (taken_out e p x method g w) p = Some g'"
    "g_leader g' \<noteq> x \<Longrightarrow> g_leader g' \<in> members g'" "\<And>z. uninvited z w \<Longrightarrow> uninvited z (taken_out e p x method g w)"
proof -
  define w3 where "w3 = remove_member_votes e p x (db (DelGroupMember (get_counter x) (get_counter (g_guid g))) (detach_member p x method g w))"
  define w4 where "w4 = erase_member_slot p x w3"
  define w5 where "w5 = (case gw_players w4 x of Some pl \<Rightarrow> if gp_enchanting pl \<noteq> 0 then reset_max_enchanting_level e p w4 else w4
              | None \<Rightarrow> reset_max_enchanting_level e p w4)"
  have w5: "taken_out e p x method g w = w5" unfolding taken_out_def w5_def w4_def w3_def Let_def ..
  obtain g3 where i3: "gw_inv {} {} {x} w3" and c3: "core w3 = core (unlink_ref False x w)"
    and g3: "gw_groups w3 p = Some g3" "gcore g3 = gcore (g\<lparr>g_refs := removeAll (x, False) (g_refs g)\<rparr>)"
    by (rule votes_removed [OF inv a x w3_def])
  note e3 = gcore_eqD [OF g3(2)]
  have x3: "x \<in> members g3" "length (g_slots g3) > 1" using x many e3(1) by simp_all
  obtain g4 where i4: "gw_inv {} {p} {} w4" and g4: "gw_groups w4 p = Some g4"
    "g_slots g4 = filter (\<lambda>m. ms_guid m \<noteq> x) (g_slots g3)" "g_leader g4 = g_leader g3"
    unfolding w4_def by (rule erase_member_slot_inv [OF i3 g3(1) x3])
  have n45: "neutral w4 w5" unfolding w5_def by (auto split: option.split intro: neutral_reset_max_enchanting_level)
  have i5: "gw_inv {} {p} {} w5" by (rule gw_inv_neutral [OF i4 n45])
  obtain g5 where g5: "gw_groups w5 p = Some g5" "gcore g5 = gcore g4"
    using core_eqD(2) [OF neutral_core [OF n45], of p] g4(1) by auto
  have "g_leader g \<in> members g" using gw_invD(5) [OF inv] a x unfolding leaders_ok_def by (metis empty_iff image_is_empty set_empty)
  then have lead: "g_leader g5 \<noteq> x \<Longrightarrow> g_leader g5 \<in> members g5"
    using gcore_eqD(1,4) [OF g5(2)] g4(2,3) e3(1,4) by auto
  have un: "uninvited z w5" if "uninvited z w" for z
    using that uninvited_unlink [of z False x w] uninvited_core [OF c3, of z] uninvited_same [OF erase_member_slot_players [of p x w3], of z]
      uninvited_core [OF neutral_core [OF n45], of z] by (simp add: w4_def)
  show ?thesis using that [of g5] i5 g5(1) lead un unfolding w5 by blast
qed

lemma removal_end_inv:
  assumes "gw_inv {} L {} w" "gw_groups w p = Some g" "L = {} \<or> L = {p} \<and> g_refs g = []"
  shows "gw_inv {} {} {} (removal_end e p w)" "uninvited z w \<Longrightarrow> uninvited z (removal_end e p w)"
proof -
  have "too_few_online g" if "g_refs g = []" using that by (simp add: too_few_online_def)
  then show "gw_inv {} {} {} (removal_end e p w)"
    using assms disband_inv(1) [OF assms(1,2), of e False] by (auto simp: removal_end_def with_group_def)
  show "uninvited z (removal_end e p w)" if "uninvited z w"
    using that disband_inv(2) [OF assms(1,2) that] assms(2) by (simp add: removal_end_def with_group_def)
qed

lemma remove_member_steps:
  assumes "gw_groups w p = Some g" "\<not> bg_or_bf g" "\<not> (is_lfg_group True g \<and> method = GROUP_REMOVEMETHOD_KICK)"
    "members_count g > (if is_lfg_group False g then 1 else 2)"
  shows "remove_member e p x method kicker reason w = removal_end e p (send_update e p (glog (GOnRemoveMember p x method kicker reason)
    (glog (GResetInstances x INSTANCE_RESET_GROUP_LEAVE) (homebind_if_instance e x (pick_new_leader e p x (taken_out e p x method g w))))))"
  unfolding removal_end_def taken_out_def
  by (simp only: remove_member_def with_group_def [of p _ w] assms(1) option.case if_not_P [OF assms(3)] assms(2) simp_thms if_P [OF assms(4)] Let_def if_True)

text \<open>The world in which the end is decided.\<close>

lemma removal_end_reached:
  assumes inv: "gw_inv {} {} {} w" and a: "gw_groups w p = Some g" and x: "x \<in> members g" and many: "length (g_slots g) > 1"
    and w8: "w8 = send_update e p (glog (GOnRemoveMember p x method kicker reason) (glog (GResetInstances x INSTANCE_RESET_GROUP_LEAVE)
      (homebind_if_instance e x (pick_new_leader e p x (taken_out e p x method g w)))))"
  obtains L g8 where "gw_inv {} L {} w8" "gw_groups w8 p = Some g8" "L = {} \<or> L = {p} \<and> g_refs g8 = []"
    "\<And>z. uninvited z w \<Longrightarrow> uninvited z w8"
proof -
  let ?hook = "GOnRemoveMember p x method kicker reason"
  define w5 where "w5 = taken_out e p x method g w"
  define w6 where "w6 = pick_new_leader e p x w5"
  obtain g5 where 5: "gw_inv {} {p} {} w5" "gw_groups w5 p = Some g5" "g_leader g5 \<noteq> x \<Longrightarrow> g_leader g5 \<in> members g5"
    and u5: "\<And>z. uninvited z w \<Longrightarrow> uninvited z w5"
    unfolding w5_def by (rule taken_out_inv [OF inv a x many]) blast
  have 6: "(gw_inv {} {} {} w6 \<and> alive w6 p) \<or> (w6 = w5 \<and> g_refs g5 = [])" unfolding w6_def by (rule pick_new_leader_inv(1) [OF 5])
  have u6: "uninvited z w6" if "uninvited z w" for z unfolding w6_def by (rule pick_new_leader_inv(2) [OF 5 u5 [OF that]])
  have al: "alive w6 p" using 6 5(2) by (auto simp: alive_def)
  have n67: "neutral w6 (glog ?hook (glog (GResetInstances x INSTANCE_RESET_GROUP_LEAVE) (homebind_if_instance e x w6)))"
    by (rule neutral_trans [OF neutral_trans [OF neutral_homebind neutral_glog] neutral_glog]) simp_all
  have n: "neutral w6 w8" unfolding w8 w6_def [symmetric] w5_def [symmetric] by (rule neutral_trans [OF n67 neutral_send_update [OF alive_neutral [OF n67 al]]])
  obtain g8 where g8: "gw_groups w8 p = Some g8" using alive_neutral [OF n al] by (auto simp: alive_def)
  obtain L where L: "gw_inv {} L {} w6" "L = {} \<or> L = {p} \<and> g_refs g8 = []"
  proof -
    from 6 show ?thesis
    proof (elim disjE conjE)
      assume "w6 = w5" "g_refs g5 = []"
      moreover have "g_refs g8 = g_refs g5"
        using core_eqD(2) [OF neutral_core [OF n], of p] g8 5(2) \<open>w6 = w5\<close> by (auto dest: gcore_eqD(2))
      ultimately show ?thesis using that [of "{p}"] 5(1) by simp
    qed (use that in simp)
  qed
  have "uninvited z w8" if "uninvited z w" for z using u6 [OF that] uninvited_core [OF neutral_core [OF n], of z] by simp
  then show ?thesis by (rule that [OF gw_inv_neutral [OF L(1) n] g8 L(2)])
qed

lemma remove_member_inv:
  assumes inv: "gw_inv {} {} {} w" and a: "gw_groups w p = Some g" and x: "x \<in> members g"
  shows "gw_inv {} {} {} (remove_member e p x method kicker reason w) \<and> (uninvited z w \<longrightarrow> uninvited z (remove_member e p x method kicker reason w))"
proof -
  note nb = inv_not_bg [OF inv a]
  let ?hook = "GOnRemoveMember p x method kicker reason"
  consider (boot) "is_lfg_group True g \<and> method = GROUP_REMOVEMETHOD_KICK"
    | (rem) "\<not> (is_lfg_group True g \<and> method = GROUP_REMOVEMETHOD_KICK)" "members_count g > (if is_lfg_group False g then 1 else 2)"
    | (disb) "\<not> (is_lfg_group True g \<and> method = GROUP_REMOVEMETHOD_KICK)" "\<not> members_count g > (if is_lfg_group False g then 1 else 2)"
    by blast
  then show ?thesis
  proof cases
    case boot
    then have "remove_member e p x method kicker reason w = glog (GLfgBoot (g_guid g) kicker x reason) w"
      using a by (simp add: remove_member_def with_group_def)
    then show ?thesis by (simp add: gw_inv_neutral [OF inv neutral_glog] uninvited_same [of "glog _ w" w])
  next
    case disb
    then have r: "remove_member e p x method kicker reason w = disband e p False (glog ?hook w)"
      using a nb by (auto simp: remove_member_def with_group_def)
    have i: "gw_inv {} {} {} (glog ?hook w)" by (rule gw_inv_neutral [OF inv neutral_glog]) simp
    show ?thesis
      using disband_inv(1) [OF i, of p g e False] disband_inv(2) [OF i, of p g z e False] a uninvited_same [of "glog ?hook w" w z] unfolding r by simp
  next
    case rem
    have many: "length (g_slots g) > 1" using rem(2) by (simp add: members_count_def split: if_splits)
    define w8 where "w8 = send_update e p (glog ?hook (glog (GResetInstances x INSTANCE_RESET_GROUP_LEAVE)
      (homebind_if_instance e x (pick_new_leader e p x (taken_out e p x method g w)))))"
    obtain L g8 where 8: "gw_inv {} L {} w8" "gw_groups w8 p = Some g8" "L = {} \<or> L = {p} \<and> g_refs g8 = []"
      and u8: "\<And>z. uninvited z w \<Longrightarrow> uninvited z w8"
      by (rule removal_end_reached [OF inv a x many w8_def]) blast
    note E = removal_end_inv [OF 8, where e = e]
    have r: "remove_member e p x method kicker reason w = removal_end e p w8"
      unfolding w8_def by (rule remove_member_steps [OF a nb rem])
    show ?thesis using E(1) E(2) [of z] u8 [of z] unfolding r by blast
  qed
qed

end
