(* ===== verification/GroupJoin.thy ===== *)
theory GroupJoin
  imports GroupLeave
begin

text \<open>A player who joins a group, and the creation of a group when its first invitation is accepted.\<close>

section \<open>The counters\<close>

lemma unat_inc: "unat (c :: u8) < 5 \<Longrightarrow> unat (c + 1) = Suc (unat c)"
  by (simp add: unat_word_ariths)

lemma add_counts:
  assumes ok: "group_ok g" and free: "first_free_sub_group g = Some sub" and room: "g_counts g = None \<Longrightarrow> length (g_slots g) < MAXGROUPSIZE"
    and m: "ms_group m = sub"
  obtains g1 where "sub_group_counter_increase sub (g\<lparr>g_slots := g_slots g @ [m]\<rparr>) = Some g1"
    "g1 = g\<lparr>g_slots := g_slots g @ [m], g_counts := g_counts g1\<rparr>" "counts_ok g1"
proof (cases "g_counts g")
  case None
  have "sub = 0" using free None by (simp add: first_free_sub_group_def)
  then have "counts_ok (g\<lparr>g_slots := g_slots g @ [m]\<rparr>)"
    using group_okD(6) [OF ok] None room m by (simp add: counts_ok_def is_raid_group_def)
  then show ?thesis
    by (intro that [of "g\<lparr>g_slots := g_slots g @ [m]\<rparr>"]) (use None in \<open>simp_all add: sub_group_counter_increase_def\<close>)
next
  case (Some cs)
  have k: "is_raid_group g" "length cs = MAX_RAID_SUBGROUPS" "\<forall>m \<in> set (g_slots g). unat (ms_group m) < MAX_RAID_SUBGROUPS"
    "\<And>i. i < MAX_RAID_SUBGROUPS \<Longrightarrow> unat (cs ! i) = sub_count i (g_slots g)" "\<And>i. i < MAX_RAID_SUBGROUPS \<Longrightarrow> sub_count i (g_slots g) \<le> MAXGROUPSIZE"
    using group_okD(6) [OF ok] Some by (simp_all add: counts_ok_def)
  obtain i where i: "find (\<lambda>i. unat (cs ! i) < MAXGROUPSIZE) [0..<MAX_RAID_SUBGROUPS] = Some i" "sub = of_nat i"
    using free Some by (auto simp: first_free_sub_group_def)
  then have lt: "i < MAX_RAID_SUBGROUPS" "unat (cs ! i) < 5" by (auto dest: find_upt_SomeD simp: MAXGROUPSIZE_def)
  have u: "unat sub = i" using lt(1) i(2) by (simp add: group_size_defs unsigned_of_nat take_bit_nat_eq_self)
  let ?cs = "cs[i := cs ! i + 1]" and ?ms = "g_slots g @ [m]"
  have new: "unat (?cs ! j) = sub_count j ?ms" "sub_count j ?ms \<le> MAXGROUPSIZE" if j: "j < MAX_RAID_SUBGROUPS" for j
  proof -
    have s: "sub_count j ?ms = sub_count j (g_slots g) + (if j = i then 1 else 0)" using m u by (simp add: sub_count_def)
    show "unat (?cs ! j) = sub_count j ?ms"
      unfolding s using k(4) [OF j] unat_inc [OF lt(2)] k(2) lt(1) by (cases "j = i") simp_all
    show "sub_count j ?ms \<le> MAXGROUPSIZE"
      unfolding s using k(4,5) [OF j] lt(2) by (cases "j = i") (simp_all add: MAXGROUPSIZE_def)
  qed
  have "sub_group_counter_increase sub (g\<lparr>g_slots := ?ms\<rparr>) = Some (g\<lparr>g_slots := ?ms, g_counts := Some ?cs\<rparr>)"
    using Some u k(2) lt(1) by (simp add: sub_group_counter_increase_def add_at_def)
  moreover have "counts_ok (g\<lparr>g_slots := ?ms, g_counts := Some ?cs\<rparr>)"
    unfolding counts_ok_def using k new m u lt(1) by (simp add: is_raid_group_def)
  ultimately show ?thesis by (intro that) simp_all
qed

section \<open>Joining\<close>

text \<open>The new member in the lists: the change of the world that matters.\<close>

lemma join_inv:
  assumes inv: "gw_inv S L {} w" and a: "gw_groups w p = Some g" and pl: "gw_players w x = Some pl"
    and no: "ref_target (gp_ref pl) = None" "gp_invite pl = None"
    and lead: "g_slots g = [] \<Longrightarrow> p \<in> S \<and> g_leader g = x"
    and m: "ms_guid m = x" "ms_group m = sub"
    and g': "g_slots g' = g_slots g @ [m]" "g_refs g' = (x, False) # g_refs g" "g_invitees g' = g_invitees g" "g_guid g' = g_guid g"
      "g_leader g' = g_leader g" "g_bg g' = g_bg g" "g_bf g' = g_bf g" "counts_ok g'"
    and F: "gw_players w' = (gw_players w)(x \<mapsto> pl\<lparr>gp_ref := \<lparr>ref_target = Some p, ref_subgroup = sub\<rparr>\<rparr>)"
      "gw_groups w' = (gw_groups w)(p \<mapsto> g')" "gw_cache w' = update_character_group x (g_guid g) (gw_cache w)" "same_manager w w'" "safe w'"
  shows "gw_inv S L {} w'"
proof -
  note gi = gw_invD(2) [OF inv a] and pi = gw_invD(1) [OF inv pl]
  note o = group_okD [OF group_invD(1) [OF gi]]
  have nm: "x \<notin> members h" if "gw_groups w q = Some h" for q h by (rule inv_no_group_no_member [OF inv pl no(1) that])
  have ni: "x \<notin> set (g_invitees h)" if "gw_groups w q = Some h" for q h using inv_invited_here [OF inv pl that] no(2) by auto
  have mem: "members g' = insert x (members g)" using g'(1) m(1) by auto
  have nx: "gw_next w' = gw_next w" using F(4) by (simp add: same_manager_def)
  have nr: "(x, False) \<notin> set (g_refs g)" using group_invD(3) [OF gi, of x False] nm [OF a] by simp
  have gok: "group_ok g'"
    by (rule group_ok_upd [OF group_invD(1) [OF gi]]) (use o g' m(1) nm [OF a] nr in simp_all)
  have grp: "get_member_group y g' = (if y = x then sub else get_member_group y g)" for y
  proof -
    have f: "find P (xs @ [m]) = (case find P xs of None \<Rightarrow> if P m then Some m else None | Some z \<Rightarrow> Some z)" for P xs
      by (induction xs) auto
    have "find (\<lambda>m. ms_guid m = x) (g_slots g) = None" using nm [OF a] by (auto simp: find_None_iff)
    then show ?thesis using m by (auto simp: get_member_group_def slot_of_def g'(1) f split: option.splits)
  qed
  have conn: "gw_players w' y = None \<longleftrightarrow> gw_players w y = None" for y using pl by (simp add: F)
  show ?thesis
  proof (rule gw_inv_upd [OF inv a F(4), where X = "{x}" and g' = g'])
    show "group_inv {} w' p g'"
      unfolding group_inv_def nx mem F(3) cache_group_fields
    proof (intro conjI allI ballI impI)
      fix y b show "((y, b) \<in> set (g_refs g')) = (\<not> b \<and> y \<in> insert x (members g) - {} \<and> gw_players w' y \<noteq> None)"
        unfolding conn using group_invD(3) [OF gi, of y b] pl g'(2) by auto
    next
      fix y assume y: "y \<in> insert x (members g) - {}"
      show "has_character_cache_entry (gw_cache w) y" using y group_invD(4) [OF gi, of y] player_invD(2) [OF pi] by auto
      then show "get_character_group_guid_by_guid (update_character_group x (g_guid g) (gw_cache w)) y = g_guid g'"
        using y group_invD(5) [OF gi, of y] g'(4) cache_group_fields(2) [of y x] cache_group_fields(3) [of "gw_cache w" x]
        by (cases "y = x") auto
    next
      fix y ql assume "y \<in> insert x (members g) - {}" "gw_players w' y = Some ql"
      then show "ref_target (gp_ref ql) = Some p" using group_invD(6) [OF gi, of y] by (auto simp: F split: if_splits)
    next
      fix y assume "y \<in> set (g_invitees g')"
      then have y: "y \<in> set (g_invitees g)" using g'(3) by simp
      then have "y \<noteq> x" using ni [OF a] by auto
      then show "\<exists>pl. gw_players w' y = Some pl \<and> gp_invite pl = Some p" using group_invD(7) [OF gi y] by (simp add: F)
    qed (use gok group_invD(2) [OF gi] in auto)
    show "\<And>y pl'. y \<in> {x} \<Longrightarrow> gw_players w' y = Some pl' \<Longrightarrow> player_inv {} w' y pl'"
      using player_invD(1,2) [OF pi] no(2) by (auto simp: player_inv_def F cache_group_fields mem grp)
    show "\<And>y pl. y \<notin> {x} \<Longrightarrow> gw_players w y = Some pl \<Longrightarrow> ref_target (gp_ref pl) = Some p
        \<Longrightarrow> y \<notin> {} \<and> y \<in> members g' \<and> ref_subgroup (gp_ref pl) = get_member_group y g'"
      using player_invD(3) [OF gw_invD(1) [OF inv]] a unfolding mem grp by fastforce
    show "\<And>y pl. y \<notin> {x} \<Longrightarrow> gw_players w y = Some pl \<Longrightarrow> gp_invite pl = Some p \<Longrightarrow> y \<in> set (g_invitees g')"
      using player_invD(5) [OF gw_invD(1) [OF inv]] a unfolding g'(3) by fastforce
    show "\<And>y q h. y \<in> {x} \<Longrightarrow> q \<noteq> p \<Longrightarrow> gw_groups w q = Some h \<Longrightarrow> y \<notin> members h" using nm by blast
    show "\<And>y q h. y \<in> {x} \<Longrightarrow> q \<noteq> p \<Longrightarrow> gw_groups w q = Some h \<Longrightarrow> y \<in> set (g_invitees h)
        \<Longrightarrow> \<exists>pl. gw_players w' y = Some pl \<and> gp_invite pl = Some q" using ni by blast
    show "\<And>y. y \<in> members g' \<Longrightarrow> y \<in> {x} \<or> y \<in> members g" unfolding mem by blast
    show "(g_slots g' = [] \<longleftrightarrow> g_slots g = []) \<or> (p \<in> S \<and> g_slots g' \<noteq> [])" using lead g'(1) by auto
    show "p \<notin> L \<Longrightarrow> g_slots g' \<noteq> [] \<Longrightarrow> g_leader g' \<in> members g'"
      using gw_invD(5) [OF inv] a lead unfolding leaders_ok_def mem g'(5) by auto
    show "safe w'" by (rule F(5))
    show "\<And>y. y \<notin> {x} \<Longrightarrow> get_character_group_guid_by_guid (gw_cache w') y = get_character_group_guid_by_guid (gw_cache w) y"
      by (simp add: F cache_group_fields)
  qed (simp_all add: F cache_group_fields g' cache_group_ok)
qed

lemma safe_same:
  assumes "safe w" "gw_log w' = gw_log w" "gw_loots w' = gw_loots w"
    "\<And>q h. gw_groups w' q = Some h \<Longrightarrow> \<exists>h0. gw_groups w q = Some h0 \<and> g_rolls h = g_rolls h0"
  shows "safe w'"
  using assms unfolding safe_def clean_def rolls_valid_def by metis

lemma set_group_eq:
  assumes "gw_players w x = Some pl" "ref_target (gp_ref pl) = None" "gw_groups w p = Some g"
  shows "gw_players (player_set_group x (Some p) sub w) = (gw_players w)(x \<mapsto> pl\<lparr>gp_ref := \<lparr>ref_target = Some p, ref_subgroup = sub\<rparr>\<rparr>)"
    "gw_groups (player_set_group x (Some p) sub w) = (gw_groups w)(p \<mapsto> g\<lparr>g_refs := (x, False) # g_refs g\<rparr>)"
    "gw_cache (player_set_group x (Some p) sub w) = gw_cache w" "same_manager w (player_set_group x (Some p) sub w)"
    "safe w \<Longrightarrow> safe (player_set_group x (Some p) sub w)"
proof -
  have u: "unlink_ref False x w = w" using assms by (simp add: unlink_ref_def get_ref_def)
  have e: "player_set_group x (Some p) sub w = set_sub_group False sub x (upd_group p (link_member False x)
      (upd_player x (\<lambda>pl. put_ref False ((get_ref False pl)\<lparr>ref_target := Some p\<rparr>) pl) w))"
    by (simp add: player_set_group_def link_ref_def u)
  obtain t b where r: "gp_ref pl = \<lparr>ref_target = t, ref_subgroup = b\<rparr>" by (cases "gp_ref pl")
  show "gw_players (player_set_group x (Some p) sub w) = (gw_players w)(x \<mapsto> pl\<lparr>gp_ref := \<lparr>ref_target = Some p, ref_subgroup = sub\<rparr>\<rparr>)"
    "gw_groups (player_set_group x (Some p) sub w) = (gw_groups w)(p \<mapsto> g\<lparr>g_refs := (x, False) # g_refs g\<rparr>)"
    "gw_cache (player_set_group x (Some p) sub w) = gw_cache w" "same_manager w (player_set_group x (Some p) sub w)"
    unfolding e using assms r by (simp_all add: set_sub_group_def put_ref_def get_ref_def link_member_def same_manager_def)
  show "safe w \<Longrightarrow> safe (player_set_group x (Some p) sub w)"
    unfolding e set_sub_group_def by (intro safe_upd_player safe_upd_group) (simp_all add: link_member_def)
qed

text \<open>The steps of \<open>add_member\<close> up to the reference of the player.\<close>

definition join_lists :: "nat \<Rightarrow> guid \<Rightarrow> member_slot \<Rightarrow> group_data \<Rightarrow> group_world \<Rightarrow> group_world" where
  "join_lists p x m g w =
     join_player p x (ms_group m) g (set_group_invite None x (try_group p (sub_group_counter_increase (ms_group m))
       (upd_cache (update_character_group x (g_guid g)) (upd_group p (\<lambda>g. g\<lparr>g_slots := g_slots g @ [m]\<rparr>) w))))"

lemma join_lists_inv:
  assumes inv: "gw_inv S L {} w" and a: "gw_groups w p = Some g" and pl: "gw_players w x = Some pl"
    and no: "ref_target (gp_ref pl) = None" "gp_invite pl = None"
    and lead: "g_slots g = [] \<Longrightarrow> p \<in> S \<and> g_leader g = x"
    and room: "g_counts g = None \<Longrightarrow> length (g_slots g) < MAXGROUPSIZE"
    and free: "first_free_sub_group g = Some (ms_group m)" and m: "ms_guid m = x"
  obtains g' where "gw_inv S L {} (join_lists p x m g w)" "gw_groups (join_lists p x m g w) p = Some g'"
    "g_slots g' = g_slots g @ [m]" "g_guid g' = g_guid g" "g_leader g' = g_leader g" "g_counts g' = None \<longleftrightarrow> g_counts g = None"
    "g_invitees g' = g_invitees g" "gw_players (join_lists p x m g w) = (gw_players w)(x \<mapsto> pl\<lparr>gp_ref := \<lparr>ref_target = Some p, ref_subgroup = ms_group m\<rparr>\<rparr>)"
    "same_manager w (join_lists p x m g w)"
proof -
  note ok = group_invD(1) [OF gw_invD(2) [OF inv a]]
  obtain g1 where g1: "sub_group_counter_increase (ms_group m) (g\<lparr>g_slots := g_slots g @ [m]\<rparr>) = Some g1"
    "g1 = g\<lparr>g_slots := g_slots g @ [m], g_counts := g_counts g1\<rparr>" "counts_ok g1"
    by (rule add_counts [OF ok free room refl])
  define v where "v = set_group_invite None x (upd_group p (\<lambda>_. g1)
    (upd_cache (update_character_group x (g_guid g)) (upd_group p (\<lambda>g. g\<lparr>g_slots := g_slots g @ [m]\<rparr>) w)))"
  have none: "pl\<lparr>gp_invite := None\<rparr> = pl" using no(2) by simp
  have V: "gw_players v = gw_players w" "gw_groups v = (gw_groups w)(p \<mapsto> g1)" "gw_cache v = update_character_group x (g_guid g) (gw_cache w)"
    "same_manager w v"
    unfolding v_def using a pl none by (simp_all add: set_group_invite_def same_manager_def fun_upd_idem)
  have g1f: "g_slots g1 = g_slots g @ [m]" "g_refs g1 = g_refs g" "g_invitees g1 = g_invitees g" "g_guid g1 = g_guid g" "g_leader g1 = g_leader g"
    "g_bg g1 = g_bg g" "g_bf g1 = g_bf g" "g_rolls g1 = g_rolls g"
    by (subst g1(2), simp)+
  have sv: "safe v"
  proof -
    have "safe (upd_group p (\<lambda>_. g1) (upd_cache (update_character_group x (g_guid g)) (upd_group p (\<lambda>g. g\<lparr>g_slots := g_slots g @ [m]\<rparr>) w)))"
      by (rule safe_same [OF gw_invD(4) [OF inv]]) (use a g1f(8) in \<open>auto split: if_splits\<close>)
    then show ?thesis unfolding v_def set_group_invite_def by (rule safe_upd_player)
  qed
  have plv: "gw_players v x = Some pl" and av: "gw_groups v p = Some g1" using pl V by simp_all
  note J = set_group_eq [OF plv no(1) av, where sub = "ms_group m"]
  let ?g = "g1\<lparr>g_refs := (x, False) # g_refs g1\<rparr>"
  have w': "join_lists p x m g w = player_set_group x (Some p) (ms_group m) v"
  proof -
    have "try_group p (sub_group_counter_increase (ms_group m))
        (upd_cache (update_character_group x (g_guid g)) (upd_group p (\<lambda>g. g\<lparr>g_slots := g_slots g @ [m]\<rparr>) w))
      = upd_group p (\<lambda>_. g1) (upd_cache (update_character_group x (g_guid g)) (upd_group p (\<lambda>g. g\<lparr>g_slots := g_slots g @ [m]\<rparr>) w))"
      using a g1(1) by (simp add: try_group_def with_group_def)
    moreover have "get_group v x = None" using plv no(1) by (simp add: get_group_def)
    ultimately show ?thesis unfolding join_lists_def join_player_def v_def by simp
  qed
  have i: "gw_inv S L {} (join_lists p x m g w)"
  proof (rule join_inv [OF inv a pl no lead m, where g' = ?g and sub = "ms_group m"])
    show "same_manager w (join_lists p x m g w)" unfolding w' by (rule same_manager_trans [OF V(4) J(4)])
    show "counts_ok ?g" using g1(3) counts_ok_cong [of ?g g1] by simp
    show "safe (join_lists p x m g w)" unfolding w' by (rule J(5) [OF sv])
  qed (simp_all add: w' J V g1f)
  show ?thesis
  proof (rule that [OF i])
    show "gw_groups (join_lists p x m g w) p = Some ?g" by (simp add: w' J)
    show "g_counts ?g = None \<longleftrightarrow> g_counts g = None"
      using g1(1) by (auto simp: sub_group_counter_increase_def split: option.splits)
    show "same_manager w (join_lists p x m g w)" unfolding w' by (rule same_manager_trans [OF V(4) J(4)])
  qed (simp_all add: w' J V g1f)
qed

lemma add_member_eq:
  assumes "gw_groups w p = Some g" "gw_players w x = Some pl" "first_free_sub_group g = Some sub" "\<not> bg_or_bf g"
  defines "m \<equiv> \<lparr>ms_guid = x, ms_name = gp_name pl, ms_group = sub, ms_flags = 0, ms_roles = 0\<rparr>"
  shows "add_member e p x w = (True, note_enchanting p x (greet_member e p x (send_update e p
    (db (RepGroupMember (get_counter (g_guid g)) (get_counter x) 0 sub 0)
      (if \<not> is_raid_group g then upd_group p (\<lambda>g. g\<lparr>g_icons := replicate TARGETICONCOUNT 0\<rparr>) (join_lists p x m g w) else join_lists p x m g w)))))"
  using assms(1-4) unfolding m_def by (simp add: add_member_def join_lists_def Let_def)

lemma add_member_inv:
  assumes inv: "gw_inv S L {} w" and a: "gw_groups w p = Some g" and pl: "gw_players w x = Some pl"
    and no: "ref_target (gp_ref pl) = None" "gp_invite pl = None"
    and lead: "g_slots g = [] \<Longrightarrow> p \<in> S \<and> g_leader g = x"
    and room: "g_counts g = None \<Longrightarrow> length (g_slots g) < MAXGROUPSIZE"
    and free: "first_free_sub_group g = Some sub"
  obtains g' w' where "add_member e p x w = (True, w')" "gw_inv S L {} w'" "gw_groups w' p = Some g'"
    "map ms_guid (g_slots g') = map ms_guid (g_slots g) @ [x]" "g_guid g' = g_guid g" "g_leader g' = g_leader g"
    "g_counts g' = None \<longleftrightarrow> g_counts g = None" "g_invitees g' = g_invitees g" "same_manager w w'"
    "\<And>y. y \<noteq> x \<Longrightarrow> map_option pcore (gw_players w' y) = map_option pcore (gw_players w y)"
proof -
  let ?m = "\<lparr>ms_guid = x, ms_name = gp_name pl, ms_group = sub, ms_flags = 0, ms_roles = 0\<rparr>"
  have f: "first_free_sub_group g = Some (ms_group ?m)" using free by simp
  have x: "ms_guid ?m = x" by simp
  let ?j = "join_lists p x ?m g w"
  obtain g1 where J: "gw_inv S L {} ?j" "gw_groups ?j p = Some g1" "g_slots g1 = g_slots g @ [?m]" "g_guid g1 = g_guid g" "g_leader g1 = g_leader g"
    "g_counts g1 = None \<longleftrightarrow> g_counts g = None" "g_invitees g1 = g_invitees g"
    "gw_players ?j = (gw_players w)(x \<mapsto> pl\<lparr>gp_ref := \<lparr>ref_target = Some p, ref_subgroup = ms_group ?m\<rparr>\<rparr>)" "same_manager w ?j"
    by (rule join_lists_inv [OF inv a pl no lead room f x])
  define w1 where "w1 = (if \<not> is_raid_group g then upd_group p (\<lambda>g. g\<lparr>g_icons := replicate TARGETICONCOUNT 0\<rparr>) ?j else ?j)"
  define w2 where "w2 = db (RepGroupMember (get_counter (g_guid g)) (get_counter x) 0 sub 0) w1"
  define w3 where "w3 = send_update e p w2"
  define w4 where "w4 = greet_member e p x w3"
  define w5 where "w5 = note_enchanting p x w4"
  have aj: "alive ?j p" using J(2) by (simp add: alive_def)
  have n1: "neutral ?j w1" unfolding w1_def by (auto intro!: neutral_upd_group simp: gcore_def)
  have n2: "neutral ?j w2" unfolding w2_def by (rule neutral_trans [OF n1 neutral_db])
  have n3: "neutral ?j w3" unfolding w3_def by (rule neutral_trans [OF n2 neutral_send_update [OF alive_neutral [OF n2 aj]]])
  have n4: "neutral ?j w4" unfolding w4_def by (rule neutral_trans [OF n3 neutral_greet_member [OF alive_neutral [OF n3 aj]]])
  have n5: "neutral ?j w5" unfolding w5_def by (rule neutral_trans [OF n4 neutral_note_enchanting])
  note c = neutral_core [OF n5]
  obtain g5 where g5: "gw_groups w5 p = Some g5" "gcore g5 = gcore g1" using core_eqD(2) [OF c, of p] J(2) by auto
  show ?thesis
  proof (rule that [of w5 g5])
    show "add_member e p x w = (True, w5)"
      unfolding w5_def w4_def w3_def w2_def w1_def by (rule add_member_eq [OF a pl free inv_not_bg [OF inv a]])
    show "gw_inv S L {} w5" by (rule gw_inv_neutral [OF J(1) n5])
    show "same_manager w w5" by (rule same_manager_trans [OF J(9) same_manager_core [OF c]])
    show "\<And>y. y \<noteq> x \<Longrightarrow> map_option pcore (gw_players w5 y) = map_option pcore (gw_players w y)"
      using core_eqD(1) [OF c] by (simp add: J(8))
  qed (use g5(1) gcore_eqD [OF g5(2)] J in simp_all)
qed

section \<open>A new number\<close>

lemma next_group_id_fresh:
  assumes "n < 0xFFFFFFFF"
  shows "n < next_group_id ids n" "next_group_id ids n \<noteq> 0xFFFFFFFF
    \<Longrightarrow> \<not> (unat (next_group_id ids n) < length ids \<and> ids ! unat (next_group_id ids n))"
proof -
  have "n < next_group_id ids n \<and> (next_group_id ids n \<noteq> 0xFFFFFFFF
    \<longrightarrow> \<not> (unat (next_group_id ids n) < length ids \<and> ids ! unat (next_group_id ids n)))"
    using assms
  proof (induction ids n rule: next_group_id.induct)
    case (1 ids n)
    have lt: "n < n + 1"
    proof -
      have "unat n < 0xFFFFFFFF" using 1(2) by (simp add: word_less_nat_alt)
      then show ?thesis by (simp add: word_less_nat_alt unat_word_ariths)
    qed
    show ?case
    proof (cases "unat (n + 1) < length ids \<and> ids ! unat (n + 1)")
      case False
      then show ?thesis using 1(2) lt by (auto simp: next_group_id.simps [of ids n] Let_def)
    next
      case used: True
      have e: "next_group_id ids n = next_group_id ids (n + 1)"
        using used 1(2) by (simp add: next_group_id.simps [of ids n] Let_def)
      show ?thesis
      proof (cases "n + 1 < 0xFFFFFFFF")
        case True
        then show ?thesis using 1(1) [OF 1(2) refl used True] lt e by (auto intro: less_trans)
      next
        case False
        then have "next_group_id ids (n + 1) = n + 1" by (simp add: next_group_id.simps [of ids "n + 1"])
        moreover have "n + 1 = 0xFFFFFFFF"
        proof -
          have "m \<le> 0xFFFFFFFF" for m :: u32
            using unsigned_less [of m, where 'a = nat] by (simp add: word_le_nat_alt)
          then show ?thesis using False by (simp add: order.antisym not_less)
        qed
        ultimately show ?thesis using e lt by simp
      qed
    qed
  qed
  then show "n < next_group_id ids n" "next_group_id ids n \<noteq> 0xFFFFFFFF
    \<Longrightarrow> \<not> (unat (next_group_id ids n) < length ids \<and> ids ! unat (next_group_id ids n))" by blast+
qed

lemma last_u32: "(m :: u32) \<noteq> 0xFFFFFFFF \<Longrightarrow> m < 0xFFFFFFFF"
proof -
  have "m \<le> 0xFFFFFFFF" using unsigned_less [of m, where 'a = nat] by (simp add: word_le_nat_alt)
  then show "m \<noteq> 0xFFFFFFFF \<Longrightarrow> m < 0xFFFFFFFF" by simp
qed

section \<open>Creating a group\<close>

text \<open>The group gets its number and its leader.\<close>

lemma number_inv:
  assumes inv: "gw_inv {} L {} w" and a: "gw_groups w p = Some g" and pending: "g_slots g = []"
    and left: "gw_next_id w \<noteq> 0xFFFFFFFF"
    and g': "g_slots g' = []" "g_refs g' = g_refs g" "g_invitees g' = g_invitees g" "g_guid g' = guid_create_global HG_Group (gw_next_id w)"
      "g_type g' = g_type g" "g_bg g' = g_bg g" "g_bf g' = g_bf g" "g_counts g' = g_counts g"
    and F: "gw_players w' = gw_players w" "gw_groups w' = (gw_groups w)(p \<mapsto> g')" "gw_cache w' = gw_cache w" "gw_next w' = gw_next w"
      "gw_store w' = gw_store w" "gw_ids w' = gw_ids w" "gw_next_id w' = next_group_id (gw_ids w) (gw_next_id w)" "safe w'"
  shows "gw_inv {p} L {} w'"
proof -
  note gi = gw_invD(2) [OF inv a] and st = store_invD [OF gw_invD(3) [OF inv]]
  note o = group_okD [OF group_invD(1) [OF gi]]
  note nid = next_group_id_fresh [OF last_u32 [OF left], of "gw_ids w"]
  have mono: "id_used w' n" if "id_used w n" for n
    using that nid(1) F(6,7) by (auto simp: id_used_def intro: less_trans)
  have now: "id_used w' (gw_next_id w)" using nid(1) F(7) by (simp add: id_used_def)
  have fresh: "map_of (gw_store w) (gw_next_id w) = None"
    using st(3) [of "gw_next_id w"] st(9) [OF left] by (cases "map_of (gw_store w) (gw_next_id w)") auto
  have notp: "map_of (gw_store w) n \<noteq> Some p" for n using st(4) [of n p] a pending by auto
  have gok: "group_ok g'"
    by (rule group_ok_upd [OF group_invD(1) [OF gi]]) (use o g' pending counts_ok_cong [of g' g] in simp_all)
  have mem: "members g' = {}" "members g = {}" using g'(1) pending by simp_all
  have nobody: "ref_target (gp_ref pl) \<noteq> Some p" if "gw_players w y = Some pl" for y pl
    using player_invD(3) [OF gw_invD(1) [OF inv that]] a mem(2) by fastforce
  show ?thesis
  proof (rule gw_inv_step [OF inv, where p = p and X = "{}"])
    show "store_inv {p} w'"
      unfolding store_inv_def
    proof (intro conjI allI impI ballI)
      show "gw_next_id w' \<noteq> 0" using nid(1) F(7) by auto
      show "gw_next_id w' \<noteq> 0xFFFFFFFF \<Longrightarrow> \<not> id_used w' (gw_next_id w')" using nid(2) F(6,7) by (simp add: id_used_def)
      show "om_sorted (gw_store w')" using st(1) F(5) by simp
      { fix n q assume "map_of (gw_store w') n = Some q"
        then have o: "map_of (gw_store w) n = Some q" by (simp add: F)
        show "n \<noteq> 0" "id_used w' n" by (rule st(2) [OF o], rule mono [OF st(3) [OF o]])
        show "\<exists>g. gw_groups w' q = Some g \<and> g_slots g \<noteq> [] \<and> g_guid g = guid_create_global HG_Group n"
          using st(4) [OF o] notp [of n] o by (auto simp: F) }
      { fix q h assume "gw_groups w' q = Some h" "q \<notin> {p}"
        then have o: "gw_groups w q = Some h" by (simp add: F)
        show "if g_slots h = [] then g_guid h = 0 else \<exists>n. g_guid h = guid_create_global HG_Group n \<and> map_of (gw_store w') n = Some q"
          using st(5,6) [OF o] by (simp add: F) }
      fix q assume "q \<in> {p}"
      then show "\<exists>g n. gw_groups w' q = Some g \<and> g_guid g = guid_create_global HG_Group n \<and> n \<noteq> 0 \<and> id_used w' n \<and> map_of (gw_store w') n = None"
        using g'(4) st(8) now fresh by (intro exI [of _ g'] exI [of _ "gw_next_id w"]) (simp add: F)
    qed
    show "leaders_ok L w'"
      by (rule leaders_ok_upd [OF gw_invD(5) [OF inv], of p]) (simp_all add: F g'(1))
    show "\<And>h. gw_groups w' p = Some h \<Longrightarrow> group_inv {} w' p h"
      using gi gok by (simp add: group_inv_def F mem g')
    show "\<And>y pl. y \<notin> {} \<Longrightarrow> gw_players w y = Some pl \<Longrightarrow> gp_invite pl = Some p \<Longrightarrow> \<exists>g. gw_groups w' p = Some g \<and> y \<in> set (g_invitees g)"
      using player_invD(5) [OF gw_invD(1) [OF inv]] a by (fastforce simp: F g')
  qed (use nobody F g' mem in auto)
qed

lemma upd_group_id: "gw_groups w p = Some g \<Longrightarrow> f g = g \<Longrightarrow> upd_group p f w = w"
  by (simp add: upd_group_def fun_upd_idem)

lemma upd_group_comp: "upd_group p f (upd_group p h w) = upd_group p (\<lambda>g. f (h g)) w"
  by (simp add: upd_group_def option.map_comp o_def)

lemma first_free_empty:
  assumes "group_ok g" "g_slots g = []"
  obtains sub where "first_free_sub_group g = Some sub"
proof (cases "g_counts g")
  case (Some cs)
  have c: "unat (cs ! 0) = 0" using group_okD(6) [OF assms(1)] assms(2) Some by (simp add: counts_ok_def sub_count_def group_size_defs)
  have l: "[0..<MAX_RAID_SUBGROUPS] = 0 # [Suc 0..<MAX_RAID_SUBGROUPS]" by (simp add: group_size_defs upt_rec)
  show ?thesis by (rule that [of 0]) (simp add: first_free_sub_group_def Some l c MAXGROUPSIZE_def)
qed (simp add: first_free_sub_group_def that)

lemma init_counters_empty:
  "g_slots g = [] \<Longrightarrow> init_raid_sub_groups_counter g = Some (g\<lparr>g_counts := Some (replicate MAX_RAID_SUBGROUPS 0)\<rparr>)"
  by (simp add: init_raid_sub_groups_counter_def)

lemma group_create_inv:
  assumes inv: "gw_inv {} {} {} w" and a: "gw_groups w p = Some g" and pending: "g_slots g = []"
    and left: "gw_next_id w \<noteq> 0xFFFFFFFF"
    and pl: "gw_players w x = Some pl" and no: "ref_target (gp_ref pl) = None" "gp_invite pl = None"
  obtains g' w' where "group_create e p x w = (True, w')" "gw_inv {p} {} {} w'" "gw_groups w' p = Some g'"
    "map ms_guid (g_slots g') = [x]" "g_leader g' = x" "g_counts g' = None \<longleftrightarrow> \<not> is_raid_group g" "g_invitees g' = g_invitees g"
    "\<And>y. y \<noteq> x \<Longrightarrow> map_option pcore (gw_players w' y) = map_option pcore (gw_players w y)"
proof -
  let ?low = "gw_next_id w"
  obtain w0 where w0: "generate_group_id w = (?low, w0)" and f0: "gw_players w0 = gw_players w" "gw_groups w0 = gw_groups w"
    "gw_cache w0 = gw_cache w" "gw_next w0 = gw_next w" "gw_store w0 = gw_store w" "gw_ids w0 = gw_ids w"
    "gw_next_id w0 = next_group_id (gw_ids w) ?low" "safe w0"
    using gw_invD(4) [OF inv] by (auto simp: generate_group_id_def Let_def safe_def clean_def rolls_valid_def split: if_splits)
  define g1 where "g1 = g\<lparr>g_guid := guid_create_global HG_Group ?low, g_leader := x, g_leader_name := gp_name pl\<rparr>"
  define w1 where "w1 = upd_group p (\<lambda>g. g\<lparr>g_guid := guid_create_global HG_Group ?low, g_leader := x, g_leader_name := player_name w0 x\<rparr>) w0"
  have a1: "gw_groups w1 p = Some g1" using a pl by (simp add: w1_def g1_def f0 player_name_def)
  have i1: "gw_inv {p} {} {} w1"
    by (rule number_inv [OF inv a pending left, where g' = g1])
      (use a pl pending safe_upd_group [OF f0(8)] in \<open>simp_all add: w1_def g1_def f0 player_name_def\<close>)
  define w2 where "w2 = upd_player x (\<lambda>pl. pl\<lparr>gp_leader_flag := True\<rparr>) w1"
  have n2: "neutral w1 w2" unfolding w2_def by (rule neutral_upd_player) (simp add: pcore_def)
  have i2: "gw_inv {p} {} {} w2" by (rule gw_inv_neutral [OF i1 n2])
  have a2: "gw_groups w2 p = Some g1" using a1 by (simp add: w2_def)
  have nb: "\<not> bg_or_bf g1" by (rule inv_not_bg [OF i2 a2])
  define g3 where "g3 = (if is_raid_group g1 then g1\<lparr>g_counts := Some (replicate MAX_RAID_SUBGROUPS 0)\<rparr> else g1)"
  define w3 where "w3 = upd_group p (\<lambda>_. g3) w2"
  have a3: "gw_groups w3 p = Some g3" using a2 by (simp add: w3_def)
  have e3: "try_group p (\<lambda>g. if is_raid_group g then init_raid_sub_groups_counter g else Some g) w2 = w3"
    using a2 pending by (auto simp: try_group_def with_group_def w3_def g3_def init_counters_empty g1_def)
  have pend3: "g_slots g3 = []" "g_guid g3 = g_guid g1" "g_leader g3 = x" "g_invitees g3 = g_invitees g" "g_rolls g3 = g_rolls g1"
    using pending by (simp_all add: g3_def g1_def)
  have i3: "gw_inv {p} {} {} w3"
  proof (rule gw_inv_group [OF i2 a2, where g' = g3])
    show "counts_ok g3"
    proof (cases "is_raid_group g1")
      case True
      then show ?thesis using pending by (simp add: g3_def counts_ok_def g1_def sub_count_def is_raid_group_def)
    next
      case False
      then show ?thesis using group_okD(6) [OF group_invD(1) [OF gw_invD(2) [OF i2 a2]]] by (simp add: g3_def)
    qed
    show "safe w3" by (rule safe_same [OF gw_invD(4) [OF i2]]) (use a2 pend3 in \<open>auto simp: w3_def split: if_splits\<close>)
    show "g_leader g3 \<in> members g3" if "g_slots g3 \<noteq> []" using that pend3(1) by simp
  qed (use a2 pending in \<open>simp_all add: w3_def g3_def g1_def same_manager_def\<close>)
  define w4 where "w4 = upd_group p (\<lambda>g. if is_lfg_group False g then g else g\<lparr>g_loot_method := GROUP_LOOT\<rparr>) w3"
  define w5 where "w5 = upd_group p (\<lambda>g. g\<lparr>g_threshold := ITEM_QUALITY_UNCOMMON, g_looter := x, g_master := 0,
                g_dungeon := DUNGEON_DIFFICULTY_NORMAL, g_raid := RAID_DIFFICULTY_10MAN_NORMAL\<rparr>) w4"
  have n5: "neutral w3 w5"
    unfolding w5_def w4_def by (rule neutral_trans [OF neutral_upd_group neutral_upd_group]) (simp_all add: gcore_def)
  obtain g5 where g5: "gw_groups w5 p = Some g5" "gcore g5 = gcore g3" using core_eqD(2) [OF neutral_core [OF n5], of p] a3 by auto
  have pl5: "gw_players w5 x = Some (pl\<lparr>gp_leader_flag := True\<rparr>)"
    using pl by (simp add: w5_def w4_def w3_def w2_def w1_def f0)
  define w6 where "w6 = upd_group p (\<lambda>g. g\<lparr>g_dungeon := gp_dungeon pl, g_raid := gp_raid pl\<rparr>) w5"
  define w7 where "w7 = db (InsGroup ?low (get_counter x) (g_loot_method g5) (get_counter (g_looter g5)) (g_threshold g5) (g_icons g5)
                     (g_type g5) (gp_dungeon pl) (gp_raid pl) (get_counter (g_master g5))) w6"
  have n7: "neutral w3 w7"
    unfolding w7_def w6_def by (rule neutral_trans [OF n5 neutral_trans [OF neutral_upd_group neutral_db]]) (simp_all add: gcore_def)
  have i7: "gw_inv {p} {} {} w7" by (rule gw_inv_neutral [OF i3 n7])
  obtain g7 where g7: "gw_groups w7 p = Some g7" "gcore g7 = gcore g3" using core_eqD(2) [OF neutral_core [OF n7], of p] a3 by auto
  have pl7: "gw_players w7 x = Some (pl\<lparr>gp_leader_flag := True\<rparr>)" using pl5 by (simp add: w7_def db_def w6_def)
  note e7 = gcore_eqD [OF g7(2)]
  have s7: "g_slots g7 = []" using e7(1) pend3 by simp
  obtain sub where sub: "first_free_sub_group g7 = Some sub"
    by (rule first_free_empty [OF group_invD(1) [OF gw_invD(2) [OF i7 g7(1)]] s7])
  obtain g8 w8 where A: "add_member e p x w7 = (True, w8)" "gw_inv {p} {} {} w8" "gw_groups w8 p = Some g8"
    "map ms_guid (g_slots g8) = map ms_guid (g_slots g7) @ [x]" "g_guid g8 = g_guid g7" "g_leader g8 = g_leader g7"
    "g_counts g8 = None \<longleftrightarrow> g_counts g7 = None" "g_invitees g8 = g_invitees g7" "same_manager w7 w8"
    "\<And>y. y \<noteq> x \<Longrightarrow> map_option pcore (gw_players w8 y) = map_option pcore (gw_players w7 y)"
    by (rule add_member_inv [OF i7 g7(1) pl7 _ _ _ _ sub, where e = e]) (use no e7(4) pend3 s7 in \<open>simp_all add: MAXGROUPSIZE_def\<close>)
  have "group_create e p x w = (True, glog (GOnCreate p x) w8)"
  proof -
    have "is_bg_group g5 = is_bg_group g3" "is_bf_group g5 = is_bf_group g3" using gcore_eqD [OF g5(2)] by (simp_all add: is_bg_group_def is_bf_group_def)
    then have nb5: "\<not> bg_or_bf g5" using nb by (simp add: g3_def is_bg_group_def is_bf_group_def)
    have e2: "upd_group p (\<lambda>g. if bg_or_bf g then g\<lparr>g_type := GROUPTYPE_BGRAID\<rparr> else g) w2 = w2"
      by (rule upd_group_id [OF a2]) (use nb in simp)
    show ?thesis
      unfolding group_create_def w0 Let_def prod.case w1_def [symmetric] w2_def [symmetric] e2 e3 w4_def [symmetric] w5_def [symmetric]
      using g5(1) pl5 nb5 A(1) by (simp add: w7_def w6_def)
  qed
  moreover have "gw_inv {p} {} {} (glog (GOnCreate p x) w8)" by (rule gw_inv_neutral [OF A(2) neutral_glog]) simp
  moreover have "map_option pcore (gw_players w8 y) = map_option pcore (gw_players w y)" if "y \<noteq> x" for y
    using A(10) [OF that] that by (simp add: w7_def db_def w6_def w5_def w4_def w3_def w2_def w1_def f0)
  moreover have "g_counts g8 = None \<longleftrightarrow> \<not> is_raid_group g"
  proof -
    have "counts_ok g3" by (rule group_okD(6) [OF group_invD(1) [OF gw_invD(2) [OF i3 a3]]])
    moreover have "is_raid_group g3 = is_raid_group g" by (simp add: g3_def g1_def is_raid_group_def)
    ultimately show ?thesis using A(7) e7(8) by (auto simp: counts_ok_def split: option.splits)
  qed
  ultimately show ?thesis using that A e7(4) pend3 s7 by (simp add: e7)
qed

lemma mgr_add_group_inv:
  assumes inv: "gw_inv {p} L G w" and a: "gw_groups w p = Some g" and ne: "g_slots g \<noteq> []"
  shows "gw_inv {} L G (mgr_add_group p w)"
proof -
  let ?n = "get_counter (g_guid g)"
  have w': "mgr_add_group p w = w\<lparr>gw_store := om_put ?n p (gw_store w)\<rparr>" using a by (simp add: mgr_add_group_def with_group_def)
  note st = store_invD [OF gw_invD(3) [OF inv]]
  obtain n where n: "g_guid g = guid_create_global HG_Group n" "n \<noteq> 0" "id_used w n" "map_of (gw_store w) n = None"
    using st(7) [of p] a by auto
  then have nn: "?n = n" by (simp add: group_counter)
  have m: "map_of (om_put n p (gw_store w)) k = (if k = n then Some p else map_of (gw_store w) k)" for k
    using st(1) by (simp add: map_of_om_put)
  have id: "id_used (mgr_add_group p w) k = id_used w k" for k by (simp add: id_used_def w')
  have "store_inv {} (mgr_add_group p w)"
    unfolding store_inv_def id
  proof (intro conjI allI impI ballI)
    { fix k q assume k: "map_of (gw_store (mgr_add_group p w)) k = Some q"
      then have c: "k = n \<and> q = p \<or> map_of (gw_store w) k = Some q" by (auto simp: w' nn m split: if_splits)
      show "k \<noteq> 0" "id_used w k" using c n st(2,3) by blast+
      show "\<exists>g. gw_groups (mgr_add_group p w) q = Some g \<and> g_slots g \<noteq> [] \<and> g_guid g = guid_create_global HG_Group k"
        using c st(4) [of k q] a ne n(1) by (auto simp: w') }
    fix q h assume "gw_groups (mgr_add_group p w) q = Some h" "q \<notin> {}"
    then have q: "gw_groups w q = Some h" by (simp add: w')
    show "if g_slots h = [] then g_guid h = 0 else \<exists>k. g_guid h = guid_create_global HG_Group k \<and> map_of (gw_store (mgr_add_group p w)) k = Some q"
    proof (cases "q = p")
      case True
      then show ?thesis using q a ne n(1,2) m [of n] by (auto simp: w' group_counter intro!: exI [of _ n])
    next
      case False
      have "k \<noteq> n" if "map_of (gw_store w) k = Some q" for k using that n(4) by auto
      then show ?thesis using st(5,6) [OF q] False by (cases "g_slots h = []") (auto simp: w' nn m)
    qed
  qed (use st(1,8,9) nn in \<open>simp_all add: w' om_put_sorted\<close>)
  then show ?thesis
    using inv unfolding gw_inv_def w'
    by (simp add: player_inv_def group_inv_def one_group_def leaders_ok_def safe_def clean_def rolls_valid_def)
qed

end
