(* ===== verification/GroupMembers.thy ===== *)
theory GroupMembers
  imports GroupJoin
begin

text \<open>
  Members within a group: the conversion to a raid, moves between subgroups, flags and roles; and
  players who log in and out.
\<close>

section \<open>The counters of a raid\<close>

definition counts_match :: "u8 list \<Rightarrow> member_slot list \<Rightarrow> bool" where
  "counts_match cs ms \<longleftrightarrow> length cs = MAX_RAID_SUBGROUPS \<and> (\<forall>m \<in> set ms. unat (ms_group m) < MAX_RAID_SUBGROUPS)
     \<and> (\<forall>i < MAX_RAID_SUBGROUPS. unat (cs ! i) = sub_count i ms)"

lemma counts_ok_raid:
  assumes "g_counts g = Some cs"
  shows "counts_ok g \<longleftrightarrow> is_raid_group g \<and> counts_match cs (g_slots g) \<and> (\<forall>i < MAX_RAID_SUBGROUPS. sub_count i (g_slots g) \<le> MAXGROUPSIZE)"
  using assms by (auto simp: counts_ok_def counts_match_def)

lemma unat_inc255: "unat (c :: u8) < 255 \<Longrightarrow> unat (c + 1) = Suc (unat c)"
  by (simp add: unat_word_ariths)

lemma fold_add_at:
  assumes "length cs = MAX_RAID_SUBGROUPS" "\<forall>m \<in> set ms. unat (ms_group m) < MAX_RAID_SUBGROUPS"
    "\<And>i. i < MAX_RAID_SUBGROUPS \<Longrightarrow> unat (cs ! i) + sub_count i ms \<le> 255"
  shows "\<exists>cs'. fold (\<lambda>m r. Option.bind r (add_at 1 (ms_group m))) ms (Some cs) = Some cs' \<and> length cs' = MAX_RAID_SUBGROUPS
    \<and> (\<forall>i < MAX_RAID_SUBGROUPS. unat (cs' ! i) = unat (cs ! i) + sub_count i ms)"
  using assms
proof (induction ms arbitrary: cs)
  case Nil
  then show ?case by (simp add: sub_count_def)
next
  case (Cons m ms)
  let ?i = "unat (ms_group m)"
  let ?cs = "cs[?i := cs ! ?i + 1]"
  have i: "?i < MAX_RAID_SUBGROUPS" using Cons.prems(2) by simp
  have sc: "sub_count j (m # ms) = sub_count j ms + (if j = ?i then 1 else 0)" for j by (auto simp: sub_count_def)
  have "unat (cs ! ?i) < 255" using Cons.prems(3) [OF i] sc [of ?i] by simp
  note inc = unat_inc255 [OF this]
  have at: "unat (?cs ! j) = unat (cs ! j) + (if j = ?i then 1 else 0)" if "j < MAX_RAID_SUBGROUPS" for j
    using inc that Cons.prems(1) by (cases "j = ?i") simp_all
  have "unat (?cs ! j) + sub_count j ms \<le> 255" if "j < MAX_RAID_SUBGROUPS" for j
    using Cons.prems(3) [OF that] sc [of j] at [OF that] by simp
  then obtain cs' where cs': "fold (\<lambda>m r. Option.bind r (add_at 1 (ms_group m))) ms (Some ?cs) = Some cs'" "length cs' = MAX_RAID_SUBGROUPS"
    "\<forall>j < MAX_RAID_SUBGROUPS. unat (cs' ! j) = unat (?cs ! j) + sub_count j ms"
    using Cons.IH [of ?cs] Cons.prems(1,2) by auto
  have head: "add_at 1 (ms_group m) cs = Some ?cs" using i Cons.prems(1) by (simp add: add_at_def)
  show ?case
  proof (intro exI conjI)
    show "fold (\<lambda>m r. Option.bind r (add_at 1 (ms_group m))) (m # ms) (Some cs) = Some cs'" using cs'(1) head by simp
    show "\<forall>j < MAX_RAID_SUBGROUPS. unat (cs' ! j) = unat (cs ! j) + sub_count j (m # ms)" using cs'(3) at sc by simp
  qed (rule cs'(2))
qed

lemma init_counters_ok:
  assumes ok: "counts_ok g"
  obtains cs where "init_raid_sub_groups_counter (g\<lparr>g_type := ty\<rparr>) = Some (g\<lparr>g_type := ty, g_counts := Some cs\<rparr>)"
    "counts_match cs (g_slots g)" "\<And>i. i < MAX_RAID_SUBGROUPS \<Longrightarrow> sub_count i (g_slots g) \<le> MAXGROUPSIZE"
proof -
  have b: "\<forall>m \<in> set (g_slots g). unat (ms_group m) < MAX_RAID_SUBGROUPS" "\<And>i. i < MAX_RAID_SUBGROUPS \<Longrightarrow> sub_count i (g_slots g) \<le> MAXGROUPSIZE"
  proof -
    show "\<forall>m \<in> set (g_slots g). unat (ms_group m) < MAX_RAID_SUBGROUPS"
      using ok by (cases "g_counts g") (auto simp: counts_ok_def group_size_defs)
    have "sub_count i (g_slots g) \<le> length (g_slots g)" for i by (simp add: sub_count_def)
    then show "\<And>i. i < MAX_RAID_SUBGROUPS \<Longrightarrow> sub_count i (g_slots g) \<le> MAXGROUPSIZE"
      using ok order_trans by (cases "g_counts g") (auto simp: counts_ok_def intro: order_trans)
  qed
  have "unat (replicate MAX_RAID_SUBGROUPS (0 :: u8) ! i) + sub_count i (g_slots g) \<le> 255" if "i < MAX_RAID_SUBGROUPS" for i
    using b(2) [OF that] that by (simp add: MAXGROUPSIZE_def)
  then obtain cs where cs: "fold (\<lambda>m r. Option.bind r (add_at 1 (ms_group m))) (g_slots g) (Some (replicate MAX_RAID_SUBGROUPS 0)) = Some cs"
    "length cs = MAX_RAID_SUBGROUPS" "\<forall>i < MAX_RAID_SUBGROUPS. unat (cs ! i) = unat (replicate MAX_RAID_SUBGROUPS (0 :: u8) ! i) + sub_count i (g_slots g)"
    using fold_add_at [of "replicate MAX_RAID_SUBGROUPS 0" "g_slots g"] b(1) by auto
  then show ?thesis
    by (intro that [of cs]) (use b in \<open>simp_all add: init_raid_sub_groups_counter_def counts_match_def\<close>)
qed

section \<open>Conversion to a raid\<close>

lemma upd_group_type_neutral: "alive w p \<Longrightarrow> neutral w (upd_group_type p w)"
  unfolding upd_group_type_def by (rule neutral_with_group) (simp_all add: neutral_db)

lemma convert_to_raid_inv:
  assumes inv: "gw_inv {} {} {} w" and a: "gw_groups w p = Some g"
  shows "gw_inv {} {} {} (convert_to_raid e p w)"
proof -
  note ok = group_okD(6) [OF group_invD(1) [OF gw_invD(2) [OF inv a]]]
  let ?ty = "g_type g OR GROUPTYPE_RAID"
  obtain cs where cs: "init_raid_sub_groups_counter (g\<lparr>g_type := ?ty\<rparr>) = Some (g\<lparr>g_type := ?ty, g_counts := Some cs\<rparr>)"
    "counts_match cs (g_slots g)" "\<And>i. i < MAX_RAID_SUBGROUPS \<Longrightarrow> sub_count i (g_slots g) \<le> MAXGROUPSIZE"
    using init_counters_ok [OF ok] by blast
  let ?g = "g\<lparr>g_type := ?ty, g_counts := Some cs\<rparr>"
  define w1 where "w1 = try_group p init_raid_sub_groups_counter (upd_group p (\<lambda>g. g\<lparr>g_type := g_type g OR GROUPTYPE_RAID\<rparr>) w)"
  have w1: "w1 = upd_group p (\<lambda>_. ?g) (upd_group p (\<lambda>g. g\<lparr>g_type := g_type g OR GROUPTYPE_RAID\<rparr>) w)"
    using a cs(1) by (simp add: w1_def try_group_def with_group_def)
  have raid: "is_raid_group ?g"
  proof -
    have "bit (?ty AND GROUPTYPE_RAID) 1" by (simp add: GROUPTYPE_RAID_def bit_simps)
    then show ?thesis by (auto simp: is_raid_group_def)
  qed
  have i1: "gw_inv {} {} {} w1"
  proof (rule gw_inv_group [OF inv a, where g' = ?g])
    show "counts_ok ?g" using counts_ok_raid [of ?g cs] raid cs(2,3) by simp
    show "safe w1" by (rule safe_same [OF gw_invD(4) [OF inv]]) (use a in \<open>auto simp: w1 split: if_splits\<close>)
    show "g_leader ?g \<in> members ?g" if "g_slots ?g \<noteq> []" using gw_invD(5) [OF inv] a that by (simp add: leaders_ok_def)
  qed (use a in \<open>simp_all add: w1 same_manager_def\<close>)
  have al: "alive w1 p" using a by (simp add: w1 alive_def)
  have n2: "neutral w1 (upd_group_type p w1)" by (rule upd_group_type_neutral [OF al])
  define w3 where "w3 = send_update e p (upd_group_type p w1)"
  have n3: "neutral w1 w3" unfolding w3_def by (rule neutral_trans [OF n2 neutral_send_update [OF alive_neutral [OF n2 al]]])
  have "neutral w3 (with_group p (\<lambda>g w. if ge_lfg_state e (g_leader g) = LFG_STATE_RAIDBROWSER then glog (GLfgLeave (g_leader g)) w else w) w3)"
    by (rule neutral_with_group [OF alive_neutral [OF n3 al]]) (simp add: neutral_glog)
  from gw_inv_neutral [OF i1 neutral_trans [OF n3 this]] show ?thesis
    by (simp add: convert_to_raid_def w3_def w1_def)
qed

section \<open>Moves between subgroups\<close>

text \<open>Some members are in other subgroups now, and their references know.\<close>

definition regrouped :: "guid set \<Rightarrow> group_data \<Rightarrow> (guid \<Rightarrow> group_player option) \<Rightarrow> guid \<Rightarrow> group_player option" where
  "regrouped X g' ps y = (if y \<in> X
     then map_option (\<lambda>pl. pl\<lparr>gp_ref := (gp_ref pl)\<lparr>ref_subgroup := get_member_group y g'\<rparr>\<rparr>) (ps y) else ps y)"

lemma regroup_inv:
  assumes inv: "gw_inv S L {} w" and a: "gw_groups w p = Some g" and X: "X \<subseteq> members g"
    and kept: "map ms_guid (g_slots g') = map ms_guid (g_slots g)" "g_refs g' = g_refs g" "g_invitees g' = g_invitees g" "g_guid g' = g_guid g"
      "g_leader g' = g_leader g" "g_bg g' = g_bg g" "g_bf g' = g_bf g" "counts_ok g'"
    and other: "\<And>y. y \<notin> X \<Longrightarrow> get_member_group y g' = get_member_group y g"
    and F: "gw_players w' = regrouped X g' (gw_players w)" "gw_groups w' = (gw_groups w)(p \<mapsto> g')" "gw_cache w' = gw_cache w" "same_manager w w'" "safe w'"
  shows "gw_inv S L {} w'"
proof -
  note gi = gw_invD(2) [OF inv a]
  note o = group_okD [OF group_invD(1) [OF gi]]
  have mem: "members g' = members g" using arg_cong [OF kept(1), of set] by simp
  have gok: "group_ok g'" by (rule group_ok_upd [OF group_invD(1) [OF gi]]) (use o kept in simp_all)
  have nx: "gw_next w' = gw_next w" using F(4) by (simp add: same_manager_def)
  have conn: "gw_players w' y = None \<longleftrightarrow> gw_players w y = None" for y by (simp add: F regrouped_def)
  have rp: "\<exists>pl0. gw_players w y = Some pl0 \<and> ref_target (gp_ref pl) = ref_target (gp_ref pl0) \<and> gp_invite pl = gp_invite pl0
      \<and> gp_original pl = gp_original pl0" if "gw_players w' y = Some pl" for y pl
    using that by (auto simp: F regrouped_def split: if_splits)
  show ?thesis
  proof (rule gw_inv_upd [OF inv a F(4), where X = X and g' = g'])
    show "group_inv {} w' p g'"
      unfolding group_inv_def nx mem F(3)
    proof (intro conjI allI ballI impI)
      fix y b show "((y, b) \<in> set (g_refs g')) = (\<not> b \<and> y \<in> members g - {} \<and> gw_players w' y \<noteq> None)"
        unfolding conn kept(2) by (rule group_invD(3) [OF gi])
    next
      fix y pl assume "y \<in> members g - {}" "gw_players w' y = Some pl"
      then show "ref_target (gp_ref pl) = Some p" using rp group_invD(6) [OF gi, of y] by fastforce
    next
      fix y assume "y \<in> set (g_invitees g')"
      then obtain pl where pl: "gw_players w y = Some pl" "gp_invite pl = Some p" using group_invD(7) [OF gi] kept(3) by metis
      then show "\<exists>pl. gw_players w' y = Some pl \<and> gp_invite pl = Some p" by (auto simp: F regrouped_def)
    qed (use gok group_invD(2,4,5) [OF gi] kept(4) in auto)
    show "\<And>y pl. y \<in> X \<Longrightarrow> gw_players w' y = Some pl \<Longrightarrow> player_inv {} w' y pl"
    proof -
      fix y pl assume y: "y \<in> X" "gw_players w' y = Some pl"
      then obtain pl0 where pl0: "gw_players w y = Some pl0" "pl = pl0\<lparr>gp_ref := (gp_ref pl0)\<lparr>ref_subgroup := get_member_group y g'\<rparr>\<rparr>"
        by (auto simp: F regrouped_def)
      have m: "y \<in> members g - {}" using y(1) X by auto
      note pi = gw_invD(1) [OF inv pl0(1)] and r = group_invD(6) [OF gi m pl0(1)]
      have "gp_invite pl0 = None" using r player_invD(4) [OF pi] by (cases "gp_invite pl0") auto
      then show "player_inv {} w' y pl"
        using r pl0(2) m player_invD(1,2) [OF pi] by (simp add: player_inv_def F mem)
    qed
    show "\<And>y pl. y \<notin> X \<Longrightarrow> gw_players w y = Some pl \<Longrightarrow> ref_target (gp_ref pl) = Some p
        \<Longrightarrow> y \<notin> {} \<and> y \<in> members g' \<and> ref_subgroup (gp_ref pl) = get_member_group y g'"
      using player_invD(3) [OF gw_invD(1) [OF inv]] a other unfolding mem by fastforce
    show "\<And>y pl. y \<notin> X \<Longrightarrow> gw_players w y = Some pl \<Longrightarrow> gp_invite pl = Some p \<Longrightarrow> y \<in> set (g_invitees g')"
      using player_invD(5) [OF gw_invD(1) [OF inv]] a unfolding kept by fastforce
    show "\<And>y q h. y \<in> X \<Longrightarrow> q \<noteq> p \<Longrightarrow> gw_groups w q = Some h \<Longrightarrow> y \<notin> members h"
      using one_groupD [OF gw_invD(6) [OF inv] a] X by blast
    show "\<And>y q h. y \<in> X \<Longrightarrow> q \<noteq> p \<Longrightarrow> gw_groups w q = Some h \<Longrightarrow> y \<in> set (g_invitees h)
        \<Longrightarrow> \<exists>pl. gw_players w' y = Some pl \<and> gp_invite pl = Some q"
    proof -
      fix y q h assume "gw_groups w q = Some h" "y \<in> set (g_invitees h)"
      then obtain pl where "gw_players w y = Some pl" "gp_invite pl = Some q" using group_invD(7) [OF gw_invD(2) [OF inv]] by blast
      then show "\<exists>pl. gw_players w' y = Some pl \<and> gp_invite pl = Some q" by (auto simp: F regrouped_def)
    qed
    show "(g_slots g' = [] \<longleftrightarrow> g_slots g = []) \<or> (p \<in> S \<and> g_slots g' \<noteq> [])" using kept(1) by (metis map_is_Nil_conv)
    show "p \<notin> L \<Longrightarrow> g_slots g' \<noteq> [] \<Longrightarrow> g_leader g' \<in> members g'"
      using gw_invD(5) [OF inv] a kept(1) unfolding leaders_ok_def mem kept(5) by (metis map_is_Nil_conv)
    show "safe w'" by (rule F(5))
  qed (use X mem in \<open>auto simp: F kept regrouped_def\<close>)
qed

abbreviation put_group :: "u8 \<Rightarrow> member_slot \<Rightarrow> member_slot" where
  "put_group grp \<equiv> \<lambda>m. m\<lparr>ms_group := grp\<rparr>"

lemma sub_count_move:
  assumes "find (\<lambda>m. ms_guid m = x) ms = Some m"
  shows "sub_count i (update_slot x (put_group grp) ms) + (if i = unat (ms_group m) then 1 else 0) = sub_count i ms + (if i = unat grp then 1 else 0)"
  using assms by (induction ms) (auto simp: sub_count_def split: if_splits)

lemma find_move:
  "find (\<lambda>m. ms_guid m = y) (update_slot x (put_group grp) ms)
    = (if y = x then map_option (put_group grp) (find (\<lambda>m. ms_guid m = y) ms) else find (\<lambda>m. ms_guid m = y) ms)"
  by (induction ms) auto

lemma set_move: "m \<in> set (update_slot x (put_group grp) ms) \<Longrightarrow> ms_group m = grp \<or> m \<in> set ms"
  by (induction ms) (auto split: if_splits)

definition moved_group :: "guid \<Rightarrow> u8 \<Rightarrow> u8 list \<Rightarrow> group_data \<Rightarrow> group_data" where
  "moved_group x grp cs g = g\<lparr>g_slots := update_slot x (put_group grp) (g_slots g), g_counts := Some cs\<rparr>"

lemma moved_group_fields [simp]:
  "g_slots (moved_group x grp cs g) = update_slot x (put_group grp) (g_slots g)" "g_counts (moved_group x grp cs g) = Some cs"
  "g_refs (moved_group x grp cs g) = g_refs g" "g_invitees (moved_group x grp cs g) = g_invitees g" "g_guid (moved_group x grp cs g) = g_guid g"
  "g_leader (moved_group x grp cs g) = g_leader g" "g_type (moved_group x grp cs g) = g_type g" "g_bg (moved_group x grp cs g) = g_bg g"
  "g_bf (moved_group x grp cs g) = g_bf g" "g_rolls (moved_group x grp cs g) = g_rolls g" "is_raid_group (moved_group x grp cs g) = is_raid_group g"
  by (simp_all add: moved_group_def is_raid_group_def)

lemma get_member_group_moved:
  "get_member_group y (moved_group x grp cs g) = (if y = x \<and> x \<in> members g then grp else get_member_group y g)"
proof -
  have "find (\<lambda>m. ms_guid m = x) (g_slots g) = None \<longleftrightarrow> x \<notin> members g" by (auto simp: find_None_iff)
  then show ?thesis by (auto simp: get_member_group_def slot_of_def find_move split: option.splits)
qed

lemma update_slot_ids: "(\<And>m. ms_guid (f m) = ms_guid m) \<Longrightarrow> map ms_guid (update_slot x f ms) = map ms_guid ms"
  by (induction ms) simp_all

lemma members_moved: "members (moved_group x grp cs g) = members g"
proof -
  have "map ms_guid (update_slot x (put_group grp) (g_slots g)) = map ms_guid (g_slots g)" by (rule update_slot_ids) simp
  from arg_cong [OF this, of set] show ?thesis by simp
qed

text \<open>What \<open>change_members_group\<close> does to the core.\<close>

lemma change_members_group_core:
  assumes a: "gw_groups w p = Some g" and raid: "is_raid_group g" and m: "slot_of x g = Some m" "ms_group m \<noteq> grp"
    and cs: "g_counts g = Some cs" "counts_match cs (g_slots g)" and grp: "unat grp < MAX_RAID_SUBGROUPS" "sub_count (unat grp) (g_slots g) < 255"
    and pl: "\<And>pl. gw_players w x = Some pl \<Longrightarrow> ref_target (gp_ref pl) = Some p"
  obtains cs' where "counts_match cs' (update_slot x (put_group grp) (g_slots g))"
    "core (change_members_group e p x grp w) = core (set_sub_group False grp x (upd_group p (\<lambda>_. moved_group x grp cs' g) w))"
    "safe w \<Longrightarrow> safe (change_members_group e p x grp w)"
proof -
  let ?prev = "ms_group m" and ?ms = "update_slot x (put_group grp) (g_slots g)"
  have mem: "m \<in> set (g_slots g)" using slot_of_SomeD [OF m(1)] by simp
  have len: "length cs = MAX_RAID_SUBGROUPS" and prev: "unat ?prev < MAX_RAID_SUBGROUPS"
    and eq: "\<And>i. i < MAX_RAID_SUBGROUPS \<Longrightarrow> unat (cs ! i) = sub_count i (g_slots g)"
    using cs(2) mem by (auto simp: counts_match_def)
  have ne: "unat ?prev \<noteq> unat grp" using m(2) word_unat_eq_iff [of ?prev grp] by blast
  note sc = sub_count_move [OF m(1) [unfolded slot_of_def], of _ grp]
  define cs1 where "cs1 = cs[unat grp := cs ! unat grp + 1]"
  define cs2 where "cs2 = cs1[unat ?prev := cs1 ! unat ?prev + (- 1)]"
  have v: "unat (cs2 ! i) = sub_count i ?ms" if i: "i < MAX_RAID_SUBGROUPS" for i
  proof -
    consider "i = unat grp" | "i = unat ?prev" "i \<noteq> unat grp" | "i \<noteq> unat grp" "i \<noteq> unat ?prev" by blast
    then show ?thesis
    proof cases
      case 1
      have "unat (cs ! unat grp + 1) = Suc (sub_count (unat grp) (g_slots g))"
        using unat_inc255 [of "cs ! unat grp"] eq [OF grp(1)] grp(2) by simp
      then show ?thesis using 1 ne len grp(1) sc [of i] by (simp add: cs2_def cs1_def)
    next
      case 2
      have "unat (cs ! unat ?prev) = Suc (sub_count i ?ms)" using eq [OF prev] sc [of i] 2 by simp
      then have "unat (cs ! unat ?prev - 1) = sub_count i ?ms" by (rule unat_dec)
      then show ?thesis using 2 ne len prev by (simp add: cs2_def cs1_def)
    next
      case 3
      then show ?thesis using sc [of i] eq [OF i] by (simp add: cs2_def cs1_def)
    qed
  qed
  have match: "counts_match cs2 ?ms"
    unfolding counts_match_def using v len cs(2) set_move grp(1) by (fastforce simp: cs2_def cs1_def counts_match_def)
  have g1: "get_member_group x g = ?prev" using m(1) by (simp add: get_member_group_def)
  have inc: "sub_group_counter_increase grp (g\<lparr>g_slots := ?ms\<rparr>) = Some (g\<lparr>g_slots := ?ms, g_counts := Some cs1\<rparr>)"
    using cs(1) grp(1) len by (simp add: sub_group_counter_increase_def add_at_def cs1_def)
  have dec: "sub_group_counter_decrease ?prev (g\<lparr>g_slots := ?ms, g_counts := Some cs1\<rparr>) = Some (moved_group x grp cs2 g)"
    using prev len by (simp add: sub_group_counter_decrease_def add_at_def cs2_def moved_group_def cs1_def)
  define w1 where "w1 = upd_group p (\<lambda>_. moved_group x grp cs2 g) w"
  have steps: "try_group p (sub_group_counter_decrease ?prev) (try_group p (sub_group_counter_increase grp)
      (upd_group p (\<lambda>g. g\<lparr>g_slots := update_slot x (\<lambda>m. m\<lparr>ms_group := grp\<rparr>) (g_slots g)\<rparr>) w)) = w1"
    using a inc dec by (simp add: try_group_def with_group_def w1_def upd_group_def)
  define w2 where "w2 = (if \<not> bg_or_bf g then db (UpdGroupMemberSubgroup grp (get_counter x)) w1 else w1)"
  have n2: "neutral w1 w2" by (simp add: w2_def neutral_db)
  define w3 where "w3 = set_sub_group (get_group w2 x \<noteq> Some p) grp x w2"
  have e: "change_members_group e p x grp w = send_update e p w3"
    using a raid m g1 unfolding w3_def w2_def steps [symmetric]
    by (simp add: change_members_group_def with_group_def [of p _ w] Let_def)
  have w3: "w3 = set_sub_group False grp x w2"
  proof (cases "gw_players w x")
    case None
    then have "gw_players w2 x = None" by (simp add: w2_def db_def w1_def)
    then show ?thesis by (simp add: w3_def set_sub_group_def upd_player_def fun_upd_idem)
  next
    case (Some pl)
    then have "get_group w2 x = Some p" using assms(9) [OF Some] by (simp add: w2_def db_def w1_def get_group_def)
    then show ?thesis by (simp add: w3_def)
  qed
  have c3: "core w3 = core (set_sub_group False grp x w1)"
    unfolding w3 set_sub_group_def
    by (rule core_upd_player [OF neutral_core [OF n2]]) (auto simp: put_ref_def get_ref_def dest: pcore_eqD intro!: pcore_eqI)
  have al: "alive w3 p" using a by (simp add: w3 set_sub_group_def w2_def db_def w1_def alive_def)
  have n4: "neutral w3 (send_update e p w3)" by (rule neutral_send_update [OF al])
  show ?thesis
  proof (rule that [OF match])
    show "core (change_members_group e p x grp w) = core (set_sub_group False grp x (upd_group p (\<lambda>_. moved_group x grp cs2 g) w))"
      using neutral_core [OF n4] c3 by (simp add: e w1_def)
    assume "safe w"
    then have "safe w1" unfolding w1_def by (rule safe_same) (use a in \<open>auto split: if_splits\<close>)
    then have "safe w3" using n2 by (simp add: w3 set_sub_group_def safe_upd_player neutral_def)
    then show "safe (change_members_group e p x grp w)" using n4 by (simp add: e neutral_def)
  qed
qed

lemma set_sub_group_regrouped:
  assumes "\<And>pl. gw_players w x = Some pl \<Longrightarrow> True"
  shows "gw_players (set_sub_group False (get_member_group x g') x w) = regrouped {x} g' (gw_players w)"
  by (auto simp: set_sub_group_def regrouped_def put_ref_def get_ref_def fun_eq_iff)

lemma member_ref:
  "gw_inv S L {} w \<Longrightarrow> gw_groups w p = Some g \<Longrightarrow> x \<in> members g \<Longrightarrow> gw_players w x = Some pl \<Longrightarrow> ref_target (gp_ref pl) = Some p"
  using group_invD(6) [OF gw_invD(2)] by auto

lemma inv_counts:
  assumes "gw_inv S L G w" "gw_groups w p = Some g" "is_raid_group g"
  obtains cs where "g_counts g = Some cs" "counts_match cs (g_slots g)" "\<And>i. i < MAX_RAID_SUBGROUPS \<Longrightarrow> sub_count i (g_slots g) \<le> MAXGROUPSIZE"
proof -
  have "counts_ok g" by (rule group_okD(6) [OF group_invD(1) [OF gw_invD(2) [OF assms(1,2)]]])
  then show ?thesis using assms(3) that counts_ok_raid [of g] by (cases "g_counts g") (auto simp: counts_ok_def)
qed

lemma change_members_group_inv:
  assumes inv: "gw_inv {} {} {} w" and a: "gw_groups w p = Some g"
    and grp: "unat grp < MAX_RAID_SUBGROUPS" "has_free_slot_sub_group grp g = Some True"
  shows "gw_inv {} {} {} (change_members_group e p x grp w)"
proof (cases "is_raid_group g \<and> (\<exists>m. slot_of x g = Some m \<and> ms_group m \<noteq> grp)")
  case False
  then have "change_members_group e p x grp w = w"
    using a by (cases "slot_of x g") (auto simp: change_members_group_def with_group_def get_member_group_def Let_def)
  then show ?thesis using inv by simp
next
  case True
  then obtain m where m: "slot_of x g = Some m" "ms_group m \<noteq> grp" and raid: "is_raid_group g" by blast
  obtain cs where cs: "g_counts g = Some cs" "counts_match cs (g_slots g)" "\<And>i. i < MAX_RAID_SUBGROUPS \<Longrightarrow> sub_count i (g_slots g) \<le> MAXGROUPSIZE"
    by (rule inv_counts [OF inv a raid]) blast
  have x: "x \<in> members g" using slot_of_SomeD [OF m(1)] by auto
  have room: "sub_count (unat grp) (g_slots g) < MAXGROUPSIZE"
    using grp cs(1,2) by (simp add: has_free_slot_sub_group_def counts_match_def split: if_splits)
  obtain cs' where c': "counts_match cs' (update_slot x (put_group grp) (g_slots g))"
    "core (change_members_group e p x grp w) = core (set_sub_group False grp x (upd_group p (\<lambda>_. moved_group x grp cs' g) w))"
    "safe w \<Longrightarrow> safe (change_members_group e p x grp w)"
    by (rule change_members_group_core [OF a raid m cs(1,2) grp(1) _ member_ref [OF inv a x], where e = e]) (use room in \<open>simp_all add: MAXGROUPSIZE_def\<close>)
  let ?g = "moved_group x grp cs' g" and ?v = "set_sub_group False grp x (upd_group p (\<lambda>_. moved_group x grp cs' g) w)"
  have gx: "get_member_group x ?g = grp" using x by (simp add: get_member_group_moved)
  have ok: "counts_ok ?g"
  proof -
    have "sub_count i (update_slot x (put_group grp) (g_slots g)) \<le> MAXGROUPSIZE" if "i < MAX_RAID_SUBGROUPS" for i
      using sub_count_move [OF m(1) [unfolded slot_of_def], of i grp] cs(3) [OF that] room by (auto split: if_splits)
    then show ?thesis using counts_ok_raid [of ?g cs'] raid c'(1) by simp
  qed
  have "gw_inv {} {} {} ?v"
  proof (rule regroup_inv [OF inv a, where X = "{x}" and g' = ?g])
    show "gw_players ?v = regrouped {x} ?g (gw_players w)"
      using set_sub_group_regrouped [of "upd_group p (\<lambda>_. moved_group x grp cs' g) w" x ?g] gx by simp
    show "safe ?v"
      unfolding set_sub_group_def by (rule safe_upd_player, rule safe_same [OF gw_invD(4) [OF inv]]) (use a in \<open>auto split: if_splits\<close>)
    show "map ms_guid (g_slots ?g) = map ms_guid (g_slots g)" unfolding moved_group_fields by (rule update_slot_ids) simp
  qed (use x a ok in \<open>auto simp: get_member_group_moved set_sub_group_def same_manager_def\<close>)
  then show ?thesis by (rule gw_inv_core [OF _ c'(2) c'(3) [OF gw_invD(4) [OF inv]]])
qed

text \<open>Two members change places. In between, one subgroup may have six members.\<close>

lemma swap_members_inv:
  assumes inv: "gw_inv {} {} {} w" and a: "gw_groups w p = Some g" and raid: "is_raid_group g"
    and m: "slot_of x g = Some m" "slot_of y g = Some n" "ms_group m \<noteq> ms_group n"
  shows "gw_inv {} {} {} (change_members_group e p y (ms_group m) (change_members_group e p x (ms_group n) w))"
proof -
  let ?a = "ms_group m" and ?b = "ms_group n"
  obtain cs where cs: "g_counts g = Some cs" "counts_match cs (g_slots g)" "\<And>i. i < MAX_RAID_SUBGROUPS \<Longrightarrow> sub_count i (g_slots g) \<le> MAXGROUPSIZE"
    by (rule inv_counts [OF inv a raid]) blast
  have mem: "m \<in> set (g_slots g)" "n \<in> set (g_slots g)" "x \<in> members g" "y \<in> members g"
    using slot_of_SomeD [OF m(1)] slot_of_SomeD [OF m(2)] by auto
  have xy: "x \<noteq> y" using m by auto
  have lt: "unat ?a < MAX_RAID_SUBGROUPS" "unat ?b < MAX_RAID_SUBGROUPS" using cs(2) mem by (auto simp: counts_match_def)
  have ne: "unat ?a \<noteq> unat ?b" using m(3) word_unat_eq_iff [of ?a ?b] by blast
  obtain cs1 where c1: "counts_match cs1 (update_slot x (put_group ?b) (g_slots g))"
    "core (change_members_group e p x ?b w) = core (set_sub_group False ?b x (upd_group p (\<lambda>_. moved_group x ?b cs1 g) w))"
    "safe w \<Longrightarrow> safe (change_members_group e p x ?b w)"
    by (rule change_members_group_core [OF a raid m(1,3) cs(1,2) lt(2) _ member_ref [OF inv a mem(3)], where e = e])
      (use cs(3) [OF lt(2)] in \<open>simp_all add: MAXGROUPSIZE_def\<close>)
  let ?w1 = "change_members_group e p x ?b w" and ?g1 = "moved_group x ?b cs1 g"
  let ?v1 = "set_sub_group False ?b x (upd_group p (\<lambda>_. ?g1) w)"
  have p1: "gw_players ?v1 = (gw_players w)(x := map_option (\<lambda>pl. pl\<lparr>gp_ref := (gp_ref pl)\<lparr>ref_subgroup := ?b\<rparr>\<rparr>) (gw_players w x))"
    by (simp add: set_sub_group_def put_ref_def get_ref_def)
  have "map_option gcore (gw_groups ?w1 p) = Some (gcore ?g1)"
    using core_eqD(2) [OF c1(2), of p] a by (simp add: set_sub_group_def)
  then obtain h1 where h1: "gw_groups ?w1 p = Some h1" "gcore h1 = gcore ?g1" by auto
  note e1 = gcore_eqD [OF h1(2)]
  have n1: "slot_of y h1 = Some n"
    using m(2) xy unfolding slot_of_def e1(1) by (simp add: find_move slot_of_def)
  have raid1: "is_raid_group h1" using raid e1(5) by (simp add: is_raid_group_def)
  have sc1: "sub_count i (g_slots h1) + (if i = unat ?a then 1 else 0) = sub_count i (g_slots g) + (if i = unat ?b then 1 else 0)" for i
    using sub_count_move [OF m(1) [unfolded slot_of_def], of i ?b] e1(1) by simp
  have pl1: "ref_target (gp_ref pl) = Some p" if pl: "gw_players ?w1 y = Some pl" for pl
  proof -
    have "map_option pcore (gw_players ?w1 y) = map_option pcore (gw_players w y)" using core_eqD(1) [OF c1(2), of y] p1 xy by simp
    then obtain pl0 where pl0: "gw_players w y = Some pl0" "pcore pl = pcore pl0" using pl by (cases "gw_players w y") auto
    show ?thesis using member_ref [OF inv a mem(4) pl0(1)] pcore_eqD(2) [OF pl0(2)] by simp
  qed
  have b1: "sub_count (unat ?a) (g_slots h1) < 255" using sc1 [of "unat ?a"] cs(3) [OF lt(1)] ne by (simp add: MAXGROUPSIZE_def)
  obtain cs2 where c2: "counts_match cs2 (update_slot y (put_group ?a) (g_slots h1))"
    "core (change_members_group e p y ?a ?w1) = core (set_sub_group False ?a y (upd_group p (\<lambda>_. moved_group y ?a cs2 h1) ?w1))"
    "safe ?w1 \<Longrightarrow> safe (change_members_group e p y ?a ?w1)"
    by (rule change_members_group_core [OF h1(1) raid1 n1 m(3) [symmetric] _ _ lt(1) b1 pl1, where e = e and cs = cs1])
      (use e1 c1(1) in simp_all)
  let ?g2 = "moved_group y ?a cs2 ?g1"
  let ?v2 = "set_sub_group False ?a y (upd_group p (\<lambda>_. ?g2) ?v1)"
  have cc: "core (change_members_group e p y ?a ?w1) = core ?v2"
  proof -
    have "core (upd_group p (\<lambda>_. moved_group y ?a cs2 h1) ?w1) = core (upd_group p (\<lambda>_. ?g2) ?v1)"
    proof (rule core_upd_group [OF c1(2)])
      show "gcore (moved_group y ?a cs2 h1) = gcore ?g2"
        using e1 gcore_leader_name [OF h1(2)] by (intro gcore_eqI) (simp_all add: moved_group_def)
    qed
    then have "core (set_sub_group False ?a y (upd_group p (\<lambda>_. moved_group y ?a cs2 h1) ?w1)) = core ?v2"
      unfolding set_sub_group_def [of False ?a y]
      by (rule core_upd_player) (auto simp: put_ref_def get_ref_def dest: pcore_eqD intro!: pcore_eqI)
    then show ?thesis using c2(2) by simp
  qed
  have gx: "get_member_group x ?g2 = ?b" "get_member_group y ?g2 = ?a"
    using mem xy members_moved by (simp_all only: get_member_group_moved) auto
  have ids: "map ms_guid (g_slots ?g2) = map ms_guid (g_slots g)"
    unfolding moved_group_fields by (simp add: update_slot_ids)
  have ok: "counts_ok ?g2"
  proof -
    have "sub_count i (g_slots ?g2) = sub_count i (g_slots g)" for i
      using sub_count_move [OF n1 [unfolded slot_of_def], of i ?a] sc1 [of i] e1(1) by (simp split: if_splits)
    then show ?thesis using counts_ok_raid [of ?g2 cs2] raid c2(1) cs(3) e1(1) by simp
  qed
  have "gw_inv {} {} {} ?v2"
  proof (rule regroup_inv [OF inv a, where X = "{x, y}" and g' = ?g2])
    show "gw_players ?v2 = regrouped {x, y} ?g2 (gw_players w)"
      using xy gx by (auto simp: set_sub_group_def regrouped_def put_ref_def get_ref_def fun_eq_iff)
    show "safe ?v2"
      unfolding set_sub_group_def
      by (rule safe_upd_player, rule safe_same [OF gw_invD(4) [OF inv]]) (use a in \<open>auto split: if_splits\<close>)
  qed (use mem a ok ids in \<open>auto simp: get_member_group_moved set_sub_group_def same_manager_def\<close>)
  then show ?thesis by (rule gw_inv_core [OF _ cc c2(3) [OF c1(3) [OF gw_invD(4) [OF inv]]]])
qed

end
