(* ===== verification/GroupSessions.thy ===== *)
theory GroupSessions
  imports GroupMembers
begin

text \<open>
  Settings of a group, the flags and roles of its members; and players who log in and out.
\<close>

section \<open>Neutral operations on a living group\<close>

definition good :: "nat \<Rightarrow> group_world \<Rightarrow> bool" where
  "good p w \<longleftrightarrow> gw_inv {} {} {} w \<and> alive w p"

lemma goodI: "gw_inv {} {} {} w \<Longrightarrow> alive w p \<Longrightarrow> good p w"
  by (simp add: good_def)

lemma goodD: "good p w \<Longrightarrow> gw_inv {} {} {} w" "good p w \<Longrightarrow> alive w p" "good p w \<Longrightarrow> safe w"
  by (auto simp: good_def dest: gw_invD(4))

lemma good_neutral: "good p w \<Longrightarrow> neutral w w' \<Longrightarrow> good p w'"
  by (auto simp: good_def intro: gw_inv_neutral alive_neutral)

lemma good_with_group:
  assumes "good p w" "\<And>g. gw_groups w p = Some g \<Longrightarrow> good p (f g w)"
  shows "good p (with_group p f w)"
  using assms goodD(2) [OF assms(1)] by (auto simp: with_group_def alive_def)

lemma good_fold: "good p w \<Longrightarrow> (\<And>x v. good p v \<Longrightarrow> good p (f x v)) \<Longrightarrow> good p (fold f xs w)"
  by (induction xs arbitrary: w) simp_all

lemma good_broadcast: "good p w \<Longrightarrow> good p (broadcast_packet pk ign grp ignore p w)"
  by (rule good_neutral, assumption, rule neutral_broadcast_packet) (auto dest: goodD inv_refs_connected)

lemma good_put_target_icon: "good p w \<Longrightarrow> good p (put_target_icon i who target p w)"
  by (rule good_neutral, assumption, rule neutral_put_target_icon) (auto dest: goodD inv_refs_connected)

lemma good_set_target_icon:
  assumes "good p w"
  shows "good p (set_target_icon i who target p w)"
proof -
  have "good p (if is_empty target then w
             else fold (\<lambda>k. with_group p (\<lambda>g w. if g_icons g ! k = target then put_target_icon (of_nat k) guid_empty guid_empty p w else w))
               [0..<TARGETICONCOUNT] w)"
    using assms by (auto intro!: good_fold good_with_group good_put_target_icon)
  then show ?thesis
    using assms unfolding set_target_icon_def Let_def by (auto intro!: good_with_group good_put_target_icon)
qed

lemma good_send_update: "good p w \<Longrightarrow> good p (send_update e p w)"
  using good_neutral neutral_send_update [OF goodD(2)] by blast

section \<open>Flags and roles\<close>

lemma slots_change_inv:
  assumes gd: "good p w" and f: "\<And>ms. map ms_guid (f ms) = map ms_guid ms" "\<And>ms. map ms_group (f ms) = map ms_group ms"
  shows "good p (upd_group p (\<lambda>g. g\<lparr>g_slots := f (g_slots g)\<rparr>) w)"
proof -
  obtain g where a: "gw_groups w p = Some g" using goodD(2) [OF gd] by (auto simp: alive_def)
  note inv = goodD(1) [OF gd]
  let ?g = "g\<lparr>g_slots := f (g_slots g)\<rparr>" and ?w = "upd_group p (\<lambda>g. g\<lparr>g_slots := f (g_slots g)\<rparr>) w"
  have mem: "members ?g = members g" using arg_cong [OF f(1) [of "g_slots g"], of set] by simp
  have "gw_inv {} {} {} ?w"
  proof (rule gw_inv_group [OF inv a, where g' = ?g])
    show "counts_ok ?g" using group_okD(6) [OF group_invD(1) [OF gw_invD(2) [OF inv a]]] counts_ok_kept [of ?g g] f(2) by simp
    show "safe ?w" by (rule safe_upd_group [OF goodD(3) [OF gd]]) simp
    show "g_leader ?g \<in> members ?g" if "g_slots ?g \<noteq> []"
    proof -
      have "g_slots g \<noteq> []" using that f(1) [of "g_slots g"] by auto
      then show ?thesis using gw_invD(5) [OF inv] a unfolding mem by (simp add: leaders_ok_def)
    qed
  qed (use a f in \<open>simp_all add: same_manager_def\<close>)
  then show ?thesis using goodD(2) [OF gd] by (simp add: good_def)
qed

lemma good_update_slot:
  assumes "good p w" "\<And>m. ms_guid (f m) = ms_guid m" "\<And>m. ms_group (f m) = ms_group m"
  shows "good p (upd_group p (\<lambda>g. g\<lparr>g_slots := update_slot x f (g_slots g)\<rparr>) w)"
  by (rule slots_change_inv [OF assms(1)]) (use update_slot_kept [of f] assms(2,3) in simp_all)

lemma good_unique_flag:
  assumes "good p w"
  shows "good p (upd_group p (remove_unique_group_member_flag flag) w)"
  unfolding remove_unique_group_member_flag_def [abs_def] by (rule slots_change_inv [OF assms]) simp_all

lemma good_set_group_member_flag:
  assumes gd: "good p w"
  shows "good p (set_group_member_flag e p x apply flag w)"
proof -
  define w1 where "w1 = (if flag = MEMBER_FLAG_ASSISTANT then w else upd_group p (remove_unique_group_member_flag flag) w)"
  have g1: "good p w1" using gd by (simp add: w1_def good_unique_flag)
  define w2 where "w2 = upd_group p (\<lambda>g. g\<lparr>g_slots := update_slot x (toggle_group_member_flag flag apply) (g_slots g)\<rparr>) w1"
  have g2: "good p w2"
    unfolding w2_def by (rule good_update_slot [OF g1]) (simp_all add: toggle_group_member_flag_def)
  have "good p (with_group p (\<lambda>g w. case slot_of x g of None \<Rightarrow> w
                 | Some slot \<Rightarrow> db (UpdGroupMemberFlag (ms_flags slot) (get_counter x)) w) w2)"
    by (rule good_with_group [OF g2]) (auto split: option.split intro: g2 good_neutral [OF g2 neutral_db])
  from good_send_update [OF this] show ?thesis
    unfolding set_group_member_flag_def w2_def w1_def using gd by (intro good_with_group [OF gd]) (auto simp: Let_def)
qed

lemma good_set_lfg_roles:
  assumes "good p w"
  shows "good p (set_lfg_roles e p x roles w)"
  unfolding set_lfg_roles_def
  using assms by (auto intro!: good_with_group good_send_update good_update_slot split: option.split)

section \<open>Settings\<close>

lemma difficulties_neutral:
  "neutral v (send_dungeon_difficulty x (upd_player x (\<lambda>pl. pl\<lparr>gp_dungeon := k\<rparr>) v))"
  "neutral v (send_raid_difficulty x (upd_player x (\<lambda>pl. pl\<lparr>gp_raid := k\<rparr>) v))"
  by (rule neutral_trans [OF neutral_upd_player neutral_send_difficulties(1)]; simp add: pcore_def)
    (rule neutral_trans [OF neutral_upd_player neutral_send_difficulties(2)]; simp add: pcore_def)

lemma good_set_difficulty:
  assumes "good p w"
  shows "good p (set_dungeon_difficulty p k w)" "good p (set_raid_difficulty p k w)"
proof -
  have n: "good p (upd_group p (\<lambda>g. g\<lparr>g_dungeon := k\<rparr>) w)" "good p (upd_group p (\<lambda>g. g\<lparr>g_raid := k\<rparr>) w)"
    by (rule good_neutral [OF assms neutral_upd_group]; simp add: gcore_def)+
  have f: "good p (fold (\<lambda>(x, orig) w. send_dungeon_difficulty x (upd_player x (\<lambda>pl. pl\<lparr>gp_dungeon := k\<rparr>) w)) rs v)"
    "good p (fold (\<lambda>(x, orig) w. send_raid_difficulty x (upd_player x (\<lambda>pl. pl\<lparr>gp_raid := k\<rparr>) w)) rs v)" if "good p v" for rs v
    using that by (auto intro!: good_fold intro: good_neutral difficulties_neutral)
  show "good p (set_dungeon_difficulty p k w)"
    unfolding set_dungeon_difficulty_def Let_def
    by (rule good_with_group [OF n(1)], rule f(1)) (auto intro: n good_neutral neutral_db)
  show "good p (set_raid_difficulty p k w)"
    unfolding set_raid_difficulty_def Let_def
    by (rule good_with_group [OF n(2)], rule f(2)) (auto intro: n good_neutral neutral_db)
qed

lemma good_convert_to_lfg:
  assumes gd: "good p w"
  shows "good p (convert_to_lfg e restricted p w)"
proof -
  obtain g where a: "gw_groups w p = Some g" using goodD(2) [OF gd] by (auto simp: alive_def)
  note inv = goodD(1) [OF gd]
  have raid: "is_raid_group (h\<lparr>g_type := g_type h OR GROUPTYPE_LFG\<rparr>) = is_raid_group h"
    "is_raid_group (h\<lparr>g_type := g_type h OR GROUPTYPE_LFG_RESTRICTED, g_loot_method := k\<rparr>) = is_raid_group h" for h k
  proof -
    have "(t OR GROUPTYPE_LFG) AND GROUPTYPE_RAID = t AND GROUPTYPE_RAID" "(t OR GROUPTYPE_LFG_RESTRICTED) AND GROUPTYPE_RAID = t AND GROUPTYPE_RAID"
      for t :: u8
      by (simp_all add: group_type_defs bit.conj_disj_distrib2)
    then show "is_raid_group (h\<lparr>g_type := g_type h OR GROUPTYPE_LFG\<rparr>) = is_raid_group h"
      "is_raid_group (h\<lparr>g_type := g_type h OR GROUPTYPE_LFG_RESTRICTED, g_loot_method := k\<rparr>) = is_raid_group h"
      by (simp_all add: is_raid_group_def)
  qed
  have step: "good p (upd_group p f v)" if v: "good p v" and f: "\<And>h. gcore (f h) = gcore (h\<lparr>g_type := g_type (f h)\<rparr>)" "\<And>h. g_rolls (f h) = g_rolls h"
      "\<And>h. is_raid_group (f h) = is_raid_group h" for f v
  proof -
    obtain h where a: "gw_groups v p = Some h" using goodD(2) [OF v] by (auto simp: alive_def)
    note fh = gcore_eqD [OF f(1) [of h]]
    have "gw_inv {} {} {} (upd_group p f v)"
    proof (rule gw_inv_group [OF goodD(1) [OF v] a, where g' = "f h"])
      have "counts_ok (f h) = counts_ok h" unfolding counts_ok_def f(3) fh(1) [simplified] fh(8) [simplified] ..
      then show "counts_ok (f h)" using group_okD(6) [OF group_invD(1) [OF gw_invD(2) [OF goodD(1) [OF v] a]]] by simp
      show "safe (upd_group p f v)" by (rule safe_upd_group [OF goodD(3) [OF v] f(2)])
      show "g_leader (f h) \<in> members (f h)" if "g_slots (f h) \<noteq> []"
        using gw_invD(5) [OF goodD(1) [OF v]] a that fh by (simp add: leaders_ok_def)
    qed (use a fh in \<open>simp_all add: same_manager_def\<close>)
    then show ?thesis using goodD(2) [OF v] by (simp add: good_def)
  qed
  define w1 where "w1 = upd_group p (\<lambda>g. g\<lparr>g_type := g_type g OR GROUPTYPE_LFG\<rparr>) w"
  have g1: "good p w1" unfolding w1_def by (rule step [OF gd]) (simp_all add: raid)
  define w2 where "w2 = (if restricted then upd_group p (\<lambda>g. g\<lparr>g_type := g_type g OR GROUPTYPE_LFG_RESTRICTED, g_loot_method := NEED_BEFORE_GREED\<rparr>) w1 else w1)"
  have g2: "good p w2"
    unfolding w2_def using g1 by (auto intro!: step intro: raid simp: gcore_def raid)
  have "good p (upd_group_type p w2)" by (rule good_neutral [OF g2 upd_group_type_neutral [OF goodD(2) [OF g2]]])
  from good_send_update [OF this, of e] show ?thesis unfolding convert_to_lfg_def Let_def w2_def w1_def .
qed

section \<open>Logging out\<close>

lemma delete_pending_inv:
  assumes inv: "gw_inv {} {} {} w" and a: "gw_groups w p = Some g" and pending: "g_slots g = []"
  shows "gw_inv {} {} {} (delete_group p (remove_all_invites p w))"
    "uninvited x w \<Longrightarrow> uninvited x (delete_group p (remove_all_invites p w))"
proof -
  let ?w = "delete_group p (remove_all_invites p w)"
  note e = remove_all_invites_eq [OF inv a]
  have "(x, b) \<notin> set (g_refs g)" for x b using group_invD(3) [OF gw_invD(2) [OF inv a], of x b] pending by simp
  then have refs: "g_refs g = []" by (cases "g_refs g") auto
  have w': "?w = w\<lparr>gw_players := uninvite_all (g_invitees g) (gw_players w), gw_groups := (gw_groups w)(p := None)\<rparr>"
    unfolding e using a refs by (simp add: delete_group_def with_group_def upd_group_def)
  have guid: "g_guid g = 0" using store_invD(5) [OF gw_invD(3) [OF inv] a] pending by simp
  have "gw_inv {} ({} - {p}) {} ?w"
  proof (rule end_group_inv [OF inv a])
    show "gw_store ?w = filter (\<lambda>e. fst e \<noteq> get_counter (g_guid g)) (gw_store w)"
    proof -
      have "fst e \<noteq> 0" if "e \<in> set (gw_store w)" for e
        using that store_invD(2) [OF gw_invD(3) [OF inv]] om_sorted_distinct [OF store_invD(1) [OF gw_invD(3) [OF inv]]]
        by (metis map_of_eq_Some_iff prod.collapse)
      then show ?thesis by (simp add: w' guid get_counter_zero filter_True)
    qed
    show "safe ?w" using gw_invD(4) [OF inv] by (auto simp: w' safe_def clean_def rolls_valid_def split: if_splits)
  qed (use pending in \<open>simp_all add: w'\<close>)
  then show "gw_inv {} {} {} ?w" by simp
  show "uninvited x ?w" if "uninvited x w"
    using that by (cases "gw_players w x") (auto simp: uninvited_def get_group_invite_def w' uninvite_all_def)
qed

lemma uninvite_from_group_inv:
  assumes inv: "gw_inv {} {} {} w"
  shows "gw_inv {} {} {} (uninvite_from_group e x w) \<and> uninvited x (uninvite_from_group e x w)"
proof (cases "get_group_invite w x")
  case None
  then show ?thesis using inv by (simp add: uninvite_from_group_def uninvited_def)
next
  case (Some p)
  obtain pl g where pl: "gw_players w x = Some pl" "gp_invite pl = Some p" "ref_target (gp_ref pl) = None" and a: "gw_groups w p = Some g"
    by (rule inv_get_invite [OF inv Some])
  let ?v = "remove_invite p x w" and ?g = "g\<lparr>g_invitees := removeAll x (g_invitees g)\<rparr>"
  have iv: "gw_inv {} {} {} ?v" by (rule remove_invite_inv [OF inv pl(1) a pl(3)]) (use pl(2) in simp)
  have uv: "uninvited x ?v" using remove_invite_fields(1) [OF pl(1) a] by (simp add: uninvited_def get_group_invite_def)
  have av: "gw_groups ?v p = Some ?g" using remove_invite_fields(2) [OF pl(1) a] by simp
  have pend: "g_slots ?g = []" if "\<not> is_created ?g" using that by (simp add: is_created_def members_count_def)
  show ?thesis
    using a av iv uv disband_inv(1) [OF iv av, where e = e and hide = True] disband_inv(2) [OF iv av uv, where e = e and hide = True]
      delete_pending_inv(1) [OF iv av pend] delete_pending_inv(2) [OF iv av pend uv]
    by (auto simp: uninvite_from_group_def Some with_group_def)
qed

lemma delete_player_inv:
  assumes inv: "gw_inv {} {} {} w" and no: "uninvited x w"
  shows "gw_inv {} {} {} (delete_player x w)"
proof (cases "gw_players w x")
  case None
  then have "delete_player x w = w" by (simp add: delete_player_def unlink_ref_def fun_upd_idem)
  then show ?thesis using inv by simp
next
  case (Some pl)
  note pi = gw_invD(1) [OF inv Some]
  have u1: "unlink_ref True x v = v" if "get_original_group v x = None" for v
    using that by (auto simp: unlink_ref_def get_ref_def get_original_group_def split: option.splits)
  have "get_original_group (unlink_ref False x w) x = None"
    using inv_original [OF inv, of x] by (auto simp: unlink_ref_def get_original_group_def get_ref_def put_ref_def split: option.splits)
  then have d: "delete_player x w = (unlink_ref False x w)\<lparr>gw_players := (gw_players (unlink_ref False x w))(x := None)\<rparr>"
    by (simp add: delete_player_def u1 Let_def)
  have noinv: "x \<notin> set (g_invitees h)" if "gw_groups w q = Some h" for q h
    using inv_invited_here [OF inv Some that] no Some by (auto simp: uninvited_def get_group_invite_def)
  show ?thesis
  proof (cases "ref_target (gp_ref pl)")
    case None
    then have e: "delete_player x w = w\<lparr>gw_players := (gw_players w)(x := None)\<rparr>"
      using Some by (simp add: d unlink_ref_def get_ref_def)
    have nm: "x \<notin> members h" if "gw_groups w q = Some h" for q h by (rule inv_no_group_no_member [OF inv Some None that])
    have "player_inv {} (delete_player x w) y ql" if "gw_players (delete_player x w) y = Some ql" for y ql
      using that gw_invD(1) [OF inv, of y ql] by (auto simp: e player_inv_def split: if_splits)
    moreover have "group_inv {} (delete_player x w) q h" if "gw_groups (delete_player x w) q = Some h" for q h
    proof -
      have q: "gw_groups w q = Some h" using that by (simp add: e)
      note gi = gw_invD(2) [OF inv q]
      have same: "gw_players (delete_player x w) y = gw_players w y" if "y \<in> members h \<or> y \<in> set (g_invitees h)" for y
        using that nm [OF q] noinv [OF q] by (auto simp: e)
      have nr: "(x, b) \<notin> set (g_refs h)" for b using group_invD(3) [OF gi, of x b] nm [OF q] by simp
      have r: "(y, b) \<in> set (g_refs h) \<longleftrightarrow> \<not> b \<and> y \<in> members h - {} \<and> gw_players (delete_player x w) y \<noteq> None" for y b
        using group_invD(3) [OF gi, of y b] nm [OF q] by (auto simp: e)
      show ?thesis
        using gi same r unfolding group_inv_def by (simp add: e)
    qed
    moreover have "store_inv {} (delete_player x w)" using gw_invD(3) [OF inv] by (simp add: e store_inv_def id_used_def)
    moreover have "safe (delete_player x w)" using gw_invD(4) [OF inv] by (simp add: e safe_def clean_def rolls_valid_def)
    moreover have "leaders_ok {} (delete_player x w)" "one_group (delete_player x w)" "cache_ok (gw_cache (delete_player x w))"
      using gw_invD(5,6,7) [OF inv] by (simp_all add: e leaders_ok_def one_group_def)
    ultimately show ?thesis by (simp add: gw_inv_def)
  next
    case ref: (Some p)
    obtain g where a: "gw_groups w p = Some g" and x: "x \<in> members g - {}" using player_invD(3) [OF pi ref] by auto
    note U = unlink_fields [OF inv a x]
    let ?g = "g\<lparr>g_refs := removeAll (x, False) (g_refs g)\<rparr>"
    have F: "gw_players (delete_player x w) = (gw_players w)(x := None)" "gw_groups (delete_player x w) = (gw_groups w)(p \<mapsto> ?g)"
      "gw_cache (delete_player x w) = gw_cache w" "same_manager w (delete_player x w)"
      using U by (simp_all add: d same_manager_def)
    note gi = gw_invD(2) [OF inv a]
    note o = group_okD [OF group_invD(1) [OF gi]]
    have nx: "gw_next (delete_player x w) = gw_next w" using F(4) by (simp add: same_manager_def)
    have sl: "get_member_group y ?g = get_member_group y g" for y by (rule get_member_group_cong) simp
    have gok: "group_ok ?g"
    proof (rule group_ok_upd [OF group_invD(1) [OF gi]])
      show "counts_ok ?g" using o(6) counts_ok_cong [of ?g g] by simp
    qed (use o in \<open>simp_all add: removeAll_filter_not_eq\<close>)
    show ?thesis
    proof (rule gw_inv_upd [OF inv a F(4), where X = "{x}" and g' = ?g])
      show "group_inv {} (delete_player x w) p ?g"
        unfolding group_inv_def nx F(3)
      proof (intro conjI allI ballI impI)
        fix y b show "((y, b) \<in> set (g_refs ?g)) = (\<not> b \<and> y \<in> members ?g - {} \<and> gw_players (delete_player x w) y \<noteq> None)"
          using group_invD(3) [OF gi, of y b] by (auto simp: F)
      next
        fix y pl assume "y \<in> members ?g - {}" "gw_players (delete_player x w) y = Some pl"
        then show "ref_target (gp_ref pl) = Some p" using group_invD(6) [OF gi, of y] by (auto simp: F split: if_splits)
      next
        fix y assume "y \<in> set (g_invitees ?g)"
        then show "\<exists>pl. gw_players (delete_player x w) y = Some pl \<and> gp_invite pl = Some p"
          using group_invD(7) [OF gi, of y] noinv [OF a] by (auto simp: F)
      qed (use gok group_invD(2,4,5) [OF gi] in auto)
      show "\<And>y pl. y \<notin> {x} \<Longrightarrow> gw_players w y = Some pl \<Longrightarrow> ref_target (gp_ref pl) = Some p
          \<Longrightarrow> y \<notin> {} \<and> y \<in> members ?g \<and> ref_subgroup (gp_ref pl) = get_member_group y ?g"
        using player_invD(3) [OF gw_invD(1) [OF inv]] a unfolding sl by fastforce
      show "\<And>y pl. y \<notin> {x} \<Longrightarrow> gw_players w y = Some pl \<Longrightarrow> gp_invite pl = Some p \<Longrightarrow> y \<in> set (g_invitees ?g)"
        using player_invD(5) [OF gw_invD(1) [OF inv]] a by fastforce
      show "\<And>y q h. y \<in> {x} \<Longrightarrow> q \<noteq> p \<Longrightarrow> gw_groups w q = Some h \<Longrightarrow> y \<notin> members h"
        using one_groupD [OF gw_invD(6) [OF inv] a] x by blast
      show "\<And>y q h. y \<in> {x} \<Longrightarrow> q \<noteq> p \<Longrightarrow> gw_groups w q = Some h \<Longrightarrow> y \<in> set (g_invitees h)
          \<Longrightarrow> \<exists>pl. gw_players (delete_player x w) y = Some pl \<and> gp_invite pl = Some q"
        using noinv by blast
      show "p \<notin> {} \<Longrightarrow> g_slots ?g \<noteq> [] \<Longrightarrow> g_leader ?g \<in> members ?g"
        using gw_invD(5) [OF inv] a by (simp add: leaders_ok_def)
      show "safe (delete_player x w)"
        using safe_unlink_ref [OF gw_invD(4) [OF inv], of False x] by (simp add: d safe_def clean_def rolls_valid_def)
    qed (simp_all add: F)
  qed
qed

text \<open>A member is not invited.\<close>

lemma member_uninvited: "gw_inv S L G w \<Longrightarrow> get_group w x = Some p \<Longrightarrow> uninvited x w"
  by (erule (1) inv_get_group) (simp add: uninvited_def get_group_invite_def)

lemma remove_own_member_inv:
  assumes inv: "gw_inv {} {} {} w" and p: "get_group w x = Some p"
  shows "gw_inv {} {} {} (remove_member e p x method kicker reason w) \<and> uninvited x (remove_member e p x method kicker reason w)"
proof -
  obtain g where a: "gw_groups w p = Some g" and x: "x \<in> members g" by (rule inv_get_group [OF inv p]) simp
  show ?thesis using remove_member_inv [OF inv a x] member_uninvited [OF inv p] by blast
qed

lemma logout_groups_inv:
  assumes inv: "gw_inv {} {} {} w"
  shows "gw_inv {} {} {} (logout_groups e socket x w) \<and> uninvited x (logout_groups e socket x w)"
proof -
  define w1 where "w1 = (if get_group w x = None \<or> ge_leave_on_logout e then uninvite_from_group e x w else w)"
  have 1: "gw_inv {} {} {} w1 \<and> uninvited x w1"
  proof (cases "get_group w x")
    case None
    then show ?thesis using uninvite_from_group_inv [OF inv] by (simp add: w1_def)
  next
    case (Some p)
    then show ?thesis using uninvite_from_group_inv [OF inv] member_uninvited [OF inv Some] inv by (simp add: w1_def)
  qed
  show ?thesis
  proof (cases "get_group w1 x")
    case None
    then show ?thesis using 1 by (simp add: logout_groups_def w1_def [symmetric])
  next
    case (Some p)
    obtain g where a: "gw_groups w1 p = Some g" by (rule inv_get_group [OF _ Some]) (use 1 in auto)
    show ?thesis
      using 1 remove_own_member_inv [of w1 x p e GROUP_REMOVEMETHOD_DEFAULT guid_empty "[]"] Some a
      by (simp add: logout_groups_def w1_def [symmetric] with_group_def)
  qed
qed

section \<open>Logging in\<close>

lemma members_have_cache:
  assumes "gw_inv {} {} {} w" "gw_groups w p = Some g" "x \<in> members g"
  obtains n where "get_character_group_guid_by_guid (gw_cache w) x = guid_create_global HG_Group n" "map_of (gw_store w) n = Some p" "n \<noteq> 0"
proof -
  have ne: "g_slots g \<noteq> []" using assms(3) by auto
  obtain n where n: "g_guid g = guid_create_global HG_Group n" "map_of (gw_store w) n = Some p"
    using store_invD(6) [OF gw_invD(3) [OF assms(1)] assms(2) _ ne] by blast
  have "get_character_group_guid_by_guid (gw_cache w) x = g_guid g"
    using group_invD(5) [OF gw_invD(2) [OF assms(1,2)], of x] assms(3) by simp
  then show ?thesis using that n store_invD(2) [OF gw_invD(3) [OF assms(1)] n(2)] by simp
qed

lemma global_group_not_empty: "n \<noteq> 0 \<Longrightarrow> \<not> is_empty (guid_create_global HG_Group n)"
proof
  assume n: "n \<noteq> 0" "is_empty (guid_create_global HG_Group n)"
  then have "get_counter (guid_create_global HG_Group n) = 0" by (simp add: is_empty_def get_counter_zero)
  then show False using group_counter [OF n(1)] n(1) by simp
qed

lemma get_member_group_small:
  assumes "gw_inv S L G w" "gw_groups w p = Some g"
  shows "unat (get_member_group x g) \<le> MAX_RAID_SUBGROUPS \<longleftrightarrow> x \<in> members g"
proof (cases "slot_of x g")
  case None
  then show ?thesis using slot_of_None_iff [of x g] by (simp add: get_member_group_def group_size_defs)
next
  case (Some m)
  then have m: "m \<in> set (g_slots g)" "ms_guid m = x" using slot_of_SomeD by auto
  have "unat (ms_group m) < MAX_RAID_SUBGROUPS"
    using group_okD(6) [OF group_invD(1) [OF gw_invD(2) [OF assms]]] m(1)
    by (cases "g_counts g") (auto simp: counts_ok_def group_size_defs)
  then show ?thesis using Some m by (auto simp: get_member_group_def)
qed

text \<open>The player is there; if he is a member, the reference is missing.\<close>

lemma appear_inv:
  assumes inv: "gw_inv {} {} {} w" and off: "gw_players w x = None" and entry: "has_character_cache_entry (gw_cache w) x"
    and pl: "gp_ref pl = ref_none" "gp_original pl = ref_none" "gp_invite pl = None"
    and nm: "\<And>q h. gw_groups w q = Some h \<Longrightarrow> x \<notin> members h"
  shows "gw_inv {} {} {} (w\<lparr>gw_players := (gw_players w)(x \<mapsto> pl)\<rparr>)"
proof -
  let ?w = "w\<lparr>gw_players := (gw_players w)(x \<mapsto> pl)\<rparr>"
  have "player_inv {} ?w y ql" if "gw_players ?w y = Some ql" for y ql
    using that gw_invD(1) [OF inv, of y ql] entry pl by (auto simp: player_inv_def ref_none_def split: if_splits)
  moreover have "group_inv {} ?w q h" if q: "gw_groups w q = Some h" for q h
  proof -
    note gi = gw_invD(2) [OF inv q]
    have same: "gw_players ?w y = gw_players w y" if "y \<in> members h \<or> y \<in> set (g_invitees h)" for y
      using that nm [OF q] group_invD(7) [OF gi, of x] off by auto
    have r: "(y, b) \<in> set (g_refs h) \<longleftrightarrow> \<not> b \<and> y \<in> members h - {} \<and> gw_players ?w y \<noteq> None" for y b
      using group_invD(3) [OF gi, of y b] nm [OF q] by auto
    show ?thesis
      unfolding group_inv_def r using group_invD(1,2,4,5,6,7) [OF gi] same by simp
  qed
  moreover have "store_inv {} ?w" using gw_invD(3) [OF inv] by (simp add: store_inv_def id_used_def)
  moreover have "safe ?w" using gw_invD(4) [OF inv] by (simp add: safe_def clean_def rolls_valid_def)
  moreover have "leaders_ok {} ?w" "one_group ?w" "cache_ok (gw_cache ?w)"
    using gw_invD(5,6,7) [OF inv] by (simp_all add: leaders_ok_def one_group_def)
  ultimately show ?thesis by (simp add: gw_inv_def)
qed

text \<open>He is a member: his reference is linked.\<close>

lemma link_inv:
  assumes inv: "gw_inv {} {} {} w" and off: "gw_players w x = None"
    and pl: "gp_original pl = ref_none" "gp_invite pl = None" "gp_ref pl = \<lparr>ref_target = Some p, ref_subgroup = get_member_group x g\<rparr>"
    and a: "gw_groups w p = Some g" and x: "x \<in> members g"
    and F: "gw_players w' = (gw_players w)(x \<mapsto> pl)" "gw_groups w' = (gw_groups w)(p \<mapsto> g\<lparr>g_refs := (x, False) # g_refs g\<rparr>)"
      "gw_cache w' = gw_cache w" "same_manager w w'" "safe w'"
  shows "gw_inv {} {} {} w'"
proof -
  let ?g = "g\<lparr>g_refs := (x, False) # g_refs g\<rparr>"
  note gi = gw_invD(2) [OF inv a]
  note o = group_okD [OF group_invD(1) [OF gi]]
  have sl: "get_member_group y ?g = get_member_group y g" for y by (rule get_member_group_cong) simp
  have nr: "(x, False) \<notin> set (g_refs g)" using group_invD(3) [OF gi, of x False] off by simp
  have gok: "group_ok ?g"
  proof (rule group_ok_upd [OF group_invD(1) [OF gi]])
    show "counts_ok ?g" using o(6) counts_ok_cong [of ?g g] by simp
  qed (use o nr in simp_all)
  have nx: "gw_next w' = gw_next w" using F(4) by (simp add: same_manager_def)
  have ni: "x \<notin> set (g_invitees h)" if "gw_groups w q = Some h" for q h
    using group_invD(7) [OF gw_invD(2) [OF inv that], of x] off by auto
  show ?thesis
  proof (rule gw_inv_upd [OF inv a F(4), where X = "{x}" and g' = ?g])
    show "group_inv {} w' p ?g"
      unfolding group_inv_def nx F(3)
    proof (intro conjI allI ballI impI)
      fix y b show "((y, b) \<in> set (g_refs ?g)) = (\<not> b \<and> y \<in> members ?g - {} \<and> gw_players w' y \<noteq> None)"
        using group_invD(3) [OF gi, of y b] x by (auto simp: F)
    next
      fix y ql assume "y \<in> members ?g - {}" "gw_players w' y = Some ql"
      then show "ref_target (gp_ref ql) = Some p" using group_invD(6) [OF gi, of y] pl(3) by (auto simp: F split: if_splits)
    next
      fix y assume "y \<in> set (g_invitees ?g)"
      then have y: "y \<in> set (g_invitees g)" by simp
      then show "\<exists>pl. gw_players w' y = Some pl \<and> gp_invite pl = Some p" using group_invD(7) [OF gi y] ni [OF a] by (auto simp: F)
    qed (use gok group_invD(2,4,5) [OF gi] in auto)
    show "\<And>y ql. y \<in> {x} \<Longrightarrow> gw_players w' y = Some ql \<Longrightarrow> player_inv {} w' y ql"
      using pl x group_invD(4) [OF gi, of x] by (auto simp: F player_inv_def ref_none_def sl)
    show "\<And>y pl. y \<notin> {x} \<Longrightarrow> gw_players w y = Some pl \<Longrightarrow> ref_target (gp_ref pl) = Some p
        \<Longrightarrow> y \<notin> {} \<and> y \<in> members ?g \<and> ref_subgroup (gp_ref pl) = get_member_group y ?g"
      using player_invD(3) [OF gw_invD(1) [OF inv]] a unfolding sl by fastforce
    show "\<And>y pl. y \<notin> {x} \<Longrightarrow> gw_players w y = Some pl \<Longrightarrow> gp_invite pl = Some p \<Longrightarrow> y \<in> set (g_invitees ?g)"
      using player_invD(5) [OF gw_invD(1) [OF inv]] a by fastforce
    show "\<And>y q h. y \<in> {x} \<Longrightarrow> q \<noteq> p \<Longrightarrow> gw_groups w q = Some h \<Longrightarrow> y \<notin> members h"
      using one_groupD [OF gw_invD(6) [OF inv] a] x by blast
    show "\<And>y q h. y \<in> {x} \<Longrightarrow> q \<noteq> p \<Longrightarrow> gw_groups w q = Some h \<Longrightarrow> y \<in> set (g_invitees h)
        \<Longrightarrow> \<exists>pl. gw_players w' y = Some pl \<and> gp_invite pl = Some q"
      using ni by blast
    show "p \<notin> {} \<Longrightarrow> g_slots ?g \<noteq> [] \<Longrightarrow> g_leader ?g \<in> members ?g"
      using gw_invD(5) [OF inv] a by (simp add: leaders_ok_def)
  qed (simp_all add: F)
qed

lemma login_member_inv:
  assumes inv: "gw_inv {} {} {} w" and off: "gw_players w x = None" and a: "gw_groups w p = Some g" and x: "x \<in> members g"
  shows "gw_inv {} {} {} (login_player x pl w)"
proof -
  let ?pl = "pl\<lparr>gp_ref := ref_none, gp_original := ref_none, gp_invite := None\<rparr>"
  define v where "v = w\<lparr>gw_players := (gw_players w)(x \<mapsto> ?pl)\<rparr>"
  define v1 where "v1 = (if is_leader x g then upd_player x (\<lambda>pl. pl\<lparr>gp_leader_flag := True\<rparr>) v else v)"
  define pl1 where "pl1 = (if is_leader x g then ?pl\<lparr>gp_leader_flag := True\<rparr> else ?pl)"
  let ?sub = "get_member_group x g"
  define v2 where "v2 = player_set_group x (Some p) ?sub v1"
  define v3 where "v3 = upd_player x (\<lambda>pl. pl\<lparr>gp_dungeon := g_dungeon g, gp_raid := g_raid g\<rparr>) v2"
  obtain n where n: "get_character_group_guid_by_guid (gw_cache w) x = guid_create_global HG_Group n" "map_of (gw_store w) n = Some p" "n \<noteq> 0"
    by (rule members_have_cache [OF inv a x])
  have V: "gw_players v1 = (gw_players w)(x \<mapsto> pl1)" "gw_groups v1 = gw_groups w" "gw_cache v1 = gw_cache w" "same_manager w v1"
    by (simp_all add: v1_def v_def pl1_def same_manager_def)
  have sv: "safe v1" using gw_invD(4) [OF inv] by (auto simp: v1_def v_def safe_def clean_def rolls_valid_def)
  have p1: "gw_players v1 x = Some pl1" "ref_target (gp_ref pl1) = None" "gw_groups v1 p = Some g" "gp_original pl1 = ref_none" "gp_invite pl1 = None"
    using a by (simp_all add: V pl1_def ref_none_def)
  note J = set_group_eq [OF p1(1-3), where sub = ?sub]
  have i2: "gw_inv {} {} {} v2"
  proof (rule link_inv [OF inv off _ _ _ a x])
    show "gw_players v2 = (gw_players w)(x \<mapsto> pl1\<lparr>gp_ref := \<lparr>ref_target = Some p, ref_subgroup = ?sub\<rparr>\<rparr>)"
      by (simp add: v2_def J V)
    show "same_manager w v2" unfolding v2_def by (rule same_manager_trans [OF V(4) J(4)])
    show "safe v2" unfolding v2_def by (rule J(5) [OF sv])
  qed (use p1 in \<open>simp_all add: v2_def J V\<close>)
  have n3: "neutral v2 v3" unfolding v3_def by (rule neutral_upd_player) (simp add: pcore_def)
  have g3: "get_group v3 x = Some p" "alive v3 p" using p1 by (simp_all add: v3_def v2_def J V get_group_def alive_def a)
  have c: "get_character_group_guid_by_guid (gw_cache v) x = guid_create_global HG_Group n" "get_group_by_guid n v = Some p" "gw_groups v p = Some g"
    using n a by (simp_all add: v_def get_group_by_guid_def)
  have e: "login_player x pl w = with_group p (\<lambda>g w. if is_leader x g then w else upd_player x (\<lambda>pl. pl\<lparr>gp_leader_flag := False\<rparr>) w) v3"
    unfolding login_player_def v_def [symmetric]
    using c n(3) global_group_not_empty [OF n(3)] get_member_group_small [OF inv a, of x] x g3(1)
    by (simp add: player_load_group_def Let_def group_counter with_group_def [of p _ v] v3_def v2_def v1_def)
  have "neutral v3 (login_player x pl w)"
    unfolding e by (rule neutral_with_group [OF g3(2)]) (simp add: neutral_upd_player pcore_def)
  then show ?thesis by (rule gw_inv_neutral [OF gw_inv_neutral [OF i2 n3]])
qed

lemma login_player_inv:
  assumes inv: "gw_inv {} {} {} w" and off: "gw_players w x = None" and entry: "has_character_cache_entry (gw_cache w) x"
  shows "gw_inv {} {} {} (login_player x pl w)"
proof (cases "\<exists>p g. gw_groups w p = Some g \<and> x \<in> members g")
  case True
  then show ?thesis using login_member_inv [OF inv off] by blast
next
  case False
  let ?pl = "pl\<lparr>gp_ref := ref_none, gp_original := ref_none, gp_invite := None\<rparr>"
  define v where "v = w\<lparr>gw_players := (gw_players w)(x \<mapsto> ?pl)\<rparr>"
  have iv: "gw_inv {} {} {} v" unfolding v_def by (rule appear_inv [OF inv off entry]) (use False in auto)
  have skip: "with_group p (\<lambda>g w. if unat (get_member_group x g) \<le> MAX_RAID_SUBGROUPS then f g w else w) v = v"
    if p: "get_group_by_guid k v = Some p" for k p f
  proof -
    obtain g where g: "gw_groups v p = Some g" using store_invD(4) [OF gw_invD(3) [OF iv]] p by (auto simp: get_group_by_guid_def)
    then have "x \<notin> members g" using False by (auto simp: v_def)
    then show ?thesis using g get_member_group_small [OF iv g, of x] by (simp add: with_group_def)
  qed
  have "get_group v x = None" by (simp add: v_def get_group_def ref_none_def)
  then have "login_player x pl w = upd_player x (\<lambda>pl. pl\<lparr>gp_leader_flag := False\<rparr>) v"
    unfolding login_player_def v_def [symmetric] by (auto simp: player_load_group_def Let_def skip split: option.split)
  moreover have "neutral v (upd_player x (\<lambda>pl. pl\<lparr>gp_leader_flag := False\<rparr>) v)" by (rule neutral_upd_player) (simp add: pcore_def)
  ultimately show ?thesis using gw_inv_neutral [OF iv] by simp
qed

end
