(* ===== verification/GroupSteps.thy ===== *)
theory GroupSteps
  imports GroupSessions
begin

text \<open>
  The requests of the clients and the logins and logouts keep \<open>gw_inv\<close>; the worlds the server can
  reach with them.
\<close>

abbreviation inv0 :: "group_world \<Rightarrow> bool" where
  "inv0 \<equiv> gw_inv {} {} {}"

section \<open>Inviting\<close>

lemma inv0_send: "inv0 w \<Longrightarrow> inv0 (send_to x pk w)"
  by (rule gw_inv_neutral [OF _ neutral_send_to])

lemma inv0_party_result: "inv0 w \<Longrightarrow> inv0 (send_party_result x op name res val w)"
  by (rule gw_inv_neutral [OF _ neutral_send_party_result])

lemma inv0_invited: "inv0 w \<Longrightarrow> inv0 (invited x y name w)"
  unfolding invited_def by (intro inv0_party_result inv0_send)

lemma add_invite_inv:
  assumes inv: "inv0 w" and a: "gw_groups w p = Some g" and r: "add_invite p y w = (ok, v)"
  shows "inv0 v"
proof (cases ok)
  case True
  show ?thesis by (rule add_invite_ok [OF inv a, of y v]) (use r True in simp_all)
next
  case False
  then have "v = w" using r by (intro add_invite_no) simp
  then show ?thesis using inv by simp
qed

lemma invite_to_group_inv:
  assumes inv: "inv0 w" and a: "gw_groups w p = Some g"
  shows "inv0 (invite_to_group p x y name w)"
proof (cases "add_invite p y w")
  case (Pair ok v)
  have "inv0 v" by (rule add_invite_inv [OF inv a Pair])
  then show ?thesis
    using inv a Pair by (simp add: invite_to_group_def with_group_def inv0_party_result inv0_invited)
qed

text \<open>A group without members can get any leader.\<close>

lemma pending_leader_inv:
  assumes inv: "inv0 w" and a: "gw_groups w p = Some g" and pending: "g_slots g = []"
  shows "inv0 (upd_group p (\<lambda>g. g\<lparr>g_leader := x, g_leader_name := n\<rparr>) w)"
proof (rule gw_inv_group [OF inv a, where g' = "g\<lparr>g_leader := x, g_leader_name := n\<rparr>"])
  show "counts_ok (g\<lparr>g_leader := x, g_leader_name := n\<rparr>)"
    using group_okD(6) [OF group_invD(1) [OF gw_invD(2) [OF inv a]]] counts_ok_cong [of "g\<lparr>g_leader := x, g_leader_name := n\<rparr>" g] by simp
  show "safe (upd_group p (\<lambda>g. g\<lparr>g_leader := x, g_leader_name := n\<rparr>) w)" by (rule safe_upd_group [OF gw_invD(4) [OF inv]]) simp
qed (use a pending in \<open>simp_all add: same_manager_def\<close>)

lemma delete_fresh_inv:
  assumes inv: "inv0 w" and a: "gw_groups w p = Some g" and fresh: "g_slots g = []" "g_invitees g = []"
  shows "inv0 (delete_group p w)"
proof -
  have "remove_all_invites p w = w"
    using remove_all_invites_eq [OF inv a] a fresh(2) by (simp add: uninvite_all_def [abs_def] upd_group_def fun_upd_idem)
  then show ?thesis using delete_pending_inv(1) [OF inv a fresh(1)] by simp
qed

lemma invite_to_new_group_inv:
  assumes inv: "inv0 w" and free: "y \<noteq> x" "grp_connected w x" "grp_connected w y" "get_group w x = None" "get_group w y = None"
    "get_group_invite w x = None" "get_group_invite w y = None"
  shows "inv0 (invite_to_new_group e x y name w)"
proof -
  obtain p w1 where n: "new_group e w = (p, w1)" by (cases "new_group e w")
  note N = new_group_inv [OF inv n]
  have g1: "g_slots (group_new (ge_garbage e)) = []" "g_invitees (group_new (ge_garbage e)) = []" by (simp_all add: group_new_def)
  have free1: "get_group w1 z = get_group w z" "get_group_invite w1 z = get_group_invite w z" "grp_connected w1 z = grp_connected w z" for z
    by (simp_all add: get_group_def get_group_invite_def grp_connected_def N(4))
  obtain w2 where a2: "add_invite p x w1 = (True, w2)"
    using free free1 inv_invite_group [OF N(1), of x] by (simp add: add_invite_def Let_def)
  obtain pl where A: "gw_players w1 x = Some pl" "gw_players w2 = (gw_players w1)(x \<mapsto> pl\<lparr>gp_invite := Some p\<rparr>)"
    "gw_groups w2 = (gw_groups w1)(p \<mapsto> (group_new (ge_garbage e))\<lparr>g_invitees := x # removeAll x (g_invitees (group_new (ge_garbage e)))\<rparr>)" "inv0 w2"
    by (rule add_invite_ok [OF N(1,3) a2]) blast
  define w3 where "w3 = upd_group p (\<lambda>g. g\<lparr>g_leader := x, g_leader_name := player_name w2 x\<rparr>) w2"
  have "gw_groups w2 p = Some ((group_new (ge_garbage e))\<lparr>g_invitees := x # removeAll x (g_invitees (group_new (ge_garbage e)))\<rparr>)"
    by (simp add: A(3))
  then have i3: "inv0 w3" unfolding w3_def by (rule pending_leader_inv [OF A(4)]) (simp add: g1)
  have l: "add_leader_invite p x w1 = (True, w3)" by (simp add: add_leader_invite_def a2 w3_def)
  obtain g3 where g3: "gw_groups w3 p = Some g3" by (simp add: w3_def A(3))
  have free3: "get_group w3 y = None" "get_group_invite w3 y = None" "grp_connected w3 y"
    using free free1 by (simp_all add: get_group_def get_group_invite_def grp_connected_def w3_def A(2))
  obtain w4 where a4: "add_invite p y w3 = (True, w4)"
    using free3 inv_invite_group [OF i3, of y] by (simp add: add_invite_def Let_def)
  have "inv0 w4" by (rule add_invite_ok [OF i3 g3 a4]) blast
  then show ?thesis by (simp add: invite_to_new_group_def n l a4 inv0_invited)
qed

lemma invite_player_inv:
  assumes inv: "inv0 w" and xy: "y \<noteq> x" "grp_connected w x" "grp_connected w y"
  shows "inv0 (invite_player e x y name w)"
proof (cases "get_group w y \<noteq> None \<or> get_group_invite w y \<noteq> None")
  case True
  then show ?thesis
    using inv by (auto simp: invite_player_def Let_def inv_handler_group [OF inv] inv0_party_result inv0_send)
next
  case no: False
  show ?thesis
  proof (cases "first_group (get_group w x) (get_group_invite w x)")
    case None
    then have "get_group w x = None" "get_group_invite w x = None" by (auto simp: first_group_def split: option.splits)
    then show ?thesis
      using no None invite_to_new_group_inv [OF inv xy] by (simp add: invite_player_def Let_def inv_handler_group [OF inv])
  next
    case (Some p)
    have "get_group w x = Some p \<or> get_group_invite w x = Some p" using Some by (auto simp: first_group_def split: option.splits)
    then obtain g where "gw_groups w p = Some g"
      by (elim disjE; blast elim: inv_get_group [OF inv] inv_get_invite [OF inv])
    then show ?thesis
      using no Some invite_to_group_inv [OF inv] by (simp add: invite_player_def Let_def inv_handler_group [OF inv])
  qed
qed

lemma grp_find_by_name_connected: "grp_find_by_name e w name = Some y \<Longrightarrow> grp_connected w y"
  by (auto simp: grp_find_by_name_def split: option.splits if_splits)

lemma group_invite_inv:
  assumes inv: "inv0 w" and x: "grp_connected w x"
  shows "inv0 (group_invite e x name w)"
  using inv by (auto simp: group_invite_def split: option.split intro!: inv0_party_result invite_player_inv x dest: grp_find_by_name_connected)

section \<open>Accepting and declining\<close>

text \<open>While a group has no members, its leader has not lost the invitation he has to it.\<close>

definition leader_waits :: "group_world \<Rightarrow> nat \<Rightarrow> bool" where
  "leader_waits w p \<longleftrightarrow> (\<forall>g. gw_groups w p = Some g \<longrightarrow> g_slots g = [] \<longrightarrow> grp_connected w (g_leader g)
     \<longrightarrow> get_group_invite w (g_leader g) = Some p)"

text \<open>A raid that is not full has a subgroup with a free place.\<close>

lemma sum_sub_count: "\<forall>m \<in> set ms. unat (ms_group m) < n \<Longrightarrow> (\<Sum>i<n. sub_count i ms) = length ms"
proof (induction ms)
  case (Cons m ms)
  have "sub_count i (m # ms) = (if i = unat (ms_group m) then 1 else 0) + sub_count i ms" for i by (simp add: sub_count_def)
  then show ?case using Cons by (simp add: sum.distrib sum.delta)
qed (simp add: sub_count_def)

lemma room_for_more:
  assumes ok: "group_ok g" and room: "\<not> is_full g"
  shows "first_free_sub_group g \<noteq> None"
proof (cases "g_counts g")
  case (Some cs)
  note c = group_okD(6) [OF ok, unfolded counts_ok_def Some option.case]
  have "\<exists>i < MAX_RAID_SUBGROUPS. unat (cs ! i) < MAXGROUPSIZE"
  proof (rule ccontr)
    assume "\<not> ?thesis"
    then have "(\<Sum>i<MAX_RAID_SUBGROUPS. sub_count i (g_slots g)) \<ge> (\<Sum>i<MAX_RAID_SUBGROUPS. MAXGROUPSIZE)"
      using c by (intro sum_mono) (metis lessThan_iff not_le)
    then show False using sum_sub_count [of "g_slots g" MAX_RAID_SUBGROUPS] c room by (simp add: is_full_def group_size_defs)
  qed
  then show ?thesis by (auto simp: first_free_sub_group_def Some find_None_iff)
qed (simp add: first_free_sub_group_def)

lemma snd_add_member_inv:
  assumes "inv0 w" "gw_groups w p = Some g" "gw_players w x = Some pl" "ref_target (gp_ref pl) = None" "gp_invite pl = None"
    "g_slots g \<noteq> []" "g_counts g = None \<Longrightarrow> length (g_slots g) < MAXGROUPSIZE"
  shows "inv0 (snd (add_member e p x w))"
proof (cases "first_free_sub_group g")
  case None
  then show ?thesis using assms(1-3) by (simp add: add_member_def)
next
  case (Some sub)
  have l: "g_slots g = [] \<Longrightarrow> p \<in> {} \<and> g_leader g = x" using assms(6) by simp
  show ?thesis by (rule add_member_inv [OF assms(1-5) l assms(7) Some, where e = e]) simp_all
qed

lemma snd_add_member_joins:
  assumes "inv0 w" "gw_groups w p = Some g" "gw_players w x = Some pl" "ref_target (gp_ref pl) = None" "gp_invite pl = None"
    "g_slots g \<noteq> []" "g_counts g = None \<Longrightarrow> length (g_slots g) < MAXGROUPSIZE" "first_free_sub_group g \<noteq> None"
  shows "\<exists>g'. gw_groups (snd (add_member e p x w)) p = Some g' \<and> map ms_guid (g_slots g') = map ms_guid (g_slots g) @ [x]"
proof -
  obtain sub where free: "first_free_sub_group g = Some sub" using assms(8) by blast
  have l: "g_slots g = [] \<Longrightarrow> p \<in> {} \<and> g_leader g = x" using assms(6) by simp
  show ?thesis by (rule add_member_inv [OF assms(1-5) l assms(7) free, where e = e]) simp_all
qed

lemma accept_new_inv:
  assumes inv: "inv0 w" and a: "gw_groups w p = Some g" and pending: "g_slots g = []"
    and x: "gw_players w x = Some pl" "ref_target (gp_ref pl) = None" "gp_invite pl = None" "g_leader g \<noteq> x"
    and leader: "get_group_invite w (g_leader g) = Some p" and left: "gw_next_id w \<noteq> 0xFFFFFFFF"
  shows "inv0 (snd (add_member e p x (mgr_add_group p (snd (group_create e p (g_leader g) (remove_invite p (g_leader g) w))))))
    \<and> (\<exists>g'. gw_groups (snd (add_member e p x (mgr_add_group p (snd (group_create e p (g_leader g) (remove_invite p (g_leader g) w)))))) p = Some g'
      \<and> map ms_guid (g_slots g') = [g_leader g, x])"
proof -
  let ?l = "g_leader g"
  obtain ql where ql: "gw_players w ?l = Some ql" "gp_invite ql = Some p" "ref_target (gp_ref ql) = None"
    by (rule inv_get_invite [OF inv leader])
  note F = remove_invite_fields [OF ql(1) a]
  let ?w = "remove_invite p ?l w" and ?g = "g\<lparr>g_invitees := removeAll ?l (g_invitees g)\<rparr>"
  have i1: "inv0 ?w" by (rule remove_invite_inv [OF inv ql(1) a ql(3)]) (use ql(2) in simp)
  have a1: "gw_groups ?w p = Some ?g" "gw_players ?w ?l = Some (ql\<lparr>gp_invite := None\<rparr>)" using F by simp_all
  have left1: "gw_next_id ?w \<noteq> 0xFFFFFFFF" using F(4) left by (simp add: same_manager_def)
  have pend1: "g_slots ?g = []" using pending by simp
  have ql': "ref_target (gp_ref (ql\<lparr>gp_invite := None\<rparr>)) = None" "gp_invite (ql\<lparr>gp_invite := None\<rparr>) = None" using ql(3) by simp_all
  obtain g2 w2 where C: "group_create e p ?l ?w = (True, w2)" "gw_inv {p} {} {} w2" "gw_groups w2 p = Some g2" "map ms_guid (g_slots g2) = [?l]"
      "g_leader g2 = ?l" "g_counts g2 = None \<longleftrightarrow> \<not> is_raid_group ?g" "g_invitees g2 = g_invitees ?g"
    and other: "\<And>y. y \<noteq> ?l \<Longrightarrow> map_option pcore (gw_players w2 y) = map_option pcore (gw_players ?w y)"
    by (rule group_create_inv [OF i1 a1(1) pend1 left1 a1(2) ql', where e = e]) (rule that, assumption+)
  have ne: "g_slots g2 \<noteq> []" "length (g_slots g2) = 1" using C(4) by (auto simp: map_eq_Cons_conv)
  let ?w3 = "mgr_add_group p w2"
  have i3: "inv0 ?w3" by (rule mgr_add_group_inv [OF C(2,3) ne(1)])
  have same: "gw_groups ?w3 p = Some g2" "gw_players ?w3 = gw_players w2" using C(3) by (simp_all add: mgr_add_group_def with_group_def)
  have "map_option pcore (gw_players ?w3 x) = Some (pcore pl)" using other [of x] x F(1) same(2) by simp
  then obtain pl' where "gw_players ?w3 x = Some pl'" "pcore pl' = pcore pl" by auto
  then have x3: "gw_players ?w3 x = Some pl'" "ref_target (gp_ref pl') = None" "gp_invite pl' = None" using pcore_eqD [of pl' pl] x(2,3) by simp_all
  have room: "g_counts g2 = None \<Longrightarrow> length (g_slots g2) < MAXGROUPSIZE" using ne by (simp add: MAXGROUPSIZE_def)
  have "first_free_sub_group g2 \<noteq> None"
    by (rule room_for_more [OF group_invD(1) [OF gw_invD(2) [OF i3 same(1)]]]) (simp add: is_full_def ne(2) group_size_defs)
  then show ?thesis
    using snd_add_member_inv [OF i3 same(1) x3 ne(1) room] snd_add_member_joins [OF i3 same(1) x3 ne(1) room] C(1,4) by simp
qed

lemma group_accept_inv:
  assumes inv: "inv0 w" and left: "gw_next_id w \<noteq> 0xFFFFFFFF"
    and waits: "\<And>p. get_group_invite w x = Some p \<Longrightarrow> leader_waits w p"
  shows "inv0 (group_accept e x w)"
proof (cases "get_group_invite w x")
  case None
  then show ?thesis using inv by (simp add: group_accept_def)
next
  case (Some p)
  obtain pl g where pl: "gw_players w x = Some pl" "gp_invite pl = Some p" "ref_target (gp_ref pl) = None" and a: "gw_groups w p = Some g"
    by (rule inv_get_invite [OF inv Some])
  note F = remove_invite_fields [OF pl(1) a]
  let ?w = "remove_invite p x w" and ?g = "g\<lparr>g_invitees := removeAll x (g_invitees g)\<rparr>"
  have i1: "inv0 ?w" by (rule remove_invite_inv [OF inv pl(1) a pl(3)]) (use pl(2) in simp)
  have a1: "gw_groups ?w p = Some ?g" and x1: "gw_players ?w x = Some (pl\<lparr>gp_invite := None\<rparr>)" using F by simp_all
  have free: "ref_target (gp_ref (pl\<lparr>gp_invite := None\<rparr>)) = None" "gp_invite (pl\<lparr>gp_invite := None\<rparr>) = None" using pl(3) by simp_all
  have join: "inv0 (snd (add_member e p x ?w))" if "is_created ?g" "\<not> is_full ?g"
  proof (rule snd_add_member_inv [OF i1 a1 x1 free])
    show "g_slots ?g \<noteq> []" using that(1) by (simp add: is_created_def members_count_def)
    have "counts_ok ?g" by (rule group_okD(6) [OF group_invD(1) [OF gw_invD(2) [OF i1 a1]]])
    then show "g_counts ?g = None \<Longrightarrow> length (g_slots ?g) < MAXGROUPSIZE" using that(2) by (simp add: counts_ok_def is_full_def is_raid_group_def)
  qed
  have new: "inv0 (snd (add_member e p x (mgr_add_group p (snd (group_create e p (g_leader ?g) (remove_invite p (g_leader ?g) ?w))))))"
    if "\<not> is_created ?g" "g_leader ?g \<noteq> x" "grp_connected ?w (g_leader ?g)"
  proof (rule accept_new_inv [OF i1 a1 _ x1 free that(2), THEN conjunct1])
    show "g_slots ?g = []" using that(1) by (simp add: is_created_def members_count_def)
    have "get_group_invite w (g_leader g) = Some p"
      using waits [OF Some] a that F(1) by (auto simp: leader_waits_def is_created_def members_count_def grp_connected_def split: if_splits)
    then show "get_group_invite ?w (g_leader ?g) = Some p" using that(2) F(1) by (simp add: get_group_invite_def)
    show "gw_next_id ?w \<noteq> 0xFFFFFFFF" using F(4) left by (simp add: same_manager_def)
  qed
  show ?thesis
    using a a1 i1 join new remove_all_invites_inv [OF i1 a1]
    by (simp add: group_accept_def Some with_group_def Let_def inv0_party_result)
qed

lemma group_decline_inv:
  assumes inv: "inv0 w"
  shows "inv0 (group_decline e x w)"
proof (cases "get_group_invite w x")
  case None
  then show ?thesis using inv by (simp add: group_decline_def)
next
  case (Some p)
  obtain g where "gw_groups w p = Some g" by (rule inv_get_invite [OF inv Some])
  then show ?thesis
    using uninvite_from_group_inv [OF inv] by (simp add: group_decline_def Some with_group_def Let_def inv0_send)
qed

section \<open>Removing members\<close>

lemma inv0_remove:
  assumes "inv0 w" "gw_groups w p = Some g" "x \<in> members g"
  shows "inv0 (remove_member e p x method kicker reason w)"
  using remove_member_inv [OF assms] by blast

lemma inv0_group_alive: "inv0 w \<Longrightarrow> get_group w x = Some p \<Longrightarrow> \<exists>g. gw_groups w p = Some g \<and> x \<in> members g"
  by (erule (1) inv_get_group) simp

lemma group_uninvite_guid_inv:
  assumes inv: "inv0 w"
  shows "inv0 (group_uninvite_guid e x target reason w)"
proof -
  have step: "inv0 (with_group p (\<lambda>g w.
               if is_lfg_group True g \<and> reason = [] then send_party_result x PARTY_OP_UNINVITE name ERR_VOTE_KICK_REASON_NEEDED 0 w
               else if is_leader target g \<and> \<not> is_lfg_group True g then send_party_result x PARTY_OP_UNINVITE name ERR_NOT_LEADER 0 w
               else if is_member target g then remove_member e p target GROUP_REMOVEMETHOD_KICK x reason w
               else case get_invited target g of Some y \<Rightarrow> uninvite_from_group e y w
               | None \<Rightarrow> send_party_result x PARTY_OP_UNINVITE name ERR_TARGET_NOT_IN_GROUP_S 0 w) w)" if p: "get_group w x = Some p" for p name
  proof -
    obtain g where g: "gw_groups w p = Some g" using inv0_group_alive [OF inv p] by blast
    have r: "inv0 (remove_member e p target GROUP_REMOVEMETHOD_KICK x reason w)" if "is_member target g"
      by (rule inv0_remove [OF inv g]) (use that is_member_iff in blast)
    show ?thesis
      using g r inv uninvite_from_group_inv [OF inv] by (auto simp: with_group_def inv0_party_result split: option.split)
  qed
  show ?thesis
    unfolding group_uninvite_guid_def Let_def
    using inv by (auto intro: step inv0_party_result split: option.split)
qed

lemma get_member_guid_member: "get_member_guid name g \<noteq> guid_empty \<Longrightarrow> get_member_guid name g \<in> members g"
proof (cases "find (\<lambda>m. ms_name m = name) (g_slots g)")
  case (Some m)
  then have "m \<in> set (g_slots g)" by (auto simp: find_Some_iff)
  then show ?thesis using Some by (simp add: get_member_guid_def)
qed (simp add: get_member_guid_def)

lemma group_uninvite_inv:
  assumes inv: "inv0 w"
  shows "inv0 (group_uninvite e x name w)"
proof -
  have step: "inv0 (with_group p (\<lambda>g w.
           let target = get_member_guid membername g;
               res = can_uninvite_from_group e w x target
           in if res \<noteq> ERR_PARTY_RESULT_OK then send_party_result x PARTY_OP_UNINVITE [] res 0 w
              else if \<not> is_empty target then remove_member e p target GROUP_REMOVEMETHOD_KICK x [] w
              else case get_invited_by_name membername g w of Some y \<Rightarrow> uninvite_from_group e y w
              | None \<Rightarrow> send_party_result x PARTY_OP_UNINVITE membername ERR_TARGET_NOT_IN_GROUP_S 0 w) w)"
    if p: "get_group w x = Some p" for p membername
  proof -
    obtain g where g: "gw_groups w p = Some g" using inv0_group_alive [OF inv p] by blast
    have r: "inv0 (remove_member e p (get_member_guid membername g) GROUP_REMOVEMETHOD_KICK x [] w)" if "\<not> is_empty (get_member_guid membername g)"
      by (rule inv0_remove [OF inv g get_member_guid_member]) (use that in \<open>simp add: is_empty_def guid_empty_def\<close>)
    show ?thesis
      using g r inv uninvite_from_group_inv [OF inv] by (auto simp: with_group_def Let_def inv0_party_result split: option.split)
  qed
  show ?thesis
    unfolding group_uninvite_def using inv by (auto intro: step split: option.split)
qed

lemma group_leave_inv:
  assumes inv: "inv0 w"
  shows "inv0 (group_leave e x w)"
proof -
  let ?v = "send_party_result x PARTY_OP_LEAVE (player_name w x) ERR_PARTY_RESULT_OK 0 w"
  have iv: "inv0 ?v" by (rule inv0_party_result [OF inv])
  have same: "gw_groups ?v = gw_groups w" by (simp add: send_party_result_def send_to_def)
  have 1: "inv0 (remove_member e p x GROUP_REMOVEMETHOD_LEAVE guid_empty [] ?v)" if "get_group w x = Some p" for p
    using inv0_group_alive [OF inv that] inv0_remove [OF iv] same by auto
  have 2: "inv0 (with_group p (\<lambda>g w. if g_leader g = x
                   then disband e p False (send_party_result x PARTY_OP_LEAVE (player_name w x) ERR_PARTY_RESULT_OK 0 w) else w) w)"
    if p: "get_group_invite w x = Some p" for p
  proof -
    obtain g where g: "gw_groups w p = Some g" by (rule inv_get_invite [OF inv p])
    then show ?thesis using inv disband_inv(1) [OF iv, of p g e False] by (simp add: with_group_def same)
  qed
  show ?thesis
    unfolding group_leave_def Let_def using inv 1 2 by (auto intro: inv0_party_result split: option.split)
qed

section \<open>The leader's requests\<close>

lemma group_set_leader_inv:
  assumes inv: "inv0 w"
  shows "inv0 (group_set_leader e x target w)"
proof -
  have step: "inv0 (send_update e p (change_leader e p target w))"
    if p: "gw_groups w p = Some g" "get_group w target = Some p" "grp_connected w target" for p g
  proof -
    have "target \<in> members g" using inv0_group_alive [OF inv p(2)] p(1) by auto
    then obtain m where "slot_of target g = Some m" using slot_of_None_iff [of target g] by (cases "slot_of target g") auto
    note C = change_leader_inv [OF inv p(1) this p(3)]
    have "inv0 (change_leader e p target w)" using C(1) by simp
    then show ?thesis by (rule gw_inv_neutral [OF _ neutral_send_update [OF C(2)]])
  qed
  show ?thesis
  proof (cases "get_group w x")
    case None
    then show ?thesis using inv by (simp add: group_set_leader_def)
  next
    case (Some p)
    then obtain g where g: "gw_groups w p = Some g" using inv0_group_alive [OF inv] by blast
    then show ?thesis using inv step [OF g] by (simp add: group_set_leader_def Some with_group_def)
  qed
qed

lemma good_get_group: "inv0 w \<Longrightarrow> get_group w x = Some p \<Longrightarrow> good p w"
  using inv0_group_alive by (fastforce simp: good_def alive_def)

lemma group_loot_method_inv:
  assumes inv: "inv0 w"
  shows "inv0 (group_loot_method e x m master threshold w)"
proof -
  have step: "good p (send_update e p (upd_group p (\<lambda>g. set_loot_threshold (ucast threshold)
         (set_master_looter_guid master (set_loot_method (ucast m) g))) w))" if "good p w" for p
    by (rule good_send_update, rule good_neutral [OF that], rule neutral_upd_group)
      (simp_all add: gcore_def set_loot_threshold_def set_master_looter_guid_def set_loot_method_def)
  show ?thesis
  proof (cases "get_group w x")
    case (Some p)
    then obtain g where g: "gw_groups w p = Some g" using inv0_group_alive [OF inv] by blast
    show ?thesis
      using inv goodD(1) [OF step [OF good_get_group [OF inv Some]]] g by (simp add: group_loot_method_def Some with_group_def)
  qed (use inv in \<open>simp add: group_loot_method_def\<close>)
qed

lemma loot_roll_request_inv:
  assumes inv: "inv0 w"
  shows "inv0 (loot_roll_request e x item rollType w)"
proof (cases "get_group w x")
  case (Some p)
  note g = good_get_group [OF inv Some]
  have "inv0 (group_count_roll_vote e p x item rollType w)"
    by (rule gw_inv_neutral [OF inv neutral_group_count_roll_vote [OF goodD(2,3) [OF g]]])
  then show ?thesis by (simp add: loot_roll_request_def Some Let_def gw_inv_neutral [OF _ neutral_glog])
qed (use inv in \<open>simp add: loot_roll_request_def\<close>)

lemma group_raid_convert_inv:
  assumes inv: "inv0 w"
  shows "inv0 (group_raid_convert e x w)"
proof (cases "get_group w x")
  case (Some p)
  then obtain g where g: "gw_groups w p = Some g" using inv0_group_alive [OF inv] by blast
  let ?v = "send_party_result x PARTY_OP_INVITE [] ERR_PARTY_RESULT_OK 0 w"
  have "inv0 (convert_to_raid e p ?v)"
    by (rule convert_to_raid_inv [OF inv0_party_result [OF inv]]) (use g in \<open>simp add: send_party_result_def send_to_def\<close>)
  then show ?thesis using inv g by (simp add: group_raid_convert_def Some with_group_def inv0_party_result)
qed (use inv in \<open>simp add: group_raid_convert_def\<close>)

lemma guid_by_name_found:
  assumes "inv0 w"
  shows "get_character_guid_by_name (gw_cache w) name \<noteq> None"
  unfolding get_character_guid_by_name_def by_name_found [OF gw_invD(7) [OF assms]] by simp

lemma group_change_sub_group_inv:
  assumes inv: "inv0 w"
  shows "inv0 (group_change_sub_group e x name n w)"
proof (cases "get_group w x")
  case (Some p)
  then obtain g where g: "gw_groups w p = Some g" using inv0_group_alive [OF inv] by blast
  have free: "has_free_slot_sub_group n g \<noteq> None" if "unat n < MAX_RAID_SUBGROUPS"
    using group_okD(6) [OF group_invD(1) [OF gw_invD(2) [OF inv g]]] that
    by (auto simp: has_free_slot_sub_group_def counts_ok_def split: option.splits)
  have found: "get_character_guid_by_name (gw_cache w) k = None \<longleftrightarrow> False" for k using guid_by_name_found [OF inv, of k] by blast
  show ?thesis
    using inv g free change_members_group_inv [OF inv g]
    by (auto simp: found group_change_sub_group_def Some with_group_def split: option.split bool.split)
qed (use inv in \<open>simp add: group_change_sub_group_def\<close>)

lemma group_assistant_inv:
  assumes "inv0 w" "get_group w x = Some p"
  shows "inv0 (group_assistant e p target apply w)"
  unfolding group_assistant_def
  by (rule goodD(1) [OF good_send_update [OF good_set_group_member_flag [OF good_get_group [OF assms]]]])

lemma party_assignment_inv:
  assumes "inv0 w" "get_group w x = Some p"
  shows "inv0 (party_assignment e p assignment apply target w)"
  unfolding party_assignment_def Let_def
  using good_get_group [OF assms] by (auto intro!: goodD(1) [OF good_send_update] good_set_group_member_flag good_unique_flag)

lemma swap_guid_found: "inv0 w \<Longrightarrow> swap_guid e w g name \<noteq> None"
  using guid_by_name_found by (auto simp: swap_guid_def split: option.split)

lemma group_swap_sub_group_inv:
  assumes inv: "inv0 w"
  shows "inv0 (group_swap_sub_group e x name1 name2 w)"
proof -
  have step: "inv0 (change_members_group e p y2 (get_member_group y1 g) (change_members_group e p y1 (get_member_group y2 g) w))"
    if g: "gw_groups w p = Some g" "is_raid_group g" "unat (get_member_group y1 g) \<noteq> MAX_RAID_SUBGROUPS + 1" "unat (get_member_group y2 g) \<noteq> MAX_RAID_SUBGROUPS + 1"
      "get_member_group y1 g \<noteq> get_member_group y2 g" for p g y1 y2
  proof -
    have "\<exists>m. slot_of y g = Some m" if "unat (get_member_group y g) \<noteq> MAX_RAID_SUBGROUPS + 1" for y
      using that by (cases "slot_of y g") (auto simp: get_member_group_def group_size_defs)
    then obtain m n where "slot_of y1 g = Some m" "slot_of y2 g = Some n" using g(3,4) by blast
    then show ?thesis using swap_members_inv [OF inv g(1,2), of y1 m y2 n e] g(5) by (simp add: get_member_group_def)
  qed
  have main: "inv0 (with_group p (\<lambda>g w.
          if \<not> is_raid_group g then w
          else if \<not> is_leader x g \<and> \<not> is_assistant x g then w
          else case (swap_guid e w g playerName1, swap_guid e w g playerName2) of
              (Some guid1, Some guid2) \<Rightarrow>
                if is_empty guid1 \<or> is_empty guid2 then send_party_result x PARTY_OP_SWAP playerName1 ERR_GROUP_SWAP_FAILED 0 w
                else
                  let groupId1 = get_member_group guid1 g; groupId2 = get_member_group guid2 g
                  in if unat groupId1 = MAX_RAID_SUBGROUPS + 1 \<or> unat groupId2 = MAX_RAID_SUBGROUPS + 1 then w
                     else if groupId1 = groupId2 then w
                     else change_members_group e p guid2 groupId1 (change_members_group e p guid1 groupId2 w)
            | _ \<Rightarrow> glog GBadPointer w) w)" if p: "get_group w x = Some p" for p playerName1 playerName2
  proof -
    obtain g where g: "gw_groups w p = Some g" using inv0_group_alive [OF inv p] by blast
    obtain y1 y2 where y: "swap_guid e w g playerName1 = Some y1" "swap_guid e w g playerName2 = Some y2"
      using swap_guid_found [OF inv] by blast
    show ?thesis using inv step [OF g] y g by (simp add: with_group_def Let_def inv0_party_result)
  qed
  consider "normalize_player_name name1 = None" | "normalize_player_name name2 = None" | "get_group w x = None"
    | n1 n2 p where "normalize_player_name name1 = Some n1" "normalize_player_name name2 = Some n2" "get_group w x = Some p"
    by fastforce
  then show ?thesis
  proof cases
    case 4
    then show ?thesis unfolding group_swap_sub_group_def 4(1,2) option.case using main [OF 4(3)] by (simp add: 4(3))
  qed (use inv in \<open>auto simp: group_swap_sub_group_def inv0_party_result split: option.split\<close>)
qed

section \<open>Requests\<close>

text \<open>
  A request the server handles for a player: the packet was read without an error, and the handler
  changed the world. The environment is another one for every request.
\<close>

inductive group_request :: "group_env \<Rightarrow> guid \<Rightarrow> group_world \<Rightarrow> group_world \<Rightarrow> bool" for e x w where
  invite: "handle_group_invite e x packet w = Inr w' \<Longrightarrow> group_request e x w w'"
| accept: "handle_group_accept e x packet w = Inr w' \<Longrightarrow> gw_next_id w \<noteq> 0xFFFFFFFF
    \<Longrightarrow> (\<And>p. get_group_invite w x = Some p \<Longrightarrow> leader_waits w p) \<Longrightarrow> group_request e x w w'"
| decline: "group_request e x w (group_decline e x w)"
| uninvite_guid: "handle_group_uninvite_guid e x packet w = Inr w' \<Longrightarrow> group_request e x w w'"
| uninvite: "handle_group_uninvite e x packet w = Inr w' \<Longrightarrow> group_request e x w w'"
| leave: "group_request e x w (group_leave e x w)"
| set_leader: "handle_group_set_leader e x packet w = Inr w' \<Longrightarrow> group_request e x w w'"
| loot_method: "handle_loot_method e x packet w = Inr w' \<Longrightarrow> group_request e x w w'"
| loot_roll: "handle_loot_roll e x packet w = Inr w' \<Longrightarrow> group_request e x w w'"
| ping: "handle_minimap_ping e x packet w = Inr w' \<Longrightarrow> group_request e x w w'"
| target: "handle_raid_target_update e x packet w = Inr w' \<Longrightarrow> group_request e x w w'"
| raid_convert: "group_request e x w (group_raid_convert e x w)"
| sub_group: "handle_group_change_sub_group e x packet w = Inr w' \<Longrightarrow> group_request e x w w'"
| assistant: "handle_group_assistant_leader e x packet w = Inr w' \<Longrightarrow> group_request e x w w'"
| assignment: "handle_party_assignment e x packet w = Inr w' \<Longrightarrow> group_request e x w w'"
| ready_check: "handle_raid_ready_check e x packet w = Inr w' \<Longrightarrow> group_request e x w w'"
| ready_finished: "group_request e x w (raid_ready_check_finished e x w)"
| opt_out: "handle_opt_out_of_loot x packet w = Inr w' \<Longrightarrow> group_request e x w w'"
| swap: "handle_group_swap_sub_group e x packet w = Inr w' \<Longrightarrow> group_request e x w w'"

lemma res_bind_InrD: "res_bind r f = Inr y \<Longrightarrow> \<exists>a. r = Inr a \<and> f a = Inr y"
  by (cases r) simp_all

lemma raid_target_inv:
  assumes inv: "inv0 w" and r: "handle_raid_target_update e x packet w = Inr w'"
  shows "inv0 w'"
proof (cases "get_group w x")
  case None
  then show ?thesis using r inv by (simp add: handle_raid_target_update_def)
next
  case (Some p)
  note gd = good_get_group [OF inv Some]
  obtain g where g: "gw_groups w p = Some g" using inv0_group_alive [OF inv Some] by blast
  have l: "inv0 (send_target_icon_list p x w)" by (rule gw_inv_neutral [OF inv neutral_send_target_icon_list [OF goodD(2) [OF gd]]])
  have t: "inv0 (set_target_icon i x target p w)" for i target by (rule goodD(1) [OF good_set_target_icon [OF gd]])
  show ?thesis
    using r inv l t by (auto simp: handle_raid_target_update_def Some g split: if_splits dest!: res_bind_InrD)
qed

lemma ready_check_inv:
  assumes inv: "inv0 w"
  shows "handle_raid_ready_check e x packet w = Inr w' \<Longrightarrow> inv0 w'" "inv0 (raid_ready_check_finished e x w)"
proof -
  have b: "good p (broadcast_ready_check pk p v)" "good p (offline_ready_check p v)" if "good p v" for pk p v
    using good_neutral [OF that] neutral_broadcast_ready_check [OF goodD(2) [OF that]] neutral_offline_ready_check [OF goodD(2) [OF that]] by blast+
  show "inv0 (raid_ready_check_finished e x w)"
  proof (cases "get_group w x")
    case (Some p)
    note gd = good_get_group [OF inv Some]
    obtain g where g: "gw_groups w p = Some g" using inv0_group_alive [OF inv Some] by blast
    show ?thesis using inv goodD(1) [OF good_broadcast [OF gd]] by (simp add: raid_ready_check_finished_def Some g with_group_def)
  qed (use inv in \<open>simp add: raid_ready_check_finished_def\<close>)
  show "inv0 w'" if r: "handle_raid_ready_check e x packet w = Inr w'"
  proof (cases "get_group w x")
    case None
    then show ?thesis using r inv by (simp add: handle_raid_ready_check_def)
  next
    case (Some p)
    note gd = good_get_group [OF inv Some]
    obtain g where g: "gw_groups w p = Some g" using inv0_group_alive [OF inv Some] by blast
    show ?thesis
      using r inv goodD(1) [OF b(1) [OF gd]] goodD(1) [OF b(2) [OF good_broadcast [OF gd]]]
      by (auto simp: handle_raid_ready_check_def Some g split: if_splits dest!: res_bind_InrD)
  qed
qed

lemma group_request_inv:
  assumes "group_request e x w w'" "grp_connected w x" "inv0 w"
  shows "inv0 w'"
  using assms
proof (induction rule: group_request.induct)
  case (invite packet w')
  then show ?case using group_invite_inv by (auto simp: handle_group_invite_def dest!: res_bind_InrD)
next
  case (accept packet w')
  then show ?case using group_accept_inv [OF accept.prems(2) accept.hyps(2,3)] by (auto simp: handle_group_accept_def dest!: res_bind_InrD)
next
  case (uninvite_guid packet w')
  then show ?case using group_uninvite_guid_inv by (auto simp: handle_group_uninvite_guid_def dest!: res_bind_InrD)
next
  case (uninvite packet w')
  then show ?case using group_uninvite_inv by (auto simp: handle_group_uninvite_def dest!: res_bind_InrD)
next
  case (set_leader packet w')
  then show ?case using group_set_leader_inv by (auto simp: handle_group_set_leader_def dest!: res_bind_InrD)
next
  case (loot_method packet w')
  then show ?case using group_loot_method_inv by (auto simp: handle_loot_method_def dest!: res_bind_InrD)
next
  case (loot_roll packet w')
  then show ?case using loot_roll_request_inv by (auto simp: handle_loot_roll_def dest!: res_bind_InrD)
next
  case (ping packet w')
  then show ?case using goodD(1) [OF good_broadcast [OF good_get_group]]
    by (auto simp: handle_minimap_ping_def split: option.splits dest!: res_bind_InrD)
next
  case (target packet w')
  then show ?case using raid_target_inv by blast
next
  case (sub_group packet w')
  then show ?case using group_change_sub_group_inv by (auto simp: handle_group_change_sub_group_def split: if_splits dest!: res_bind_InrD)
next
  case (assistant packet w')
  then show ?case using inv0_group_alive group_assistant_inv
    by (fastforce simp: handle_group_assistant_leader_def split: option.splits if_splits dest!: res_bind_InrD)
next
  case (assignment packet w')
  then show ?case using inv0_group_alive party_assignment_inv
    by (fastforce simp: handle_party_assignment_def split: option.splits if_splits dest!: res_bind_InrD)
next
  case (ready_check packet w')
  then show ?case using ready_check_inv(1) by blast
next
  case (opt_out packet w')
  have "inv0 (set_pass_on_group_loot x b w)" for b
    unfolding set_pass_on_group_loot_def by (rule gw_inv_neutral [OF opt_out.prems(2) neutral_upd_player]) (simp add: pcore_def)
  then show ?case using opt_out.hyps by (auto simp: handle_opt_out_of_loot_def dest!: res_bind_InrD)
next
  case (swap packet w')
  then show ?case using group_swap_sub_group_inv by (auto simp: handle_group_swap_sub_group_def dest!: res_bind_InrD)
qed (simp_all add: group_decline_inv group_leave_inv group_raid_convert_inv ready_check_inv)

end
