(* ===== verification/GroupLootSafety.thy ===== *)
theory GroupLootSafety
  imports GroupRollSafety
begin

text \<open>Starting rolls, ending them, the master looter and the next looter leave membership alone.\<close>

lemma loot_step_neutral: "loot_step w v \<Longrightarrow> neutral w v"
proof -
  assume s: "loot_step w v"
  have "core v = core w" using s by (intro core_eqI) (simp_all add: loot_step_def)
  moreover have "safe w \<Longrightarrow> safe v" using s by (simp add: safe_def loot_step_def rolls_valid_def)
  ultimately show ?thesis by (simp add: neutral_def)
qed

lemma loot_step_item: "new_item_guid w = (g, v) \<Longrightarrow> loot_step w v"
  by (auto simp: new_item_guid_def loot_step_gen split: prod.splits)

lemma loot_step_block: "loot_step w (block_item l s w)"
  unfolding block_item_def by (rule loot_step_upd_slot)

lemma loot_step_start_player: "loot_step w (send_loot_start_roll_to_player k i x b r w)"
  unfolding send_loot_start_roll_to_player_def by (rule loot_step_send_to)

lemma loot_step_announce: "loot_step w (announce_need_roll e r w)"
  unfolding announce_need_roll_def
  by (rule loot_step_fold) (auto intro: loot_step_packets loot_step_start_player)

lemma add_roll_neutral:
  assumes s: "loot_step w v" and g: "gw_groups w p = Some g" and r: "roll_valid (gw_loots v) r"
  shows "neutral w (add_roll p l r v)"
proof -
  have gv: "gw_groups v p = Some g" using s g by (simp add: loot_step_def)
  have "upd_group p (\<lambda>g. g\<lparr>g_rolls := g_rolls g @ [r]\<rparr>) v = upd_group p (\<lambda>h. h\<lparr>g_rolls := g_rolls g @ [r]\<rparr>) v"
    using gv by (simp add: upd_group_def)
  moreover have "neutral w (upd_group p (\<lambda>h. h\<lparr>g_rolls := g_rolls g @ [r]\<rparr>) v)"
    by (rule neutral_new_rolls [OF s]) (use safe_rollsD [OF _ g] loot_step_valid [OF s] r in auto)
  ultimately have "neutral w (upd_group p (\<lambda>g. g\<lparr>g_rolls := g_rolls g @ [r]\<rparr>) v)" by simp
  then show ?thesis unfolding add_roll_def by (rule neutral_trans [OF _ neutral_glog]) simp
qed

text \<open>A slot number that is cut to eight bits is still a slot.\<close>

lemma unat_cut: "unat (of_nat n :: u8) \<le> n"
  by (simp add: unsigned_of_nat take_bit_nat_less_eq_self)

lemma cut_slot:
  assumes "k < length (lt_items lt)"
  shows "loot_slot lt (of_nat k) \<noteq> None"
proof -
  have "unat (of_nat k :: u8) \<le> k" by (rule unat_cut)
  then show ?thesis using assms by (simp add: loot_slot_def Let_def)
qed

lemma cut_quest_slot:
  assumes "k < length (lt_quest_items lt)"
  shows "loot_slot lt (of_nat (length (lt_items lt) + k)) \<noteq> None"
proof -
  have "unat (of_nat (length (lt_items lt) + k) :: u8) \<le> length (lt_items lt) + k"
    by (rule unat_cut)
  then show ?thesis using assms by (auto simp: loot_slot_def Let_def)
qed

lemma allow_disenchant_fields:
  "rl_loot (allow_disenchant it g r) = rl_loot r" "rl_slot (allow_disenchant it g r) = rl_slot r"
  by (simp_all add: allow_disenchant_def)

lemma loot_there_step:
  assumes "neutral w w'" "alive w p"
  shows "alive w' p"
  using alive_coreI [OF neutral_core [OF assms(1)] assms(2)] .

text \<open>The items and quest items of a loot are there, and stay in number.\<close>

definition loot_sizes :: "nat \<Rightarrow> nat \<Rightarrow> nat \<Rightarrow> group_world \<Rightarrow> bool" where
  "loot_sizes l m n w \<longleftrightarrow> (\<exists>lt. gw_loots w l = Some lt \<and> length (lt_items lt) = m \<and> length (lt_quest_items lt) = n)"

lemma loot_sizes_upd:
  assumes "\<And>lt. length (lt_items (f lt)) = length (lt_items lt)" "\<And>lt. length (lt_quest_items (f lt)) = length (lt_quest_items lt)"
  shows "loot_sizes l m n (upd_loot l' f w) \<longleftrightarrow> loot_sizes l m n w"
proof (cases "l' = l")
  case True
  then show ?thesis using assms by (cases "gw_loots w l") (simp_all add: loot_sizes_def upd_loot_def)
qed (simp add: loot_sizes_def upd_loot_def)

lemma loot_sizes_same: "gw_loots v = gw_loots w \<Longrightarrow> loot_sizes l m n v \<longleftrightarrow> loot_sizes l m n w"
  by (simp add: loot_sizes_def)

lemma loot_sizes_block: "loot_sizes l m n (block_item l' s w) \<longleftrightarrow> loot_sizes l m n w"
  unfolding block_item_def by (rule loot_sizes_upd) (simp_all add: upd_loot_slot_def Let_def)

lemma same_loots:
  "gw_loots (send_to x pk w) = gw_loots w" "new_item_guid w = (g, v) \<Longrightarrow> gw_loots v = gw_loots w"
  "gw_loots (add_roll p l r w) = gw_loots w"
  by (auto simp: send_to_def new_item_guid_def add_roll_def split: prod.splits)

lemma same_loots_fold: "(\<And>x v. gw_loots (f x v) = gw_loots v) \<Longrightarrow> gw_loots (fold f xs w) = gw_loots w"
  by (induction xs arbitrary: w) simp_all

lemma same_loots_packets:
  "gw_loots (send_loot_roll a b c d f r w) = gw_loots w" "gw_loots (send_loot_start_roll k i r w) = gw_loots w"
  "gw_loots (send_loot_start_roll_to_player k i x need r w) = gw_loots w"
  by (auto simp: send_loot_roll_def send_loot_start_roll_def send_loot_start_roll_to_player_def send_to_voters_def same_loots intro!: same_loots_fold)

lemma same_loots_announce: "gw_loots (announce_need_roll e r w) = gw_loots w"
  unfolding announce_need_roll_def by (rule same_loots_fold) (auto simp: same_loots_packets)

lemma upd_item_step:
  "loot_step w (upd_loot l (\<lambda>lt. lt\<lparr>lt_items := (lt_items lt)[k := li]\<rparr>) w)"
  by (rule loot_step_upd_loot) (simp add: loot_slot_def Let_def)

lemma group_loot_item_neutral:
  assumes "alive w p" "loot_sizes l m n w" "k < m"
  shows "neutral w (group_loot_item e p l k w)" "loot_sizes l m n (group_loot_item e p l k w)"
proof -
  obtain g where g: "gw_groups w p = Some g" using assms(1) by (auto simp: alive_def)
  obtain lt where lt: "gw_loots w l = Some lt" "length (lt_items lt) = m" using assms(2) by (auto simp: loot_sizes_def)
  obtain item v where item: "new_item_guid w = (item, v)" by (cases "new_item_guid w")
  let ?li = "lt_items lt ! k"
  have sv: "loot_step w v" by (rule loot_step_item [OF item])
  have zv: "loot_sizes l m n v" using assms(2) loot_sizes_same [OF same_loots(2) [OF item]] by simp
  have under: "neutral w (upd_loot l (\<lambda>lt. lt\<lparr>lt_items := (lt_items lt)[k := li]\<rparr>) w)"
    "loot_sizes l m n (upd_loot l (\<lambda>lt. lt\<lparr>lt_items := (lt_items lt)[k := li]\<rparr>) w)" for li
    using loot_step_neutral [OF upd_item_step] assms(2) by (simp_all add: loot_sizes_upd)
  have roll: "neutral w (if rl_pass r = rl_total r then u else add_roll p l r (send_loot_start_roll 60000 (ge_loot_map e) r u))
      \<and> loot_sizes l m n (if rl_pass r = rl_total r then u else add_roll p l r (send_loot_start_roll 60000 (ge_loot_map e) r u))"
    if r: "rl_loot r = Some l" "rl_slot r = of_nat k"
      and u: "u = (if rl_pass r \<noteq> 0
                            then fold (\<lambda>(x, v) w. if grp_find_player e w x \<noteq> None \<and> v = PASS
                              then send_loot_roll item x 128 ROLL_PASS True r w else w) (rl_votes r) (block_item l (rl_slot r) v)
                            else block_item l (rl_slot r) v)" for r u
  proof -
    have b: "loot_step w (block_item l (rl_slot r) v)" by (rule loot_step_trans [OF sv loot_step_block])
    have "loot_step (block_item l (rl_slot r) v) u" unfolding u by (auto intro!: loot_step_fold loot_step_packets)
    then have s: "loot_step w u" by (rule loot_step_trans [OF b])
    have "gw_loots u = gw_loots (block_item l (rl_slot r) v)"
      unfolding u by (auto intro!: same_loots_fold simp: same_loots_packets)
    then have z: "loot_sizes l m n u" using zv loot_sizes_same loot_sizes_block by metis
    have "roll_valid (gw_loots w) r" using r lt cut_slot [of k lt] assms(3) by (auto simp: roll_valid_def)
    then have ru: "roll_valid (gw_loots (send_loot_start_roll 60000 (ge_loot_map e) r u)) r"
      using loot_step_valid [OF loot_step_trans [OF s loot_step_packets(4)]] by blast
    have "neutral w (add_roll p l r (send_loot_start_roll 60000 (ge_loot_map e) r u))"
      by (rule add_roll_neutral [OF loot_step_trans [OF s loot_step_packets(4)] g ru])
    then show ?thesis using loot_step_neutral [OF s] z by (simp add: loot_sizes_def same_loots same_loots_packets)
  qed
  let ?r0 = "collect (ge_near_loot e) (add_roller e v ?li) g (roll_new item ?li)"
  have "neutral w (group_loot_item e p l k w) \<and> loot_sizes l m n (group_loot_item e p l k w)"
  proof (cases "ge_item e (li_item ?li)")
    case None
    then show ?thesis using g lt(1) assms(2) by (simp add: group_loot_item_def with_group_def Let_def)
  next
    case (Some it)
    let ?r = "allow_disenchant it g (?r0\<lparr>rl_loot := Some l, rl_slot := of_nat k\<rparr>)"
    have R: "rl_loot ?r = Some l" "rl_slot ?r = of_nat k" by (simp_all add: allow_disenchant_fields)
    show ?thesis
      using g lt(1) Some item under roll [OF R refl] assms(2) loot_step_neutral [OF sv] zv
      by (simp add: group_loot_item_def with_group_def Let_def del: split_paired_All split: if_split)
  qed
  then show "neutral w (group_loot_item e p l k w)" "loot_sizes l m n (group_loot_item e p l k w)" by blast+
qed

text \<open>The last steps of the other three loops have the same form.\<close>

lemma start_roll_neutral:
  assumes g: "gw_groups w p = Some g" and lt: "gw_loots w l = Some lt" "loot_sizes l m n w" and item: "new_item_guid w = (item, v)"
    and r: "rl_loot r = Some l" "loot_slot lt (rl_slot r) \<noteq> None"
    and f: "\<And>u. loot_step u (f u)" "\<And>u. gw_loots (f u) = gw_loots u"
  shows "neutral w (add_roll p l r (f (block_item l (rl_slot r) v)))" "loot_sizes l m n (add_roll p l r (f (block_item l (rl_slot r) v)))"
proof -
  have s: "loot_step w (f (block_item l (rl_slot r) v))"
    by (rule loot_step_trans [OF loot_step_trans [OF loot_step_item [OF item] loot_step_block] f(1)])
  have "roll_valid (gw_loots w) r" using r lt(1) by (simp add: roll_valid_def)
  then show "neutral w (add_roll p l r (f (block_item l (rl_slot r) v)))"
    using add_roll_neutral [OF s g] loot_step_valid [OF s] by blast
  have "loot_sizes l m n (block_item l (rl_slot r) v)" using lt(2) loot_sizes_block loot_sizes_same [OF same_loots(2) [OF item]] by blast
  then show "loot_sizes l m n (add_roll p l r (f (block_item l (rl_slot r) v)))" by (simp add: loot_sizes_def same_loots f(2))
qed

lemma group_loot_quest_item_neutral:
  assumes "alive w p" "loot_sizes l m n w" "k < n"
  shows "neutral w (group_loot_quest_item e p l k w) \<and> loot_sizes l m n (group_loot_quest_item e p l k w)"
proof -
  obtain g where g: "gw_groups w p = Some g" using assms(1) by (auto simp: alive_def)
  obtain lt where lt: "gw_loots w l = Some lt" "length (lt_quest_items lt) = n" using assms(2) by (auto simp: loot_sizes_def)
  obtain item v where item: "new_item_guid w = (item, v)" by (cases "new_item_guid w")
  have v: "neutral w v" "loot_sizes l m n v"
    using loot_step_neutral [OF loot_step_item [OF item]] assms(2) loot_sizes_same [OF same_loots(2) [OF item]] by simp_all
  let ?r = "collect (ge_near_loot e) (add_quest_roller e (lt_quest_items lt ! k)) g (roll_new item (lt_quest_items lt ! k))
    \<lparr>rl_loot := Some l, rl_slot := of_nat (length (lt_items lt) + k)\<rparr>"
  have slot: "rl_loot ?r = Some l" "loot_slot lt (rl_slot ?r) \<noteq> None" using cut_quest_slot [of k lt] lt(2) assms(3) by simp_all
  note S = start_roll_neutral [where f = "send_loot_start_roll 60000 (ge_loot_map e) ?r", OF g lt(1) assms(2) item slot
      loot_step_packets(4) same_loots_packets(2)]
  show ?thesis
    using g lt(1) item v S assms(2) by (simp add: group_loot_quest_item_def with_group_def Let_def split: option.split)
qed

lemma need_before_greed_item_neutral:
  assumes "alive w p" "loot_sizes l m n w" "k < m" "\<And>i. ge_item e i \<noteq> None"
  shows "neutral w (need_before_greed_item e p l k w) \<and> loot_sizes l m n (need_before_greed_item e p l k w)"
proof -
  obtain g where g: "gw_groups w p = Some g" using assms(1) by (auto simp: alive_def)
  obtain lt where lt: "gw_loots w l = Some lt" "length (lt_items lt) = m" using assms(2) by (auto simp: loot_sizes_def)
  obtain item v where item: "new_item_guid w = (item, v)" by (cases "new_item_guid w")
  obtain it where it: "ge_item e (li_item (lt_items lt ! k)) = Some it" using assms(4) by blast
  have v: "neutral w v" "loot_sizes l m n v"
    using loot_step_neutral [OF loot_step_item [OF item]] assms(2) loot_sizes_same [OF same_loots(2) [OF item]] by simp_all
  have under: "neutral w (upd_loot l (\<lambda>lt. lt\<lparr>lt_items := (lt_items lt)[k := li]\<rparr>) w)"
    "loot_sizes l m n (upd_loot l (\<lambda>lt. lt\<lparr>lt_items := (lt_items lt)[k := li]\<rparr>) w)" for li
    using loot_step_neutral [OF upd_item_step] assms(2) by (simp_all add: loot_sizes_upd)
  define r where "r = allow_disenchant it g (collect (ge_near_reward e) (add_roller e v (lt_items lt ! k)) g (roll_new item (lt_items lt ! k))
    \<lparr>rl_loot := Some l, rl_slot := of_nat k\<rparr>)"
  define r' where "r' = (if it_no_need it then r\<lparr>rl_mask := rl_mask r AND NOT ROLL_FLAG_TYPE_NEED\<rparr> else r)"
  have R: "rl_loot r' = Some l" "rl_slot r' = of_nat k" "rl_slot r = of_nat k" by (simp_all add: r'_def r_def allow_disenchant_fields)
  have slot: "loot_slot lt (rl_slot r') \<noteq> None" using cut_slot [of k lt] lt(2) assms(3) R(2) by simp
  note S = start_roll_neutral [where f = "announce_need_roll e r'", OF g lt(1) assms(2) item R(1) slot loot_step_announce same_loots_announce]
  let ?total = "rl_total (collect (ge_near_reward e) (add_roller e v (lt_items lt ! k)) g (roll_new item (lt_items lt ! k)))"
  have e: "need_before_greed_item e p l k w = (if li_free_for_all (lt_items lt ! k) then w
      else if it_quality it \<ge> ucast (g_threshold g)
        then (if ?total > 0 then add_roll p l r' (announce_need_roll e r' (block_item l (rl_slot r') v)) else v)
        else upd_loot l (\<lambda>l'. l'\<lparr>lt_items := (lt_items l')[k := (lt_items lt ! k)\<lparr>li_under_threshold := True\<rparr>]\<rparr>) w)"
    unfolding need_before_greed_item_def with_group_def g lt(1) option.case Let_def it item prod.case r'_def r_def
    by (simp add: allow_disenchant_fields)
  show ?thesis unfolding e using v S under assms(2) by simp
qed

lemma need_before_greed_quest_item_neutral:
  assumes "alive w p" "loot_sizes l m n w" "k < n"
  shows "neutral w (need_before_greed_quest_item e p l k w) \<and> loot_sizes l m n (need_before_greed_quest_item e p l k w)"
proof -
  obtain g where g: "gw_groups w p = Some g" using assms(1) by (auto simp: alive_def)
  obtain lt where lt: "gw_loots w l = Some lt" "length (lt_quest_items lt) = n" using assms(2) by (auto simp: loot_sizes_def)
  obtain item v where item: "new_item_guid w = (item, v)" by (cases "new_item_guid w")
  have v: "neutral w v" "loot_sizes l m n v"
    using loot_step_neutral [OF loot_step_item [OF item]] assms(2) loot_sizes_same [OF same_loots(2) [OF item]] by simp_all
  let ?r = "collect (ge_near_reward e) (add_roller e v (lt_quest_items lt ! k)) g (roll_new item (lt_quest_items lt ! k))
    \<lparr>rl_loot := Some l, rl_slot := of_nat (length (lt_items lt) + k)\<rparr>"
  have slot: "rl_loot ?r = Some l" "loot_slot lt (rl_slot ?r) \<noteq> None" using cut_quest_slot [of k lt] lt(2) assms(3) by simp_all
  note S = start_roll_neutral [where f = "announce_need_roll e ?r", OF g lt(1) assms(2) item slot loot_step_announce same_loots_announce]
  show ?thesis
    using g lt(1) item v S assms(2) by (simp add: need_before_greed_quest_item_def with_group_def Let_def)
qed

text \<open>The loops.\<close>

lemma neutral_loot_fold:
  assumes "\<And>k v. k \<in> set ks \<Longrightarrow> alive v p \<Longrightarrow> loot_sizes l m n v \<Longrightarrow> neutral v (f k v) \<and> loot_sizes l m n (f k v)"
    "alive w p" "loot_sizes l m n w"
  shows "neutral w (fold f ks w) \<and> loot_sizes l m n (fold f ks w)"
  using assms
proof (induction ks arbitrary: w)
  case (Cons k ks)
  have 1: "neutral w (f k w) \<and> loot_sizes l m n (f k w)" using Cons.prems by simp
  have "neutral (f k w) (fold f ks (f k w)) \<and> loot_sizes l m n (fold f ks (f k w))"
    by (rule Cons.IH) (use Cons.prems(1,2) 1 loot_there_step in auto)
  then show ?case using 1 neutral_trans by auto
qed simp

lemma loot_loops_neutral:
  assumes a: "alive w p" and lt: "gw_loots w l = Some lt"
    and f: "\<And>k v. k < length (lt_items lt) \<Longrightarrow> alive v p \<Longrightarrow> loot_sizes l (length (lt_items lt)) (length (lt_quest_items lt)) v
      \<Longrightarrow> neutral v (f k v) \<and> loot_sizes l (length (lt_items lt)) (length (lt_quest_items lt)) (f k v)"
    and q: "\<And>k v. k < length (lt_quest_items lt) \<Longrightarrow> alive v p \<Longrightarrow> loot_sizes l (length (lt_items lt)) (length (lt_quest_items lt)) v
      \<Longrightarrow> neutral v (q k v) \<and> loot_sizes l (length (lt_items lt)) (length (lt_quest_items lt)) (q k v)"
  shows "neutral w (fold q [0..<length (lt_quest_items lt)] (fold f [0..<length (lt_items lt)] w))"
proof -
  have "loot_sizes l (length (lt_items lt)) (length (lt_quest_items lt)) w" using lt by (simp add: loot_sizes_def)
  then have 1: "neutral w (fold f [0..<length (lt_items lt)] w)
      \<and> loot_sizes l (length (lt_items lt)) (length (lt_quest_items lt)) (fold f [0..<length (lt_items lt)] w)"
    by (intro neutral_loot_fold [OF _ a]) (simp_all add: f)
  then have "neutral (fold f [0..<length (lt_items lt)] w) (fold q [0..<length (lt_quest_items lt)] (fold f [0..<length (lt_items lt)] w))"
    using neutral_loot_fold [of "[0..<length (lt_quest_items lt)]" p l "length (lt_items lt)" "length (lt_quest_items lt)" q] q
      loot_there_step [OF _ a] by auto
  then show ?thesis using 1 neutral_trans by blast
qed

lemma neutral_group_loot [neutral_intros]:
  assumes "alive w p" "gw_loots w l \<noteq> None"
  shows "neutral w (group_loot e p l w)"
proof -
  obtain lt where lt: "gw_loots w l = Some lt" using assms(2) by blast
  show ?thesis
    unfolding group_loot_def lt option.case
    by (rule loot_loops_neutral [OF assms(1) lt]; simp add: group_loot_item_neutral group_loot_quest_item_neutral)
qed

lemma neutral_need_before_greed [neutral_intros]:
  assumes "alive w p" "gw_loots w l \<noteq> None" "\<And>i. ge_item e i \<noteq> None"
  shows "neutral w (need_before_greed e p l w)"
proof -
  obtain lt where lt: "gw_loots w l = Some lt" using assms(2) by blast
  show ?thesis
    unfolding need_before_greed_def lt option.case
    by (rule loot_loops_neutral [OF assms(1) lt]; rule need_before_greed_item_neutral need_before_greed_quest_item_neutral; use assms(3) in simp)
qed

section \<open>The other operations on loot\<close>

lemma neutral_master_loot [neutral_intros]:
  assumes "alive w p"
  shows "neutral w (master_loot e p l w)"
proof -
  have s: "loot_step v (upd_loot l (\<lambda>lt. lt\<lparr>
           lt_items := map (\<lambda>i. if li_free_for_all i then i else i\<lparr>li_blocked := \<not> li_under_threshold i\<rparr>) (lt_items lt),
           lt_quest_items := map (\<lambda>i. if \<not> li_follow_rules i then i else i\<lparr>li_blocked := \<not> li_under_threshold i\<rparr>) (lt_quest_items lt)\<rparr>) v)" for v
    by (rule loot_step_upd_loot) (simp add: loot_slot_def Let_def)
  have "loot_step v (fold (\<lambda>x. send_to x data) xs v)" for xs data v by (rule loot_step_fold) (rule loot_step_send_to)
  then show ?thesis
    unfolding master_loot_def Let_def
    by (intro neutral_with_group [OF assms] loot_step_neutral) (rule loot_step_trans [OF s])
qed

lemma neutral_end_roll [neutral_intros]:
  assumes "alive w p" "safe w"
  shows "neutral w (end_roll e l allowedMap p w)"
  unfolding end_roll_def
proof (rule neutral_with_group [OF assms(1)])
  fix g assume g: "gw_groups w p = Some g"
  let ?rs = "filter (\<lambda>r. rl_loot r = Some l) (g_rolls g)" and ?keep = "filter (\<lambda>r. rl_loot r \<noteq> Some l) (g_rolls g)"
  let ?v = "fold (count_the_roll e allowedMap) ?rs w"
  have s: "loot_step w ?v"
    by (rule loot_step_fold) (use safe_rollsD [OF assms(2) g] in \<open>auto intro!: count_the_roll_step intro: loot_step_valid\<close>)
  have gv: "gw_groups ?v p = Some g" using s g by (simp add: loot_step_def)
  have "neutral w (upd_group p (\<lambda>h. h\<lparr>g_rolls := ?keep\<rparr>) ?v)"
    by (rule neutral_new_rolls [OF s]) (use safe_rollsD [OF assms(2) g] loot_step_valid [OF s] in auto)
  moreover have "upd_group p (\<lambda>h. h\<lparr>g_rolls := ?keep\<rparr>) ?v = upd_group p (\<lambda>grp. grp\<lparr>g_rolls := filter (\<lambda>r. rl_loot r \<noteq> Some l) (g_rolls grp)\<rparr>) ?v"
    using gv by (simp add: upd_group_def)
  ultimately show "neutral w (upd_group p (\<lambda>grp. grp\<lparr>g_rolls := filter (\<lambda>r. rl_loot r \<noteq> Some l) (g_rolls grp)\<rparr>) ?v)" by simp
qed

lemma neutral_update_looter [neutral_intros]:
  assumes "alive w p"
  shows "neutral w (update_looter_guid e ifneed p w)"
proof -
  have l: "neutral w (send_update e p (upd_group p (set_looter_guid x) w))" for x
  proof -
    have n: "neutral w (upd_group p (set_looter_guid x) w)" by (rule neutral_upd_group) (simp_all add: set_looter_guid_def gcore_def)
    show ?thesis by (rule neutral_trans [OF n neutral_send_update [OF loot_there_step [OF n assms]]])
  qed
  show ?thesis
    unfolding update_looter_guid_def Let_def
    by (rule neutral_with_group [OF assms]) (auto split: option.split intro: l)
qed

text \<open>
  A loot that is deleted takes the pointers of its rolls with it; other changes of loot, by
  players who take items, leave the slots there.
\<close>

definition delete_loot :: "nat \<Rightarrow> group_world \<Rightarrow> group_world" where
  "delete_loot l w = w\<lparr>gw_loots := (gw_loots w)(l := None),
     gw_groups := \<lambda>p. map_option (\<lambda>g. g\<lparr>g_rolls := map (\<lambda>r. if rl_loot r = Some l then r\<lparr>rl_loot := None\<rparr> else r) (g_rolls g)\<rparr>) (gw_groups w p)\<rparr>"

lemma neutral_delete_loot [neutral_intros]: "neutral w (delete_loot l w)"
proof -
  have c: "map_option gcore (map_option (\<lambda>g. g\<lparr>g_rolls := f g\<rparr>) z) = map_option gcore z" for f z
    by (cases z) (simp_all add: gcore_def)
  have "core (delete_loot l w) = core w" by (rule core_eqI) (simp_all add: delete_loot_def c)
  moreover have "safe (delete_loot l w)" if s: "safe w"
  proof -
    have "rolls_valid (delete_loot l w)"
      using safe_rollsD [OF s] by (auto simp: rolls_valid_def delete_loot_def roll_valid_def)
    then show ?thesis using s by (simp add: safe_def clean_def delete_loot_def)
  qed
  ultimately show ?thesis by (simp add: neutral_def)
qed

lemma neutral_loots:
  assumes "\<And>r. roll_valid (gw_loots w) r \<Longrightarrow> roll_valid ls r"
  shows "neutral w (w\<lparr>gw_loots := ls\<rparr>)"
  using assms by (intro loot_step_neutral) (simp add: loot_step_def clean_def)

end
