(* ===== verification/GroupReach.thy ===== *)
theory GroupReach
  imports GroupSteps GroupLootSafety
begin

text \<open>
  The worlds the server can reach: it starts without groups and players, players come and go, send
  their requests, and what they find is rolled for. All of them are in \<open>gw_inv\<close>; this gives the
  properties of the groups of a running server.
\<close>

section \<open>The worlds of a running server\<close>

text \<open>The server has loaded the characters and no group.\<close>

definition group_world_new :: "u32 option \<Rightarrow> char_cache \<Rightarrow> u32 \<Rightarrow> group_world" where
  "group_world_new maxId cc items = init_group_ids maxId
     \<lparr>gw_players = \<lambda>_. None, gw_groups = \<lambda>_. None, gw_next = 0, gw_store = [], gw_next_id = 0, gw_ids = [],
       gw_cache = cc, gw_loots = \<lambda>_. None, gw_item_gen = gen_init items, gw_draws = 0, gw_log = []\<rparr>"

inductive group_reach :: "group_world \<Rightarrow> bool" where
  start: "cache_reach cc \<Longrightarrow> group_reach (group_world_new maxId cc items)"
| login: "group_reach w \<Longrightarrow> \<not> grp_connected w x \<Longrightarrow> has_character_cache_entry (gw_cache w) x
     \<Longrightarrow> group_reach (login_player x pl w)"
| logout: "group_reach w \<Longrightarrow> grp_connected w x \<Longrightarrow> group_reach (delete_player x (logout_groups e socket x w))"
| request: "group_reach w \<Longrightarrow> grp_connected w x \<Longrightarrow> group_request e x w w' \<Longrightarrow> group_reach w'"
| invitation_ends: "group_reach w \<Longrightarrow> grp_connected w x \<Longrightarrow> group_reach (uninvite_from_group e x w)"
| removal: "group_reach w \<Longrightarrow> gw_groups w p = Some g \<Longrightarrow> is_member x g
     \<Longrightarrow> group_reach (remove_member e p x method kicker reason w)"
| disbanding: "group_reach w \<Longrightarrow> gw_groups w p = Some g \<Longrightarrow> g_slots g \<noteq> [] \<Longrightarrow> group_reach (disband e p hide w)"
| dungeon: "group_reach w \<Longrightarrow> gw_groups w p = Some g \<Longrightarrow> group_reach (set_dungeon_difficulty p k w)"
| raid: "group_reach w \<Longrightarrow> gw_groups w p = Some g \<Longrightarrow> group_reach (set_raid_difficulty p k w)"
| lfg: "group_reach w \<Longrightarrow> gw_groups w p = Some g \<Longrightarrow> group_reach (convert_to_lfg e restricted p w)"
| lfg_roles: "group_reach w \<Longrightarrow> gw_groups w p = Some g \<Longrightarrow> group_reach (set_lfg_roles e p x roles w)"
| looter: "group_reach w \<Longrightarrow> gw_groups w p = Some g \<Longrightarrow> group_reach (update_looter_guid e ifneed p w)"
| loot: "group_reach w \<Longrightarrow> gw_loots w l = None \<Longrightarrow> group_reach (w\<lparr>gw_loots := (gw_loots w)(l \<mapsto> lt)\<rparr>)"
| loot_gone: "group_reach w \<Longrightarrow> group_reach (delete_loot l w)"
| rolled_for: "group_reach w \<Longrightarrow> gw_groups w p = Some g \<Longrightarrow> gw_loots w l \<noteq> None \<Longrightarrow> group_reach (group_loot e p l w)"
| need_or_greed: "group_reach w \<Longrightarrow> gw_groups w p = Some g \<Longrightarrow> gw_loots w l \<noteq> None \<Longrightarrow> (\<And>i. ge_item e i \<noteq> None)
     \<Longrightarrow> group_reach (need_before_greed e p l w)"
| master: "group_reach w \<Longrightarrow> gw_groups w p = Some g \<Longrightarrow> gw_loots w l \<noteq> None \<Longrightarrow> group_reach (master_loot e p l w)"
| roll_ends: "group_reach w \<Longrightarrow> gw_groups w p = Some g \<Longrightarrow> group_reach (end_roll e l allowed p w)"
| character: "group_reach w \<Longrightarrow> x \<noteq> 0 \<Longrightarrow> \<not> has_character_cache_entry (gw_cache w) x
     \<Longrightarrow> get_character_guid_by_name (gw_cache w) name = Some 0
     \<Longrightarrow> group_reach (w\<lparr>gw_cache := add_character_cache_entry x acc name gender race cls lvl (gw_cache w)\<rparr>)"
| renamed: "group_reach w \<Longrightarrow> get_character_guid_by_name (gw_cache w) name \<in> {Some 0, Some x}
     \<Longrightarrow> group_reach (w\<lparr>gw_cache := update_character_data x name gender race (gw_cache w)\<rparr>)"
| levelled: "group_reach w \<Longrightarrow> group_reach (w\<lparr>gw_cache := update_character_level x lvl (gw_cache w)\<rparr>)"
| deleted: "group_reach w \<Longrightarrow> \<not> grp_connected w x \<Longrightarrow> get_character_group_guid_by_guid (gw_cache w) x = 0
     \<Longrightarrow> get_character_name_by_guid (gw_cache w) x = Some name
     \<Longrightarrow> group_reach (w\<lparr>gw_cache := delete_character_cache_entry x name (gw_cache w)\<rparr>)"

section \<open>They keep the invariant\<close>

lemma new_world_inv: "cache_reach cc \<Longrightarrow> inv0 (group_world_new maxId cc items)"
  by (auto simp: group_world_new_def init_group_ids_def Let_def gw_inv_def one_group_def store_inv_def id_used_def
      leaders_ok_def safe_def clean_def rolls_valid_def cache_reach_ok split: option.split)

text \<open>Changes of the cache that leave the group of every member.\<close>

lemma cache_change_inv:
  assumes inv: "inv0 w" and ok: "cache_ok cc"
    and there: "\<And>x. has_character_cache_entry (gw_cache w) x \<Longrightarrow> gw_players w x \<noteq> None \<or> get_character_group_guid_by_guid (gw_cache w) x \<noteq> 0
      \<Longrightarrow> has_character_cache_entry cc x \<and> get_character_group_guid_by_guid cc x = get_character_group_guid_by_guid (gw_cache w) x"
  shows "inv0 (w\<lparr>gw_cache := cc\<rparr>)"
proof -
  have p: "player_inv {} (w\<lparr>gw_cache := cc\<rparr>) x pl" if x: "gw_players w x = Some pl" for x pl
  proof -
    have i: "player_inv {} w x pl" by (rule gw_invD(1) [OF inv x])
    have "has_character_cache_entry cc x" using there [of x] player_invD(2) [OF i] x by simp
    then show ?thesis using i by (simp add: player_inv_def)
  qed
  have g: "group_inv {} (w\<lparr>gw_cache := cc\<rparr>) q h" if q: "gw_groups w q = Some h" for q h
  proof -
    have i: "group_inv {} w q h" by (rule gw_invD(2) [OF inv q])
    have "has_character_cache_entry cc x \<and> get_character_group_guid_by_guid cc x = g_guid h" if x: "x \<in> members h" for x
    proof -
      have "g_slots h \<noteq> []" using x by auto
      then have "g_guid h \<noteq> 0"
        using store_invD(6) [OF gw_invD(3) [OF inv] q] store_invD(2) [OF gw_invD(3) [OF inv]] global_group_not_empty
        by (metis empty_iff is_empty_def)
      then show ?thesis using there [of x] group_invD(4,5) [OF i, of x] x by simp
    qed
    then show ?thesis using i by (simp add: group_inv_def)
  qed
  have "store_inv {} (w\<lparr>gw_cache := cc\<rparr>)" using gw_invD(3) [OF inv] by (simp add: store_inv_def id_used_def)
  then show ?thesis
    using inv p g ok by (auto simp: gw_inv_def one_group_def leaders_ok_def safe_def clean_def rolls_valid_def)
qed

lemma good_reach: "inv0 w \<Longrightarrow> gw_groups w p = Some g \<Longrightarrow> good p w"
  by (rule goodI) (auto simp: alive_def)

lemma neutral_reach:
  assumes "inv0 w" "gw_groups w p = Some g" "alive w p \<Longrightarrow> neutral w w'"
  shows "inv0 w'"
  using gw_inv_neutral [OF assms(1) assms(3) [OF goodD(2) [OF good_reach [OF assms(1,2)]]]] .

lemma new_character:
  "has_character_cache_entry (add_character_cache_entry x acc name gender race cls lvl cc) y \<longleftrightarrow> y = x \<or> has_character_cache_entry cc y"
  "y \<noteq> x \<Longrightarrow> get_character_group_guid_by_guid (add_character_cache_entry x acc name gender race cls lvl cc) y = get_character_group_guid_by_guid cc y"
  by (auto simp: add_character_cache_entry_def has_character_cache_entry_def get_character_group_guid_by_guid_def by_guid_def
      get_character_cache_by_guid_def map_of_AList_update Let_def split: option.split)

lemma changed_character:
  "has_character_cache_entry (update_character_data x name gender race cc) y \<longleftrightarrow> has_character_cache_entry cc y"
  "get_character_group_guid_by_guid (update_character_data x name gender race cc) y = get_character_group_guid_by_guid cc y"
  "has_character_cache_entry (update_character_level x lvl cc) y \<longleftrightarrow> has_character_cache_entry cc y"
  "get_character_group_guid_by_guid (update_character_level x lvl cc) y = get_character_group_guid_by_guid cc y"
  by (auto simp: update_character_data_def update_character_level_def modify_entry_def has_character_cache_entry_def
      get_character_group_guid_by_guid_def by_guid_def get_character_cache_by_guid_def map_of_AList_update Let_def split: option.split)

lemma deleted_character:
  "y \<noteq> x \<Longrightarrow> has_character_cache_entry (delete_character_cache_entry x name cc) y \<longleftrightarrow> has_character_cache_entry cc y"
  "y \<noteq> x \<Longrightarrow> get_character_group_guid_by_guid (delete_character_cache_entry x name cc) y = get_character_group_guid_by_guid cc y"
  by (auto simp: delete_character_cache_entry_def has_character_cache_entry_def
      get_character_group_guid_by_guid_def by_guid_def get_character_cache_by_guid_def map_of_AList_delete)

lemma group_reach_inv: "group_reach w \<Longrightarrow> inv0 w"
proof (induction rule: group_reach.induct)
  case (start cc maxId items)
  then show ?case by (rule new_world_inv)
next
  case (login w x pl)
  then show ?case by (intro login_player_inv) (simp_all add: grp_connected_def)
next
  case (logout w x e socket)
  then show ?case using logout_groups_inv delete_player_inv by blast
next
  case (request w x e w')
  then show ?case using group_request_inv by blast
next
  case (invitation_ends w x e)
  then show ?case using uninvite_from_group_inv by blast
next
  case (removal w p g x e how kicker reason)
  then show ?case using remove_member_inv by (auto simp: is_member_iff)
next
  case (disbanding w p g e hide)
  then show ?case using disband_inv(1) [OF disbanding.IH disbanding.hyps(2)] by simp
next
  case (dungeon w p g k)
  then show ?case using goodD(1) good_set_difficulty good_reach by blast
next
  case (raid w p g k)
  then show ?case using goodD(1) good_set_difficulty good_reach by blast
next
  case (lfg w p g e restricted)
  then show ?case using goodD(1) good_convert_to_lfg good_reach by blast
next
  case (lfg_roles w p g e x roles)
  then show ?case using goodD(1) good_set_lfg_roles good_reach by blast
next
  case (looter w p g e ifneed)
  then show ?case by (auto intro: neutral_reach neutral_update_looter)
next
  case (loot w l lt)
  have "neutral w (w\<lparr>gw_loots := (gw_loots w)(l \<mapsto> lt)\<rparr>)"
    using loot.hyps by (intro neutral_loots) (auto simp: roll_valid_def)
  then show ?case by (rule gw_inv_neutral [OF loot.IH])
next
  case (loot_gone w l)
  then show ?case by (intro gw_inv_neutral [OF _ neutral_delete_loot])
next
  case (rolled_for w p g l e)
  then show ?case by (auto intro: neutral_reach neutral_group_loot)
next
  case (need_or_greed w p g l e)
  show ?case by (rule neutral_reach [OF need_or_greed.IH need_or_greed.hyps(2) neutral_need_before_greed]) (use need_or_greed.hyps in blast)+
next
  case (master w p g l e)
  then show ?case by (auto intro: neutral_reach neutral_master_loot)
next
  case (roll_ends w p g e l allowed)
  then show ?case by (auto intro: neutral_reach neutral_end_roll gw_invD)
next
  case (character w x name acc gender race cls lvl)
  have "cache_ok (add_character_cache_entry x acc name gender race cls lvl (gw_cache w))"
    using character gw_invD(7) [OF character.IH] guid_by_name_zero
    by (intro add_ok) (auto simp: has_character_cache_entry_def simp del: not_None_eq)
  then show ?case using character.hyps new_character by (intro cache_change_inv [OF character.IH]) metis+
next
  case (renamed w name x gender race)
  have ok: "cache_ok (gw_cache w)" by (rule gw_invD(7) [OF renamed.IH])
  have "cache_ok (update_character_data x name gender race (gw_cache w))"
  proof (cases "x = 0")
    case True
    then have "map_of (cc_store (gw_cache w)) x = None" using cache_okD(1) [OF ok] by (cases "map_of (cc_store (gw_cache w)) x") auto
    then show ?thesis using ok by (simp add: update_character_data_def)
  next
    case False
    then show ?thesis
      using renamed.hyps(2) guid_by_name_zero [OF ok] guid_by_name_some [OF ok False]
      by (intro update_data_ok [OF ok]) (auto simp: free_or_own_def)
  qed
  then show ?case by (intro cache_change_inv [OF renamed.IH]) (simp_all add: changed_character)
next
  case (levelled w x lvl)
  have "cache_ok (update_character_level x lvl (gw_cache w))"
    unfolding update_character_level_def by (rule modify_ok [OF gw_invD(7) [OF levelled.IH]]) simp
  then show ?case by (intro cache_change_inv [OF levelled.IH]) (simp_all add: changed_character)
next
  case (deleted w x name)
  have "cache_ok (delete_character_cache_entry x name (gw_cache w))" by (rule delete_ok [OF gw_invD(7) [OF deleted.IH] deleted.hyps(4)])
  then show ?case
    using deleted.hyps(2,3) by (intro cache_change_inv [OF deleted.IH]) (metis deleted_character grp_connected_def)+
qed

end
