(* ===== verification/GroupRemoval.thy ===== *)
theory GroupRemoval
  imports GroupSteps
begin

text \<open>
  Whom a group has after a removal: the operations that end it change the list of members at one
  place only, where the member's slot is erased; a group that is disbanded is gone.
\<close>

definition guids :: "group_world \<Rightarrow> nat \<Rightarrow> guid list option" where
  "guids w p = map_option (\<lambda>g. map ms_guid (g_slots g)) (gw_groups w p)"

definition same_guids :: "nat set \<Rightarrow> group_world \<Rightarrow> group_world \<Rightarrow> bool" where
  "same_guids P w w' \<longleftrightarrow> (\<forall>q. q \<notin> P \<longrightarrow> guids w' q = guids w q)"

lemma same_guids_refl: "same_guids P w w" by (simp add: same_guids_def)

lemma same_guids_trans: "same_guids P w v \<Longrightarrow> same_guids P v w' \<Longrightarrow> same_guids P w w'"
  by (simp add: same_guids_def)

lemma same_guids_groups: "gw_groups w' = gw_groups w \<Longrightarrow> same_guids P w w'"
  by (simp add: same_guids_def guids_def)

lemma same_guids_core: "core w' = core w \<Longrightarrow> same_guids P w w'"
proof -
  assume c: "core w' = core w"
  have "guids w' q = guids w q" for q
    using core_eqD(2) [OF c, of q] by (cases "gw_groups w q"; cases "gw_groups w' q") (auto simp: guids_def dest: gcore_eqD(1))
  then show ?thesis by (simp add: same_guids_def)
qed

lemma same_guids_neutral: "neutral w w' \<Longrightarrow> same_guids P w w'"
  by (rule same_guids_core [OF neutral_core])

lemma same_guids_upd_group: "(\<And>g. p \<notin> P \<Longrightarrow> map ms_guid (g_slots (f g)) = map ms_guid (g_slots g)) \<Longrightarrow> same_guids P w (upd_group p f w)"
  by (auto simp: same_guids_def guids_def upd_group_def option.map_comp o_def)

lemma same_guids_upd_player: "same_guids P w (upd_player x f w)"
  by (rule same_guids_groups) (simp add: upd_player_def)

lemma same_guids_glog: "same_guids P w (glog ef w)" "same_guids P w (db s w)" "same_guids P w (send_to x pk w)"
  "same_guids P w (upd_cache f w)"
  by (rule same_guids_groups; simp add: glog_def db_def send_to_def upd_cache_def)+

lemma same_guids_fold: "(\<And>x v. same_guids P v (f x v)) \<Longrightarrow> same_guids P w (fold f xs w)"
  by (induction xs arbitrary: w) (auto intro: same_guids_refl same_guids_trans)

lemma same_guids_with_group: "(\<And>g. same_guids P w (f g w)) \<Longrightarrow> same_guids P w (with_group p f w)"
  by (auto simp: with_group_def intro: same_guids_glog split: option.split)

lemma same_guids_unlink_ref: "same_guids P w (unlink_ref b x w)"
  unfolding unlink_ref_def
  by (auto split: option.split intro!: same_guids_refl same_guids_trans [OF same_guids_upd_group same_guids_upd_player])

lemma same_guids_send_update: "same_guids P w (send_update e p w)"
  unfolding send_update_def send_update_to_player_def
  by (intro same_guids_with_group same_guids_fold)
    (auto split: option.split intro!: same_guids_refl same_guids_trans [OF same_guids_upd_group same_guids_glog(3)])

lemma same_guids_remove_all_invites: "same_guids P w (remove_all_invites p w)"
  unfolding remove_all_invites_def set_group_invite_def
  by (intro same_guids_with_group same_guids_trans [OF same_guids_fold same_guids_upd_group])
    (auto intro: same_guids_upd_player same_guids_glog)

section \<open>Disbanding\<close>

lemma guids_delete_group: "guids (delete_group p w) q = (if q = p then None else guids w q)"
proof -
  have f: "gw_groups (fold (\<lambda>(x, orig). upd_player x (h orig)) rs w) = gw_groups w" for h rs w
    by (induction rs arbitrary: w) (auto simp: upd_player_def)
  show ?thesis by (auto simp: delete_group_def with_group_def guids_def glog_def Let_def f split: option.split)
qed

lemma same_guids_homebind: "same_guids P w (homebind_if_instance e x w)"
  by (rule same_guids_neutral [OF neutral_homebind])

lemma same_guids_disband_member:
  assumes "\<not> bg_or_bf g"
  shows "same_guids P w (snd (disband_member e p hide g m (i, w)))"
proof -
  have l: "same_guids P v (leave_references p x g v)" for x v
    using assms same_guids_unlink_ref by (simp add: leave_references_def player_set_group_def player_set_original_group_def)
  let ?x = "ms_guid m"
  let ?v = "glog (GResetInstances ?x INSTANCE_RESET_GROUP_LEAVE) (homebind_if_instance e ?x (upd_cache (clear_character_group ?x) w))"
  have v: "same_guids P w ?v"
    by (rule same_guids_trans [OF same_guids_trans [OF same_guids_glog(4) same_guids_homebind] same_guids_glog(1)])
  have u: "same_guids P ?v (leave_references p ?x g ?v)" "same_guids P ?v (send_to ?x pk (leave_references p ?x g ?v))" for pk
    by (rule l) (rule same_guids_trans [OF l same_guids_glog(3)])
  define u where "u = (if hide then leave_references p ?x g ?v else send_to ?x (WorldPacket SMSG_GROUP_DESTROYED []) (leave_references p ?x g ?v))"
  have wu: "same_guids P w u" unfolding u_def using same_guids_trans [OF v] u by simp
  have "snd (disband_member e p hide g m (i, w)) = (if \<not> grp_connected ?v ?x then ?v
      else case get_group u ?x of Some q \<Rightarrow> send_update e q u | None \<Rightarrow> send_to ?x (empty_list_packet g) u)"
    unfolding u_def using assms by (cases hide) (simp_all add: disband_member_def Let_def)
  also have "same_guids P w \<dots>"
    using v same_guids_trans [OF wu same_guids_send_update] same_guids_trans [OF wu same_guids_glog(3)] by (simp split: option.split)
  finally show ?thesis .
qed

lemma disband_guids:
  assumes "gw_groups w p = Some g" "\<not> bg_or_bf g"
  shows "guids (disband e p hide w) q = (if q = p then None else guids w q)"
proof -
  obtain i w1 where 1: "fold (disband_member e p hide g) (g_slots g) (0, glog (GOnDisband p) w) = (i, w1)" by fastforce
  have f: "same_guids P v (snd (fold (disband_member e p hide g) ms (j, v)))" for P v ms j
  proof (induction ms arbitrary: j v)
    case (Cons m ms)
    show ?case
      using same_guids_trans [OF same_guids_disband_member [OF assms(2), of P v e p hide m j] Cons.IH [where j = "fst (disband_member e p hide g m (j, v))"]] by simp
  qed (simp add: same_guids_refl)
  have s: "same_guids {p} w w1" using f [of "{p}" "glog (GOnDisband p) w" "g_slots g" 0] 1 same_guids_trans [OF same_guids_glog(1)] by fastforce
  let ?w2 = "remove_all_invites p (upd_group p (\<lambda>g. g\<lparr>g_rolls := [], g_slots := []\<rparr>) w1)"
  have s2: "same_guids {p} w ?w2"
    by (rule same_guids_trans [OF s same_guids_trans [OF same_guids_upd_group same_guids_remove_all_invites]]) simp
  have "same_guids {p} w (mgr_remove_group p (glog (GDeleteInstanceData i) (db (DelLfgData n) (db (DelGroupMemberAll n) (db (DelGroup n) ?w2)))))" for n
    by (rule same_guids_trans [OF s2], rule same_guids_groups) (simp add: mgr_remove_group_def with_group_def glog_def db_def split: option.split)
  then show ?thesis using assms 1 by (simp add: disband_def with_group_def Let_def guids_delete_group same_guids_def)
qed

section \<open>Removing a member\<close>

lemma erase_member_slot_guids:
  assumes a: "gw_groups w p = Some g" and x: "x \<in> members g" and d: "distinct (map ms_guid (g_slots g))" and nb: "\<not> bg_or_bf g"
  shows "guids (erase_member_slot p x w) q = (if q = p then Some (filter (\<lambda>y. y \<noteq> x) (map ms_guid (g_slots g))) else guids w q)"
proof -
  obtain slot where slot: "slot_of x g = Some slot" using x slot_of_None_iff [of x g] by blast
  define w1 where "w1 = try_group p (sub_group_counter_decrease (ms_group slot)) w"
  obtain g1 where g1: "gw_groups w1 = (gw_groups w)(p \<mapsto> g1)" "g_slots g1 = g_slots g" "\<not> bg_or_bf g1"
  proof (cases "sub_group_counter_decrease (ms_group slot) g")
    case None
    show ?thesis by (rule that [of g]) (use None a nb in \<open>auto simp: w1_def try_group_def with_group_def glog_def\<close>)
  next
    case (Some h)
    show ?thesis
      by (rule that [of h])
        (use Some a nb in \<open>auto simp: w1_def try_group_def with_group_def upd_group_def sub_group_counter_decrease_def is_bg_group_def is_bf_group_def split: option.splits\<close>)
  qed
  have f: "map ms_guid (erase_slot x (g_slots g)) = filter (\<lambda>y. y \<noteq> x) (map ms_guid (g_slots g))"
    by (simp add: erase_slot_filter [OF d] filter_map o_def)
  have "erase_member_slot p x w = upd_cache (clear_character_group x) (upd_group p (\<lambda>g. g\<lparr>g_slots := erase_slot x (g_slots g)\<rparr>) w1)"
    using a slot nb by (simp add: erase_member_slot_def with_group_def w1_def)
  then show ?thesis by (simp add: guids_def upd_cache_def upd_group_def g1 f)
qed

lemma same_guids_broadcast_packet: "same_guids P w (broadcast_packet pk ign grp ignore p w)"
  unfolding broadcast_packet_def
  by (intro same_guids_with_group same_guids_fold) (auto intro: same_guids_refl same_guids_glog split: option.split)

lemma same_guids_change_leader:
  assumes "gw_groups w p = Some g" "\<not> bg_or_bf g"
  shows "same_guids P w (change_leader e p y w)"
proof -
  have m: "same_guids P v (upd_group p (\<lambda>g. g\<lparr>g_leader := y, g_leader_name := n,
      g_slots := update_slot y (toggle_group_member_flag MEMBER_FLAG_ASSISTANT False) (g_slots g)\<rparr>) v)" for n v
    by (rule same_guids_upd_group) (simp add: update_slot_ids toggle_group_member_flag_def)
  have n: "same_guids P v (with_group p (\<lambda>g. glog (GOnChangeLeader p y (g_leader g))) v)" for v
    by (intro same_guids_with_group same_guids_glog)
  have "same_guids P v (upd_player y f (upd_player z h (glog ef (db s v))))" for v z f h ef s
    by (rule same_guids_groups) (simp add: upd_player_def glog_def db_def)
  note s = same_guids_trans [OF same_guids_trans [OF same_guids_trans [OF this m] same_guids_broadcast_packet] n]
  show ?thesis
    using assms same_guids_refl s by (simp add: change_leader_def with_group_def [of p _ w] Let_def split: option.split)
qed

lemma pick_new_leader_guids:
  assumes "gw_groups w p = Some g" "\<not> bg_or_bf g"
  shows "same_guids P w (pick_new_leader e p x w)"
  using assms same_guids_change_leader same_guids_refl by (auto simp: pick_new_leader_def with_group_def split: option.split)

lemma taken_out_guids:
  assumes inv: "inv0 w" and a: "gw_groups w p = Some g" and x: "x \<in> members g"
  shows "guids (taken_out e p x method g w) q = (if q = p then Some (filter (\<lambda>y. y \<noteq> x) (map ms_guid (g_slots g))) else guids w q)"
proof -
  define w3 where "w3 = remove_member_votes e p x (db (DelGroupMember (get_counter x) (get_counter (g_guid g))) (detach_member p x method g w))"
  obtain g3 where i3: "gw_inv {} {} {x} w3" and c3: "core w3 = core (unlink_ref False x w)"
    and g3: "gw_groups w3 p = Some g3" "gcore g3 = gcore (g\<lparr>g_refs := removeAll (x, False) (g_refs g)\<rparr>)"
    by (rule votes_removed [OF inv a x w3_def])
  have s3: "same_guids {} w w3" by (rule same_guids_trans [OF same_guids_unlink_ref same_guids_core [OF c3]])
  have k: "g_slots g3 = g_slots g" "\<not> bg_or_bf g3" using gcore_eqD [OF g3(2)] inv_not_bg [OF inv a] by (simp_all add: is_bg_group_def is_bf_group_def)
  have d: "distinct (map ms_guid (g_slots g3))" by (rule group_okD(3) [OF group_invD(1) [OF gw_invD(2) [OF i3 g3(1)]]])
  have "x \<in> members g3" using x k(1) by simp
  note E = erase_member_slot_guids [OF g3(1) this d k(2), of q]
  have n: "same_guids {} (erase_member_slot p x w3) (taken_out e p x method g w)"
    unfolding taken_out_def Let_def w3_def [symmetric]
    by (auto split: option.split intro: same_guids_refl same_guids_neutral neutral_reset_max_enchanting_level)
  then show ?thesis using E s3 k(1) by (simp add: same_guids_def)
qed

text \<open>The others stay, in their order, unless the group is disbanded.\<close>

lemma remove_member_guids:
  assumes inv: "inv0 w" and a: "gw_groups w p = Some g" and x: "x \<in> members g"
    and no_vote: "\<not> (is_lfg_group True g \<and> method = GROUP_REMOVEMETHOD_KICK)"
  shows "guids (remove_member e p x method kicker reason w) p \<in> {None, Some (filter (\<lambda>y. y \<noteq> x) (map ms_guid (g_slots g)))}"
    "q \<noteq> p \<Longrightarrow> guids (remove_member e p x method kicker reason w) q = guids w q"
proof -
  note nb = inv_not_bg [OF inv a]
  let ?r = "remove_member e p x method kicker reason w" and ?ms = "filter (\<lambda>y. y \<noteq> x) (map ms_guid (g_slots g))"
  have "guids ?r q \<in> (if q = p then {None, Some ?ms} else {guids w q})" for q
  proof (cases "members_count g > (if is_lfg_group False g then 1 else 2)")
    case False
    have "gw_groups (glog (GOnRemoveMember p x method kicker reason) w) p = Some g" using a by simp
    note D = disband_guids [OF this nb, of e False q]
    then show ?thesis using False no_vote nb a by (auto simp: remove_member_def with_group_def guids_def split: if_splits)
  next
    case True
    define w5 where "w5 = taken_out e p x method g w"
    define w8 where "w8 = send_update e p (glog (GOnRemoveMember p x method kicker reason)
      (glog (GResetInstances x INSTANCE_RESET_GROUP_LEAVE) (homebind_if_instance e x (pick_new_leader e p x w5))))"
    have r: "?r = removal_end e p w8" unfolding w8_def w5_def by (rule remove_member_steps [OF a nb no_vote True])
    have many: "length (g_slots g) > 1" using True by (simp add: members_count_def split: if_splits)
    obtain g5 where 5: "gw_inv {} {p} {} w5" "gw_groups w5 p = Some g5"
      unfolding w5_def by (rule taken_out_inv [OF inv a x many]) blast
    have w8: "w8 = send_update e p (glog (GOnRemoveMember p x method kicker reason)
      (glog (GResetInstances x INSTANCE_RESET_GROUP_LEAVE) (homebind_if_instance e x (pick_new_leader e p x (taken_out e p x method g w)))))"
      unfolding w8_def w5_def ..
    obtain L g8 where 8: "gw_inv {} L {} w8" "gw_groups w8 p = Some g8"
      by (rule removal_end_reached [OF inv a x many w8]) blast
    have s8: "same_guids {} w5 w8" unfolding w8_def
      by (rule same_guids_trans [OF same_guids_trans [OF same_guids_trans [OF same_guids_trans [OF
            pick_new_leader_guids [OF 5(2) inv_not_bg [OF 5]] same_guids_homebind] same_guids_glog(1)] same_guids_glog(1)] same_guids_send_update])
    have g8: "guids w8 q = (if q = p then Some ?ms else guids w q)" for q
      using s8 taken_out_guids [OF inv a x] by (simp add: w5_def same_guids_def)
    show ?thesis
      using disband_guids [OF 8(2) inv_not_bg [OF 8], of e False q] g8 8(2) unfolding r
      by (auto simp: removal_end_def with_group_def)
  qed
  from this [of p] this [of q] show "guids ?r p \<in> {None, Some ?ms}" "q \<noteq> p \<Longrightarrow> guids ?r q = guids w q" by simp_all
qed
end
