(* ===== verification/GroupClaims.thy ===== *)
theory GroupClaims
  imports GroupReach GroupRemoval
begin

text \<open>
  The properties of the groups of a running server, and a concrete world for each of them.
\<close>

section \<open>A concrete world\<close>

definition group_env_example :: group_env where
  "group_env_example = \<lparr>ge_in_world = (\<lambda>_. True), ge_level = (\<lambda>_. 20), ge_gm = (\<lambda>_. False), ge_spectator = (\<lambda>_. False),
     ge_team = (\<lambda>_. 0), ge_instance = (\<lambda>_. 0), ge_map = (\<lambda>_. 0), ge_alive = (\<lambda>_. True), ge_in_dungeon = (\<lambda>_. False),
     ge_in_bg = (\<lambda>_. False), ge_logging_out = (\<lambda>_. False), ge_socket_closed = (\<lambda>_. False), ge_in_combat_near = (\<lambda>_ _. False),
     ge_hostile = (\<lambda>_ _. False), ge_social = (\<lambda>_. player_social_new),
     ge_name_map = (\<lambda>n. if n = str ''Ann'' then Some 7 else if n = str ''Bob'' then Some 9 else None),
     ge_stats_packet = (\<lambda>_. WorldPacket 0 []), ge_far = (\<lambda>_ _. False), ge_on_map = (\<lambda>_. None), ge_near_loot = (\<lambda>_. True),
     ge_near_reward = (\<lambda>_. True), ge_lfg_can_roll = (\<lambda>_ _. True), ge_loot_map = 0, ge_item = (\<lambda>_. None), ge_can_roll = (\<lambda>_ _. True),
     ge_can_store = (\<lambda>_ _ _. 0), ge_urand = (\<lambda>_. 50), ge_lfg_state = (\<lambda>_. 0), ge_lfg_dungeon = (\<lambda>_. 0), ge_lfg_map = (\<lambda>_. 0),
     ge_lfg_kicks_left = (\<lambda>_. 0), ge_lfg_kick_wait = (\<lambda>_. None), ge_can_invite = (\<lambda>_ _. True), ge_can_accept = (\<lambda>_ _. True),
     ge_gm_group = False, ge_two_side = False, ge_level_req = 1, ge_raid_level = 10, ge_leave_on_logout = False,
     ge_no_bg_ready_check = False, ge_escape = id, ge_garbage = 0\<rparr>"

definition group_player_example :: "bytes \<Rightarrow> group_player" where
  "group_player_example n = \<lparr>gp_name = n, gp_ref = ref_none, gp_original = ref_none, gp_invite = None, gp_leader_flag = False,
     gp_dungeon = 0, gp_raid = 0, gp_enchanting = 0, gp_pass = False\<rparr>"

definition server_started :: group_world where
  "server_started = group_world_new (Some 3) (load_character_cache_storage
     [(7, str ''Ann'', 1, 1, 0, 1, 20), (9, str ''Bob'', 2, 1, 0, 1, 20)] [] cache_new) 1"

definition both_online :: group_world where
  "both_online = login_player 9 (group_player_example (str ''Bob'')) (login_player 7 (group_player_example (str ''Ann'')) server_started)"

text \<open>Ann invites Bob, who accepts.\<close>

definition bob_invited :: group_world where "bob_invited = group_invite group_env_example 7 (str ''Bob'') both_online"
definition bob_joined :: group_world where "bob_joined = group_accept group_env_example 9 bob_invited"

lemma both_online_reach: "group_reach both_online"
proof -
  have c: "distinct [guid_create_global HG_Player 7, guid_create_global HG_Player 9] \<and> distinct [str ''Ann'', str ''Bob'']
    \<and> 0 \<notin> set [guid_create_global HG_Player 7, guid_create_global HG_Player 9]" by code_simp
  have s: "group_reach server_started" unfolding server_started_def by (intro group_reach.start cache_reach.load) (use c in simp_all)
  have o: "\<not> grp_connected server_started 7" "has_character_cache_entry (gw_cache server_started) 7"
    "\<not> grp_connected (login_player 7 (group_player_example (str ''Ann'')) server_started) 9"
    "has_character_cache_entry (gw_cache (login_player 7 (group_player_example (str ''Ann'')) server_started)) 9" by code_simp+
  show ?thesis unfolding both_online_def by (intro group_reach.login s o)
qed

lemma bob_invited_reach: "group_reach bob_invited"
proof -
  let ?pk = "\<lparr>bb_rpos = 0, bb_wpos = 0, bb_storage = str ''Bob'' @ [0] @ [0, 0, 0, 0]\<rparr>"
  have c: "grp_connected both_online 7" by code_simp
  have "bb_next (str ''Bob'' @ [0]) ?pk" by (simp add: bb_next_def bb_size_def str_def)
  from bb_get_string_next [OF _ _ this] have n: "bb_get_string ?pk = Inr (str ''Bob'', bb_skip 4 ?pk)"
    by (simp add: utf8_is_valid_ascii str_def)
  have k: "bb_read_skip 4 (bb_skip 4 ?pk) = Inr (bb_skip 8 ?pk)"
    by (simp add: bb_read_skip_def bb_skip_def bb_size_def sz_add_def str_def)
  have "handle_group_invite group_env_example 7 ?pk both_online = Inr bob_invited"
    unfolding handle_group_invite_def n using k by (simp add: bob_invited_def)
  then show ?thesis by (intro group_reach.request [OF both_online_reach c] group_request.invite)
qed

definition invitation_waits :: "group_world \<Rightarrow> nat \<Rightarrow> guid \<Rightarrow> guid \<Rightarrow> bool" where
  "invitation_waits w p leader x \<longleftrightarrow> get_group_invite w x = Some p \<and> grp_connected w leader \<and> get_group_invite w leader = Some p
     \<and> gw_next_id w \<noteq> 0xFFFFFFFF \<and> (case gw_groups w p of None \<Rightarrow> False | Some g \<Rightarrow> g_leader g = leader \<and> g_slots g = [] \<and> \<not> is_full g)"

lemma bob_waits: "invitation_waits bob_invited 0 7 9" by code_simp

section \<open>Accepting\<close>

lemma accepted_members:
  assumes inv: "inv0 w" and left: "gw_next_id w \<noteq> 0xFFFFFFFF" and invited: "get_group_invite w x = Some p" and a: "gw_groups w p = Some g"
    and may: "\<not> ge_spectator e x" "ge_can_accept e x p" "g_leader g \<noteq> x" "\<not> is_full g"
    and leader: "\<not> is_created g \<Longrightarrow> \<not> ge_spectator e (g_leader g) \<and> get_group_invite w (g_leader g) = Some p"
  shows "\<exists>g'. gw_groups (group_accept e x w) p = Some g'
    \<and> map ms_guid (g_slots g') = (if is_created g then map ms_guid (g_slots g) else [g_leader g]) @ [x]"
proof -
  obtain pl where pl: "gw_players w x = Some pl" "gp_invite pl = Some p" "ref_target (gp_ref pl) = None"
    by (rule inv_get_invite [OF inv invited])
  note F = remove_invite_fields [OF pl(1) a]
  let ?w = "remove_invite p x w" and ?g = "g\<lparr>g_invitees := removeAll x (g_invitees g)\<rparr>"
  have i1: "inv0 ?w" by (rule remove_invite_inv [OF inv pl(1) a pl(3)]) (use pl(2) in simp)
  have a1: "gw_groups ?w p = Some ?g" and x1: "gw_players ?w x = Some (pl\<lparr>gp_invite := None\<rparr>)" using F by simp_all
  have free: "ref_target (gp_ref (pl\<lparr>gp_invite := None\<rparr>)) = None" "gp_invite (pl\<lparr>gp_invite := None\<rparr>) = None" using pl(3) by simp_all
  have full: "\<not> is_full ?g" "is_created ?g \<longleftrightarrow> is_created g" using may(4) by (simp_all add: is_full_def is_created_def members_count_def is_raid_group_def split: if_splits)
  show ?thesis
  proof (cases "is_created g")
    case True
    have "counts_ok ?g" by (rule group_okD(6) [OF group_invD(1) [OF gw_invD(2) [OF i1 a1]]])
    then have "\<exists>g'. gw_groups (snd (add_member e p x ?w)) p = Some g' \<and> map ms_guid (g_slots g') = map ms_guid (g_slots ?g) @ [x]"
      using True full(1) room_for_more [OF group_invD(1) [OF gw_invD(2) [OF i1 a1]] full(1)]
      by (intro snd_add_member_joins [OF i1 a1 x1 free]) (auto simp: counts_ok_def is_full_def is_raid_group_def is_created_def members_count_def split: if_splits)
    then show ?thesis using True may full a a1 by (simp add: group_accept_def invited with_group_def)
  next
    case False
    note l = leader [OF False]
    have c: "grp_connected ?w (g_leader ?g)" using l may(3) F(1) by (auto simp: get_group_invite_def grp_connected_def bind_eq_Some_conv)
    have "\<exists>g'. gw_groups (snd (add_member e p x (mgr_add_group p (snd (group_create e p (g_leader ?g) (remove_invite p (g_leader ?g) ?w)))))) p = Some g'
      \<and> map ms_guid (g_slots g') = [g_leader ?g, x]"
    proof (rule conjunct2 [OF accept_new_inv [OF i1 a1 _ x1 free]])
      show "g_slots ?g = []" using False by (simp add: is_created_def members_count_def)
      show "g_leader ?g \<noteq> x" using may(3) by simp
      show "get_group_invite ?w (g_leader ?g) = Some p" using l may(3) F(1) by (simp add: get_group_invite_def)
      show "gw_next_id ?w \<noteq> 0xFFFFFFFF" using F(4) left by (simp add: same_manager_def)
    qed
    then show ?thesis using False may full a a1 l c by (simp add: group_accept_def invited with_group_def Let_def)
  qed
qed

lemma invited_connected: "get_group_invite w x = Some p \<Longrightarrow> grp_connected w x"
  by (cases "gw_players w x") (simp_all add: get_group_invite_def grp_connected_def)

lemma bob_joined_members:
  obtains g where "gw_groups bob_joined 0 = Some g" "map ms_guid (g_slots g) = [7, 9]"
proof -
  obtain g where g: "gw_groups bob_invited 0 = Some g" "g_leader g = 7" "g_slots g = []" "\<not> is_full g"
    using bob_waits by (auto simp: invitation_waits_def split: option.splits)
  have w: "get_group_invite bob_invited 9 = Some 0" "get_group_invite bob_invited 7 = Some 0" "gw_next_id bob_invited \<noteq> 0xFFFFFFFF"
    using bob_waits by (simp_all add: invitation_waits_def)
  have e: "\<not> ge_spectator group_env_example y" "ge_can_accept group_env_example 9 0" for y by (simp_all add: group_env_example_def)
  have "\<not> is_created g" using g(3) by (simp add: is_created_def members_count_def)
  then have "\<exists>g. gw_groups bob_joined 0 = Some g \<and> map ms_guid (g_slots g) = [7, 9]"
    using accepted_members [OF group_reach_inv [OF bob_invited_reach] w(3,1) g(1) e _ g(4)] g(2) w(2) e by (simp add: bob_joined_def)
  then show ?thesis by (elim exE conjE) (rule that)
qed

lemma bob_joined_reach: "group_reach bob_joined"
proof -
  let ?pk = "\<lparr>bb_rpos = 0, bb_wpos = 0, bb_storage = [0, 0, 0, 0]\<rparr>"
  have w: "get_group_invite bob_invited 9 = Some 0" "get_group_invite bob_invited 7 = Some 0" "gw_next_id bob_invited \<noteq> 0xFFFFFFFF"
    "leader_waits bob_invited 0" using bob_waits by (auto simp: invitation_waits_def leader_waits_def split: option.splits)
  have c: "grp_connected bob_invited 9" by (rule invited_connected [OF w(1)])
  have "bb_read_skip 4 ?pk = Inr (?pk\<lparr>bb_rpos := 4\<rparr>)" by (simp add: bb_read_skip_def bb_size_def sz_add_def)
  then have "handle_group_accept group_env_example 9 ?pk bob_invited = Inr bob_joined"
    by (simp add: handle_group_accept_def bob_joined_def)
  then show ?thesis using w(1,3,4) by (intro group_reach.request [OF bob_invited_reach c] group_request.accept) auto
qed

section \<open>The properties\<close>





text \<open>Claim C10: no group outgrows its size: a party has at most five members, all in the subgroup 0;
  a raid has at most forty, in eight subgroups of at most five, and the counters of the subgroups
  are the numbers of members in them. Nobody is listed twice.\<close>

theorem group_sizes_kept:
  assumes "group_reach w" "gw_groups w p = Some g"
  shows "distinct (map ms_guid (g_slots g))
    \<and> (if is_raid_group g
       then length (g_slots g) \<le> MAXRAIDSIZE \<and> (\<forall>m \<in> set (g_slots g). unat (ms_group m) < MAX_RAID_SUBGROUPS)
         \<and> (\<exists>cs. g_counts g = Some cs \<and> length cs = MAX_RAID_SUBGROUPS \<and> (\<forall>i < MAX_RAID_SUBGROUPS.
              unat (cs ! i) = length (filter (\<lambda>m. unat (ms_group m) = i) (g_slots g)) \<and> unat (cs ! i) \<le> MAXGROUPSIZE))
       else length (g_slots g) \<le> MAXGROUPSIZE \<and> (\<forall>m \<in> set (g_slots g). ms_group m = 0) \<and> g_counts g = None)"
proof -
  note ok = group_invD(1) [OF gw_invD(2) [OF group_reach_inv [OF assms(1)] assms(2)]]
  have c: "counts_ok g" and d: "distinct (map ms_guid (g_slots g))" using group_okD [OF ok] by simp_all
  show ?thesis
  proof (cases "g_counts g")
    case (Some cs)
    have r: "is_raid_group g" "\<forall>m \<in> set (g_slots g). unat (ms_group m) < MAX_RAID_SUBGROUPS" "length cs = MAX_RAID_SUBGROUPS"
      "\<forall>i < MAX_RAID_SUBGROUPS. unat (cs ! i) = sub_count i (g_slots g) \<and> sub_count i (g_slots g) \<le> MAXGROUPSIZE"
      using c Some by (simp_all add: counts_ok_def)
    have "length (g_slots g) = (\<Sum>i<MAX_RAID_SUBGROUPS. sub_count i (g_slots g))" using sum_sub_count r(2) by simp
    also have "\<dots> \<le> (\<Sum>i<MAX_RAID_SUBGROUPS. MAXGROUPSIZE)" by (rule sum_mono) (use r(4) in simp)
    finally have "length (g_slots g) \<le> MAXRAIDSIZE" by (simp add: group_size_defs)
    then show ?thesis using r d Some by (simp add: sub_count_def)
  qed (use c d in \<open>simp add: counts_ok_def\<close>)
qed

theorem group_sizes_kept_witness:
  "\<exists>g. gw_groups bob_joined 0 = Some g \<and> length (g_slots g) = 2 \<and> distinct (map ms_guid (g_slots g))"
proof -
  obtain g where g: "gw_groups bob_joined 0 = Some g" "map ms_guid (g_slots g) = [7, 9]" by (rule bob_joined_members)
  from group_sizes_kept [OF bob_joined_reach g(1)] g show ?thesis by (auto dest: arg_cong [of _ _ length])
qed



text \<open>Claim C17: an accepted invitation makes the player a member: if the group is not full and the
  scripts let him in, he is the last of the members afterwards, after those that were there or,
  if the group has just been proposed, after its leader; his player object points to the group and
  the invitation is used up.\<close>

theorem accepted_invitation_joins:
  assumes "group_reach w" "get_group_invite w x = Some p" "gw_groups w p = Some g" "gw_next_id w \<noteq> 0xFFFFFFFF"
    and "\<not> ge_spectator e x" "ge_can_accept e x p" "g_leader g \<noteq> x" "\<not> is_full g"
    and "\<not> is_created g \<Longrightarrow> \<not> ge_spectator e (g_leader g) \<and> get_group_invite w (g_leader g) = Some p"
  shows "(\<exists>g'. gw_groups (group_accept e x w) p = Some g'
      \<and> map ms_guid (g_slots g') = (if is_created g then map ms_guid (g_slots g) else [g_leader g]) @ [x])
    \<and> (grp_connected (group_accept e x w) x \<longrightarrow> get_group (group_accept e x w) x = Some p \<and> get_group_invite (group_accept e x w) x = None)"
proof -
  note inv = group_reach_inv [OF assms(1)]
  obtain g' where g': "gw_groups (group_accept e x w) p = Some g'"
    "map ms_guid (g_slots g') = (if is_created g then map ms_guid (g_slots g) else [g_leader g]) @ [x]"
    using accepted_members [OF inv assms(4,2,3,5-9)] by blast
  have waits: "leader_waits w q" if "get_group_invite w x = Some q" for q
    using that assms(2,3,9) by (auto simp: leader_waits_def is_created_def members_count_def)
  have i: "inv0 (group_accept e x w)" by (rule group_accept_inv [OF inv assms(4) waits])
  have x: "x \<in> members g' - {}" using arg_cong [OF g'(2), of set] by simp
  have "get_group (group_accept e x w) x = Some p \<and> get_group_invite (group_accept e x w) x = None"
    if c: "grp_connected (group_accept e x w) x"
  proof -
    obtain pl where pl: "gw_players (group_accept e x w) x = Some pl" using c by (auto simp: grp_connected_def)
    have "ref_target (gp_ref pl) = Some p" by (rule group_invD(6) [OF gw_invD(2) [OF i g'(1)] x pl])
    moreover from this have "gp_invite pl = None" using player_invD(4) [OF gw_invD(1) [OF i pl]] by (cases "gp_invite pl") auto
    ultimately show ?thesis by (simp add: get_group_def get_group_invite_def pl)
  qed
  then show ?thesis using g' by blast
qed

theorem accepted_invitation_joins_witness:
  "\<exists>g'. gw_groups (group_accept group_env_example 9 bob_invited) 0 = Some g' \<and> map ms_guid (g_slots g') = [7, 9]"
proof -
  obtain g where g: "gw_groups bob_invited 0 = Some g" "g_leader g = 7" "g_slots g = []" "\<not> is_full g"
    using bob_waits by (auto simp: invitation_waits_def split: option.splits)
  have w: "get_group_invite bob_invited 9 = Some 0" "get_group_invite bob_invited 7 = Some 0" "gw_next_id bob_invited \<noteq> 0xFFFFFFFF"
    using bob_waits by (simp_all add: invitation_waits_def)
  have e: "\<not> ge_spectator group_env_example y" "ge_can_accept group_env_example 9 0" for y by (simp_all add: group_env_example_def)
  have "\<not> is_created g" using g(3) by (simp add: is_created_def members_count_def)
  then show ?thesis using accepted_invitation_joins [OF bob_invited_reach w(1) g(1) w(3) e _ g(4)] g(2) w(2) e by simp
qed



section \<open>Where the code falls short\<close>

text \<open>The loop over the quest items of a loot does not count who may roll, so no roll for a quest
  item is ever started.\<close>

lemma quest_items_not_rolled: "rl_total (collect near (add_quest_roller e li) g (roll_new item li)) = 0"
proof -
  have "rl_total (fold (\<lambda>(x, orig) r. if near x then add_quest_roller e li x r else r) xs r) = rl_total r" for xs :: "(guid \<times> bool) list" and r
    by (induction xs arbitrary: r) (auto simp: add_quest_roller_def Let_def)
  then show ?thesis by (simp add: collect_def roll_new_def)
qed

text \<open>Reading a character from the database again drops its group, guild and arena teams from the
  cache; the next login does not find the group, which still lists the member.\<close>

lemma refreshed_entry_has_no_group:
  "get_character_group_guid_by_guid (update_character_group 9 77 example_cache) 9 = 77
   \<and> get_character_group_guid_by_guid (refresh_cache_entry 9 [(9, str ''Bob'', 2, 1, 0, 1, 70)] [] (update_character_group 9 77 example_cache)) 9 = 0"
  by code_simp

text \<open>A vote is counted again each time it is sent.\<close>

lemma votes_count_twice:
  "rl_need (fst (cast_vote x ROLL_NEED (fst (cast_vote x ROLL_NEED (r, w)), w'))) = rl_need r + 2"
  by (simp add: cast_vote_def roll_type_defs)

end
