(* ===== verification/GroupRollClaims.thy ===== *)
theory GroupRollClaims
  imports GroupClaims
begin

text \<open>
  Who wins a roll: the end of a roll is compared with the rule of the game, by which the highest
  number drawn by those who need the item wins, the first of them if there are several.
\<close>

section \<open>The rule\<close>

text \<open>Those who take part: they voted for it, are online and, when a map is given, on it.\<close>

definition contenders :: "group_env \<Rightarrow> nat option \<Rightarrow> (roll_vote \<Rightarrow> bool) \<Rightarrow> group_world \<Rightarrow> (guid \<times> roll_vote) list \<Rightarrow> (guid \<times> roll_vote) list" where
  "contenders e allowedMap P w votes = filter (\<lambda>(x, v). P v \<and> grp_find_player e w x \<noteq> None
     \<and> (allowedMap = None \<or> ge_on_map e x = allowedMap)) votes"

text \<open>The one at \<open>i\<close> is the first with the highest number; the numbers drawn start at \<open>d\<close>.\<close>

definition wins :: "group_env \<Rightarrow> nat \<Rightarrow> nat \<Rightarrow> nat \<Rightarrow> bool" where
  "wins e d n i \<longleftrightarrow> i < n \<and> (\<forall>j < n. ge_urand e (d + j) \<le> ge_urand e (d + i)) \<and> (\<forall>j < i. ge_urand e (d + j) < ge_urand e (d + i))"

section \<open>The drawing\<close>

definition drawn :: "group_env \<Rightarrow> nat \<Rightarrow> (guid \<times> roll_vote) list \<Rightarrow> draw_state \<Rightarrow> bool" where
  "drawn e d es s \<longleftrightarrow> (case s of (maxresul, maxguid, rollvote, gone, w) \<Rightarrow> gw_draws w = d + length es
     \<and> (if es = [] then maxresul = 0 \<and> maxguid = guid_empty
        else \<exists>i. wins e d (length es) i \<and> es ! i = (maxguid, rollvote) \<and> maxresul = ge_urand e (d + i)))"

lemma drawn_more:
  assumes "drawn e d es (maxresul, maxguid, rollvote, gone, w)" "0 < ge_urand e (d + length es)"
    and that: "gw_draws w' = Suc (d + length es)"
  shows "drawn e d (es @ [(x, v)]) (if maxresul < ge_urand e (d + length es) then (ge_urand e (d + length es), x, v, g', w')
    else (maxresul, maxguid, rollvote, g', w'))"
proof (cases "es = []")
  case True
  then show ?thesis using assms that by (auto simp: drawn_def wins_def)
next
  case False
  then obtain i where i: "wins e d (length es) i" "es ! i = (maxguid, rollvote)" "maxresul = ge_urand e (d + i)"
    using assms(1) by (auto simp: drawn_def)
  let ?n = "ge_urand e (d + length es)"
  show ?thesis
  proof (cases "maxresul < ?n")
    case True
    have "wins e d (Suc (length es)) (length es)"
      using i(1,3) True by (auto simp: wins_def less_Suc_eq intro: le_less_trans order.strict_implies_order)
    then show ?thesis using True that by (auto simp: drawn_def)
  next
    case False
    then have "wins e d (Suc (length es)) i" using i(1,3) by (auto simp: wins_def less_Suc_eq)
    moreover have "(es @ [(x, v)]) ! i = (maxguid, rollvote)" using i(1,2) by (simp add: wins_def nth_append)
    ultimately show ?thesis using False i(3) that by (auto simp: drawn_def)
  qed
qed

lemma send_to_voters_keeps:
  "gw_players (send_to_voters P r pk w) = gw_players w \<and> gw_draws (send_to_voters P r pk w) = gw_draws w
   \<and> gw_loots (send_to_voters P r pk w) = gw_loots w"
proof -
  have "gw_players (fold f xs w) = gw_players w \<and> gw_draws (fold f xs w) = gw_draws w \<and> gw_loots (fold f xs w) = gw_loots w"
    if "\<And>y v. gw_players (f y v) = gw_players v \<and> gw_draws (f y v) = gw_draws v \<and> gw_loots (f y v) = gw_loots v"
    for f :: "guid \<times> roll_vote \<Rightarrow> group_world \<Rightarrow> group_world" and xs
    by (induction xs arbitrary: w) (simp_all add: that)
  then show ?thesis unfolding send_to_voters_def by (rule) (auto simp: send_to_def glog_def)
qed

lemma draw_fold_drawn:
  assumes pos: "\<And>k. 0 < ge_urand e k"
  shows "drawn e (gw_draws w) (contenders e m P w votes) (fold (draw e m P r) votes (0, guid_empty, NOT_VALID, 0, w))
    \<and> (case fold (draw e m P r) votes (0, guid_empty, NOT_VALID, 0, w) of (mx, mg, rv, gone, w') \<Rightarrow>
        gw_players w' = gw_players w \<and> gw_loots w' = gw_loots w
        \<and> gone + length (contenders e m P w votes) = length (filter (\<lambda>(x, v). P v) votes))"
proof (induction votes rule: rev_induct)
  case (snoc xv votes)
  obtain x v where xv: "xv = (x, v)" by (cases xv)
  obtain mx mg rv gone w1 where s: "fold (draw e m P r) votes (0, guid_empty, NOT_VALID, 0, w) = (mx, mg, rv, gone, w1)" by (metis prod.exhaust)
  let ?es = "contenders e m P w votes"
  have IH: "drawn e (gw_draws w) ?es (mx, mg, rv, gone, w1)" "gw_players w1 = gw_players w" "gw_loots w1 = gw_loots w"
    "gone + length ?es = length (filter (\<lambda>(x, v). P v) votes)"
    using snoc.IH s by simp_all
  have f: "grp_find_player e w1 y = grp_find_player e w y" for y using IH(2) by (simp add: grp_find_player_def)
  have d: "gw_draws w1 = gw_draws w + length ?es" using IH(1) by (simp add: drawn_def)
  consider (other) "\<not> P v" | (away) "P v" "grp_find_player e w x = None \<or> m \<noteq> None \<and> ge_on_map e x \<noteq> m"
    | (here) "P v" "grp_find_player e w x \<noteq> None" "m = None \<or> ge_on_map e x = m" by metis
  then show ?case
  proof cases
    case other
    then have "contenders e m P w (votes @ [xv]) = ?es" by (simp add: contenders_def xv)
    moreover have "draw e m P r xv (mx, mg, rv, gone, w1) = (mx, mg, rv, gone, w1)" using other by (simp add: draw_def xv)
    ultimately show ?thesis using IH s other by (simp add: xv)
  next
    case away
    then have "contenders e m P w (votes @ [xv]) = ?es" by (auto simp: contenders_def xv)
    moreover have "draw e m P r xv (mx, mg, rv, gone, w1) = (mx, mg, rv, gone + 1, w1)" using away f by (simp add: draw_def xv)
    ultimately show ?thesis using IH s away(1) by (simp add: xv drawn_def)
  next
    case here
    then have es: "contenders e m P w (votes @ [xv]) = ?es @ [(x, v)]" by (simp add: contenders_def xv)
    let ?w = "send_loot_roll guid_empty x (ge_urand e (gw_draws w1)) (vote_number v) False r (w1\<lparr>gw_draws := gw_draws w1 + 1\<rparr>)"
    have k: "gw_draws ?w = Suc (gw_draws w + length ?es)" "gw_players ?w = gw_players w" "gw_loots ?w = gw_loots w"
      using IH(2,3) d by (simp_all add: send_loot_roll_def send_to_voters_keeps)
    have "draw e m P r xv (mx, mg, rv, gone, w1)
      = (if mx < ge_urand e (gw_draws w1) then (ge_urand e (gw_draws w1), x, v, gone, ?w) else (mx, mg, rv, gone, ?w))"
      using here f by (auto simp: draw_def xv Let_def)
    moreover note drawn_more [OF IH(1) pos k(1), of x v gone]
    ultimately show ?thesis using s es IH(4) here(1) k by (simp add: d xv split: if_splits)
  qed
qed (simp add: drawn_def contenders_def)

section \<open>The prize\<close>

text \<open>The item in the slot goes to the player, or he keeps the right to it.\<close>

definition awarded :: "group_env \<Rightarrow> nat \<Rightarrow> u8 \<Rightarrow> u32 \<Rightarrow> guid \<Rightarrow> loot_item \<Rightarrow> group_world \<Rightarrow> bool" where
  "awarded e l slot itemid x li w \<longleftrightarrow> (\<exists>lt. gw_loots w l = Some lt \<and> loot_slot lt slot = Some
     (if ge_can_store e x itemid (li_count li) = 0 then li\<lparr>li_looted := True\<rparr> else li\<lparr>li_blocked := False, li_winner := x\<rparr>))
   \<and> (ge_can_store e x itemid (li_count li) = 0 \<longrightarrow> GItemStored x itemid (li_count li) \<in> set (gw_log w))"

lemma loot_slot_upd_same: "loot_slot lt s = Some li \<Longrightarrow> loot_slot (upd_loot_slot s f lt) s = Some (f li)"
  by (auto simp: loot_slot_def upd_loot_slot_def Let_def split: if_splits)

lemma award_item_awarded:
  assumes "gw_loots w l = Some lt" "loot_slot lt (rl_slot r) = Some li"
  shows "awarded e l (rl_slot r) (rl_item r) x li (award_item e l r x w)"
proof (cases "ge_can_store e x (rl_item r) (li_count li) = 0")
  case True
  have "loot_slot ((upd_loot_slot (rl_slot r) (\<lambda>i. i\<lparr>li_looted := True\<rparr>) lt)\<lparr>lt_unlooted := n\<rparr>) (rl_slot r) = Some (li\<lparr>li_looted := True\<rparr>)" for n
    using loot_slot_upd_same [OF assms(2)] by (simp add: loot_slot_unlooted)
  then show ?thesis using True assms by (simp add: award_item_def awarded_def glog_def upd_loot_def Let_def)
next
  case False
  then show ?thesis using assms loot_slot_upd_same [OF assms(2)] by (simp add: award_item_def awarded_def glog_def upd_loot_def Let_def)
qed

section \<open>The claim\<close>

text \<open>Claim C18: when a roll ends whose total of needs is the number of those who voted for need, and one
  of them is still there, the item goes to the first of these who draws the highest number: it is
  put into his bags and marked as looted or, when they are full, he keeps the right to it.\<close>

theorem highest_need_wins:
  assumes "rl_loot r = Some l" "gw_loots w l = Some lt" "loot_slot lt (rl_slot r) = Some li"
    and "unat (rl_need r) = length (filter (\<lambda>(x, v). v = NEED) (rl_votes r))"
    and "contenders e allowedMap (\<lambda>v. v = NEED) w (rl_votes r) \<noteq> []"
    and "\<And>k. 0 < ge_urand e k" "gw_players w guid_empty = None"
  shows "\<exists>i. wins e (gw_draws w) (length (contenders e allowedMap (\<lambda>v. v = NEED) w (rl_votes r))) i
    \<and> awarded e l (rl_slot r) (rl_item r) (fst (contenders e allowedMap (\<lambda>v. v = NEED) w (rl_votes r) ! i)) li (count_the_roll e allowedMap r w)"
proof -
  let ?es = "contenders e allowedMap (\<lambda>v. v = NEED) w (rl_votes r)"
  obtain mx mg rv gone w1 where s: "draw_all e allowedMap (\<lambda>v. v = NEED) r w = (mx, mg, rv, gone, w1)" by (metis prod.exhaust)
  note D = draw_fold_drawn [OF assms(6), of w allowedMap "\<lambda>v. v = NEED" "rl_votes r" r, folded draw_all_def, unfolded s prod.case]
  have d: "drawn e (gw_draws w) ?es (mx, mg, rv, gone, w1)" and k: "gw_players w1 = gw_players w" "gw_loots w1 = gw_loots w"
    and n: "gone + length ?es = unat (rl_need r)" using D assms(4) by auto
  obtain i where i: "wins e (gw_draws w) (length ?es) i" "?es ! i = (mg, rv)" using d assms(5) by (auto simp: drawn_def)
  have "?es ! i \<in> set ?es" using i(1) by (intro nth_mem) (simp add: wins_def)
  then have mg: "grp_find_player e w mg \<noteq> None" using i(2) by (simp add: contenders_def)
  then have "gw_players w mg \<noteq> None" by (simp add: grp_find_player_def split: if_splits)
  then have ne: "\<not> is_empty mg" using assms(7) by (auto simp: is_empty_def guid_empty_def)
  have votes: "rl_votes r \<noteq> []" using assms(5) by (auto simp: contenders_def)
  have "rl_need r - of_nat gone = of_nat (length ?es)"
  proof -
    have "rl_need r = of_nat (unat (rl_need r))" by simp
    also have "\<dots> = of_nat gone + of_nat (length ?es)" by (simp flip: n)
    finally show ?thesis by simp
  qed
  moreover have "length ?es < 2 ^ 8" using n unsigned_less [of "rl_need r", where 'a = nat] by simp
  then have "unat (of_nat (length ?es) :: u8) = length ?es" by (simp add: unsigned_of_nat take_bit_nat_eq_self)
  ultimately have left: "rl_need r - of_nat gone \<noteq> 0" using assms(5) by (metis length_0_conv unsigned_0)
  let ?r = "r\<lparr>rl_need := rl_need r - of_nat gone\<rparr>"
  let ?w = "award_item e l ?r mg (glog (GAchievement mg ROLL_NEED mx) (send_loot_roll_won guid_empty mg mx ROLL_NEED ?r w1))"
  have kw: "gw_players (send_loot_roll_won guid_empty mg mx ROLL_NEED ?r w1) = gw_players w"
    "gw_loots (send_loot_roll_won guid_empty mg mx ROLL_NEED ?r w1) = gw_loots w"
    using k by (simp_all add: send_loot_roll_won_def send_to_voters_keeps)
  have f: "grp_find_player e (send_loot_roll_won guid_empty mg mx ROLL_NEED ?r w1) mg \<noteq> None"
    using mg unfolding grp_find_player_def kw(1) .
  have needs: "count_needs e allowedMap l (r, w) = (?r, ?w)"
    using s ne f votes n assms(5) by (auto simp: count_needs_def Let_def word_greater_zero_iff)
  have "count_the_roll e allowedMap r w = (case gw_loots ?w l of Some lt \<Rightarrow> if is_looted lt \<and> lt_chest lt then glog (GChestEmpty l) ?w else ?w
          | None \<Rightarrow> ?w)"
    using assms(1) left by (simp add: count_the_roll_def needs count_greeds_def)
  moreover have a: "awarded e l (rl_slot r) (rl_item r) mg li ?w"
    using award_item_awarded [of "glog (GAchievement mg ROLL_NEED mx) (send_loot_roll_won guid_empty mg mx ROLL_NEED ?r w1)" l lt ?r li e mg]
      kw(2) assms(2,3) by simp
  moreover have "awarded e l (rl_slot r) (rl_item r) mg li (glog (GChestEmpty l) ?w)"
    using a by (auto simp: awarded_def glog_def)
  ultimately have "awarded e l (rl_slot r) (rl_item r) mg li (count_the_roll e allowedMap r w)" by (simp split: option.split)
  then show ?thesis using i by (metis fst_conv)
qed
definition roll_env_example :: group_env where
  "roll_env_example = group_env_example\<lparr>ge_urand := \<lambda>k. if k = 0 then 30 else 80\<rparr>"

definition loot_item_example :: loot_item where
  "loot_item_example = \<lparr>li_item = 19019, li_count = 1, li_random_prop = 0, li_random_suffix = 0, li_free_for_all = False,
     li_under_threshold = False, li_follow_rules = False, li_looted = False, li_blocked = True, li_winner = 0\<rparr>"

definition roll_example :: roll where
  "roll_example = (roll_new 500 loot_item_example)\<lparr>rl_loot := Some 5, rl_votes := [(7, NEED), (9, NEED)], rl_total := 2, rl_need := 2\<rparr>"

definition looted_world :: group_world where
  "looted_world = both_online\<lparr>gw_loots := (\<lambda>_. None)(5 \<mapsto> \<lparr>lt_items = [loot_item_example], lt_quest_items = [], lt_gold = 0,
     lt_unlooted = 1, lt_chest = False\<rparr>)\<rparr>"

theorem highest_need_wins_witness:
  "\<exists>i. wins roll_env_example 0 2 i
    \<and> awarded roll_env_example 5 0 19019 (fst ([(7, NEED), (9, NEED)] ! i)) loot_item_example (count_the_roll roll_env_example None roll_example looted_world)"
proof -
  have c: "contenders roll_env_example None (\<lambda>v. v = NEED) looted_world (rl_votes roll_example) = [(7, NEED), (9, NEED)]"
    "gw_draws looted_world = 0" by code_simp+
  have z: "gw_players looted_world guid_empty = None" by code_simp
  have r: "rl_loot roll_example = Some 5" "rl_slot roll_example = 0" "rl_item roll_example = 19019"
    "unat (rl_need roll_example) = length (filter (\<lambda>(x, v). v = NEED) (rl_votes roll_example))"
    by (simp_all add: roll_example_def roll_new_def loot_item_example_def)
  obtain lt where lt: "gw_loots looted_world 5 = Some lt" "loot_slot lt (rl_slot roll_example) = Some loot_item_example"
    unfolding looted_world_def r(2) by (simp add: loot_slot_def)
  have u: "0 < ge_urand roll_env_example k" for k by (simp add: roll_env_example_def)
  from highest_need_wins [OF r(1) lt r(4) _ u z, of None] show ?thesis by (simp add: c r numeral_2_eq_2)
qed
end
