(* ===== verification/Spec2Isabelle.thy ===== *)
theory Spec2Isabelle
  imports Packets ObjectGuid UpdateMask WorldSocket SendPath AuthSession EventMap Timers CircularBuffer BaseEncoding SocialHandlers ChatClaims CharacterCache GroupRollClaims
begin

text \<open>
  A verification library for the world server of AzerothCore (src/src/server and src/src/common):
  the bytes a client sends up to the packets the handlers read, the login of a connection, the
  services that keep shared state between players (friend lists, chat channels, names, the cache of
  characters, parties and raids), and the utilities they rest on.

  \<^bold>\<open>The program and its parts.\<close> A \<open>WorldSocket\<close> (game/Server) receives bytes, cuts them into
  packets and hands them to a \<open>WorldSession\<close>; what the server sends goes through the socket's
  queues back to the kernel. Handlers (game/Handlers) read a packet field by field and call the
  services: \<open>SocialMgr\<close> (Entities/Player), \<open>Channel\<close> with \<open>ChannelMgr\<close> (Chat/Channels),
  \<open>CharacterCache\<close> (Cache) and \<open>Group\<close> with \<open>GroupMgr\<close> (Groups) are the ones modelled. Objects have a \<open>ObjectGuid\<close>, their changed fields an \<open>UpdateMask\<close>
  (Entities/Object), scripts schedule with an \<open>EventMap\<close> (common/Utilities).

  \<^bold>\<open>Theories.\<close> One theory per component, in the order of the data flow.
  \<^item> Prelude: bytes, strings, results of fallible code (\<open>res_bind\<close>), little-endian numbers,
    ordered maps and multimaps, lemma collections.
  \<^item> Utf8 (deps/utf8cpp: \<open>utf8::is_valid\<close>), ByteBuffer (shared/Packets/ByteBuffer.h, .cpp), Packets
    (fields of a packet, packed GUIDs and times): a buffer is its storage with two positions; every
    read can throw, as the code does. Packets shows that what is written is read back, and that no
    packet makes a read leave the buffer.
  \<^item> ObjectGuid, UpdateMask: layout of the 64-bit identifier, generators of counters, bit masks.
  \<^item> MessageBuffer, WorldSocket (receive path), SendPath (send path): the loops over the buffers. The
    receive path is a refinement of a parser of the byte stream, so the cut into reads is
    irrelevant; the send path delivers the queued packets in order, whatever the kernel accepts.
  \<^item> AuthSession: \<open>CMSG_AUTH_SESSION\<close>, the callback of the account query with every refusal, pings,
    and the connection as a transition system with its invariant.
  \<^item> EventMap, Timers, CircularBuffer, BaseEncoding, StringConvert: the utilities.
  \<^item> Players: what the services read of players and accounts. SocialMgr, SocialHandlers: the friend
    and ignore lists, their table in the database, and the packets on them.
  \<^item> WideText, CharCase, Names: conversion to wide strings, classes and cases of letters, normal form
    and checks of names.
  \<^item> Chat, Channel, ChannelOps: tokenizing and chat packets, state and notices of a channel, its
    operations. ChannelInv, ChannelSteps, ChannelRuns, ChannelClaims: the invariant of a channel,
    that each operation keeps it, a channel as a transition system, and the claims.
  \<^item> ChannelMgr, ChannelHandlers: all channels of both factions, the lists of the players, the
    packets about channels and the channels of zones. ChannelMoves, ChatSystem, ChatClaims: the
    system of all channels and players, in which lists and members agree.
  \<^item> CharacterCache: the store of characters and its index of names, which share nodes by pointer;
    both agree in every state the server can reach.
  \<^item> Group (Groups/Group.h, .cpp: members, subgroups and their counters, flags), GroupWorld (the
    world of players and groups: the references both ways, what is sent), GroupRolls and GroupLoot
    (rolls: \<open>CountRollVote\<close>, \<open>CountTheRoll\<close>, \<open>GroupLoot\<close>, \<open>NeedBeforeGreed\<close>, \<open>MasterLoot\<close>), GroupOps
    (joining, leaving, disbanding, the manager, loading, logging in and out), GroupHandlers
    (GroupHandler.cpp, one definition per packet).
  \<^item> GroupNeutral, GroupRollSafety, GroupLootSafety: operations that change neither membership nor
    pointers, and that rolls stay within their loot. GroupInv states the invariant \<open>gw_inv\<close> of the
    world of groups; GroupMoves (invitations), GroupEnds (disbanding), GroupLeave (removal),
    GroupJoin (joining and founding), GroupMembers (subgroups, raids), GroupSessions (settings,
    logging in and out) and GroupSteps (the packets) show that everything keeps it. Its parameters
    are the groups, leaders and members an operation in progress has not finished with.
  \<^item> GroupReach, GroupRemoval, GroupClaims: the worlds a server reaches that starts without groups,
    who is left after a removal, and the claims. GroupRollClaims: who wins a roll. An invitation is accepted there only while the
    leader of a proposed group still waits in it, and the last group number has not been given out:
    without the first, the code makes him a member of two groups.

  \<^bold>\<open>How state and effects are modelled.\<close> A class is a record with the members of the class, an
  operation a function that returns the record updated; machine integers are words of their
  width. Calls into the rest of the server (packets sent, statements of the database, kicks) are
  appended to a log in the order of the code. A pointer to a player is his GUID, looked up among
  the connected players when it is followed; a pointer that leads nowhere is logged as
  \<open>BadPointer\<close>, and the invariants show it never is. An unordered container is an association
  list, iterated in an order the environment chooses. An exception is \<open>Inl\<close>, an assertion \<open>None\<close>.

  \<^bold>\<open>Parameters.\<close> The cipher, the digest and the compression of packets (OpenSSL, zlib), the answer of
  the kernel to a write, the clock, the rows of the databases and of the client's tables, and the
  hooks of scripts are arguments of the definitions. What is assumed of them (the cipher keeps
  lengths, players are found under their GUID, time does not go back) is named in each theorem.

  \<^bold>\<open>Bounds and termination.\<close> All loops are structural or have a termination proof; none needs fuel
  but the reads of a C string, whose bound is the length of the buffer, and the queue of the
  send path, whose bound \<open>handle_queue_loop_enough\<close> shows to suffice.

  \<^bold>\<open>Not modelled.\<close> Of groups: the queue for battlegrounds (\<open>CanJoinBattlegroundQueue\<close>), resetting
  instances, updates of visible fields and the packets with the members' statistics; the dungeon
  finder, instances and items are read through parameters and called through the log. Loading
  groups is modelled, but the reachable worlds start from empty tables, since \<open>LoadMemberFromDB\<close>
  trusts the rows. The simulation of the world itself: units, spells, movement, maps and grids,
  quests, the filling of loot, instances, battlegrounds, the script engines and the scripts of creatures. Their
  functions read and write hundreds of members of \<open>Unit\<close> and \<open>Player\<close> and the terrain, so a faithful
  definition of one needs most of the others. Also left out are the database layer, the metrics
  and logging, the network reactors of boost, the tools, and the third-party code under deps.
\<close>

end
